(* ===== verification/Prelude.thy ===== *)
theory Prelude
  imports Main "HOL-Library.Word" "HOL-Library.Multiset" "HOL-Library.Monad_Syntax"
begin

text \<open>
  Shared vocabulary of the development: the machine integer types of the driver, the
  collections of rewrite rules the component theories extend, and the generic facts on
  words, lists and options that more than one component uses.

  Conventions: a C integer whose wrap-around matters is a word of its width; a value that the
  code keeps far below its width is a \<open>nat\<close> with the truncation of each store written out
  (\<open>trunc8\<close>, \<open>trunc16\<close>, \<open>trunc32\<close>). Undefined behaviour of the C code (an index outside an
  array, a division by zero, a loop that does not end) is the value \<open>None\<close>.
\<close>

unbundle bit_operations_syntax

type_synonym u8 = "8 word"
type_synonym u16 = "16 word"
type_synonym u32 = "32 word"
type_synonym u64 = "64 word"

named_theorems xor_lin \<comment> \<open>functions on words that distribute over exclusive or\<close>
named_theorems preserves \<comment> \<open>an operation keeps a component's invariant\<close>
named_theorems frame \<comment> \<open>fields an operation leaves alone\<close>

section \<open>Stores that truncate\<close>

definition trunc8 :: "nat \<Rightarrow> nat" where
  "trunc8 n = n mod 256"

definition trunc16 :: "nat \<Rightarrow> nat" where
  "trunc16 n = n mod 65536"

definition trunc32 :: "nat \<Rightarrow> nat" where
  "trunc32 n = n mod 4294967296"

lemma trunc_id [simp]:
  "n < 256 \<Longrightarrow> trunc8 n = n"
  "n < 65536 \<Longrightarrow> trunc16 n = n"
  "n < 4294967296 \<Longrightarrow> trunc32 n = n"
  by (simp_all add: trunc8_def trunc16_def trunc32_def)

lemma trunc_less [simp]:
  "trunc8 n < 256" "trunc16 n < 65536" "trunc32 n < 4294967296"
  by (simp_all add: trunc8_def trunc16_def trunc32_def)

text \<open>Evaluation of the larger truncations on binary integers.\<close>

lemma trunc16_code [code]: "trunc16 n = nat (int n mod 65536)"
  by (simp add: trunc16_def nat_mod_as_int)

lemma trunc32_code [code]: "trunc32 n = nat (int n mod 4294967296)"
  by (simp add: trunc32_def nat_mod_as_int)

lemma trunc_le [simp]: "trunc8 n \<le> n" "trunc16 n \<le> n" "trunc32 n \<le> n"
  by (simp_all add: trunc8_def trunc16_def trunc32_def)

section \<open>Error codes\<close>

definition EPERM :: int where "EPERM = 1"
definition EIO :: int where "EIO = 5"
definition EAGAIN :: int where "EAGAIN = 11"
definition ENOMEM :: int where "ENOMEM = 12"
definition EFAULT :: int where "EFAULT = 14"
definition ENODEV :: int where "ENODEV = 19"
definition EINVAL :: int where "EINVAL = 22"
definition ENOSPC :: int where "ENOSPC = 28"
definition EMSGSIZE :: int where "EMSGSIZE = 90"
definition ETIMEDOUT :: int where "ETIMEDOUT = 110"

section \<open>Words\<close>

lemma xor_cancel_left [simp]: "(a :: 'a::len word) XOR (a XOR b) = b"
  by (simp add: xor.assoc [symmetric])

lemma xor_swap4: "((a :: 'a::len word) XOR b) XOR (c XOR d) = (a XOR c) XOR (b XOR d)"
  by (simp add: ac_simps)

lemma word16_induct_bits [case_names zero single xor]:
  fixes P :: "u16 \<Rightarrow> bool"
  assumes zero: "P 0"
    and single: "\<And>i. i < 16 \<Longrightarrow> P (2 ^ i)"
    and xor: "\<And>a b. P a \<Longrightarrow> P b \<Longrightarrow> P (a XOR b)"
  shows "P w"
proof -
  have "P (take_bit n w)" if "n \<le> 16" for n
    using that
  proof (induction n)
    case 0
    show ?case by (simp add: zero)
  next
    case (Suc n)
    have IH: "P (take_bit n w)" using Suc by simp
    have split: "take_bit (Suc n) w = (if bit w n then 2 ^ n XOR take_bit n w else take_bit n w)"
      using Suc.prems
      by (auto intro!: bit_word_eqI simp: bit_simps less_Suc_eq)
    from Suc.prems have "P (2 ^ n)" by (intro single) simp
    with IH show ?case by (simp add: split xor)
  qed
  from this [of 16] show ?thesis by (simp add: take_bit_word_eq_self)
qed

lemma bit_u8_ge: "8 \<le> n \<Longrightarrow> \<not> bit (b :: u8) n"
  using bit_imp_le_length [of b n] by auto

lemma bit_u16_ge: "16 \<le> n \<Longrightarrow> \<not> bit (b :: u16) n"
  using bit_imp_le_length [of b n] by auto

lemma bit_below: "w < 2 ^ k \<Longrightarrow> bit (w :: nat) i \<Longrightarrow> i < k"
  by (metis bit_take_bit_iff take_bit_nat_eq_self_iff)

lemma mask8: "(0xff :: 'a::len word) = mask 8"
  by (simp add: mask_eq_exp_minus_1)

section \<open>Lists\<close>

text \<open>A read that the C code does not check: \<open>None\<close> outside the array.\<close>

definition nth_opt :: "'a list \<Rightarrow> nat \<Rightarrow> 'a option" where
  "nth_opt xs i = (if i < length xs then Some (xs ! i) else None)"

lemma nth_opt_Some [simp]: "i < length xs \<Longrightarrow> nth_opt xs i = Some (xs ! i)"
  by (simp add: nth_opt_def)

lemma nth_opt_None [simp]: "length xs \<le> i \<Longrightarrow> nth_opt xs i = None"
  by (simp add: nth_opt_def)

text \<open>Division as the C code does it: no value for a zero divisor.\<close>

definition div_opt :: "nat \<Rightarrow> nat \<Rightarrow> nat option" where
  "div_opt a b = (if b = 0 then None else Some (a div b))"

lemma div_opt_Some [simp]: "0 < b \<Longrightarrow> div_opt a b = Some (a div b)"
  by (simp add: div_opt_def)

definition mod_opt :: "nat \<Rightarrow> nat \<Rightarrow> nat option" where
  "mod_opt a b = (if b = 0 then None else Some (a mod b))"

lemma mod_opt_Some [simp]: "0 < b \<Longrightarrow> mod_opt a b = Some (a mod b)"
  by (simp add: mod_opt_def)

text \<open>
  A \<open>for\<close> loop over known indices whose body may fail. The rule turns a loop invariant into
  "the loop returns and the invariant holds at the end".
\<close>

primrec ofold :: "('a \<Rightarrow> 's \<Rightarrow> 's option) \<Rightarrow> 'a list \<Rightarrow> 's \<Rightarrow> 's option" where
  "ofold f [] s = Some s"
| "ofold f (x # xs) s = do { s' \<leftarrow> f x s; ofold f xs s' }"

lemma ofold_rule:
  assumes "I s" and "\<And>x s. x \<in> set xs \<Longrightarrow> I s \<Longrightarrow> \<exists>s'. f x s = Some s' \<and> I s'"
  shows "\<exists>s'. ofold f xs s = Some s' \<and> I s'"
  using assms
proof (induction xs arbitrary: s)
  case Nil
  then show ?case by simp
next
  case (Cons x xs)
  from Cons.prems obtain t where "f x s = Some t" "I t" by fastforce
  moreover from this Cons obtain u where "ofold f xs t = Some u" "I u" by (metis list.set_intros(2))
  ultimately show ?case by simp
qed

lemma ofold_inv:
  assumes "ofold f xs s = Some s'" and "I s"
    and "\<And>x s s'. x \<in> set xs \<Longrightarrow> I s \<Longrightarrow> f x s = Some s' \<Longrightarrow> I s'"
  shows "I s'"
  using assms
proof (induction xs arbitrary: s)
  case Nil
  then show ?case by simp
next
  case (Cons x xs)
  from Cons.prems obtain t where "f x s = Some t" "ofold f xs t = Some s'" by (auto split: Option.bind_splits)
  with Cons show ?case by (metis list.set_intros(1) list.set_intros(2))
qed

lemma ofold_append: "ofold f (xs @ ys) s = Option.bind (ofold f xs s) (ofold f ys)"
  by (induction xs arbitrary: s) (auto split: Option.bind_splits)

lemma ofold_upt_rule:
  assumes "I 0 s" "\<And>i s. i < n \<Longrightarrow> I i s \<Longrightarrow> \<exists>t. f i s = Some t \<and> I (Suc i) t"
  shows "\<exists>t. ofold f [0..<n] s = Some t \<and> I n t"
  using assms
proof (induction n)
  case 0
  then show ?case by simp
next
  case (Suc n)
  then obtain t where "ofold f [0..<n] s = Some t" "I n t" by fastforce
  moreover from Suc.prems(2) [of n t] this obtain u where "f n t = Some u" "I (Suc n) u" by auto
  ultimately show ?case by (simp add: ofold_append)
qed

text \<open>A store into an array at an index that must be inside it.\<close>

definition upd_opt :: "'a list \<Rightarrow> nat \<Rightarrow> ('a \<Rightarrow> 'a) \<Rightarrow> 'a list option" where
  "upd_opt xs i f = (if i < length xs then Some (xs[i := f (xs ! i)]) else None)"

lemma upd_opt_Some [simp]: "i < length xs \<Longrightarrow> upd_opt xs i f = Some (xs[i := f (xs ! i)])"
  by (simp add: upd_opt_def)

text \<open>The octets of a little-endian word.\<close>

definition le32 :: "u32 \<Rightarrow> u8 list" where
  "le32 w = [ucast w, ucast (drop_bit 8 w), ucast (drop_bit 16 w), ucast (drop_bit 24 w)]"

text \<open>A word read from the octets of a buffer, \<open>None\<close> behind its end.\<close>

definition le16_at :: "u8 list \<Rightarrow> nat \<Rightarrow> u16 option" where
  "le16_at b i = do { x \<leftarrow> nth_opt b i; y \<leftarrow> nth_opt b (i + 1); Some (ucast x OR push_bit 8 (ucast y)) }"

definition le32_at :: "u8 list \<Rightarrow> nat \<Rightarrow> u32 option" where
  "le32_at b i = do { x \<leftarrow> le16_at b i; y \<leftarrow> le16_at b (i + 2); Some (ucast x OR push_bit 16 (ucast y)) }"

lemma le32_at_le32: "le32_at (pre @ le32 w @ post) (length pre) = Some w"
proof -
  have "ucast (ucast (ucast w :: u8) OR push_bit 8 (ucast (ucast (drop_bit 8 w) :: u8)) :: u16) OR
      push_bit 16 (ucast (ucast (ucast (drop_bit 16 w) :: u8) OR push_bit 8 (ucast (ucast (drop_bit 24 w) :: u8)) :: u16)) = w"
  proof (rule bit_word_eqI, goal_cases)
    case (1 i)
    then show ?case
      by (cases "16 \<le> i"; cases "8 \<le> i"; cases "24 \<le> i")
        (auto simp: bit_or_iff bit_push_bit_iff bit_drop_bit_eq bit_unsigned_iff not_less)
  qed
  then show ?thesis by (simp add: le32_at_def le16_at_def le32_def nth_opt_def nth_append numeral_2_eq_2 numeral_3_eq_3)
qed

lemma length_le32 [simp]: "length (le32 w) = 4"
  by (simp add: le32_def)

definition le16 :: "u16 \<Rightarrow> u8 list" where
  "le16 w = [ucast w, ucast (drop_bit 8 w)]"

definition le64_octets :: "u64 \<Rightarrow> u8 list" where
  "le64_octets w = le32 (ucast w) @ le32 (ucast (drop_bit 32 w))"

definition le64_at :: "u8 list \<Rightarrow> nat \<Rightarrow> u64 option" where
  "le64_at b i = do { x \<leftarrow> le32_at b i; y \<leftarrow> le32_at b (i + 4); Some (ucast x OR push_bit 32 (ucast y)) }"

lemma length_le16 [simp]: "length (le16 v) = 2" and length_le64_octets [simp]: "length (le64_octets w) = 8"
  by (simp_all add: le16_def le64_octets_def)

lemma le16_at_le16: "le16_at (pre @ le16 w @ post) (length pre) = Some w"
proof -
  have "ucast (ucast w :: u8) OR push_bit 8 (ucast (ucast (drop_bit 8 w) :: u8)) = w"
  proof (rule bit_word_eqI, goal_cases)
    case (1 i)
    then show ?case by (cases "8 \<le> i") (auto simp: bit_or_iff bit_push_bit_iff bit_drop_bit_eq bit_unsigned_iff not_less)
  qed
  then show ?thesis by (simp add: le16_at_def le16_def nth_opt_def nth_append)
qed

lemma le64_at_le64: "le64_at (pre @ le64_octets w @ post) (length pre) = Some w"
proof -
  have "ucast (ucast w :: u32) OR push_bit 32 (ucast (ucast (drop_bit 32 w) :: u32)) = w"
  proof (rule bit_word_eqI, goal_cases)
    case (1 i)
    then show ?case by (cases "32 \<le> i") (auto simp: bit_or_iff bit_push_bit_iff bit_drop_bit_eq bit_unsigned_iff not_less)
  qed
  moreover have "le32_at (pre @ le64_octets w @ post) (length pre) = Some (ucast w)"
    using le32_at_le32 [of pre "ucast w"] by (simp add: le64_octets_def)
  moreover have "le32_at (pre @ le64_octets w @ post) (length pre + 4) = Some (ucast (drop_bit 32 w))"
    using le32_at_le32 [of "pre @ le32 (ucast w)" "ucast (drop_bit 32 w)"] by (simp add: le64_octets_def)
  ultimately show ?thesis by (simp add: le64_at_def)
qed

section \<open>Signed stores\<close>

definition strunc8 :: "int \<Rightarrow> int" where
  "strunc8 i = (i + 128) mod 256 - 128"

definition strunc32 :: "int \<Rightarrow> int" where
  "strunc32 i = (i + 2147483648) mod 4294967296 - 2147483648"

lemma strunc_id [simp]:
  "-128 \<le> i \<Longrightarrow> i < 128 \<Longrightarrow> strunc8 i = i"
  "-2147483648 \<le> i \<Longrightarrow> i < 2147483648 \<Longrightarrow> strunc32 i = i"
  by (simp_all add: strunc8_def strunc32_def)

section \<open>Operations that keep an invariant\<close>

text \<open>
  The contract between a component and its callers: an operation called as its callers call it
  (\<open>ok\<close>) in a state that satisfies the invariant returns and keeps the invariant. Each stateful
  component interprets the locale with its own operations; a sequence of calls is \<open>ofold\<close>.
\<close>

primrec all_ok :: "('e \<Rightarrow> 's \<Rightarrow> 's option) \<Rightarrow> ('e \<Rightarrow> 's \<Rightarrow> bool) \<Rightarrow> 'e list \<Rightarrow> 's \<Rightarrow> bool" where
  "all_ok step ok [] s = True"
| "all_ok step ok (e # es) s =
     (ok e s \<and> (case step e s of None \<Rightarrow> True | Some t \<Rightarrow> all_ok step ok es t))"

locale step_system =
  fixes step :: "'e \<Rightarrow> 's \<Rightarrow> 's option"
    and inv :: "'s \<Rightarrow> bool"
    and ok :: "'e \<Rightarrow> 's \<Rightarrow> bool"
  assumes step_ok: "inv s \<Longrightarrow> ok e s \<Longrightarrow> \<exists>t. step e s = Some t \<and> inv t"
begin

lemma run_ok: "inv s \<Longrightarrow> all_ok step ok es s \<Longrightarrow> \<exists>t. ofold step es s = Some t \<and> inv t"
proof (induction es arbitrary: s)
  case Nil
  then show ?case by simp
next
  case (Cons e es)
  then obtain t where "step e s = Some t" "inv t" using step_ok by fastforce
  with Cons show ?case by simp
qed

lemma run_append:
  "ofold step (es @ fs) s = Option.bind (ofold step es s) (ofold step fs)"
  by (induction es arbitrary: s) (auto split: Option.bind_splits)

end

section \<open>Results of partial steps\<close>

definition returns :: "('a \<Rightarrow> bool) \<Rightarrow> 'a option \<Rightarrow> bool" where
  "returns P m \<longleftrightarrow> (\<forall>r. m = Some r \<longrightarrow> P r)"

lemma returns_None [simp]: "returns P None" and returns_Some [simp]: "returns P (Some r) = P r"
  by (simp_all add: returns_def)

lemma returns_bind: "returns Q m \<Longrightarrow> (\<And>r. Q r \<Longrightarrow> returns P (f r)) \<Longrightarrow> returns P (Option.bind m f)"
  by (cases m) (simp_all add: returns_def)

lemma returns_any: "(\<And>r. returns P (f r)) \<Longrightarrow> returns P (Option.bind m f)"
  by (cases m) simp_all

lemma returns_mono: "returns Q m \<Longrightarrow> (\<And>r. Q r \<Longrightarrow> P r) \<Longrightarrow> returns P m"
  by (auto simp: returns_def)

text \<open>Most steps return the state first; the rest of the result does not matter for a property of it.\<close>

abbreviation fst_ok :: "('a \<Rightarrow> bool) \<Rightarrow> ('a \<times> 'b) option \<Rightarrow> bool" where
  "fst_ok P \<equiv> returns (\<lambda>r. P (fst r))"

lemma fst_ok_bind: "fst_ok Q m \<Longrightarrow> (\<And>a b. Q a \<Longrightarrow> returns P (f a b)) \<Longrightarrow> returns P (Option.bind m (\<lambda>(a, b). f a b))"
  by (cases m) auto

lemma returns_map [simp]: "returns P (map_option f m) = returns (\<lambda>r. P (f r)) m"
  by (cases m) simp_all

end
