(* ===== verification/Mmrc_Rates.thy ===== *)
theory Mmrc_Rates
  imports Prelude
begin

text \<open>
  The rate arithmetic of \<^verbatim>\<open>mmrc-submodule/src/core/mmrc.c\<close>, the rate control of the driver
  (built for 802.11ah, \<open>MMRC_MODE == MMRC_MODE_80211AH\<close>): the numbering of the rows of a
  station's statistics table (\<open>rows_from_sta_caps\<close>, \<open>rate_update_index\<close>, \<open>get_rate_row\<close>), the
  validity of a rate, the air time of a packet and the theoretical throughput.
  A row number is a mixed radix number whose digits are the positions of the guard, bandwidth,
  stream and MCS among the bits set in the capabilities; the lemmas show that coding and
  decoding are inverse, that every row number stays inside the table and that no lookup leaves
  a constant table.
\<close>

section \<open>Data\<close>

text \<open>\<open>struct mmrc_rate\<close>; the bit fields are numbers, truncated to their width where they are set.\<close>

record mmrc_rate =
  r_rate :: nat
  r_attempts :: nat
  r_guard :: nat
  r_ss :: nat
  r_bw :: nat
  r_flags :: nat
  r_index :: nat

text \<open>\<open>struct mmrc_sta_capabilities\<close>: the sets of supported values are bit masks.\<close>

record mmrc_sta_capabilities =
  max_rates :: nat
  max_retries :: nat
  bandwidth :: nat
  spatial_streams :: nat
  rates :: nat
  guards :: nat
  sta_flags :: nat
  sgi_per_bw :: nat

definition MMRC_MCS0 :: nat where "MMRC_MCS0 = 0"
definition MMRC_MCS1 :: nat where "MMRC_MCS1 = 1"
definition MMRC_MCS2 :: nat where "MMRC_MCS2 = 2"
definition MMRC_MCS3 :: nat where "MMRC_MCS3 = 3"
definition MMRC_MCS4 :: nat where "MMRC_MCS4 = 4"
definition MMRC_MCS7 :: nat where "MMRC_MCS7 = 7"
definition MMRC_MCS9 :: nat where "MMRC_MCS9 = 9"
definition MMRC_MCS10 :: nat where "MMRC_MCS10 = 10"
definition MMRC_MCS_UNUSED :: nat where "MMRC_MCS_UNUSED = 11"
definition MMRC_BW_1MHZ :: nat where "MMRC_BW_1MHZ = 0"
definition MMRC_BW_2MHZ :: nat where "MMRC_BW_2MHZ = 1"
definition MMRC_BW_4MHZ :: nat where "MMRC_BW_4MHZ = 2"
definition MMRC_BW_8MHZ :: nat where "MMRC_BW_8MHZ = 3"
definition MMRC_BW_16MHZ :: nat where "MMRC_BW_16MHZ = 4"
definition MMRC_BW_MAX :: nat where "MMRC_BW_MAX = 5"
definition MMRC_SPATIAL_STREAM_1 :: nat where "MMRC_SPATIAL_STREAM_1 = 0"
definition MMRC_SPATIAL_STREAM_3 :: nat where "MMRC_SPATIAL_STREAM_3 = 2"
definition MMRC_GUARD_LONG :: nat where "MMRC_GUARD_LONG = 0"
definition MMRC_GUARD_SHORT :: nat where "MMRC_GUARD_SHORT = 1"
definition MMRC_GUARD_MAX :: nat where "MMRC_GUARD_MAX = 2"

lemmas mmrc_enum = MMRC_MCS0_def MMRC_MCS1_def MMRC_MCS2_def MMRC_MCS3_def MMRC_MCS4_def
  MMRC_MCS7_def MMRC_MCS9_def MMRC_MCS10_def MMRC_MCS_UNUSED_def MMRC_BW_1MHZ_def MMRC_BW_2MHZ_def
  MMRC_BW_4MHZ_def MMRC_BW_8MHZ_def MMRC_BW_16MHZ_def MMRC_BW_MAX_def MMRC_SPATIAL_STREAM_1_def
  MMRC_SPATIAL_STREAM_3_def MMRC_GUARD_LONG_def MMRC_GUARD_SHORT_def MMRC_GUARD_MAX_def

section \<open>Bits of a capability mask\<close>

definition set_bits :: "nat \<Rightarrow> nat list" where
  "set_bits w = filter (bit w) [0..<16]"

definition BIT_COUNT :: "nat \<Rightarrow> nat" where
  "BIT_COUNT w = length (set_bits w)"

text \<open>
  The loop of \<open>nth_bit\<close> ends when enough bits were counted; when the mask has too few, the shift
  cnt reaches 32, which is undefined in C.
\<close>

function nth_bit_loop :: "nat \<Rightarrow> nat \<Rightarrow> nat \<Rightarrow> nat \<Rightarrow> nat option" where
  "nth_bit_loop w idx i cnt =
     (if cnt = idx + 1 then Some (i - 1)
      else if 32 \<le> i then None
      else nth_bit_loop w idx (i + 1) (if bit w i then cnt + 1 else cnt))"
  by pat_completeness auto
termination by (relation "measure (\<lambda>(w, idx, i, cnt). 32 - i)") auto

declare nth_bit_loop.simps [simp del]

definition nth_bit :: "nat \<Rightarrow> nat \<Rightarrow> nat option" where
  "nth_bit w idx = nth_bit_loop w idx 0 0"

definition bit_index :: "nat \<Rightarrow> nat \<Rightarrow> nat" where
  "bit_index w bit_pos =
     (let idx = foldl (\<lambda>idx i. if bit w i then idx + 1 else idx) 0 [0..<bit_pos + 1]
      in if idx = 0 then 0 else idx - 1)"

section \<open>Row numbers\<close>

definition rows_from_sta_caps :: "mmrc_sta_capabilities \<Rightarrow> nat" where
  "rows_from_sta_caps caps =
     (let n_rates = BIT_COUNT (rates caps);
          (n_rates, rows) = (if bit (rates caps) MMRC_MCS10 then (n_rates - 1, 2) else (n_rates, 0))
      in trunc16 (rows + BIT_COUNT (bandwidth caps) * n_rates * BIT_COUNT (guards caps) *
           BIT_COUNT (spatial_streams caps)))"

text \<open>An index beyond the table is reported by \<open>MMRC_OSAL_ASSERT(0)\<close> and replaced by 0.\<close>

definition rate_update_index :: "mmrc_sta_capabilities \<Rightarrow> mmrc_rate \<Rightarrow> mmrc_rate" where
  "rate_update_index caps r =
     (let bw = BIT_COUNT (bandwidth caps);
          streams = BIT_COUNT (spatial_streams caps);
          guard = BIT_COUNT (guards caps);
          rows = rows_from_sta_caps caps;
          idx = trunc16 (bit_index (guards caps) (r_guard r) +
                  bit_index (bandwidth caps) (r_bw r) * guard +
                  bit_index (spatial_streams caps) (r_ss r) * guard * bw +
                  bit_index (rates caps) (r_rate r) * bw * streams * guard);
          idx = (if rows \<le> idx then 0 else idx)
      in r\<lparr>r_index := idx\<rparr>)"

definition get_rate_row :: "mmrc_sta_capabilities \<Rightarrow> nat \<Rightarrow> mmrc_rate option" where
  "get_rate_row caps idx =
     do {
       let mcs = BIT_COUNT (rates caps);
       let bw = BIT_COUNT (bandwidth caps);
       let streams = BIT_COUNT (spatial_streams caps);
       let guard = BIT_COUNT (guards caps);
       let total_caps = trunc16 (mcs * bw * streams * guard);
       rows \<leftarrow> div_opt total_caps mcs;
       mcs_index \<leftarrow> div_opt idx rows;
       mcs_modulo \<leftarrow> mod_opt idx rows;
       mcs \<leftarrow> nth_bit (rates caps) mcs_index;
       rows \<leftarrow> div_opt rows streams;
       stream_index \<leftarrow> div_opt mcs_modulo rows;
       streams \<leftarrow> nth_bit (spatial_streams caps) stream_index;
       ss_index \<leftarrow> mod_opt idx rows;
       rows \<leftarrow> div_opt rows bw;
       bw_index \<leftarrow> div_opt ss_index rows;
       bw \<leftarrow> nth_bit (bandwidth caps) bw_index;
       guard_index \<leftarrow> mod_opt idx guard;
       guard \<leftarrow> nth_bit (guards caps) guard_index;
       let bw = (if MMRC_BW_MAX \<le> bw then MMRC_BW_1MHZ else bw);
       let guard = (if MMRC_GUARD_MAX \<le> guard then MMRC_GUARD_LONG else guard);
       let guard = (if guard = MMRC_GUARD_SHORT \<and> \<not> bit (sgi_per_bw caps) bw
                    then MMRC_GUARD_LONG else guard);
       Some (rate_update_index caps
         \<lparr>r_rate = mcs mod 16, r_attempts = 0, r_guard = guard mod 2, r_ss = streams mod 4,
          r_bw = bw mod 8, r_flags = 0, r_index = 0\<rparr>)
     }"

text \<open>The C \<open>sizeof\<close>s are arguments: they belong to the ABI, not to the source.\<close>

definition mmrc_memory_required_for_caps :: "nat \<Rightarrow> nat \<Rightarrow> nat \<Rightarrow> mmrc_sta_capabilities \<Rightarrow> nat" where
  "mmrc_memory_required_for_caps sizeof_mmrc_table sizeof_table_array sizeof_stats caps =
     sizeof_mmrc_table - sizeof_table_array + rows_from_sta_caps caps * sizeof_stats"

section \<open>Rates\<close>

definition sym_table :: "nat list" where
  "sym_table = [24, 36, 48, 72, 96, 144, 192, 216, 256, 288]"

definition calculate_bits_per_symbol :: "mmrc_rate \<Rightarrow> nat" where
  "calculate_bits_per_symbol r =
     (if r_rate r = MMRC_MCS10 then 6
      else if MMRC_MCS_UNUSED \<le> r_rate r then 1
      else
        (let sym = sym_table ! r_rate r;
             bps = (if r_bw r = MMRC_BW_4MHZ then sym * 537
                    else if r_bw r = MMRC_BW_8MHZ then sym * 1152
                    else if r_bw r = MMRC_BW_16MHZ then sym * 2301
                    else if r_bw r = MMRC_BW_1MHZ then (sym * 24 div 52) * 256
                    else sym * 256)
         in ((r_ss r + 1) * bps) div 256))"

definition get_tx_time :: "mmrc_rate \<Rightarrow> nat" where
  "get_tx_time r =
     (let avg_bits = 9600;
          n_sym = calculate_bits_per_symbol r;
          n_sym = (if n_sym = 0 then sym_table ! 0 else n_sym);
          n_sym = avg_bits div n_sym
      in if r_guard r = MMRC_GUARD_LONG then (n_sym * 1024 * 10) div 256
         else if r_guard r = MMRC_GUARD_SHORT then (n_sym * 921 * 10) div 256
         else 0)"

definition s1g_tpt_lgi :: "nat list list" where
  "s1g_tpt_lgi =
     [[300, 600, 900, 1200, 1800, 2400, 2700, 3000, 3600, 4000, 150],
      [650, 1300, 1950, 2600, 3900, 5200, 5850, 6500, 7800, 0, 0],
      [1350, 2700, 4050, 5400, 8100, 10800, 12150, 13500, 16200, 18000, 0],
      [2925, 5850, 8775, 11700, 17550, 23400, 26325, 29250, 35100, 39000, 0]]"

definition s1g_tpt_sgi :: "nat list list" where
  "s1g_tpt_sgi =
     [[333, 666, 1000, 1333, 2000, 2666, 3000, 3333, 4000, 4444, 166],
      [722, 1444, 2166, 2888, 4333, 5777, 6500, 7222, 8666, 0, 0],
      [1500, 3000, 4500, 6000, 9000, 12000, 13500, 15000, 18000, 20000, 0],
      [3250, 6500, 9750, 13000, 19500, 26000, 29250, 32500, 39000, 43333, 0]]"

definition mmrc_calculate_theoretical_throughput :: "mmrc_rate \<Rightarrow> nat option" where
  "mmrc_calculate_theoretical_throughput r =
     do {
       row \<leftarrow> nth_opt (if r_guard r \<noteq> 0 then s1g_tpt_sgi else s1g_tpt_lgi) (r_bw r);
       t \<leftarrow> nth_opt row (r_rate r);
       Some (trunc32 (t * 1000 * (r_ss r + 1)))
     }"

definition validate_rate :: "mmrc_sta_capabilities \<Rightarrow> mmrc_rate \<Rightarrow> bool" where
  "validate_rate caps r =
     (if r_rate r = MMRC_MCS10 \<and> (r_bw r \<noteq> MMRC_BW_1MHZ \<or> r_ss r \<noteq> MMRC_SPATIAL_STREAM_1) then False
      else if r_rate r = MMRC_MCS9 \<and> r_bw r = MMRC_BW_2MHZ \<and> r_ss r \<noteq> MMRC_SPATIAL_STREAM_3 then False
      else if r_guard r = MMRC_GUARD_SHORT \<and> \<not> bit (sgi_per_bw caps) (r_bw r) then False
      else True)"

text \<open>The packet size is a \<open>size_t\<close>; the products with it are 64 bit, the rest is 32 bit.\<close>

definition calculate_attempt_time :: "mmrc_rate \<Rightarrow> nat \<Rightarrow> nat option" where
  "calculate_attempt_time r sz =
     (let time = get_tx_time r
      in if 1200 < sz then Some (trunc32 ((time * ((sz * 1000 mod 2 ^ 64) div 1200) mod 2 ^ 64) div 1000))
         else do { d \<leftarrow> div_opt (1200 * 1000) sz; t \<leftarrow> div_opt (trunc32 (time * 1000)) d; Some (trunc32 t) })"


subsection \<open>Bits of a mask\<close>

lemma set_bits_split:
  "i \<le> 16 \<Longrightarrow> set_bits w = filter (bit w) [0..<i] @ filter (bit w) [i..<16]"
  unfolding set_bits_def using upt_add_eq_append [of 0 i "16 - i"] by simp

lemma set_bits_mem: "b \<in> set (set_bits w) \<longleftrightarrow> b < 16 \<and> bit w b"
  by (auto simp: set_bits_def)

lemma set_bits_nth: "i < BIT_COUNT w \<Longrightarrow> set_bits w ! i < 16 \<and> bit w (set_bits w ! i)"
  using set_bits_mem [of "set_bits w ! i" w] by (auto simp: BIT_COUNT_def)

lemma BIT_COUNT_le: "BIT_COUNT w \<le> 16"
  unfolding BIT_COUNT_def set_bits_def using length_filter_le [of "bit w" "[0..<16]"] by simp

lemma BIT_COUNT_pos: "b < 16 \<Longrightarrow> bit w b \<Longrightarrow> 0 < BIT_COUNT w"
  unfolding BIT_COUNT_def by (rule length_pos_if_in_set [where x = b]) (simp add: set_bits_mem)

lemma BIT_COUNT_bound:
  assumes "w < 2 ^ k" "k \<le> 16"
  shows "BIT_COUNT w \<le> k"
proof -
  have "\<not> bit w i" if "k \<le> i" for i
    using assms that by (metis bit_take_bit_iff leD take_bit_nat_eq_self_iff)
  then have "filter (bit w) [k..<16] = []" by (auto simp: filter_empty_conv)
  then have "BIT_COUNT w = length (filter (bit w) [0..<k])"
    using assms set_bits_split [of k w] by (simp add: BIT_COUNT_def)
  then show ?thesis using length_filter_le [of "bit w" "[0..<k]"] by simp
qed

lemma BIT_COUNT_pos_iff: "w < 2 ^ 16 \<Longrightarrow> 0 < w \<Longrightarrow> 0 < BIT_COUNT w"
proof -
  assume w: "w < 2 ^ 16" "0 < w"
  then obtain b where "bit w b" by (metis bit_eq_iff bit_0_eq bot_apply bot_bool_def not_gr_zero)
  moreover from this w have "b < 16"
    by (metis bit_take_bit_iff take_bit_nat_eq_self_iff)
  ultimately show ?thesis by (rule BIT_COUNT_pos [rotated])
qed

lemma set_bits_index:
  assumes "i < BIT_COUNT w"
  shows "length (filter (bit w) [0..<set_bits w ! i]) = i"
proof -
  let ?b = "set_bits w ! i"
  have b: "?b < 16" "bit w ?b" using set_bits_nth [OF assms] by auto
  have "set_bits w = filter (bit w) [0..<?b] @ ?b # filter (bit w) [Suc ?b..<16]"
    using b set_bits_split [of ?b w] by (simp add: upt_conv_Cons)
  then have "set_bits w ! length (filter (bit w) [0..<?b]) = set_bits w ! i"
    and "length (filter (bit w) [0..<?b]) < length (set_bits w)"
    by (metis nth_append_length, metis length_append length_Cons add_Suc_right less_add_Suc1)
  moreover have "distinct (set_bits w)" by (simp add: set_bits_def)
  ultimately show ?thesis using assms by (simp add: nth_eq_iff_index_eq BIT_COUNT_def)
qed

lemma nth_bit_loop_found:
  assumes "idx < BIT_COUNT w" "i \<le> 16" "length (filter (bit w) [0..<i]) \<le> idx"
  shows "nth_bit_loop w idx i (length (filter (bit w) [0..<i])) = Some (set_bits w ! idx)"
  using assms
proof (induction "16 - i" arbitrary: i)
  case 0
  then show ?case by (simp add: BIT_COUNT_def set_bits_def)
next
  case (Suc n)
  let ?c = "length (filter (bit w) [0..<i])"
  from Suc have i: "i < 16" by simp
  have step: "nth_bit_loop w idx i ?c = nth_bit_loop w idx (Suc i) (length (filter (bit w) [0..<Suc i]))"
    using Suc.prems i by (subst nth_bit_loop.simps) simp
  show ?case
  proof (cases "bit w i \<and> ?c = idx")
    case True
    then have "set_bits w ! idx = i"
      using i set_bits_split [of i w] by (auto simp: nth_append upt_conv_Cons)
    with True step i show ?thesis by (simp add: nth_bit_loop.simps)
  next
    case False
    then have "length (filter (bit w) [0..<Suc i]) \<le> idx" using Suc.prems by auto
    with Suc.hyps(1) [of "Suc i"] Suc.hyps(2) Suc.prems(1) i step show ?thesis by (simp del: upt_Suc)
  qed
qed

lemma nth_bit_found: "idx < BIT_COUNT w \<Longrightarrow> nth_bit w idx = Some (set_bits w ! idx)"
  using nth_bit_loop_found [of idx w 0] by (simp add: nth_bit_def)

lemma bit_index_cnt: "bit_index w b = length (filter (bit w) [0..<b + 1]) - 1"
proof -
  have "foldl (\<lambda>idx i. if bit w i then idx + 1 else idx) n xs = n + length (filter (bit w) xs)" for n xs
    by (induction xs arbitrary: n) auto
  then show ?thesis by (simp add: bit_index_def)
qed

lemma bit_index_nth [simp]: "i < BIT_COUNT w \<Longrightarrow> bit_index w (set_bits w ! i) = i"
  using set_bits_index [of i w] set_bits_nth [of i w] by (simp add: bit_index_cnt)

lemma bit_index_less:
  assumes "b < 16" "0 < BIT_COUNT w"
  shows "bit_index w b < BIT_COUNT w"
proof -
  have "length (filter (bit w) [0..<b + 1]) \<le> BIT_COUNT w"
    using assms set_bits_split [of "b + 1" w] by (simp add: BIT_COUNT_def del: upt_Suc)
  then show ?thesis using assms by (simp add: bit_index_cnt del: upt_Suc)
qed

section \<open>Row numbers and rates\<close>

text \<open>
  The capabilities the arithmetic is made for: every mask is within its bit field and not empty, the
  bandwidths are those the throughput tables have rows for. The table is sound for them when, with
  MCS10, there is more than one combination of the other parameters (\<open>get_rate_row_roundtrip\<close> says
  what happens without that).
\<close>

definition wf_masks :: "mmrc_sta_capabilities \<Rightarrow> bool" where
  "wf_masks caps \<longleftrightarrow>
     0 < bandwidth caps \<and> bandwidth caps < 16 \<and> 0 < spatial_streams caps \<and> spatial_streams caps < 16 \<and>
     0 < rates caps \<and> rates caps < 2048 \<and> 0 < guards caps \<and> guards caps < 4"

definition wf_caps :: "mmrc_sta_capabilities \<Rightarrow> bool" where
  "wf_caps caps \<longleftrightarrow> wf_masks caps \<and>
     (bit (rates caps) MMRC_MCS10 \<longrightarrow>
        2 \<le> BIT_COUNT (bandwidth caps) * BIT_COUNT (guards caps) * BIT_COUNT (spatial_streams caps))"

lemma wf_caps_masks: "wf_caps caps \<Longrightarrow> wf_masks caps"
  by (simp add: wf_caps_def)

lemma wf_caps_counts:
  assumes "wf_masks caps"
  shows "0 < BIT_COUNT (bandwidth caps)" "BIT_COUNT (bandwidth caps) \<le> 4"
    "0 < BIT_COUNT (spatial_streams caps)" "BIT_COUNT (spatial_streams caps) \<le> 4"
    "0 < BIT_COUNT (rates caps)" "BIT_COUNT (rates caps) \<le> 11"
    "0 < BIT_COUNT (guards caps)" "BIT_COUNT (guards caps) \<le> 2"
  using assms unfolding wf_masks_def
  by (auto intro!: BIT_COUNT_pos_iff BIT_COUNT_bound)

abbreviation block_size :: "mmrc_sta_capabilities \<Rightarrow> nat" where
  "block_size caps \<equiv> BIT_COUNT (bandwidth caps) * BIT_COUNT (spatial_streams caps) * BIT_COUNT (guards caps)"

lemma block_size_bounds:
  assumes "wf_masks caps"
  shows "0 < block_size caps" "block_size caps \<le> 32" "BIT_COUNT (rates caps) * block_size caps \<le> 352"
proof -
  note c = wf_caps_counts [OF assms]
  show "0 < block_size caps" using c by simp
  have "BIT_COUNT (bandwidth caps) * BIT_COUNT (spatial_streams caps) \<le> 4 * 4" using c by (intro mult_mono) auto
  then show b: "block_size caps \<le> 32" using c mult_mono [of _ 16 "BIT_COUNT (guards caps)" 2] by simp
  show "BIT_COUNT (rates caps) * block_size caps \<le> 352"
    using b c mult_mono [of "BIT_COUNT (rates caps)" 11 "block_size caps" 32] by simp
qed

lemma rows_eq:
  assumes "wf_masks caps"
  shows "rows_from_sta_caps caps = (if bit (rates caps) MMRC_MCS10
    then 2 + (BIT_COUNT (rates caps) - 1) * block_size caps else BIT_COUNT (rates caps) * block_size caps)"
proof -
  note c = wf_caps_counts [OF assms] and b = block_size_bounds [OF assms]
  have "(if bit (rates caps) MMRC_MCS10 then 2 + (BIT_COUNT (rates caps) - 1) * block_size caps
     else BIT_COUNT (rates caps) * block_size caps) < 65536"
    using b c by (simp add: diff_mult_distrib less_imp_diff_less)
  then show ?thesis by (simp add: rows_from_sta_caps_def Let_def ac_simps split: if_splits)
qed

lemma rows_pos:
  assumes "wf_masks caps"
  shows "0 < rows_from_sta_caps caps" "rows_from_sta_caps caps \<le> 354"
proof -
  have "(BIT_COUNT (rates caps) - 1) * block_size caps \<le> BIT_COUNT (rates caps) * block_size caps" by simp
  with block_size_bounds(3) [OF assms] have "(BIT_COUNT (rates caps) - 1) * block_size caps \<le> 352" by (rule le_trans [rotated])
  then show "0 < rows_from_sta_caps caps" "rows_from_sta_caps caps \<le> 354"
    using block_size_bounds(3) [OF assms] wf_caps_counts [OF assms] by (auto simp: rows_eq [OF assms])
qed

lemma rows_le:
  assumes "wf_caps caps"
  shows "0 < rows_from_sta_caps caps"
    "rows_from_sta_caps caps \<le> BIT_COUNT (rates caps) * block_size caps"
proof -
  note m = wf_caps_masks [OF assms]
  show "0 < rows_from_sta_caps caps" by (rule rows_pos [OF m])
  obtain n where n: "BIT_COUNT (rates caps) = Suc n" using wf_caps_counts(5) [OF m] by (cases "BIT_COUNT (rates caps)") simp_all
  have "2 \<le> block_size caps" if "bit (rates caps) MMRC_MCS10" using assms that by (simp add: wf_caps_def ac_simps)
  then show "rows_from_sta_caps caps \<le> BIT_COUNT (rates caps) * block_size caps"
    unfolding rows_eq [OF m] n by simp
qed

lemma rows_bound: "wf_caps caps \<Longrightarrow> rows_from_sta_caps caps \<le> 352"
  using rows_le(2) block_size_bounds(3) wf_caps_masks le_trans by blast

lemma rate_update_index_in_range:
  "0 < rows_from_sta_caps caps \<Longrightarrow> r_index (rate_update_index caps r) < rows_from_sta_caps caps"
  by (simp add: rate_update_index_def Let_def)

lemma rate_update_index_frame [simp, frame]:
  "r_rate (rate_update_index caps r) = r_rate r" "r_attempts (rate_update_index caps r) = r_attempts r"
  "r_guard (rate_update_index caps r) = r_guard r" "r_ss (rate_update_index caps r) = r_ss r"
  "r_bw (rate_update_index caps r) = r_bw r" "r_flags (rate_update_index caps r) = r_flags r"
  by (simp_all add: rate_update_index_def Let_def)

text \<open>The digits of a row number.\<close>

definition guard_of :: "mmrc_sta_capabilities \<Rightarrow> nat \<Rightarrow> nat" where
  "guard_of caps idx = set_bits (guards caps) ! (idx mod BIT_COUNT (guards caps))"

definition bw_of :: "mmrc_sta_capabilities \<Rightarrow> nat \<Rightarrow> nat" where
  "bw_of caps idx = set_bits (bandwidth caps) ! (idx div BIT_COUNT (guards caps) mod BIT_COUNT (bandwidth caps))"

definition ss_of :: "mmrc_sta_capabilities \<Rightarrow> nat \<Rightarrow> nat" where
  "ss_of caps idx = set_bits (spatial_streams caps) !
     (idx div (BIT_COUNT (guards caps) * BIT_COUNT (bandwidth caps)) mod BIT_COUNT (spatial_streams caps))"

definition mcs_of :: "mmrc_sta_capabilities \<Rightarrow> nat \<Rightarrow> nat" where
  "mcs_of caps idx = set_bits (rates caps) ! (idx div block_size caps)"

lemma set_bits_nth_below: "w < 2 ^ k \<Longrightarrow> i < BIT_COUNT w \<Longrightarrow> set_bits w ! i < k"
  using set_bits_nth bit_below by blast

lemma div_mod_digit: "0 < b \<Longrightarrow> (i :: nat) mod (a * b) div b = i div b mod a"
  using mod_mult2_eq [of i b a] by (simp add: mult.commute)

lemma digits_mem:
  assumes "wf_masks caps"
  shows "bit (guards caps) (guard_of caps i)" "guard_of caps i < 2"
    "bit (bandwidth caps) (bw_of caps i)" "bw_of caps i < 4"
    "bit (spatial_streams caps) (ss_of caps i)" "ss_of caps i < 4"
    "i < BIT_COUNT (rates caps) * block_size caps \<Longrightarrow> bit (rates caps) (mcs_of caps i)"
    "i < BIT_COUNT (rates caps) * block_size caps \<Longrightarrow> mcs_of caps i < 11"
proof -
  note c = wf_caps_counts [OF assms] and b = block_size_bounds [OF assms]
  have w: "guards caps < 2 ^ 2" "bandwidth caps < 2 ^ 4" "spatial_streams caps < 2 ^ 4" "rates caps < 2 ^ 11"
    using assms by (simp_all add: wf_masks_def)
  show "bit (guards caps) (guard_of caps i)" "guard_of caps i < 2"
    using c set_bits_nth [of _ "guards caps"] set_bits_nth_below [OF w(1)] by (simp_all add: guard_of_def)
  show "bit (bandwidth caps) (bw_of caps i)" "bw_of caps i < 4"
    using c set_bits_nth [of _ "bandwidth caps"] set_bits_nth_below [OF w(2)] by (simp_all add: bw_of_def)
  show "bit (spatial_streams caps) (ss_of caps i)" "ss_of caps i < 4"
    using c set_bits_nth [of _ "spatial_streams caps"] set_bits_nth_below [OF w(3)] by (simp_all add: ss_of_def)
  assume "i < BIT_COUNT (rates caps) * block_size caps"
  then have "i div block_size caps < BIT_COUNT (rates caps)" using b by (simp add: less_mult_imp_div_less)
  then show "bit (rates caps) (mcs_of caps i)" "mcs_of caps i < 11"
    using set_bits_nth [of _ "rates caps"] set_bits_nth_below [OF w(4)] by (simp_all add: mcs_of_def)
qed

definition sgi_guard :: "mmrc_sta_capabilities \<Rightarrow> nat \<Rightarrow> nat" where
  "sgi_guard caps idx =
     (if guard_of caps idx = MMRC_GUARD_SHORT \<and> \<not> bit (sgi_per_bw caps) (bw_of caps idx)
      then MMRC_GUARD_LONG else guard_of caps idx)"

lemma get_rate_row_digits:
  assumes wf: "wf_masks caps" and lt: "idx < BIT_COUNT (rates caps) * block_size caps"
  shows "get_rate_row caps idx = Some (rate_update_index caps
    \<lparr>r_rate = mcs_of caps idx, r_attempts = 0, r_guard = sgi_guard caps idx, r_ss = ss_of caps idx,
     r_bw = bw_of caps idx, r_flags = 0, r_index = 0\<rparr>)"
proof -
  note c = wf_caps_counts [OF wf] and b = block_size_bounds [OF wf]
  let ?n = "BIT_COUNT (rates caps)" and ?b = "block_size caps"
  let ?w = "BIT_COUNT (bandwidth caps)" and ?s = "BIT_COUNT (spatial_streams caps)" and ?g = "BIT_COUNT (guards caps)"
  note d = digits_mem [OF wf, of idx] digits_mem(7,8) [OF wf lt]
  have total: "trunc16 (?n * ?w * ?s * ?g) = ?n * ?b" using b by (simp add: ac_simps)
  have mcs: "nth_bit (rates caps) (idx div ?b) = Some (mcs_of caps idx)"
    using lt b by (simp add: mcs_of_def less_mult_imp_div_less nth_bit_found)
  have bs: "?b div ?s = ?g * ?w" "?g * ?w div ?w = ?g" using c by (simp_all add: ac_simps)
  have ss: "nth_bit (spatial_streams caps) (idx mod ?b div (?g * ?w)) = Some (ss_of caps idx)"
  proof -
    have "idx mod ?b div (?g * ?w) = idx div (?g * ?w) mod ?s"
      using div_mod_digit [of "?g * ?w" idx ?s] c by (simp add: ac_simps)
    then show ?thesis using c by (simp add: ss_of_def nth_bit_found)
  qed
  have bw: "nth_bit (bandwidth caps) (idx mod (?g * ?w) div ?g) = Some (bw_of caps idx)"
    using div_mod_digit [of ?g idx ?w] c by (simp add: bw_of_def nth_bit_found mult.commute)
  have g: "nth_bit (guards caps) (idx mod ?g) = Some (guard_of caps idx)"
    using c by (simp add: guard_of_def nth_bit_found)
  have pos: "0 < ?b" "0 < ?g * ?w" using b c by simp_all
  show ?thesis
    using c pos d mcs ss bw g
    by (simp add: get_rate_row_def Let_def total bs sgi_guard_def mmrc_enum)
qed

lemma mixed_radix:
  fixes i g w s :: nat
  shows "i mod g + (i div g mod w) * g + (i div (g * w) mod s) * g * w + (i div (w * s * g)) * w * s * g = i"
proof -
  have "i = i div g * g + i mod g" by simp
  moreover have "i div g = i div g div w * w + i div g mod w" by simp
  moreover have "i div g div w = i div g div w div s * s + i div g div w mod s" by simp
  ultimately have "i = ((i div g div w div s * s + i div g div w mod s) * w + i div g mod w) * g + i mod g" by metis
  then show ?thesis by (simp add: div_mult2_eq [symmetric] algebra_simps)
qed

definition row_of :: "mmrc_sta_capabilities \<Rightarrow> nat \<Rightarrow> nat" where
  "row_of caps idx =
     (if sgi_guard caps idx \<noteq> guard_of caps idx \<and> 1 < BIT_COUNT (guards caps) then idx - 1 else idx)"

lemma row_of_le: "row_of caps idx \<le> idx"
  by (simp add: row_of_def)

lemma guard_position:
  assumes "wf_masks caps"
  shows "bit_index (guards caps) (sgi_guard caps idx) =
    (if sgi_guard caps idx \<noteq> guard_of caps idx \<and> 1 < BIT_COUNT (guards caps)
     then idx mod BIT_COUNT (guards caps) - 1 else idx mod BIT_COUNT (guards caps))"
    "sgi_guard caps idx \<noteq> guard_of caps idx \<Longrightarrow> 1 < BIT_COUNT (guards caps) \<Longrightarrow> idx mod BIT_COUNT (guards caps) = 1"
proof -
  note c = wf_caps_counts [OF assms]
  have gpos: "bit_index (guards caps) (guard_of caps idx) = idx mod BIT_COUNT (guards caps)"
    using c by (simp add: guard_of_def)
  have long0: "bit_index (guards caps) MMRC_GUARD_LONG = 0"
    by (simp add: bit_index_cnt mmrc_enum)
  have one: "idx mod BIT_COUNT (guards caps) = 1"
    if "sgi_guard caps idx \<noteq> guard_of caps idx" "1 < BIT_COUNT (guards caps)"
  proof (rule ccontr)
    assume "idx mod BIT_COUNT (guards caps) \<noteq> 1"
    with c have z: "idx mod BIT_COUNT (guards caps) = 0"
      by (metis One_nat_def Suc_leI less_2_cases mod_less_divisor le_neq_implies_less le_trans less_le_trans)
    from that have "guard_of caps idx = 1" by (auto simp: sgi_guard_def mmrc_enum split: if_splits)
    with z have s0: "set_bits (guards caps) ! 0 = 1" by (simp add: guard_of_def)
    have "set_bits (guards caps) ! 1 < 2"
      using set_bits_nth_below [of "guards caps" 2 1] that(2) assms by (simp add: wf_masks_def)
    moreover have "set_bits (guards caps) ! 0 < set_bits (guards caps) ! 1"
    proof -
      have "sorted_wrt (<) (set_bits (guards caps))"
        unfolding set_bits_def by (rule sorted_wrt_filter) (simp add: sorted_wrt_upt)
      then show ?thesis using that(2) by (simp add: sorted_wrt_nth_less BIT_COUNT_def)
    qed
    ultimately show False using s0 by simp
  qed
  then show "sgi_guard caps idx \<noteq> guard_of caps idx \<Longrightarrow> 1 < BIT_COUNT (guards caps) \<Longrightarrow>
    idx mod BIT_COUNT (guards caps) = 1" .
  show "bit_index (guards caps) (sgi_guard caps idx) =
    (if sgi_guard caps idx \<noteq> guard_of caps idx \<and> 1 < BIT_COUNT (guards caps)
     then idx mod BIT_COUNT (guards caps) - 1 else idx mod BIT_COUNT (guards caps))"
  proof (cases "sgi_guard caps idx = guard_of caps idx")
    case True
    then show ?thesis using gpos by simp
  next
    case False
    then have "sgi_guard caps idx = MMRC_GUARD_LONG" by (auto simp: sgi_guard_def split: if_splits)
    moreover have "BIT_COUNT (guards caps) = 1" if "\<not> 1 < BIT_COUNT (guards caps)" using that c by simp
    ultimately show ?thesis using False one long0 by auto
  qed
qed

lemma get_rate_row_index:
  assumes wf: "wf_masks caps" and idx: "idx < rows_from_sta_caps caps" and lt: "idx < BIT_COUNT (rates caps) * block_size caps"
  shows "get_rate_row caps idx = Some
    \<lparr>r_rate = mcs_of caps idx, r_attempts = 0, r_guard = sgi_guard caps idx, r_ss = ss_of caps idx,
     r_bw = bw_of caps idx, r_flags = 0, r_index = row_of caps idx\<rparr>"
proof -
  note c = wf_caps_counts [OF wf] and b = block_size_bounds [OF wf] and gp = guard_position [OF wf, of idx]
  let ?n = "BIT_COUNT (rates caps)" and ?b = "block_size caps"
  let ?w = "BIT_COUNT (bandwidth caps)" and ?s = "BIT_COUNT (spatial_streams caps)" and ?g = "BIT_COUNT (guards caps)"
  have pos: "bit_index (bandwidth caps) (bw_of caps idx) = idx div ?g mod ?w"
    "bit_index (spatial_streams caps) (ss_of caps idx) = idx div (?g * ?w) mod ?s"
    "bit_index (rates caps) (mcs_of caps idx) = idx div ?b"
    using c b lt by (simp_all add: bw_of_def ss_of_def mcs_of_def less_mult_imp_div_less)
  have raw: "bit_index (guards caps) (sgi_guard caps idx) + (idx div ?g mod ?w) * ?g +
      (idx div (?g * ?w) mod ?s) * ?g * ?w + (idx div ?b) * ?w * ?s * ?g = row_of caps idx"
    using mixed_radix [of idx ?g ?w ?s] gp unfolding row_of_def by (cases "sgi_guard caps idx \<noteq> guard_of caps idx \<and> 1 < ?g") auto
  have "row_of caps idx < rows_from_sta_caps caps" using idx row_of_le [of caps idx] by simp
  moreover from this have "row_of caps idx < 65536" using rows_pos(2) [OF wf] by simp
  ultimately have "r_index (rate_update_index caps
    \<lparr>r_rate = mcs_of caps idx, r_attempts = 0, r_guard = sgi_guard caps idx, r_ss = ss_of caps idx,
     r_bw = bw_of caps idx, r_flags = 0, r_index = 0\<rparr>) = row_of caps idx"
    unfolding rate_update_index_def Let_def mmrc_rate.simps pos by (simp add: raw)
  then show ?thesis
    unfolding get_rate_row_digits [OF wf lt] by (auto intro!: mmrc_rate.equality)
qed

definition supported_rate :: "mmrc_sta_capabilities \<Rightarrow> mmrc_rate \<Rightarrow> bool" where
  "supported_rate caps r \<longleftrightarrow>
     bit (rates caps) (r_rate r) \<and> bit (bandwidth caps) (r_bw r) \<and>
     bit (spatial_streams caps) (r_ss r) \<and> bit (guards caps) (r_guard r)"

lemma supported_rate_bounds:
  assumes "wf_masks caps" "supported_rate caps r"
  shows "r_rate r < 11" "r_bw r < 4" "r_ss r < 4" "r_guard r < 2"
  using assms bit_below [of "rates caps" 11] bit_below [of "bandwidth caps" 4]
    bit_below [of "spatial_streams caps" 4] bit_below [of "guards caps" 2]
  by (auto simp: supported_rate_def wf_masks_def)

lemma set_bits_bit_index:
  assumes "b < 16" "bit w b"
  shows "set_bits w ! bit_index w b = b" "bit_index w b < BIT_COUNT w"
proof -
  show lt: "bit_index w b < BIT_COUNT w" using assms bit_index_less BIT_COUNT_pos by blast
  from assms have "b \<in> set (set_bits w)" by (simp add: set_bits_mem)
  then obtain i where "i < BIT_COUNT w" "set_bits w ! i = b" by (auto simp: in_set_conv_nth BIT_COUNT_def)
  then show "set_bits w ! bit_index w b = b" by auto
qed

lemma digits_inverse:
  fixes g w s gi wi si mi :: nat
  assumes "gi < g" "wi < w" "si < s"
  defines "i \<equiv> gi + wi * g + si * g * w + mi * w * s * g"
  shows "i mod g = gi" "i div g mod w = wi" "i div (g * w) mod s = si" "i div (w * s * g) = mi"
proof -
  have g: "i = gi + (wi + (si + mi * s) * w) * g" by (simp add: i_def algebra_simps)
  have d1: "i div g = wi + (si + mi * s) * w" using assms(1) by (simp add: g)
  have d2: "i div (g * w) = si + mi * s" using assms(2) by (simp add: div_mult2_eq d1)
  have d3: "i div (w * s * g) = mi"
  proof -
    have "i div (w * s * g) = i div (g * w) div s" by (simp add: div_mult2_eq [symmetric] ac_simps)
    then show ?thesis using assms(3) by (simp add: d2)
  qed
  show "i mod g = gi" using assms(1) by (simp add: g)
  show "i div g mod w = wi" using assms(2) by (simp add: d1)
  show "i div (g * w) mod s = si" using assms(3) by (simp add: d2)
  show "i div (w * s * g) = mi" by (rule d3)
qed

lemma mcs_position_not_10:
  assumes "wf_masks caps" "bit (rates caps) m" "m \<noteq> MMRC_MCS10" "bit (rates caps) MMRC_MCS10"
  shows "bit_index (rates caps) m < BIT_COUNT (rates caps) - 1"
proof -
  have m: "m < 10" using assms bit_below [of "rates caps" 11 m] by (simp add: wf_masks_def mmrc_enum)
  have "set_bits (rates caps) = filter (bit (rates caps)) [0..<m + 1] @ filter (bit (rates caps)) [m + 1..<16]"
    using m by (intro set_bits_split) simp
  moreover have "10 \<in> set (filter (bit (rates caps)) [m + 1..<16])" using m assms by (simp add: mmrc_enum)
  moreover have "m \<in> set (filter (bit (rates caps)) [0..<m + 1])" using assms by simp
  ultimately have "BIT_COUNT (rates caps) = length (filter (bit (rates caps)) [0..<m + 1]) +
      length (filter (bit (rates caps)) [m + 1..<16])"
    and "0 < length (filter (bit (rates caps)) [0..<m + 1])" "0 < length (filter (bit (rates caps)) [m + 1..<16])"
    unfolding BIT_COUNT_def by (metis length_append, (metis length_pos_if_in_set)+)
  then show ?thesis unfolding bit_index_cnt by linarith
qed

lemma update_index_then_row:
  assumes wf: "wf_masks caps" and sup: "supported_rate caps r" and m: "r_rate r \<noteq> MMRC_MCS10"
    and sgi: "r_guard r = MMRC_GUARD_SHORT \<longrightarrow> bit (sgi_per_bw caps) (r_bw r)"
  shows "get_rate_row caps (r_index (rate_update_index caps r)) =
    Some (rate_update_index caps (r\<lparr>r_attempts := 0, r_flags := 0\<rparr>))"
proof -
  note c = wf_caps_counts [OF wf] and b = block_size_bounds [OF wf]
  let ?n = "BIT_COUNT (rates caps)" and ?b = "block_size caps"
  let ?w = "BIT_COUNT (bandwidth caps)" and ?s = "BIT_COUNT (spatial_streams caps)" and ?g = "BIT_COUNT (guards caps)"
  define gi where "gi = bit_index (guards caps) (r_guard r)"
  define wi where "wi = bit_index (bandwidth caps) (r_bw r)"
  define si where "si = bit_index (spatial_streams caps) (r_ss r)"
  define mi where "mi = bit_index (rates caps) (r_rate r)"
  define i where "i = gi + wi * ?g + si * ?g * ?w + mi * ?w * ?s * ?g"
  have bd: "r_rate r < 16" "r_bw r < 16" "r_ss r < 16" "r_guard r < 16"
    using supported_rate_bounds [OF wf sup] by simp_all
  have pos: "set_bits (guards caps) ! gi = r_guard r" "gi < ?g" "set_bits (bandwidth caps) ! wi = r_bw r" "wi < ?w"
    "set_bits (spatial_streams caps) ! si = r_ss r" "si < ?s" "set_bits (rates caps) ! mi = r_rate r" "mi < ?n"
    using sup bd set_bits_bit_index unfolding supported_rate_def gi_def wi_def si_def mi_def by auto
  note dig = digits_inverse [OF pos(2,4,6), of mi, folded i_def]
  have below: "i < (mi + 1) * ?b"
    using dig(4) div_less_iff_less_mult [OF b(1), of i "mi + 1"] by simp
  also have "(mi + 1) * ?b \<le> rows_from_sta_caps caps"
  proof (cases "bit (rates caps) MMRC_MCS10")
    case True
    then have "mi + 1 \<le> ?n - 1" using mcs_position_not_10 [OF wf _ m True] sup by (simp add: mi_def supported_rate_def)
    then have "(mi + 1) * ?b \<le> (?n - 1) * ?b" by (rule mult_le_mono1)
    then show ?thesis using True by (simp add: rows_eq [OF wf])
  next
    case False
    then show ?thesis using pos(8) by (simp add: rows_eq [OF wf]) (metis Suc_leI add_mult_distrib mult_Suc mult_le_mono1)
  qed
  finally have lt: "i < rows_from_sta_caps caps" .
  have inb: "i < ?n * ?b" using below pos(8) by (metis Suc_eq_plus1 Suc_leI less_le_trans mult_le_mono1)
  from lt have idx: "r_index (rate_update_index caps r) = i"
    using rows_pos(2) [OF wf] by (simp add: rate_update_index_def Let_def i_def gi_def wi_def si_def mi_def)
  have d: "guard_of caps i = r_guard r" "bw_of caps i = r_bw r" "ss_of caps i = r_ss r" "mcs_of caps i = r_rate r"
    using dig pos by (simp_all add: guard_of_def bw_of_def ss_of_def mcs_of_def)
  then have "sgi_guard caps i = r_guard r" "row_of caps i = i" using sgi by (auto simp: sgi_guard_def row_of_def)
  with d show ?thesis
    unfolding idx get_rate_row_index [OF wf lt inb] using idx
    by (auto intro!: mmrc_rate.equality simp: rate_update_index_def Let_def)
qed

definition rate_in_table :: "mmrc_sta_capabilities \<Rightarrow> mmrc_rate \<Rightarrow> bool" where
  "rate_in_table caps r \<longleftrightarrow> r_rate r < 11 \<and> r_bw r < 4 \<and> r_ss r < 4 \<and> r_guard r < 2 \<and>
     r_index r < rows_from_sta_caps caps"

lemma get_rate_row_in_table:
  assumes "wf_caps caps" "idx < rows_from_sta_caps caps"
  shows "\<exists>r. get_rate_row caps idx = Some r \<and> rate_in_table caps r"
proof -
  note m = wf_caps_masks [OF assms(1)]
  have lt: "idx < BIT_COUNT (rates caps) * block_size caps" using assms rows_le(2) [OF assms(1)] by simp
  then show ?thesis
    using digits_mem [OF m, of idx] get_rate_row_index [OF m assms(2) lt] assms(2) row_of_le [of caps idx]
    by (auto simp: rate_in_table_def sgi_guard_def mmrc_enum)
qed

lemma theoretical_throughput_defined:
  "r_bw r < 4 \<Longrightarrow> r_rate r < 11 \<Longrightarrow> \<exists>t. mmrc_calculate_theoretical_throughput r = Some t"
proof -
  have tables: "length s1g_tpt_lgi = 4" "\<forall>row \<in> set s1g_tpt_lgi. length row = 11"
    "length s1g_tpt_sgi = 4" "\<forall>row \<in> set s1g_tpt_sgi. length row = 11"
    by (simp_all add: s1g_tpt_lgi_def s1g_tpt_sgi_def)
  assume "r_bw r < 4" "r_rate r < 11"
  with tables show ?thesis by (simp add: mmrc_calculate_theoretical_throughput_def)
qed

section \<open>Properties\<close>

lemma set_bits_eval:
  "set_bits w = filter (\<lambda>i. odd (w div 2 ^ i)) [0, 1, 2, 3, 4, 5, 6, 7, 8, 9, 10, 11, 12, 13, 14, 15]"
proof -
  have "[0..<16] = [0, 1, 2, 3, 4, 5, 6, 7, 8, 9, 10, 11, 12, 13, 14, 15]" by (simp add: upt_rec)
  then show ?thesis unfolding set_bits_def by (simp only: filter_cong [OF refl bit_iff_odd])
qed

lemma nth_01: "[0, Suc 0] ! (i mod Suc (Suc 0)) = i mod 2"
proof -
  have "i mod 2 = 0 \<or> i mod 2 = 1" by auto
  then show ?thesis unfolding numeral_2_eq_2 [symmetric] by auto
qed

text \<open>With the long guard supported, the guard of a row is the parity of its number when there are two.\<close>

lemma long_guard_of:
  assumes "wf_masks caps" "bit (guards caps) MMRC_GUARD_LONG"
  shows "guard_of caps idx = (if bit (guards caps) MMRC_GUARD_SHORT then idx mod 2 else 0)"
    "BIT_COUNT (guards caps) = (if bit (guards caps) MMRC_GUARD_SHORT then 2 else 1)"
proof -
  have "guards caps < 4" using assms(1) by (simp add: wf_masks_def)
  then have "guards caps \<in> {0, 1, 2, 3}" by auto
  moreover have "set_bits 1 = [0]" "set_bits 3 = [0, 1]" "set_bits (Suc 0) = [0]" by (simp_all add: set_bits_eval)
  ultimately show "guard_of caps idx = (if bit (guards caps) MMRC_GUARD_SHORT then idx mod 2 else 0)"
    "BIT_COUNT (guards caps) = (if bit (guards caps) MMRC_GUARD_SHORT then 2 else 1)"
    using assms(2) nth_01 [of idx] by (auto simp: guard_of_def BIT_COUNT_def mmrc_enum bit_iff_odd)
qed

text \<open>A position behind the last bit of a mask is not found: the shift of \<open>nth_bit\<close> runs out of the word.\<close>

lemma nth_bit_loop_none:
  assumes "i \<le> 32" "cnt + card {j. i \<le> j \<and> bit w j} \<le> idx" "w < 2 ^ 16"
  shows "nth_bit_loop w idx i cnt = None"
  using assms
proof (induction "32 - i" arbitrary: i cnt)
  case 0
  then show ?case by (simp add: nth_bit_loop.simps)
next
  case (Suc n)
  have fin: "finite {j. k \<le> j \<and> bit w j}" for k
    by (rule finite_subset [of _ "{..<16}"]) (use bit_below [OF assms(3)] in auto)
  have "{j. i \<le> j \<and> bit w j} = (if bit w i then insert i {j. i + 1 \<le> j \<and> bit w j} else {j. i + 1 \<le> j \<and> bit w j})"
    by (auto simp: Suc_le_eq) (metis le_neq_implies_less)+
  then have "card {j. i \<le> j \<and> bit w j} = (if bit w i then 1 else 0) + card {j. i + 1 \<le> j \<and> bit w j}"
    using fin [of "i + 1"] by (simp add: card_insert_if)
  with Suc.prems have "(if bit w i then cnt + 1 else cnt) + card {j. i + 1 \<le> j \<and> bit w j} \<le> idx" by (simp split: if_splits)
  moreover from Suc.hyps(2) have "n = 32 - (i + 1)" "i + 1 \<le> 32" by simp_all
  ultimately have "nth_bit_loop w idx (i + 1) (if bit w i then cnt + 1 else cnt) = None"
    using Suc.hyps(1) [of "i + 1"] assms(3) by simp
  with Suc show ?case by (subst nth_bit_loop.simps) simp
qed

lemma nth_bit_none:
  assumes "BIT_COUNT w \<le> idx" "w < 2 ^ 16"
  shows "nth_bit w idx = None"
proof -
  have "{j. bit w j} = set (set_bits w)" using bit_below [OF assms(2)] by (auto simp: set_bits_def)
  moreover have "distinct (set_bits w)" by (simp add: set_bits_def)
  ultimately have "card {j. 0 \<le> j \<and> bit w j} = BIT_COUNT w" by (simp add: BIT_COUNT_def distinct_card)
  then show ?thesis unfolding nth_bit_def using assms by (intro nth_bit_loop_none) simp_all
qed

lemma get_rate_row_none:
  assumes "wf_masks caps" "idx < rows_from_sta_caps caps" "BIT_COUNT (rates caps) * block_size caps \<le> idx"
  shows "get_rate_row caps idx = None"
proof -
  note c = wf_caps_counts [OF assms(1)] and b = block_size_bounds [OF assms(1)]
  let ?n = "BIT_COUNT (rates caps)" and ?b = "block_size caps"
  have total: "trunc16 (?n * BIT_COUNT (bandwidth caps) * BIT_COUNT (spatial_streams caps) * BIT_COUNT (guards caps)) = ?n * ?b"
    using b by (simp add: ac_simps)
  have "rates caps < 2 ^ 16" using assms(1) by (simp add: wf_masks_def)
  moreover have "?n \<le> idx div ?b" using assms(3) b(1) by (simp add: less_eq_div_iff_mult_less_eq)
  ultimately have "nth_bit (rates caps) (idx div ?b) = None" by (rule nth_bit_none [rotated])
  then show ?thesis using c b by (simp add: get_rate_row_def Let_def total)
qed

text \<open>C35: Row numbers and rates. For all capability masks within their bit fields and not empty, with the long guard
  (\<open>morse_rc_sta_add\<close> always sets it) and bandwidths up to 8 MHz: a row number of the table that is below the number of
  combinations of the parameters decodes (\<open>get_rate_row\<close>) to a rate the station supports, with the short guard only where the
  bandwidth allows it, and its number, encoded again by \<open>rate_update_index\<close>, is the row number itself,
  except that a row of a short guard which the bandwidth does not allow is decoded to its long-guard neighbour, the
  row before. A row number from the number of combinations on (there is one when MCS10 is supported with one bandwidth, one
  stream and no short guard) is not decoded at all: \<open>nth_bit\<close> shifts past the word.\<close>

theorem get_rate_row_roundtrip:
  assumes "wf_masks caps" "bit (guards caps) MMRC_GUARD_LONG" "idx < rows_from_sta_caps caps"
  shows "if idx < BIT_COUNT (rates caps) * BIT_COUNT (bandwidth caps) * BIT_COUNT (spatial_streams caps) * BIT_COUNT (guards caps)
    then \<exists>r. get_rate_row caps idx = Some r \<and> supported_rate caps r \<and>
      (r_guard r = MMRC_GUARD_SHORT \<longrightarrow> bit (sgi_per_bw caps) (r_bw r)) \<and>
      r_index r = (if bit (guards caps) MMRC_GUARD_SHORT \<and> odd idx \<and> \<not> bit (sgi_per_bw caps) (r_bw r) then idx - 1 else idx)
    else get_rate_row caps idx = None"
proof (cases "idx < BIT_COUNT (rates caps) * block_size caps")
  case True
  then have c: "idx < BIT_COUNT (rates caps) * BIT_COUNT (bandwidth caps) * BIT_COUNT (spatial_streams caps) * BIT_COUNT (guards caps)"
    by (simp only: ac_simps)
  have "row_of caps idx = (if bit (guards caps) MMRC_GUARD_SHORT \<and> odd idx \<and> \<not> bit (sgi_per_bw caps) (bw_of caps idx) then idx - 1 else idx)"
    using long_guard_of(1) [OF assms(1,2), of idx] long_guard_of(2) [OF assms(1,2)] by (auto simp: row_of_def sgi_guard_def mmrc_enum)
  then show ?thesis
    unfolding get_rate_row_index [OF assms(1,3) True] if_P [OF c]
    using digits_mem(1,3,5) [OF assms(1), of idx] digits_mem(7) [OF assms(1) True] assms(2)
    by (auto simp: supported_rate_def sgi_guard_def mmrc_enum)
next
  case False
  then have "\<not> idx < BIT_COUNT (rates caps) * BIT_COUNT (bandwidth caps) * BIT_COUNT (spatial_streams caps) * BIT_COUNT (guards caps)"
    by (simp only: ac_simps not_False_eq_True)
  with False show ?thesis using get_rate_row_none [OF assms(1,3)] by simp
qed

text \<open>Encoding is injective on the rates a station supports: the row number of a supported rate
  (MCS10 aside, whose rows do not cover every bandwidth) decodes to that same rate.\<close>

theorem rate_update_index_roundtrip:
  assumes "wf_masks caps" "supported_rate caps r" "r_rate r \<noteq> MMRC_MCS10"
    and "r_guard r = MMRC_GUARD_SHORT \<longrightarrow> bit (sgi_per_bw caps) (r_bw r)"
  shows "get_rate_row caps (r_index (rate_update_index caps r)) =
    Some (rate_update_index caps (r\<lparr>r_attempts := 0, r_flags := 0\<rparr>))"
  by (rule update_index_then_row [OF assms])


lemma get_tx_time_le: "get_tx_time r \<le> 384000"
proof -
  have "9600 div n \<le> (9600 :: nat)" for n by simp
  then have "9600 div n * 10240 div 256 \<le> (384000 :: nat)" "9600 div n * 9210 div 256 \<le> (384000 :: nat)" for n
    using div_le_mono [of "9600 div n * 10240" "9600 * 10240" 256] div_le_mono [of "9600 div n * 9210" "9600 * 10240" 256]
      mult_le_mono [of "9600 div n" 9600 9210 10240]
    by auto
  then show ?thesis by (simp add: get_tx_time_def Let_def)
qed

lemma attempt_time_short:
  assumes "0 < sz" "sz \<le> 1200"
  shows "calculate_attempt_time r sz = Some (get_tx_time r * 1000 div (1200000 div sz))"
    "get_tx_time r * 1000 div (1200000 div sz) \<le> get_tx_time r"
proof -
  have d: "1000 \<le> 1200000 div sz"
    using assms div_le_mono2 [of sz 1200 1200000] by simp
  then have "get_tx_time r * 1000 div (1200000 div sz) \<le> get_tx_time r * 1000 div 1000"
    by (intro div_le_mono2) auto
  then show le: "get_tx_time r * 1000 div (1200000 div sz) \<le> get_tx_time r" by simp
  have "trunc32 (get_tx_time r * 1000) = get_tx_time r * 1000" using get_tx_time_le [of r] by simp
  moreover have "trunc32 (get_tx_time r * 1000 div (1200000 div sz)) = get_tx_time r * 1000 div (1200000 div sz)"
    using le get_tx_time_le [of r] by (intro trunc_id) linarith
  ultimately show "calculate_attempt_time r sz = Some (get_tx_time r * 1000 div (1200000 div sz))"
    using assms d by (simp add: calculate_attempt_time_def)
qed

lemma attempt_time_long:
  assumes "1200 < sz" "sz \<le> 65535"
  shows "calculate_attempt_time r sz = Some (get_tx_time r * (sz * 1000 div 1200) div 1000)"
    "get_tx_time r \<le> get_tx_time r * (sz * 1000 div 1200) div 1000"
proof -
  have sz: "sz * 1000 mod 18446744073709551616 = sz * 1000" using assms by simp
  have q: "sz * 1000 div 1200 \<le> 54612" "1000 \<le> sz * 1000 div 1200"
    using assms div_le_mono [of "sz * 1000" "65535 * 1000" 1200] div_le_mono [of "1200 * 1000" "sz * 1000" 1200] by auto
  then have m: "get_tx_time r * (sz * 1000 div 1200) \<le> 384000 * 54612"
    using get_tx_time_le by (intro mult_le_mono) auto
  have "trunc32 (get_tx_time r * (sz * 1000 div 1200) div 1000) = get_tx_time r * (sz * 1000 div 1200) div 1000"
    using div_le_mono [OF m, of 1000] by (intro trunc_id) simp
  then show "calculate_attempt_time r sz = Some (get_tx_time r * (sz * 1000 div 1200) div 1000)"
    using assms m sz by (simp add: calculate_attempt_time_def)
  show "get_tx_time r \<le> get_tx_time r * (sz * 1000 div 1200) div 1000"
    using q(2) div_le_mono [of "get_tx_time r * 1000" "get_tx_time r * (sz * 1000 div 1200)" 1000] by simp
qed

text \<open>The air time of an attempt is defined for every packet of 1 to 65535 bytes, never wraps and does
  not shrink when the packet grows (across the two formulas of \<open>calculate_attempt_time\<close>).\<close>

theorem attempt_time_mono:
  assumes "0 < s" "s \<le> t" "t \<le> 65535"
  shows "\<exists>a b. calculate_attempt_time r s = Some a \<and> calculate_attempt_time r t = Some b \<and> a \<le> b"
proof (cases "t \<le> 1200")
  case True
  with assms have "0 < 1200000 div t" by (simp add: div_greater_zero_iff)
  moreover have "1200000 div t \<le> 1200000 div s" using assms by (intro div_le_mono2) auto
  ultimately have "get_tx_time r * 1000 div (1200000 div s) \<le> get_tx_time r * 1000 div (1200000 div t)"
    using assms by (intro div_le_mono2)
  with True assms show ?thesis using attempt_time_short(1) [of s r] attempt_time_short(1) [of t r] by auto
next
  case False
  show ?thesis
  proof (cases "s \<le> 1200")
    case True
    with False assms show ?thesis
      using attempt_time_short [of s r] attempt_time_long [of t r] by auto
  next
    case s: False
    have "get_tx_time r * (s * 1000 div 1200) div 1000 \<le> get_tx_time r * (t * 1000 div 1200) div 1000"
      using assms by (intro div_le_mono mult_le_mono) auto
    with False s assms show ?thesis using attempt_time_long(1) [of s r] attempt_time_long(1) [of t r] by auto
  qed
qed

theorem attempt_time_mono_witness:
  "let r = \<lparr>r_rate = 7, r_attempts = 2, r_guard = 1, r_ss = 0, r_bw = 2, r_flags = 1, r_index = 0\<rparr>
   in \<exists>a b. calculate_attempt_time r 1000 = Some a \<and> calculate_attempt_time r 1500 = Some b \<and> a \<le> b"
  unfolding Let_def
  by (rule attempt_time_mono) simp_all

lemma tpt_rows:
  assumes "bw < 4" "m \<le> 9" "m = 9 \<longrightarrow> bw \<noteq> 1"
  shows "k < m \<Longrightarrow> s1g_tpt_lgi ! bw ! k < s1g_tpt_lgi ! bw ! m"
    "k < m \<Longrightarrow> s1g_tpt_sgi ! bw ! k < s1g_tpt_sgi ! bw ! m"
    "s1g_tpt_lgi ! bw ! m \<le> s1g_tpt_sgi ! bw ! m"
proof -
  let ?n = "if bw = 1 then 9 else 10"
  have bw: "bw = 0 \<or> bw = 1 \<or> bw = 2 \<or> bw = 3" using assms by auto
  have "sorted_wrt (<) (take ?n (s1g_tpt_lgi ! bw))" "sorted_wrt (<) (take ?n (s1g_tpt_sgi ! bw))"
    and all: "list_all2 (\<le>) (s1g_tpt_lgi ! bw) (s1g_tpt_sgi ! bw)"
    and len: "length (s1g_tpt_lgi ! bw) = 11" "length (s1g_tpt_sgi ! bw) = 11"
    using bw by (auto simp: s1g_tpt_lgi_def s1g_tpt_sgi_def)
  then show "k < m \<Longrightarrow> s1g_tpt_lgi ! bw ! k < s1g_tpt_lgi ! bw ! m"
    "k < m \<Longrightarrow> s1g_tpt_sgi ! bw ! k < s1g_tpt_sgi ! bw ! m"
    using assms sorted_wrt_nth_less [of "(<)" "take ?n (s1g_tpt_lgi ! bw)" k m]
      sorted_wrt_nth_less [of "(<)" "take ?n (s1g_tpt_sgi ! bw)" k m] by (auto split: if_splits)
  show "s1g_tpt_lgi ! bw ! m \<le> s1g_tpt_sgi ! bw ! m"
    using list_all2_nthD [OF all, of m] assms len by simp
qed

lemma tpt_max:
  assumes "bw < 4" "m < 11"
  shows "s1g_tpt_lgi ! bw ! m \<le> 43333" "s1g_tpt_sgi ! bw ! m \<le> 43333"
    "length s1g_tpt_lgi = 4" "length s1g_tpt_sgi = 4" "length (s1g_tpt_lgi ! bw) = 11" "length (s1g_tpt_sgi ! bw) = 11"
proof -
  have rows: "\<forall>row \<in> set s1g_tpt_lgi \<union> set s1g_tpt_sgi. length row = 11 \<and> (\<forall>t \<in> set row. t \<le> 43333)"
    and len: "length s1g_tpt_lgi = 4" "length s1g_tpt_sgi = 4"
    by (simp_all add: s1g_tpt_lgi_def s1g_tpt_sgi_def)
  then show "length s1g_tpt_lgi = 4" "length s1g_tpt_sgi = 4" by simp_all
  have "s1g_tpt_lgi ! bw \<in> set s1g_tpt_lgi" "s1g_tpt_sgi ! bw \<in> set s1g_tpt_sgi" using assms len by simp_all
  with rows show "length (s1g_tpt_lgi ! bw) = 11" "length (s1g_tpt_sgi ! bw) = 11" by blast+
  with rows assms \<open>s1g_tpt_lgi ! bw \<in> set s1g_tpt_lgi\<close> \<open>s1g_tpt_sgi ! bw \<in> set s1g_tpt_sgi\<close>
  show "s1g_tpt_lgi ! bw ! m \<le> 43333" "s1g_tpt_sgi ! bw ! m \<le> 43333" by (metis UnCI nth_mem)+
qed

lemma theoretical_throughput_value:
  assumes "r_bw r < 4" "r_rate r < 11" "r_ss r < 4"
  shows "mmrc_calculate_theoretical_throughput r =
    Some ((if r_guard r \<noteq> 0 then s1g_tpt_sgi else s1g_tpt_lgi) ! r_bw r ! r_rate r * 1000 * (r_ss r + 1))"
proof -
  have "t * 1000 * (r_ss r + 1) < 4294967296" if "t \<le> 43333" for t
    using mult_le_mono [of "t * 1000" 43333000 "r_ss r + 1" 4] that assms by simp
  with tpt_max [OF assms(1,2)] assms show ?thesis
    by (simp add: mmrc_calculate_theoretical_throughput_def)
qed

text \<open>Among the valid rates up to MCS9 of one bandwidth, stream count and guard, the theoretical
  throughput grows strictly with the MCS, and the short guard is at least as fast as the long one.\<close>

theorem theoretical_throughput_mono:
  assumes "r_rate r < m" "m \<le> 9" "r_bw r < 4" "r_ss r < 4" "r_ss r \<noteq> MMRC_SPATIAL_STREAM_3"
    and "validate_rate caps (r\<lparr>r_rate := m\<rparr>)"
  shows "\<exists>a b c. mmrc_calculate_theoretical_throughput r = Some a \<and>
    mmrc_calculate_theoretical_throughput (r\<lparr>r_rate := m\<rparr>) = Some b \<and> a < b \<and>
    mmrc_calculate_theoretical_throughput (r\<lparr>r_rate := m, r_guard := MMRC_GUARD_SHORT\<rparr>) = Some c \<and> b \<le> c"
proof -
  have bw: "m = 9 \<longrightarrow> r_bw r \<noteq> 1" using assms(5,6) by (auto simp: validate_rate_def mmrc_enum split: if_splits)
  note rows = tpt_rows(1,2) [OF assms(3,2) bw assms(1)] tpt_rows(3) [OF assms(3,2) bw]
  from assms rows show ?thesis by (simp add: theoretical_throughput_value mmrc_enum del: mult_Suc_right)
qed

definition caps_example :: mmrc_sta_capabilities where
  "caps_example = \<lparr>max_rates = 4, max_retries = 4, bandwidth = 7, spatial_streams = 1, rates = 1279,
     guards = 3, sta_flags = 0, sgi_per_bw = 5\<rparr>"

lemma caps_example_bits:
  "BIT_COUNT 7 = 3" "BIT_COUNT 1 = 1" "BIT_COUNT 1279 = 9" "BIT_COUNT 3 = 2" "BIT_COUNT (Suc 0) = 1"
  by (simp_all add: BIT_COUNT_def set_bits_eval)

lemma caps_example_counts: "BIT_COUNT (rates caps_example) = 9" "BIT_COUNT (bandwidth caps_example) = 3"
  "BIT_COUNT (spatial_streams caps_example) = 1" "BIT_COUNT (guards caps_example) = 2" "sgi_per_bw caps_example = 5"
  by (simp_all add: caps_example_def caps_example_bits)

lemma caps_example_ok: "wf_caps caps_example" "wf_masks caps_example" "rows_from_sta_caps caps_example = 50"
    "bit (guards caps_example) MMRC_GUARD_LONG" "bit (rates caps_example) 7" "bit (bandwidth caps_example) 2"
    "bit (spatial_streams caps_example) 0" "bit (guards caps_example) (Suc 0)" "bit (sgi_per_bw caps_example) 2"
  by (simp_all add: wf_caps_def wf_masks_def caps_example_def caps_example_bits rows_from_sta_caps_def mmrc_enum bit_iff_odd)

theorem get_rate_row_roundtrip_witness:
  "\<exists>r. get_rate_row caps_example 9 = Some r \<and> supported_rate caps_example r \<and>
    (r_guard r = MMRC_GUARD_SHORT \<longrightarrow> bit (sgi_per_bw caps_example) (r_bw r)) \<and>
    r_index r = (if bit (guards caps_example) MMRC_GUARD_SHORT \<and> odd (9 :: nat) \<and> \<not> bit (sgi_per_bw caps_example) (r_bw r) then 9 - 1 else 9)"
  using get_rate_row_roundtrip [of caps_example 9] caps_example_ok(2-4) by (simp add: caps_example_counts)

theorem rate_update_index_roundtrip_witness:
  "let r = \<lparr>r_rate = 7, r_attempts = 2, r_guard = 1, r_ss = 0, r_bw = 2, r_flags = 1, r_index = 0\<rparr>
   in get_rate_row caps_example (r_index (rate_update_index caps_example r)) =
      Some (rate_update_index caps_example (r\<lparr>r_attempts := 0, r_flags := 0\<rparr>))"
  unfolding Let_def
  by (rule rate_update_index_roundtrip) (simp_all add: caps_example_ok supported_rate_def mmrc_enum)

text \<open>With MCS10 the table has two more rows than the other rates fill. When a station has one
  bandwidth, one stream and the long guard only (a 1 MHz channel without short guard), only one of
  the two exists, and decoding the last row number runs past the set bits of the rate mask.\<close>

theorem rows_beyond_last_row:
  "let caps = caps_example\<lparr>bandwidth := 1, guards := 1, sgi_per_bw := 0\<rparr>
   in rows_from_sta_caps caps = 10 \<and> get_rate_row caps 8 \<noteq> None \<and> get_rate_row caps 9 = None"
proof -
  have "nth_bit 1279 9 = None" by (rule nth_bit_none) (simp_all add: caps_example_bits)
  moreover have "nth_bit 1279 8 = Some 10" "nth_bit 1 0 = Some 0"
    by (simp_all add: nth_bit_found BIT_COUNT_def set_bits_eval)
  ultimately show ?thesis
    by (simp add: caps_example_def rows_from_sta_caps_def get_rate_row_def mmrc_enum caps_example_bits bit_iff_odd)
qed

theorem theoretical_throughput_mono_witness:
  "let r = \<lparr>r_rate = 3, r_attempts = 2, r_guard = 0, r_ss = 0, r_bw = 2, r_flags = 0, r_index = 0\<rparr>
   in \<exists>a b c. mmrc_calculate_theoretical_throughput r = Some a \<and>
    mmrc_calculate_theoretical_throughput (r\<lparr>r_rate := 7\<rparr>) = Some b \<and> a < b \<and>
    mmrc_calculate_theoretical_throughput (r\<lparr>r_rate := 7, r_guard := MMRC_GUARD_SHORT\<rparr>) = Some c \<and> b \<le> c"
  unfolding Let_def
  by (rule theoretical_throughput_mono [where caps = caps_example]) (simp_all add: validate_rate_def mmrc_enum)


end
