(* ===== verification/Mmrc.thy ===== *)
theory Mmrc
  imports Mmrc_Rates
begin

text \<open>
  The rate control state machine of \<^verbatim>\<open>mmrc-submodule/src/core/mmrc.c\<close>: the statistics table of a
  station (\<open>struct mmrc_table\<close>) and the four operations the driver calls on it, \<open>mmrc_sta_init\<close>,
  \<open>mmrc_get_rates\<close>, \<open>mmrc_feedback\<close>/\<open>mmrc_feedback_agg\<close> and \<open>mmrc_update\<close>, with
  \<open>mmrc_set_fixed_rate\<close>. Every array access, division and loop is partial (\<open>None\<close> is undefined
  behaviour), so "the operation returns" is a theorem. The random numbers of
  \<open>osal_mmrc_random_u32\<close> are an argument, one value for each try.
\<close>

section \<open>State\<close>

text \<open>\<open>struct mmrc_stats_table\<close>.\<close>

record mmrc_stats =
  avg_throughput_counter :: nat
  sum_throughput :: nat
  max_throughput :: nat
  sent :: nat
  sent_success :: nat
  back_mpdu_success :: nat
  back_mpdu_failure :: nat
  total_sent :: nat
  total_success :: nat
  evidence :: nat
  prob :: nat
  have_sent_ampdus :: bool

text \<open>\<open>struct mmrc_table\<close>; the trailing array is the list \<open>tbl\<close>.\<close>

record mmrc_table =
  tb_caps :: mmrc_sta_capabilities
  best_tp :: mmrc_rate
  second_tp :: mmrc_rate
  baseline :: mmrc_rate
  best_prob :: mmrc_rate
  fixed_rate :: mmrc_rate
  cycle_cnt :: nat
  last_lookaround_cycle :: nat
  lookaround_cnt :: nat
  lookaround_wrap :: nat
  forced_lookaround :: nat
  current_lookaround_rate_attempts :: nat
  current_lookaround_rate_index :: nat
  total_lookaround :: nat
  stability_cnt :: nat
  stability_cnt_threshold :: nat
  probability_variation :: nat
  best_rate_diff0 :: int
  best_rate_diff1 :: int
  probability_variation_direction :: int
  interference_likely :: bool
  unconverged :: bool
  newly_unconverged :: bool
  best_rate_cycle_count :: int
  tbl :: "mmrc_stats list"

abbreviation rows :: "mmrc_table \<Rightarrow> nat" where
  "rows tb \<equiv> rows_from_sta_caps (tb_caps tb)"

section \<open>Priorities\<close>

text \<open>The index parameter is a \<open>u8\<close> in the code, so that the row numbers above 255 wrap here.\<close>

definition calculate_throughput :: "mmrc_table \<Rightarrow> nat \<Rightarrow> nat option" where
  "calculate_throughput tb idx =
     do {
       r \<leftarrow> get_rate_row (tb_caps tb) (trunc8 idx);
       st \<leftarrow> nth_opt (tbl tb) (r_index r);
       if prob st < 10 then Some 0
       else if r_index r = r_index (best_tp tb) \<and> interference_likely tb then
         do { t \<leftarrow> mmrc_calculate_theoretical_throughput r;
              Some (trunc32 (t div 100 * (prob st + probability_variation tb))) }
       else
         do { t \<leftarrow> mmrc_calculate_theoretical_throughput r; Some (trunc32 (t div 100 * prob st)) }
     }"

definition baseline_step :: "mmrc_sta_capabilities \<Rightarrow> nat \<Rightarrow> nat \<times> nat \<Rightarrow> (nat \<times> nat) option" where
  "baseline_step caps i m =
     do {
       r \<leftarrow> get_rate_row caps i;
       if \<not> validate_rate caps r then Some m
       else do {
         t \<leftarrow> mmrc_calculate_theoretical_throughput r;
         Some (if t < fst m then (t, r_index r) else m)
       }
     }"

definition find_baseline_index :: "mmrc_sta_capabilities \<Rightarrow> nat option" where
  "find_baseline_index caps =
     (if bit (rates caps) MMRC_MCS10 then Some 0
      else do {
        r \<leftarrow> get_rate_row caps 0;
        t \<leftarrow> mmrc_calculate_theoretical_throughput r;
        m \<leftarrow> ofold (baseline_step caps) [0..<rows_from_sta_caps caps] (t, 0);
        Some (snd m)
      })"

text \<open>The first two retry rates are computed alike, the third always falls back to MCS0.\<close>

definition lower_retry_rate :: "mmrc_sta_capabilities \<Rightarrow> bool \<Rightarrow> nat \<Rightarrow> mmrc_rate \<Rightarrow> mmrc_rate" where
  "lower_retry_rate caps unconv limit r =
     (if r_rate r \<noteq> MMRC_MCS0 then
        (let r = r\<lparr>r_rate := r_rate r - 1\<rparr>;
             r = (if unconv \<and> limit < r_rate r then r\<lparr>r_rate := limit\<rparr> else r)
         in rate_update_index caps r)
      else if MMRC_BW_1MHZ < r_bw r then rate_update_index caps (r\<lparr>r_bw := r_bw r - 1\<rparr>)
      else r)"

definition last_retry_rate :: "mmrc_sta_capabilities \<Rightarrow> mmrc_rate \<Rightarrow> mmrc_rate" where
  "last_retry_rate caps r =
     (if r_rate r \<noteq> MMRC_MCS0 then rate_update_index caps (r\<lparr>r_rate := MMRC_MCS0\<rparr>)
      else if MMRC_BW_1MHZ < r_bw r then rate_update_index caps (r\<lparr>r_bw := r_bw r - 1\<rparr>)
      else r)"

definition mmrc_fill_retry_rates :: "mmrc_table \<Rightarrow> mmrc_table" where
  "mmrc_fill_retry_rates tb =
     (let caps = tb_caps tb;
          second = lower_retry_rate caps (unconverged tb) MMRC_MCS4 (best_tp tb);
          bprob = lower_retry_rate caps (unconverged tb) MMRC_MCS2 second;
          base = last_retry_rate caps bprob
      in tb\<lparr>second_tp := second, best_prob := bprob, baseline := base\<rparr>)"

text \<open>The local variables of the search in \<open>generate_table_priority\<close>.\<close>

record priority =
  p_best_row :: nat
  p_best_tp :: nat
  p_second_row :: nat
  p_second_tp :: nat
  p_last_nonzero :: nat

definition priority_step :: "mmrc_table \<Rightarrow> nat \<Rightarrow> nat \<Rightarrow> priority \<Rightarrow> priority option" where
  "priority_step tb prev_best_row i p =
     do {
       tmp \<leftarrow> get_rate_row (tb_caps tb) i;
       if \<not> validate_rate (tb_caps tb) tmp then Some p
       else do {
         st \<leftarrow> nth_opt (tbl tb) (r_index tmp);
         if evidence st = 0 then Some p
         else do {
           tmp_tp \<leftarrow> calculate_throughput tb (r_index tmp);
           prev \<leftarrow> nth_opt (tbl tb) prev_best_row;
           last_st \<leftarrow> nth_opt (tbl tb) (p_last_nonzero p);
           let p = (if p_best_tp p < tmp_tp \<or>
                       (max_throughput st \<le> max_throughput prev \<and> 40 \<le> prob st \<and> prob last_st < prob st)
                    then p\<lparr>p_second_row := p_best_row p, p_second_tp := p_best_tp p,
                           p_best_tp := tmp_tp, p_best_row := r_index tmp\<rparr>
                    else if p_second_tp p < tmp_tp \<and> p_best_row p \<noteq> r_index tmp
                    then p\<lparr>p_second_tp := tmp_tp, p_second_row := r_index tmp\<rparr>
                    else p);
           Some (if 20 \<le> prob st \<and> max_throughput last_st \<le> max_throughput st
                 then p\<lparr>p_last_nonzero := r_index tmp\<rparr> else p)
         }
       }
     }"

definition update_stability :: "bool \<Rightarrow> mmrc_table \<Rightarrow> mmrc_table" where
  "update_stability same_row tb =
     (if MMRC_MCS1 < r_rate (best_tp tb) \<and> same_row
      then tb\<lparr>stability_cnt := trunc32 (stability_cnt tb + 1)\<rparr>
      else if 2 < stability_cnt tb then tb\<lparr>stability_cnt := stability_cnt tb - 2\<rparr>
      else tb\<lparr>stability_cnt := 0\<rparr>)"

definition update_convergence :: "bool \<Rightarrow> nat \<Rightarrow> mmrc_table \<Rightarrow> mmrc_table" where
  "update_convergence same_row prev_best_rate tb =
     (if \<not> same_row then
        (let latest = strunc8 (int prev_best_rate - int (r_rate (best_tp tb)));
             total = trunc8 (nat \<bar>best_rate_diff0 tb + best_rate_diff1 tb + latest\<bar>);
             tb = (if \<not> interference_likely tb then
                     (let tb = tb\<lparr>probability_variation := 0\<rparr>
                      in if \<not> unconverged tb \<and> best_rate_cycle_count tb \<le> 4 \<and> 2 \<le> total
                         then tb\<lparr>unconverged := True, newly_unconverged := True\<rparr> else tb)
                   else tb);
             tb = (if unconverged tb \<and> \<not> newly_unconverged tb \<and> total < 2
                   then tb\<lparr>unconverged := False\<rparr> else tb)
         in tb\<lparr>probability_variation_direction := 0, best_rate_cycle_count := 0,
               best_rate_diff0 := best_rate_diff1 tb, best_rate_diff1 := latest\<rparr>)
      else
        (let tb = tb\<lparr>best_rate_cycle_count := strunc32 (best_rate_cycle_count tb + 1)\<rparr>
         in if unconverged tb \<and> \<not> newly_unconverged tb \<and> 10 \<le> best_rate_cycle_count tb
            then tb\<lparr>unconverged := False\<rparr> else tb))"

definition generate_table_priority :: "mmrc_table \<Rightarrow> bool \<Rightarrow> mmrc_table option" where
  "generate_table_priority tb new_stats =
     do {
       let best_row = r_index (best_tp tb);
       let prev_best_row = best_row;
       let prev_best_rate = r_rate (best_tp tb);
       let second_row = r_index (second_tp tb);
       best_t \<leftarrow> calculate_throughput tb best_row;
       second_t \<leftarrow> calculate_throughput tb second_row;
       if r_rate (fixed_rate tb) \<noteq> MMRC_MCS_UNUSED
       then Some (tb\<lparr>best_tp := fixed_rate tb, second_tp := fixed_rate tb, best_prob := fixed_rate tb\<rparr>)
       else do {
         p \<leftarrow> ofold (priority_step tb prev_best_row) [0..<rows tb]
               \<lparr>p_best_row = best_row, p_best_tp = best_t, p_second_row = second_row,
                p_second_tp = second_t, p_last_nonzero = 0\<rparr>;
         if \<not> new_stats then Some tb
         else do {
           best \<leftarrow> get_rate_row (tb_caps tb) (p_best_row p);
           let best = (if p_best_tp p = 0 \<and> MMRC_MCS0 < r_rate best
                       then rate_update_index (tb_caps tb) (best\<lparr>r_rate := r_rate best - 1\<rparr>) else best);
           second \<leftarrow> get_rate_row (tb_caps tb) (p_second_row p);
           let tb = mmrc_fill_retry_rates (tb\<lparr>best_tp := best, second_tp := second\<rparr>);
           let same_row = (prev_best_row = p_best_row p);
           let tb = update_stability same_row tb;
           let tb = update_convergence same_row prev_best_rate tb;
           Some (if newly_unconverged tb then tb\<lparr>newly_unconverged := False\<rparr> else tb)
         }
       }
     }"

section \<open>Choosing the rates of a packet\<close>

text \<open>\<open>struct mmrc_rate_table\<close> is a list of \<open>MMRC_MAX_CHAIN_LENGTH = 4\<close> rates.\<close>

type_synonym mmrc_rate_table = "mmrc_rate list"

definition zero_rate :: mmrc_rate where
  "zero_rate = \<lparr>r_rate = 0, r_attempts = 0, r_guard = 0, r_ss = 0, r_bw = 0, r_flags = 0, r_index = 0\<rparr>"

definition unused_rate :: mmrc_rate where
  "unused_rate = zero_rate\<lparr>r_rate := MMRC_MCS_UNUSED\<rparr>"

primrec remaining_loop ::
    "mmrc_table \<Rightarrow> int \<Rightarrow> nat \<Rightarrow> nat list \<Rightarrow> mmrc_rate_table \<Rightarrow> mmrc_rate_table option" where
  "remaining_loop tb rem_time sz [] rs = Some rs"
| "remaining_loop tb rem_time sz (i # is) rs =
     do {
       r \<leftarrow> nth_opt rs i;
       if r_rate r = MMRC_MCS_UNUSED then Some rs
       else do {
         st \<leftarrow> nth_opt (tbl tb) (r_index r);
         if prob st < 20 then remaining_loop tb rem_time sz is rs
         else do {
           slow \<leftarrow> (if i = 0 then do { a \<leftarrow> calculate_throughput tb (r_index r);
                                       b \<leftarrow> calculate_throughput tb (r_index (best_prob tb));
                                       Some (a < b) }
                    else Some False);
           if slow then remaining_loop tb rem_time sz is rs
           else do {
             attempt_time \<leftarrow> calculate_attempt_time r sz;
             if attempt_time = 0 then remaining_loop tb rem_time sz is rs
             else do {
               share \<leftarrow> div_opt (nat rem_time) (max_rates (tb_caps tb));
               attempt \<leftarrow> div_opt share attempt_time;
               let attempt = trunc32 (attempt + r_attempts r);
               rs \<leftarrow> upd_opt rs i (\<lambda>r. r\<lparr>r_attempts := (if 2 < attempt then 2 else attempt) mod 8\<rparr>);
               remaining_loop tb rem_time sz is rs
             }
           }
         }
       }
     }"

definition calculate_remaining_attempts ::
    "mmrc_table \<Rightarrow> mmrc_rate_table \<Rightarrow> int \<Rightarrow> nat \<Rightarrow> mmrc_rate_table option" where
  "calculate_remaining_attempts tb rs rem_time sz =
     (if rem_time \<le> 0 then Some rs else remaining_loop tb rem_time sz [0..<4] rs)"

primrec initial_loop :: "nat \<Rightarrow> nat list \<Rightarrow> mmrc_rate_table \<times> int \<Rightarrow> (mmrc_rate_table \<times> int) option" where
  "initial_loop sz [] s = Some s"
| "initial_loop sz (i # is) s =
     do {
       r \<leftarrow> nth_opt (fst s) i;
       if r_rate r = MMRC_MCS_UNUSED then Some s
       else do {
         attempt_time \<leftarrow> calculate_attempt_time r sz;
         if 4000 < attempt_time then do {
           rs \<leftarrow> upd_opt (fst s) i (\<lambda>r. r\<lparr>r_attempts := 1\<rparr>);
           initial_loop sz is (rs, strunc32 (snd s - int attempt_time))
         } else do {
           rs \<leftarrow> upd_opt (fst s) i (\<lambda>r. r\<lparr>r_attempts := 2\<rparr>);
           initial_loop sz is (rs, strunc32 (snd s - int (trunc32 (attempt_time * 2))))
         }
       }
     }"

definition allocate_initial_attempts ::
    "mmrc_rate_table \<Rightarrow> int \<Rightarrow> nat \<Rightarrow> (mmrc_rate_table \<times> int) option" where
  "allocate_initial_attempts rs rem_time sz = initial_loop sz [0..<4] (rs, rem_time)"

text \<open>
  The search for a rate to sample. \<open>k\<close> counts the tries (\<open>lookaround_fail_count\<close>), \<open>n\<close> the tries
  left of \<open>LOOKAROUND_FAIL_MAX = 50\<close>; \<open>rnd k\<close> is the random source of try \<open>k\<close>. The result has no
  rate when every try failed.
\<close>

primrec lookaround_loop ::
    "(nat \<Rightarrow> nat \<Rightarrow> nat) \<Rightarrow> int \<Rightarrow> nat \<Rightarrow> nat \<Rightarrow> bool \<Rightarrow> mmrc_table \<Rightarrow> (mmrc_table \<times> mmrc_rate option) option" where
  "lookaround_loop rnd best_t 0 k try_current tb = Some (tb, None)"
| "lookaround_loop rnd best_t (Suc n) k try_current tb =
     do {
       let random_index = (if try_current then current_lookaround_rate_index tb
                           else trunc16 (rnd k (rows tb)));
       random \<leftarrow> get_rate_row (tb_caps tb) random_index;
       if \<not> validate_rate (tb_caps tb) random then lookaround_loop rnd best_t n (k + 1) False tb
       else if r_rate random = MMRC_MCS10 then lookaround_loop rnd best_t n (k + 1) False tb
       else do {
         st \<leftarrow> nth_opt (tbl tb) random_index;
         t \<leftarrow> (if 0 < evidence st then calculate_throughput tb random_index
              else mmrc_calculate_theoretical_throughput random);
         let random_tp = strunc32 (int t);
         if random_tp \<le> best_t then lookaround_loop rnd best_t n (k + 1) False tb
         else if r_rate (best_tp tb) + 1 < r_rate random \<or> r_bw (best_tp tb) + 1 < r_bw random \<or>
                 (r_rate (best_tp tb) < r_rate random \<and> r_bw (best_tp tb) < r_bw random)
         then lookaround_loop rnd best_t n (k + 1) False tb
         else if current_lookaround_rate_index tb = random_index
         then Some (tb\<lparr>current_lookaround_rate_attempts := trunc8 (current_lookaround_rate_attempts tb + 1)\<rparr>,
                    Some random)
         else Some (tb\<lparr>current_lookaround_rate_attempts := 0, current_lookaround_rate_index := random_index\<rparr>,
                    Some random)
       }
     }"

definition want_lookaround :: "mmrc_table \<Rightarrow> bool option" where
  "want_lookaround tb =
     do {
       st \<leftarrow> nth_opt (tbl tb) (r_index (best_tp tb));
       Some (r_rate (fixed_rate tb) = MMRC_MCS_UNUSED \<and>
             (lookaround_cnt tb = 0 \<or> trunc32 (last_lookaround_cycle tb + 5) \<le> cycle_cnt tb) \<and>
             evidence st \<noteq> 0)
     }"

definition adjust_lookaround_wrap :: "bool \<Rightarrow> mmrc_table \<Rightarrow> bool \<times> mmrc_table" where
  "adjust_lookaround_wrap is_lookaround tb =
     (if lookaround_wrap tb \<noteq> 100 then
        (if stability_cnt_threshold tb \<le> stability_cnt tb
         then (False, tb\<lparr>lookaround_wrap := 100, stability_cnt_threshold := 100, stability_cnt := 200\<rparr>)
         else (is_lookaround, tb))
      else if stability_cnt tb < stability_cnt_threshold tb
      then (is_lookaround, tb\<lparr>stability_cnt_threshold := 50, lookaround_wrap := 50, stability_cnt := 0\<rparr>)
      else (is_lookaround, tb))"

definition sample_rate :: "(nat \<Rightarrow> nat \<Rightarrow> nat) \<Rightarrow> mmrc_table \<Rightarrow> (mmrc_table \<times> mmrc_rate option) option" where
  "sample_rate rnd tb =
     do {
       let tb = tb\<lparr>total_lookaround := trunc32 (total_lookaround tb + 1),
                   forced_lookaround := (forced_lookaround tb + 1) mod 50,
                   last_lookaround_cycle := cycle_cnt tb\<rparr>;
       best_t \<leftarrow> calculate_throughput tb (r_index (best_tp tb));
       (tb, found) \<leftarrow> lookaround_loop rnd (strunc32 (int best_t)) 50 0
                        (current_lookaround_rate_attempts tb < 4) tb;
       Some (case found of
               None \<Rightarrow> (tb\<lparr>current_lookaround_rate_index := r_index (best_tp tb)\<rparr>, None)
             | Some r \<Rightarrow> (tb, Some r))
     }"

definition fill_chain :: "mmrc_table \<Rightarrow> mmrc_rate option \<Rightarrow> mmrc_rate_table" where
  "fill_chain tb found =
     (let first = (case found of Some r \<Rightarrow> r | None \<Rightarrow> best_tp tb);
          second = (\<lambda>r. case found of Some _ \<Rightarrow> best_tp tb | None \<Rightarrow> r)
      in if max_rates (tb_caps tb) = 1 then [first, unused_rate, unused_rate, unused_rate]
         else if max_rates (tb_caps tb) = 2 then [first, second (best_prob tb), unused_rate, unused_rate]
         else if max_rates (tb_caps tb) = 3 then [first, second (second_tp tb), best_prob tb, unused_rate]
         else [first, second (second_tp tb), best_prob tb, baseline tb])"

definition limit_attempts :: "mmrc_table \<Rightarrow> bool \<Rightarrow> nat \<Rightarrow> mmrc_rate \<Rightarrow> mmrc_rate" where
  "limit_attempts tb is_lookaround i r =
     (if r_rate r \<noteq> MMRC_MCS_UNUSED then
        (let a = (if r_attempts r = 0 then 1 else r_attempts r);
             a = (if 2 < a then 2 else a);
             a = (if i = 0 \<and> is_lookaround \<and> lookaround_wrap tb \<noteq> 5 then 1 else a)
         in r\<lparr>r_attempts := a\<rparr>)
      else r)"

definition boost_best :: "mmrc_rate \<Rightarrow> mmrc_rate" where
  "boost_best r =
     (if r_attempts r = 1 \<and> MMRC_MCS1 < r_rate r then r\<lparr>r_attempts := 2\<rparr>
      else if r_rate r \<le> MMRC_MCS1 then r\<lparr>r_attempts := 1\<rparr>
      else r)"

definition mmrc_get_rates ::
    "(nat \<Rightarrow> nat \<Rightarrow> nat) \<Rightarrow> mmrc_table \<Rightarrow> nat \<Rightarrow> (mmrc_table \<times> mmrc_rate_table) option" where
  "mmrc_get_rates rnd tb sz =
     do {
       cnt \<leftarrow> mod_opt (lookaround_cnt tb + 1) (lookaround_wrap tb);
       let tb = tb\<lparr>lookaround_cnt := cnt\<rparr>;
       is_lookaround \<leftarrow> want_lookaround tb;
       let (is_lookaround, tb) = adjust_lookaround_wrap is_lookaround tb;
       (tb, found) \<leftarrow> (if is_lookaround then sample_rate rnd tb else Some (tb, None));
       let out = fill_chain tb found;
       let out = map (\<lambda>i. if 1 \<le> i then (out ! i)\<lparr>r_flags := r_flags (out ! i) OR 1\<rparr> else out ! i) [0..<4];
       (out, rem_time) \<leftarrow> allocate_initial_attempts out 24000 sz;
       out \<leftarrow> calculate_remaining_attempts tb out rem_time sz;
       let out = map (\<lambda>i. limit_attempts tb (found \<noteq> None) i (out ! i)) [0..<4];
       let best_index = (if found = None then 0 else 1);
       out \<leftarrow> upd_opt out best_index boost_best;
       Some (tb, out)
     }"

section \<open>Statistics\<close>

definition calc_ewma_average :: "nat \<Rightarrow> nat \<Rightarrow> nat \<Rightarrow> nat" where
  "calc_ewma_average avg latest weight =
     (if avg = 0 then latest
      else trunc32 (trunc32 (latest * trunc32 (4294967296 + 100 - weight)) + trunc32 (avg * weight)) div 100)"

definition variation_direction :: "int \<Rightarrow> mmrc_table \<Rightarrow> int" where
  "variation_direction d tb =
     (let dir = probability_variation_direction tb
      in if d * dir < 0 then 0
         else if 0 < d then strunc8 (min (dir + 1) 5)
         else if d < 0 then strunc8 (max (dir - 1) (- 5))
         else dir)"

definition track_variation :: "int \<Rightarrow> mmrc_table \<Rightarrow> mmrc_table" where
  "track_variation d tb =
     (let tb = tb\<lparr>probability_variation :=
                 trunc8 (calc_ewma_average (probability_variation tb) (nat \<bar>d\<bar>) 95)\<rparr>
      in if 3 \<le> probability_variation tb \<or> interference_likely tb
         then tb\<lparr>probability_variation_direction := variation_direction d tb\<rparr> else tb)"

definition detect_interference :: "mmrc_table \<Rightarrow> mmrc_table" where
  "detect_interference tb =
     (if 3 < best_rate_cycle_count tb \<and> 5 \<le> probability_variation tb then
        (if \<bar>probability_variation_direction tb\<bar> \<le> 3 \<and> \<not> interference_likely tb
         then tb\<lparr>interference_likely := True\<rparr> else tb)
      else if interference_likely tb \<and>
              (probability_variation tb \<le> 1 \<or> \<bar>probability_variation_direction tb\<bar> = 5)
      then tb\<lparr>interference_likely := False\<rparr> else tb)"

definition mmrc_process_variation :: "mmrc_table \<Rightarrow> nat \<Rightarrow> nat \<Rightarrow> mmrc_table option" where
  "mmrc_process_variation tb current_success idx =
     (if idx \<noteq> r_index (best_tp tb) then Some tb
      else if current_success = 0 then
        Some (if \<not> unconverged tb then tb\<lparr>unconverged := True, newly_unconverged := True\<rparr> else tb)
      else do {
        st \<leftarrow> nth_opt (tbl tb) idx;
        if prob st = 0 then Some tb
        else if lookaround_wrap tb = 5 then Some tb
        else Some (detect_interference (track_variation (int current_success - int (prob st)) tb))
      })"

definition min_stats :: "mmrc_table \<Rightarrow> nat" where
  "min_stats tb = (if lookaround_wrap tb \<noteq> 5 then 2 else 1)"

definition evidence_scale :: "mmrc_stats \<Rightarrow> nat option" where
  "evidence_scale st =
     do {
       scale \<leftarrow> (if evidence st = 0 then Some 0 else div_opt (evidence st * 2 * 100) (sent st * 5 + evidence st));
       let scale = (if 100 < scale then 100 else scale);
       Some (scale * 75 div 100)
     }"

definition update_evidence :: "nat \<Rightarrow> nat \<Rightarrow> mmrc_stats \<Rightarrow> mmrc_stats" where
  "update_evidence min_st scaled_ewma st =
     (let evidence_sent = (if min_st \<le> sent st then sent st else 0);
          e = trunc16 (calc_ewma_average (evidence st) (evidence_sent * 5) scaled_ewma)
      in st\<lparr>evidence := (if 100 < e then 100 else e)\<rparr>)"

text \<open>The attempts and successes the probability is computed from.\<close>

definition stats_source :: "bool \<Rightarrow> mmrc_stats \<Rightarrow> nat \<times> nat" where
  "stats_source unconv st =
     (let attempts = back_mpdu_success st + back_mpdu_failure st;
          success = back_mpdu_success st
      in if \<not> have_sent_ampdus st \<or> unconv \<or> attempts < 2 \<or>
            trunc32 (sent st + 4294967296 - attempts) < attempts div 2
         then (sent st, sent_success st) else (attempts, success))"

definition update_throughput :: "nat \<Rightarrow> mmrc_stats \<Rightarrow> mmrc_stats option" where
  "update_throughput throughput st =
     do {
       let st = (if max_throughput st < throughput then st\<lparr>max_throughput := throughput\<rparr> else st);
       st \<leftarrow> (if 4294967295 - throughput < sum_throughput st
              then do { s \<leftarrow> div_opt (sum_throughput st) (avg_throughput_counter st);
                        Some (st\<lparr>sum_throughput := s, avg_throughput_counter := 1\<rparr>) }
              else Some st);
       Some (st\<lparr>sum_throughput := trunc32 (sum_throughput st + throughput),
                avg_throughput_counter := trunc32 (avg_throughput_counter st + 1)\<rparr>)
     }"

definition clear_stats :: "mmrc_stats \<Rightarrow> mmrc_stats" where
  "clear_stats st =
     st\<lparr>total_sent := trunc32 (total_sent st + sent st), sent := 0,
        total_success := trunc32 (total_success st + sent_success st), sent_success := 0,
        back_mpdu_failure := 0, back_mpdu_success := 0, have_sent_ampdus := False\<rparr>"

definition update_row :: "nat \<Rightarrow> nat \<Rightarrow> mmrc_table \<times> bool \<Rightarrow> (mmrc_table \<times> bool) option" where
  "update_row min_st i s =
     do {
       let (tb, new_stats) = s;
       st \<leftarrow> nth_opt (tbl tb) i;
       scaled_ewma \<leftarrow> evidence_scale st;
       let st = update_evidence min_st scaled_ewma st;
       let tb = tb\<lparr>tbl := (tbl tb)[i := st]\<rparr>;
       let (attempts, success) = stats_source (unconverged tb) st;
       (tb, new_stats) \<leftarrow>
         (if min_st \<le> attempts \<or> (0 < attempts \<and> 0 < prob st) then do {
            this_success \<leftarrow> div_opt (100 * success) attempts;
            let this_success = trunc16 this_success;
            tb \<leftarrow> (if scaled_ewma \<noteq> 0 then mmrc_process_variation tb this_success i else Some tb);
            tbl' \<leftarrow> upd_opt (tbl tb) i (\<lambda>st.
              clear_stats (st\<lparr>prob := trunc8 (calc_ewma_average (prob st) this_success scaled_ewma)\<rparr>));
            Some (tb\<lparr>tbl := tbl'\<rparr>, True)
          } else Some (tb, new_stats));
       throughput \<leftarrow> calculate_throughput tb i;
       st \<leftarrow> nth_opt (tbl tb) i;
       st \<leftarrow> update_throughput throughput st;
       Some (tb\<lparr>tbl := (tbl tb)[i := st]\<rparr>, new_stats)
     }"

definition mmrc_update :: "mmrc_table \<Rightarrow> mmrc_table option" where
  "mmrc_update tb =
     do {
       let tb = tb\<lparr>cycle_cnt := trunc32 (cycle_cnt tb + 1)\<rparr>;
       (tb, new_stats) \<leftarrow> ofold (update_row (min_stats tb)) [0..<rows tb] (tb, False);
       tb \<leftarrow> generate_table_priority tb new_stats;
       let tb = (if lookaround_wrap tb \<noteq> 5 \<and>
                    (unconverged tb \<or> (r_bw (best_tp tb) = MMRC_BW_1MHZ \<and> r_rate (best_tp tb) \<le> 2))
                 then tb\<lparr>lookaround_cnt := 0, lookaround_wrap := 5, stability_cnt_threshold := 20\<rparr>
                 else tb);
       Some (if current_lookaround_rate_attempts tb \<le> 2
             then tb\<lparr>current_lookaround_rate_attempts := 4\<rparr> else tb)
     }"

section \<open>Feedback\<close>

text \<open>
  Both feedback loops walk the chain the packet was sent with. The remaining chain is the list
  argument; \<open>ind\<close> is the \<open>s32\<close> number of attempts still to account for. The chain is returned
  with the row numbers the code refreshes in it.
\<close>

definition add16 :: "nat \<Rightarrow> int \<Rightarrow> nat" where
  "add16 a d = nat ((int a + d) mod 65536)"

primrec feedback_agg_loop ::
    "nat \<Rightarrow> nat \<Rightarrow> mmrc_rate list \<Rightarrow> int \<Rightarrow> mmrc_table \<Rightarrow> (mmrc_table \<times> mmrc_rate list) option" where
  "feedback_agg_loop success failure [] ind tb = Some (tb, [])"
| "feedback_agg_loop success failure (r # rs) ind tb =
     do {
       let packet_count = trunc32 (success + failure);
       let r = rate_update_index (tb_caps tb) r;
       t \<leftarrow> upd_opt (tbl tb) (r_index r) (\<lambda>st. st\<lparr>have_sent_ampdus := True\<rparr>);
       if int (r_attempts r) < ind then do {
         let ind = ind - int (r_attempts r);
         t \<leftarrow> upd_opt t (r_index r) (\<lambda>st. st\<lparr>sent := add16 (sent st) (int (r_attempts r * packet_count))\<rparr>);
         if ind = 0 then Some (tb\<lparr>tbl := t\<rparr>, r # rs)
         else do { (tb, rs) \<leftarrow> feedback_agg_loop success failure rs ind (tb\<lparr>tbl := t\<rparr>); Some (tb, r # rs) }
       } else do {
         t \<leftarrow> upd_opt t (r_index r) (\<lambda>st.
           st\<lparr>sent := add16 (sent st) (int packet_count * ind),
              sent_success := add16 (sent_success st) (int success),
              back_mpdu_success := add16 (back_mpdu_success st) (int success),
              back_mpdu_failure := add16 (back_mpdu_failure st) (int failure)\<rparr>);
         Some (tb\<lparr>tbl := t\<rparr>, r # rs)
       }
     }"

definition mmrc_feedback_agg ::
    "mmrc_table \<Rightarrow> mmrc_rate_table \<Rightarrow> int \<Rightarrow> nat \<Rightarrow> nat \<Rightarrow> (mmrc_table \<times> mmrc_rate_table) option" where
  "mmrc_feedback_agg tb rs retry_count success failure = feedback_agg_loop success failure rs retry_count tb"

primrec feedback_loop ::
    "int \<Rightarrow> mmrc_rate list \<Rightarrow> int \<Rightarrow> mmrc_table \<Rightarrow> (mmrc_table \<times> mmrc_rate list) option" where
  "feedback_loop retry_count [] ind tb = Some (tb, [])"
| "feedback_loop retry_count (r # rs) ind tb =
     do {
       let r = rate_update_index (tb_caps tb) r;
       if retry_count = -1 then do {
         t \<leftarrow> upd_opt (tbl tb) (r_index r) (\<lambda>st. st\<lparr>sent := r_attempts r\<rparr>);
         (tb, rs) \<leftarrow> feedback_loop retry_count rs ind (tb\<lparr>tbl := t\<rparr>);
         Some (tb, r # rs)
       } else if int (r_attempts r) < ind then do {
         t \<leftarrow> upd_opt (tbl tb) (r_index r) (\<lambda>st. st\<lparr>sent := add16 (sent st) (int (r_attempts r))\<rparr>);
         let ind = ind - int (r_attempts r);
         if ind = 0 then Some (tb\<lparr>tbl := t\<rparr>, r # rs)
         else do { (tb, rs) \<leftarrow> feedback_loop retry_count rs ind (tb\<lparr>tbl := t\<rparr>); Some (tb, r # rs) }
       } else do {
         t \<leftarrow> upd_opt (tbl tb) (r_index r) (\<lambda>st.
           st\<lparr>sent := add16 (sent st) ind, sent_success := add16 (sent_success st) 1\<rparr>);
         Some (tb\<lparr>tbl := t\<rparr>, r # rs)
       }
     }"

definition mmrc_feedback :: "mmrc_table \<Rightarrow> mmrc_rate_table \<Rightarrow> int \<Rightarrow> (mmrc_table \<times> mmrc_rate_table) option" where
  "mmrc_feedback tb rs retry_count = feedback_loop retry_count rs retry_count tb"

section \<open>Initialisation and fixed rates\<close>

definition MMRC_MAX_BW :: "nat \<Rightarrow> nat" where
  "MMRC_MAX_BW bw_caps =
     (if bit bw_caps MMRC_BW_16MHZ then MMRC_BW_16MHZ
      else if bit bw_caps MMRC_BW_8MHZ then MMRC_BW_8MHZ
      else if bit bw_caps MMRC_BW_4MHZ then MMRC_BW_4MHZ
      else if bit bw_caps MMRC_BW_2MHZ then MMRC_BW_2MHZ
      else MMRC_BW_1MHZ)"

definition mmrc_init_rates :: "mmrc_table \<Rightarrow> int \<Rightarrow> mmrc_table" where
  "mmrc_init_rates tb rssi =
     (let bw = MMRC_MAX_BW (bandwidth (tb_caps tb));
          guard = (if bit (sgi_per_bw (tb_caps tb)) bw then MMRC_GUARD_SHORT else MMRC_GUARD_LONG);
          rate = (if -70 \<le> rssi then MMRC_MCS7
                  else if rssi < -70 \<and> -85 \<le> rssi then MMRC_MCS3
                  else if bw = MMRC_BW_1MHZ \<or> bw = MMRC_BW_2MHZ then MMRC_MCS3
                  else MMRC_MCS0);
          best = rate_update_index (tb_caps tb)
                   ((best_tp tb)\<lparr>r_bw := bw, r_guard := guard, r_rate := rate, r_ss := MMRC_SPATIAL_STREAM_1\<rparr>)
      in mmrc_fill_retry_rates (tb\<lparr>best_tp := best, second_tp := best, best_prob := best, baseline := best\<rparr>))"

definition zero_stats :: mmrc_stats where
  "zero_stats = \<lparr>avg_throughput_counter = 0, sum_throughput = 0, max_throughput = 0, sent = 0,
     sent_success = 0, back_mpdu_success = 0, back_mpdu_failure = 0, total_sent = 0,
     total_success = 0, evidence = 0, prob = 0, have_sent_ampdus = False\<rparr>"

text \<open>The table after the \<open>memset\<close> and \<open>memcpy\<close> of \<open>mmrc_sta_init\<close>: one row of zeros for each row number.\<close>

definition zero_table :: "mmrc_sta_capabilities \<Rightarrow> mmrc_table" where
  "zero_table caps = \<lparr>tb_caps = caps, best_tp = zero_rate, second_tp = zero_rate, baseline = zero_rate,
     best_prob = zero_rate, fixed_rate = zero_rate, cycle_cnt = 0, last_lookaround_cycle = 0,
     lookaround_cnt = 0, lookaround_wrap = 0, forced_lookaround = 0,
     current_lookaround_rate_attempts = 0, current_lookaround_rate_index = 0, total_lookaround = 0,
     stability_cnt = 0, stability_cnt_threshold = 0, probability_variation = 0,
     best_rate_diff0 = 0, best_rate_diff1 = 0, probability_variation_direction = 0,
     interference_likely = False, unconverged = False, newly_unconverged = False,
     best_rate_cycle_count = 0, tbl = replicate (rows_from_sta_caps caps) zero_stats\<rparr>"

definition mmrc_sta_init :: "mmrc_sta_capabilities \<Rightarrow> int \<Rightarrow> mmrc_table option" where
  "mmrc_sta_init caps rssi =
     do {
       let tb = zero_table caps;
       let tb = tb\<lparr>fixed_rate := (fixed_rate tb)\<lparr>r_rate := MMRC_MCS_UNUSED\<rparr>, cycle_cnt := 0,
                   last_lookaround_cycle := 0, lookaround_cnt := 0, lookaround_wrap := 5,
                   unconverged := True, newly_unconverged := True, stability_cnt_threshold := 20\<rparr>;
       i \<leftarrow> find_baseline_index caps;
       base \<leftarrow> get_rate_row caps i;
       Some (mmrc_init_rates (tb\<lparr>baseline := base\<rparr>) rssi)
     }"

definition mmrc_sta_get_best_rate :: "mmrc_table \<Rightarrow> mmrc_rate" where
  "mmrc_sta_get_best_rate tb = best_tp tb"

definition mmrc_set_fixed_rate :: "mmrc_table \<Rightarrow> mmrc_rate \<Rightarrow> mmrc_table \<times> bool" where
  "mmrc_set_fixed_rate tb r =
     (let caps = tb_caps tb;
          caps_support_rate = (bit (rates caps) (r_rate r) \<and> bit (bandwidth caps) (r_bw r) \<and>
            bit (spatial_streams caps) (r_ss r) \<and> bit (guards caps) (r_guard r))
      in if validate_rate caps r \<and> caps_support_rate
         then (tb\<lparr>fixed_rate := rate_update_index caps r\<rparr>, True) else (tb, False))"


section \<open>The invariant\<close>

definition wf_stats :: "nat \<Rightarrow> mmrc_stats \<Rightarrow> bool" where
  "wf_stats cycles st \<longleftrightarrow> prob st \<le> 100 \<and> evidence st \<le> 100 \<and> sent_success st \<le> sent st \<and> sent st < 65536 \<and>
     avg_throughput_counter st \<le> cycles \<and> (avg_throughput_counter st = 0 \<longrightarrow> sum_throughput st = 0)"

definition wf_core :: "mmrc_table \<Rightarrow> bool" where
  "wf_core tb \<longleftrightarrow> wf_caps (tb_caps tb) \<and> 0 < max_rates (tb_caps tb) \<and> length (tbl tb) = rows tb \<and>
     rate_in_table (tb_caps tb) (best_tp tb) \<and> rate_in_table (tb_caps tb) (second_tp tb) \<and>
     rate_in_table (tb_caps tb) (best_prob tb) \<and> rate_in_table (tb_caps tb) (baseline tb) \<and>
     (r_rate (fixed_rate tb) = MMRC_MCS_UNUSED \<or> rate_in_table (tb_caps tb) (fixed_rate tb)) \<and>
     lookaround_wrap tb \<in> {5, 50, 100} \<and> current_lookaround_rate_index tb < rows tb"

definition wf_table :: "mmrc_table \<Rightarrow> bool" where
  "wf_table tb \<longleftrightarrow> wf_core tb \<and> (\<forall>st \<in> set (tbl tb). wf_stats (cycle_cnt tb) st)"

lemma wf_coreD:
  assumes "wf_core tb"
  shows "wf_caps (tb_caps tb)" "0 < max_rates (tb_caps tb)" "length (tbl tb) = rows tb" "0 < rows tb"
    "rate_in_table (tb_caps tb) (best_tp tb)" "rate_in_table (tb_caps tb) (second_tp tb)"
    "rate_in_table (tb_caps tb) (best_prob tb)" "rate_in_table (tb_caps tb) (baseline tb)"
    "r_rate (fixed_rate tb) = MMRC_MCS_UNUSED \<or> rate_in_table (tb_caps tb) (fixed_rate tb)"
    "lookaround_wrap tb \<in> {5, 50, 100}" "current_lookaround_rate_index tb < rows tb"
    "r_index (best_tp tb) < rows tb" "r_index (second_tp tb) < rows tb" "r_index (best_prob tb) < rows tb"
  using assms rows_le(1) [of "tb_caps tb"] by (auto simp: wf_core_def rate_in_table_def)

lemma rate_update_index_in_table:
  "wf_caps caps \<Longrightarrow> r_rate r < 11 \<Longrightarrow> r_bw r < 4 \<Longrightarrow> r_ss r < 4 \<Longrightarrow> r_guard r < 2 \<Longrightarrow>
    rate_in_table caps (rate_update_index caps r)"
  using rate_update_index_in_range [OF rows_le(1)] by (simp add: rate_in_table_def)

lemma lower_retry_rate_in_table:
  "wf_caps caps \<Longrightarrow> rate_in_table caps r \<Longrightarrow> limit < 11 \<Longrightarrow> rate_in_table caps (lower_retry_rate caps u limit r)"
  by (auto simp: lower_retry_rate_def Let_def rate_in_table_def rate_update_index_in_range [OF rows_le(1)])

lemma last_retry_rate_in_table:
  "wf_caps caps \<Longrightarrow> rate_in_table caps r \<Longrightarrow> rate_in_table caps (last_retry_rate caps r)"
  by (auto simp: last_retry_rate_def rate_in_table_def rate_update_index_in_range [OF rows_le(1)] mmrc_enum)

lemma fill_retry_rates_frame [simp, frame]:
  "tb_caps (mmrc_fill_retry_rates tb) = tb_caps tb" "best_tp (mmrc_fill_retry_rates tb) = best_tp tb"
  "tbl (mmrc_fill_retry_rates tb) = tbl tb" "cycle_cnt (mmrc_fill_retry_rates tb) = cycle_cnt tb"
  "fixed_rate (mmrc_fill_retry_rates tb) = fixed_rate tb"
  "lookaround_wrap (mmrc_fill_retry_rates tb) = lookaround_wrap tb"
  "current_lookaround_rate_index (mmrc_fill_retry_rates tb) = current_lookaround_rate_index tb"
  by (simp_all add: mmrc_fill_retry_rates_def Let_def)

lemma fill_retry_rates_core [preserves]:
  assumes "wf_caps (tb_caps tb)" "0 < max_rates (tb_caps tb)" "length (tbl tb) = rows tb"
    "rate_in_table (tb_caps tb) (best_tp tb)"
    "r_rate (fixed_rate tb) = MMRC_MCS_UNUSED \<or> rate_in_table (tb_caps tb) (fixed_rate tb)"
    "lookaround_wrap tb \<in> {5, 50, 100}" "current_lookaround_rate_index tb < rows tb"
  shows "wf_core (mmrc_fill_retry_rates tb)"
  using assms unfolding wf_core_def
  by (simp add: mmrc_fill_retry_rates_def Let_def lower_retry_rate_in_table last_retry_rate_in_table mmrc_enum)

section \<open>Reading the table is safe\<close>

lemma calculate_throughput_defined:
  assumes "wf_caps (tb_caps tb)" "length (tbl tb) = rows tb" "idx < rows tb"
  shows "\<exists>t. calculate_throughput tb idx = Some t \<and> t < 4294967296"
proof -
  have "trunc8 idx < rows tb" using assms(3) le_less_trans trunc_le(1) by blast
  from get_rate_row_in_table [OF assms(1) this] obtain r
    where r: "get_rate_row (tb_caps tb) (trunc8 idx) = Some r" "rate_in_table (tb_caps tb) r" by blast
  then obtain t where "mmrc_calculate_theoretical_throughput r = Some t"
    using theoretical_throughput_defined by (auto simp: rate_in_table_def)
  with r assms show ?thesis by (simp add: calculate_throughput_def rate_in_table_def)
qed

definition priority_ok :: "mmrc_table \<Rightarrow> priority \<Rightarrow> bool" where
  "priority_ok tb p \<longleftrightarrow> p_best_row p < rows tb \<and> p_second_row p < rows tb \<and> p_last_nonzero p < rows tb"

lemma priority_step_ok:
  assumes "wf_core tb" "i < rows tb" "prev < rows tb" "priority_ok tb p"
  shows "\<exists>q. priority_step tb prev i p = Some q \<and> priority_ok tb q"
proof -
  note wf = wf_coreD [OF assms(1)]
  obtain r where r: "get_rate_row (tb_caps tb) i = Some r" "rate_in_table (tb_caps tb) r"
    using get_rate_row_in_table [OF wf(1) assms(2)] by blast
  then have lt: "r_index r < rows tb" by (simp add: rate_in_table_def)
  obtain t where "calculate_throughput tb (r_index r) = Some t"
    using calculate_throughput_defined [OF wf(1,3) lt] by blast
  with r lt assms wf show ?thesis
    by (auto simp: priority_step_def priority_ok_def Let_def)
qed

lemma get_rate_row_lowered:
  assumes "wf_caps caps" "rate_in_table caps r"
  shows "rate_in_table caps (rate_update_index caps (r\<lparr>r_rate := r_rate r - 1\<rparr>))"
  using assms by (intro rate_update_index_in_table) (auto simp: rate_in_table_def)

lemma update_stability_frame [simp, frame]:
  "tb_caps (update_stability s tb) = tb_caps tb" "tbl (update_stability s tb) = tbl tb"
  "cycle_cnt (update_stability s tb) = cycle_cnt tb" "fixed_rate (update_stability s tb) = fixed_rate tb"
  "wf_core (update_stability s tb) = wf_core tb"
  by (simp_all add: update_stability_def wf_core_def)

lemma update_convergence_frame [simp, frame]:
  "tb_caps (update_convergence s r tb) = tb_caps tb" "tbl (update_convergence s r tb) = tbl tb"
  "cycle_cnt (update_convergence s r tb) = cycle_cnt tb" "fixed_rate (update_convergence s r tb) = fixed_rate tb"
  "wf_core (update_convergence s r tb) = wf_core tb"
  by (simp_all add: update_convergence_def wf_core_def Let_def)

lemma generate_table_priority_ok:
  assumes "wf_core tb"
  shows "\<exists>tb'. generate_table_priority tb new_stats = Some tb' \<and> wf_core tb' \<and> tb_caps tb' = tb_caps tb \<and>
    tbl tb' = tbl tb \<and> cycle_cnt tb' = cycle_cnt tb \<and> fixed_rate tb' = fixed_rate tb \<and>
    (r_rate (fixed_rate tb) \<noteq> MMRC_MCS_UNUSED \<longrightarrow>
       best_tp tb' = fixed_rate tb \<and> second_tp tb' = fixed_rate tb \<and> best_prob tb' = fixed_rate tb)"
proof -
  note wf = wf_coreD [OF assms]
  obtain b s where tp: "calculate_throughput tb (r_index (best_tp tb)) = Some b"
    "calculate_throughput tb (r_index (second_tp tb)) = Some s"
    using calculate_throughput_defined [OF wf(1,3)] wf(12,13) by blast
  let ?p0 = "\<lparr>p_best_row = r_index (best_tp tb), p_best_tp = b, p_second_row = r_index (second_tp tb),
                p_second_tp = s, p_last_nonzero = 0\<rparr>"
  have "\<exists>p. ofold (priority_step tb (r_index (best_tp tb))) [0..<rows tb] ?p0 = Some p \<and> priority_ok tb p"
    using wf by (intro ofold_rule priority_step_ok) (auto simp: assms priority_ok_def)
  then obtain p where p: "ofold (priority_step tb (r_index (best_tp tb))) [0..<rows tb] ?p0 = Some p"
    "p_best_row p < rows tb" "p_second_row p < rows tb" by (auto simp: priority_ok_def)
  obtain best where best: "get_rate_row (tb_caps tb) (p_best_row p) = Some best" "rate_in_table (tb_caps tb) best"
    using get_rate_row_in_table [OF wf(1) p(2)] by blast
  obtain second where second: "get_rate_row (tb_caps tb) (p_second_row p) = Some second"
    "rate_in_table (tb_caps tb) second"
    using get_rate_row_in_table [OF wf(1) p(3)] by blast
  have core: "wf_core (mmrc_fill_retry_rates (tb\<lparr>best_tp := b', second_tp := second\<rparr>))"
    if "rate_in_table (tb_caps tb) b'" for b'
    using that wf by (intro fill_retry_rates_core) auto
  have unset: "wf_core (t\<lparr>newly_unconverged := False\<rparr>) = wf_core t" for t by (simp add: wf_core_def)
  show ?thesis
  proof (cases "r_rate (fixed_rate tb) = MMRC_MCS_UNUSED")
    case False
    with assms wf(9) tp show ?thesis by (simp add: generate_table_priority_def wf_core_def)
  next
    case True
    with assms tp p(1) best second show ?thesis
      by (simp add: generate_table_priority_def Let_def core get_rate_row_lowered [OF wf(1), simplified] unset)
  qed
qed

section \<open>The periodic update\<close>

lemma ewma_value:
  assumes "weight \<le> 100" "latest \<le> 1000000" "avg \<le> 1000000"
  shows "calc_ewma_average avg latest weight =
    (if avg = 0 then latest else (latest * (100 - weight) + avg * weight) div 100)"
proof -
  have w: "trunc32 (4294967296 + 100 - weight) = 100 - weight"
  proof -
    have "4294967296 + 100 - weight = 4294967296 + (100 - weight)" using assms(1) by simp
    then show ?thesis using assms(1) by (simp only: trunc32_def mod_add_self1) simp
  qed
  have "latest * (100 - weight) \<le> 1000000 * 100" "avg * weight \<le> 1000000 * 100"
    using assms mult_le_mono [of latest 1000000 "100 - weight" 100] mult_le_mono [of avg 1000000 weight 100] by simp_all
  then show ?thesis unfolding calc_ewma_average_def w by simp
qed

lemma ewma_le:
  assumes "weight \<le> 100" "latest \<le> m" "avg \<le> m" "m \<le> 1000000"
  shows "calc_ewma_average avg latest weight \<le> m"
proof -
  have "latest * (100 - weight) + avg * weight \<le> m * (100 - weight) + m * weight"
    using assms by (intro add_mono mult_le_mono) auto
  also have "\<dots> = m * 100" using assms(1) by (simp add: distrib_left [symmetric])
  finally have "(latest * (100 - weight) + avg * weight) div 100 \<le> m"
    using div_le_mono [of _ "m * 100" 100] by fastforce
  then show ?thesis using assms ewma_value [of weight latest avg] by simp
qed

lemma track_variation_frame [simp, frame]:
  "wf_core (track_variation d tb) = wf_core tb" "tb_caps (track_variation d tb) = tb_caps tb"
  "tbl (track_variation d tb) = tbl tb" "cycle_cnt (track_variation d tb) = cycle_cnt tb"
  "fixed_rate (track_variation d tb) = fixed_rate tb"
  by (simp_all add: track_variation_def wf_core_def Let_def)

lemma detect_interference_frame [simp, frame]:
  "wf_core (detect_interference tb) = wf_core tb" "tb_caps (detect_interference tb) = tb_caps tb"
  "tbl (detect_interference tb) = tbl tb" "cycle_cnt (detect_interference tb) = cycle_cnt tb"
  "fixed_rate (detect_interference tb) = fixed_rate tb"
  by (simp_all add: detect_interference_def wf_core_def)

lemma wf_core_unconverged [simp]:
  "wf_core (tb\<lparr>unconverged := x, newly_unconverged := y\<rparr>) = wf_core tb"
  by (simp add: wf_core_def)

lemma process_variation_ok:
  assumes "idx < length (tbl tb)"
  shows "\<exists>tb'. mmrc_process_variation tb s idx = Some tb' \<and> wf_core tb' = wf_core tb \<and> tb_caps tb' = tb_caps tb \<and>
    tbl tb' = tbl tb \<and> cycle_cnt tb' = cycle_cnt tb \<and> fixed_rate tb' = fixed_rate tb"
  using assms by (simp add: mmrc_process_variation_def)

lemma evidence_scale_ok:
  "\<exists>w. evidence_scale st = Some w \<and> w \<le> 75"
proof -
  have "(if 100 < s then 100 else s) * 75 div 100 \<le> (75 :: nat)" for s
    using div_le_mono [of "(if 100 < s then 100 else s) * 75" "100 * 75" 100] by simp
  then show ?thesis by (auto simp: evidence_scale_def Let_def)
qed

lemma update_evidence_frame [simp, frame]:
  "prob (update_evidence m w st) = prob st" "sent (update_evidence m w st) = sent st"
  "sent_success (update_evidence m w st) = sent_success st"
  "total_sent (update_evidence m w st) = total_sent st" "total_success (update_evidence m w st) = total_success st"
  "avg_throughput_counter (update_evidence m w st) = avg_throughput_counter st"
  "sum_throughput (update_evidence m w st) = sum_throughput st"
  "evidence (update_evidence m w st) \<le> 100"
  by (simp_all add: update_evidence_def Let_def)

lemma stats_source_le:
  assumes "stats_source u st = (a, s)" "sent_success st \<le> sent st"
  shows "s \<le> a"
  using assms by (auto simp: stats_source_def Let_def split: if_splits)

lemma update_throughput_ok:
  assumes "wf_stats c st" "t < 4294967296" "c < 4294967295"
  shows "\<exists>st'. update_throughput t st = Some st' \<and> wf_stats (c + 1) st' \<and> sent st' = sent st \<and>
    sent_success st' = sent_success st \<and> total_sent st' = total_sent st \<and> total_success st' = total_success st"
proof -
  have "0 < avg_throughput_counter st" if "4294967295 - t < sum_throughput st"
    using assms(1) that by (auto simp: wf_stats_def)
  then show ?thesis
    using assms by (auto simp: update_throughput_def wf_stats_def Let_def)
qed

text \<open>What a row keeps while the rows are updated: its well-formedness and the number of packets it counted.\<close>

definition row_ok :: "nat \<Rightarrow> mmrc_stats \<Rightarrow> mmrc_stats \<Rightarrow> bool" where
  "row_ok c st0 st \<longleftrightarrow> wf_stats c st \<and>
     trunc32 (total_sent st + sent st) = trunc32 (total_sent st0 + sent st0) \<and>
     trunc32 (total_success st + sent_success st) = trunc32 (total_success st0 + sent_success st0)"

definition update_ok :: "mmrc_table \<Rightarrow> nat \<Rightarrow> nat \<Rightarrow> mmrc_table \<times> bool \<Rightarrow> bool" where
  "update_ok tb0 c i s \<longleftrightarrow> wf_core (fst s) \<and> tb_caps (fst s) = tb_caps tb0 \<and> cycle_cnt (fst s) = c + 1 \<and>
     fixed_rate (fst s) = fixed_rate tb0 \<and> length (tbl (fst s)) = length (tbl tb0) \<and>
     (\<forall>j < length (tbl tb0). row_ok (if j < i then c + 1 else c) (tbl tb0 ! j) (tbl (fst s) ! j))"

lemma clear_stats_ok:
  assumes "row_ok c st0 st" "p \<le> 100"
  shows "row_ok c st0 (clear_stats (st\<lparr>prob := p\<rparr>))"
  using assms by (simp add: row_ok_def wf_stats_def clear_stats_def)

lemma wf_core_tbl: "length xs = length (tbl tb) \<Longrightarrow> wf_core (tb\<lparr>tbl := xs\<rparr>) = wf_core tb"
  by (simp add: wf_core_def)

lemma update_row_stats_ok:
  assumes "wf_core tb" "i < length (tbl tb)" "row_ok c st0 (tbl tb ! i)" "w \<le> 75"
    and "stats_source u (tbl tb ! i) = (a, s)" "min_st \<le> a \<or> (0 < a \<and> 0 < prob (tbl tb ! i))" "0 < min_st"
  shows "\<exists>th tb' t'. div_opt (100 * s) a = Some th \<and>
    (if w \<noteq> 0 then mmrc_process_variation tb (trunc16 th) i else Some tb) = Some tb' \<and>
    upd_opt (tbl tb') i (\<lambda>st. clear_stats (st\<lparr>prob := trunc8 (calc_ewma_average (prob st) (trunc16 th) w)\<rparr>)) = Some t' \<and>
    wf_core tb' \<and> tb_caps tb' = tb_caps tb \<and> cycle_cnt tb' = cycle_cnt tb \<and> fixed_rate tb' = fixed_rate tb \<and>
    (\<exists>st'. t' = (tbl tb)[i := st'] \<and> row_ok c st0 st')"
proof -
  let ?st = "tbl tb ! i"
  have a: "0 < a" using assms(6,7) by auto
  have wf: "prob ?st \<le> 100" "sent_success ?st \<le> sent ?st" using assms(3) by (simp_all add: row_ok_def wf_stats_def)
  have "100 * s div a \<le> 100"
    using stats_source_le [OF assms(5) wf(2)] div_le_mono [of "100 * s" "100 * a" a] a by simp
  then have "calc_ewma_average (prob ?st) (trunc16 (100 * s div a)) w \<le> 100"
    using wf assms(4) by (intro ewma_le) (auto intro: le_trans [OF trunc_le(2)])
  then have row: "row_ok c st0 (clear_stats (?st\<lparr>prob := trunc8 (calc_ewma_average (prob ?st) (trunc16 (100 * s div a)) w)\<rparr>))"
    using assms(3) by (intro clear_stats_ok) (auto intro: le_trans [OF trunc_le(1)])
  obtain tb' where "(if w \<noteq> 0 then mmrc_process_variation tb (trunc16 (100 * s div a)) i else Some tb) = Some tb'"
    "wf_core tb' = wf_core tb" "tb_caps tb' = tb_caps tb" "tbl tb' = tbl tb" "cycle_cnt tb' = cycle_cnt tb"
    "fixed_rate tb' = fixed_rate tb"
    using process_variation_ok [OF assms(2), of "trunc16 (100 * s div a)"] by (cases "w \<noteq> 0") auto
  with row a assms(1,2) show ?thesis by auto
qed

lemma update_row_ok:
  assumes "0 < min_st" "c < 4294967295" "i < length (tbl tb0)" "update_ok tb0 c i s"
  shows "\<exists>t. update_row min_st i s = Some t \<and> update_ok tb0 c (Suc i) t"
proof -
  obtain tb ns where s: "s = (tb, ns)" by (cases s)
  have I: "wf_core tb" "tb_caps tb = tb_caps tb0" "cycle_cnt tb = c + 1" "fixed_rate tb = fixed_rate tb0"
    "length (tbl tb) = length (tbl tb0)" "row_ok c (tbl tb0 ! i) (tbl tb ! i)"
    using assms(3,4) by (auto simp: update_ok_def s)
  then have i: "i < length (tbl tb)" using assms(3) by simp
  obtain w where w: "evidence_scale (tbl tb ! i) = Some w" "w \<le> 75" using evidence_scale_ok by blast
  define st1 where "st1 = update_evidence min_st w (tbl tb ! i)"
  define tb1 where "tb1 = tb\<lparr>tbl := (tbl tb)[i := st1]\<rparr>"
  have row1: "row_ok c (tbl tb0 ! i) st1" using I(6) by (simp add: row_ok_def wf_stats_def st1_def)
  have tb1: "wf_core tb1" "tb_caps tb1 = tb_caps tb0" "cycle_cnt tb1 = c + 1" "fixed_rate tb1 = fixed_rate tb0"
    "tbl tb1 = (tbl tb)[i := st1]" "unconverged tb1 = unconverged tb"
    using I wf_core_tbl [of "(tbl tb)[i := st1]" tb] by (simp_all add: tb1_def)
  obtain a sc where src: "stats_source (unconverged tb1) st1 = (a, sc)" by fastforce
  define upd where "upd = (if min_st \<le> a \<or> (0 < a \<and> 0 < prob st1) then do {
            this_success \<leftarrow> div_opt (100 * sc) a;
            let this_success = trunc16 this_success;
            tb \<leftarrow> (if w \<noteq> 0 then mmrc_process_variation tb1 this_success i else Some tb1);
            tbl' \<leftarrow> upd_opt (tbl tb) i (\<lambda>st.
              clear_stats (st\<lparr>prob := trunc8 (calc_ewma_average (prob st) this_success w)\<rparr>));
            Some (tb\<lparr>tbl := tbl'\<rparr>, True)
          } else Some (tb1, ns))"
  have "\<exists>tb2 ns2 st2. upd = Some (tb2, ns2) \<and> wf_core tb2 \<and> tb_caps tb2 = tb_caps tb0 \<and> cycle_cnt tb2 = c + 1 \<and>
      fixed_rate tb2 = fixed_rate tb0 \<and> tbl tb2 = (tbl tb)[i := st2] \<and> row_ok c (tbl tb0 ! i) st2"
  proof (cases "min_st \<le> a \<or> (0 < a \<and> 0 < prob st1)")
    case True
    have "tbl tb1 ! i = st1" "i < length (tbl tb1)" using i by (simp_all add: tb1(5))
    then obtain th tb' t' st' where th: "div_opt (100 * sc) a = Some th"
      "(if w \<noteq> 0 then mmrc_process_variation tb1 (trunc16 th) i else Some tb1) = Some tb'"
      "upd_opt (tbl tb') i (\<lambda>st. clear_stats (st\<lparr>prob := trunc8 (calc_ewma_average (prob st) (trunc16 th) w)\<rparr>)) = Some t'"
      "wf_core tb'" "tb_caps tb' = tb_caps tb1" "cycle_cnt tb' = cycle_cnt tb1" "fixed_rate tb' = fixed_rate tb1"
      "t' = (tbl tb1)[i := st']" "row_ok c (tbl tb0 ! i) st'"
      using update_row_stats_ok [OF tb1(1), of i c "tbl tb0 ! i" w "unconverged tb1" a sc min_st] row1 w(2) src True assms(1)
      by auto
    have len: "length t' = length (tbl tb')" using th(3) by (auto simp: upd_opt_def split: if_splits)
    from True th have "upd = Some (tb'\<lparr>tbl := t'\<rparr>, True)" by (simp add: upd_def Let_def)
    with th tb1 wf_core_tbl [OF len] show ?thesis by auto
  next
    case False
    then show ?thesis using tb1 row1 by (auto simp: upd_def)
  qed
  then obtain tb2 ns2 st2 where u: "upd = Some (tb2, ns2)" "wf_core tb2" "tb_caps tb2 = tb_caps tb0"
    "cycle_cnt tb2 = c + 1" "fixed_rate tb2 = fixed_rate tb0" "tbl tb2 = (tbl tb)[i := st2]" "row_ok c (tbl tb0 ! i) st2"
    by blast
  note core2 = wf_coreD [OF u(2)]
  have i2: "i < rows tb2" using core2(3) u(6) i by simp
  obtain t where t: "calculate_throughput tb2 i = Some t" "t < 4294967296"
    using calculate_throughput_defined [OF core2(1,3) i2] by blast
  obtain st3 where st3: "update_throughput t st2 = Some st3" "row_ok (c + 1) (tbl tb0 ! i) st3"
    using update_throughput_ok [of c st2 t] u(7) t(2) assms(2) by (auto simp: row_ok_def)
  have "update_row min_st i s = Some (tb2\<lparr>tbl := (tbl tb2)[i := st3]\<rparr>, ns2)"
    using i w u(1,6) src t st3 unfolding upd_def st1_def tb1_def
    by (simp add: update_row_def s Let_def)
  moreover have "update_ok tb0 c (Suc i) (tb2\<lparr>tbl := (tbl tb2)[i := st3]\<rparr>, ns2)"
    using u I st3(2) assms(4) i wf_core_tbl [of "(tbl tb2)[i := st3]" tb2]
    by (auto simp: update_ok_def s nth_list_update less_Suc_eq)
  ultimately show ?thesis by blast
qed

lemma mmrc_update_ok:
  assumes "wf_table tb" "cycle_cnt tb < 4294967295"
  shows "\<exists>tb'. mmrc_update tb = Some tb' \<and> wf_table tb' \<and> cycle_cnt tb' = cycle_cnt tb + 1 \<and>
    tb_caps tb' = tb_caps tb \<and> fixed_rate tb' = fixed_rate tb \<and>
    (\<forall>j < rows tb. row_ok (cycle_cnt tb + 1) (tbl tb ! j) (tbl tb' ! j)) \<and>
    (r_rate (fixed_rate tb) \<noteq> MMRC_MCS_UNUSED \<longrightarrow>
       best_tp tb' = fixed_rate tb \<and> second_tp tb' = fixed_rate tb \<and> best_prob tb' = fixed_rate tb)"
proof -
  let ?c = "cycle_cnt tb"
  define tb0 where "tb0 = tb\<lparr>cycle_cnt := ?c + 1\<rparr>"
  have core: "wf_core tb" using assms(1) by (simp add: wf_table_def)
  have core0: "wf_core tb0" using core by (simp add: wf_core_def tb0_def)
  have min: "0 < min_stats tb0" by (simp add: min_stats_def)
  have "update_ok tb0 ?c 0 (tb0, False)"
    using core0 assms(1) by (auto simp: update_ok_def row_ok_def tb0_def wf_table_def)
  then have "\<exists>s. ofold (update_row (min_stats tb0)) [0..<length (tbl tb0)] (tb0, False) = Some s \<and>
      update_ok tb0 ?c (length (tbl tb0)) s"
    using assms(2) min by (intro ofold_upt_rule update_row_ok) auto
  then obtain tb1 ns where f: "ofold (update_row (min_stats tb0)) [0..<rows tb] (tb0, False) = Some (tb1, ns)"
    "update_ok tb0 ?c (rows tb) (tb1, ns)"
    using wf_coreD(3) [OF core0] by (auto simp: tb0_def)
  then have tb1: "wf_core tb1" "tb_caps tb1 = tb_caps tb" "cycle_cnt tb1 = ?c + 1" "fixed_rate tb1 = fixed_rate tb"
    "length (tbl tb1) = rows tb" "\<forall>j < rows tb. row_ok (?c + 1) (tbl tb ! j) (tbl tb1 ! j)"
    using wf_coreD(3) [OF core] by (auto simp: update_ok_def tb0_def)
  from generate_table_priority_ok [OF tb1(1), of ns] obtain tb2 where
    g: "generate_table_priority tb1 ns = Some tb2" "wf_core tb2" "tb_caps tb2 = tb_caps tb1" "tbl tb2 = tbl tb1"
      "cycle_cnt tb2 = cycle_cnt tb1" "fixed_rate tb2 = fixed_rate tb1"
      "r_rate (fixed_rate tb1) \<noteq> MMRC_MCS_UNUSED \<longrightarrow>
       best_tp tb2 = fixed_rate tb1 \<and> second_tp tb2 = fixed_rate tb1 \<and> best_prob tb2 = fixed_rate tb1" by blast
  have len: "trunc32 (?c + 1) = ?c + 1" using assms(2) by simp
  have rows_wf: "wf_stats (?c + 1) st" if "st \<in> set (tbl tb1)" for st
    using that tb1(5,6) by (auto simp: in_set_conv_nth row_ok_def)
  define tb3 where "tb3 = (if lookaround_wrap tb2 \<noteq> 5 \<and>
                    (unconverged tb2 \<or> (r_bw (best_tp tb2) = MMRC_BW_1MHZ \<and> r_rate (best_tp tb2) \<le> 2))
                 then tb2\<lparr>lookaround_cnt := 0, lookaround_wrap := 5, stability_cnt_threshold := 20\<rparr>
                 else tb2)"
  define tb4 where "tb4 = (if current_lookaround_rate_attempts tb3 \<le> 2
             then tb3\<lparr>current_lookaround_rate_attempts := 4\<rparr> else tb3)"
  have same: "wf_core tb4" "tb_caps tb4 = tb_caps tb" "tbl tb4 = tbl tb1" "cycle_cnt tb4 = ?c + 1"
    "fixed_rate tb4 = fixed_rate tb" "best_tp tb4 = best_tp tb2" "second_tp tb4 = second_tp tb2" "best_prob tb4 = best_prob tb2"
    using g tb1 by (simp_all add: tb4_def tb3_def wf_core_def)
  have "mmrc_update tb = Some tb4"
    unfolding tb4_def tb3_def
    by (simp only: mmrc_update_def Let_def len tb0_def [symmetric])
      (simp add: f(1) g(1) tb0_def [THEN arg_cong [where f = tb_caps], simplified])
  then show ?thesis using same tb1 g rows_wf by (simp add: wf_table_def)
qed

section \<open>Choosing rates\<close>

definition chain_ok :: "mmrc_sta_capabilities \<Rightarrow> mmrc_rate_table \<Rightarrow> bool" where
  "chain_ok caps rs \<longleftrightarrow> length rs = 4 \<and>
     (\<forall>i < 4. if i < max_rates caps then rate_in_table caps (rs ! i)
             else r_rate (rs ! i) = MMRC_MCS_UNUSED \<and> r_attempts (rs ! i) = 0)"

lemma chain_used: "chain_ok caps rs \<Longrightarrow> i < 4 \<Longrightarrow> r_rate (rs ! i) \<noteq> MMRC_MCS_UNUSED \<Longrightarrow> i < max_rates caps"
  by (auto simp: chain_ok_def split: if_splits)

lemma chain_ok_attempts:
  assumes "chain_ok caps rs" "i < max_rates caps"
  shows "chain_ok caps (rs[i := (rs ! i)\<lparr>r_attempts := a\<rparr>])"
proof (cases "i < 4")
  case True
  with assms show ?thesis by (auto simp: chain_ok_def nth_list_update rate_in_table_def)
next
  case False
  with assms show ?thesis by (simp add: chain_ok_def)
qed

lemma attempt_time_defined: "0 < sz \<Longrightarrow> \<exists>t. calculate_attempt_time r sz = Some t"
  using attempt_time_short(1) [of sz r] by (cases "sz \<le> 1200") (auto simp: calculate_attempt_time_def Let_def)

lemma initial_loop_ok:
  assumes "0 < sz" "\<forall>i \<in> set is. i < 4" "chain_ok caps rs"
  shows "\<exists>rs' t'. initial_loop sz is (rs, t) = Some (rs', t') \<and> chain_ok caps rs'"
  using assms
proof (induction "is" arbitrary: rs t)
  case Nil
  then show ?case by simp
next
  case (Cons i "is")
  from Cons.prems have i: "i < length rs" by (simp add: chain_ok_def)
  obtain tm where tm: "calculate_attempt_time (rs ! i) sz = Some tm" using attempt_time_defined Cons.prems(1) by blast
  show ?case
  proof (cases "r_rate (rs ! i) = MMRC_MCS_UNUSED")
    case True
    with i Cons.prems show ?thesis by simp
  next
    case False
    then have "chain_ok caps (rs[i := (rs ! i)\<lparr>r_attempts := a\<rparr>])" for a
      using Cons.prems by (intro chain_ok_attempts chain_used) auto
    with False i tm Cons show ?thesis by simp
  qed
qed

lemma remaining_loop_ok:
  assumes "0 < sz" "wf_core tb" "\<forall>i \<in> set is. i < 4" "chain_ok (tb_caps tb) rs"
  shows "\<exists>rs'. remaining_loop tb t sz is rs = Some rs' \<and> chain_ok (tb_caps tb) rs'"
  using assms
proof (induction "is" arbitrary: rs)
  case Nil
  then show ?case by simp
next
  case (Cons i "is")
  note wf = wf_coreD [OF Cons.prems(2)]
  from Cons.prems have i: "i < length rs" by (simp add: chain_ok_def)
  obtain tm where tm: "calculate_attempt_time (rs ! i) sz = Some tm" using attempt_time_defined Cons.prems(1) by blast
  show ?case
  proof (cases "r_rate (rs ! i) = MMRC_MCS_UNUSED")
    case True
    with i Cons.prems show ?thesis by simp
  next
    case False
    then have used: "i < max_rates (tb_caps tb)" using Cons.prems by (intro chain_used) auto
    then have ok: "chain_ok (tb_caps tb) (rs[i := (rs ! i)\<lparr>r_attempts := a\<rparr>])" for a
      using Cons.prems by (intro chain_ok_attempts) auto
    have "r_index (rs ! i) < rows tb" using Cons.prems used by (auto simp: chain_ok_def rate_in_table_def)
    then obtain a where a: "calculate_throughput tb (r_index (rs ! i)) = Some a"
      and idx: "r_index (rs ! i) < length (tbl tb)"
      using calculate_throughput_defined wf(1,3) by fastforce
    obtain b where b: "calculate_throughput tb (r_index (best_prob tb)) = Some b"
      using calculate_throughput_defined wf by blast
    show ?thesis using False i tm a b idx wf(2) ok Cons by (cases "i = 0") (simp_all add: Let_def)
  qed
qed

definition one_step_up :: "mmrc_rate \<Rightarrow> mmrc_rate \<Rightarrow> bool" where
  "one_step_up best r \<longleftrightarrow> r_rate r \<le> r_rate best + 1 \<and> r_bw r \<le> r_bw best + 1 \<and>
     (r_rate r \<le> r_rate best \<or> r_bw r \<le> r_bw best)"

definition sampled_ok :: "mmrc_table \<Rightarrow> mmrc_rate \<Rightarrow> bool" where
  "sampled_ok tb r \<longleftrightarrow> rate_in_table (tb_caps tb) r \<and> validate_rate (tb_caps tb) r \<and>
     r_rate r \<noteq> MMRC_MCS10 \<and> one_step_up (best_tp tb) r"

definition same_table :: "mmrc_table \<Rightarrow> mmrc_table \<Rightarrow> bool" where
  "same_table tb tb' \<longleftrightarrow> tb_caps tb' = tb_caps tb \<and> tbl tb' = tbl tb \<and> cycle_cnt tb' = cycle_cnt tb \<and>
     best_tp tb' = best_tp tb \<and> second_tp tb' = second_tp tb \<and> best_prob tb' = best_prob tb \<and>
     baseline tb' = baseline tb \<and> fixed_rate tb' = fixed_rate tb"

lemma same_table_trans: "same_table a b \<Longrightarrow> same_table b c \<Longrightarrow> same_table a c"
  by (simp add: same_table_def)

lemma same_table_core:
  "wf_core tb \<Longrightarrow> same_table tb tb' \<Longrightarrow> lookaround_wrap tb' \<in> {5, 50, 100} \<Longrightarrow>
    current_lookaround_rate_index tb' < rows tb \<Longrightarrow> wf_core tb'"
  by (simp add: wf_core_def same_table_def)

text \<open>The documented behaviour of \<open>prandom_u32_max\<close>: a value below a positive bound.\<close>

definition random_below :: "(nat \<Rightarrow> nat \<Rightarrow> nat) \<Rightarrow> bool" where
  "random_below rnd \<longleftrightarrow> (\<forall>k n. 0 < n \<longrightarrow> rnd k n < n)"

lemma lookaround_loop_ok:
  assumes "wf_core tb" "random_below rnd"
  shows "\<exists>tb' found. lookaround_loop rnd best_t n k cur tb = Some (tb', found) \<and> wf_core tb' \<and>
    same_table tb tb' \<and> (\<forall>r. found = Some r \<longrightarrow> sampled_ok tb r)"
proof (induction n arbitrary: k cur)
  case 0
  show ?case using assms(1) by (simp add: same_table_def)
next
  case (Suc n)
  note wf = wf_coreD [OF assms(1)]
  define idx where "idx = (if cur then current_lookaround_rate_index tb else trunc16 (rnd k (rows tb)))"
  have idx: "idx < rows tb"
    using wf(4,11) assms(2) [unfolded random_below_def] le_less_trans trunc_le(2) unfolding idx_def by (metis (full_types))
  obtain r where r: "get_rate_row (tb_caps tb) idx = Some r" "rate_in_table (tb_caps tb) r"
    using get_rate_row_in_table [OF wf(1) idx] by blast
  obtain a where a: "calculate_throughput tb idx = Some a" using calculate_throughput_defined [OF wf(1,3) idx] by blast
  obtain b where b: "mmrc_calculate_theoretical_throughput r = Some b"
    using theoretical_throughput_defined r(2) by (auto simp: rate_in_table_def)
  define t where "t = (if 0 < evidence (tbl tb ! idx) then a else b)"
  have st: "nth_opt (tbl tb) idx = Some (tbl tb ! idx)" using idx wf(3) by simp
  have t: "(if 0 < evidence (tbl tb ! idx) then calculate_throughput tb idx
            else mmrc_calculate_theoretical_throughput r) = Some t" using a b by (simp add: t_def)
  define skip where "skip \<longleftrightarrow> \<not> validate_rate (tb_caps tb) r \<or> r_rate r = MMRC_MCS10 \<or> strunc32 (int t) \<le> best_t \<or>
     r_rate (best_tp tb) + 1 < r_rate r \<or> r_bw (best_tp tb) + 1 < r_bw r \<or>
     (r_rate (best_tp tb) < r_rate r \<and> r_bw (best_tp tb) < r_bw r)"
  show ?case
  proof (cases skip)
    case True
    then have "lookaround_loop rnd best_t (Suc n) k cur tb = lookaround_loop rnd best_t n (k + 1) False tb"
      using r(1) st t unfolding skip_def by (auto simp: idx_def [symmetric] Let_def)
    then show ?thesis using Suc.IH by simp
  next
    case False
    then have "sampled_ok tb r" using r(2) unfolding skip_def by (auto simp: sampled_ok_def one_step_up_def)
    moreover have "lookaround_loop rnd best_t (Suc n) k cur tb =
        Some (if current_lookaround_rate_index tb = idx
              then tb\<lparr>current_lookaround_rate_attempts := trunc8 (current_lookaround_rate_attempts tb + 1)\<rparr>
              else tb\<lparr>current_lookaround_rate_attempts := 0, current_lookaround_rate_index := idx\<rparr>, Some r)"
      using False r(1) st t unfolding skip_def by (auto simp: idx_def [symmetric] Let_def)
    ultimately show ?thesis using assms(1) idx by (auto simp: wf_core_def same_table_def)
  qed
qed

lemma sample_rate_ok:
  assumes "wf_core tb" "random_below rnd"
  shows "\<exists>tb' found. sample_rate rnd tb = Some (tb', found) \<and> wf_core tb' \<and> same_table tb tb' \<and>
    (\<forall>r. found = Some r \<longrightarrow> sampled_ok tb r)"
proof -
  define tb0 where "tb0 = tb\<lparr>total_lookaround := trunc32 (total_lookaround tb + 1),
                   forced_lookaround := (forced_lookaround tb + 1) mod 50,
                   last_lookaround_cycle := cycle_cnt tb\<rparr>"
  have core0: "wf_core tb0" "same_table tb tb0" using assms(1) by (simp_all add: tb0_def wf_core_def same_table_def)
  obtain b where b: "calculate_throughput tb0 (r_index (best_tp tb0)) = Some b"
    using calculate_throughput_defined wf_coreD(1,3,12) [OF core0(1)] by blast
  obtain tb1 found where l: "lookaround_loop rnd (strunc32 (int b)) 50 0 (current_lookaround_rate_attempts tb0 < 4) tb0 =
      Some (tb1, found)" "wf_core tb1" "same_table tb0 tb1" "\<forall>r. found = Some r \<longrightarrow> sampled_ok tb0 r"
    using lookaround_loop_ok [OF core0(1) assms(2)] by blast
  have eq: "sample_rate rnd tb = Some (case found of
       None \<Rightarrow> (tb1\<lparr>current_lookaround_rate_index := r_index (best_tp tb1)\<rparr>, None) | Some r \<Rightarrow> (tb1, Some r))"
    unfolding sample_rate_def Let_def tb0_def [symmetric] using b l(1) by simp
  have core1: "wf_core (tb1\<lparr>current_lookaround_rate_index := r_index (best_tp tb1)\<rparr>)"
    using l(2) wf_coreD(12) [OF l(2)] by (simp add: wf_core_def)
  have same1: "same_table tb tb1" using same_table_trans [OF core0(2) l(3)] .
  have samp: "sampled_ok tb0 r = sampled_ok tb r" for r using core0(2) by (simp add: sampled_ok_def same_table_def)
  show ?thesis
    using eq core1 same1 l samp by (cases found) (auto simp: same_table_def)
qed

lemma fill_chain_ok:
  assumes "wf_core tb" "\<forall>r. found = Some r \<longrightarrow> rate_in_table (tb_caps tb) r"
  shows "chain_ok (tb_caps tb) (fill_chain tb found)"
  using wf_coreD(2,5-8) [OF assms(1)] assms(2)
  by (cases found) (auto simp: fill_chain_def chain_ok_def Let_def less_Suc_eq numeral_eq_Suc unused_rate_def zero_rate_def)

lemma chain_ok_map:
  assumes "chain_ok caps rs" "\<And>i r. rate_in_table caps r \<Longrightarrow> rate_in_table caps (f i r)"
    "\<And>i r. r_rate r = MMRC_MCS_UNUSED \<Longrightarrow> r_attempts r = 0 \<Longrightarrow> r_rate (f i r) = MMRC_MCS_UNUSED \<and> r_attempts (f i r) = 0"
  shows "chain_ok caps (map (\<lambda>i. f i (rs ! i)) [0..<4])"
  using assms by (auto simp: chain_ok_def)

definition attempts_ok :: "mmrc_sta_capabilities \<Rightarrow> mmrc_rate_table \<Rightarrow> bool" where
  "attempts_ok caps rs \<longleftrightarrow> (\<forall>i < 4. i < max_rates caps \<longrightarrow> 1 \<le> r_attempts (rs ! i) \<and> r_attempts (rs ! i) \<le> 2)"

lemma limit_attempts_frame [simp]:
  "r_rate (limit_attempts tb l i r) = r_rate r" "r_index (limit_attempts tb l i r) = r_index r"
  "r_bw (limit_attempts tb l i r) = r_bw r" "r_ss (limit_attempts tb l i r) = r_ss r"
  "r_guard (limit_attempts tb l i r) = r_guard r"
  "r_rate r \<noteq> MMRC_MCS_UNUSED \<Longrightarrow> 1 \<le> r_attempts (limit_attempts tb l i r) \<and> r_attempts (limit_attempts tb l i r) \<le> 2"
  "r_rate r = MMRC_MCS_UNUSED \<Longrightarrow> limit_attempts tb l i r = r"
  by (simp_all add: limit_attempts_def Let_def)

lemma boost_best_frame [simp]:
  "r_rate (boost_best r) = r_rate r" "r_index (boost_best r) = r_index r"
  "r_bw (boost_best r) = r_bw r" "r_ss (boost_best r) = r_ss r" "r_guard (boost_best r) = r_guard r"
  "1 \<le> r_attempts r \<and> r_attempts r \<le> 2 \<Longrightarrow> 1 \<le> r_attempts (boost_best r) \<and> r_attempts (boost_best r) \<le> 2"
  "r_rate r = MMRC_MCS_UNUSED \<Longrightarrow> r_attempts r = 0 \<Longrightarrow> boost_best r = r"
  by (simp_all add: boost_best_def mmrc_enum)

lemma rate_in_table_cong:
  "r_rate r' = r_rate r \<Longrightarrow> r_bw r' = r_bw r \<Longrightarrow> r_ss r' = r_ss r \<Longrightarrow> r_guard r' = r_guard r \<Longrightarrow>
    r_index r' = r_index r \<Longrightarrow> rate_in_table caps r' = rate_in_table caps r"
  by (simp add: rate_in_table_def)

lemma in_table_not_unused: "rate_in_table caps r \<Longrightarrow> r_rate r \<noteq> MMRC_MCS_UNUSED"
  by (simp add: rate_in_table_def mmrc_enum)

lemma final_chain_ok:
  fixes tb l
  assumes "chain_ok caps rs" "b < 4"
  defines "out \<equiv> map (\<lambda>i. limit_attempts tb l i (rs ! i)) [0..<4]"
  shows "chain_ok caps (out[b := boost_best (out ! b)])" "attempts_ok caps (out[b := boost_best (out ! b)])"
proof -
  have len: "length out = 4" by (simp add: out_def)
  have val: "out[b := boost_best (out ! b)] ! i =
      (if i = b then boost_best (limit_attempts tb l i (rs ! i)) else limit_attempts tb l i (rs ! i))" if "i < 4" for i
    using that assms(2) by (simp add: out_def)
  have used: "rate_in_table caps (rs ! i)" if "i < 4" "i < max_rates caps" for i
    using assms(1) that by (auto simp: chain_ok_def)
  then have used': "r_rate (rs ! i) \<noteq> MMRC_MCS_UNUSED" if "i < 4" "i < max_rates caps" for i
    using that in_table_not_unused by blast
  have unused: "r_rate (rs ! i) = MMRC_MCS_UNUSED \<and> r_attempts (rs ! i) = 0" if "i < 4" "\<not> i < max_rates caps" for i
    using assms(1) that by (auto simp: chain_ok_def)
  show "attempts_ok caps (out[b := boost_best (out ! b)])"
    unfolding attempts_ok_def using used' by (auto simp: val simp del: One_nat_def)
  show "chain_ok caps (out[b := boost_best (out ! b)])"
    unfolding chain_ok_def
    using used unused by (auto simp: len val rate_in_table_def)
qed

text \<open>The rate of a chain entry, its attempts and flags aside.\<close>

definition rate_core :: "mmrc_rate \<Rightarrow> mmrc_rate" where
  "rate_core r = r\<lparr>r_attempts := 0, r_flags := 0\<rparr>"

lemma rate_core_simps [simp]:
  "rate_core (r\<lparr>r_attempts := a\<rparr>) = rate_core r" "rate_core (r\<lparr>r_flags := f\<rparr>) = rate_core r"
  "rate_core (limit_attempts tb l i r) = rate_core r" "rate_core (boost_best r) = rate_core r"
  by (simp_all add: rate_core_def limit_attempts_def boost_best_def Let_def)

lemma upd_opt_core:
  "upd_opt rs i f = Some rs' \<Longrightarrow> (\<And>r. rate_core (f r) = rate_core r) \<Longrightarrow> map rate_core rs' = map rate_core rs"
  by (auto simp: upd_opt_def map_update list_update_same_conv split: if_splits)

lemma initial_loop_core:
  "initial_loop sz is s = Some s' \<Longrightarrow> map rate_core (fst s') = map rate_core (fst s)"
proof (induction "is" arbitrary: s)
  case Nil
  then show ?case by simp
next
  case (Cons i "is")
  then show ?case
    by (auto split: Option.bind_splits if_splits dest!: Cons.IH upd_opt_core)
qed

lemma remaining_loop_core:
  "remaining_loop tb t sz is rs = Some rs' \<Longrightarrow> map rate_core rs' = map rate_core rs"
proof (induction "is" arbitrary: rs)
  case Nil
  then show ?case by simp
next
  case (Cons i "is")
  then show ?case
    by (auto simp: Let_def split: Option.bind_splits if_splits dest!: Cons.IH dest: upd_opt_core)
qed

lemma get_rates_ok:
  assumes "wf_table tb" "0 < sz" "random_below rnd"
  shows "\<exists>tb' out. mmrc_get_rates rnd tb sz = Some (tb', out) \<and> wf_table tb' \<and> same_table tb tb' \<and>
    chain_ok (tb_caps tb) out \<and> attempts_ok (tb_caps tb) out \<and>
    (\<exists>found. map rate_core out = map rate_core (fill_chain tb found) \<and>
       (\<forall>r. found = Some r \<longrightarrow> sampled_ok tb r) \<and>
       (r_rate (fixed_rate tb) \<noteq> MMRC_MCS_UNUSED \<longrightarrow> found = None))"
proof -
  have core: "wf_core tb" using assms(1) by (simp add: wf_table_def)
  note wf = wf_coreD [OF core]
  define n where "n = (lookaround_cnt tb + 1) mod lookaround_wrap tb"
  have n: "mod_opt (lookaround_cnt tb + 1) (lookaround_wrap tb) = Some n" using wf(10) by (auto simp: n_def)
  define tb1 where "tb1 = tb\<lparr>lookaround_cnt := n\<rparr>"
  have tb1: "wf_core tb1" "same_table tb tb1" using core by (simp_all add: tb1_def wf_core_def same_table_def)
  obtain l1 where l1: "want_lookaround tb1 = Some l1"
    using wf_coreD(3,12) [OF tb1(1)] by (simp add: want_lookaround_def)
  obtain l2 tb2 where adj: "adjust_lookaround_wrap l1 tb1 = (l2, tb2)" by fastforce
  then have tb2: "wf_core tb2" "same_table tb1 tb2"
    using tb1(1) by (auto simp: adjust_lookaround_wrap_def wf_core_def same_table_def split: if_splits)
  obtain tb3 found where s: "(if l2 then sample_rate rnd tb2 else Some (tb2, None)) = Some (tb3, found)"
    "wf_core tb3" "same_table tb2 tb3" "\<forall>r. found = Some r \<longrightarrow> sampled_ok tb2 r"
    using sample_rate_ok [OF tb2(1) assms(3)] tb2(1) by (cases l2) (auto simp: same_table_def)
  have same: "same_table tb tb3" using tb1(2) tb2(2) s(3) same_table_trans by blast
  have caps: "tb_caps tb3 = tb_caps tb" "tb_caps tb2 = tb_caps tb"
    using same tb1(2) tb2(2) by (simp_all add: same_table_def)
  define out0 where "out0 = fill_chain tb3 found"
  have out0: "chain_ok (tb_caps tb3) out0"
    unfolding out0_def using fill_chain_ok [OF s(2)] s(4) caps by (simp add: sampled_ok_def)
  define out1 where "out1 = map (\<lambda>i. if 1 \<le> i then (out0 ! i)\<lparr>r_flags := r_flags (out0 ! i) OR 1\<rparr> else out0 ! i) [0..<4]"
  have out1: "chain_ok (tb_caps tb3) out1"
    unfolding out1_def using chain_ok_map [OF out0, of "\<lambda>i r. if 1 \<le> i then r\<lparr>r_flags := r_flags r OR 1\<rparr> else r"]
    by (simp add: rate_in_table_def)
  obtain out2 t where a: "allocate_initial_attempts out1 24000 sz = Some (out2, t)" "chain_ok (tb_caps tb3) out2"
    using initial_loop_ok [OF assms(2) _ out1, of "[0..<4]" 24000] by (auto simp: allocate_initial_attempts_def)
  obtain out3 where r: "calculate_remaining_attempts tb3 out2 t sz = Some out3" "chain_ok (tb_caps tb3) out3"
    using remaining_loop_ok [OF assms(2) s(2) _ a(2), of "[0..<4]" t] a(2)
    by (cases "t \<le> 0") (auto simp: calculate_remaining_attempts_def)
  define out4 where "out4 = map (\<lambda>i. limit_attempts tb3 (found \<noteq> None) i (out3 ! i)) [0..<4]"
  define b :: nat where "b = (if found = None then 0 else 1)"
  have b: "b < 4" by (simp add: b_def)
  have u: "upd_opt out4 b boost_best = Some (out4[b := boost_best (out4 ! b)])" using b by (simp add: out4_def)
  have "mmrc_get_rates rnd tb sz = Some (tb3, out4[b := boost_best (out4 ! b)])"
    unfolding mmrc_get_rates_def Let_def
    using n l1 adj s(1) a(1) r(1) u unfolding tb1_def out0_def out1_def out4_def b_def
    by (simp split del: if_split)
  moreover have "wf_table tb3" using s(2) same assms(1) by (auto simp: wf_table_def same_table_def)
  moreover have "map rate_core (out4[b := boost_best (out4 ! b)]) = map rate_core (fill_chain tb found)"
  proof -
    have len: "length out0 = 4" "length out1 = 4" "length out3 = 4" "length out4 = 4"
      using out0 r(2) by (simp_all add: chain_ok_def out1_def out4_def)
    have "map rate_core (out4[b := boost_best (out4 ! b)]) = map rate_core out4"
      using upd_opt_core [OF u] by simp
    also have "\<dots> = map rate_core out3"
      using len by (intro nth_equalityI) (simp_all add: out4_def)
    also have "\<dots> = map rate_core out2"
      using r(1) remaining_loop_core by (auto simp: calculate_remaining_attempts_def split: if_splits)
    also have "\<dots> = map rate_core out1"
      using a(1) initial_loop_core [of sz "[0..<4]" "(out1, 24000)"] by (simp add: allocate_initial_attempts_def)
    also have "\<dots> = map rate_core out0"
      using len by (intro nth_equalityI) (simp_all add: out1_def)
    also have "out0 = fill_chain tb found"
    proof -
      have eqs: "tb_caps tb3 = tb_caps tb" "best_tp tb3 = best_tp tb" "second_tp tb3 = second_tp tb"
        "best_prob tb3 = best_prob tb" "baseline tb3 = baseline tb" using same by (simp_all add: same_table_def)
      show ?thesis unfolding out0_def fill_chain_def by (simp only: eqs)
    qed
    finally show ?thesis .
  qed
  moreover have "found = None" if "r_rate (fixed_rate tb) \<noteq> MMRC_MCS_UNUSED"
  proof -
    have "\<not> l1" using that l1 wf_coreD(3,12) [OF tb1(1)] by (simp add: want_lookaround_def tb1_def)
    then have "\<not> l2" using adj by (auto simp: adjust_lookaround_wrap_def split: if_splits)
    then show ?thesis using s(1) by simp
  qed
  moreover have "\<forall>r. found = Some r \<longrightarrow> sampled_ok tb r"
    using s(4) tb1(2) tb2(2) by (simp add: sampled_ok_def same_table_def)
  moreover have "chain_ok (tb_caps tb) (out4[b := boost_best (out4 ! b)])"
    "attempts_ok (tb_caps tb) (out4[b := boost_best (out4 ! b)])"
    using final_chain_ok [OF r(2) b, of tb3 "found \<noteq> None"] by (simp_all only: out4_def caps)
  ultimately show ?thesis using same by blast
qed

section \<open>Initialisation and fixed rates\<close>

lemma find_baseline_index_ok:
  assumes "wf_caps caps"
  shows "\<exists>i. find_baseline_index caps = Some i \<and> i < rows_from_sta_caps caps"
proof -
  have pos: "0 < rows_from_sta_caps caps" using rows_le(1) [OF assms] .
  have row: "\<exists>r t. get_rate_row caps i = Some r \<and> r_index r < rows_from_sta_caps caps \<and>
      mmrc_calculate_theoretical_throughput r = Some t" if "i < rows_from_sta_caps caps" for i
    using get_rate_row_in_table [OF assms that] theoretical_throughput_defined unfolding rate_in_table_def by fast
  from row [OF pos] obtain r0 t0 where r0: "get_rate_row caps 0 = Some r0"
    "mmrc_calculate_theoretical_throughput r0 = Some t0" by blast
  have "\<exists>m. ofold (baseline_step caps) [0..<rows_from_sta_caps caps] (t0, 0) = Some m \<and> snd m < rows_from_sta_caps caps"
  proof (rule ofold_rule)
    show "snd (t0, 0) < rows_from_sta_caps caps" using pos by simp
    fix i and m :: "nat \<times> nat"
    assume "i \<in> set [0..<rows_from_sta_caps caps]" "snd m < rows_from_sta_caps caps"
    moreover from this row [of i] obtain r t where "get_rate_row caps i = Some r" "r_index r < rows_from_sta_caps caps"
      "mmrc_calculate_theoretical_throughput r = Some t" by auto
    ultimately show "\<exists>s'. baseline_step caps i m = Some s' \<and> snd s' < rows_from_sta_caps caps"
      by (cases m) (simp add: baseline_step_def)
  qed
  with r0 pos show ?thesis by (auto simp: find_baseline_index_def)
qed

lemma sta_init_ok:
  assumes "wf_caps caps" "0 < max_rates caps"
  shows "\<exists>tb. mmrc_sta_init caps rssi = Some tb \<and> wf_table tb \<and> tb_caps tb = caps \<and> cycle_cnt tb = 0"
proof -
  obtain i base where i: "find_baseline_index caps = Some i" "get_rate_row caps i = Some base"
    using find_baseline_index_ok [OF assms(1)] get_rate_row_in_table [OF assms(1)] by blast
  have "\<not> bit (bandwidth caps) 4" using assms(1) bit_below [of "bandwidth caps" 4 4] by (auto simp: wf_caps_def wf_masks_def)
  then have bw: "MMRC_MAX_BW (bandwidth caps) < 4" by (simp add: MMRC_MAX_BW_def mmrc_enum)
  have "rate_in_table caps (rate_update_index caps r)"
    if "r_rate r < 11" "r_bw r < 4" "r_ss r = 0" "r_guard r < 2" for r
    using that assms by (intro rate_update_index_in_table) auto
  with bw have core: "wf_core (mmrc_init_rates tb rssi)"
    if "tb_caps tb = caps" "length (tbl tb) = rows_from_sta_caps caps" "r_rate (fixed_rate tb) = MMRC_MCS_UNUSED"
      "lookaround_wrap tb = 5" "current_lookaround_rate_index tb = 0" for tb
    using that assms rows_le(1) [OF assms(1)] unfolding mmrc_init_rates_def Let_def
    by (intro fill_retry_rates_core) (auto simp: mmrc_enum)
  have frame: "tb_caps (mmrc_init_rates tb rssi) = tb_caps tb" "tbl (mmrc_init_rates tb rssi) = tbl tb"
    "cycle_cnt (mmrc_init_rates tb rssi) = cycle_cnt tb" for tb
    by (simp_all add: mmrc_init_rates_def Let_def)
  show ?thesis
    using i by (auto simp: mmrc_sta_init_def Let_def zero_table_def wf_table_def frame wf_stats_def zero_stats_def intro!: core)
qed

lemma set_fixed_rate_ok:
  assumes "wf_table tb"
  shows "wf_table (fst (mmrc_set_fixed_rate tb r))"
proof -
  have core: "wf_core tb" using assms by (simp add: wf_table_def)
  have "rate_in_table (tb_caps tb) (rate_update_index (tb_caps tb) r)"
    if "supported_rate (tb_caps tb) r"
    using supported_rate_bounds [OF wf_caps_masks [OF wf_coreD(1) [OF core]] that]
    by (intro rate_update_index_in_table) (auto intro: wf_coreD(1) [OF core])
  then show ?thesis
    using assms by (auto simp: mmrc_set_fixed_rate_def Let_def wf_table_def wf_core_def supported_rate_def)
qed

section \<open>Feedback\<close>

abbreviation chain_attempts :: "mmrc_rate list \<Rightarrow> nat" where
  "chain_attempts rs \<equiv> sum_list (map r_attempts rs)"

abbreviation tally :: "(mmrc_stats \<Rightarrow> nat) \<Rightarrow> mmrc_stats list \<Rightarrow> nat" where
  "tally f t \<equiv> sum_list (map f t)"

lemma total_update:
  assumes "i < length t" "f (g (t ! i)) = f (t ! i) + d"
  shows "tally f (t[i := g (t ! i)]) = tally f t + d"
proof -
  have "f (t ! i) \<le> tally f t" using assms(1) by (intro member_le_sum_list) auto
  then show ?thesis using assms by (simp add: map_update sum_list_update)
qed

lemma add16_small: "a + b < 65536 \<Longrightarrow> add16 a (int b) = a + b"
  by (simp add: add16_def nat_mod_distrib nat_add_distrib)

definition counted :: "mmrc_stats \<Rightarrow> mmrc_stats \<Rightarrow> bool" where
  "counted st st' \<longleftrightarrow> prob st' = prob st \<and> evidence st' = evidence st \<and>
     avg_throughput_counter st' = avg_throughput_counter st \<and> sum_throughput st' = sum_throughput st \<and>
     max_throughput st' = max_throughput st \<and> total_sent st' = total_sent st \<and>
     total_success st' = total_success st \<and>
     sent st \<le> sent st' \<and> sent st' < 65536 \<and> sent_success st' \<le> sent st'"

lemma counted_wf: "wf_stats c st \<Longrightarrow> counted st st' \<Longrightarrow> wf_stats c st'"
  by (auto simp: counted_def wf_stats_def)

lemma counted_trans: "counted a b \<Longrightarrow> counted b c \<Longrightarrow> counted a c"
  by (auto simp: counted_def)

lemma feedback_loop_ok:
  assumes "0 < rows tb" "length (tbl tb) = rows tb" "1 \<le> ind" "retry_count \<noteq> -1"
    "\<forall>st \<in> set (tbl tb). sent_success st \<le> sent st \<and> sent st + chain_attempts rs < 65536"
  shows "\<exists>t rs'. feedback_loop retry_count rs ind tb = Some (tb\<lparr>tbl := t\<rparr>, rs') \<and> length t = length (tbl tb) \<and>
    tally sent t = tally sent (tbl tb) + min (nat ind) (chain_attempts rs) \<and>
    tally sent_success t = tally sent_success (tbl tb) + (if ind \<le> int (chain_attempts rs) then 1 else 0) \<and>
    (\<forall>j < length t. counted (tbl tb ! j) (t ! j))"
  using assms
proof (induction rs arbitrary: ind tb)
  case Nil
  then show ?case by (intro exI [of _ "tbl tb"] exI [of _ "[]"]) (auto simp: counted_def)
next
  case (Cons r rs)
  define q where "q = rate_update_index (tb_caps tb) r"
  have q: "r_attempts q = r_attempts r" "r_index q < length (tbl tb)"
    using rate_update_index_in_range [of "tb_caps tb" r] Cons.prems(1,2) by (simp_all add: q_def)
  let ?i = "r_index q" and ?a = "r_attempts r"
  have st: "sent_success (tbl tb ! ?i) \<le> sent (tbl tb ! ?i)" "sent (tbl tb ! ?i) + ?a + chain_attempts rs < 65536"
    using Cons.prems(5) q(2) by (auto simp: add.assoc)
  have self: "counted (tbl tb ! j) (tbl tb ! j)" if "j < length (tbl tb)" for j
    using that Cons.prems(5) nth_mem [OF that] by (fastforce simp: counted_def)
  show ?case
  proof (cases "int ?a < ind")
    case True
    define g where "g = (\<lambda>st :: mmrc_stats. st\<lparr>sent := add16 (sent st) (int ?a)\<rparr>)"
    have g: "sent (g (tbl tb ! ?i)) = sent (tbl tb ! ?i) + ?a" "sent_success (g (tbl tb ! ?i)) = sent_success (tbl tb ! ?i)"
      "counted (tbl tb ! ?i) (g (tbl tb ! ?i))"
      using st by (auto simp: g_def add16_small counted_def)
    define t1 where "t1 = (tbl tb)[?i := g (tbl tb ! ?i)]"
    have t1: "length t1 = length (tbl tb)" "tally sent t1 = tally sent (tbl tb) + ?a"
      "tally sent_success t1 = tally sent_success (tbl tb)"
      "\<forall>j < length t1. counted (tbl tb ! j) (t1 ! j)"
      using q(2) g total_update [of ?i "tbl tb" sent g ?a] total_update [of ?i "tbl tb" sent_success g 0] self
      by (auto simp: t1_def nth_list_update)
    have "\<forall>st \<in> set t1. sent_success st \<le> sent st \<and> sent st + chain_attempts rs < 65536"
    proof
      fix x
      assume "x \<in> set t1"
      then have "x = g (tbl tb ! ?i) \<or> x \<in> set (tbl tb)"
        using set_update_subset_insert [of "tbl tb" ?i "g (tbl tb ! ?i)"] unfolding t1_def by blast
      then show "sent_success x \<le> sent x \<and> sent x + chain_attempts rs < 65536"
        using Cons.prems(5) g(1,2) st by auto
    qed
    with Cons.IH [of "tb\<lparr>tbl := t1\<rparr>" "ind - int ?a"] Cons.prems True t1(1)
    obtain t rs' where rest: "feedback_loop retry_count rs (ind - int ?a) (tb\<lparr>tbl := t1\<rparr>) = Some (tb\<lparr>tbl := t\<rparr>, rs')"
      "length t = length t1" "tally sent t = tally sent t1 + min (nat (ind - int ?a)) (chain_attempts rs)"
      "tally sent_success t = tally sent_success t1 + (if ind - int ?a \<le> int (chain_attempts rs) then 1 else 0)"
      "\<forall>j < length t. counted (t1 ! j) (t ! j)" by auto
    have "feedback_loop retry_count (r # rs) ind tb = Some (tb\<lparr>tbl := t\<rparr>, q # rs')"
      using True Cons.prems(4) q rest(1) by (simp add: q_def [symmetric] Let_def g_def [symmetric] t1_def)
    moreover have "\<forall>j < length t. counted (tbl tb ! j) (t ! j)"
      using t1(1,4) rest(2,5) counted_trans by metis
    moreover have "tally sent t = tally sent (tbl tb) + min (nat ind) (chain_attempts (r # rs))"
      using rest(3) t1(2) True by simp
    moreover have "tally sent_success t = tally sent_success (tbl tb) + (if ind \<le> int (chain_attempts (r # rs)) then 1 else 0)"
      using rest(4) t1(3) by (simp add: algebra_simps)
    moreover have "length t = length (tbl tb)" using rest(2) t1(1) by simp
    ultimately show ?thesis by blast
  next
    case False
    define g where "g = (\<lambda>st :: mmrc_stats. st\<lparr>sent := add16 (sent st) ind, sent_success := add16 (sent_success st) 1\<rparr>)"
    have ind: "ind = int (nat ind)" "nat ind \<le> ?a" using Cons.prems(3) False by auto
    have g: "sent (g (tbl tb ! ?i)) = sent (tbl tb ! ?i) + nat ind"
      "sent_success (g (tbl tb ! ?i)) = sent_success (tbl tb ! ?i) + 1" "counted (tbl tb ! ?i) (g (tbl tb ! ?i))"
    proof -
      have s: "add16 (sent (tbl tb ! ?i)) ind = sent (tbl tb ! ?i) + nat ind"
        using ind st(2) add16_small [of "sent (tbl tb ! ?i)" "nat ind"] by simp
      have c: "add16 (sent_success (tbl tb ! ?i)) 1 = sent_success (tbl tb ! ?i) + 1"
        using ind st Cons.prems(3) add16_small [of "sent_success (tbl tb ! ?i)" 1] by simp
      show "sent (g (tbl tb ! ?i)) = sent (tbl tb ! ?i) + nat ind"
        "sent_success (g (tbl tb ! ?i)) = sent_success (tbl tb ! ?i) + 1" by (simp_all add: g_def s c)
      show "counted (tbl tb ! ?i) (g (tbl tb ! ?i))"
        unfolding counted_def g_def s c using st ind Cons.prems(3) by auto
    qed
    define t1 where "t1 = (tbl tb)[?i := g (tbl tb ! ?i)]"
    have t1: "length t1 = length (tbl tb)" "tally sent t1 = tally sent (tbl tb) + nat ind"
      "tally sent_success t1 = tally sent_success (tbl tb) + 1"
      "\<forall>j < length t1. counted (tbl tb ! j) (t1 ! j)"
      using q(2) g total_update [of ?i "tbl tb" sent g "nat ind"] total_update [of ?i "tbl tb" sent_success g 1] self
      by (auto simp: t1_def nth_list_update)
    have "feedback_loop retry_count (r # rs) ind tb = Some (tb\<lparr>tbl := t1\<rparr>, q # rs)"
      using False Cons.prems(4) q by (simp add: q_def [symmetric] Let_def g_def [symmetric] t1_def)
    then show ?thesis using t1 ind False by auto
  qed
qed

lemma feedback_agg_loop_ok:
  assumes "0 < rows tb" "length (tbl tb) = rows tb" "1 \<le> ind" "n = success + failure" "n < 4294967296"
    "\<forall>st \<in> set (tbl tb). sent_success st \<le> sent st \<and> sent st + chain_attempts rs * n < 65536"
  shows "\<exists>t rs'. feedback_agg_loop success failure rs ind tb = Some (tb\<lparr>tbl := t\<rparr>, rs') \<and> length t = length (tbl tb) \<and>
    tally sent t = tally sent (tbl tb) + min (nat ind) (chain_attempts rs) * n \<and>
    tally sent_success t = tally sent_success (tbl tb) + (if ind \<le> int (chain_attempts rs) then success else 0) \<and>
    (\<forall>j < length t. counted (tbl tb ! j) (t ! j))"
  using assms
proof (induction rs arbitrary: ind tb)
  case Nil
  then show ?case by (intro exI [of _ "tbl tb"] exI [of _ "[]"]) (auto simp: counted_def)
next
  case (Cons r rs)
  define q where "q = rate_update_index (tb_caps tb) r"
  have q: "r_attempts q = r_attempts r" "r_index q < length (tbl tb)"
    using rate_update_index_in_range [of "tb_caps tb" r] Cons.prems(1,2) by (simp_all add: q_def)
  have n: "trunc32 (success + failure) = n" using Cons.prems(4,5) by simp
  let ?i = "r_index q" and ?a = "r_attempts r"
  have st: "sent_success (tbl tb ! ?i) \<le> sent (tbl tb ! ?i)"
    "sent (tbl tb ! ?i) + ?a * n + chain_attempts rs * n < 65536"
    using Cons.prems(6) q(2) by (auto simp: add.assoc add_mult_distrib)
  have self: "counted (tbl tb ! j) (tbl tb ! j)" if "j < length (tbl tb)" for j
    using that Cons.prems(6) nth_mem [OF that] by (fastforce simp: counted_def)
  show ?case
  proof (cases "int ?a < ind")
    case True
    define g where "g = (\<lambda>st :: mmrc_stats. st\<lparr>have_sent_ampdus := True, sent := add16 (sent st) (int (?a * n))\<rparr>)"
    have g: "sent (g (tbl tb ! ?i)) = sent (tbl tb ! ?i) + ?a * n" "sent_success (g (tbl tb ! ?i)) = sent_success (tbl tb ! ?i)"
      "counted (tbl tb ! ?i) (g (tbl tb ! ?i))"
      using st add16_small [of "sent (tbl tb ! ?i)" "?a * n"] by (auto simp: g_def counted_def)
    define t1 where "t1 = (tbl tb)[?i := g (tbl tb ! ?i)]"
    have t1: "length t1 = length (tbl tb)" "tally sent t1 = tally sent (tbl tb) + ?a * n"
      "tally sent_success t1 = tally sent_success (tbl tb)"
      "\<forall>j < length t1. counted (tbl tb ! j) (t1 ! j)"
      using q(2) g total_update [of ?i "tbl tb" sent g "?a * n"] total_update [of ?i "tbl tb" sent_success g 0] self
      by (auto simp: t1_def nth_list_update)
    have "\<forall>st \<in> set t1. sent_success st \<le> sent st \<and> sent st + chain_attempts rs * n < 65536"
    proof
      fix x
      assume "x \<in> set t1"
      then have "x = g (tbl tb ! ?i) \<or> x \<in> set (tbl tb)"
        using set_update_subset_insert [of "tbl tb" ?i "g (tbl tb ! ?i)"] unfolding t1_def by blast
      then show "sent_success x \<le> sent x \<and> sent x + chain_attempts rs * n < 65536"
        using Cons.prems(6) g(1,2) st by (auto simp: add_mult_distrib)
    qed
    with Cons.IH [of "tb\<lparr>tbl := t1\<rparr>" "ind - int ?a"] Cons.prems True t1(1)
    obtain t rs' where rest: "feedback_agg_loop success failure rs (ind - int ?a) (tb\<lparr>tbl := t1\<rparr>) = Some (tb\<lparr>tbl := t\<rparr>, rs')"
      "length t = length t1" "tally sent t = tally sent t1 + min (nat (ind - int ?a)) (chain_attempts rs) * n"
      "tally sent_success t = tally sent_success t1 + (if ind - int ?a \<le> int (chain_attempts rs) then success else 0)"
      "\<forall>j < length t. counted (t1 ! j) (t ! j)" by auto
    have "feedback_agg_loop success failure (r # rs) ind tb = Some (tb\<lparr>tbl := t\<rparr>, q # rs')"
      using True q rest(1) unfolding g_def t1_def
      by (simp add: q_def [symmetric] Let_def n)
    moreover have "\<forall>j < length t. counted (tbl tb ! j) (t ! j)"
      using t1(1,4) rest(2,5) counted_trans by metis
    moreover have "tally sent t = tally sent (tbl tb) + min (nat ind) (chain_attempts (r # rs)) * n"
    proof -
      have "min (nat ind) (chain_attempts (r # rs)) = ?a + min (nat (ind - int ?a)) (chain_attempts rs)"
        using True by simp
      then show ?thesis using rest(3) t1(2) by (simp only: add_mult_distrib)
    qed
    moreover have "tally sent_success t = tally sent_success (tbl tb) + (if ind \<le> int (chain_attempts (r # rs)) then success else 0)"
      using rest(4) t1(3) by (simp add: algebra_simps)
    moreover have "length t = length (tbl tb)" using rest(2) t1(1) by simp
    ultimately show ?thesis by blast
  next
    case False
    define g where "g = (\<lambda>st :: mmrc_stats. st\<lparr>have_sent_ampdus := True, sent := add16 (sent st) (int n * ind),
      sent_success := add16 (sent_success st) (int success),
      back_mpdu_success := add16 (back_mpdu_success st) (int success),
      back_mpdu_failure := add16 (back_mpdu_failure st) (int failure)\<rparr>)"
    have ind: "ind = int (nat ind)" "nat ind \<le> ?a" "1 \<le> nat ind" using Cons.prems(3) False by auto
    have le: "nat ind * n \<le> ?a * n" using mult_le_mono1 [OF ind(2), of n] by simp
    have "n \<le> nat ind * n" using mult_le_mono1 [OF ind(3), of n] by simp
    then have suc: "success \<le> nat ind * n" using Cons.prems(4) by linarith
    have mul: "int n * ind = int (nat ind * n)" using ind(1) by (metis mult.commute of_nat_mult)
    have s: "add16 (sent (tbl tb ! ?i)) (int n * ind) = sent (tbl tb ! ?i) + nat ind * n"
      unfolding mul using le st(2) by (intro add16_small) linarith
    have c: "add16 (sent_success (tbl tb ! ?i)) (int success) = sent_success (tbl tb ! ?i) + success"
      using le suc st by (intro add16_small) linarith
    have bnd: "sent (tbl tb ! ?i) + nat ind * n < 65536" using le st by linarith
    have g: "sent (g (tbl tb ! ?i)) = sent (tbl tb ! ?i) + nat ind * n"
      "sent_success (g (tbl tb ! ?i)) = sent_success (tbl tb ! ?i) + success" "counted (tbl tb ! ?i) (g (tbl tb ! ?i))"
      using st bnd suc unfolding counted_def g_def by (simp_all add: s c)
    define t1 where "t1 = (tbl tb)[?i := g (tbl tb ! ?i)]"
    have t1: "length t1 = length (tbl tb)" "tally sent t1 = tally sent (tbl tb) + nat ind * n"
      "tally sent_success t1 = tally sent_success (tbl tb) + success"
      "\<forall>j < length t1. counted (tbl tb ! j) (t1 ! j)"
      using q(2) g total_update [of ?i "tbl tb" sent g "nat ind * n"] total_update [of ?i "tbl tb" sent_success g success] self
      by (auto simp: t1_def nth_list_update)
    have "feedback_agg_loop success failure (r # rs) ind tb = Some (tb\<lparr>tbl := t1\<rparr>, q # rs)"
      using False q unfolding g_def t1_def by (simp add: q_def [symmetric] Let_def n)
    moreover have "min (nat ind) (chain_attempts (r # rs)) = nat ind" "ind \<le> int (chain_attempts (r # rs))"
      using ind by auto
    ultimately show ?thesis using t1 by (intro exI [of _ t1] exI [of _ "q # rs"]) simp
  qed
qed

section \<open>The rate controller as a system\<close>

text \<open>The calls of the driver, in any order: choosing rates for a packet, reporting its fate, the periodic
  update and fixing the rate.\<close>

datatype mmrc_call =
    Get_Rates "nat \<Rightarrow> nat \<Rightarrow> nat" nat
  | Feedback "mmrc_rate list" int
  | Feedback_Agg "mmrc_rate list" int nat nat
  | Update
  | Set_Fixed mmrc_rate

fun mmrc_step :: "mmrc_call \<Rightarrow> mmrc_table \<Rightarrow> mmrc_table option" where
  "mmrc_step (Get_Rates rnd sz) tb = map_option fst (mmrc_get_rates rnd tb sz)"
| "mmrc_step (Feedback rs n) tb = map_option fst (mmrc_feedback tb rs n)"
| "mmrc_step (Feedback_Agg rs n s f) tb = map_option fst (mmrc_feedback_agg tb rs n s f)"
| "mmrc_step Update tb = mmrc_update tb"
| "mmrc_step (Set_Fixed r) tb = Some (fst (mmrc_set_fixed_rate tb r))"

text \<open>
  How the driver calls: packets are not empty, feedback is for at least one attempt
  (\<open>morse_rc_sta_feedback_rates\<close> returns early otherwise), the 16 bit packet counters do not
  overflow between two updates, and there were fewer than \<open>2 ^ 32 - 1\<close> updates.
\<close>

fun mmrc_call_ok :: "mmrc_call \<Rightarrow> mmrc_table \<Rightarrow> bool" where
  "mmrc_call_ok (Get_Rates rnd sz) tb = (random_below rnd \<and> 0 < sz)"
| "mmrc_call_ok (Feedback rs n) tb =
     (1 \<le> n \<and> (\<forall>st \<in> set (tbl tb). sent st + chain_attempts rs < 65536))"
| "mmrc_call_ok (Feedback_Agg rs n s f) tb =
     (1 \<le> n \<and> s + f < 4294967296 \<and> (\<forall>st \<in> set (tbl tb). sent st + chain_attempts rs * (s + f) < 65536))"
| "mmrc_call_ok Update tb = (cycle_cnt tb < 4294967295)"
| "mmrc_call_ok (Set_Fixed r) tb = True"

lemma counted_table:
  assumes "wf_table tb" "length t = length (tbl tb)" "\<forall>j < length t. counted (tbl tb ! j) (t ! j)"
  shows "wf_table (tb\<lparr>tbl := t\<rparr>)"
proof -
  have "wf_stats (cycle_cnt tb) (t ! j)" if "j < length t" for j
    using assms that counted_wf [of "cycle_cnt tb" "tbl tb ! j" "t ! j"] by (simp add: wf_table_def)
  then show ?thesis using assms by (auto simp: wf_table_def wf_core_tbl in_set_conv_nth)
qed

lemma wf_table_rows: "wf_table tb \<Longrightarrow> 0 < rows tb \<and> length (tbl tb) = rows tb"
  using wf_coreD(3,4) by (simp add: wf_table_def)

lemma mmrc_step_ok:
  assumes "wf_table tb" "mmrc_call_ok c tb"
  shows "\<exists>tb'. mmrc_step c tb = Some tb' \<and> wf_table tb'"
proof -
  have ss: "sent_success st \<le> sent st" if "st \<in> set (tbl tb)" for st
    using assms(1) that by (simp add: wf_table_def wf_stats_def)
  show ?thesis
  proof (cases c)
    case (Get_Rates rnd sz)
    with get_rates_ok [of tb sz rnd] assms show ?thesis by auto
  next
    case (Feedback rs n)
    then obtain t rs' where "feedback_loop n rs n tb = Some (tb\<lparr>tbl := t\<rparr>, rs')" "length t = length (tbl tb)"
      "\<forall>j < length t. counted (tbl tb ! j) (t ! j)"
      using feedback_loop_ok [of tb n n rs] assms ss wf_table_rows by auto
    with Feedback show ?thesis using counted_table [OF assms(1)] by (simp add: mmrc_feedback_def)
  next
    case (Feedback_Agg rs n s f)
    then obtain t rs' where "feedback_agg_loop s f rs n tb = Some (tb\<lparr>tbl := t\<rparr>, rs')" "length t = length (tbl tb)"
      "\<forall>j < length t. counted (tbl tb ! j) (t ! j)"
      using feedback_agg_loop_ok [of tb n "s + f" s f rs] assms ss wf_table_rows by auto
    with Feedback_Agg show ?thesis using counted_table [OF assms(1)] by (simp add: mmrc_feedback_agg_def)
  next
    case Update
    with mmrc_update_ok [of tb] assms show ?thesis by auto
  next
    case (Set_Fixed r)
    with set_fixed_rate_ok [OF assms(1)] show ?thesis by simp
  qed
qed

interpretation rc: step_system mmrc_step wf_table mmrc_call_ok
  by unfold_locales (rule mmrc_step_ok)


lemma rate_core_fields:
  "r_rate (rate_core r) = r_rate r" "r_bw (rate_core r) = r_bw r" "r_ss (rate_core r) = r_ss r"
  "r_guard (rate_core r) = r_guard r"
  by (simp_all add: rate_core_def)

section \<open>Properties\<close>

text \<open>From the initial table of a station with well-formed capabilities every sequence of calls made as
  the driver makes them returns and keeps the invariant of the table.\<close>

lemma mmrc_runs_ok:
  assumes "wf_caps caps" "0 < max_rates caps"
    and "\<And>tb. mmrc_sta_init caps rssi = Some tb \<Longrightarrow> all_ok mmrc_step mmrc_call_ok calls tb"
  shows "\<exists>tb tb'. mmrc_sta_init caps rssi = Some tb \<and> ofold mmrc_step calls tb = Some tb' \<and> wf_table tb'"
  using sta_init_ok [OF assms(1,2), of rssi] assms(3) rc.run_ok by blast

text \<open>With MCS10, one bandwidth, one stream and one guard the table has a row without a rate. The first
  periodic update, which looks at every row, decodes it: the shift of \<open>nth_bit\<close> leaves the word.\<close>

lemma process_variation_caps: "mmrc_process_variation tb p i = Some tb' \<Longrightarrow> tb_caps tb' = tb_caps tb"
  by (auto simp: mmrc_process_variation_def split: if_splits Option.bind_splits)

lemma update_row_caps:
  assumes "update_row min_st i (tb, b) = Some s"
  shows "tb_caps (fst s) = tb_caps tb"
  using assms process_variation_caps
  by (cases s) (fastforce simp: update_row_def Let_def split: Option.bind_splits if_splits prod.splits)

lemma update_last_row:
  assumes "wf_masks caps" "\<not> wf_caps caps" "tb_caps tb = caps"
  shows "update_row min_st (rows_from_sta_caps caps - 1) (tb, b) = None"
proof -
  note c = wf_caps_counts [OF assms(1)] and pos = rows_pos [OF assms(1)] and b = block_size_bounds [OF assms(1)]
  have m10: "bit (rates caps) MMRC_MCS10" and lt: "\<not> 2 \<le> block_size caps"
    using assms(1,2) by (simp_all add: wf_caps_def ac_simps)
  have "block_size caps = 1" using lt b(1) by linarith
  note m = m10 this
  have rows: "rows_from_sta_caps caps = BIT_COUNT (rates caps) + 1"
    using c(5) m by (simp add: rows_eq [OF assms(1)])
  have "get_rate_row caps (trunc8 (BIT_COUNT (rates caps))) = None"
    using get_rate_row_none [OF assms(1), of "BIT_COUNT (rates caps)"] rows m c(6) by simp
  then have "calculate_throughput tb (rows_from_sta_caps caps - 1) = None" if "tb_caps tb = caps" for tb
    using that by (simp add: calculate_throughput_def rows)
  then show ?thesis
    using assms(3) process_variation_caps
    by (fastforce simp: update_row_def Let_def split: Option.bind_splits if_splits prod.splits)
qed

lemma mmrc_update_undefined:
  assumes "wf_masks caps" "\<not> wf_caps caps" "tb_caps tb = caps"
  shows "mmrc_update tb = None"
proof -
  let ?n = "rows_from_sta_caps caps" and ?tb = "tb\<lparr>cycle_cnt := trunc32 (cycle_cnt tb + 1)\<rparr>"
  have split: "[0..<?n] = [0..<?n - 1] @ [?n - 1]"
    using rows_pos(1) [OF assms(1)] upt_Suc_append [of 0 "?n - 1"] by simp
  have caps: "ofold (update_row k) is s = Some t \<Longrightarrow> tb_caps (fst t) = tb_caps (fst s)" for k "is" s t
    by (induction "is" arbitrary: s) (auto split: Option.bind_splits dest!: update_row_caps)
  have "ofold (update_row k) [0..<?n] (?tb, False) = None" for k
  proof (cases "ofold (update_row k) [0..<?n - 1] (?tb, False)")
    case (Some s)
    then have "tb_caps (fst s) = caps" using caps [OF Some] assms(3) by simp
    then show ?thesis unfolding split using Some update_last_row [OF assms(1,2), of "fst s" k "snd s"]
      by (simp add: ofold_append)
  qed (simp add: split ofold_append)
  then show ?thesis using assms(3) by (simp add: mmrc_update_def Let_def)
qed

text \<open>Initialisation is defined for all masks.\<close>

lemma sta_init_defined:
  assumes "wf_masks caps" "bit (rates caps) MMRC_MCS10"
  shows "\<exists>tb. mmrc_sta_init caps rssi = Some tb \<and> tb_caps tb = caps"
proof -
  have "0 < BIT_COUNT (rates caps) * block_size caps" using block_size_bounds(1) wf_caps_counts(5) assms(1) by simp
  then have "\<exists>r. get_rate_row caps 0 = Some r" using get_rate_row_index [OF assms(1) rows_pos(1) [OF assms(1)]] by blast
  moreover have "tb_caps (mmrc_init_rates tb rssi) = tb_caps tb" for tb by (simp add: mmrc_init_rates_def Let_def)
  ultimately show ?thesis using assms(2) by (auto simp: mmrc_sta_init_def find_baseline_index_def Let_def zero_table_def)
qed

text \<open>C29: The periodic update returns, keeps every probability and evidence at most 100 and loses no
  packet: what a row has counted in all (moved to the totals or not yet) is unchanged, modulo the
  width of the counters.\<close>

theorem mmrc_update_conserves:
  assumes "wf_table tb" "cycle_cnt tb < 4294967295"
  shows "\<exists>tb'. mmrc_update tb = Some tb' \<and> wf_table tb' \<and>
    (\<forall>j < rows tb. prob (tbl tb' ! j) \<le> 100 \<and> evidence (tbl tb' ! j) \<le> 100 \<and>
       trunc32 (total_sent (tbl tb' ! j) + sent (tbl tb' ! j)) =
         trunc32 (total_sent (tbl tb ! j) + sent (tbl tb ! j)) \<and>
       trunc32 (total_success (tbl tb' ! j) + sent_success (tbl tb' ! j)) =
         trunc32 (total_success (tbl tb ! j) + sent_success (tbl tb ! j)))"
  using mmrc_update_ok [OF assms] by (auto simp: row_ok_def wf_stats_def)

text \<open>C14: The chain chosen for a packet has four entries; the first \<open>max_rates\<close> are rows of the table with one or
  two attempts each, the rest are marked unused with no attempts. The first is the best rate or,
  when a rate is sampled, a valid rate at most one MCS or one bandwidth (not both) above it, followed by the best rate.\<close>

theorem mmrc_get_rates_chain:
  assumes "wf_table tb" "0 < sz" "random_below rnd"
  shows "\<exists>tb' out. mmrc_get_rates rnd tb sz = Some (tb', out) \<and> length out = 4 \<and>
    (\<forall>i < 4. if i < max_rates (tb_caps tb)
       then rate_in_table (tb_caps tb) (out ! i) \<and> 1 \<le> r_attempts (out ! i) \<and> r_attempts (out ! i) \<le> 2
       else r_rate (out ! i) = MMRC_MCS_UNUSED \<and> r_attempts (out ! i) = 0) \<and>
    (rate_core (out ! 0) = rate_core (best_tp tb) \<or>
     validate_rate (tb_caps tb) (out ! 0) \<and> one_step_up (best_tp tb) (out ! 0) \<and>
     (1 < max_rates (tb_caps tb) \<longrightarrow> rate_core (out ! 1) = rate_core (best_tp tb)))"
proof -
  from get_rates_ok [OF assms] obtain tb' out found where g: "mmrc_get_rates rnd tb sz = Some (tb', out)"
    "chain_ok (tb_caps tb) out" "attempts_ok (tb_caps tb) out"
    "map rate_core out = map rate_core (fill_chain tb found)" "\<forall>r. found = Some r \<longrightarrow> sampled_ok tb r" by blast
  have len: "length out = 4" using g(2) by (simp add: chain_ok_def)
  have nth: "rate_core (out ! i) = rate_core (fill_chain tb found ! i)" if "i < 4" for i
  proof -
    have "length (fill_chain tb found) = 4" using g(4) len map_eq_imp_length_eq by fastforce
    then show ?thesis using g(4) that len by (metis nth_map)
  qed
  have core: "validate_rate (tb_caps tb) r = validate_rate (tb_caps tb) (rate_core r)"
    "one_step_up b r = one_step_up b (rate_core r)" for b r
    by (simp_all only: validate_rate_def one_step_up_def rate_core_fields)
  have "rate_core (out ! 0) = rate_core (best_tp tb) \<or>
     validate_rate (tb_caps tb) (out ! 0) \<and> one_step_up (best_tp tb) (out ! 0) \<and>
     (1 < max_rates (tb_caps tb) \<longrightarrow> rate_core (out ! 1) = rate_core (best_tp tb))"
  proof (cases found)
    case None
    then show ?thesis using nth [of 0] by (simp add: fill_chain_def Let_def)
  next
    case (Some r)
    then have "rate_core (out ! 0) = rate_core r" using nth [of 0] by (simp add: fill_chain_def Let_def)
    moreover have "validate_rate (tb_caps tb) r" "one_step_up (best_tp tb) r" using g(5) Some by (simp_all add: sampled_ok_def)
    ultimately have "validate_rate (tb_caps tb) (out ! 0)" "one_step_up (best_tp tb) (out ! 0)" using core by metis+
    then show ?thesis using Some nth [of 1] by (simp add: fill_chain_def Let_def)
  qed
  moreover have "if i < max_rates (tb_caps tb)
       then rate_in_table (tb_caps tb) (out ! i) \<and> 1 \<le> r_attempts (out ! i) \<and> r_attempts (out ! i) \<le> 2
       else r_rate (out ! i) = MMRC_MCS_UNUSED \<and> r_attempts (out ! i) = 0" if "i < 4" for i
    using g(2,3) that by (simp add: chain_ok_def attempts_ok_def)
  ultimately show ?thesis using g(1) len by (intro exI [of _ tb'] exI [of _ out]) blast
qed

text \<open>A fixed rate is honoured: once \<open>mmrc_set_fixed_rate\<close> has accepted it and the next update has run,
  the first three used entries of every chain are that rate and nothing is sampled.\<close>

theorem fixed_rate_honoured:
  assumes "wf_table tb" "mmrc_set_fixed_rate tb r = (tb1, True)" "cycle_cnt tb < 4294967295"
    "0 < sz" "random_below rnd"
  shows "\<exists>tb2 tb3 out. mmrc_update tb1 = Some tb2 \<and> mmrc_get_rates rnd tb2 sz = Some (tb3, out) \<and>
    (\<forall>i < 3. i < max_rates (tb_caps tb) \<longrightarrow> rate_core (out ! i) = rate_core (rate_update_index (tb_caps tb) r))"
proof -
  let ?f = "rate_update_index (tb_caps tb) r"
  have core: "wf_core tb" using assms(1) by (simp add: wf_table_def)
  have set: "supported_rate (tb_caps tb) r" "tb1 = tb\<lparr>fixed_rate := ?f\<rparr>"
    using assms(2) by (auto simp: mmrc_set_fixed_rate_def Let_def supported_rate_def split: if_splits)
  have wf1: "wf_table tb1" using set_fixed_rate_ok [OF assms(1), of r] assms(2) by simp
  have used: "r_rate (fixed_rate tb1) \<noteq> MMRC_MCS_UNUSED"
    using supported_rate_bounds(1) [OF wf_caps_masks [OF wf_coreD(1) [OF core]] set(1)] set(2) by (simp add: mmrc_enum)
  have "cycle_cnt tb1 < 4294967295" using assms(3) set(2) by simp
  from mmrc_update_ok [OF wf1 this] used obtain tb2 where u: "mmrc_update tb1 = Some tb2" "wf_table tb2"
    "tb_caps tb2 = tb_caps tb1" "fixed_rate tb2 = ?f" "best_tp tb2 = ?f" "second_tp tb2 = ?f" "best_prob tb2 = ?f"
    using set(2) by auto
  from get_rates_ok [OF u(2) assms(4,5)] used set(2) u(4) obtain tb3 out where g:
    "mmrc_get_rates rnd tb2 sz = Some (tb3, out)" "chain_ok (tb_caps tb2) out"
    "map rate_core out = map rate_core (fill_chain tb2 None)" by auto
  have len: "length out = 4" "length (fill_chain tb2 None) = 4"
    using g(2,3) map_eq_imp_length_eq by (force simp: chain_ok_def)+
  have "rate_core (out ! i) = rate_core ?f" if "i < 3" "i < max_rates (tb_caps tb)" for i
  proof -
    have "rate_core (out ! i) = rate_core (fill_chain tb2 None ! i)"
      using g(3) len that(1) nth_map [of i out rate_core] nth_map [of i "fill_chain tb2 None" rate_core] by simp
    moreover have "fill_chain tb2 None ! i = ?f"
    proof -
      have caps: "tb_caps tb2 = tb_caps tb" using u(3) set(2) by simp
      have "i = 0 \<or> i = 1 \<or> i = 2" using that(1) by linarith
      then show ?thesis using that(2) by (elim disjE) (simp_all add: fill_chain_def caps u(5-7) Let_def)
    qed
    ultimately show ?thesis by simp
  qed
  with u(1) g(1) show ?thesis by blast
qed

text \<open>C26: Feedback counts attempts exactly: a packet that took \<open>n\<close> attempts adds the smaller of \<open>n\<close> and the
  attempts of its chain to the sent counters and one success exactly when the chain was long enough;
  no other statistic changes.\<close>

theorem mmrc_feedback_counts:
  assumes "wf_table tb" "1 \<le> n" "\<forall>st \<in> set (tbl tb). sent st + chain_attempts rs < 65536"
  shows "\<exists>t rs'. mmrc_feedback tb rs n = Some (tb\<lparr>tbl := t\<rparr>, rs') \<and>
    tally sent t = tally sent (tbl tb) + min (nat n) (chain_attempts rs) \<and>
    tally sent_success t = tally sent_success (tbl tb) + (if n \<le> int (chain_attempts rs) then 1 else 0) \<and>
    (\<forall>j < length t. prob (t ! j) = prob (tbl tb ! j) \<and> evidence (t ! j) = evidence (tbl tb ! j) \<and>
       sent_success (t ! j) \<le> sent (t ! j))"
proof -
  have "\<forall>st \<in> set (tbl tb). sent_success st \<le> sent st \<and> sent st + chain_attempts rs < 65536"
    using assms(1,3) by (simp add: wf_table_def wf_stats_def)
  from feedback_loop_ok [OF _ _ assms(2) _ this, of n] wf_table_rows [OF assms(1)] assms(2)
  obtain t rs' where "feedback_loop n rs n tb = Some (tb\<lparr>tbl := t\<rparr>, rs')"
    "tally sent t = tally sent (tbl tb) + min (nat n) (chain_attempts rs)"
    "tally sent_success t = tally sent_success (tbl tb) + (if n \<le> int (chain_attempts rs) then 1 else 0)"
    "\<forall>j < length t. counted (tbl tb ! j) (t ! j)" by auto
  then show ?thesis unfolding mmrc_feedback_def counted_def by blast
qed

text \<open>Feedback of an aggregate counts every MPDU of every attempt: \<open>n\<close> attempts of \<open>success + failure\<close>
  packets add that product (as far as the chain reaches) to the sent counters and \<open>success\<close> successes.\<close>

theorem mmrc_feedback_agg_counts:
  assumes "wf_table tb" "1 \<le> n" "s + f < 4294967296"
    "\<forall>st \<in> set (tbl tb). sent st + chain_attempts rs * (s + f) < 65536"
  shows "\<exists>t rs'. mmrc_feedback_agg tb rs n s f = Some (tb\<lparr>tbl := t\<rparr>, rs') \<and>
    tally sent t = tally sent (tbl tb) + min (nat n) (chain_attempts rs) * (s + f) \<and>
    tally sent_success t = tally sent_success (tbl tb) + (if n \<le> int (chain_attempts rs) then s else 0) \<and>
    (\<forall>j < length t. sent_success (t ! j) \<le> sent (t ! j))"
proof -
  have "\<forall>st \<in> set (tbl tb). sent_success st \<le> sent st \<and> sent st + chain_attempts rs * (s + f) < 65536"
    using assms(1,4) by (simp add: wf_table_def wf_stats_def)
  from feedback_agg_loop_ok [OF _ _ assms(2) refl assms(3) this] wf_table_rows [OF assms(1)]
  obtain t rs' where "feedback_agg_loop s f rs n tb = Some (tb\<lparr>tbl := t\<rparr>, rs')"
    "tally sent t = tally sent (tbl tb) + min (nat n) (chain_attempts rs) * (s + f)"
    "tally sent_success t = tally sent_success (tbl tb) + (if n \<le> int (chain_attempts rs) then s else 0)"
    "\<forall>j < length t. counted (tbl tb ! j) (t ! j)" by auto
  then show ?thesis unfolding mmrc_feedback_agg_def counted_def by blast
qed

text \<open>The retry rates step down: from a best rate of MCS1 to MCS9 the second is one MCS lower, or MCS4 when
  the controller is unconverged and that is lower still, the third is not above it, and the last is MCS0; bandwidths never grow.\<close>

theorem retry_rates_descend:
  assumes "MMRC_MCS0 < r_rate (best_tp tb)"
  shows "let tb' = mmrc_fill_retry_rates tb in
    r_rate (second_tp tb') = (if unconverged tb \<and> MMRC_MCS4 < r_rate (best_tp tb) - 1 then MMRC_MCS4
                              else r_rate (best_tp tb) - 1) \<and>
    r_rate (best_prob tb') \<le> r_rate (second_tp tb') \<and> r_rate (baseline tb') = MMRC_MCS0 \<and>
    r_bw (second_tp tb') = r_bw (best_tp tb) \<and> r_bw (best_prob tb') \<le> r_bw (second_tp tb') \<and>
    r_bw (baseline tb') \<le> r_bw (best_prob tb')"
  using assms
  by (auto simp: mmrc_fill_retry_rates_def lower_retry_rate_def last_retry_rate_def Let_def mmrc_enum)

text \<open>MCS10 is the slowest rate of a 1 MHz channel, but its number is the highest: when it is the best rate,
  the "one MCS lower" retry rate is MCS9, the fastest one.\<close>

theorem retry_rate_after_mcs10:
  "let r = \<lparr>r_rate = MMRC_MCS10, r_attempts = 1, r_guard = 0, r_ss = 0, r_bw = MMRC_BW_1MHZ, r_flags = 0, r_index = 48\<rparr>;
       s = lower_retry_rate caps_example False MMRC_MCS4 r
   in r_rate s = MMRC_MCS9 \<and> mmrc_calculate_theoretical_throughput r = Some 150000 \<and>
      mmrc_calculate_theoretical_throughput s = Some 4000000"
  by (simp add: lower_retry_rate_def Let_def mmrc_enum theoretical_throughput_value s1g_tpt_lgi_def)

section \<open>Witnesses\<close>

lemma caps_example_max_rates: "max_rates caps_example = 4"
  by (simp add: caps_example_def)


definition rnd0 :: "nat \<Rightarrow> nat \<Rightarrow> nat" where
  "rnd0 k n = k mod n"

lemma rnd0_below: "random_below rnd0"
  by (simp add: random_below_def rnd0_def)

definition tb_example :: mmrc_table where
  "tb_example = the (mmrc_sta_init caps_example (-60))"

lemma tb_example_ok: "wf_table tb_example" "tb_caps tb_example = caps_example" "cycle_cnt tb_example = 0"
  using sta_init_ok [OF caps_example_ok(1), of "-60"] by (auto simp: tb_example_def caps_example_max_rates)

lemma tb_example_rows: "st \<in> set (tbl tb_example) \<Longrightarrow> sent st = 0"
proof -
  assume st: "st \<in> set (tbl tb_example)"
  obtain tb where tb: "mmrc_sta_init caps_example (-60) = Some tb"
    using sta_init_ok [OF caps_example_ok(1), of "-60"] by (auto simp: caps_example_max_rates)
  then have "tbl tb = replicate (rows_from_sta_caps caps_example) zero_stats"
    by (auto simp: mmrc_sta_init_def Let_def mmrc_init_rates_def zero_table_def split: Option.bind_splits)
  with st tb show ?thesis by (simp add: tb_example_def zero_stats_def)
qed

definition chain_example :: "mmrc_rate list" where
  "chain_example = [\<lparr>r_rate = 7, r_attempts = 2, r_guard = 0, r_ss = 0, r_bw = 2, r_flags = 0, r_index = 0\<rparr>,
     \<lparr>r_rate = 4, r_attempts = 1, r_guard = 0, r_ss = 0, r_bw = 2, r_flags = 1, r_index = 0\<rparr>]"

theorem mmrc_update_conserves_witness:
  "\<exists>tb'. mmrc_update tb_example = Some tb' \<and> wf_table tb' \<and>
    (\<forall>j < rows tb_example. prob (tbl tb' ! j) \<le> 100 \<and> evidence (tbl tb' ! j) \<le> 100 \<and>
       trunc32 (total_sent (tbl tb' ! j) + sent (tbl tb' ! j)) =
         trunc32 (total_sent (tbl tb_example ! j) + sent (tbl tb_example ! j)) \<and>
       trunc32 (total_success (tbl tb' ! j) + sent_success (tbl tb' ! j)) =
         trunc32 (total_success (tbl tb_example ! j) + sent_success (tbl tb_example ! j)))"
  by (rule mmrc_update_conserves) (simp_all add: tb_example_ok)

theorem mmrc_get_rates_chain_witness:
  "\<exists>tb' out. mmrc_get_rates rnd0 tb_example 1500 = Some (tb', out) \<and> length out = 4 \<and>
    (\<forall>i < 4. if i < max_rates (tb_caps tb_example)
       then rate_in_table (tb_caps tb_example) (out ! i) \<and> 1 \<le> r_attempts (out ! i) \<and> r_attempts (out ! i) \<le> 2
       else r_rate (out ! i) = MMRC_MCS_UNUSED \<and> r_attempts (out ! i) = 0) \<and>
    (rate_core (out ! 0) = rate_core (best_tp tb_example) \<or>
     validate_rate (tb_caps tb_example) (out ! 0) \<and> one_step_up (best_tp tb_example) (out ! 0) \<and>
     (1 < max_rates (tb_caps tb_example) \<longrightarrow> rate_core (out ! 1) = rate_core (best_tp tb_example)))"
  by (rule mmrc_get_rates_chain) (simp_all add: tb_example_ok rnd0_below)

theorem fixed_rate_honoured_witness:
  "let r = \<lparr>r_rate = 7, r_attempts = 0, r_guard = 0, r_ss = 0, r_bw = 2, r_flags = 0, r_index = 0\<rparr>;
       tb1 = fst (mmrc_set_fixed_rate tb_example r)
   in \<exists>tb2 tb3 out. mmrc_update tb1 = Some tb2 \<and> mmrc_get_rates rnd0 tb2 100 = Some (tb3, out) \<and>
    (\<forall>i < 3. i < max_rates (tb_caps tb_example) \<longrightarrow>
       rate_core (out ! i) = rate_core (rate_update_index (tb_caps tb_example) r))"
  unfolding Let_def
  by (rule fixed_rate_honoured)
    (use caps_example_ok in \<open>simp_all add: tb_example_ok rnd0_below mmrc_set_fixed_rate_def Let_def validate_rate_def mmrc_enum\<close>)

theorem mmrc_feedback_counts_witness:
  "\<exists>t rs'. mmrc_feedback tb_example chain_example 3 = Some (tb_example\<lparr>tbl := t\<rparr>, rs') \<and>
    tally sent t = tally sent (tbl tb_example) + min (nat 3) (chain_attempts chain_example) \<and>
    tally sent_success t = tally sent_success (tbl tb_example) + (if 3 \<le> int (chain_attempts chain_example) then 1 else 0) \<and>
    (\<forall>j < length t. prob (t ! j) = prob (tbl tb_example ! j) \<and> evidence (t ! j) = evidence (tbl tb_example ! j) \<and>
       sent_success (t ! j) \<le> sent (t ! j))"
  by (rule mmrc_feedback_counts) (simp_all add: tb_example_ok tb_example_rows chain_example_def)

theorem mmrc_feedback_agg_counts_witness:
  "\<exists>t rs'. mmrc_feedback_agg tb_example chain_example 3 5 2 = Some (tb_example\<lparr>tbl := t\<rparr>, rs') \<and>
    tally sent t = tally sent (tbl tb_example) + min (nat 3) (chain_attempts chain_example) * (5 + 2) \<and>
    tally sent_success t = tally sent_success (tbl tb_example) + (if 3 \<le> int (chain_attempts chain_example) then 5 else 0) \<and>
    (\<forall>j < length t. sent_success (t ! j) \<le> sent (t ! j))"
  by (rule mmrc_feedback_agg_counts) (simp_all add: tb_example_ok tb_example_rows chain_example_def)

theorem retry_rates_descend_witness:
  "let tb = tb_example\<lparr>best_tp := hd chain_example\<rparr>; tb' = mmrc_fill_retry_rates tb in
    r_rate (second_tp tb') = (if unconverged tb \<and> MMRC_MCS4 < r_rate (best_tp tb) - 1 then MMRC_MCS4
                              else r_rate (best_tp tb) - 1) \<and>
    r_rate (best_prob tb') \<le> r_rate (second_tp tb') \<and> r_rate (baseline tb') = MMRC_MCS0 \<and>
    r_bw (second_tp tb') = r_bw (best_tp tb) \<and> r_bw (best_prob tb') \<le> r_bw (second_tp tb') \<and>
    r_bw (baseline tb') \<le> r_bw (best_prob tb')"
  using retry_rates_descend [of "tb_example\<lparr>best_tp := hd chain_example\<rparr>"]
  by (simp add: chain_example_def mmrc_enum Let_def)

end
