(* ===== verification/Rc.thy ===== *)
theory Rc
  imports Mmrc
begin

text \<open>
  The adapter between mac80211 and the rate control, \<^verbatim>\<open>rc.c\<close>: what a station can do becomes the
  capabilities of its rate table (\<open>morse_rc_sta_add\<close>).
\<close>

section \<open>The capabilities of a station\<close>

text \<open>What mac80211 knows of a station: the flags of its HT and VHT capabilities that the driver reads, and the maps of the
  MCS it supports with each number of streams, two bits each (0: MCS 0-7, 1: 0-8, 2: 0-9, 3: not supported).\<close>

record vht_mcs_info =
  rx_mcs_map :: nat
  tx_mcs_map :: nat

record ieee80211_sta =
  ht_supported :: bool
  ht_cap_sgi_20 :: bool
  ht_cap_sgi_40 :: bool
  vht_supported :: bool
  vht_cap_short_gi_80 :: bool
  vht_cap_short_gi_160 :: bool
  vht_mcs :: vht_mcs_info

text \<open>The configuration the adapter reads: the channel, a module parameter, the limits of the hardware and the host's own maps.\<close>

record rc_config =
  op_bw_mhz :: nat
  enable_sgi_rc :: bool
  hw_max_rates :: nat
  hw_max_rate_tries :: nat
  band_vht_mcs :: vht_mcs_info

definition MORSE_RC_BW_TO_MMRC_BW :: "nat \<Rightarrow> nat" where
  "MORSE_RC_BW_TO_MMRC_BW x =
     (if x = 1 then MMRC_BW_1MHZ else if x = 2 then MMRC_BW_2MHZ else if x = 4 then MMRC_BW_4MHZ
      else if x = 8 then MMRC_BW_8MHZ else MMRC_BW_2MHZ)"

fun bandwidth_loop :: "nat \<Rightarrow> nat \<Rightarrow> nat" where
  "bandwidth_loop oper_bw_mhz w =
     (if 0 < oper_bw_mhz then bandwidth_loop (oper_bw_mhz div 2) (set_bit (MORSE_RC_BW_TO_MMRC_BW oper_bw_mhz) w) else w)"

declare bandwidth_loop.simps [simp del]

definition set_sgi :: "nat \<Rightarrow> mmrc_sta_capabilities \<Rightarrow> mmrc_sta_capabilities" where
  "set_sgi bw caps = caps\<lparr>sgi_per_bw := set_bit bw (sgi_per_bw caps), guards := set_bit MMRC_GUARD_SHORT (guards caps)\<rparr>"

definition morse_rc_sta_config_guard_per_bw :: "bool \<Rightarrow> ieee80211_sta \<Rightarrow> mmrc_sta_capabilities \<Rightarrow> mmrc_sta_capabilities" where
  "morse_rc_sta_config_guard_per_bw sgi sta caps =
     (let caps = caps\<lparr>guards := 2 ^ MMRC_GUARD_LONG\<rparr>
      in if \<not> sgi then caps
         else (let caps = (if ht_supported sta then
                   (let caps = (if bit (bandwidth caps) MMRC_BW_1MHZ \<and> ht_cap_sgi_20 sta then set_sgi MMRC_BW_1MHZ caps else caps)
                    in if bit (bandwidth caps) MMRC_BW_2MHZ \<and> ht_cap_sgi_40 sta then set_sgi MMRC_BW_2MHZ caps else caps)
                 else caps)
           in if vht_supported sta then
                (let caps = (if bit (bandwidth caps) MMRC_BW_4MHZ \<and> vht_cap_short_gi_80 sta then set_sgi MMRC_BW_4MHZ caps else caps)
                 in if bit (bandwidth caps) MMRC_BW_8MHZ \<and> vht_cap_short_gi_160 sta then set_sgi MMRC_BW_8MHZ caps else caps)
              else caps))"

definition stream_mcs :: "vht_mcs_info \<Rightarrow> nat \<Rightarrow> nat" where
  "stream_mcs m nss_idx =
     (let rx_mcs = drop_bit (nss_idx * 2) (rx_mcs_map m) mod 4;
          tx_mcs = drop_bit (nss_idx * 2) (tx_mcs_map m) mod 4
      in if rx_mcs = 3 then rx_mcs else if tx_mcs = 3 then 3 else if tx_mcs < rx_mcs then tx_mcs else rx_mcs)"

definition add_stream :: "vht_mcs_info \<Rightarrow> nat \<Rightarrow> mmrc_sta_capabilities \<Rightarrow> mmrc_sta_capabilities" where
  "add_stream m nss_idx caps =
     (let mcs = stream_mcs m nss_idx;
          masks = (\<lambda>is w. fold set_bit is w)
      in if mcs = 3 then caps
         else (let caps = (if mcs = 2 then caps\<lparr>rates := masks [9, 8] (rates caps)\<rparr> else caps);
                   caps = (if 1 \<le> mcs then caps\<lparr>rates := masks [7, 6, 5, 4, 3] (rates caps)\<rparr> else caps)
               in caps\<lparr>rates := masks [2, 1, 0, MMRC_MCS10] (rates caps), spatial_streams := set_bit nss_idx (spatial_streams caps)\<rparr>))"

definition morse_rc_sta_add_vht_sta_caps :: "vht_mcs_info \<Rightarrow> mmrc_sta_capabilities \<Rightarrow> mmrc_sta_capabilities" where
  "morse_rc_sta_add_vht_sta_caps m caps = fold (add_stream m) [0..<4] caps"

definition morse_rc_sta_vht_caps_available :: "ieee80211_sta \<Rightarrow> bool" where
  "morse_rc_sta_vht_caps_available sta \<longleftrightarrow>
     vht_supported sta \<and> tx_mcs_map (vht_mcs sta) \<noteq> 0 \<and> rx_mcs_map (vht_mcs sta) \<noteq> 0"

definition sta_mcs :: "rc_config \<Rightarrow> ieee80211_sta \<Rightarrow> vht_mcs_info" where
  "sta_mcs cfg sta = (if morse_rc_sta_vht_caps_available sta then vht_mcs sta else band_vht_mcs cfg)"

definition zero_caps :: mmrc_sta_capabilities where
  "zero_caps = \<lparr>max_rates = 0, max_retries = 0, bandwidth = 0, spatial_streams = 0, rates = 0, guards = 0, sta_flags = 0, sgi_per_bw = 0\<rparr>"

definition sta_caps :: "rc_config \<Rightarrow> ieee80211_sta \<Rightarrow> mmrc_sta_capabilities" where
  "sta_caps cfg sta =
     (let caps = morse_rc_sta_add_vht_sta_caps (sta_mcs cfg sta) zero_caps;
          caps = caps\<lparr>bandwidth := bandwidth_loop (op_bw_mhz cfg) (bandwidth caps)\<rparr>;
          caps = morse_rc_sta_config_guard_per_bw (enable_sgi_rc cfg) sta caps;
          caps = caps\<lparr>max_rates := (if 0 < hw_max_rates cfg \<and> hw_max_rates cfg < 4 then hw_max_rates cfg else 4)\<rparr>
      in caps\<lparr>max_retries := (if 1 \<le> hw_max_rate_tries cfg \<and> hw_max_rate_tries cfg < 2 then hw_max_rate_tries cfg else 2)\<rparr>)"

text \<open>The table of a new station; \<open>None\<close> is what C leaves undefined. The memory for it is assumed to be there (the
  result of \<open>kzalloc\<close> is not looked at).\<close>

definition morse_rc_sta_add :: "rc_config \<Rightarrow> ieee80211_sta \<Rightarrow> int \<Rightarrow> mmrc_table option" where
  "morse_rc_sta_add cfg sta avg_rssi = mmrc_sta_init (sta_caps cfg sta) avg_rssi"

section \<open>The masks are well formed\<close>

lemma set_bit_less: "k < n \<Longrightarrow> w < 2 ^ n \<Longrightarrow> set_bit k w < (2 ^ n :: nat)"
proof -
  assume "k < n" "w < 2 ^ n"
  then have "take_bit n (set_bit k w) = set_bit k w"
    using bit_below [of w n] by (intro bit_eqI) (auto simp: bit_take_bit_iff bit_set_bit_iff)
  then show ?thesis by (simp add: take_bit_nat_eq_self_iff)
qed

lemma BIT_COUNT_two:
  assumes "bit w i" "bit w j" "i < j" "j < 16"
  shows "2 \<le> BIT_COUNT w"
proof -
  have "{i, j} \<subseteq> set (set_bits w)" using assms by (simp add: set_bits_mem)
  then have "card {i, j} \<le> card (set (set_bits w))" by (intro card_mono) simp_all
  also have "card (set (set_bits w)) \<le> BIT_COUNT w" by (simp add: BIT_COUNT_def card_length)
  finally show ?thesis using assms(3) by simp
qed

lemma bandwidth_loop_bits:
  "w < 16 \<Longrightarrow> bandwidth_loop n w < 16"
  "bit w j \<Longrightarrow> bit (bandwidth_loop n w) j"
  "0 < n \<Longrightarrow> bit (bandwidth_loop n w) 0"
proof (induction n w rule: bandwidth_loop.induct)
  case (1 n w)
  let ?b = "MORSE_RC_BW_TO_MMRC_BW n"
  have b: "?b < 4" by (simp add: MORSE_RC_BW_TO_MMRC_BW_def mmrc_enum)
  { case 1
    then show ?case using "1.IH"(1) set_bit_less [OF b, of w] by (subst bandwidth_loop.simps) simp
  next
    case 2
    then show ?case using "1.IH"(2) by (subst bandwidth_loop.simps) (simp add: bit_set_bit_iff)
  next
    case 3
    show ?case
    proof (cases "n = 1")
      case True
      then show ?thesis
        by (subst bandwidth_loop.simps, subst bandwidth_loop.simps) (simp add: MORSE_RC_BW_TO_MMRC_BW_def mmrc_enum bit_set_bit_iff)
    next
      case False
      with 3 show ?thesis using "1.IH"(3) by (subst bandwidth_loop.simps) simp
    qed }
qed

lemma bandwidth_loop_one: "bandwidth_loop 1 0 = 1"
  by (subst bandwidth_loop.simps, subst bandwidth_loop.simps) (simp add: MORSE_RC_BW_TO_MMRC_BW_def mmrc_enum set_bit_0)

lemma bandwidth_loop_two:
  assumes "2 \<le> n"
  shows "2 \<le> BIT_COUNT (bandwidth_loop n 0)"
proof -
  let ?b = "MORSE_RC_BW_TO_MMRC_BW n"
  have "0 < ?b" "?b < 16" using assms by (simp_all add: MORSE_RC_BW_TO_MMRC_BW_def mmrc_enum)
  moreover have "bit (bandwidth_loop n 0) ?b"
    using assms bandwidth_loop_bits(2) [of "2 ^ ?b" ?b "n div 2"] by (subst bandwidth_loop.simps) (simp add: bit_exp_iff)
  ultimately show ?thesis using bandwidth_loop_bits(3) [of n 0] assms BIT_COUNT_two by simp
qed

abbreviation stream_ok :: "vht_mcs_info \<Rightarrow> nat \<Rightarrow> bool" where
  "stream_ok m i \<equiv> stream_mcs m i \<noteq> 3"

lemma stream_mcs_le: "stream_mcs m i \<le> 3"
  by (auto simp: stream_mcs_def Let_def)

lemma add_stream_frame:
  "bandwidth (add_stream m i caps) = bandwidth caps" "guards (add_stream m i caps) = guards caps"
  "sgi_per_bw (add_stream m i caps) = sgi_per_bw caps"
  by (simp_all add: add_stream_def Let_def)

lemma add_stream_streams:
  "spatial_streams (add_stream m i caps) = (if stream_ok m i then set_bit i (spatial_streams caps) else spatial_streams caps)"
  by (simp add: add_stream_def Let_def)

lemma add_stream_rates:
  "\<not> stream_ok m i \<Longrightarrow> add_stream m i caps = caps"
  "bit (rates caps) MMRC_MCS10 \<or> stream_ok m i \<Longrightarrow> bit (rates (add_stream m i caps)) MMRC_MCS10"
  by (auto simp: add_stream_def Let_def mmrc_enum bit_set_bit_iff)

lemma add_stream_rates_less:
  assumes "rates caps < 2048"
  shows "rates (add_stream m i caps) < 2048"
proof -
  have "set_bit k w < 2048" if "k < 11" "w < 2048" for k w :: nat
    using set_bit_less [of k 11 w] that by simp
  then show ?thesis using assms by (simp add: add_stream_def Let_def mmrc_enum)
qed

lemma add_streams:
  "bandwidth (fold (add_stream m) is caps) = bandwidth caps"
  "rates caps < 2048 \<Longrightarrow> rates (fold (add_stream m) is caps) < 2048"
  "bit (rates caps) MMRC_MCS10 \<or> (\<exists>i \<in> set is. stream_ok m i) \<Longrightarrow> bit (rates (fold (add_stream m) is caps)) MMRC_MCS10"
  "\<forall>i \<in> set is. \<not> stream_ok m i \<Longrightarrow> fold (add_stream m) is caps = caps"
  "bit (spatial_streams (fold (add_stream m) is caps)) j \<longleftrightarrow> bit (spatial_streams caps) j \<or> j \<in> set is \<and> stream_ok m j"
  by (induction "is" arbitrary: caps)
    (auto simp: add_stream_frame add_stream_rates add_stream_rates_less add_stream_streams bit_set_bit_iff)

definition streams_of :: "vht_mcs_info \<Rightarrow> nat list" where
  "streams_of m = filter (stream_ok m) [0..<4]"

text \<open>A station of a channel without short guard.\<close>

definition sgi_1mhz :: "rc_config \<Rightarrow> ieee80211_sta \<Rightarrow> bool" where
  "sgi_1mhz cfg sta \<longleftrightarrow> enable_sgi_rc cfg \<and> ht_supported sta \<and> ht_cap_sgi_20 sta"

lemma set_sgi_simps:
  "guards caps = 1 \<or> guards caps = 3 \<Longrightarrow> guards (set_sgi bw caps) = 3"
  "bandwidth (set_sgi bw caps) = bandwidth caps" "rates (set_sgi bw caps) = rates caps"
  "spatial_streams (set_sgi bw caps) = spatial_streams caps"
proof -
  have "set_bit 1 1 = (3 :: nat)" "set_bit 1 3 = (3 :: nat)" by (simp_all add: set_bit_eq_or del: One_nat_def)
  then show "guards caps = 1 \<or> guards caps = 3 \<Longrightarrow> guards (set_sgi bw caps) = 3"
    by (auto simp: set_sgi_def MMRC_GUARD_SHORT_def simp del: One_nat_def)
qed (simp_all add: set_sgi_def)

lemma guard_config:
  "guards (morse_rc_sta_config_guard_per_bw sgi sta caps) = 1 \<or> guards (morse_rc_sta_config_guard_per_bw sgi sta caps) = 3"
  "bandwidth (morse_rc_sta_config_guard_per_bw sgi sta caps) = bandwidth caps"
  "rates (morse_rc_sta_config_guard_per_bw sgi sta caps) = rates caps"
  "spatial_streams (morse_rc_sta_config_guard_per_bw sgi sta caps) = spatial_streams caps"
  by (simp_all add: morse_rc_sta_config_guard_per_bw_def Let_def set_sgi_simps MMRC_GUARD_LONG_def)

lemma bit_one: "bit (1 :: nat) i \<longleftrightarrow> i = 0"
  by (cases i) (simp_all add: bit_0 bit_Suc)

lemma guard_config_1mhz:
  "bandwidth caps = 1 \<Longrightarrow> guards (morse_rc_sta_config_guard_per_bw sgi sta caps) =
    (if sgi \<and> ht_supported sta \<and> ht_cap_sgi_20 sta then 3 else 1)"
  using bit_one by (simp add: morse_rc_sta_config_guard_per_bw_def Let_def set_sgi_simps mmrc_enum)

lemma sta_caps_fields:
  fixes cfg sta
  defines "c \<equiv> sta_caps cfg sta" and "m \<equiv> sta_mcs cfg sta"
  shows "bandwidth c = bandwidth_loop (op_bw_mhz cfg) 0" "guards c = 1 \<or> guards c = 3"
    "op_bw_mhz cfg = 1 \<Longrightarrow> guards c = (if sgi_1mhz cfg sta then 3 else 1)"
    "rates c = rates (fold (add_stream m) [0..<4] zero_caps)"
    "spatial_streams c = spatial_streams (fold (add_stream m) [0..<4] zero_caps)"
    "0 < max_rates c" "max_rates c \<le> 4"
proof -
  let ?s = "morse_rc_sta_add_vht_sta_caps m zero_caps"
  define g where "g = morse_rc_sta_config_guard_per_bw (enable_sgi_rc cfg) sta
     (?s\<lparr>bandwidth := bandwidth_loop (op_bw_mhz cfg) (bandwidth ?s)\<rparr>)"
  have c: "c = g\<lparr>max_rates := (if 0 < hw_max_rates cfg \<and> hw_max_rates cfg < 4 then hw_max_rates cfg else 4),
      max_retries := (if 1 \<le> hw_max_rate_tries cfg \<and> hw_max_rate_tries cfg < 2 then hw_max_rate_tries cfg else 2)\<rparr>"
    by (simp add: c_def m_def sta_caps_def Let_def g_def)
  have b: "bandwidth ?s = 0" by (simp add: morse_rc_sta_add_vht_sta_caps_def add_streams zero_caps_def)
  show "bandwidth c = bandwidth_loop (op_bw_mhz cfg) 0" "guards c = 1 \<or> guards c = 3"
    "rates c = rates (fold (add_stream m) [0..<4] zero_caps)"
    "spatial_streams c = spatial_streams (fold (add_stream m) [0..<4] zero_caps)"
    "0 < max_rates c" "max_rates c \<le> 4"
    using guard_config b by (simp_all add: c g_def morse_rc_sta_add_vht_sta_caps_def)
  show "guards c = (if sgi_1mhz cfg sta then 3 else 1)" if "op_bw_mhz cfg = 1"
    using guard_config_1mhz that bandwidth_loop_one by (simp add: c g_def b sgi_1mhz_def)
qed

lemma bits_below_eq: "(w :: nat) < 16 \<longleftrightarrow> (\<forall>j. bit w j \<longrightarrow> j < 4)"
proof
  show "\<forall>j. bit w j \<longrightarrow> j < 4" if "w < 16" using bit_below [of w 4] that by simp
  show "w < 16" if "\<forall>j. bit w j \<longrightarrow> j < 4"
  proof -
    have "take_bit 4 w = w" using that by (intro bit_eqI) (auto simp: bit_take_bit_iff)
    then show ?thesis by (simp add: take_bit_nat_eq_self_iff)
  qed
qed

lemma sta_caps_streams:
  fixes cfg sta
  defines "c \<equiv> sta_caps cfg sta" and "m \<equiv> sta_mcs cfg sta"
  shows "BIT_COUNT (spatial_streams c) = length (streams_of m)" "spatial_streams c < 16"
    "0 < spatial_streams c \<longleftrightarrow> streams_of m \<noteq> []" "rates c < 2048"
    "streams_of m \<noteq> [] \<Longrightarrow> bit (rates c) MMRC_MCS10" "streams_of m = [] \<Longrightarrow> rates c = 0"
proof -
  note f = sta_caps_fields(4,5) [of cfg sta, folded c_def m_def]
  have s: "bit (spatial_streams c) j \<longleftrightarrow> j < 4 \<and> stream_ok m j" for j
    using add_streams(5) [of m "[0..<4]" zero_caps j] f(2) by (auto simp: zero_caps_def)
  have "set_bits (spatial_streams c) = filter (\<lambda>j. j < 4 \<and> stream_ok m j) ([0..<4] @ [4..<16])"
    unfolding set_bits_def by (simp add: s upt_rec)
  also have "\<dots> = streams_of m" unfolding streams_of_def filter_append
    by (auto simp: filter_empty_conv intro!: filter_cong)
  finally have sb: "set_bits (spatial_streams c) = streams_of m" .
  then show "BIT_COUNT (spatial_streams c) = length (streams_of m)" by (simp add: BIT_COUNT_def)
  show lt: "spatial_streams c < 16" using s by (simp add: bits_below_eq)
  show "0 < spatial_streams c \<longleftrightarrow> streams_of m \<noteq> []"
  proof
    show "streams_of m \<noteq> []" if "0 < spatial_streams c"
      using BIT_COUNT_pos_iff [of "spatial_streams c"] that lt sb by (auto simp: BIT_COUNT_def)
    show "0 < spatial_streams c" if "streams_of m \<noteq> []"
      using that sb by (cases "spatial_streams c = 0") (auto simp: set_bits_def)
  qed
  show "rates c < 2048" using add_streams(2) [of zero_caps m "[0..<4]"] f(1) by (simp add: zero_caps_def)
  show "bit (rates c) MMRC_MCS10" if "streams_of m \<noteq> []"
    using that add_streams(3) [of zero_caps "[0..<4]" m] f(1) by (auto simp: streams_of_def filter_empty_conv)
  show "rates c = 0" if "streams_of m = []"
    using that add_streams(4) [of "[0..<4]" m zero_caps] f(1) by (auto simp: streams_of_def filter_empty_conv zero_caps_def)
qed

text \<open>The one kind of station whose table has a row without a rate: a 1 MHz channel, one stream, no short guard.\<close>

definition one_rate_class :: "rc_config \<Rightarrow> ieee80211_sta \<Rightarrow> bool" where
  "one_rate_class cfg sta \<longleftrightarrow> op_bw_mhz cfg = 1 \<and> length (streams_of (sta_mcs cfg sta)) = 1 \<and> \<not> sgi_1mhz cfg sta"

lemma sta_caps_wf:
  assumes "0 < op_bw_mhz cfg" "streams_of (sta_mcs cfg sta) \<noteq> []"
  shows "wf_masks (sta_caps cfg sta)" "wf_caps (sta_caps cfg sta) \<longleftrightarrow> \<not> one_rate_class cfg sta"
proof -
  let ?c = "sta_caps cfg sta"
  note f = sta_caps_fields [of cfg sta] and s = sta_caps_streams [of cfg sta]
  have bw: "0 < bandwidth ?c" "bandwidth ?c < 16"
    using f(1) bandwidth_loop_bits(1) [of 0 "op_bw_mhz cfg"] bandwidth_loop_bits(3) [OF assms(1), of 0]
    by (auto intro: gr0I)
  have r: "0 < rates ?c" using s(5) [OF assms(2)] by (auto intro: gr0I)
  show m: "wf_masks ?c" unfolding wf_masks_def using bw s assms(2) r f(2) by auto
  note c = wf_caps_counts [OF m]
  have g: "BIT_COUNT 1 = 1" "BIT_COUNT 3 = 2" using caps_example_bits by simp_all
  show "wf_caps ?c \<longleftrightarrow> \<not> one_rate_class cfg sta"
  proof (cases "op_bw_mhz cfg = 1")
    case True
    have n: "BIT_COUNT (bandwidth ?c) = 1" unfolding f(1) True bandwidth_loop_one by (rule g)
    show ?thesis
      using s(5) [OF assms(2)] m f(3) [OF True] c(3) True g unfolding wf_caps_def n s(1) one_rate_class_def
      by (cases "length (streams_of (sta_mcs cfg sta))") (auto split: if_splits)
  next
    case False
    then have "2 \<le> BIT_COUNT (bandwidth ?c)" using bandwidth_loop_two assms(1) f(1) by simp
    moreover have "1 \<le> BIT_COUNT (guards ?c) * BIT_COUNT (spatial_streams ?c)" using c by simp
    ultimately have "2 * 1 \<le> BIT_COUNT (bandwidth ?c) * (BIT_COUNT (guards ?c) * BIT_COUNT (spatial_streams ?c))"
      by (rule mult_le_mono)
    then show ?thesis using m False by (simp add: wf_caps_def one_rate_class_def mult.assoc)
  qed
qed

section \<open>Properties\<close>

text \<open>C3: Whatever station is added on a channel of whatever width (\<open>0 < op_bw_mhz\<close>), exactly one of three things
  happens. If no stream is supported in both directions, initialising its table divides by zero. If the channel is
  1 MHz wide, one stream is supported and the short guard is not, the table has a row without a rate, and the first
  periodic update shifts past the word when it decodes it. In all other cases every sequence of calls the driver makes
  returns (no index leaves a table, no division by zero, no endless search) and keeps the invariant of
  the table: the chosen rates are rows of the table, success probabilities and evidence stay percentages. The calls are
  those of \<open>mmrc_call_ok\<close>: packets are not empty, feedback is for at least one attempt, random numbers are below their
  bound, no 16-bit packet counter overflows between two updates and there are fewer than \<open>2 ^ 32 - 1\<close> updates.\<close>

theorem rc_station_safe:
  assumes "0 < op_bw_mhz cfg"
  shows "if streams_of (sta_mcs cfg sta) = [] then morse_rc_sta_add cfg sta rssi = None
    else \<exists>tb. morse_rc_sta_add cfg sta rssi = Some tb \<and>
      (if one_rate_class cfg sta then mmrc_update tb = None
       else \<forall>calls. all_ok mmrc_step mmrc_call_ok calls tb \<longrightarrow> (\<exists>tb'. ofold mmrc_step calls tb = Some tb' \<and> wf_table tb'))"
proof (cases "streams_of (sta_mcs cfg sta) = []")
  case True
  note z = sta_caps_streams(6) [OF True]
  have "BIT_COUNT 0 = 0" by (simp add: BIT_COUNT_def set_bits_def)
  with z have "get_rate_row (sta_caps cfg sta) 0 = None" by (simp add: get_rate_row_def Let_def div_opt_def)
  then show ?thesis using True z by (simp add: morse_rc_sta_add_def mmrc_sta_init_def find_baseline_index_def Let_def)
next
  case False
  note w = sta_caps_wf [OF assms False]
  obtain tb where tb: "mmrc_sta_init (sta_caps cfg sta) rssi = Some tb" "tb_caps tb = sta_caps cfg sta"
    using sta_init_defined [OF w(1) sta_caps_streams(5) [OF False]] by blast
  have "\<forall>calls. all_ok mmrc_step mmrc_call_ok calls tb \<longrightarrow> (\<exists>tb'. ofold mmrc_step calls tb = Some tb' \<and> wf_table tb')"
    if "\<not> one_rate_class cfg sta"
    using mmrc_runs_ok [of "sta_caps cfg sta" rssi] that w(2) sta_caps_fields(6) [of cfg sta] tb(1) by auto
  moreover have "mmrc_update tb = None" if "one_rate_class cfg sta" using mmrc_update_undefined [OF w(1)] w(2) that tb(2) by simp
  ultimately show ?thesis using False tb(1) by (simp add: morse_rc_sta_add_def)
qed

definition a_sta :: ieee80211_sta where
  "a_sta = \<lparr>ht_supported = True, ht_cap_sgi_20 = False, ht_cap_sgi_40 = True, vht_supported = True,
     vht_cap_short_gi_80 = True, vht_cap_short_gi_160 = False, vht_mcs = \<lparr>rx_mcs_map = 65534, tx_mcs_map = 65533\<rparr>\<rparr>"

definition a_config :: "nat \<Rightarrow> rc_config" where
  "a_config bw = \<lparr>op_bw_mhz = bw, enable_sgi_rc = True, hw_max_rates = 4, hw_max_rate_tries = 1,
     band_vht_mcs = \<lparr>rx_mcs_map = 0, tx_mcs_map = 0\<rparr>\<rparr>"

lemma a_streams: "streams_of (sta_mcs (a_config bw) a_sta) = [0]"
  by (simp add: streams_of_def sta_mcs_def morse_rc_sta_vht_caps_available_def a_sta_def stream_mcs_def drop_bit_eq_div upt_rec)

lemma a_config_bw: "op_bw_mhz (a_config bw) = bw"
  by (simp add: a_config_def)

theorem rc_station_safe_witness:
  "\<exists>tb tb'. morse_rc_sta_add (a_config 4) a_sta (-60) = Some tb \<and>
    ofold mmrc_step [Set_Fixed unused_rate, Get_Rates rnd0 1500] tb = Some tb' \<and> wf_table tb'"
proof -
  let ?calls = "[Set_Fixed unused_rate, Get_Rates rnd0 1500]"
  have f: "streams_of (sta_mcs (a_config 4) a_sta) \<noteq> []" "\<not> one_rate_class (a_config 4) a_sta" "0 < op_bw_mhz (a_config 4)"
    by (simp_all add: a_streams one_rate_class_def a_config_bw)
  obtain tb where tb: "morse_rc_sta_add (a_config 4) a_sta (-60) = Some tb"
    and all: "\<forall>calls. all_ok mmrc_step mmrc_call_ok calls tb \<longrightarrow> (\<exists>tb'. ofold mmrc_step calls tb = Some tb' \<and> wf_table tb')"
    using rc_station_safe [OF f(3), of a_sta "-60"] unfolding if_not_P [OF f(1)] if_not_P [OF f(2)] by blast
  have "all_ok mmrc_step mmrc_call_ok ?calls tb" by (auto simp: rnd0_below split: option.splits)
  then obtain tb' where "ofold mmrc_step ?calls tb = Some tb'" "wf_table tb'" using all by blast
  then show ?thesis using tb by blast
qed

end
