(* ===== verification/Tim.thy ===== *)
theory Tim
  imports Prelude
begin

text \<open>
  \<^verbatim>\<open>dot11ah/tim.c\<close>: the traffic indication map (which sleeping stations have buffered frames) in its
  two formats. \<open>morse_dot11_tim_to_s1g\<close> encodes the 802.11n bitmap of mac80211 as the blocks of
  the S1G element, in four modes; \<open>morse_dot11_s1g_to_tim\<close> decodes the blocks of a received
  element. Octets are \<open>u8\<close> words, AIDs and octet numbers are natural numbers truncated where the
  code stores them. Reads of the received element are not bounded by its length in the code:
  they are partial here.
\<close>

section \<open>The encoder\<close>

text \<open>
  \<open>struct tim_to_s1g_parse_state\<close>. \<open>enc\<close> is the used prefix of \<open>encoded_block_info\<close> (the rest is
  zero), so \<open>index_s1g\<close> is its length; \<open>map_11n\<close> is the rest of the 802.11n map, so \<open>length_11n\<close>
  is its length.
\<close>

record parse_state =
  enc :: "u8 list"
  map_11n :: "u8 list"
  octet_offset_11n :: nat

definition S1G_TIM_MAX_BLOCK_SIZE :: nat where
  "S1G_TIM_MAX_BLOCK_SIZE = 256"

definition s1g_tim_append_octet :: "parse_state \<Rightarrow> u8 \<Rightarrow> parse_state" where
  "s1g_tim_append_octet st b =
     (if length (enc st) < S1G_TIM_MAX_BLOCK_SIZE then st\<lparr>enc := enc st @ [b]\<rparr> else st)"

text \<open>The reserved octet, by its position; \<open>None\<close> is the NULL pointer.\<close>

definition s1g_tim_reserve_octet :: "parse_state \<Rightarrow> parse_state \<times> nat option" where
  "s1g_tim_reserve_octet st =
     (if length (enc st) < S1G_TIM_MAX_BLOCK_SIZE
      then (st\<lparr>enc := enc st @ [0]\<rparr>, Some (length (enc st))) else (st, None))"

primrec trim_front :: "nat \<Rightarrow> u8 list \<Rightarrow> nat \<times> u8 list" where
  "trim_front off [] = (off, [])"
| "trim_front off (b # bs) = (if b = 0 then trim_front (trunc8 (off + 1)) bs else (off, b # bs))"

definition consume_11n_tim_octets :: "nat \<Rightarrow> parse_state \<Rightarrow> parse_state" where
  "consume_11n_tim_octets n st =
     (let (off, rest) = trim_front (trunc8 (octet_offset_11n st + n)) (drop n (map_11n st))
      in st\<lparr>map_11n := rest, octet_offset_11n := off\<rparr>)"

definition S1G_TIM_AID_TO_BLOCK_OFFSET :: "nat \<Rightarrow> nat" where
  "S1G_TIM_AID_TO_BLOCK_OFFSET aid = aid div 64 mod 32"

text \<open>The first octet of a block: encoding mode, inverse flag and block offset.\<close>

definition block_header :: "nat \<Rightarrow> bool \<Rightarrow> nat \<Rightarrow> u8" where
  "block_header mode inv_bmap block_offset =
     word_of_nat mode OR push_bit 2 (of_bool inv_bmap) OR push_bit 3 (word_of_nat block_offset)"

definition mark_aid :: "bool \<Rightarrow> nat \<Rightarrow> nat \<Rightarrow> u8 list \<Rightarrow> u8 list" where
  "mark_aid inv_bmap pos_m pos_q subblocks =
     subblocks[pos_m := (if inv_bmap then subblocks ! pos_m AND NOT (push_bit pos_q 1)
                         else subblocks ! pos_m OR push_bit pos_q 1)]"

text \<open>The two nested loops over \<open>n\<close> octets of the map and their bits; \<open>pos\<close> is the position of an AID's subblock.\<close>

definition fill_subblocks :: "(nat \<Rightarrow> nat) \<Rightarrow> bool \<Rightarrow> nat \<Rightarrow> nat \<Rightarrow> u8 list \<Rightarrow> u8 list \<Rightarrow> u8 list" where
  "fill_subblocks pos inv_bmap aid_base n mp subblocks =
     foldl (\<lambda>sb i. foldl (\<lambda>sb j. if bit (mp ! i) j
                                 then (let aid = trunc16 (aid_base + i * 8 + j)
                                       in mark_aid inv_bmap (pos aid) (aid mod 8) sb)
                                 else sb) sb [0..<8])
       subblocks [0..<n]"

definition append_subblock :: "nat \<Rightarrow> u8 list \<Rightarrow> parse_state \<Rightarrow> nat \<Rightarrow> parse_state" where
  "append_subblock bitmap_pos subblocks st i =
     (if subblocks ! i \<noteq> 0 then
        (let st = s1g_tim_append_octet st (subblocks ! i)
         in st\<lparr>enc := (enc st)[bitmap_pos := enc st ! bitmap_pos OR push_bit i 1]\<rparr>)
      else st)"

text \<open>The number of subblocks kept by the clamp: the cast of a difference that can be negative to \<open>u8\<close>.\<close>

definition clamp_subblocks :: "nat \<Rightarrow> nat \<Rightarrow> nat" where
  "clamp_subblocks max_aid block_offset =
     min (nat (((int max_aid - int (block_offset * 64)) div 8 + 1) mod 256)) 8"

text \<open>The end of the block mode: the block bitmap and the subblocks that are not empty.\<close>

definition emit_subblocks :: "u8 list \<Rightarrow> nat \<Rightarrow> parse_state \<Rightarrow> parse_state" where
  "emit_subblocks subblocks num st =
     (case s1g_tim_reserve_octet st of
        (st, None) \<Rightarrow> st
      | (st, Some p) \<Rightarrow> foldl (append_subblock p subblocks) st [0..<num])"

definition tim_to_s1g_parse_block_mode :: "bool \<Rightarrow> nat \<Rightarrow> parse_state \<Rightarrow> parse_state" where
  "tim_to_s1g_parse_block_mode inv_bmap max_aid st =
     (let aid_base = octet_offset_11n st * 8;
          boundary = 8 - octet_offset_11n st mod 8;
          subblocks = replicate 8 (if inv_bmap then 0xFF else 0);
          block_offset = S1G_TIM_AID_TO_BLOCK_OFFSET aid_base;
          mp = map_11n st;
          n = min (length mp) boundary;
          st = s1g_tim_append_octet st (block_header 0 inv_bmap block_offset);
          subblocks = fill_subblocks (\<lambda>aid. aid div 8 mod 8) inv_bmap aid_base n mp subblocks;
          st = consume_11n_tim_octets n st
      in emit_subblocks subblocks (clamp_subblocks max_aid block_offset) st)"

definition tim_to_s1g_parse_single_mode :: "bool \<Rightarrow> parse_state \<Rightarrow> parse_state" where
  "tim_to_s1g_parse_single_mode inv_bmap st =
     (let aid_base = octet_offset_11n st * 8;
          bitmap = map_11n st ! 0;
          st = consume_11n_tim_octets 1 st
      in if inv_bmap then st
         else
           (let block_offset = S1G_TIM_AID_TO_BLOCK_OFFSET aid_base
            in foldl (\<lambda>st r. if bit bitmap r then
                 s1g_tim_append_octet
                   (s1g_tim_append_octet st (block_header 1 inv_bmap block_offset))
                   (word_of_nat ((aid_base OR r) mod 64))
               else st) st [0..<8]))"

text \<open>The largest used subblock, tracked inside the loops of the OLB mode.\<close>

definition olb_stop :: "nat \<Rightarrow> nat \<Rightarrow> u8 list \<Rightarrow> nat" where
  "olb_stop aid_base n mp =
     foldl (\<lambda>stop i. foldl (\<lambda>stop j. if bit (mp ! i) j
                                     then (let pos_m = trunc8 (trunc16 (aid_base + i * 8 + j) div 8)
                                           in if stop \<le> pos_m then trunc8 (pos_m + 1) else stop)
                                     else stop) stop [0..<8])
       0 [0..<n]"

definition count_front_zeros :: "u8 list \<Rightarrow> nat \<Rightarrow> nat \<Rightarrow> nat" where
  "count_front_zeros sb start stop = length (takeWhile (\<lambda>i. sb ! i = 0) [start..<stop])"

definition trim_tail :: "u8 list \<Rightarrow> nat \<Rightarrow> nat \<Rightarrow> nat" where
  "trim_tail sb start stop = stop - length (takeWhile (\<lambda>i. sb ! i = 0) (rev [start..<stop]))"

text \<open>The range of subblocks to send; with an inverse bitmap it is computed from the largest AID and trimmed at both ends.\<close>

definition olb_range :: "bool \<Rightarrow> nat \<Rightarrow> u8 list \<Rightarrow> nat \<Rightarrow> nat \<Rightarrow> nat \<Rightarrow> nat \<times> nat \<times> nat" where
  "olb_range inv_bmap max_aid subblocks start stop block_offset =
     (if inv_bmap then
        (let stop = trunc8 (max_aid div 8 + 1);
             blocks = count_front_zeros subblocks start stop div 8;
             block_offset = trunc8 (block_offset + blocks);
             start = trunc8 (start + 8 * blocks)
         in (start, trim_tail subblocks start stop, block_offset))
      else (start, stop, block_offset))"

definition emit_olb :: "bool \<Rightarrow> u8 list \<Rightarrow> nat \<times> nat \<times> nat \<Rightarrow> parse_state \<Rightarrow> parse_state" where
  "emit_olb inv_bmap subblocks r st =
     (case r of (start, stop, block_offset) \<Rightarrow>
        let num = nat ((int stop - int start) mod 256)
        in if num \<noteq> 0 then
             (let st = s1g_tim_append_octet st (block_header 2 inv_bmap block_offset);
                  st = s1g_tim_append_octet st (word_of_nat num)
              in foldl (\<lambda>st i. s1g_tim_append_octet st (subblocks ! i)) st [start..<stop])
           else st)"

definition tim_to_s1g_parse_olb_mode :: "bool \<Rightarrow> nat \<Rightarrow> parse_state \<Rightarrow> parse_state" where
  "tim_to_s1g_parse_olb_mode inv_bmap max_aid st =
     (let aid_base = octet_offset_11n st * 8;
          subblocks = replicate S1G_TIM_MAX_BLOCK_SIZE (if inv_bmap then 0xFF else 0);
          block_offset = S1G_TIM_AID_TO_BLOCK_OFFSET aid_base;
          start = trunc8 (block_offset * 8);
          mp = map_11n st;
          n = min (length mp) S1G_TIM_MAX_BLOCK_SIZE;
          subblocks = fill_subblocks (\<lambda>aid. trunc8 (aid div 8)) inv_bmap aid_base n mp subblocks;
          stop = (if inv_bmap then 0 else olb_stop aid_base n mp);
          st = consume_11n_tim_octets n st
      in emit_olb inv_bmap subblocks (olb_range inv_bmap max_aid subblocks start stop block_offset) st)"

text \<open>
  The differences of the ADE mode as the code computes them: the difference of an AID to the
  previous \<open>diff_aid_list\<close> entry, which is itself a difference from the third AID on. Entries are
  \<open>u16\<close> and are appended as octets.
\<close>

definition ade_differences :: "nat \<Rightarrow> u8 \<Rightarrow> u16 list" where
  "ade_differences aid_base octet =
     foldl (\<lambda>ds r. if bit octet r then
         (let d = word_of_nat ((aid_base OR r) mod 64)
          in if ds = [] then [d] else ds @ [d - last ds])
       else ds) [] [0..<8]"

definition tim_to_s1g_parse_ade_mode :: "bool \<Rightarrow> parse_state \<Rightarrow> parse_state" where
  "tim_to_s1g_parse_ade_mode inv_bmap st =
     (let aid_base = octet_offset_11n st * 8;
          block_offset = S1G_TIM_AID_TO_BLOCK_OFFSET aid_base;
          octet = map_11n st ! 0;
          st = s1g_tim_append_octet st (block_header 3 False block_offset);
          ds = ade_differences aid_base octet;
          st = consume_11n_tim_octets 1 st
      in if ds \<noteq> [] then
           foldl (\<lambda>st d. s1g_tim_append_octet st (ucast d))
             (s1g_tim_append_octet st (0x07 OR push_bit 3 (word_of_nat (length ds)))) ds
         else st)"

definition encode_step :: "nat \<Rightarrow> bool \<Rightarrow> nat \<Rightarrow> parse_state \<Rightarrow> parse_state option" where
  "encode_step mode inv_bmap max_aid st =
     (if mode = 0 then Some (tim_to_s1g_parse_block_mode inv_bmap max_aid st)
      else if mode = 1 then Some (tim_to_s1g_parse_single_mode inv_bmap st)
      else if mode = 2 then Some (tim_to_s1g_parse_olb_mode inv_bmap max_aid st)
      else if mode = 3 then Some (tim_to_s1g_parse_ade_mode inv_bmap st)
      else None)"

section \<open>Every step of the encoder consumes the map\<close>

lemma trim_front_length: "length (snd (trim_front off bs)) \<le> length bs"
  by (induction bs arbitrary: off) (auto intro: le_SucI)

lemma consume_length:
  "length (map_11n (consume_11n_tim_octets n st)) \<le> length (map_11n st) - n"
  using trim_front_length [of "trunc8 (octet_offset_11n st + n)" "drop n (map_11n st)"]
  by (simp add: consume_11n_tim_octets_def case_prod_beta Let_def)

lemma append_octet_map [simp, frame]:
  "map_11n (s1g_tim_append_octet st b) = map_11n st"
  "octet_offset_11n (s1g_tim_append_octet st b) = octet_offset_11n st"
  by (simp_all add: s1g_tim_append_octet_def)

lemma foldl_frame: "(\<And>s x. f (g s x) = f s) \<Longrightarrow> f (foldl g s xs) = f s"
  by (induction xs arbitrary: s) auto

lemma append_subblock_map [simp, frame]:
  "map_11n (append_subblock p sb st i) = map_11n st"
  "octet_offset_11n (append_subblock p sb st i) = octet_offset_11n st"
  by (simp_all add: append_subblock_def Let_def)

lemma emit_subblocks_map [simp, frame]:
  "map_11n (emit_subblocks sb num st) = map_11n st"
  "octet_offset_11n (emit_subblocks sb num st) = octet_offset_11n st"
  by (simp_all add: emit_subblocks_def s1g_tim_reserve_octet_def foldl_frame [where f = map_11n]
      foldl_frame [where f = octet_offset_11n])

lemma emit_olb_map [simp, frame]:
  "map_11n (emit_olb v sb r st) = map_11n st" "octet_offset_11n (emit_olb v sb r st) = octet_offset_11n st"
  by (simp_all add: emit_olb_def case_prod_beta Let_def foldl_frame [where f = map_11n]
      foldl_frame [where f = octet_offset_11n])

lemma consume_append [simp, frame]:
  "map_11n (consume_11n_tim_octets n (s1g_tim_append_octet st b)) = map_11n (consume_11n_tim_octets n st)"
  "octet_offset_11n (consume_11n_tim_octets n (s1g_tim_append_octet st b)) = octet_offset_11n (consume_11n_tim_octets n st)"
  by (simp_all add: consume_11n_tim_octets_def case_prod_beta Let_def)

lemma enc_consume [simp, frame]: "enc (consume_11n_tim_octets n st) = enc st"
  by (simp add: consume_11n_tim_octets_def case_prod_beta Let_def)

lemma block_mode_map:
  "map_11n (tim_to_s1g_parse_block_mode inv_bmap max_aid st) =
    map_11n (consume_11n_tim_octets (min (length (map_11n st)) (8 - octet_offset_11n st mod 8)) st)"
  unfolding tim_to_s1g_parse_block_mode_def Let_def
  by simp

lemma single_mode_map:
  "map_11n (tim_to_s1g_parse_single_mode inv_bmap st) = map_11n (consume_11n_tim_octets 1 st)"
  unfolding tim_to_s1g_parse_single_mode_def Let_def
  by (simp add: foldl_frame [where f = map_11n])

lemma olb_mode_map:
  "map_11n (tim_to_s1g_parse_olb_mode inv_bmap max_aid st) =
    map_11n (consume_11n_tim_octets (min (length (map_11n st)) S1G_TIM_MAX_BLOCK_SIZE) st)"
  unfolding tim_to_s1g_parse_olb_mode_def Let_def
  by simp

lemma ade_mode_map:
  "map_11n (tim_to_s1g_parse_ade_mode inv_bmap st) = map_11n (consume_11n_tim_octets 1 st)"
  unfolding tim_to_s1g_parse_ade_mode_def Let_def
  by (simp add: foldl_frame [where f = map_11n])

lemma encode_step_shorter:
  assumes "encode_step mode inv_bmap max_aid st = Some st'" "map_11n st \<noteq> []"
  shows "length (map_11n st') < length (map_11n st)"
proof -
  have "length (map_11n (consume_11n_tim_octets n st)) < length (map_11n st)" if "0 < n" for n
    using consume_length [of n st] that assms(2) by (cases "map_11n st") auto
  moreover have "0 < 8 - octet_offset_11n st mod 8" using mod_less_divisor [of 8 "octet_offset_11n st"] by simp
  ultimately show ?thesis
    using assms
    by (auto simp: encode_step_def block_mode_map single_mode_map olb_mode_map ade_mode_map
        S1G_TIM_MAX_BLOCK_SIZE_def split: if_splits)
qed

function encode_loop :: "nat \<Rightarrow> bool \<Rightarrow> nat \<Rightarrow> parse_state \<Rightarrow> parse_state option" where
  "encode_loop mode inv_bmap max_aid st =
     (if map_11n st \<noteq> [] \<and> length (enc st) < S1G_TIM_MAX_BLOCK_SIZE then
        (case encode_step mode inv_bmap max_aid st of
           None \<Rightarrow> None
         | Some st' \<Rightarrow> encode_loop mode inv_bmap max_aid st')
      else Some st)"
  by pat_completeness auto
termination
  by (relation "measure (\<lambda>(mode, inv_bmap, max_aid, st). length (map_11n st))") (auto dest: encode_step_shorter)

declare encode_loop.simps [simp del]

text \<open>\<open>struct ieee80211_tim_ie\<close> (the list is the storage behind \<open>virtual_map\<close>) and \<open>struct dot11ah_s1g_tim_ie\<close>.\<close>

record tim_ie =
  dtim_count :: u8
  dtim_period :: u8
  bitmap_ctrl :: u8
  virtual_map :: "u8 list"

record s1g_tim_ie =
  s1g_dtim_count :: u8
  s1g_dtim_period :: u8
  s1g_bitmap_control :: u8
  encoded_block_info :: "u8 list"

definition tim_offset :: "tim_ie \<Rightarrow> nat" where
  "tim_offset tim = unat (bitmap_ctrl tim AND 0xFE)"

text \<open>
  The result is the element and its length: two octets, and the bitmap control with the blocks
  when there is something to send. An unknown mode ends the loop with the length of an empty element.
\<close>

definition tim_to_s1g :: "tim_ie \<Rightarrow> nat \<Rightarrow> nat \<Rightarrow> bool \<Rightarrow> nat \<Rightarrow> u8 \<Rightarrow> u8 \<Rightarrow> s1g_tim_ie \<times> nat" where
  "tim_to_s1g tim map_length mode inv_bmap max_aid page_slice_no page_index =
     (let control = bitmap_ctrl tim AND 1;
          st = \<lparr>enc = [], map_11n = take map_length (virtual_map tim), octet_offset_11n = tim_offset tim\<rparr>;
          st = consume_11n_tim_octets 0 st
      in case encode_loop mode inv_bmap max_aid st of
           None \<Rightarrow> (\<lparr>s1g_dtim_count = dtim_count tim, s1g_dtim_period = dtim_period tim,
                     s1g_bitmap_control = control, encoded_block_info = []\<rparr>, 2)
         | Some st \<Rightarrow>
             (if control \<noteq> 0 \<or> 0 < length (enc st) then
                (\<lparr>s1g_dtim_count = dtim_count tim, s1g_dtim_period = dtim_period tim,
                  s1g_bitmap_control = control OR push_bit 1 page_slice_no OR push_bit 6 page_index,
                  encoded_block_info = enc st\<rparr>, 2 + length (enc st) + 1)
              else
                (\<lparr>s1g_dtim_count = dtim_count tim, s1g_dtim_period = dtim_period tim,
                  s1g_bitmap_control = control, encoded_block_info = enc st\<rparr>, 2)))"

text \<open>
  \<open>morse_dot11ah_insert_s1g_tim\<close>: \<open>cfg\<close> is the module's \<open>enc_mode\<close> setting (mode and inverse
  flag), \<open>ie_len\<close> the length of the 802.11n element. No element is inserted for an IBSS.
\<close>

definition insert_s1g_tim :: "bool \<Rightarrow> nat \<Rightarrow> tim_ie \<Rightarrow> nat \<Rightarrow> nat \<Rightarrow> u8 \<Rightarrow> u8 \<Rightarrow> (s1g_tim_ie \<times> nat) option" where
  "insert_s1g_tim adhoc cfg tim ie_len largest_aid page_slice_no page_index =
     (if adhoc then None
      else Some (tim_to_s1g tim (if ie_len \<le> 2 then 0 else ie_len - 3) (cfg mod 4) (bit cfg 2)
             largest_aid page_slice_no page_index))"

section \<open>The decoder\<close>

text \<open>The returned number is the octet stored to, or negative. \<open>None\<close>: a store outside \<open>virtual_map\<close>.\<close>

definition store_aid_into_tim :: "tim_ie \<Rightarrow> nat \<Rightarrow> (tim_ie \<times> int) option" where
  "store_aid_into_tim tim aid =
     (if 2007 < aid then Some (tim, - EINVAL)
      else do {
        let octet = trunc8 (aid div 8);
        b0 \<leftarrow> nth_opt (virtual_map tim) 0;
        b1 \<leftarrow> nth_opt (virtual_map tim) 1;
        let fresh = (b0 = 0 \<and> b1 = 0);
        let off = (if fresh then octet - octet mod 2 else tim_offset tim);
        let tim = (if fresh then tim\<lparr>bitmap_ctrl := bitmap_ctrl tim OR word_of_nat off\<rparr> else tim);
        if \<not> fresh \<and> octet < off then Some (tim, - EINVAL)
        else if 251 \<le> octet - off then Some (tim, - EINVAL)
        else do {
          mp \<leftarrow> upd_opt (virtual_map tim) (octet - off) (\<lambda>b. b OR push_bit (aid mod 8) 1);
          Some (tim\<lparr>virtual_map := mp\<rparr>, int (octet - off))
        }
      })"

text \<open>
  The state of a decoding function: the map, the largest octet so far (\<open>tim_len\<close>), the read index
  and whether it has already returned \<open>-1\<close>.
\<close>

record decode_state =
  d_tim :: tim_ie
  d_len :: nat
  d_index :: nat
  d_failed :: bool

text \<open>The body of the loops over the eight bits of a subblock.\<close>

definition store_bit :: "(nat \<Rightarrow> nat) \<Rightarrow> u8 \<Rightarrow> nat \<Rightarrow> decode_state \<Rightarrow> decode_state option" where
  "store_bit aid subblock q d =
     (if d_failed d \<or> \<not> bit subblock q then Some d
      else do {
        (tim, octet) \<leftarrow> store_aid_into_tim (d_tim d) (aid q);
        Some (if int (d_len d) < octet then d\<lparr>d_tim := tim, d_len := nat octet\<rparr>
              else if octet < 0 then d\<lparr>d_tim := tim, d_failed := True\<rparr>
              else d\<lparr>d_tim := tim\<rparr>)
      })"

definition make_aid :: "nat \<Rightarrow> nat \<Rightarrow> nat \<Rightarrow> nat \<Rightarrow> nat" where
  "make_aid page_index block m q = page_index mod 4 * 2048 + block mod 32 * 64 + m mod 8 * 8 + q mod 8"

definition read_subblock :: "(nat \<Rightarrow> nat) \<Rightarrow> u8 list \<Rightarrow> bool \<Rightarrow> decode_state \<Rightarrow> decode_state option" where
  "read_subblock aid info inv_bmap d =
     do {
       b \<leftarrow> nth_opt info (d_index d);
       d \<leftarrow> ofold (store_bit aid (if inv_bmap then NOT b else b)) [0..<8] d;
       Some (if d_failed d then d else d\<lparr>d_index := d_index d + 1\<rparr>)
     }"

text \<open>Each mode returns the map, the largest octet and the number of octets read or -1.\<close>

definition decode_result :: "decode_state \<Rightarrow> tim_ie \<times> nat \<times> int" where
  "decode_result d = (d_tim d, d_len d, if d_failed d then -1 else int (d_index d))"

definition s1g_to_tim_parse_block_mode ::
    "tim_ie \<Rightarrow> nat \<Rightarrow> u8 list \<Rightarrow> nat \<Rightarrow> nat \<Rightarrow> bool \<Rightarrow> (tim_ie \<times> nat \<times> int) option" where
  "s1g_to_tim_parse_block_mode tim tim_len info block_offset page_index inv_bmap =
     do {
       bitmap \<leftarrow> nth_opt info 0;
       d \<leftarrow> ofold (\<lambda>m d. if d_failed d \<or> \<not> bit bitmap m then Some d
                        else read_subblock (make_aid page_index block_offset m) info inv_bmap d)
             [0..<8] \<lparr>d_tim = tim, d_len = tim_len, d_index = 1, d_failed = False\<rparr>;
       Some (decode_result d)
     }"

text \<open>\<open>octet_number\<close> is a \<open>u8\<close> here: a failed store becomes octet 234 (\<open>-EINVAL\<close> truncated).\<close>

definition s1g_to_tim_parse_single_mode ::
    "tim_ie \<Rightarrow> nat \<Rightarrow> u8 list \<Rightarrow> nat \<Rightarrow> nat \<Rightarrow> bool \<Rightarrow> (tim_ie \<times> nat \<times> int) option" where
  "s1g_to_tim_parse_single_mode tim tim_len info block_offset page_index inv_bmap =
     do {
       single_aid \<leftarrow> nth_opt info 0;
       if inv_bmap then Some (tim, tim_len, 1)
       else do {
         let aid = page_index mod 4 * 2048 + block_offset mod 32 * 64 + unat single_aid mod 64;
         (tim, octet) \<leftarrow> store_aid_into_tim tim aid;
         let octet = nat (octet mod 256);
         Some (tim, if tim_len < octet then octet else tim_len, 1)
       }
     }"

definition s1g_to_tim_parse_olb_mode ::
    "tim_ie \<Rightarrow> nat \<Rightarrow> u8 list \<Rightarrow> nat \<Rightarrow> nat \<Rightarrow> bool \<Rightarrow> (tim_ie \<times> nat \<times> int) option" where
  "s1g_to_tim_parse_olb_mode tim tim_len info block_offset page_index inv_bmap =
     do {
       len \<leftarrow> nth_opt info 0;
       d \<leftarrow> ofold (\<lambda>m d. if d_failed d then Some d
                        else read_subblock (make_aid page_index (block_offset + m div 8) m) info inv_bmap d)
             [0..<unat len] \<lparr>d_tim = tim, d_len = tim_len, d_index = 1, d_failed = False\<rparr>;
       Some (decode_result d)
     }"

text \<open>
  The ADE mode ignores the result of the stores. Words of \<open>ewl + 1\<close> bits are read from the bit
  array of the \<open>length\<close> octets after the first; an AID above 7 ends the block early, one octet short.
\<close>

definition ADE_AID_LIMIT :: nat where
  "ADE_AID_LIMIT = 7"

definition ade_bit :: "u8 list \<Rightarrow> nat \<Rightarrow> nat" where
  "ade_bit info i = of_bool (bit (info ! (1 + i div 8)) (i mod 8))"

definition ade_word :: "u8 list \<Rightarrow> nat \<Rightarrow> nat \<Rightarrow> nat" where
  "ade_word info ewl i = trunc8 (\<Sum>j<ewl. ade_bit info (i * ewl + j) * 2 ^ j)"

primrec ade_words :: "nat \<Rightarrow> u8 list \<Rightarrow> nat list \<Rightarrow> nat \<Rightarrow> nat \<Rightarrow> tim_ie \<Rightarrow> (tim_ie \<times> bool) option" where
  "ade_words base info [] ewl aid tim = Some (tim, True)"
| "ade_words base info (i # is) ewl aid tim =
     (let aid = trunc16 (ade_word info ewl i + (if i = 0 then base else aid))
      in if ADE_AID_LIMIT < aid then Some (tim, False)
         else do { (tim, _) \<leftarrow> store_aid_into_tim tim aid; ade_words base info is ewl aid tim })"

primrec ade_all_but :: "nat \<Rightarrow> nat option \<Rightarrow> nat list \<Rightarrow> tim_ie \<Rightarrow> (tim_ie \<times> bool) option" where
  "ade_all_but base excluded [] tim = Some (tim, True)"
| "ade_all_but base excluded (i # is) tim =
     (let aid = trunc16 (base + i)
      in if ADE_AID_LIMIT < aid then Some (tim, False)
         else if excluded = Some aid then ade_all_but base excluded is tim
         else do { (tim, _) \<leftarrow> store_aid_into_tim tim aid; ade_all_but base excluded is tim })"

definition s1g_to_tim_parse_ade_mode ::
    "tim_ie \<Rightarrow> u8 list \<Rightarrow> nat \<Rightarrow> nat \<Rightarrow> bool \<Rightarrow> (tim_ie \<times> int) option" where
  "s1g_to_tim_parse_ade_mode tim info block_offset page_index inv_bmap =
     do {
       hdr \<leftarrow> nth_opt info 0;
       let ewl = unat (hdr AND 0x07);
       let len = unat (drop_bit 3 hdr);
       let base = page_index * 2048 + block_offset * 64;
       if inv_bmap \<and> ewl = 0 \<and> len = 0 then do {
         (tim, ok) \<leftarrow> ade_all_but base None [0..<8] tim;
         Some (tim, if ok then 1 else int len)
       } else if inv_bmap \<and> ewl = 7 \<and> len = 1 then do {
         diff_aid \<leftarrow> nth_opt info 1;
         (tim, ok) \<leftarrow> ade_all_but base (Some (trunc16 (unat diff_aid + base))) [0..<8] tim;
         Some (tim, if ok then 2 else int len)
       } else if length info < 1 + len then None
       else do {
         (tim, ok) \<leftarrow> ade_words base info [0..<len * 8 div (ewl + 1)] (ewl + 1) 0 tim;
         Some (tim, if ok then int len + 1 else int len)
       }
     }"

text \<open>One turn of the loop of \<open>morse_dot11_s1g_to_tim\<close>: the new map, largest octet and index, or an error.\<close>

definition decode_step :: "u8 list \<Rightarrow> nat \<Rightarrow> tim_ie \<times> nat \<times> nat \<Rightarrow> (tim_ie \<times> nat \<times> nat option) option" where
  "decode_step info page_index s =
     (case s of (tim, tim_len, i) \<Rightarrow> do {
        hdr \<leftarrow> nth_opt info i;
        let mode = unat (hdr AND 3);
        let inv_bmap = bit hdr 2;
        let block_offset = unat (drop_bit 3 hdr);
        let i = i + 1;
        let rest = drop i info;
        if mode = 3 then do {
          (tim, res) \<leftarrow> s1g_to_tim_parse_ade_mode tim rest block_offset page_index inv_bmap;
          Some (tim, tim_len, Some (i + nat res))
        } else do {
          (tim, tim_len, res) \<leftarrow>
            (if mode = 0 then s1g_to_tim_parse_block_mode tim tim_len rest block_offset page_index inv_bmap
             else if mode = 1 then s1g_to_tim_parse_single_mode tim tim_len rest block_offset page_index inv_bmap
             else s1g_to_tim_parse_olb_mode tim tim_len rest block_offset page_index inv_bmap);
          Some (tim, tim_len, if res < 0 then None else Some (i + nat res))
        }
      })"

lemma decode_step_index:
  "decode_step info page_index (tim, tim_len, i) = Some (tim', tim_len', Some i') \<Longrightarrow> i < i'"
  by (auto simp: decode_step_def Let_def split: Option.bind_splits if_splits)

text \<open>The loop returns the map and, without an error, the largest octet.\<close>

function decode_loop :: "u8 list \<Rightarrow> nat \<Rightarrow> nat \<Rightarrow> tim_ie \<Rightarrow> nat \<Rightarrow> nat \<Rightarrow> (tim_ie \<times> nat option) option" where
  "decode_loop info block_info_len page_index tim tim_len i =
     (if i < block_info_len then
        (case decode_step info page_index (tim, tim_len, i) of
           None \<Rightarrow> None
         | Some (tim, tim_len, None) \<Rightarrow> Some (tim, None)
         | Some (tim, tim_len, Some i) \<Rightarrow> decode_loop info block_info_len page_index tim tim_len i)
      else Some (tim, Some tim_len))"
  by pat_completeness auto
termination
  by (relation "measure (\<lambda>(info, n, page_index, tim, tim_len, i). n - i)") (auto dest: decode_step_index)

declare decode_loop.simps [simp del]

text \<open>
  \<open>info\<close> is what lies behind \<open>encoded_block_info\<close> in memory, \<open>total_len\<close> the length of the element;
  \<open>sizeof_tim\<close> is \<open>sizeof(struct ieee80211_tim_ie)\<close> of the kernel.
\<close>

definition s1g_to_tim :: "nat \<Rightarrow> tim_ie \<Rightarrow> s1g_tim_ie \<Rightarrow> nat \<Rightarrow> (tim_ie \<times> nat) option" where
  "s1g_to_tim sizeof_tim tim s1g total_len =
     (if total_len < 2 then Some (tim, sizeof_tim)
      else
        (let tim = tim\<lparr>dtim_count := s1g_dtim_count s1g, dtim_period := s1g_dtim_period s1g\<rparr>
         in if total_len < 3 then Some (tim, sizeof_tim)
            else
              (let tim = tim\<lparr>bitmap_ctrl := s1g_bitmap_control s1g AND 1, virtual_map := (virtual_map tim)[0 := 0]\<rparr>;
                   block_info_len = total_len - 3;
                   page_index = unat (drop_bit 6 (s1g_bitmap_control s1g));
                   page_slice = unat (drop_bit 1 (s1g_bitmap_control s1g AND 0x3E))
               in if block_info_len = 0 then
                    Some (if page_slice = 31
                          then (tim\<lparr>bitmap_ctrl := 0, virtual_map := (virtual_map tim)[0 := 0]\<rparr>, sizeof_tim)
                          else (tim, sizeof_tim))
                  else do {
                    (tim, res) \<leftarrow> decode_loop (encoded_block_info s1g) block_info_len page_index tim 0 0;
                    Some (tim, case res of None \<Rightarrow> sizeof_tim | Some n \<Rightarrow> sizeof_tim + n)
                  })))"

end
