(* ===== verification/Tim_Codec.thy ===== *)
theory Tim_Codec
  imports Tim
begin

text \<open>
  The encoder and the decoder of \<^verbatim>\<open>dot11ah/tim.c\<close> against each other. A map means the octets of
  the full bitmap it sets (\<open>tim_octet\<close>); \<open>decodes bs xs\<close> says that the decoder, wherever it meets the
  octets \<open>bs\<close>, stores exactly the bitmap octets \<open>xs\<close> and goes on behind \<open>bs\<close>. Each mode of the
  encoder is shown to emit octets that decode to what it consumed; the locale \<open>tim_codec\<close> carries
  this over the whole loop.
\<close>

section \<open>What a map says\<close>

text \<open>The octet with number \<open>o\<close> of the full bitmap; zero outside the transmitted part.\<close>

definition tim_octet :: "tim_ie \<Rightarrow> nat \<Rightarrow> u8" where
  "tim_octet tim k =
     (if tim_offset tim \<le> k \<and> k - tim_offset tim < length (virtual_map tim)
      then virtual_map tim ! (k - tim_offset tim) else 0)"

definition tim_empty :: "tim_ie \<Rightarrow> bool" where
  "tim_empty tim \<longleftrightarrow> (\<forall>b \<in> set (virtual_map tim). b = 0) \<and> tim_offset tim = 0"

text \<open>A map under construction: room for every octet, and empty or begun in one of its first two octets.\<close>

definition tim_ok :: "tim_ie \<Rightarrow> bool" where
  "tim_ok tim \<longleftrightarrow> 251 \<le> length (virtual_map tim) \<and>
     (tim_empty tim \<or> virtual_map tim ! 0 \<noteq> 0 \<or> virtual_map tim ! 1 \<noteq> 0)"

lemma tim_offset_set:
  assumes "(c :: u8) AND 0xFE = 0" "even k" "k < 256"
  shows "unat ((c OR word_of_nat k) AND 0xFE) = k" "(c OR word_of_nat k) AND 1 = c AND 1"
proof -
  have mask: "(0xFE :: u8) = NOT 1" by (simp add: not_eq_complement)
  have "(word_of_nat k :: u8) AND 0xFE = word_of_nat k"
    unfolding mask using assms(2)
    by (intro bit_word_eqI) (auto simp: bit_simps bit_1_iff bit_0)
  then have "(c OR word_of_nat k) AND 0xFE = word_of_nat k"
    using assms(1) by (simp add: bit.conj_disj_distrib2)
  then show "unat ((c OR word_of_nat k) AND 0xFE) = k"
    using assms(3) by (simp add: unsigned_of_nat take_bit_nat_eq_self)
  show "(c OR word_of_nat k) AND 1 = c AND 1"
    using assms(2) by (intro bit_word_eqI) (auto simp: bit_simps bit_1_iff bit_0)
qed

lemma push_bit_1_nonzero: "q < 8 \<Longrightarrow> (push_bit q 1 :: u8) \<noteq> 0"
proof
  assume "q < 8" "(push_bit q 1 :: u8) = 0"
  moreover have "bit (push_bit q 1 :: u8) q" using \<open>q < 8\<close> by (simp add: bit_simps)
  ultimately show False by simp
qed

lemma or_nonzero: "(a :: u8) \<noteq> 0 \<Longrightarrow> a OR b \<noteq> 0"
  by (simp add: or_eq_0_iff)

definition octet_stored :: "nat \<Rightarrow> u8 \<Rightarrow> tim_ie \<Rightarrow> tim_ie \<Rightarrow> bool" where
  "octet_stored k b tim tim' \<longleftrightarrow> tim_ok tim' \<and> \<not> tim_empty tim' \<and> tim_offset tim' \<le> k \<and>
     tim_offset tim' = (if tim_empty tim then k - k mod 2 else tim_offset tim) \<and>
     (\<forall>j. tim_octet tim' j = (if j = k then tim_octet tim k OR b else tim_octet tim j)) \<and>
     dtim_count tim' = dtim_count tim \<and> dtim_period tim' = dtim_period tim \<and>
     bitmap_ctrl tim' AND 1 = bitmap_ctrl tim AND 1"

text \<open>Storing an AID sets one bit of one octet, when the octet is not before the ones already there.\<close>

lemma store_aid_ok:
  assumes "tim_ok tim" "k \<le> 250" "q < 8" "tim_empty tim \<or> tim_offset tim \<le> k"
  shows "\<exists>tim'. store_aid_into_tim tim (8 * k + q) = Some (tim', int (k - tim_offset tim')) \<and>
    octet_stored k (push_bit q 1) tim tim'"
proof -
  let ?v = "virtual_map tim"
  have len: "251 \<le> length ?v" using assms(1) by (simp add: tim_ok_def)
  have oct: "trunc8 ((8 * k + q) div 8) = k" "(8 * k + q) mod 8 = q" using assms(2,3) by simp_all
  have fresh: "?v ! 0 = 0 \<and> ?v ! 1 = 0 \<longleftrightarrow> tim_empty tim"
    using assms(1) len nth_mem [of 0 ?v] nth_mem [of 1 ?v] by (fastforce simp: tim_ok_def tim_empty_def)
  define off where "off = (if tim_empty tim then k - k mod 2 else tim_offset tim)"
  have off: "off \<le> k" "k - off < 251" using assms(2,4) by (auto simp: off_def)
  define tim' where "tim' = tim\<lparr>bitmap_ctrl := (if tim_empty tim then bitmap_ctrl tim OR word_of_nat off else bitmap_ctrl tim),
    virtual_map := ?v[k - off := ?v ! (k - off) OR push_bit q 1]\<rparr>"
  have even: "even (k - k mod 2)" "k - k mod 2 < 256" using assms(2) by auto
  have ctrl: "bitmap_ctrl tim AND 0xFE = 0" if "tim_empty tim"
    using that by (simp add: tim_empty_def tim_offset_def unat_eq_0)
  have off': "tim_offset tim' = off" "bitmap_ctrl tim' AND 1 = bitmap_ctrl tim AND 1"
    using tim_offset_set [OF ctrl even] by (auto simp: tim_offset_def tim'_def off_def)
  have store: "store_aid_into_tim tim (8 * k + q) = Some (tim', int (k - off))"
  proof -
    have n01: "nth_opt ?v 0 = Some (?v ! 0)" "nth_opt ?v 1 = Some (?v ! 1)" using len by (auto intro!: nth_opt_Some)
    have nt: "\<not> 2007 < 8 * k + q" "k - off < length ?v" "\<not> 251 \<le> k - off" "\<not> k < off" using assms(2,3) off len by auto
    have up: "upd_opt ?v (k - off) (\<lambda>b. b OR push_bit q 1) = Some (?v[k - off := ?v ! (k - off) OR push_bit q 1])"
      using nt(2) by simp
    show ?thesis
    proof (cases "tim_empty tim")
      case True
      then have "k - k mod 2 = off" by (simp add: off_def)
      with True show ?thesis
        unfolding store_aid_into_tim_def Let_def oct n01 using fresh nt up
        by (simp add: tim'_def del: upd_opt_Some)
    next
      case False
      then have fr: "tim_offset tim = off" "(?v ! 0 = 0 \<and> ?v ! 1 = 0) = False" using fresh by (simp_all add: off_def)
      have bind: "Option.bind (Some x) f = f x" for x and f :: "u8 \<Rightarrow> (tim_ie \<times> int) option" by simp
      from False fr(1) show ?thesis
        unfolding store_aid_into_tim_def Let_def oct n01 bind fr(2) using nt up
        by (simp add: tim'_def del: upd_opt_Some)
    qed
  qed
  have nz: "?v ! (k - off) OR push_bit q 1 \<noteq> 0"
    using or_nonzero [OF push_bit_1_nonzero [OF assms(3)]] by (metis or.commute)
  have first: "virtual_map tim' ! 0 \<noteq> 0 \<or> virtual_map tim' ! 1 \<noteq> 0"
  proof (cases "tim_empty tim")
    case True
    then have i: "k - off = 0 \<or> k - off = 1" by (auto simp: off_def)
    have "virtual_map tim' ! (k - off) \<noteq> 0" using nz len off(2) by (simp add: tim'_def)
    then show ?thesis using i by auto
  next
    case False
    then have "?v ! 0 \<noteq> 0 \<or> ?v ! 1 \<noteq> 0" using fresh by simp
    moreover have "virtual_map tim' ! i = (if i = k - off then ?v ! (k - off) OR push_bit q 1 else ?v ! i)"
      if "i < 251" for i using that len by (simp add: tim'_def nth_list_update)
    from this [of 0] this [of 1] have "virtual_map tim' ! 0 = (if 0 = k - off then ?v ! (k - off) OR push_bit q 1 else ?v ! 0)"
      "virtual_map tim' ! 1 = (if 1 = k - off then ?v ! (k - off) OR push_bit q 1 else ?v ! 1)" by simp_all
    ultimately show ?thesis using nz by (metis (full_types))
  qed
  have len': "length (virtual_map tim') = length ?v" by (simp add: tim'_def)
  have ne: "\<not> tim_empty tim'"
    using first len len' nth_mem [of 0 "virtual_map tim'"] nth_mem [of 1 "virtual_map tim'"]
    by (fastforce simp: tim_empty_def)
  have octets: "tim_octet tim' j = (if j = k then tim_octet tim k OR push_bit q 1 else tim_octet tim j)" for j
  proof (cases "tim_empty tim")
    case True
    then have z: "?v ! i = 0" if "i < length ?v" for i using that nth_mem by (auto simp: tim_empty_def)
    then have "tim_octet tim i = 0" for i by (auto simp: tim_octet_def)
    with z off len show ?thesis by (auto simp: tim_octet_def off' len') (auto simp: tim'_def nth_list_update)
  next
    case False
    then have "off = tim_offset tim" by (simp add: off_def)
    with off len show ?thesis by (auto simp: tim_octet_def off' len') (auto simp: tim'_def nth_list_update)
  qed
  have ok: "tim_ok tim'" using first len len' by (simp only: tim_ok_def) simp
  have os: "octet_stored k (push_bit q 1) tim tim'"
    unfolding octet_stored_def
  proof (intro conjI allI)
    show "tim_ok tim'" "\<not> tim_empty tim'" "tim_offset tim' \<le> k" using ok ne off off' by simp_all
    show "tim_offset tim' = (if tim_empty tim then k - k mod 2 else tim_offset tim)"
      using off'(1) by (simp only: off_def)
    show "tim_octet tim' j = (if j = k then tim_octet tim k OR push_bit q 1 else tim_octet tim j)" for j
      by (rule octets)
    show "dtim_count tim' = dtim_count tim" "dtim_period tim' = dtim_period tim" by (simp_all add: tim'_def)
    show "bitmap_ctrl tim' AND 1 = bitmap_ctrl tim AND 1" by (rule off'(2))
  qed
  then show ?thesis using store off'(1) by blast
qed

lemma octet_stored_trans:
  "octet_stored k a t t' \<Longrightarrow> octet_stored k b t' t'' \<Longrightarrow> octet_stored k (a OR b) t t''"
  by (simp add: octet_stored_def or.assoc)

lemma take_bit_Suc_or: "take_bit (Suc n) (b :: u8) = (if bit b n then take_bit n b OR push_bit n 1 else take_bit n b)"
  by (auto intro!: bit_word_eqI simp: bit_simps less_Suc_eq)

text \<open>The loop over the bits of a subblock stores its octet.\<close>

definition byte_stored :: "nat \<Rightarrow> u8 \<Rightarrow> decode_state \<Rightarrow> decode_state \<Rightarrow> bool" where
  "byte_stored k b d d' \<longleftrightarrow> d_index d' = d_index d \<and> \<not> d_failed d' \<and>
     (if b = 0 then d_tim d' = d_tim d \<and> d_len d' = d_len d
      else octet_stored k b (d_tim d) (d_tim d') \<and> d_len d' = max (d_len d) (k - tim_offset (d_tim d')))"

lemma store_bit_ok:
  assumes "\<not> d_failed d" "tim_ok (d_tim d)" "k \<le> 250" "q < 8" "tim_empty (d_tim d) \<or> tim_offset (d_tim d) \<le> k"
    "aid q = 8 * k + q" "bit b q"
  shows "\<exists>d'. store_bit aid b q d = Some d' \<and> byte_stored k (push_bit q 1) d d'"
proof -
  obtain tim' where t: "store_aid_into_tim (d_tim d) (8 * k + q) = Some (tim', int (k - tim_offset tim'))"
    "octet_stored k (push_bit q 1) (d_tim d) tim'"
    using store_aid_ok [OF assms(2-5)] by blast
  then show ?thesis
    using assms(1,6,7) push_bit_1_nonzero [OF assms(4)]
    by (auto simp: store_bit_def byte_stored_def max_def)
qed

lemma store_bits_ok:
  assumes "\<not> d_failed d" "tim_ok (d_tim d)" "k \<le> 250" "tim_empty (d_tim d) \<or> tim_offset (d_tim d) \<le> k"
    "\<And>q. q < 8 \<Longrightarrow> aid q = 8 * k + q"
  shows "\<exists>d'. ofold (store_bit aid b) [0..<8] d = Some d' \<and> byte_stored k b d d'"
proof -
  have "\<exists>d'. ofold (store_bit aid b) [0..<8] d = Some d' \<and> byte_stored k (take_bit 8 b) d d'"
  proof (rule ofold_upt_rule)
    show "byte_stored k (take_bit 0 b) d d" using assms(1) by (simp add: byte_stored_def)
    fix q d1
    assume q: "q < 8" and I: "byte_stored k (take_bit q b) d d1"
    show "\<exists>d2. store_bit aid b q d1 = Some d2 \<and> byte_stored k (take_bit (Suc q) b) d d2"
    proof (cases "bit b q")
      case False
      then show ?thesis using I by (simp add: store_bit_def take_bit_Suc_or)
    next
      case True
      have pre: "\<not> d_failed d1" "tim_ok (d_tim d1)" "tim_empty (d_tim d1) \<or> tim_offset (d_tim d1) \<le> k"
        using I assms(2,4) by (auto simp: byte_stored_def octet_stored_def split: if_splits)
      obtain d2 where d2: "store_bit aid b q d1 = Some d2" "byte_stored k (push_bit q 1) d1 d2"
        using store_bit_ok [of d1 k q aid b] pre assms(3) q assms(5) [OF q] True by blast
      have nz: "take_bit q b OR push_bit q 1 \<noteq> 0"
        using or_nonzero [OF push_bit_1_nonzero [OF q]] by (metis or.commute)
      have "byte_stored k (take_bit q b OR push_bit q 1) d d2"
      proof (cases "take_bit q b = 0")
        case True
        then show ?thesis using I d2(2) by (auto simp: byte_stored_def)
      next
        case False
        then have s1: "octet_stored k (take_bit q b) (d_tim d) (d_tim d1)" "d_len d1 = max (d_len d) (k - tim_offset (d_tim d1))"
          "d_index d1 = d_index d" using I by (simp_all add: byte_stored_def)
        have s2: "octet_stored k (push_bit q 1) (d_tim d1) (d_tim d2)" "d_len d2 = max (d_len d1) (k - tim_offset (d_tim d2))"
          "d_index d2 = d_index d1" "\<not> d_failed d2"
          using d2(2) push_bit_1_nonzero [OF q] by (simp_all add: byte_stored_def)
        have "tim_offset (d_tim d2) = tim_offset (d_tim d1)" using s1(1) s2(1) by (simp add: octet_stored_def)
        with s1 s2 nz show ?thesis
          using octet_stored_trans [OF s1(1) s2(1)] by (simp add: byte_stored_def)
      qed
      with d2(1) True show ?thesis by (simp add: take_bit_Suc_or)
    qed
  qed
  then show ?thesis by (simp add: take_bit_word_eq_self)
qed

section \<open>Storing octets in order\<close>

definition octet_step :: "nat \<Rightarrow> u8 \<Rightarrow> tim_ie \<times> nat \<Rightarrow> tim_ie \<times> nat \<Rightarrow> bool" where
  "octet_step k b s s' \<longleftrightarrow>
     (if b = 0 then s' = s
      else octet_stored k b (fst s) (fst s') \<and> snd s' = max (snd s) (k - tim_offset (fst s')))"

fun octs_stored :: "(nat \<times> u8) list \<Rightarrow> tim_ie \<times> nat \<Rightarrow> tim_ie \<times> nat \<Rightarrow> bool" where
  "octs_stored [] s s' = (s' = s)"
| "octs_stored ((k, b) # xs) s s' = (\<exists>t. octet_step k b s t \<and> octs_stored xs t s')"

text \<open>Octets that can be stored in this order: in range and not before the octets already there.\<close>

definition fits :: "tim_ie \<Rightarrow> (nat \<times> u8) list \<Rightarrow> bool" where
  "fits tim xs \<longleftrightarrow> sorted (map fst xs) \<and> (\<forall>x \<in> set xs. snd x \<noteq> 0 \<longrightarrow> fst x \<le> 250 \<and> (tim_empty tim \<or> tim_offset tim \<le> fst x))"

lemma octs_stored_append: "octs_stored (xs @ ys) s s' = (\<exists>t. octs_stored xs s t \<and> octs_stored ys t s')"
  by (induction xs arbitrary: s) (fastforce simp: split_paired_all)+

lemma octs_stored_zeros: "\<forall>x \<in> set xs. snd x = 0 \<Longrightarrow> octs_stored xs s s' = (s' = s)"
  by (induction xs) (auto simp: octet_step_def)

lemma octet_step_keeps:
  assumes "octet_step k b s t" "tim_ok (fst s)" "fits (fst s) ((k, b) # ys)"
  shows "tim_ok (fst t) \<and> fits (fst t) ys"
  using assms by (cases "b = 0") (auto simp: octet_step_def octet_stored_def fits_def)

lemma octs_stored_keeps:
  "octs_stored xs s t \<Longrightarrow> tim_ok (fst s) \<Longrightarrow> fits (fst s) (xs @ ys) \<Longrightarrow> tim_ok (fst t) \<and> fits (fst t) ys"
proof (induction xs arbitrary: s)
  case Nil
  then show ?case by simp
next
  case (Cons x xs)
  obtain k b where x: "x = (k, b)" by (cases x)
  with Cons.prems obtain u where "octet_step k b s u" "octs_stored xs u t" by auto
  with Cons x octet_step_keeps [of k b s u "xs @ ys"] show ?case by auto
qed

section \<open>What the decoder makes of a run of octets\<close>

definition decodes :: "u8 list \<Rightarrow> (nat \<times> u8) list \<Rightarrow> bool" where
  "decodes bs xs \<longleftrightarrow> (\<forall>pre rest n tim len. tim_ok tim \<and> fits tim xs \<and> length pre + length bs \<le> n \<longrightarrow>
     (\<exists>tim' len'. octs_stored xs (tim, len) (tim', len') \<and>
        decode_loop (pre @ bs @ rest) n 0 tim len (length pre) =
          decode_loop (pre @ bs @ rest) n 0 tim' len' (length pre + length bs)))"

lemma decodes_zeros: "\<forall>x \<in> set xs. snd x = 0 \<Longrightarrow> decodes [] xs"
  by (auto simp: decodes_def octs_stored_zeros)

lemma fits_append: "fits tim (xs @ ys) \<Longrightarrow> fits tim xs"
  by (auto simp: fits_def sorted_append)

lemma decodes_append:
  assumes "decodes bs xs" "decodes cs ys"
  shows "decodes (bs @ cs) (xs @ ys)"
  unfolding decodes_def
proof (intro allI impI, elim conjE)
  fix pre rest :: "u8 list" and n tim len
  assume a: "tim_ok tim" "fits tim (xs @ ys)" "length pre + length (bs @ cs) \<le> n"
  from assms(1) [unfolded decodes_def, rule_format, of tim pre n len "cs @ rest"] a
  obtain t l where t: "octs_stored xs (tim, len) (t, l)"
    "decode_loop (pre @ bs @ cs @ rest) n 0 tim len (length pre) =
     decode_loop (pre @ bs @ cs @ rest) n 0 t l (length pre + length bs)"
    using fits_append by fastforce
  then have "tim_ok t" "fits t ys" using octs_stored_keeps [OF t(1)] a by auto
  with assms(2) [unfolded decodes_def, rule_format, of t "pre @ bs" n l rest] a
  obtain t' l' where "octs_stored ys (t, l) (t', l')"
    "decode_loop ((pre @ bs) @ cs @ rest) n 0 t l (length (pre @ bs)) =
     decode_loop ((pre @ bs) @ cs @ rest) n 0 t' l' (length (pre @ bs) + length cs)" by auto
  with t show "\<exists>tim' len'. octs_stored (xs @ ys) (tim, len) (tim', len') \<and>
        decode_loop (pre @ (bs @ cs) @ rest) n 0 tim len (length pre) =
          decode_loop (pre @ (bs @ cs) @ rest) n 0 tim' len' (length pre + length (bs @ cs))"
    by (auto simp: octs_stored_append add.assoc)
qed

text \<open>Octets that are zero can be left out of the description.\<close>

lemma octs_stored_drop_zeros:
  "\<forall>x \<in> set zs \<union> set ws. snd x = 0 \<Longrightarrow> octs_stored (zs @ xs @ ws) s s' = octs_stored xs s s'"
  by (cases s') (auto simp: octs_stored_append octs_stored_zeros)

lemma decodes_drop_zeros:
  assumes "decodes bs (zs @ xs @ ws)" "\<forall>x \<in> set zs \<union> set ws. snd x = 0"
    and "sorted (map fst (zs @ xs @ ws))"
  shows "decodes bs xs"
proof -
  have "fits tim (zs @ xs @ ws)" if "fits tim xs" for tim
    using that assms(2,3) by (auto simp: fits_def)
  then show ?thesis
    using assms(1) unfolding decodes_def octs_stored_drop_zeros [OF assms(2)] by blast
qed

lemma header_fields:
  assumes "mode < 4" "bo < 32"
  shows "unat (block_header mode v bo AND 3) = mode" "bit (block_header mode v bo) 2 = v"
    "unat (drop_bit 3 (block_header mode v bo)) = bo"
proof -
  have m: "i < 2" if "bit mode i" for i using bit_below [of mode 2 i] assms(1) that by auto
  have b: "i < 5" if "bit bo i" for i using bit_below [of bo 5 i] assms(2) that by auto
  have 3: "(3 :: u8) = mask 2" by (simp add: mask_eq_exp_minus_1)
  have "block_header mode v bo AND 3 = word_of_nat mode"
    unfolding block_header_def 3 by (rule bit_word_eqI) (auto simp: bit_simps dest: m)
  then show "unat (block_header mode v bo AND 3) = mode"
    using assms(1) by (simp add: unsigned_of_nat take_bit_nat_eq_self)
  show "bit (block_header mode v bo) 2 = v"
    by (auto simp: block_header_def bit_simps dest: m)
  have "drop_bit 3 (block_header mode v bo) = word_of_nat bo"
    unfolding block_header_def by (rule bit_word_eqI) (auto simp: bit_simps dest: m b)
  then show "unat (drop_bit 3 (block_header mode v bo)) = bo"
    using assms(2) by (simp add: unsigned_of_nat take_bit_nat_eq_self)
qed

section \<open>Decoding one block\<close>

lemma byte_stored_step:
  "byte_stored k b d d' \<longleftrightarrow> d_index d' = d_index d \<and> \<not> d_failed d' \<and> octet_step k b (d_tim d, d_len d) (d_tim d', d_len d')"
  by (auto simp: byte_stored_def octet_step_def)

lemma read_subblock_ok:
  assumes "\<not> d_failed d" "tim_ok (d_tim d)" "fits (d_tim d) ((k, b) # ys)" "\<And>q. q < 8 \<Longrightarrow> aid q = 8 * k + q"
    "d_index d < length info" "info ! d_index d = b"
  shows "\<exists>d'. read_subblock aid info False d = Some d' \<and> \<not> d_failed d' \<and> d_index d' = d_index d + 1 \<and>
    octet_step k b (d_tim d, d_len d) (d_tim d', d_len d')"
proof (cases "b = 0")
  case True
  have "ofold (store_bit aid 0) xs d = Some d" for xs
    by (induction xs) (simp_all add: store_bit_def)
  with True assms show ?thesis by (simp add: read_subblock_def octet_step_def)
next
  case False
  then have "k \<le> 250" "tim_empty (d_tim d) \<or> tim_offset (d_tim d) \<le> k" using assms(3) by (auto simp: fits_def)
  from store_bits_ok [OF assms(1,2) this assms(4)] obtain d1 where
    "ofold (store_bit aid b) [0..<8] d = Some d1" "byte_stored k b d d1" by blast
  with assms(5,6) show ?thesis by (auto simp: read_subblock_def byte_stored_step)
qed

lemma make_aid_octet: "k = 8 * bo + m \<Longrightarrow> bo < 32 \<Longrightarrow> m < 8 \<Longrightarrow> q < 8 \<Longrightarrow> make_aid 0 bo m q = 8 * k + q"
  by (simp add: make_aid_def)

lemma filter_split_nth:
  "i < length xs \<Longrightarrow> P (xs ! i) \<Longrightarrow>
    filter P xs = filter P (take i xs) @ xs ! i # filter P (drop (Suc i) xs)"
  by (metis filter.simps(2) filter_append id_take_nth_drop)

lemma filter_nth:
  "i < length xs \<Longrightarrow> P (xs ! i) \<Longrightarrow> filter P xs ! length (filter P (take i xs)) = xs ! i"
  by (simp add: filter_split_nth nth_append)

lemma filter_nth_bound:
  "i < length xs \<Longrightarrow> P (xs ! i) \<Longrightarrow> length (filter P (take i xs)) < length (filter P xs)"
  using filter_split_nth [of i xs P] by simp

definition block_octets :: "nat \<Rightarrow> u8 list \<Rightarrow> (nat \<times> u8) list" where
  "block_octets first sb = zip [first..<first + length sb] sb"

lemma block_octets_append: "block_octets f (xs @ ys) = block_octets f xs @ block_octets (f + length xs) ys"
  unfolding block_octets_def using upt_add_eq_append [of f "f + length xs" "length ys"]
  by (simp add: zip_append add.assoc)

lemma block_octets_Cons: "block_octets f (x # xs) = (f, x) # block_octets (Suc f) xs"
  by (simp add: block_octets_def upt_conv_Cons del: upt_Suc)

lemma block_octets_Nil [simp]: "block_octets f [] = []"
  by (simp add: block_octets_def)

lemma block_octets_take:
  "m < length sb \<Longrightarrow> block_octets f (take (Suc m) sb) = block_octets f (take m sb) @ [(f + m, sb ! m)]"
  by (simp add: take_Suc_conv_app_nth block_octets_append block_octets_Cons)

lemma block_octets_split:
  "m < length sb \<Longrightarrow> block_octets f sb = block_octets f (take m sb) @ (f + m, sb ! m) # block_octets (f + Suc m) (drop (Suc m) sb)"
  using block_octets_append [of f "take m sb" "sb ! m # drop (Suc m) sb"]
  by (simp add: id_take_nth_drop [symmetric] block_octets_Cons)

lemma sorted_block_octets: "sorted (map fst (block_octets f sb))"
  by (simp add: block_octets_def)

lemma parse_block_ok:
  assumes "tim_ok tim" "fits tim (block_octets (8 * bo) sb)" "bo < 32" "length sb = 8"
    and bm: "\<And>i. i < 8 \<Longrightarrow> bit bm i = (sb ! i \<noteq> 0)"
  shows "\<exists>tim' len'. s1g_to_tim_parse_block_mode tim len (bm # filter (\<lambda>b. b \<noteq> 0) sb @ rest) bo 0 False =
      Some (tim', len', 1 + int (length (filter (\<lambda>b. b \<noteq> 0) sb))) \<and>
    octs_stored (block_octets (8 * bo) sb) (tim, len) (tim', len')"
proof -
  let ?nz = "filter (\<lambda>b. b \<noteq> (0 :: u8))"
  let ?info = "bm # ?nz sb @ rest"
  define d0 where "d0 = \<lparr>d_tim = tim, d_len = len, d_index = 1, d_failed = False\<rparr>"
  define body where "body = (\<lambda>m d. if d_failed d \<or> \<not> bit bm m then Some d
                        else read_subblock (make_aid 0 bo m) ?info False d)"
  define P where "P = (\<lambda>m (d :: decode_state). \<not> d_failed d \<and> d_index d = 1 + length (?nz (take m sb)) \<and>
      octs_stored (block_octets (8 * bo) (take m sb)) (tim, len) (d_tim d, d_len d))"
  have "\<exists>d'. ofold body [0..<8] d0 = Some d' \<and> P 8 d'"
  proof (rule ofold_upt_rule [where I = P], unfold P_def)
    show "\<not> d_failed d0 \<and> d_index d0 = 1 + length (?nz (take 0 sb)) \<and>
      octs_stored (block_octets (8 * bo) (take 0 sb)) (tim, len) (d_tim d0, d_len d0)"
      by (simp add: d0_def block_octets_def)
    fix m :: nat and d :: decode_state
    assume m: "m < 8" and I: "\<not> d_failed d \<and> d_index d = 1 + length (?nz (take m sb)) \<and>
      octs_stored (block_octets (8 * bo) (take m sb)) (tim, len) (d_tim d, d_len d)"
    have split: "block_octets (8 * bo) sb = block_octets (8 * bo) (take m sb) @ (8 * bo + m, sb ! m) #
        block_octets (8 * bo + Suc m) (drop (Suc m) sb)" using m assms(4) by (intro block_octets_split) simp
    have next_octets: "octs_stored (block_octets (8 * bo) (take (Suc m) sb)) (tim, len) (d_tim d', d_len d')"
      if "octet_step (8 * bo + m) (sb ! m) (d_tim d, d_len d) (d_tim d', d_len d')" for d'
      using that I m assms(4) by (auto simp: block_octets_take octs_stored_append)
    show "\<exists>d'. body m d = Some d' \<and> \<not> d_failed d' \<and> d_index d' = 1 + length (?nz (take (Suc m) sb)) \<and>
      octs_stored (block_octets (8 * bo) (take (Suc m) sb)) (tim, len) (d_tim d', d_len d')"
    proof (cases "sb ! m = 0")
      case True
      then have "body m d = Some d" using bm [OF m] by (simp add: body_def)
      moreover have "octet_step (8 * bo + m) (sb ! m) (d_tim d, d_len d) (d_tim d, d_len d)"
        using True by (simp add: octet_step_def)
      ultimately show ?thesis using True I m assms(4) next_octets by (simp add: take_Suc_conv_app_nth)
    next
      case False
      have ok: "tim_ok (d_tim d)" "fits (d_tim d) ((8 * bo + m, sb ! m) # block_octets (8 * bo + Suc m) (drop (Suc m) sb))"
        using octs_stored_keeps [of "block_octets (8 * bo) (take m sb)" "(tim, len)" "(d_tim d, d_len d)"] I assms(1,2) split
        by auto
      have idx: "d_index d < length ?info" "?info ! d_index d = sb ! m"
        using I m assms(4) False filter_nth [of m sb "\<lambda>b. b \<noteq> 0"] filter_nth_bound [of m sb "\<lambda>b. b \<noteq> 0"]
        by (simp_all add: nth_append)
      from read_subblock_ok [OF _ ok, of "make_aid 0 bo m" ?info] make_aid_octet [OF refl assms(3) m] I idx
      obtain d' where d': "read_subblock (make_aid 0 bo m) ?info False d = Some d'" "\<not> d_failed d'" "d_index d' = d_index d + 1"
        "octet_step (8 * bo + m) (sb ! m) (d_tim d, d_len d) (d_tim d', d_len d')" by auto
      moreover have "body m d = Some d'" using d'(1) I bm [OF m] False by (simp add: body_def)
      ultimately show ?thesis using I m assms(4) False next_octets by (simp add: take_Suc_conv_app_nth)
    qed
  qed
  then obtain d' where "ofold body [0..<8] d0 = Some d'" "\<not> d_failed d'" "d_index d' = 1 + length (?nz sb)"
    "octs_stored (block_octets (8 * bo) sb) (tim, len) (d_tim d', d_len d')" using assms(4) by (auto simp: P_def)
  then show ?thesis unfolding d0_def
    by (simp add: s1g_to_tim_parse_block_mode_def decode_result_def body_def [symmetric])
qed

lemma parse_olb_ok:
  assumes "tim_ok tim" "fits tim (block_octets (8 * bo) sb)" "8 * bo + length sb \<le> 251" "length sb < 256"
  shows "\<exists>tim' len'. s1g_to_tim_parse_olb_mode tim len (word_of_nat (length sb) # sb @ rest) bo 0 False =
      Some (tim', len', 1 + int (length sb)) \<and>
    octs_stored (block_octets (8 * bo) sb) (tim, len) (tim', len')"
proof -
  let ?n = "length sb"
  let ?info = "word_of_nat ?n # sb @ rest"
  define d0 where "d0 = \<lparr>d_tim = tim, d_len = len, d_index = 1, d_failed = False\<rparr>"
  define body where "body = (\<lambda>m d. if d_failed d then Some d
                        else read_subblock (make_aid 0 (bo + m div 8) m) ?info False d)"
  define P where "P = (\<lambda>m (d :: decode_state). \<not> d_failed d \<and> d_index d = 1 + m \<and>
      octs_stored (block_octets (8 * bo) (take m sb)) (tim, len) (d_tim d, d_len d))"
  have "\<exists>d'. ofold body [0..<?n] d0 = Some d' \<and> P ?n d'"
  proof (rule ofold_upt_rule [where I = P], unfold P_def)
    show "\<not> d_failed d0 \<and> d_index d0 = 1 + 0 \<and>
      octs_stored (block_octets (8 * bo) (take 0 sb)) (tim, len) (d_tim d0, d_len d0)"
      by (simp add: d0_def)
    fix m :: nat and d :: decode_state
    assume m: "m < ?n" and I: "\<not> d_failed d \<and> d_index d = 1 + m \<and>
      octs_stored (block_octets (8 * bo) (take m sb)) (tim, len) (d_tim d, d_len d)"
    have split: "block_octets (8 * bo) sb = block_octets (8 * bo) (take m sb) @ (8 * bo + m, sb ! m) #
        block_octets (8 * bo + Suc m) (drop (Suc m) sb)" using m by (intro block_octets_split)
    have ok: "tim_ok (d_tim d)" "fits (d_tim d) ((8 * bo + m, sb ! m) # block_octets (8 * bo + Suc m) (drop (Suc m) sb))"
      using octs_stored_keeps [of "block_octets (8 * bo) (take m sb)" "(tim, len)" "(d_tim d, d_len d)"] I assms(1,2) split
      by auto
    have idx: "d_index d < length ?info" "?info ! d_index d = sb ! m" using I m by (simp_all add: nth_append)
    have aid: "make_aid 0 (bo + m div 8) m q = 8 * (8 * bo + m) + q" if "q < 8" for q
    proof -
      have "bo + m div 8 < 32" using m assms(3) by presburger
      moreover have "m div 8 * 64 + m mod 8 * 8 = 8 * m" using div_mult_mod_eq [of m 8] by linarith
      ultimately show ?thesis using that by (simp add: make_aid_def)
    qed
    from read_subblock_ok [OF _ ok, of "make_aid 0 (bo + m div 8) m" ?info] aid I idx
    obtain d' where d': "read_subblock (make_aid 0 (bo + m div 8) m) ?info False d = Some d'" "\<not> d_failed d'" "d_index d' = d_index d + 1"
      "octet_step (8 * bo + m) (sb ! m) (d_tim d, d_len d) (d_tim d', d_len d')" by auto
    moreover have "body m d = Some d'" using d'(1) I by (simp add: body_def)
    moreover have "octs_stored (block_octets (8 * bo) (take (Suc m) sb)) (tim, len) (d_tim d', d_len d')"
      using d'(4) I m by (auto simp: block_octets_take octs_stored_append)
    ultimately show "\<exists>d'. body m d = Some d' \<and> \<not> d_failed d' \<and> d_index d' = 1 + Suc m \<and>
      octs_stored (block_octets (8 * bo) (take (Suc m) sb)) (tim, len) (d_tim d', d_len d')" using I by simp
  qed
  then obtain d' where "ofold body [0..<?n] d0 = Some d'" "\<not> d_failed d'" "d_index d' = 1 + ?n"
    "octs_stored (block_octets (8 * bo) sb) (tim, len) (d_tim d', d_len d')" by (auto simp: P_def)
  moreover have "unat (word_of_nat ?n :: u8) = ?n" using assms(4) by (simp add: unsigned_of_nat take_bit_nat_eq_self)
  ultimately show ?thesis unfolding d0_def
    by (simp add: s1g_to_tim_parse_olb_mode_def decode_result_def body_def [symmetric])
qed

lemma nat_diff_of_nat: "j \<le> k \<Longrightarrow> nat (int k - int j) = k - j"
  by simp

lemma parse_single_ok:
  assumes "tim_ok tim" "k \<le> 250" "tim_empty tim \<or> tim_offset tim \<le> k" "q < 8"
  shows "\<exists>tim' len'. s1g_to_tim_parse_single_mode tim len (word_of_nat ((8 * k + q) mod 64) # rest) (k div 8) 0 False =
      Some (tim', len', 1) \<and> octet_step k (push_bit q 1) (tim, len) (tim', len')"
proof -
  obtain tim' where t: "store_aid_into_tim tim (8 * k + q) = Some (tim', int (k - tim_offset tim'))"
    "octet_stored k (push_bit q 1) tim tim'" using store_aid_ok [OF assms(1,2,4,3)] by blast
  have u: "unat (word_of_nat ((8 * k + q) mod 64) :: u8) = (8 * k + q) mod 64"
    by (simp add: unsigned_of_nat take_bit_nat_eq_self)
  have aid: "k div 8 * 64 + (8 * k + q) mod 64 = 8 * k + q"
  proof -
    have "(8 * k + q) div 64 = (8 * k + q) div 8 div 8" by (simp add: div_mult2_eq [symmetric])
    then have "(8 * k + q) div 64 = k div 8" using assms(4) by simp
    then show ?thesis using assms(2) div_mult_mod_eq [of "8 * k + q" 64] by simp
  qed
  show ?thesis
    using t assms(2) push_bit_1_nonzero [OF assms(4)] nat_diff_of_nat [of "tim_offset tim'" k]
    by (intro exI [of _ tim'] exI [of _ "max len (k - tim_offset tim')"])
      (simp add: s1g_to_tim_parse_single_mode_def u aid octet_step_def max_def Let_def octet_stored_def)
qed

section \<open>One turn of the decoder's loop\<close>

lemma decode_loop_block:
  assumes "mode \<in> {0, 1, 2}" "bo < 32" "length pre < n"
    and "(if mode = 0 then s1g_to_tim_parse_block_mode tim len (bs @ rest) bo 0 False
          else if mode = 1 then s1g_to_tim_parse_single_mode tim len (bs @ rest) bo 0 False
          else s1g_to_tim_parse_olb_mode tim len (bs @ rest) bo 0 False) = Some (tim', len', int (length bs))"
  shows "decode_loop (pre @ (block_header mode False bo # bs) @ rest) n 0 tim len (length pre) =
    decode_loop (pre @ (block_header mode False bo # bs) @ rest) n 0 tim' len' (length pre + length (block_header mode False bo # bs))"
proof -
  note h = header_fields [of 0 bo False] header_fields [of 1 bo False] header_fields [of "Suc 0" bo False]
    header_fields [of 2 bo False]
  have "decode_step (pre @ (block_header mode False bo # bs) @ rest) 0 (tim, len, length pre) =
      Some (tim', len', Some (length pre + 1 + length bs))"
    using assms(1,2,4) by (auto simp: decode_step_def nth_opt_def nth_append h Let_def)
  then show ?thesis using assms(3) by (subst decode_loop.simps) simp
qed

lemma decodes_block:
  assumes "bo < 32" "length sb = 8" and bm: "\<And>i. i < 8 \<Longrightarrow> bit bm i = (sb ! i \<noteq> 0)"
  shows "decodes (block_header 0 False bo # bm # filter (\<lambda>b. b \<noteq> 0) sb) (block_octets (8 * bo) sb)"
  unfolding decodes_def
proof (intro allI impI, elim conjE)
  fix pre rest :: "u8 list" and n tim len
  assume "tim_ok tim" "fits tim (block_octets (8 * bo) sb)"
    "length pre + length (block_header 0 False bo # bm # filter (\<lambda>b. b \<noteq> 0) sb) \<le> n"
  with parse_block_ok [OF _ _ assms(1,2) bm, of tim len rest]
    decode_loop_block [where mode = 0 and bo = bo and pre = pre and n = n and tim = tim and len = len and bs = "bm # filter (\<lambda>b. b \<noteq> 0) sb" and rest = rest] assms(1)
  show "\<exists>tim' len'. octs_stored (block_octets (8 * bo) sb) (tim, len) (tim', len') \<and>
    decode_loop (pre @ (block_header 0 False bo # bm # filter (\<lambda>b. b \<noteq> 0) sb) @ rest) n 0 tim len (length pre) =
    decode_loop (pre @ (block_header 0 False bo # bm # filter (\<lambda>b. b \<noteq> 0) sb) @ rest) n 0 tim' len'
      (length pre + length (block_header 0 False bo # bm # filter (\<lambda>b. b \<noteq> 0) sb))"
    by fastforce
qed

lemma decodes_olb:
  assumes "8 * bo + length sb \<le> 251" "bo < 32" "length sb < 256"
  shows "decodes (block_header 2 False bo # word_of_nat (length sb) # sb) (block_octets (8 * bo) sb)"
  unfolding decodes_def
proof (intro allI impI, elim conjE)
  fix pre rest :: "u8 list" and n tim len
  assume "tim_ok tim" "fits tim (block_octets (8 * bo) sb)"
    "length pre + length (block_header 2 False bo # word_of_nat (length sb) # sb) \<le> n"
  with parse_olb_ok [OF _ _ assms(1,3), of tim len rest]
    decode_loop_block [where mode = 2 and bo = bo and pre = pre and n = n and tim = tim and len = len and bs = "word_of_nat (length sb) # sb" and rest = rest] assms(2)
  show "\<exists>tim' len'. octs_stored (block_octets (8 * bo) sb) (tim, len) (tim', len') \<and>
    decode_loop (pre @ (block_header 2 False bo # word_of_nat (length sb) # sb) @ rest) n 0 tim len (length pre) =
    decode_loop (pre @ (block_header 2 False bo # word_of_nat (length sb) # sb) @ rest) n 0 tim' len'
      (length pre + length (block_header 2 False bo # word_of_nat (length sb) # sb))"
    by fastforce
qed

lemma decodes_single:
  assumes "k \<le> 250" "q < 8"
  shows "decodes [block_header 1 False (k div 8), word_of_nat ((8 * k + q) mod 64)] [(k, push_bit q 1)]"
  unfolding decodes_def
proof (intro allI impI, elim conjE)
  fix pre rest :: "u8 list" and n tim len
  assume "tim_ok tim" "fits tim [(k, push_bit q 1)]"
    "length pre + length [block_header 1 False (k div 8), word_of_nat ((8 * k + q) mod 64)] \<le> n"
  with parse_single_ok [of tim k q len rest] push_bit_1_nonzero [OF assms(2)]
    decode_loop_block [where mode = 1 and bo = "k div 8" and pre = pre and n = n and tim = tim and len = len and bs = "[word_of_nat ((8 * k + q) mod 64)]" and rest = rest] assms
  show "\<exists>tim' len'. octs_stored [(k, push_bit q 1)] (tim, len) (tim', len') \<and>
    decode_loop (pre @ [block_header 1 False (k div 8), word_of_nat ((8 * k + q) mod 64)] @ rest) n 0 tim len (length pre) =
    decode_loop (pre @ [block_header 1 False (k div 8), word_of_nat ((8 * k + q) mod 64)] @ rest) n 0 tim' len'
      (length pre + length [block_header 1 False (k div 8), word_of_nat ((8 * k + q) mod 64)])"
    by (fastforce simp: fits_def)
qed

section \<open>What the encoder emits\<close>

text \<open>The octets still to be encoded.\<close>

abbreviation octets_left :: "parse_state \<Rightarrow> (nat \<times> u8) list" where
  "octets_left st \<equiv> block_octets (octet_offset_11n st) (map_11n st)"

definition state_ok :: "nat \<Rightarrow> parse_state \<Rightarrow> bool" where
  "state_ok max_aid st \<longleftrightarrow> octet_offset_11n st + length (map_11n st) \<le> 251 \<and>
     (\<forall>i < length (map_11n st). map_11n st ! i \<noteq> 0 \<longrightarrow> 8 * (octet_offset_11n st + i) \<le> max_aid) \<and>
     (map_11n st \<noteq> [] \<longrightarrow> map_11n st ! 0 \<noteq> 0)"

lemma trim_front_ok:
  "off + length bs \<le> 251 \<Longrightarrow> trim_front off bs = (off', bs') \<Longrightarrow>
    \<exists>n. off' = off + n \<and> n \<le> length bs \<and> bs' = drop n bs \<and> (\<forall>b \<in> set (take n bs). b = 0) \<and> (bs' \<noteq> [] \<longrightarrow> bs' ! 0 \<noteq> 0)"
proof (induction bs arbitrary: off)
  case Nil
  then show ?case by simp
next
  case (Cons b bs)
  show ?case
  proof (cases "b = 0")
    case True
    with Cons.prems have "trim_front (off + 1) bs = (off', bs')" by simp
    with Cons.IH [of "off + 1"] Cons.prems(1) obtain n where
      "off' = off + 1 + n" "n \<le> length bs" "bs' = drop n bs" "\<forall>b \<in> set (take n bs). b = 0" "bs' \<noteq> [] \<longrightarrow> bs' ! 0 \<noteq> 0" by auto
    with True show ?thesis by (intro exI [of _ "Suc n"]) auto
  next
    case False
    with Cons.prems show ?thesis by (intro exI [of _ 0]) auto
  qed
qed

lemma consume_ok:
  assumes "octet_offset_11n st + length (map_11n st) \<le> 251" "n \<le> length (map_11n st)"
    "\<forall>i < length (map_11n st). map_11n st ! i \<noteq> 0 \<longrightarrow> 8 * (octet_offset_11n st + i) \<le> max_aid"
  shows "\<exists>zs. octets_left st = block_octets (octet_offset_11n st) (take n (map_11n st)) @ zs @
      octets_left (consume_11n_tim_octets n st) \<and> (\<forall>x \<in> set zs. snd x = 0) \<and>
    state_ok max_aid (consume_11n_tim_octets n st)"
proof -
  let ?o = "octet_offset_11n st" and ?m = "map_11n st"
  obtain off' m' where t: "trim_front (?o + n) (drop n ?m) = (off', m')" by fastforce
  have c: "octet_offset_11n (consume_11n_tim_octets n st) = off'" "map_11n (consume_11n_tim_octets n st) = m'"
    using t assms(1,2) by (simp_all add: consume_11n_tim_octets_def)
  obtain k where k: "off' = ?o + n + k" "k \<le> length ?m - n" "m' = drop (n + k) ?m"
    "\<forall>b \<in> set (take k (drop n ?m)). b = 0" "m' \<noteq> [] \<longrightarrow> m' ! 0 \<noteq> 0"
    using trim_front_ok [OF _ t] assms(1,2) by (auto simp: add.commute)
  have split: "?m = take n ?m @ take k (drop n ?m) @ m'" unfolding k(3) by (metis append_take_drop_id drop_drop add.commute)
  have "octets_left st = block_octets ?o (take n ?m) @ block_octets (?o + n) (take k (drop n ?m)) @ block_octets off' m'"
    using arg_cong [OF split, of "block_octets ?o"] assms(2) k(1,2)
    by (simp only: block_octets_append length_take length_drop min_absorb2 add.assoc)
  moreover have "\<forall>x \<in> set (block_octets (?o + n) (take k (drop n ?m))). snd x = 0"
    using k(4) by (auto simp: block_octets_def dest: set_zip_rightD)
  moreover have "state_ok max_aid (consume_11n_tim_octets n st)"
    unfolding state_ok_def c k(1)
  proof (intro conjI allI impI)
    show "?o + n + k + length m' \<le> 251" using assms(1,2) k(2,3) by simp
    show "m' ! 0 \<noteq> 0" if "m' \<noteq> []" using k(5) that by blast
    fix i assume "i < length m'" "m' ! i \<noteq> 0"
    then have "n + k + i < length ?m" "?m ! (n + k + i) \<noteq> 0" using k(3) by simp_all
    then have "8 * (?o + (n + k + i)) \<le> max_aid" using assms(3) by blast
    then show "8 * (?o + n + k + i) \<le> max_aid" by (simp only: add.assoc)
  qed
  ultimately show ?thesis unfolding c by blast
qed

text \<open>While the buffer is not full nothing is dropped.\<close>

lemma append_octet_enc:
  "length (enc (s1g_tim_append_octet st b)) < 256 \<Longrightarrow> enc (s1g_tim_append_octet st b) = enc st @ [b]"
  "length (enc st) \<le> length (enc (s1g_tim_append_octet st b))"
  by (auto simp: s1g_tim_append_octet_def S1G_TIM_MAX_BLOCK_SIZE_def split: if_splits)

lemma foldl_append_octets:
  "length (enc (foldl (\<lambda>st x. s1g_tim_append_octet st (f x)) st xs)) < 256 \<Longrightarrow>
    enc (foldl (\<lambda>st x. s1g_tim_append_octet st (f x)) st xs) = enc st @ map f xs"
  "length (enc st) \<le> length (enc (foldl (\<lambda>st x. s1g_tim_append_octet st (f x)) st xs))"
proof (induction xs rule: rev_induct)
  case Nil
  { case 1 then show ?case by simp
  next case 2 then show ?case by simp }
next
  case (snoc x xs)
  { case 1
    then show ?case using snoc append_octet_enc [of "foldl (\<lambda>st x. s1g_tim_append_octet st (f x)) st xs" "f x"] by simp
  next
    case 2
    then show ?case using snoc append_octet_enc(2) [of "foldl (\<lambda>st x. s1g_tim_append_octet st (f x)) st xs" "f x"] by simp }
qed

lemma mark_bits:
  assumes "p < length sb" "\<And>j. j < m \<Longrightarrow> pos j = p" "m \<le> 8"
  shows "foldl (\<lambda>sb j. if bit b j then mark_aid False (pos j) j sb else sb) sb [0..<m] = sb[p := sb ! p OR take_bit m b]"
  using assms
proof (induction m)
  case 0
  then show ?case by simp
next
  case (Suc m)
  then show ?case by (simp add: mark_aid_def take_bit_Suc_or or.assoc)
qed

lemma fill_subblocks_eq:
  assumes "n \<le> length mp" "p0 + n \<le> N" "8 * off + 8 * n \<le> 2048"
    and pos: "\<And>i j. i < n \<Longrightarrow> j < 8 \<Longrightarrow> pos (8 * (off + i) + j) = p0 + i"
  shows "fill_subblocks pos False (off * 8) n mp (replicate N 0) =
    replicate p0 0 @ take n mp @ replicate (N - p0 - n) 0"
  using assms
proof (induction n)
  case 0
  then show ?case by (simp add: fill_subblocks_def replicate_add [symmetric])
next
  case (Suc n)
  let ?sb = "replicate p0 0 @ take n mp @ replicate (N - p0 - n) 0"
  have aid: "trunc16 (off * 8 + n * 8 + j) = 8 * (off + n) + j" "(8 * (off + n) + j) mod 8 = j" if "j < 8" for j
  proof -
    show "(8 * (off + n) + j) mod 8 = j" using that by (simp only: mod_mult_self4 mod_less)
    show "trunc16 (off * 8 + n * 8 + j) = 8 * (off + n) + j" using that Suc.prems(3) by simp
  qed
  have rep: "replicate (N - p0 - n) 0 = 0 # replicate (N - p0 - Suc n) (0 :: u8)"
  proof -
    have "N - p0 - n = Suc (N - p0 - Suc n)" using Suc.prems(2) by simp
    then show ?thesis by (simp only: replicate_Suc)
  qed
  have "foldl (\<lambda>sb j. if bit (mp ! n) j then mark_aid False (pos (8 * (off + n) + j)) j sb else sb) ?sb [0..<8] =
      ?sb[p0 + n := ?sb ! (p0 + n) OR take_bit 8 (mp ! n)]"
  proof (intro mark_bits)
    show "p0 + n < length ?sb" using Suc.prems(1,2) by simp
    show "pos (8 * (off + n) + j) = p0 + n" if "j < 8" for j using Suc.prems(4) [OF _ that, of n] by simp
  qed simp
  also have "\<dots> = replicate p0 0 @ take (Suc n) mp @ replicate (N - p0 - Suc n) 0"
  proof -
    have sb: "?sb = (replicate p0 0 @ take n mp) @ 0 # replicate (N - p0 - Suc n) 0" unfolding rep by simp
    have at: "p0 + n = length (replicate p0 (0 :: u8) @ take n mp)" using Suc.prems(1) by simp
    have "?sb ! (p0 + n) = 0" unfolding sb at by (rule nth_append_length)
    moreover have "?sb[p0 + n := mp ! n] = (replicate p0 0 @ take n mp) @ mp ! n # replicate (N - p0 - Suc n) 0"
      unfolding sb at by (rule list_update_length)
    ultimately show ?thesis using Suc.prems(1) by (simp add: take_Suc_conv_app_nth take_bit_word_eq_self)
  qed
  finally have step: "foldl (\<lambda>sb j. if bit (mp ! n) j then mark_aid False (pos (8 * (off + n) + j)) j sb else sb) ?sb [0..<8] =
      replicate p0 0 @ take (Suc n) mp @ replicate (N - p0 - Suc n) 0" .
  have "foldl (\<lambda>sb j. if bit (mp ! n) j then (let aid = trunc16 (off * 8 + n * 8 + j) in mark_aid False (pos aid) (aid mod 8) sb) else sb) ?sb [0..<8] =
     foldl (\<lambda>sb j. if bit (mp ! n) j then mark_aid False (pos (8 * (off + n) + j)) j sb else sb) ?sb [0..<8]"
  proof (intro foldl_cong refl)
    fix sb j assume "j \<in> set [0..<8]"
    then have "j < 8" by simp
    show "(if bit (mp ! n) j then (let aid = trunc16 (off * 8 + n * 8 + j) in mark_aid False (pos aid) (aid mod 8) sb) else sb) =
        (if bit (mp ! n) j then mark_aid False (pos (8 * (off + n) + j)) j sb else sb)"
      unfolding aid(1) [OF \<open>j < 8\<close>] Let_def aid(2) [OF \<open>j < 8\<close>] by (rule refl)
  qed
  with step Suc show ?case by (simp add: fill_subblocks_def)
qed


lemma append_subblocks:
  assumes "p = length pre" "m \<le> 8" "enc st = pre @ [0]"
    "length (enc (foldl (append_subblock p sb) st [0..<m])) < 256" "m \<le> length sb"
  shows "\<exists>bm. enc (foldl (append_subblock p sb) st [0..<m]) = pre @ bm # filter (\<lambda>b. b \<noteq> 0) (take m sb) \<and>
    (\<forall>i < 8. bit bm i = (i < m \<and> sb ! i \<noteq> 0))"
  using assms
proof (induction m)
  case 0
  then show ?case by simp
next
  case (Suc m)
  let ?st = "foldl (append_subblock p sb) st [0..<m]"
  have le: "length (enc ?st) \<le> length (enc (append_subblock p sb ?st m))"
    using append_octet_enc(2) [of ?st "sb ! m"] by (simp add: append_subblock_def Let_def)
  have "length (enc ?st) < 256" "m \<le> 8" "m \<le> length sb" using Suc.prems le by simp_all
  with Suc.IH Suc.prems(1,3) obtain bm where bm: "enc ?st = pre @ bm # filter (\<lambda>b. b \<noteq> 0) (take m sb)"
    "\<forall>i < 8. bit bm i = (i < m \<and> sb ! i \<noteq> 0)" by blast
  show ?case
  proof (cases "sb ! m = 0")
    case True
    then have "\<forall>i < 8. bit bm i = (i < Suc m \<and> sb ! i \<noteq> 0)" using bm(2) by (auto simp: less_Suc_eq)
    moreover have "append_subblock p sb ?st m = ?st" using True by (simp add: append_subblock_def)
    ultimately show ?thesis using True bm(1) Suc.prems(5)
      by (intro exI [of _ bm]) (simp add: take_Suc_conv_app_nth)
  next
    case False
    have ap: "append_subblock p sb ?st m = (let st = s1g_tim_append_octet ?st (sb ! m)
         in st\<lparr>enc := (enc st)[p := enc st ! p OR push_bit m 1]\<rparr>)"
      unfolding append_subblock_def [of p sb ?st m] using False by (simp only: if_True not_False_eq_True)
    have app: "enc (s1g_tim_append_octet ?st (sb ! m)) = enc ?st @ [sb ! m]"
      using Suc.prems(4) by (intro append_octet_enc) (simp add: ap Let_def)
    have "\<forall>i < 8. bit (bm OR push_bit m 1) i = (i < Suc m \<and> sb ! i \<noteq> 0)"
      using bm(2) False by (auto simp: bit_simps less_Suc_eq)
    moreover have "enc (append_subblock p sb ?st m) = pre @ (bm OR push_bit m 1) # filter (\<lambda>b. b \<noteq> 0) (take (Suc m) sb)"
    proof -
      have "enc (s1g_tim_append_octet ?st (sb ! m)) = pre @ bm # (filter (\<lambda>b. b \<noteq> 0) (take m sb) @ [sb ! m])"
        unfolding app bm(1) by simp
      then show ?thesis using False Suc.prems(1,5) unfolding ap
        by (simp add: Let_def take_Suc_conv_app_nth)
    qed
    ultimately show ?thesis by (intro exI [of _ "bm OR push_bit m 1"]) simp
  qed
qed

lemma foldl_enc_mono:
  "(\<And>s x. length (enc s) \<le> length (enc (g s x))) \<Longrightarrow> length (enc st) \<le> length (enc (foldl g st xs))"
  by (induction xs rule: rev_induct) (auto intro: le_trans)

lemma append_subblock_mono: "length (enc st) \<le> length (enc (append_subblock p sb st i))"
  using append_octet_enc(2) by (simp add: append_subblock_def Let_def)

lemma emit_subblocks_mono: "length (enc st) \<le> length (enc (emit_subblocks sb num st))"
proof (cases "length (enc st) < S1G_TIM_MAX_BLOCK_SIZE")
  case True
  have "length (enc (st\<lparr>enc := enc st @ [0]\<rparr>)) \<le>
      length (enc (foldl (append_subblock (length (enc st)) sb) (st\<lparr>enc := enc st @ [0]\<rparr>) [0..<num]))"
    by (intro foldl_enc_mono append_subblock_mono)
  with True show ?thesis by (simp add: emit_subblocks_def s1g_tim_reserve_octet_def)
next
  case False
  then show ?thesis by (simp add: emit_subblocks_def s1g_tim_reserve_octet_def)
qed

lemma emit_subblocks_ok:
  assumes "length (enc (emit_subblocks sb num st)) < 256" "num \<le> 8" "length sb = 8"
    "\<And>i. num \<le> i \<Longrightarrow> i < 8 \<Longrightarrow> sb ! i = 0"
  shows "\<exists>bm. enc (emit_subblocks sb num st) = enc st @ bm # filter (\<lambda>b. b \<noteq> 0) sb \<and>
    (\<forall>i < 8. bit bm i = (sb ! i \<noteq> 0))"
proof -
  have "length (enc st) < 256" using le_less_trans [OF emit_subblocks_mono assms(1)] .
  then have e: "emit_subblocks sb num st = foldl (append_subblock (length (enc st)) sb) (st\<lparr>enc := enc st @ [0]\<rparr>) [0..<num]"
    by (simp add: emit_subblocks_def s1g_tim_reserve_octet_def S1G_TIM_MAX_BLOCK_SIZE_def)
  obtain bm where bm: "enc (emit_subblocks sb num st) = enc st @ bm # filter (\<lambda>b. b \<noteq> 0) (take num sb)"
    "\<forall>i < 8. bit bm i = (i < num \<and> sb ! i \<noteq> 0)"
    using append_subblocks [OF refl assms(2), of "st\<lparr>enc := enc st @ [0]\<rparr>" "enc st" sb] assms(1-3)
    unfolding e by auto
  have "filter (\<lambda>b. b \<noteq> 0) (drop num sb) = []"
    using assms(2-4) by (auto simp: filter_empty_conv in_set_conv_nth)
  then have "filter (\<lambda>b. b \<noteq> 0) sb = filter (\<lambda>b. b \<noteq> 0) (take num sb)"
    using append_take_drop_id [of num sb] by (metis append_Nil2 filter_append)
  moreover have "\<forall>i < 8. bit bm i = (sb ! i \<noteq> 0)" using bm(2) assms(4) by (metis not_le)
  ultimately show ?thesis using bm(1) by metis
qed

lemma clamp_subblocks_covers:
  assumes "max_aid \<le> 2007" "64 * bo \<le> max_aid" "8 * (8 * bo + m) \<le> max_aid" "m < 8"
  shows "m < clamp_subblocks max_aid bo"
proof -
  have "int max_aid - int (bo * 64) = int (max_aid - 64 * bo)" using assms(2) by (simp add: algebra_simps of_nat_diff)
  then have "(int max_aid - int (bo * 64)) div 8 + 1 = int ((max_aid - 64 * bo) div 8 + 1)"
    by (simp only: zdiv_int of_nat_add of_nat_numeral of_nat_1)
  moreover have "(max_aid - 64 * bo) div 8 + 1 < 256" "m \<le> (max_aid - 64 * bo) div 8" using assms by auto
  ultimately show ?thesis using assms(4) unfolding clamp_subblocks_def
    by (simp add: nat_mod_distrib less_Suc_eq_le del: of_nat_add of_nat_Suc)
qed

section \<open>Each mode\<close>

definition emits :: "nat \<Rightarrow> parse_state \<Rightarrow> parse_state \<Rightarrow> bool" where
  "emits max_aid st st' \<longleftrightarrow> (\<exists>bs xs. enc st' = enc st @ bs \<and> octets_left st = xs @ octets_left st' \<and>
     decodes bs xs \<and> state_ok max_aid st')"

lemma emitsI:
  assumes "enc st' = enc st @ bs" "octets_left st' = octets_left (consume_11n_tim_octets n st)"
    "decodes bs (block_octets (octet_offset_11n st) (take n (map_11n st)))" "n \<le> length (map_11n st)"
    "state_ok max_aid st" "state_ok max_aid (consume_11n_tim_octets n st) \<Longrightarrow> state_ok max_aid st'"
  shows "emits max_aid st st'"
proof -
  from consume_ok [of st n max_aid] assms(4,5) obtain zs where
    zs: "octets_left st = block_octets (octet_offset_11n st) (take n (map_11n st)) @ zs @
      octets_left (consume_11n_tim_octets n st)" "\<forall>x \<in> set zs. snd x = 0"
    "state_ok max_aid (consume_11n_tim_octets n st)" by (auto simp: state_ok_def)
  have "decodes (bs @ []) (block_octets (octet_offset_11n st) (take n (map_11n st)) @ zs)"
    using assms(3) zs(2) by (intro decodes_append decodes_zeros) auto
  with zs assms(1,2,6) show ?thesis unfolding emits_def
    by (intro exI [of _ bs] exI [of _ "block_octets (octet_offset_11n st) (take n (map_11n st)) @ zs"]) simp
qed

lemma block_offset_of_octet:
  assumes "off \<le> 250"
  shows "S1G_TIM_AID_TO_BLOCK_OFFSET (off * 8) = off div 8"
proof -
  have "off * 8 div 64 = off div 8" by presburger
  moreover have "off div 8 < 32" using assms by presburger
  ultimately show ?thesis unfolding S1G_TIM_AID_TO_BLOCK_OFFSET_def by (simp only: mod_less)
qed

lemma state_ok_first: "state_ok max_aid st \<Longrightarrow> map_11n st \<noteq> [] \<Longrightarrow> octet_offset_11n st \<le> 250 \<and> 8 * octet_offset_11n st \<le> max_aid"
  by (cases "map_11n st") (auto simp: state_ok_def)

lemma state_ok_enc [simp]: "state_ok max_aid (st\<lparr>enc := e\<rparr>) = state_ok max_aid st"
  by (simp add: state_ok_def)

lemma block_mode_mono:
  "length (enc st) \<le> length (enc (tim_to_s1g_parse_block_mode v max_aid st))"
  unfolding tim_to_s1g_parse_block_mode_def Let_def
  by (rule le_trans [OF _ emit_subblocks_mono]) (simp add: append_octet_enc(2))

lemma block_mode_emits:
  assumes "state_ok max_aid st" "max_aid \<le> 2007" "map_11n st \<noteq> []"
    "length (enc (tim_to_s1g_parse_block_mode False max_aid st)) < 256"
  shows "emits max_aid st (tim_to_s1g_parse_block_mode False max_aid st)"
proof -
  let ?o = "octet_offset_11n st" and ?m = "map_11n st"
  define n where "n = min (length ?m) (8 - ?o mod 8)"
  define bo where "bo = ?o div 8"
  define sb where "sb = replicate (?o mod 8) 0 @ take n ?m @ replicate (8 - ?o mod 8 - n) (0 :: u8)"
  define st1 where "st1 = consume_11n_tim_octets n (s1g_tim_append_octet st (block_header 0 False bo))"
  let ?st' = "tim_to_s1g_parse_block_mode False max_aid st"
  have o: "?o \<le> 250" "8 * ?o \<le> max_aid" "?o = 8 * bo + ?o mod 8"
    using state_ok_first [OF assms(1,3)] by (simp_all add: bo_def)
  have n: "n \<le> length ?m" "?o mod 8 + n \<le> 8" using mod_less_divisor [of 8 ?o] by (auto simp: n_def)
  have len: "?o + length ?m \<le> 251" using assms(1) by (simp add: state_ok_def)
  have fill: "fill_subblocks (\<lambda>aid. aid div 8 mod 8) False (?o * 8) n ?m (replicate 8 0) = sb"
    unfolding sb_def
  proof (rule fill_subblocks_eq [OF n(1) n(2)])
    show "8 * ?o + 8 * n \<le> 2048" using len n(1) by simp
    fix i j :: nat
    assume "i < n" "j < 8"
    then have "(8 * (?o + i) + j) div 8 = ?o + i" by simp
    moreover have "(?o + i) mod 8 = ?o mod 8 + i"
    proof -
      have "?o mod 8 + i < 8" using n(2) \<open>i < n\<close> by linarith
      then show ?thesis using mod_add_left_eq [of ?o 8 i] by (simp only: mod_less)
    qed
    ultimately show "(8 * (?o + i) + j) div 8 mod 8 = ?o mod 8 + i" by simp
  qed
  have lsb: "length sb = 8" using n by (simp add: sb_def min_absorb2)
  have st': "?st' = emit_subblocks sb (clamp_subblocks max_aid bo) st1"
    unfolding tim_to_s1g_parse_block_mode_def Let_def block_offset_of_octet [OF o(1)] n_def [symmetric] bo_def [symmetric]
      append_octet_map if_False
    unfolding fill st1_def by (rule refl)
  have zero: "sb ! i = 0" if "clamp_subblocks max_aid bo \<le> i" "i < 8" for i
  proof (rule ccontr)
    assume nz: "sb ! i \<noteq> 0"
    define j where "j = i - ?o mod 8"
    have "?o mod 8 \<le> i" "j < n" "?m ! j \<noteq> 0"
      using nz that(2) n unfolding sb_def j_def by (auto simp: nth_append split: if_splits)
    then have j: "?o + j = 8 * bo + i" "j < length ?m" using n(1) o(3) by (simp_all add: j_def)
    have "8 * (?o + j) \<le> max_aid" using assms(1) j(2) \<open>?m ! j \<noteq> 0\<close> unfolding state_ok_def by blast
    with j(1) have j: "8 * (?o + j) \<le> max_aid" "?o + j = 8 * bo + i" by simp_all
    then have "i < clamp_subblocks max_aid bo"
      using clamp_subblocks_covers [OF assms(2), of bo i] that(2) o(2,3) by simp
    with that(1) show False by simp
  qed
  have cl: "clamp_subblocks max_aid bo \<le> 8" by (simp add: clamp_subblocks_def)
  obtain bm where bm: "enc ?st' = enc st1 @ bm # filter (\<lambda>b. b \<noteq> 0) sb" "\<forall>i < 8. bit bm i = (sb ! i \<noteq> 0)"
    using emit_subblocks_ok [OF _ cl lsb zero] assms(4) unfolding st' by blast
  have "enc st1 = enc st @ [block_header 0 False bo]"
    unfolding st1_def enc_consume
  proof (rule append_octet_enc)
    show "length (enc (s1g_tim_append_octet st (block_header 0 False bo))) < 256"
      using assms(4) emit_subblocks_mono [of st1 sb "clamp_subblocks max_aid bo"] unfolding st' st1_def by simp
  qed
  with bm(1) have e: "enc ?st' = enc st @ block_header 0 False bo # bm # filter (\<lambda>b. b \<noteq> 0) sb" by simp
  have "decodes (block_header 0 False bo # bm # filter (\<lambda>b. b \<noteq> 0) sb) (block_octets (8 * bo) sb)"
    using o(1) bm(2) lsb by (intro decodes_block) (auto simp: bo_def)
  moreover have "block_octets (8 * bo) sb = block_octets (8 * bo) (replicate (?o mod 8) 0) @
      block_octets ?o (take n ?m) @ block_octets (?o + n) (replicate (8 - ?o mod 8 - n) 0)"
    using o(3) n(1) by (simp add: sb_def block_octets_append min_absorb2 add.assoc)
  moreover have "\<forall>x \<in> set (block_octets f (replicate k 0)). snd x = 0" for f k
    by (auto simp: block_octets_def dest: set_zip_rightD)
  ultimately have "decodes (block_header 0 False bo # bm # filter (\<lambda>b. b \<noteq> 0) sb) (block_octets ?o (take n ?m))"
    by (metis decodes_drop_zeros sorted_block_octets Un_iff)
  then show ?thesis using e n(1) assms(1)
    by (intro emitsI [of _ _ _ n]) (auto simp: st' st1_def state_ok_def)
qed

text \<open>Single AIDs of one octet, stored bit by bit, are the octet.\<close>

abbreviation bit_octets :: "nat \<Rightarrow> u8 \<Rightarrow> nat \<Rightarrow> (nat \<times> u8) list" where
  "bit_octets k b m \<equiv> map (\<lambda>q. (k, push_bit q 1)) (filter (bit b) [0..<m])"

lemma octet_step_or:
  assumes "octet_step k a s t" "octet_step k b t u"
  shows "octet_step k (a OR b) s u"
proof (cases "a = 0 \<or> b = 0")
  case True
  then show ?thesis using assms by (auto simp: octet_step_def)
next
  case False
  then have "octet_stored k a (fst s) (fst t)" "octet_stored k b (fst t) (fst u)" using assms by (simp_all add: octet_step_def)
  moreover from this have "tim_offset (fst u) = tim_offset (fst t)" by (simp add: octet_stored_def)
  ultimately show ?thesis using assms False
    by (auto simp: octet_step_def or_eq_0_iff intro: octet_stored_trans)
qed

lemma bits_stored:
  "m \<le> 8 \<Longrightarrow> octs_stored (bit_octets k b m) s t \<Longrightarrow> octet_step k (take_bit m b) s t"
proof (induction m arbitrary: t)
  case 0
  then show ?case by (simp add: octet_step_def)
next
  case (Suc m)
  show ?case
  proof (cases "bit b m")
    case True
    with Suc.prems(2) obtain u where "octs_stored (bit_octets k b m) s u" "octet_step k (push_bit m 1) u t"
      by (auto simp: octs_stored_append)
    from octet_step_or [OF Suc.IH [OF _ this(1)] this(2)] Suc.prems(1) True show ?thesis
      by (simp add: take_bit_Suc_or)
  next
    case False
    with Suc show ?thesis by (simp add: take_bit_Suc_or)
  qed
qed

lemma fits_bits:
  assumes "fits tim [(k, b)]"
  shows "fits tim (bit_octets k b 8)"
proof -
  have "sorted (map fst (bit_octets k b 8))" by (simp add: comp_def sorted_wrt_map sorted_wrt_iff_nth_less)
  moreover have "b \<noteq> 0" if "bit b q" for q using that by auto
  ultimately show ?thesis using assms by (auto simp: fits_def)
qed

lemma decodes_bits:
  assumes "decodes bs (bit_octets k b 8)"
  shows "decodes bs [(k, b)]"
proof -
  have "octs_stored [(k, b)] s t" if "octs_stored (bit_octets k b 8) s t" for s t
    using bits_stored [OF _ that] by (cases t) (simp add: take_bit_word_eq_self)
  with fits_bits assms show ?thesis unfolding decodes_def by blast
qed

lemma decodes_singles:
  assumes "k \<le> 250" "\<forall>q \<in> set qs. q < 8"
  shows "decodes (concat (map (\<lambda>q. [block_header 1 False (k div 8), word_of_nat ((8 * k + q) mod 64)]) qs))
    (map (\<lambda>q. (k, push_bit q 1)) qs)"
  using assms(2)
proof (induction qs)
  case Nil
  then show ?case by (simp add: decodes_zeros)
next
  case (Cons q qs)
  then show ?case using decodes_append [OF decodes_single [OF assms(1), of q] Cons.IH] by simp
qed

definition single_step :: "nat \<Rightarrow> u8 \<Rightarrow> parse_state \<Rightarrow> nat \<Rightarrow> parse_state" where
  "single_step k b st r = (if bit b r then
     s1g_tim_append_octet (s1g_tim_append_octet st (block_header 1 False (k div 8))) (word_of_nat ((8 * k + r) mod 64))
     else st)"

lemma single_step_mono: "length (enc st) \<le> length (enc (single_step k b st r))"
  unfolding single_step_def
  using le_trans [OF append_octet_enc(2) append_octet_enc(2)] by simp

lemma single_step_enc:
  assumes "length (enc (single_step k b st r)) < 256"
  shows "enc (single_step k b st r) = enc st @
    (if bit b r then [block_header 1 False (k div 8), word_of_nat ((8 * k + r) mod 64)] else [])"
proof (cases "bit b r")
  case True
  let ?st = "s1g_tim_append_octet st (block_header 1 False (k div 8))"
  have "enc (single_step k b st r) = enc ?st @ [word_of_nat ((8 * k + r) mod 64)]"
    using assms unfolding single_step_def if_P [OF True] by (rule append_octet_enc(1))
  moreover from this have "enc ?st = enc st @ [block_header 1 False (k div 8)]"
    using assms by (intro append_octet_enc) simp
  ultimately show ?thesis using True by simp
qed (simp add: single_step_def)

lemma singles_enc:
  "length (enc (foldl (single_step k b) st [0..<m])) < 256 \<Longrightarrow>
    enc (foldl (single_step k b) st [0..<m]) = enc st @
      concat (map (\<lambda>q. [block_header 1 False (k div 8), word_of_nat ((8 * k + q) mod 64)]) (filter (bit b) [0..<m]))"
proof (induction m)
  case 0
  then show ?case by simp
next
  case (Suc m)
  let ?st = "foldl (single_step k b) st [0..<m]"
  have "length (enc (single_step k b ?st m)) < 256" using Suc.prems by simp
  moreover from this have "length (enc ?st) < 256" using le_less_trans [OF single_step_mono] by blast
  ultimately show ?case using single_step_enc [of k b ?st m] Suc.IH by simp
qed

lemma or_low_bits:
  assumes "r < 8"
  shows "(k * 8) OR r = 8 * k + (r :: nat)"
proof -
  have p: "k * 8 = push_bit 3 k" by (simp add: push_bit_eq_mult)
  have "\<not> bit (push_bit 3 k) i \<or> \<not> bit r i" for i
    using bit_below [of r 3 i] assms by (auto simp: bit_push_bit_iff_nat)
  then have "push_bit 3 k + r = push_bit 3 k OR r" by (rule disjunctive_add)
  then show ?thesis unfolding p [symmetric] by simp
qed

lemma single_mode_fold:
  assumes "octet_offset_11n st \<le> 250"
  shows "tim_to_s1g_parse_single_mode False st =
    foldl (single_step (octet_offset_11n st) (map_11n st ! 0)) (consume_11n_tim_octets 1 st) [0..<8]"
  unfolding tim_to_s1g_parse_single_mode_def Let_def block_offset_of_octet [OF assms] if_False
  by (intro foldl_cong refl) (simp add: single_step_def or_low_bits)

lemma single_mode_mono:
  assumes "octet_offset_11n st \<le> 250"
  shows "length (enc st) \<le> length (enc (tim_to_s1g_parse_single_mode False st))"
  unfolding single_mode_fold [OF assms]
  by (rule le_trans [OF _ foldl_enc_mono [OF single_step_mono]]) simp

lemma single_mode_emits:
  assumes "state_ok max_aid st" "map_11n st \<noteq> []"
    "length (enc (tim_to_s1g_parse_single_mode False st)) < 256"
  shows "emits max_aid st (tim_to_s1g_parse_single_mode False st)"
proof -
  let ?o = "octet_offset_11n st" and ?b = "map_11n st ! 0"
  have o: "?o \<le> 250" using state_ok_first [OF assms(1,2)] by simp
  define bs where "bs = concat (map (\<lambda>q. [block_header 1 False (?o div 8), word_of_nat ((8 * ?o + q) mod 64)]) (filter (bit ?b) [0..<8]))"
  have e: "enc (tim_to_s1g_parse_single_mode False st) = enc st @ bs"
    using singles_enc [of ?o ?b "consume_11n_tim_octets 1 st" 8] assms(3) unfolding single_mode_fold [OF o] bs_def by simp
  have frame: "octet_offset_11n (single_step k b s r) = octet_offset_11n s" "map_11n (single_step k b s r) = map_11n s" for k b s r
    by (simp_all add: single_step_def)
  have frames: "octet_offset_11n (tim_to_s1g_parse_single_mode False st) = octet_offset_11n (consume_11n_tim_octets 1 st)"
    "map_11n (tim_to_s1g_parse_single_mode False st) = map_11n (consume_11n_tim_octets 1 st)"
    unfolding single_mode_fold [OF o] by (rule foldl_frame, rule frame)+
  have "decodes bs (bit_octets ?o ?b 8)" unfolding bs_def using o by (intro decodes_singles) auto
  then have "decodes bs [(?o, ?b)]" by (rule decodes_bits)
  moreover have "block_octets ?o (take 1 (map_11n st)) = [(?o, ?b)]"
    using assms(2) by (cases "map_11n st") (simp_all add: block_octets_Cons)
  moreover have "1 \<le> length (map_11n st)" using assms(2) by (cases "map_11n st") simp_all
  ultimately show ?thesis using e frames assms(1)
    by (intro emitsI [of _ _ _ 1]) (auto simp: state_ok_def)
qed

lemma olb_stop_bound:
  assumes "off + n \<le> 251"
  shows "olb_stop (off * 8) n mp \<le> off + n \<and> (\<forall>i < n. mp ! i \<noteq> 0 \<longrightarrow> off + i < olb_stop (off * 8) n mp)"
  using assms
proof (induction n)
  case 0
  then show ?case by (simp add: olb_stop_def)
next
  case (Suc n)
  let ?s = "olb_stop (off * 8) n mp"
  have pos: "trunc8 (trunc16 (off * 8 + n * 8 + j) div 8) = off + n" if "j < 8" for j
  proof -
    have "off * 8 + n * 8 + j < 2048" using that Suc.prems by simp
    then have "trunc16 (off * 8 + n * 8 + j) = off * 8 + n * 8 + j" by simp
    moreover have "(off * 8 + n * 8 + j) div 8 = off + n" using that by presburger
    ultimately show ?thesis using Suc.prems by simp
  qed
  have s: "?s \<le> off + n" using Suc by simp
  define bits where "bits = (\<lambda>m. foldl (\<lambda>stop j. if bit (mp ! n) j
      then (let pos_m = trunc8 (trunc16 (off * 8 + n * 8 + j) div 8) in if stop \<le> pos_m then trunc8 (pos_m + 1) else stop)
      else stop) ?s [0..<m])"
  have step: "olb_stop (off * 8) (Suc n) mp = bits 8" by (simp add: olb_stop_def bits_def)
  have inner: "bits m = (if take_bit m (mp ! n) = 0 then ?s else off + n + 1)" if "m \<le> 8" for m
    using that
  proof (induction m)
    case 0
    then show ?case by (simp add: bits_def)
  next
    case (Suc m)
    have "bits (Suc m) = (if bit (mp ! n) m then (let p = off + n in if bits m \<le> p then trunc8 (p + 1) else bits m) else bits m)"
      using pos [of m] Suc.prems unfolding Let_def by (simp add: bits_def Let_def)
    moreover have "(take_bit m (mp ! n) OR push_bit m 1) \<noteq> 0"
      using or_nonzero [OF push_bit_1_nonzero [of m]] Suc.prems by (metis or.commute Suc_le_lessD)
    moreover have "off + n + 1 < 256" using \<open>off + Suc n \<le> 251\<close> by simp
    ultimately show ?case using Suc s by (simp add: take_bit_Suc_or Let_def)
  qed
  have "bits 8 = (if mp ! n = 0 then ?s else off + n + 1)" using inner [of 8] by (simp add: take_bit_word_eq_self)
  with step s Suc show ?case by (auto simp: less_Suc_eq)
qed

lemma emit_olb_mono: "length (enc st) \<le> length (enc (emit_olb v sb r st))"
proof -
  have "length (enc st) \<le> length (enc (foldl (\<lambda>st i. s1g_tim_append_octet st (sb ! i))
      (s1g_tim_append_octet (s1g_tim_append_octet st a) b) xs))" for a b xs
    by (rule le_trans [OF append_octet_enc(2) le_trans [OF append_octet_enc(2) foldl_append_octets(2)]])
  then show ?thesis by (simp add: emit_olb_def case_prod_beta Let_def)
qed

lemma olb_mode_mono: "length (enc st) \<le> length (enc (tim_to_s1g_parse_olb_mode v max_aid st))"
  unfolding tim_to_s1g_parse_olb_mode_def Let_def
  by (rule le_trans [OF _ emit_olb_mono]) simp

lemma emit_olb_ok:
  assumes "start < stop" "stop - start < 256" "length (enc (emit_olb False sb (start, stop, bo) st)) < 256"
  shows "enc (emit_olb False sb (start, stop, bo) st) =
    enc st @ block_header 2 False bo # word_of_nat (stop - start) # map ((!) sb) [start..<stop]"
proof -
  let ?st1 = "s1g_tim_append_octet st (block_header 2 False bo)"
  let ?st2 = "s1g_tim_append_octet ?st1 (word_of_nat (stop - start))"
  have num: "nat ((int stop - int start) mod 256) = stop - start"
  proof -
    have "int stop - int start = int (stop - start)" using assms(1) by simp
    moreover have "int (stop - start) mod 256 = int (stop - start)"
      using assms(2) by (intro mod_pos_pos_trivial) linarith+
    ultimately show ?thesis by (simp only: nat_int)
  qed
  have nz: "stop - start \<noteq> 0" using assms(1) by simp
  have e: "emit_olb False sb (start, stop, bo) st = foldl (\<lambda>st i. s1g_tim_append_octet st (sb ! i)) ?st2 [start..<stop]"
    unfolding emit_olb_def prod.case Let_def num if_P [OF nz] by (rule refl)
  have 3: "enc (emit_olb False sb (start, stop, bo) st) = enc ?st2 @ map ((!) sb) [start..<stop]"
    using assms(3) unfolding e by (rule foldl_append_octets)
  then have l2: "length (enc ?st2) < 256" using assms(3) by simp
  have 2: "enc ?st2 = enc ?st1 @ [word_of_nat (stop - start)]" using l2 by (rule append_octet_enc)
  then have "length (enc ?st1) < 256" using l2 by simp
  then have "enc ?st1 = enc st @ [block_header 2 False bo]" by (rule append_octet_enc)
  with 2 3 show ?thesis by simp
qed

lemma olb_mode_emits:
  assumes "state_ok max_aid st" "map_11n st \<noteq> []"
    "length (enc (tim_to_s1g_parse_olb_mode False max_aid st)) < 256"
  shows "emits max_aid st (tim_to_s1g_parse_olb_mode False max_aid st)"
proof -
  let ?o = "octet_offset_11n st" and ?m = "map_11n st"
  let ?st' = "tim_to_s1g_parse_olb_mode False max_aid st"
  define bo where "bo = ?o div 8"
  define n where "n = length ?m"
  define sb where "sb = replicate ?o 0 @ ?m @ replicate (256 - ?o - n) (0 :: u8)"
  define stop where "stop = olb_stop (?o * 8) n ?m"
  have o: "?o \<le> 250" "?o = 8 * bo + ?o mod 8" "bo < 32"
    using state_ok_first [OF assms(1,2)] by (auto simp: bo_def)
  have len: "?o + n \<le> 251" using assms(1) by (simp add: state_ok_def n_def)
  have n: "min (length ?m) S1G_TIM_MAX_BLOCK_SIZE = n" using len by (simp add: n_def S1G_TIM_MAX_BLOCK_SIZE_def)
  have fill: "fill_subblocks (\<lambda>aid. trunc8 (aid div 8)) False (?o * 8) n ?m (replicate S1G_TIM_MAX_BLOCK_SIZE 0) = sb"
  proof -
    have "fill_subblocks (\<lambda>aid. trunc8 (aid div 8)) False (?o * 8) n ?m (replicate 256 0) =
        replicate ?o 0 @ take n ?m @ replicate (256 - ?o - n) 0"
    proof (rule fill_subblocks_eq)
      show "n \<le> length ?m" "?o + n \<le> 256" "8 * ?o + 8 * n \<le> 2048" using len by (simp_all add: n_def)
      fix i j :: nat
      assume "i < n" "j < 8"
      then have "(8 * (?o + i) + j) div 8 = ?o + i" "?o + i < 256" using len by simp_all
      then show "trunc8 ((8 * (?o + i) + j) div 8) = ?o + i" by simp
    qed
    then show ?thesis by (simp add: sb_def S1G_TIM_MAX_BLOCK_SIZE_def n_def)
  qed
  have st: "stop \<le> ?o + n" "\<And>i. i < n \<Longrightarrow> ?m ! i \<noteq> 0 \<Longrightarrow> ?o + i < stop"
    using olb_stop_bound [OF len, of ?m] by (simp_all add: stop_def)
  have first: "?m ! 0 \<noteq> 0" "0 < n" using assms(1,2) by (simp_all add: state_ok_def n_def)
  have lo: "?o < stop" using st(2) [of 0] first by simp
  have start: "trunc8 (bo * 8) = 8 * bo" using o(3) by simp
  have st': "?st' = emit_olb False sb (8 * bo, stop, bo) (consume_11n_tim_octets n st)"
    unfolding tim_to_s1g_parse_olb_mode_def Let_def block_offset_of_octet [OF o(1)] n bo_def [symmetric] start if_False
    unfolding fill stop_def [symmetric] by (simp add: olb_range_def)
  have "8 * bo < stop" "stop - 8 * bo < 256" using lo st(1) len o(2) by linarith+
  then have e: "enc ?st' = enc st @ block_header 2 False bo # word_of_nat (stop - 8 * bo) # map ((!) sb) [8 * bo..<stop]"
    using emit_olb_ok [of "8 * bo" stop sb bo "consume_11n_tim_octets n st"] assms(3) unfolding st' by simp
  define bs where "bs = map ((!) sb) [8 * bo..<stop]"
  have bs: "bs = replicate (?o mod 8) 0 @ take (stop - ?o) ?m"
  proof (rule nth_equalityI)
    show l: "length bs = length (replicate (?o mod 8) 0 @ take (stop - ?o) ?m)"
      using st(1) lo o(2) by (simp add: bs_def n_def [symmetric])
    fix i assume "i < length bs"
    then have i: "8 * bo + i < stop" by (simp add: bs_def)
    then have "bs ! i = sb ! (8 * bo + i)" by (simp add: bs_def)
    also have "\<dots> = (replicate (?o mod 8) 0 @ take (stop - ?o) ?m) ! i"
    proof (cases "i < ?o mod 8")
      case True
      then have "8 * bo + i < ?o" using o(2) by linarith
      with True show ?thesis by (simp add: sb_def nth_append)
    next
      case False
      then have "\<not> 8 * bo + i < ?o" "8 * bo + i - ?o = i - ?o mod 8" "i - ?o mod 8 < stop - ?o" "i - ?o mod 8 < n"
        using o(2) i st(1) by linarith+
      with False show ?thesis by (simp add: sb_def nth_append n_def)
    qed
    finally show "bs ! i = (replicate (?o mod 8) 0 @ take (stop - ?o) ?m) ! i" .
  qed
  have lbs: "length bs = stop - 8 * bo" by (simp add: bs_def)
  have dec: "decodes (block_header 2 False bo # word_of_nat (length bs) # bs) (block_octets (8 * bo) bs)"
    using o(3) st(1) len lo lbs o(2) by (intro decodes_olb) linarith+
  have split: "block_octets (8 * bo) bs = block_octets (8 * bo) (replicate (?o mod 8) 0) @ block_octets ?o (take (stop - ?o) ?m) @ []"
    using o(2) by (simp add: bs block_octets_append)
  have zeros: "\<forall>x \<in> set (block_octets (8 * bo) (replicate (?o mod 8) 0)) \<union> set []. snd x = (0 :: u8)"
    by (auto simp: block_octets_def dest: set_zip_rightD)
  have "decodes (block_header 2 False bo # word_of_nat (length bs) # bs) (block_octets ?o (take (stop - ?o) ?m))"
    using dec zeros sorted_block_octets [of "8 * bo" bs] unfolding split by (rule decodes_drop_zeros)
  moreover have "decodes [] (block_octets stop (drop (stop - ?o) ?m))"
  proof (rule decodes_zeros, rule ballI)
    fix x assume "x \<in> set (block_octets stop (drop (stop - ?o) ?m))"
    then obtain i where i: "i < n - (stop - ?o)" "snd x = ?m ! (stop - ?o + i)"
      by (auto simp: block_octets_def set_zip n_def)
    then show "snd x = 0" using st(2) [of "stop - ?o + i"] lo by fastforce
  qed
  moreover have "block_octets ?o (take n ?m) = block_octets ?o (take (stop - ?o) ?m) @ block_octets stop (drop (stop - ?o) ?m)"
    using block_octets_append [of ?o "take (stop - ?o) ?m" "drop (stop - ?o) ?m"] st(1) lo
    by (simp add: n_def min_absorb2)
  ultimately have "decodes ((block_header 2 False bo # word_of_nat (length bs) # bs) @ []) (block_octets ?o (take n ?m))"
    using decodes_append by metis
  then show ?thesis using e assms(1)
    by (intro emitsI [of _ _ _ n]) (auto simp: st' bs_def [symmetric] lbs [symmetric] n_def state_ok_def)
qed

section \<open>The whole loop\<close>

text \<open>What the loop of the encoder relies on in a mode.\<close>

locale tim_codec =
  fixes mode_step :: "nat \<Rightarrow> parse_state \<Rightarrow> parse_state" and mode :: nat
  assumes mode_of_step: "encode_step mode False max_aid st = Some (mode_step max_aid st)"
    and step_mono: "state_ok max_aid st \<Longrightarrow> map_11n st \<noteq> [] \<Longrightarrow> length (enc st) \<le> length (enc (mode_step max_aid st))"
    and step_emits: "state_ok max_aid st \<Longrightarrow> max_aid \<le> 2007 \<Longrightarrow> map_11n st \<noteq> [] \<Longrightarrow>
      length (enc (mode_step max_aid st)) < 256 \<Longrightarrow> emits max_aid st (mode_step max_aid st)"
    and step_state: "state_ok max_aid st \<Longrightarrow> map_11n st \<noteq> [] \<Longrightarrow> state_ok max_aid (mode_step max_aid st)"
begin

lemma loop_returns: "\<exists>st'. encode_loop mode False max_aid st = Some st'"
proof (induction "length (map_11n st)" arbitrary: st rule: less_induct)
  case less
  show ?case
  proof (cases "map_11n st = []")
    case False
    then have "length (map_11n (mode_step max_aid st)) < length (map_11n st)"
      using encode_step_shorter [OF mode_of_step] by blast
    from less [OF this] False show ?thesis by (subst encode_loop.simps) (simp add: mode_of_step)
  qed (simp add: encode_loop.simps)
qed

lemma loop_unfold:
  "map_11n st \<noteq> [] \<Longrightarrow> length (enc st) < 256 \<Longrightarrow>
    encode_loop mode False max_aid st = encode_loop mode False max_aid (mode_step max_aid st)"
  by (subst encode_loop.simps) (simp add: mode_of_step S1G_TIM_MAX_BLOCK_SIZE_def)

lemma loop_full: "\<not> length (enc st) < 256 \<Longrightarrow> encode_loop mode False max_aid st = Some st"
  by (subst encode_loop.simps) (simp add: S1G_TIM_MAX_BLOCK_SIZE_def)

lemma loop_emits:
  assumes "max_aid \<le> 2007" "state_ok max_aid st" "encode_loop mode False max_aid st = Some st'" "length (enc st') < 256"
  shows "length (enc st) \<le> length (enc st') \<and> (\<exists>bs. enc st' = enc st @ bs \<and> decodes bs (octets_left st))"
  using assms(2-4)
proof (induction "length (map_11n st)" arbitrary: st rule: less_induct)
  case less
  show ?case
  proof (cases "map_11n st = []")
    case True
    then have "st' = st" using less.prems(2) by (simp add: encode_loop.simps)
    with True show ?thesis by (simp add: decodes_zeros)
  next
    case False
    let ?s = "mode_step max_aid st"
    have "length (enc st) < 256" using loop_full less.prems(2,3) by fastforce
    note loop_unfold = loop_unfold [OF False this]
    have "length (map_11n ?s) < length (map_11n st)" using encode_step_shorter [OF mode_of_step False] .
    moreover have "state_ok max_aid ?s" using step_state [OF less.prems(1) False] .
    moreover have "encode_loop mode False max_aid ?s = Some st'" using less.prems(2) loop_unfold by simp
    ultimately obtain bs where bs: "length (enc ?s) \<le> length (enc st')" "enc st' = enc ?s @ bs" "decodes bs (octets_left ?s)"
      using less.hyps [of ?s] less.prems(3) by blast
    then have "emits max_aid st ?s" using step_emits [OF less.prems(1) assms(1) False] less.prems(3) by simp
    then obtain cs xs where "enc ?s = enc st @ cs" "octets_left st = xs @ octets_left ?s" "decodes cs xs"
      by (auto simp: emits_def)
    with bs decodes_append [of cs xs bs] show ?thesis by auto
  qed
qed

end

lemma state_ok_consume: "state_ok max_aid st \<Longrightarrow> n \<le> length (map_11n st) \<Longrightarrow> state_ok max_aid (consume_11n_tim_octets n st)"
  using consume_ok [of st n max_aid] by (auto simp: state_ok_def)

lemma consume_state_cong:
  "map_11n s = map_11n t \<Longrightarrow> octet_offset_11n s = octet_offset_11n t \<Longrightarrow> state_ok m s = state_ok m t"
  by (simp add: state_ok_def)

lemma length_pos: "xs \<noteq> [] \<Longrightarrow> Suc 0 \<le> length xs"
  by (cases xs) simp_all

lemma block_mode_state:
  "state_ok max_aid st \<Longrightarrow> state_ok max_aid (tim_to_s1g_parse_block_mode v max_aid st)"
  unfolding tim_to_s1g_parse_block_mode_def Let_def
  using state_ok_consume [of max_aid st "min (length (map_11n st)) (8 - octet_offset_11n st mod 8)"]
  by (simp add: state_ok_def)

lemma single_mode_state:
  assumes "state_ok max_aid st" "map_11n st \<noteq> []"
  shows "state_ok max_aid (tim_to_s1g_parse_single_mode False st)"
proof -
  have o: "octet_offset_11n st \<le> 250" using state_ok_first [OF assms] by simp
  have "map_11n (foldl (single_step k b) s xs) = map_11n s" "octet_offset_11n (foldl (single_step k b) s xs) = octet_offset_11n s"
    for k b s xs by (rule foldl_frame, simp add: single_step_def)+
  then show ?thesis using state_ok_consume [OF assms(1) length_pos [OF assms(2)]]
    unfolding single_mode_fold [OF o] by (simp add: state_ok_def)
qed

lemma olb_mode_state:
  "state_ok max_aid st \<Longrightarrow> state_ok max_aid (tim_to_s1g_parse_olb_mode v max_aid st)"
  unfolding tim_to_s1g_parse_olb_mode_def Let_def
  using state_ok_consume [of max_aid st "min (length (map_11n st)) S1G_TIM_MAX_BLOCK_SIZE"]
  by (simp add: state_ok_def)

interpretation block: tim_codec "\<lambda>max_aid st. tim_to_s1g_parse_block_mode False max_aid st" 0
  by unfold_locales
    (simp_all add: encode_step_def block_mode_mono block_mode_emits block_mode_state)

interpretation single: tim_codec "\<lambda>max_aid st. tim_to_s1g_parse_single_mode False st" 1
  by unfold_locales
    (simp_all add: encode_step_def single_mode_mono single_mode_emits single_mode_state state_ok_first)

interpretation olb: tim_codec "\<lambda>max_aid st. tim_to_s1g_parse_olb_mode False max_aid st" 2
  by unfold_locales
    (simp_all add: encode_step_def olb_mode_mono olb_mode_emits olb_mode_state)


section \<open>The round trip\<close>

text \<open>What storing a list of octets adds to octet \<open>k\<close>.\<close>

primrec octet_of :: "(nat \<times> u8) list \<Rightarrow> nat \<Rightarrow> u8" where
  "octet_of [] k = 0"
| "octet_of (x # xs) k = (if fst x = k then snd x else 0) OR octet_of xs k"

lemma octet_of_append: "octet_of (xs @ ys) k = octet_of xs k OR octet_of ys k"
  by (induction xs) (simp_all add: or.assoc)

lemma octet_of_block: "octet_of (block_octets f bs) k = (if f \<le> k \<and> k - f < length bs then bs ! (k - f) else 0)"
proof (induction bs arbitrary: f)
  case Nil
  then show ?case by simp
next
  case (Cons b bs)
  then show ?case
    by (cases "k = f") (auto simp: block_octets_Cons nth_Cons' Suc_diff_Suc not_less_eq_eq intro!: arg_cong [of _ _ "(!) bs"])
qed

text \<open>What the stores keep: the other fields, and that the octet number they return covers the map.\<close>

definition stored_all :: "(nat \<times> u8) list \<Rightarrow> tim_ie \<times> nat \<Rightarrow> tim_ie \<times> nat \<Rightarrow> bool" where
  "stored_all xs s s' \<longleftrightarrow>
     (\<forall>k. tim_octet (fst s') k = tim_octet (fst s) k OR octet_of xs k) \<and>
     (\<forall>k. tim_octet (fst s') k \<noteq> 0 \<longrightarrow> k - tim_offset (fst s') \<le> snd s') \<and>
     dtim_count (fst s') = dtim_count (fst s) \<and> dtim_period (fst s') = dtim_period (fst s) \<and>
     bitmap_ctrl (fst s') AND 1 = bitmap_ctrl (fst s) AND 1"

lemma empty_octet: "tim_empty tim \<Longrightarrow> tim_octet tim k = 0"
  by (auto simp: tim_empty_def tim_octet_def)

lemma octet_step_stored_all:
  assumes "octet_step k b s s'" "\<forall>k. tim_octet (fst s) k \<noteq> 0 \<longrightarrow> k - tim_offset (fst s) \<le> snd s"
  shows "stored_all [(k, b)] s s'"
proof (cases "b = 0")
  case True
  then show ?thesis using assms by (auto simp: octet_step_def stored_all_def)
next
  case False
  then have os: "octet_stored k b (fst s) (fst s')" "snd s' = max (snd s) (k - tim_offset (fst s'))"
    using assms(1) by (simp_all add: octet_step_def)
  have "j - tim_offset (fst s') \<le> snd s'" if "tim_octet (fst s') j \<noteq> 0" for j
  proof (cases "j = k")
    case False
    then have "tim_octet (fst s) j \<noteq> 0" using os(1) that by (simp add: octet_stored_def)
    moreover from this have "\<not> tim_empty (fst s)" using empty_octet by blast
    then have "tim_offset (fst s') = tim_offset (fst s)" using os(1) by (simp add: octet_stored_def)
    ultimately show ?thesis using assms(2) os(2) by fastforce
  qed (use os(2) in simp)
  then show ?thesis using os(1) by (auto simp: stored_all_def octet_stored_def)
qed

lemma octs_stored_all:
  "octs_stored xs s s' \<Longrightarrow> \<forall>k. tim_octet (fst s) k \<noteq> 0 \<longrightarrow> k - tim_offset (fst s) \<le> snd s \<Longrightarrow> stored_all xs s s'"
proof (induction xs arbitrary: s)
  case Nil
  then show ?case by (simp add: stored_all_def)
next
  case (Cons x xs)
  obtain k b where x: "x = (k, b)" by (cases x)
  with Cons.prems obtain t where t: "octet_step k b s t" "octs_stored xs t s'" by auto
  note a = octet_step_stored_all [OF t(1) Cons.prems(2)]
  then have "stored_all xs t s'" using Cons.IH [OF t(2)] by (simp add: stored_all_def)
  with a show ?case by (simp add: stored_all_def x or.assoc)
qed

lemma codec_loop:
  assumes "mode \<le> 2" "max_aid \<le> 2007" "state_ok max_aid st"
  shows "\<exists>st'. encode_loop mode False max_aid st = Some st' \<and>
    (length (enc st') < 256 \<longrightarrow> (\<exists>bs. enc st' = enc st @ bs \<and> decodes bs (octets_left st)))"
proof -
  consider "mode = 0" | "mode = 1" | "mode = 2" using assms(1) by linarith
  then show ?thesis
  proof cases
    case 1
    then show ?thesis using block.loop_returns [of max_aid st] block.loop_emits [OF assms(2,3)] by blast
  next
    case 2
    then show ?thesis using single.loop_returns [of max_aid st] single.loop_emits [OF assms(2,3)] by blast
  next
    case 3
    then show ?thesis using olb.loop_returns [of max_aid st] olb.loop_emits [OF assms(2,3)] by blast
  qed
qed

text \<open>The control octet: multicast flag, page slice number, page index 0.\<close>

lemma control_fields:
  assumes "(psn :: u8) < 32"
  shows "drop_bit 6 (c AND 1 OR push_bit 1 psn) = 0" "(c AND 1 OR push_bit 1 psn) AND 1 = c AND 1"
    "drop_bit 1 ((c AND 1 OR push_bit 1 psn) AND 0x3E) = psn"
proof -
  have "unat psn < 2 ^ 5" using assms by (simp add: word_less_nat_alt)
  then have b: "i < 5" if "bit psn i" for i
    using bit_below [of "unat psn" 5 i] that by (simp add: bit_unsigned_iff)
  define p where "p = push_bit 1 psn"
  have p: "bit p i = (0 < i \<and> i < 8 \<and> bit psn (i - 1))" for i
    unfolding p_def bit_push_bit_iff by (auto dest: b)
  have p6: "\<not> bit p (6 + n)" for n by (auto simp: p dest: b)
  show "drop_bit 6 (c AND 1 OR push_bit 1 psn) = 0"
    unfolding p_def [symmetric] by (rule bit_word_eqI) (simp add: bit_simps bit_1_iff p6)
  show "(c AND 1 OR push_bit 1 psn) AND 1 = c AND 1"
    unfolding p_def [symmetric] by (rule bit_word_eqI) (auto simp: bit_simps bit_1_iff p)
  define q where "q = (0x3E :: u8)"
  have "q = push_bit 1 (mask 5)" by (simp add: q_def mask_eq_exp_minus_1)
  then have q: "bit q (Suc n) = (n < 5)" for n by (simp only: bit_push_bit_iff) (auto simp: bit_mask_iff)
  show "drop_bit 1 ((c AND 1 OR push_bit 1 psn) AND 0x3E) = psn"
    unfolding p_def [symmetric] q_def [symmetric]
    by (rule bit_word_eqI) (auto simp: bit_drop_bit_eq bit_and_iff bit_or_iff bit_1_iff q p dest: b)
qed

definition begin_state :: "tim_ie \<Rightarrow> nat \<Rightarrow> parse_state" where
  "begin_state tim n = \<lparr>enc = [], map_11n = take n (virtual_map tim), octet_offset_11n = tim_offset tim\<rparr>"

text \<open>The AIDs a map sets are at most \<open>max_aid\<close>, and it ends by octet 251.\<close>

definition map_within :: "nat \<Rightarrow> nat \<Rightarrow> tim_ie \<Rightarrow> bool" where
  "map_within max_aid n tim \<longleftrightarrow> n \<le> length (virtual_map tim) \<and> tim_offset tim + n \<le> 251 \<and>
     (\<forall>i < n. virtual_map tim ! i \<noteq> 0 \<longrightarrow> 8 * (tim_offset tim + i) \<le> max_aid)"

lemma encode_decodes:
  assumes "mode \<le> 2" "max_aid \<le> 2007" "map_within max_aid n tim"
  shows "\<exists>st. encode_loop mode False max_aid (consume_11n_tim_octets 0 (begin_state tim n)) = Some st \<and>
    (length (enc st) < 256 \<longrightarrow> decodes (enc st) (block_octets (tim_offset tim) (take n (virtual_map tim))))"
proof -
  let ?b = "begin_state tim n"
  have b: "octet_offset_11n ?b + length (map_11n ?b) \<le> 251"
    "\<forall>i < length (map_11n ?b). map_11n ?b ! i \<noteq> 0 \<longrightarrow> 8 * (octet_offset_11n ?b + i) \<le> max_aid"
    using assms(3) by (auto simp: map_within_def begin_state_def)
  obtain zs where zs: "octets_left ?b = zs @ octets_left (consume_11n_tim_octets 0 ?b)" "\<forall>x \<in> set zs. snd x = 0"
    "state_ok max_aid (consume_11n_tim_octets 0 ?b)" using consume_ok [OF b(1) _ b(2), of 0] by auto
  obtain st where st: "encode_loop mode False max_aid (consume_11n_tim_octets 0 ?b) = Some st"
    "length (enc st) < 256 \<longrightarrow> (\<exists>bs. enc st = enc (consume_11n_tim_octets 0 ?b) @ bs \<and> decodes bs (octets_left (consume_11n_tim_octets 0 ?b)))"
    using codec_loop [OF assms(1,2) zs(3)] by blast
  have "decodes (enc st) (octets_left ?b)" if "length (enc st) < 256"
  proof -
    have "enc (consume_11n_tim_octets 0 ?b) = []" by (simp add: begin_state_def)
    then have "decodes (enc st) (octets_left (consume_11n_tim_octets 0 ?b))" using st(2) that by auto
    then have "decodes ([] @ enc st) (zs @ octets_left (consume_11n_tim_octets 0 ?b))"
      using decodes_append [OF decodes_zeros [OF zs(2)]] by blast
    then show ?thesis unfolding zs(1) by simp
  qed
  then show ?thesis using st(1) by (auto simp: begin_state_def)
qed

text \<open>An empty buffer, and what the decoder makes of the octets of a whole element in it.\<close>

lemma decode_whole:
  assumes "decodes info xs" "tim_ok tim" "tim_empty tim" "fits tim xs"
  shows "\<exists>tim' n. decode_loop info (length info) 0 tim 0 0 = Some (tim', Some n) \<and> stored_all xs (tim, 0) (tim', n)"
proof -
  obtain tim' n where d: "octs_stored xs (tim, 0) (tim', n)"
    "decode_loop info (length info) 0 tim 0 0 = decode_loop info (length info) 0 tim' n (length info)"
    using assms(1) [unfolded decodes_def, rule_format, of tim "[]" "length info" 0 "[]"] assms(2,4) by auto
  moreover have "stored_all xs (tim, 0) (tim', n)"
    using octs_stored_all [OF d(1)] empty_octet [OF assms(3)] by simp
  ultimately show ?thesis by (auto simp: decode_loop.simps)
qed

lemma zero_first: "tim_empty buf \<Longrightarrow> (virtual_map buf)[0 := 0] = virtual_map buf"
  by (cases "virtual_map buf") (auto simp: tim_empty_def)

text \<open>The received element \<open>r\<close> is the sent one: the octets of the map, and the fields.\<close>

definition same_tim :: "tim_ie \<Rightarrow> nat \<Rightarrow> tim_ie \<Rightarrow> nat \<Rightarrow> bool" where
  "same_tim sent n r l \<longleftrightarrow>
     (\<forall>k. tim_octet r k = tim_octet (sent\<lparr>virtual_map := take n (virtual_map sent)\<rparr>) k) \<and>
     (\<forall>k. tim_octet r k \<noteq> 0 \<longrightarrow> k - tim_offset r \<le> l) \<and>
     dtim_count r = dtim_count sent \<and> dtim_period r = dtim_period sent \<and>
     bitmap_ctrl r AND 1 = bitmap_ctrl sent AND 1"

lemma decodes_same:
  assumes "decodes info (block_octets (tim_offset tim) (take n (virtual_map tim)))" "map_within max_aid n tim"
    "tim_empty buf" "251 \<le> length (virtual_map buf)" "bitmap_ctrl buf = bitmap_ctrl tim AND 1"
    "dtim_count buf = dtim_count tim" "dtim_period buf = dtim_period tim"
  shows "\<exists>tim' l. decode_loop info (length info) 0 buf 0 0 = Some (tim', Some l) \<and> same_tim tim n tim' l"
proof -
  let ?xs = "block_octets (tim_offset tim) (take n (virtual_map tim))"
  have w: "n \<le> length (virtual_map tim)" "tim_offset tim + n \<le> 251" using assms(2) by (simp_all add: map_within_def)
  have "fits buf ?xs" unfolding fits_def
  proof (intro conjI ballI impI)
    show "sorted (map fst ?xs)" by (rule sorted_block_octets)
    show "tim_empty buf \<or> tim_offset buf \<le> fst x" for x :: "nat \<times> u8" using assms(3) by blast
    fix x assume x: "x \<in> set ?xs"
    obtain k v where "x = (k, v)" by (rule prod.exhaust)
    then have "fst x \<in> set [tim_offset tim..<tim_offset tim + n]"
      using x w(1) by (simp only: block_octets_def length_take min_absorb2 fst_conv) (rule set_zip_leftD)
    then have "fst x < tim_offset tim + n" by simp
    then show "fst x \<le> 250" using w(2) by simp
  qed
  moreover have "tim_ok buf" using assms(3,4) by (simp add: tim_ok_def)
  ultimately obtain tim' l where d: "decode_loop info (length info) 0 buf 0 0 = Some (tim', Some l)"
    "stored_all ?xs (buf, 0) (tim', l)" using decode_whole [OF assms(1) _ assms(3)] by blast
  have "tim_octet tim' k = tim_octet (tim\<lparr>virtual_map := take n (virtual_map tim)\<rparr>) k" for k
    using d(2) empty_octet [OF assms(3)] by (simp add: stored_all_def octet_of_block) (simp add: tim_octet_def tim_offset_def)
  with d assms(5-7) show ?thesis by (auto simp: same_tim_def stored_all_def)
qed

text \<open>A TIM without its multicast bit.\<close>

abbreviation no_multicast :: "tim_ie \<Rightarrow> tim_ie" where
  "no_multicast tim \<equiv> tim\<lparr>bitmap_ctrl := bitmap_ctrl tim AND 0xFE\<rparr>"

lemma same_no_multicast:
  assumes "same_tim tim n r l"
  shows "bitmap_ctrl r AND 1 = 0 \<Longrightarrow> same_tim (no_multicast tim) n r l"
    "tim_offset r = 0 \<Longrightarrow> same_tim (no_multicast tim) n (r\<lparr>bitmap_ctrl := 0\<rparr>) l"
proof -
  have o: "tim_offset (tim\<lparr>bitmap_ctrl := bitmap_ctrl tim AND 0xFE, virtual_map := v\<rparr>) = tim_offset (tim\<lparr>virtual_map := v\<rparr>)" for v
    by (simp add: tim_offset_def and.assoc)
  show "same_tim (no_multicast tim) n r l" if "bitmap_ctrl r AND 1 = 0"
    using assms that o by (simp add: same_tim_def tim_octet_def and.assoc)
  have "tim_octet (no_multicast tim\<lparr>virtual_map := v\<rparr>) k = tim_octet (tim\<lparr>virtual_map := v\<rparr>) k" for v k
    using o by (simp add: tim_octet_def)
  moreover have "tim_offset (r\<lparr>bitmap_ctrl := 0\<rparr>) = 0" by (simp add: tim_offset_def)
  moreover from this have "tim_octet (r\<lparr>bitmap_ctrl := 0\<rparr>) k = tim_octet r k" if "tim_offset r = 0" for k
    using that by (simp add: tim_octet_def)
  ultimately show "same_tim (no_multicast tim) n (r\<lparr>bitmap_ctrl := 0\<rparr>) l" if "tim_offset r = 0"
    using assms that by (simp add: same_tim_def and.assoc)
qed

lemma roundtrip:
  assumes "mode \<le> 2" "max_aid \<le> 2007" "map_within max_aid n tim" "psn \<le> 31"
    "tim_to_s1g tim n mode False max_aid psn 0 = (s1g, len)" "length (encoded_block_info s1g) < 256"
    "tim_empty buf" "251 \<le> length (virtual_map buf)" "bitmap_ctrl buf = 0"
  shows "\<exists>tim' l. s1g_to_tim sizeof_tim buf s1g len = Some (tim', sizeof_tim + l) \<and>
    same_tim (if psn = 31 \<and> encoded_block_info s1g = [] then no_multicast tim else tim) n tim' l"
proof -
  let ?c = "bitmap_ctrl tim AND 1"
  let ?xs = "block_octets (tim_offset tim) (take n (virtual_map tim))"
  obtain st where st: "encode_loop mode False max_aid (consume_11n_tim_octets 0 (begin_state tim n)) = Some st"
    "length (enc st) < 256 \<longrightarrow> decodes (enc st) ?xs" using encode_decodes [OF assms(1-3)] by blast
  have t: "tim_to_s1g tim n mode False max_aid psn 0 =
     (if ?c \<noteq> 0 \<or> 0 < length (enc st) then
        (\<lparr>s1g_dtim_count = dtim_count tim, s1g_dtim_period = dtim_period tim,
          s1g_bitmap_control = ?c OR push_bit 1 psn, encoded_block_info = enc st\<rparr>, 2 + length (enc st) + 1)
      else (\<lparr>s1g_dtim_count = dtim_count tim, s1g_dtim_period = dtim_period tim,
          s1g_bitmap_control = ?c, encoded_block_info = enc st\<rparr>, 2))"
    using st(1) by (simp add: tim_to_s1g_def begin_state_def Let_def)
  have info: "encoded_block_info s1g = enc st" using t assms(5) by (auto split: if_splits)
  then have dec: "decodes (enc st) ?xs" using st(2) assms(6) by simp
  define buf' where "buf' = buf\<lparr>dtim_count := dtim_count tim, dtim_period := dtim_period tim, bitmap_ctrl := ?c\<rparr>"
  have e': "tim_empty buf'" "251 \<le> length (virtual_map buf')" "bitmap_ctrl buf' = ?c"
    "dtim_count buf' = dtim_count tim" "dtim_period buf' = dtim_period tim"
    using assms(7,8) by (simp_all add: buf'_def tim_empty_def tim_offset_def and.assoc)
  obtain tim' l where d: "decode_loop (enc st) (length (enc st)) 0 buf' 0 0 = Some (tim', Some l)" "same_tim tim n tim' l"
    using decodes_same [OF dec assms(3) e'] by blast
  have psn: "psn < 32" "unat psn = 31 \<longleftrightarrow> psn = 31"
    using assms(4) by (auto simp: word_less_nat_alt word_le_nat_alt word_eq_iff_unsigned [where 'a = nat])
  show ?thesis
  proof (cases "?c \<noteq> 0 \<or> 0 < length (enc st)")
    case True
    then have s: "s1g = \<lparr>s1g_dtim_count = dtim_count tim, s1g_dtim_period = dtim_period tim,
          s1g_bitmap_control = ?c OR push_bit 1 psn, encoded_block_info = enc st\<rparr>" "len = 2 + length (enc st) + 1"
      using t assms(5) by simp_all
    have b: "buf\<lparr>dtim_count := dtim_count tim, dtim_period := dtim_period tim,
        bitmap_ctrl := (?c OR push_bit 1 psn) AND 1, virtual_map := (virtual_map buf)[0 := 0]\<rparr> = buf'"
      using control_fields(2) [OF psn(1)] zero_first [OF assms(7)] by (simp add: buf'_def)
    show ?thesis
    proof (cases "enc st = []")
      case True
      then have "tim' = buf'" "l = 0" using d(1) by (simp_all add: decode_loop.simps)
      then have same: "same_tim tim n buf' 0" using d(2) by simp
      then have "same_tim (no_multicast tim) n (buf'\<lparr>bitmap_ctrl := 0\<rparr>) 0"
        using e'(1) by (intro same_no_multicast(2)) (simp_all add: tim_empty_def)
      then have "same_tim (no_multicast tim) n (buf'\<lparr>bitmap_ctrl := 0, virtual_map := (virtual_map buf')[0 := 0]\<rparr>) 0"
        using zero_first [OF e'(1)] by simp
      with True s b psn same control_fields [OF psn(1), of "bitmap_ctrl tim"] show ?thesis
        by (simp add: s1g_to_tim_def Let_def)
    next
      case False
      with s b d control_fields [OF psn(1), of "bitmap_ctrl tim"] show ?thesis
        by (simp add: s1g_to_tim_def Let_def)
    qed
  next
    case False
    then have "enc st = []" "?c = 0" by simp_all
    then have "tim' = buf'" "l = 0" using d(1) by (simp_all add: decode_loop.simps)
    moreover have "buf' = buf\<lparr>dtim_count := dtim_count tim, dtim_period := dtim_period tim\<rparr>"
      using \<open>?c = 0\<close> assms(9) by (simp add: buf'_def)
    moreover have "same_tim (if psn = 31 \<and> enc st = [] then no_multicast tim else tim) n buf' 0"
      using same_no_multicast(1) [OF d(2)] d(2) \<open>?c = 0\<close> \<open>tim' = buf'\<close> \<open>l = 0\<close> e'(3) by simp
    ultimately show ?thesis using t assms(5) False by (auto simp: s1g_to_tim_def Let_def)
  qed
qed

end
