(* ===== verification/Tim_Theorems.thy ===== *)
theory Tim_Theorems
  imports Tim_Codec
begin

text \<open>
  What \<^verbatim>\<open>dot11ah/tim.c\<close> guarantees: the decoder stays inside its buffers for every received element, the
  encoder returns within 256 octets for every map, the modes that are not differential and not
  inverse are read back as they were sent; and the cases where they are not.
\<close>

section \<open>The decoder stays inside its buffers\<close>

lemma store_aid_total:
  assumes "251 \<le> length (virtual_map tim)"
  shows "\<exists>tim' k. store_aid_into_tim tim aid = Some (tim', k) \<and> length (virtual_map tim') = length (virtual_map tim) \<and>
    (k = - EINVAL \<or> 0 \<le> k \<and> k \<le> 250)"
proof -
  have n: "nth_opt (virtual_map tim) 0 = Some (virtual_map tim ! 0)" "nth_opt (virtual_map tim) 1 = Some (virtual_map tim ! 1)"
    using assms by (auto intro!: nth_opt_Some)
  show ?thesis
  proof (cases "2007 < aid")
    case False
    have u: "upd_opt xs i f = Some (xs[i := f (xs ! i)])" if "i < 251" "251 \<le> length xs" for xs :: "u8 list" and i f
      using that by simp
    from False show ?thesis
      unfolding store_aid_into_tim_def Let_def n
      using assms by (auto simp: u simp del: upd_opt_Some split: if_splits)
  qed (simp add: store_aid_into_tim_def)
qed

lemma nth_opt_first: "1 \<le> length xs \<Longrightarrow> nth_opt xs 0 = Some (xs ! 0)"
  by (rule nth_opt_Some) linarith

definition decode_ok :: "nat \<Rightarrow> decode_state \<Rightarrow> bool" where
  "decode_ok n d \<longleftrightarrow> length (virtual_map (d_tim d)) = n \<and> d_len d \<le> 250"

lemma store_bit_total:
  assumes "251 \<le> n" "decode_ok n d"
  shows "\<exists>d'. store_bit aid b q d = Some d' \<and> decode_ok n d' \<and> d_index d' = d_index d"
proof -
  obtain tim' k where "store_aid_into_tim (d_tim d) (aid q) = Some (tim', k)" "length (virtual_map tim') = n"
    "k = - EINVAL \<or> 0 \<le> k \<and> k \<le> 250"
    using store_aid_total [of "d_tim d" "aid q"] assms by (auto simp: decode_ok_def)
  with assms(2) show ?thesis by (auto simp: store_bit_def decode_ok_def EINVAL_def)
qed

lemma read_subblock_total:
  assumes "251 \<le> n" "decode_ok n d" "d_index d < length info"
  shows "\<exists>d'. read_subblock aid info v d = Some d' \<and> decode_ok n d' \<and> d_index d' \<le> d_index d + 1"
proof -
  define b where "b = (if v then NOT (info ! d_index d) else info ! d_index d)"
  have "\<exists>d'. ofold (store_bit aid b) [0..<8] d = Some d' \<and> decode_ok n d' \<and> d_index d' = d_index d"
  proof (rule ofold_upt_rule [where I = "\<lambda>_ (d' :: decode_state). decode_ok n d' \<and> d_index d' = d_index d"])
    fix q :: nat and d' :: decode_state
    assume "decode_ok n d' \<and> d_index d' = d_index d"
    then show "\<exists>d''. store_bit aid b q d' = Some d'' \<and> decode_ok n d'' \<and> d_index d'' = d_index d"
      using store_bit_total [OF assms(1), of d' aid b q] by auto
  qed (use assms(2) in simp)
  then show ?thesis using assms(3) by (auto simp: read_subblock_def b_def decode_ok_def)
qed

lemma block_mode_total:
  assumes "251 \<le> length (virtual_map tim)" "len \<le> 250" "9 \<le> length info"
  shows "\<exists>tim' len' r. s1g_to_tim_parse_block_mode tim len info bo pi v = Some (tim', len', r) \<and>
    length (virtual_map tim') = length (virtual_map tim) \<and> len' \<le> 250"
proof -
  let ?n = "length (virtual_map tim)"
  define body where "body = (\<lambda>m d. if d_failed d \<or> \<not> bit (info ! 0) m then Some d
      else read_subblock (make_aid pi bo m) info v d)"
  define d0 where "d0 = \<lparr>d_tim = tim, d_len = len, d_index = 1, d_failed = False\<rparr>"
  have "\<exists>d'. ofold body [0..<8] d0 = Some d' \<and> decode_ok ?n d' \<and> d_index d' \<le> 1 + 8"
  proof (rule ofold_upt_rule [where I = "\<lambda>m (d' :: decode_state). decode_ok ?n d' \<and> d_index d' \<le> 1 + m"])
    fix m :: nat and d :: decode_state
    assume "m < 8" "decode_ok ?n d \<and> d_index d \<le> 1 + m"
    then show "\<exists>d'. body m d = Some d' \<and> decode_ok ?n d' \<and> d_index d' \<le> 1 + Suc m"
      using read_subblock_total [OF assms(1), of d info "make_aid pi bo m" v] assms(3) by (fastforce simp: body_def)
  qed (use assms in \<open>simp add: d0_def decode_ok_def\<close>)
  moreover have "nth_opt info 0 = Some (info ! 0)" using assms(3) by (intro nth_opt_first) simp
  ultimately show ?thesis
    by (auto simp: s1g_to_tim_parse_block_mode_def body_def d0_def decode_result_def decode_ok_def)
qed

lemma olb_mode_total:
  assumes "251 \<le> length (virtual_map tim)" "len \<le> 250" "256 \<le> length info"
  shows "\<exists>tim' len' r. s1g_to_tim_parse_olb_mode tim len info bo pi v = Some (tim', len', r) \<and>
    length (virtual_map tim') = length (virtual_map tim) \<and> len' \<le> 250"
proof -
  let ?n = "length (virtual_map tim)"
  define body where "body = (\<lambda>m d. if d_failed d then Some d
      else read_subblock (make_aid pi (bo + m div 8) m) info v d)"
  define d0 where "d0 = \<lparr>d_tim = tim, d_len = len, d_index = 1, d_failed = False\<rparr>"
  have u: "unat (info ! 0) < 256" using unsigned_less [of "info ! 0"] by simp
  have "\<exists>d'. ofold body [0..<unat (info ! 0)] d0 = Some d' \<and> decode_ok ?n d' \<and> d_index d' \<le> 1 + unat (info ! 0)"
  proof (rule ofold_upt_rule [where I = "\<lambda>m (d' :: decode_state). decode_ok ?n d' \<and> d_index d' \<le> 1 + m"])
    fix m :: nat and d :: decode_state
    assume "m < unat (info ! 0)" "decode_ok ?n d \<and> d_index d \<le> 1 + m"
    then show "\<exists>d'. body m d = Some d' \<and> decode_ok ?n d' \<and> d_index d' \<le> 1 + Suc m"
      using read_subblock_total [OF assms(1), of d info "make_aid pi (bo + m div 8) m" v] assms(3) u by (fastforce simp: body_def)
  qed (use assms in \<open>simp add: d0_def decode_ok_def\<close>)
  moreover have "nth_opt info 0 = Some (info ! 0)" using assms(3) by (intro nth_opt_first) simp
  ultimately show ?thesis
    by (auto simp: s1g_to_tim_parse_olb_mode_def body_def d0_def decode_result_def decode_ok_def)
qed

lemma single_mode_total:
  assumes "251 \<le> length (virtual_map tim)" "len \<le> 250" "1 \<le> length info"
  shows "\<exists>tim' len' r. s1g_to_tim_parse_single_mode tim len info bo pi v = Some (tim', len', r) \<and>
    length (virtual_map tim') = length (virtual_map tim) \<and> len' \<le> 250"
proof -
  have h: "nth_opt info 0 = Some (info ! 0)" using assms(3) by (intro nth_opt_first) simp
  let ?aid = "pi mod 4 * 2048 + bo mod 32 * 64 + unat (info ! 0) mod 64"
  obtain tim' k where "store_aid_into_tim tim ?aid = Some (tim', k)" "length (virtual_map tim') = length (virtual_map tim)"
    "k = - EINVAL \<or> 0 \<le> k \<and> k \<le> 250" using store_aid_total [OF assms(1), of ?aid] by blast
  with h assms(2) show ?thesis by (auto simp: s1g_to_tim_parse_single_mode_def EINVAL_def Let_def)
qed

lemma ade_words_total:
  "251 \<le> length (virtual_map tim) \<Longrightarrow>
    \<exists>tim' ok. ade_words base info is ewl aid tim = Some (tim', ok) \<and> length (virtual_map tim') = length (virtual_map tim)"
proof (induction "is" arbitrary: aid tim)
  case Nil
  then show ?case by auto
next
  case (Cons i xs)
  let ?aid = "trunc16 (ade_word info ewl i + (if i = 0 then base else aid))"
  obtain tim' k where "store_aid_into_tim tim ?aid = Some (tim', k)" "length (virtual_map tim') = length (virtual_map tim)"
    using store_aid_total [OF Cons.prems, of ?aid] by blast
  moreover from this obtain t2 ok where "ade_words base info xs ewl ?aid tim' = Some (t2, ok)" "length (virtual_map t2) = length (virtual_map tim)"
    using Cons.IH [of tim' ?aid] Cons.prems by auto
  ultimately show ?case by (auto simp: Let_def)
qed

lemma ade_all_but_total:
  "251 \<le> length (virtual_map tim) \<Longrightarrow>
    \<exists>tim' ok. ade_all_but base excluded is tim = Some (tim', ok) \<and> length (virtual_map tim') = length (virtual_map tim)"
proof (induction "is" arbitrary: tim)
  case Nil
  then show ?case by auto
next
  case (Cons i xs)
  obtain tim' k where "store_aid_into_tim tim (trunc16 (base + i)) = Some (tim', k)" "length (virtual_map tim') = length (virtual_map tim)"
    using store_aid_total [OF Cons.prems] by blast
  moreover from this obtain t2 ok where "ade_all_but base excluded xs tim' = Some (t2, ok)" "length (virtual_map t2) = length (virtual_map tim)"
    using Cons.IH [of tim'] Cons.prems by auto
  moreover obtain t3 ok' where "ade_all_but base excluded xs tim = Some (t3, ok')" "length (virtual_map t3) = length (virtual_map tim)"
    using Cons.IH [OF Cons.prems] by auto
  ultimately show ?case by (auto simp: Let_def)
qed

lemma ade_mode_total:
  assumes "251 \<le> length (virtual_map tim)" "32 \<le> length info"
  shows "\<exists>tim' r. s1g_to_tim_parse_ade_mode tim info bo pi v = Some (tim', r) \<and> length (virtual_map tim') = length (virtual_map tim)"
proof -
  have h: "nth_opt info 0 = Some (info ! 0)" "nth_opt info 1 = Some (info ! 1)" using assms(2) by (auto intro!: nth_opt_Some)
  define hd where "hd = info ! 0"
  define len where "len = unat (drop_bit 3 hd)"
  define ewl where "ewl = unat (hd AND 0x07)"
  define base where "base = pi * 2048 + bo * 64"
  have "unat hd < 2 ^ LENGTH(8)" by (rule unsigned_less)
  then have "unat hd < 256" by simp
  moreover have "len = unat hd div 2 ^ 3" unfolding len_def unat_drop_bit_eq by (rule drop_bit_eq_div)
  ultimately have "len < 32" by simp
  then have l: "\<not> length info < 1 + len" using assms(2) by simp
  obtain t1 o1 where 1: "ade_all_but base None [0..<8] tim = Some (t1, o1)" "length (virtual_map t1) = length (virtual_map tim)"
    using ade_all_but_total [OF assms(1)] by blast
  obtain t2 o2 where 2: "ade_all_but base (Some (trunc16 (unat (info ! 1) + base))) [0..<8] tim = Some (t2, o2)"
    "length (virtual_map t2) = length (virtual_map tim)" using ade_all_but_total [OF assms(1)] by blast
  obtain t3 o3 where 3: "ade_words base info [0..<len * 8 div (ewl + 1)] (ewl + 1) 0 tim = Some (t3, o3)"
    "length (virtual_map t3) = length (virtual_map tim)" using ade_words_total [OF assms(1)] by blast
  have e: "s1g_to_tim_parse_ade_mode tim info bo pi v =
      (if v \<and> ewl = 0 \<and> len = 0 then Some (t1, if o1 then 1 else int len)
       else if v \<and> ewl = 7 \<and> len = 1 then Some (t2, if o2 then 2 else int len)
       else Some (t3, if o3 then int len + 1 else int len))"
    unfolding s1g_to_tim_parse_ade_mode_def h Let_def base_def [symmetric] Option.bind.simps hd_def [symmetric]
      len_def [symmetric] ewl_def [symmetric] 1(1) 2(1) 3(1) prod.case if_not_P [OF l] by (rule refl)
  show ?thesis unfolding e using 1(2) 2(2) 3(2) by auto
qed

lemma decode_step_total:
  assumes "251 \<le> length (virtual_map tim)" "len \<le> 250" "i + 257 \<le> length info"
  shows "\<exists>tim' len' r. decode_step info pi (tim, len, i) = Some (tim', len', r) \<and>
    length (virtual_map tim') = length (virtual_map tim) \<and> len' \<le> 250"
proof -
  define hdr where "hdr = info ! i"
  have h: "nth_opt info i = Some hdr" using assms(3) unfolding hdr_def by (intro nth_opt_Some) simp
  define rest where "rest = drop (i + 1) info"
  have r: "256 \<le> length rest" "9 \<le> length rest" "1 \<le> length rest" "32 \<le> length rest" using assms(3) by (simp_all add: rest_def)
  define bo v where "bo = unat (drop_bit 3 hdr)" and "v = bit hdr 2"
  note m = block_mode_total [OF assms(1,2) r(2), of bo pi v] single_mode_total [OF assms(1,2) r(3), of bo pi v]
    olb_mode_total [OF assms(1,2) r(1), of bo pi v] ade_mode_total [OF assms(1) r(4), of bo pi v]
  have "decode_step info pi (tim, len, i) =
      (if unat (hdr AND 3) = 3 then do {
          (tim, res) \<leftarrow> s1g_to_tim_parse_ade_mode tim rest bo pi v;
          Some (tim, len, Some (i + 1 + nat res))
        } else do {
          (tim, tim_len, res) \<leftarrow>
            (if unat (hdr AND 3) = 0 then s1g_to_tim_parse_block_mode tim len rest bo pi v
             else if unat (hdr AND 3) = 1 then s1g_to_tim_parse_single_mode tim len rest bo pi v
             else s1g_to_tim_parse_olb_mode tim len rest bo pi v);
          Some (tim, tim_len, if res < 0 then None else Some (i + 1 + nat res))
        })"
    unfolding decode_step_def prod.case h Let_def Option.bind.simps rest_def [symmetric] bo_def [symmetric] v_def [symmetric]
    by (rule refl)
  with m assms(2) show ?thesis by auto
qed

lemma decode_loop_total:
  "251 \<le> length (virtual_map tim) \<Longrightarrow> len \<le> 250 \<Longrightarrow> n + 256 \<le> length info \<Longrightarrow>
    \<exists>tim' r. decode_loop info n pi tim len i = Some (tim', r) \<and>
      length (virtual_map tim') = length (virtual_map tim) \<and> (\<forall>l. r = Some l \<longrightarrow> l \<le> 250)"
proof (induction "n - i" arbitrary: tim len i rule: less_induct)
  case less
  show ?case
  proof (cases "i < n")
    case False
    then show ?thesis using less.prems(2) by (subst decode_loop.simps) simp
  next
    case True
    then have "i + 257 \<le> length info" using less.prems(3) by linarith
    with decode_step_total [OF less.prems(1,2)] obtain tim' len' r where
      s: "decode_step info pi (tim, len, i) = Some (tim', len', r)" "length (virtual_map tim') = length (virtual_map tim)" "len' \<le> 250"
      by blast
    show ?thesis
    proof (cases r)
      case None
      with True s show ?thesis by (subst decode_loop.simps) simp
    next
      case (Some i')
      then have "i < i'" using s(1) decode_step_index by blast
      then have "n - i' < n - i" using True by linarith
      with less.hyps [of i' tim' len'] s(2,3) less.prems obtain tim'' r' where
        "decode_loop info n pi tim' len' i' = Some (tim'', r')" "length (virtual_map tim'') = length (virtual_map tim)"
        "\<forall>l. r' = Some l \<longrightarrow> l \<le> 250" by auto
      with True s(1) Some show ?thesis by (subst decode_loop.simps) simp
    qed
  qed
qed

text \<open>C30: a received S1G TIM element never makes the decoder write outside a map of 251 octets, and
  decoding always ends with a length of at most 250 octets more than the empty TIM. It reads up to
  256 octets behind the element, which must be readable: the code has no check of the element's length.
\<close>

theorem tim_decoder_safe:
  assumes "251 \<le> length (virtual_map tim)" "total_len + 256 \<le> length (encoded_block_info s1g)"
  shows "\<exists>tim' n. s1g_to_tim sizeof_tim tim s1g total_len = Some (tim', n) \<and>
    length (virtual_map tim') = length (virtual_map tim) \<and> sizeof_tim \<le> n \<and> n \<le> sizeof_tim + 250"
proof -
  define t where "t = tim\<lparr>dtim_count := s1g_dtim_count s1g, dtim_period := s1g_dtim_period s1g,
    bitmap_ctrl := s1g_bitmap_control s1g AND 1, virtual_map := (virtual_map tim)[0 := 0]\<rparr>"
  have "251 \<le> length (virtual_map t)" "total_len - 3 + 256 \<le> length (encoded_block_info s1g)"
    using assms by (simp_all add: t_def)
  from decode_loop_total [OF this(1) _ this(2), of 0 "unat (drop_bit 6 (s1g_bitmap_control s1g))" 0]
  obtain t' r where t': "decode_loop (encoded_block_info s1g) (total_len - 3) (unat (drop_bit 6 (s1g_bitmap_control s1g))) t 0 0 = Some (t', r)"
    "length (virtual_map t') = length (virtual_map tim)" "\<forall>l. r = Some l \<longrightarrow> l \<le> 250" by (auto simp: t_def)
  consider "total_len < 3" | "total_len = 3" | "3 < total_len" by linarith
  then show ?thesis
  proof cases
    case 3
    with t' show ?thesis
      by (cases r) (simp_all add: s1g_to_tim_def Let_def t_def)
  qed (simp_all add: s1g_to_tim_def Let_def)
qed

theorem tim_decoder_safe_witness:
  "\<exists>tim' n. s1g_to_tim 4 \<lparr>dtim_count = 0, dtim_period = 1, bitmap_ctrl = 0, virtual_map = replicate 251 0\<rparr>
     \<lparr>s1g_dtim_count = 0, s1g_dtim_period = 1, s1g_bitmap_control = 0, encoded_block_info = 2 # 255 # replicate 300 0xFF\<rparr> 5 =
       Some (tim', n) \<and> length (virtual_map tim') = 251 \<and> 4 \<le> n \<and> n \<le> 254"
  using tim_decoder_safe [of "\<lparr>dtim_count = 0, dtim_period = 1, bitmap_ctrl = 0, virtual_map = replicate 251 0\<rparr>" 5
      "\<lparr>s1g_dtim_count = 0, s1g_dtim_period = 1, s1g_bitmap_control = 0, encoded_block_info = 2 # 255 # replicate 300 0xFF\<rparr>" 4]
  by simp

text \<open>The reads of the decoder are not bounded by the element: for the five-octet element whose one
  block is an OLB header announcing 255 subblocks the decoder reads behind what was received.
\<close>

lemma tim_decoder_reads_past_end:
  "s1g_to_tim 4 \<lparr>dtim_count = 0, dtim_period = 1, bitmap_ctrl = 0, virtual_map = replicate 251 0\<rparr>
     \<lparr>s1g_dtim_count = 0, s1g_dtim_period = 1, s1g_bitmap_control = 0, encoded_block_info = [2, 255]\<rparr> 5 = None"
  by code_simp

section \<open>The encoder\<close>

lemma append_octet_full: "length (enc st) \<le> 256 \<Longrightarrow> length (enc (s1g_tim_append_octet st b)) \<le> 256"
  by (simp add: s1g_tim_append_octet_def S1G_TIM_MAX_BLOCK_SIZE_def)

lemma foldl_full:
  "(\<And>s x. length (enc s) \<le> 256 \<Longrightarrow> length (enc (g s x)) \<le> 256) \<Longrightarrow> length (enc st) \<le> 256 \<Longrightarrow> length (enc (foldl g st xs)) \<le> 256"
  by (induction xs arbitrary: st) auto

lemma append_subblock_full: "length (enc st) \<le> 256 \<Longrightarrow> length (enc (append_subblock p sb st i)) \<le> 256"
  using append_octet_full by (simp add: append_subblock_def Let_def)

lemma encode_step_full:
  assumes "encode_step mode v max_aid st = Some st'" "length (enc st) \<le> 256"
  shows "length (enc st') \<le> 256"
proof -
  note full = append_octet_full foldl_full
  have subs: "length (enc (emit_subblocks sb num s)) \<le> 256" if "length (enc s) \<le> 256" for sb num s
    using that foldl_full [of "append_subblock (length (enc s)) sb" "s\<lparr>enc := enc s @ [0]\<rparr>"] append_subblock_full
    by (simp add: emit_subblocks_def s1g_tim_reserve_octet_def S1G_TIM_MAX_BLOCK_SIZE_def)
  have olb: "length (enc (emit_olb v sb r s)) \<le> 256" if "length (enc s) \<le> 256" for sb r s
    using that by (simp add: emit_olb_def case_prod_beta Let_def full)
  have "length (enc (tim_to_s1g_parse_block_mode v max_aid st)) \<le> 256"
    unfolding tim_to_s1g_parse_block_mode_def Let_def using assms(2) by (intro subs) (simp add: append_octet_full)
  moreover have "length (enc (tim_to_s1g_parse_single_mode v st)) \<le> 256"
    unfolding tim_to_s1g_parse_single_mode_def Let_def using assms(2) by (simp add: full)
  moreover have "length (enc (tim_to_s1g_parse_olb_mode v max_aid st)) \<le> 256"
    unfolding tim_to_s1g_parse_olb_mode_def Let_def using assms(2) by (intro olb) simp
  moreover have "length (enc (tim_to_s1g_parse_ade_mode v st)) \<le> 256"
    unfolding tim_to_s1g_parse_ade_mode_def Let_def using assms(2) by (simp add: full)
  ultimately show ?thesis using assms(1) by (auto simp: encode_step_def split: if_splits)
qed

lemma encode_loop_ends:
  "mode < 4 \<Longrightarrow> length (enc st) \<le> 256 \<Longrightarrow>
    \<exists>st'. encode_loop mode v max_aid st = Some st' \<and> length (enc st') \<le> 256 \<and> (map_11n st' = [] \<or> length (enc st') = 256)"
proof (induction "length (map_11n st)" arbitrary: st rule: less_induct)
  case less
  show ?case
  proof (cases "map_11n st \<noteq> [] \<and> length (enc st) < 256")
    case False
    then show ?thesis using less.prems(2) by (subst encode_loop.simps) (auto simp: S1G_TIM_MAX_BLOCK_SIZE_def)
  next
    case True
    have "encode_step mode v max_aid st \<noteq> None" using less.prems(1) by (simp add: encode_step_def)
    then obtain s where s: "encode_step mode v max_aid st = Some s" by blast
    with less.hyps [of s] encode_step_shorter [OF s] encode_step_full [OF s] less.prems True show ?thesis
      by (subst encode_loop.simps) (simp add: S1G_TIM_MAX_BLOCK_SIZE_def)
  qed
qed

text \<open>C31: in every mode, inverse or not, the encoder returns, for any map; it stops with the whole map
  consumed or 256 octets of blocks filled, and the length it returns counts exactly the octets it wrote.
\<close>

theorem tim_encoder_terminates:
  assumes "mode < 4"
  shows "\<exists>st s1g len. encode_loop mode v max_aid (consume_11n_tim_octets 0 (begin_state tim n)) = Some st \<and>
    (map_11n st = [] \<or> length (enc st) = 256) \<and>
    tim_to_s1g tim n mode v max_aid psn page_index = (s1g, len) \<and> encoded_block_info s1g = enc st \<and>
    len \<le> 259 \<and> (len = 2 \<and> enc st = [] \<or> len = 3 + length (enc st))"
proof -
  obtain st where st: "encode_loop mode v max_aid (consume_11n_tim_octets 0 (begin_state tim n)) = Some st"
    "length (enc st) \<le> 256" "map_11n st = [] \<or> length (enc st) = 256"
    using encode_loop_ends [OF assms, of "consume_11n_tim_octets 0 (begin_state tim n)"] by (auto simp: begin_state_def)
  show ?thesis
    using st by (intro exI [of _ st]) (simp add: tim_to_s1g_def begin_state_def Let_def)
qed

theorem tim_encoder_terminates_witness:
  "let tim = \<lparr>dtim_count = 0, dtim_period = 1, bitmap_ctrl = 0, virtual_map = replicate 250 0xFF\<rparr> in
   \<exists>st s1g len. encode_loop 1 False 2007 (consume_11n_tim_octets 0 (begin_state tim 250)) = Some st \<and>
    (map_11n st = [] \<or> length (enc st) = 256) \<and> tim_to_s1g tim 250 1 False 2007 0 0 = (s1g, len) \<and>
    encoded_block_info s1g = enc st \<and> len \<le> 259 \<and> (len = 2 \<and> enc st = [] \<or> len = 3 + length (enc st))"
  unfolding Let_def by (rule tim_encoder_terminates) simp

text \<open>C7: block bitmap, single AID and OLB encoding (not inverse) are read back by the decoder as the
  octets of the map that was sent, with its DTIM fields and multicast bit, for page 0 (the only page the driver
  sends) and every slice number from 0 to 31 (the driver sends 31), when the AIDs of the map are at most \<open>max_aid\<close>,
  the blocks did not fill the 256 octets of the element, and the decoder's buffer is empty and has room for 251 octets.
  One case differs: with slice 31 and an empty map the decoder clears what it has read of the control octet, so
  the multicast bit is lost, and only the other fields are as sent.
\<close>

theorem tim_roundtrip:
  assumes "mode \<le> 2" "max_aid \<le> 2007" "map_within max_aid n tim" "psn \<le> 31"
    and "tim_to_s1g tim n mode False max_aid psn 0 = (s1g, len)" "length (encoded_block_info s1g) < 256"
    and "tim_empty buf" "251 \<le> length (virtual_map buf)" "bitmap_ctrl buf = 0"
  shows "\<exists>tim' l. s1g_to_tim sizeof_tim buf s1g len = Some (tim', sizeof_tim + l) \<and>
    same_tim (if psn = 31 \<and> encoded_block_info s1g = [] then no_multicast tim else tim) n tim' l"
  using assms by (rule roundtrip)

theorem tim_roundtrip_witness:
  "let tim = \<lparr>dtim_count = 0, dtim_period = 1, bitmap_ctrl = 3, virtual_map = [0, 5, 0, 0x81]\<rparr>;
       buf = \<lparr>dtim_count = 0, dtim_period = 0, bitmap_ctrl = 0, virtual_map = replicate 251 0\<rparr>;
       s1g = \<lparr>s1g_dtim_count = 0, s1g_dtim_period = 1, s1g_bitmap_control = 0x3F, encoded_block_info = [0, 0x28, 5, 0x81]\<rparr>
   in tim_to_s1g tim 4 0 False 2007 31 0 = (s1g, 7) \<and>
      (\<exists>tim' l. s1g_to_tim 4 buf s1g 7 = Some (tim', 4 + l) \<and> same_tim tim 4 tim' l)"
proof -
  define tim where "tim = \<lparr>dtim_count = 0, dtim_period = 1, bitmap_ctrl = 3, virtual_map = [0, 5, 0, 0x81 :: u8]\<rparr>"
  define s1g where "s1g = \<lparr>s1g_dtim_count = 0, s1g_dtim_period = 1, s1g_bitmap_control = 0x3F, encoded_block_info = [0, 0x28, 5, 0x81 :: u8]\<rparr>"
  have enc: "tim_to_s1g tim 4 0 False 2007 31 0 = (s1g, 7)" unfolding tim_def s1g_def by code_simp
  have "map_within 2007 4 tim"
    by (auto simp: map_within_def tim_def tim_offset_def)
  from tim_roundtrip [OF _ _ this _ enc, of "\<lparr>dtim_count = 0, dtim_period = 0, bitmap_ctrl = 0, virtual_map = replicate 251 0\<rparr>" 4]
  have "\<exists>tim' l. s1g_to_tim 4 \<lparr>dtim_count = 0, dtim_period = 0, bitmap_ctrl = 0, virtual_map = replicate 251 0\<rparr> s1g 7 =
      Some (tim', 4 + l) \<and> same_tim tim 4 tim' l"
    by (simp add: s1g_def tim_empty_def tim_offset_def)
  with enc show ?thesis unfolding Let_def tim_def s1g_def by blast
qed

text \<open>The exception on an element: multicast frames are waiting and no station has any, slice 31.\<close>

lemma tim_multicast_lost:
  "let tim = \<lparr>dtim_count = 0, dtim_period = 1, bitmap_ctrl = 1, virtual_map = [0]\<rparr>;
       buf = \<lparr>dtim_count = 0, dtim_period = 0, bitmap_ctrl = 0, virtual_map = replicate 251 0\<rparr>;
       (s1g, len) = tim_to_s1g tim 1 0 False 2007 31 0
   in s1g_bitmap_control s1g = 0x3F \<and> len = 3 \<and> map_option (\<lambda>(tim', n). (bitmap_ctrl tim', n)) (s1g_to_tim 4 buf s1g len) = Some (0, 4)"
  by code_simp

text \<open>The differential mode is not read back as it was sent: AIDs 1, 2 and 4 are decoded as 1, 2 and 5,
  because the encoder subtracts the previous difference instead of the previous AID.
\<close>

lemma tim_ade_differences_wrong:
  "let tim = \<lparr>dtim_count = 0, dtim_period = 1, bitmap_ctrl = 0, virtual_map = [0x16]\<rparr>;
       buf = \<lparr>dtim_count = 0, dtim_period = 0, bitmap_ctrl = 0, virtual_map = replicate 251 0\<rparr>;
       (s1g, len) = tim_to_s1g tim 1 3 False 2007 0 0
   in map_option (\<lambda>(tim', n). (virtual_map tim' ! 0, n)) (s1g_to_tim 4 buf s1g len) = Some (0x26, 4)"
  by code_simp

text \<open>the inverse block mode loses a full octet: the map that sets AIDs 0 to 7 (the largest
  being 7) is sent as a block with no subblock, which the decoder reads as an empty map.
\<close>

lemma tim_inverse_block_loses:
  "let tim = \<lparr>dtim_count = 0, dtim_period = 1, bitmap_ctrl = 0, virtual_map = [0xFF]\<rparr>;
       buf = \<lparr>dtim_count = 0, dtim_period = 0, bitmap_ctrl = 0, virtual_map = replicate 251 0\<rparr>;
       (s1g, len) = tim_to_s1g tim 1 0 True 7 0 0
   in encoded_block_info s1g = [4, 0] \<and>
      map_option (\<lambda>(tim', n). (virtual_map tim', n)) (s1g_to_tim 4 buf s1g len) = Some (replicate 251 0, 4)"
  by code_simp

text \<open>a single AID above 2007 is not stored, but its error code ends up in an octet number: the
  decoded TIM is announced as 234 octets longer than the empty map it holds.
\<close>

lemma tim_single_error_length:
  "let buf = \<lparr>dtim_count = 0, dtim_period = 0, bitmap_ctrl = 0, virtual_map = replicate 251 0\<rparr>;
       s1g = \<lparr>s1g_dtim_count = 0, s1g_dtim_period = 1, s1g_bitmap_control = 0, encoded_block_info = [0xF9, 0x3F]\<rparr>
   in map_option (\<lambda>(tim', n). (virtual_map tim', n)) (s1g_to_tim 4 buf s1g 5) = Some (replicate 251 0, 238)"
  by code_simp

end
