(* ===== verification/Skbq.thy ===== *)
theory Skbq
  imports Prelude
begin

text \<open>
  \<^verbatim>\<open>skbq.c\<close>: the queues of frames between mac80211 and the chip interface. A queue holds the frames
  that wait to be sent, with their total size limited, and the frames that were sent and wait for a
  TX status of the chip. Operations take and return the driver's state and the queue; locks are not
  modelled, each operation runs as one step as it does under the queue's lock. The per-station
  monitor table, the trace messages and the reports of a build without the driver's own rate control
  are left out.
\<close>

section \<open>Frames, interfaces and the driver's state\<close>

text \<open>
  \<open>struct sk_buff\<close> as this file uses it. \<open>sk_ptr\<close> is its address and \<open>sk_data\<close> that of its data; \<open>sk_chan\<close>, \<open>sk_pkt_id\<close>, \<open>sk_info_flags\<close> and
  \<open>sk_offset\<close> are read from the Morse header in front of the frame, \<open>sk_fc\<close> and \<open>sk_addr1\<close> from the 802.11
  header; \<open>sk_vif\<close>, \<open>sk_eosp\<close>, \<open>sk_enqueue_time\<close> and \<open>sk_status_expiry\<close> are in the control block.
  \<open>sk_statuses\<close> are the TX status records a frame from the chip carries.
\<close>

record rate_info =
  ri_ratecode :: u32
  ri_count :: nat

record tx_status =
  ts_flags :: u32
  ts_pkt_id :: nat
  ts_tid :: nat
  ts_channel :: nat
  ts_rates :: "rate_info list"

record vif =
  vif_station :: bool
  supports_ps_filter :: bool
  vif_stas :: "nat list"

record sk_buff =
  sk_ptr :: nat
  sk_len :: nat
  sk_chan :: nat
  sk_offset :: nat
  sk_pkt_id :: nat
  sk_info_flags :: u32
  sk_fc :: u16
  sk_addr1 :: nat
  sk_data :: nat
  sk_vif :: "vif option"
  sk_eosp :: bool
  sk_enqueue_time :: u32
  sk_status_expiry :: u64
  sk_statuses :: "tx_status list"

definition CHAN_DATA :: nat where "CHAN_DATA = 0x0"
definition CHAN_NDP_FRAMES :: nat where "CHAN_NDP_FRAMES = 0x1"
definition CHAN_DATA_NOACK :: nat where "CHAN_DATA_NOACK = 0x2"
definition CHAN_BEACON :: nat where "CHAN_BEACON = 0x3"
definition CHAN_MGMT :: nat where "CHAN_MGMT = 0x4"
definition CHAN_WIPHY :: nat where "CHAN_WIPHY = 0x5"
definition CHAN_LOOPBACK :: nat where "CHAN_LOOPBACK = 0xEE"
definition CHAN_COMMAND :: nat where "CHAN_COMMAND = 0xFE"
definition CHAN_TX_STATUS :: nat where "CHAN_TX_STATUS = 0xFF"

definition FLAG_NO_REPORT :: nat where "FLAG_NO_REPORT = 1"
definition FLAG_PS_FILTERED :: nat where "FLAG_PS_FILTERED = 15"
definition FLAG_PAGE_INVALID :: nat where "FLAG_PAGE_INVALID = 17"
definition FLAG_DUTY_CYCLE_CANT_SEND :: nat where "FLAG_DUTY_CYCLE_CANT_SEND = 19"

text \<open>Where a frame goes that leaves the queues, and what else mac80211 and cfg80211 are told.\<close>

datatype skb_fate =
    Kfree sk_buff
  | Free_txskb sk_buff
  | Tx_reported sk_buff tx_status
  | Cmd_resp sk_buff
  | Wiphy_rx sk_buff
  | Wiphy_rx_mgmt sk_buff
  | Mac_recv sk_buff

datatype notice = Mgmt_tx_status nat bool | Sta_eosp nat | Ecsa_beacon_tx_done nat

primrec fate_skb :: "skb_fate \<Rightarrow> sk_buff" where
  "fate_skb (Kfree s) = s"
| "fate_skb (Free_txskb s) = s"
| "fate_skb (Tx_reported s _) = s"
| "fate_skb (Cmd_resp s) = s"
| "fate_skb (Wiphy_rx s) = s"
| "fate_skb (Wiphy_rx_mgmt s) = s"
| "fate_skb (Mac_recv s) = s"

datatype chip_event =
    RX_PEND | PAGE_RETURN_PEND | TX_COMMAND_PEND | TX_BEACON_PEND | TX_MGMT_PEND | TX_DATA_PEND
  | TX_PACKET_FREED_UP_PEND | DATA_TRAFFIC_PAUSE_PEND | DATA_TRAFFIC_RESUME_PEND | UPDATE_HW_CLOCK_REFERENCE

datatype state_flag =
    CHIP_UNRESPONSIVE | DATA_QS_STOPPED | DATA_TX_STOPPED | HOST_TO_CHIP_TX_BLOCKED | HOST_TO_CHIP_CMD_BLOCKED

text \<open>
  The part of \<open>struct morse\<close> (and the module's parameters) this file uses. Lifetimes are in jiffies;
  \<open>fates\<close> and \<open>notices\<close> record, in order, what happened to frames and what was reported.
\<close>

record page_stats =
  queue_stop :: nat
  tx_aged_out :: nat
  tx_status_dropped :: nat
  tx_status_flushed :: nat
  tx_status_page_invalid :: nat
  tx_status_duty_cycle_cant_send :: nat

record morse =
  fullmac :: bool
  started :: bool
  airtime_fairness :: bool
  monitor_mode :: bool
  ps_enable :: bool
  ps_suspended :: bool
  fw_reports_bcn_tx_status :: bool
  stale_status_enabled :: bool
  vifs :: "vif option list"
  extra_tx_offset :: nat
  bulk_alignment :: nat
  max_txq_len :: nat
  queued_lifetime :: u32
  status_lifetime :: u64
  jiffies :: u64
  state_flags :: "state_flag set"
  event_flags :: "chip_event set"
  chip_work_queued :: bool
  ps_eval_queued :: bool
  stale_timer :: "u64 option"
  stopped_acs :: "nat list"
  page_stats :: page_stats
  fates :: "skb_fate list"
  notices :: "notice list"

definition morse_is_data_tx_allowed :: "morse \<Rightarrow> bool" where
  "morse_is_data_tx_allowed m \<longleftrightarrow>
     DATA_TX_STOPPED \<notin> state_flags m \<and> DATA_TRAFFIC_PAUSE_PEND \<notin> event_flags m"

text \<open>An id that is out of range is clamped to 0 by \<open>array_index_nospec\<close> before it is checked.\<close>

definition morse_get_vif_from_vif_id :: "morse \<Rightarrow> nat \<Rightarrow> vif option" where
  "morse_get_vif_from_vif_id m i =
     (let i = (if i < length (vifs m) then i else 0) in if i < length (vifs m) then vifs m ! i else None)"

definition vif_id_of_flags :: "u32 \<Rightarrow> nat" where
  "vif_id_of_flags f = unat (drop_bit 4 (f AND 0xFF0))"

definition morse_get_vif_from_tx_status :: "morse \<Rightarrow> tx_status \<Rightarrow> vif option" where
  "morse_get_vif_from_tx_status m ts = morse_get_vif_from_vif_id m (vif_id_of_flags (ts_flags ts))"

definition dot11_tid_to_ac :: "nat \<Rightarrow> nat" where
  "dot11_tid_to_ac tid =
     (if tid = 1 \<or> tid = 2 then 1 else if tid = 4 \<or> tid = 5 then 2 else if tid = 6 \<or> tid = 7 then 3 else 0)"

section \<open>One queue\<close>

text \<open>\<open>struct morse_skbq\<close>. The lists are the sk_buff lists from head to tail.\<close>

record morse_skbq =
  pkt_seq :: nat
  q_command :: bool
  q_data :: bool
  q_dir_to_host :: bool
  skbq_size :: nat
  skbq :: "sk_buff list"
  pending :: "sk_buff list"

datatype qsel = Tx_list | Pending_list

definition MORSE_SKBQ_SIZE :: nat where
  "MORSE_SKBQ_SIZE = 4 * 128 * 1024"

text \<open>Subtraction of \<open>u32\<close> values.\<close>

definition sub32 :: "nat \<Rightarrow> nat \<Rightarrow> nat" where
  "sub32 a b = trunc32 (a + 4294967296 - b)"

definition morse_skbq_space :: "morse_skbq \<Rightarrow> nat" where
  "morse_skbq_space mq = sub32 MORSE_SKBQ_SIZE (skbq_size mq)"

definition morse_skbq_over_threshold :: "morse \<Rightarrow> morse_skbq \<Rightarrow> bool" where
  "morse_skbq_over_threshold m mq =
     (if max_txq_len m \<noteq> 0 then max_txq_len m \<le> length (skbq mq) else morse_skbq_space mq \<le> 2 * 1024)"

definition morse_skbq_under_threshold :: "morse \<Rightarrow> morse_skbq \<Rightarrow> bool" where
  "morse_skbq_under_threshold m mq =
     (if max_txq_len m \<noteq> 0 then length (skbq mq) < sub32 (max_txq_len m) 2 else 5 * 1024 \<le> morse_skbq_space mq)"

text \<open>The argument is an \<open>int\<close> that is compared as unsigned.\<close>

definition morse_set_max_skb_txq_len :: "int \<Rightarrow> morse \<Rightarrow> morse" where
  "morse_set_max_skb_txq_len n m =
     (let n = nat (n mod 4294967296) in if n < max_txq_len m then m else m\<lparr>max_txq_len := n\<rparr>)"

definition consume :: "skb_fate \<Rightarrow> morse \<Rightarrow> morse" where
  "consume f m = m\<lparr>fates := fates m @ [f]\<rparr>"

definition notify :: "notice \<Rightarrow> morse \<Rightarrow> morse" where
  "notify n m = m\<lparr>notices := notices m @ [n]\<rparr>"

definition morse_flush_txskb :: "sk_buff \<Rightarrow> morse \<Rightarrow> morse" where
  "morse_flush_txskb s m = consume (if fullmac m then Kfree s else Free_txskb s) m"

definition skb_unlink :: "sk_buff \<Rightarrow> sk_buff list \<Rightarrow> sk_buff list" where
  "skb_unlink s xs = filter (\<lambda>x. sk_ptr x \<noteq> sk_ptr s) xs"

definition morse_skbq_unlink :: "qsel \<Rightarrow> sk_buff \<Rightarrow> morse_skbq \<Rightarrow> morse_skbq" where
  "morse_skbq_unlink q s mq =
     (case q of
        Tx_list \<Rightarrow> mq\<lparr>skbq_size := skbq_size mq - min (sk_len s) (skbq_size mq), skbq := skb_unlink s (skbq mq)\<rparr>
      | Pending_list \<Rightarrow> mq\<lparr>pending := skb_unlink s (pending mq)\<rparr>)"

primrec skb_queue_before :: "nat \<Rightarrow> sk_buff \<Rightarrow> sk_buff list \<Rightarrow> sk_buff list" where
  "skb_queue_before p s [] = [s]"
| "skb_queue_before p s (x # xs) = (if sk_ptr x = p then s # x # xs else x # skb_queue_before p s xs)"

definition skb_queue :: "bool \<Rightarrow> nat option \<Rightarrow> sk_buff \<Rightarrow> sk_buff list \<Rightarrow> sk_buff list" where
  "skb_queue at_head before s xs =
     (case before of Some p \<Rightarrow> skb_queue_before p s xs
      | None \<Rightarrow> if at_head then s # xs else xs @ [s])"

text \<open>The flag is the return value: \<open>False\<close> is \<open>-ENOMEM\<close>.\<close>

definition morse_skbq_put :: "qsel \<Rightarrow> sk_buff \<Rightarrow> bool \<Rightarrow> nat option \<Rightarrow> morse_skbq \<Rightarrow> morse_skbq \<times> bool" where
  "morse_skbq_put q s at_head before mq =
     (case q of
        Tx_list \<Rightarrow>
          if morse_skbq_space mq < sk_len s then (mq, False)
          else (mq\<lparr>skbq_size := trunc32 (skbq_size mq + sk_len s), skbq := skb_queue at_head before s (skbq mq)\<rparr>, True)
      | Pending_list \<Rightarrow> (mq\<lparr>pending := skb_queue at_head before s (pending mq)\<rparr>, True))"

definition set_pkt_id :: "nat \<Rightarrow> nat \<Rightarrow> sk_buff list \<Rightarrow> sk_buff list" where
  "set_pkt_id p i xs = map (\<lambda>x. if sk_ptr x = p then x\<lparr>sk_pkt_id := i\<rparr> else x) xs"

text \<open>The id is written through the pointer, so into the queue when the frame is there.\<close>

definition morse_skbq_pkt_id :: "sk_buff \<Rightarrow> morse_skbq \<Rightarrow> morse_skbq \<times> sk_buff" where
  "morse_skbq_pkt_id s mq =
     (mq\<lparr>pkt_seq := trunc32 (pkt_seq mq + 1),
         skbq := set_pkt_id (sk_ptr s) (pkt_seq mq) (skbq mq),
         pending := set_pkt_id (sk_ptr s) (pkt_seq mq) (pending mq)\<rparr>,
      s\<lparr>sk_pkt_id := pkt_seq mq\<rparr>)"

definition SKB_HEADER_SIZE :: nat where
  "SKB_HEADER_SIZE = 40"

definition skb_pull :: "nat \<Rightarrow> sk_buff \<Rightarrow> sk_buff" where
  "skb_pull n s = (if n \<le> sk_len s then s\<lparr>sk_len := sk_len s - n\<rparr> else s)"

definition morse_skb_remove_hdr_after_sent_to_chip :: "sk_buff \<Rightarrow> sk_buff" where
  "morse_skb_remove_hdr_after_sent_to_chip s = skb_pull (SKB_HEADER_SIZE + sk_offset s) s"

text \<open>\<open>-ENOMEM\<close> of the put is ignored: the frame is then in neither list. The last case is the end of the walk.\<close>

primrec insert_walk :: "nat \<Rightarrow> sk_buff \<Rightarrow> sk_buff list \<Rightarrow> morse_skbq \<Rightarrow> morse_skbq" where
  "insert_walk i s [] mq = mq"
| "insert_walk i s (x # xs) mq =
     (if i \<le> sk_pkt_id x then fst (morse_skbq_put Tx_list s False (Some (sk_ptr x)) mq)
      else insert_walk i s xs mq)"

definition insert_pending_skb_to_skbq :: "sk_buff \<Rightarrow> nat \<Rightarrow> morse_skbq \<Rightarrow> morse_skbq" where
  "insert_pending_skb_to_skbq s i mq =
     (let xs = skbq mq; mq = morse_skbq_unlink Pending_list s mq
      in if xs = [] then fst (morse_skbq_put Tx_list s False None mq)
         else if sk_pkt_id (last xs) \<le> i then fst (morse_skbq_put Tx_list s False None mq)
         else insert_walk i s xs mq)"

definition find_sta :: "vif option \<Rightarrow> nat \<Rightarrow> bool" where
  "find_sta v a = (case v of None \<Rightarrow> False | Some v \<Rightarrow> a \<in> set (vif_stas v))"

text \<open>The frame without its header, and the end of a service period reported for its last frame.\<close>

definition morse_skbq_sta_eosp :: "sk_buff \<Rightarrow> morse \<Rightarrow> morse \<times> sk_buff" where
  "morse_skbq_sta_eosp s m =
     (let v = (case sk_vif s of Some v \<Rightarrow> Some v
               | None \<Rightarrow> morse_get_vif_from_vif_id m (vif_id_of_flags (sk_info_flags s)));
          s = morse_skb_remove_hdr_after_sent_to_chip s
      in (if sk_eosp s \<and> find_sta v (sk_addr1 s) then notify (Sta_eosp (sk_addr1 s)) m else m, s))"

definition count_status_dropped :: "morse \<Rightarrow> morse" where
  "count_status_dropped m = m\<lparr>page_stats := (page_stats m)\<lparr>tx_status_dropped := tx_status_dropped (page_stats m) + 1\<rparr>\<rparr>"

definition skbq_drop_pending_skb :: "sk_buff \<Rightarrow> morse \<times> morse_skbq \<Rightarrow> morse \<times> morse_skbq" where
  "skbq_drop_pending_skb s st =
     (case st of (m, mq) \<Rightarrow>
        let mq = morse_skbq_unlink Pending_list s mq;
            (m, s) = (if fullmac m then
                        (if sk_chan s = CHAN_MGMT then notify (Mgmt_tx_status (sk_pkt_id s) False) m else m, s)
                      else morse_skbq_sta_eosp s m)
        in (count_status_dropped (morse_flush_txskb s m), mq))"

text \<open>
  Whether the frame was consumed. In fullmac mode the interface is the station's (\<open>fm_vif\<close>) and
  there is no mac80211 interface. \<open>None\<close>: the interface does not exist and a NULL pointer is read.
\<close>

definition tx_skb_is_ps_filtered ::
    "vif option \<Rightarrow> sk_buff \<Rightarrow> tx_status \<Rightarrow> morse \<times> morse_skbq \<Rightarrow> ((morse \<times> morse_skbq) \<times> bool) option" where
  "tx_skb_is_ps_filtered fm_vif s ts st =
     (let v = (if fullmac (fst st) then None
               else case sk_vif s of Some v \<Rightarrow> Some v | None \<Rightarrow> morse_get_vif_from_tx_status (fst st) ts)
      in do {
        mv \<leftarrow> (if fullmac (fst st) then fm_vif else v);
        Some (if \<not> supports_ps_filter mv then (skbq_drop_pending_skb s st, True)
              else case v of
                Some v \<Rightarrow> if \<not> vif_station v then (st, False)
                          else ((fst st, insert_pending_skb_to_skbq s (ts_pkt_id ts) (snd st)), True)
              | None \<Rightarrow> ((fst st, insert_pending_skb_to_skbq s (ts_pkt_id ts) (snd st)), True))
      })"

text \<open>\<open>time_is_before_jiffies\<close>: the signed difference.\<close>

definition has_pending_tx_skb_timed_out :: "morse \<Rightarrow> sk_buff \<Rightarrow> bool" where
  "has_pending_tx_skb_timed_out m s \<longleftrightarrow> sint (sk_status_expiry s - jiffies m) < 0"

definition count_status_flushed :: "morse \<Rightarrow> morse" where
  "count_status_flushed m = m\<lparr>page_stats := (page_stats m)\<lparr>tx_status_flushed := tx_status_flushed (page_stats m) + 1\<rparr>\<rparr>"

definition flush_stale :: "sk_buff \<Rightarrow> morse \<times> morse_skbq \<Rightarrow> morse \<times> morse_skbq" where
  "flush_stale s st = (case skbq_drop_pending_skb s st of (m, mq) \<Rightarrow> (count_status_flushed m, mq))"

primrec pending_by_id_walk ::
    "nat \<Rightarrow> sk_buff list \<Rightarrow> morse \<times> morse_skbq \<Rightarrow> (morse \<times> morse_skbq) \<times> sk_buff option" where
  "pending_by_id_walk i [] st = (st, None)"
| "pending_by_id_walk i (x # xs) st =
     (if sk_pkt_id x = i then (st, Some x)
      else pending_by_id_walk i xs
             (if sk_pkt_id x < i \<and> has_pending_tx_skb_timed_out (fst st) x then flush_stale x st else st))"

definition skbq_get_pending_by_id :: "nat \<Rightarrow> morse \<times> morse_skbq \<Rightarrow> (morse \<times> morse_skbq) \<times> sk_buff option" where
  "skbq_get_pending_by_id i st = pending_by_id_walk i (pending (snd st)) st"

primrec stale_walk :: "sk_buff list \<Rightarrow> morse \<times> morse_skbq \<Rightarrow> (morse \<times> morse_skbq) \<times> nat" where
  "stale_walk [] st = (st, 0)"
| "stale_walk (x # xs) st =
     (if has_pending_tx_skb_timed_out (fst st) x
      then (case stale_walk xs (flush_stale x st) of (st, n) \<Rightarrow> (st, n + 1))
      else stale_walk xs st)"

definition morse_skbq_check_for_stale_tx :: "morse \<times> morse_skbq \<Rightarrow> (morse \<times> morse_skbq) \<times> nat" where
  "morse_skbq_check_for_stale_tx st = stale_walk (pending (snd st)) st"

section \<open>Putting frames on the queue and taking them off\<close>

definition morse_skbq_put_tail :: "sk_buff \<Rightarrow> morse_skbq \<Rightarrow> morse_skbq \<times> bool" where
  "morse_skbq_put_tail s mq = morse_skbq_put Tx_list s False None mq"

definition ftype_stype :: "u16 \<Rightarrow> u16" where
  "ftype_stype fc = fc AND 0x00FC"

definition set_queued_tx_skb_expiry :: "morse \<Rightarrow> sk_buff \<Rightarrow> sk_buff" where
  "set_queued_tx_skb_expiry m s =
     (if ftype_stype (sk_fc s) = 0x40 \<or> ftype_stype (sk_fc s) = 0x50 \<or> ftype_stype (sk_fc s) = 0xB0
      then s\<lparr>sk_enqueue_time := ucast (jiffies m)\<rparr> else s\<lparr>sk_enqueue_time := 0\<rparr>)"

definition has_queued_tx_skb_expired :: "morse \<Rightarrow> sk_buff \<Rightarrow> bool" where
  "has_queued_tx_skb_expired m s \<longleftrightarrow>
     0 < sk_enqueue_time s \<and> 0 < sint (ucast (jiffies m) - (sk_enqueue_time s + queued_lifetime m))"

primrec aged_walk :: "sk_buff list \<Rightarrow> morse \<times> morse_skbq \<Rightarrow> (morse \<times> morse_skbq) \<times> nat" where
  "aged_walk [] st = (st, 0)"
| "aged_walk (x # xs) st =
     (if has_queued_tx_skb_expired (fst st) x
      then (case aged_walk xs (morse_flush_txskb x (fst st), morse_skbq_unlink Tx_list x (snd st)) of (st, n) \<Rightarrow> (st, n + 1))
      else (st, 0))"

definition morse_skbq_purge_aged :: "morse \<times> morse_skbq \<Rightarrow> morse \<times> morse_skbq" where
  "morse_skbq_purge_aged st =
     (case aged_walk (skbq (snd st)) st of ((m, mq), dropped) \<Rightarrow>
        (m\<lparr>page_stats := (page_stats m)\<lparr>tx_aged_out := tx_aged_out (page_stats m) + dropped\<rparr>\<rparr>, mq))"

text \<open>The purged list is a separate one or the pending list: the size of the queue is left alone.\<close>

definition morse_skbq_purge :: "sk_buff list \<Rightarrow> morse \<Rightarrow> morse \<times> nat" where
  "morse_skbq_purge xs m = (foldl (\<lambda>m s. consume (Kfree s) m) m xs, length xs)"

definition morse_skbq_purge_pending :: "morse \<times> morse_skbq \<Rightarrow> (morse \<times> morse_skbq) \<times> nat" where
  "morse_skbq_purge_pending st =
     (case morse_skbq_purge (pending (snd st)) (fst st) of (m, n) \<Rightarrow> ((m, (snd st)\<lparr>pending := []\<rparr>), n))"

text \<open>The queue, the frames that did not fit and the number of octets queued.\<close>

primrec enq_walk :: "nat \<Rightarrow> sk_buff list \<Rightarrow> bool \<Rightarrow> morse_skbq \<Rightarrow> morse_skbq \<times> sk_buff list \<times> nat" where
  "enq_walk room [] at_head mq = (mq, [], 0)"
| "enq_walk room (x # xs) at_head mq =
     (if room < sk_len x then (mq, x # xs, 0)
      else (case enq_walk (room - sk_len x) xs at_head (fst (morse_skbq_put Tx_list x at_head None mq)) of
              (mq, rest, n) \<Rightarrow> (mq, rest, n + sk_len x)))"

definition morse_skbq_enq :: "sk_buff list \<Rightarrow> morse_skbq \<Rightarrow> morse_skbq \<times> sk_buff list \<times> nat" where
  "morse_skbq_enq xs mq = enq_walk (morse_skbq_space mq) xs False mq"

text \<open>The list is walked from its tail, each frame going to the head of the queue.\<close>

definition morse_skbq_enq_prepend :: "sk_buff list \<Rightarrow> morse_skbq \<Rightarrow> morse_skbq \<times> sk_buff list \<times> nat" where
  "morse_skbq_enq_prepend xs mq =
     (case enq_walk (morse_skbq_space mq) (rev xs) True mq of (mq, rest, n) \<Rightarrow> (mq, rev rest, n))"

primrec deq_walk :: "nat \<Rightarrow> sk_buff list \<Rightarrow> morse_skbq \<Rightarrow> morse_skbq \<times> sk_buff list" where
  "deq_walk n [] mq = (mq, [])"
| "deq_walk n (x # xs) mq =
     (if n = 0 then (mq, [])
      else (case deq_walk (n - 1) xs (morse_skbq_unlink Tx_list x mq) of (mq, ys) \<Rightarrow> (mq, x # ys)))"

definition morse_skbq_deq_num_items :: "nat \<Rightarrow> morse_skbq \<Rightarrow> morse_skbq \<times> sk_buff list" where
  "morse_skbq_deq_num_items n mq = deq_walk n (skbq mq) mq"

definition morse_skbq_count :: "morse_skbq \<Rightarrow> nat" where
  "morse_skbq_count mq = length (skbq mq)"

definition morse_skbq_pending_count :: "morse_skbq \<Rightarrow> nat" where
  "morse_skbq_pending_count mq = length (pending mq)"

definition morse_skbq_count_tx_ready :: "morse \<Rightarrow> morse_skbq \<Rightarrow> nat" where
  "morse_skbq_count_tx_ready m mq = (if morse_is_data_tx_allowed m then morse_skbq_count mq else 0)"

definition morse_skbq_tx_pending :: "morse_skbq \<Rightarrow> sk_buff option" where
  "morse_skbq_tx_pending mq = (case pending mq of [] \<Rightarrow> None | s # _ \<Rightarrow> Some s)"

section \<open>Stopping and waking the queues of mac80211\<close>

definition morse_skbq_stop_tx_queues :: "morse \<Rightarrow> morse" where
  "morse_skbq_stop_tx_queues m =
     (if \<not> started m \<or> fullmac m \<or> airtime_fairness m then m
      else m\<lparr>page_stats := (page_stats m)\<lparr>queue_stop := queue_stop (page_stats m) + 1\<rparr>,
             stopped_acs := [0, 1, 2, 3],
             state_flags := insert DATA_QS_STOPPED (state_flags m)\<rparr>)"

definition morse_skbq_may_wake_tx_queues :: "morse_skbq list \<Rightarrow> morse \<Rightarrow> morse" where
  "morse_skbq_may_wake_tx_queues qs m =
     (if \<not> started m \<or> fullmac m \<or> airtime_fairness m then m
      else if \<not> list_all (morse_skbq_under_threshold m) qs then m
      else m\<lparr>stopped_acs := [], state_flags := state_flags m - {DATA_QS_STOPPED}\<rparr>)"

definition morse_skbq_data_traffic_pause :: "morse \<Rightarrow> morse" where
  "morse_skbq_data_traffic_pause m = m\<lparr>state_flags := insert DATA_TX_STOPPED (state_flags m)\<rparr>"

definition morse_skbq_data_traffic_resume :: "morse \<Rightarrow> morse" where
  "morse_skbq_data_traffic_resume m =
     m\<lparr>state_flags := state_flags m - {DATA_TX_STOPPED}, event_flags := insert TX_DATA_PEND (event_flags m)\<rparr>"

section \<open>Sending a frame\<close>

definition queue_chip_work :: "chip_event \<Rightarrow> morse \<Rightarrow> morse" where
  "queue_chip_work e m = m\<lparr>event_flags := insert e (event_flags m), chip_work_queued := True\<rparr>"

definition signal_channel :: "nat \<Rightarrow> morse \<Rightarrow> morse" where
  "signal_channel chan m =
     (if chan = CHAN_DATA \<or> chan = CHAN_WIPHY \<or> chan = CHAN_LOOPBACK \<or> chan = CHAN_DATA_NOACK then
        (if morse_is_data_tx_allowed m then queue_chip_work TX_DATA_PEND m else m)
      else if chan = CHAN_MGMT then queue_chip_work TX_MGMT_PEND m
      else if chan = CHAN_BEACON then queue_chip_work TX_BEACON_PEND m
      else if chan = CHAN_COMMAND then queue_chip_work TX_COMMAND_PEND m
      else m)"

text \<open>The packet id is taken, and written to the frame, whether or not the frame fitted.\<close>

definition morse_skbq_tx :: "sk_buff \<Rightarrow> nat \<Rightarrow> morse \<times> morse_skbq \<Rightarrow> (morse \<times> morse_skbq) \<times> sk_buff \<times> bool" where
  "morse_skbq_tx s chan st =
     (case st of (m, mq) \<Rightarrow>
        let (mq, ok) = morse_skbq_put Tx_list s False None mq;
            (mq, s) = morse_skbq_pkt_id s mq;
            m = (if chan = CHAN_DATA \<and> morse_skbq_over_threshold m mq then morse_skbq_stop_tx_queues m else m)
        in ((signal_channel chan m, mq), s, ok))"

definition align_down :: "nat \<Rightarrow> nat \<Rightarrow> nat" where
  "align_down x a = x - x mod a"

text \<open>The header in front of the frame; \<open>info\<close> are the flags of \<open>tx_info\<close>.\<close>

definition push_header :: "morse \<Rightarrow> nat \<Rightarrow> u32 \<Rightarrow> sk_buff \<Rightarrow> sk_buff" where
  "push_header m chan info s =
     (let head = align_down (sk_data s - SKB_HEADER_SIZE - extra_tx_offset m) (bulk_alignment m)
      in s\<lparr>sk_chan := chan, sk_offset := trunc8 (sk_data s - (head + SKB_HEADER_SIZE)), sk_info_flags := info,
           sk_len := sk_len s + (sk_data s - head), sk_data := head\<rparr>)"

text \<open>\<open>pad_ok\<close>: \<open>skb_pad\<close> can extend the frame to a whole word; it frees the frame when it cannot.\<close>

definition morse_skbq_skb_tx ::
    "bool \<Rightarrow> sk_buff \<Rightarrow> u32 option \<Rightarrow> nat \<Rightarrow> morse \<times> morse_skbq \<Rightarrow> (morse \<times> morse_skbq) \<times> int" where
  "morse_skbq_skb_tx pad_ok s info chan st =
     (case st of (m, mq) \<Rightarrow>
        if CHIP_UNRESPONSIVE \<in> state_flags m then ((consume (Kfree s) m, mq), - ENODEV)
        else if chan = CHAN_COMMAND \<and> HOST_TO_CHIP_CMD_BLOCKED \<in> state_flags m
        then ((consume (Kfree s) m, mq), - EPERM)
        else if chan \<noteq> CHAN_COMMAND \<and> HOST_TO_CHIP_TX_BLOCKED \<in> state_flags m
        then ((consume (Kfree s) m, mq), - EPERM)
        else
          (let s = push_header m chan (case info of Some i \<Rightarrow> i | None \<Rightarrow> 0) (set_queued_tx_skb_expiry m s)
           in if sk_len s mod 4 \<noteq> 0 \<and> \<not> pad_ok then ((consume (Kfree s) m, mq), - EINVAL)
              else (case morse_skbq_tx s chan (m, mq) of
                      ((m, mq), s, ok) \<Rightarrow> if ok then ((m, mq), 0) else ((consume (Kfree s) m, mq), - ENOMEM))))"

text \<open>The headroom and size \<open>morse_skbq_alloc_skb\<close> asks for.\<close>

definition morse_skbq_alloc_skb :: "morse \<Rightarrow> nat \<Rightarrow> nat \<times> nat" where
  "morse_skbq_alloc_skb m len =
     (let offset = (if len mod 4 \<noteq> 0 then 4 - len mod 4 else 0);
          headroom = SKB_HEADER_SIZE + extra_tx_offset m + bulk_alignment m
      in (headroom, headroom + len + offset))"

section \<open>Frames given to the chip\<close>

definition skbq_tx_move_to_pending :: "sk_buff \<Rightarrow> morse \<times> morse_skbq \<Rightarrow> morse \<times> morse_skbq" where
  "skbq_tx_move_to_pending s st =
     (fst st, fst (morse_skbq_put Pending_list (s\<lparr>sk_status_expiry := jiffies (fst st) + status_lifetime (fst st)\<rparr>)
                     False None (snd st)))"

text \<open>The flag: some frame awaits a TX status.\<close>

definition tx_complete_one :: "sk_buff \<Rightarrow> (morse \<times> morse_skbq) \<times> bool \<Rightarrow> (morse \<times> morse_skbq) \<times> bool" where
  "tx_complete_one s sb =
     (case sb of ((m, mq), b) \<Rightarrow>
        if sk_chan s = CHAN_BEACON then
          (if fw_reports_bcn_tx_status m then (skbq_tx_move_to_pending s (m, mq), True)
           else (let s = morse_skb_remove_hdr_after_sent_to_chip s
                 in ((consume (Kfree s) (notify (Ecsa_beacon_tx_done (sk_ptr s)) m), mq), b)))
        else if sk_chan s = CHAN_LOOPBACK \<or> sk_chan s = CHAN_WIPHY then ((consume (Kfree s) m, mq), b)
        else if bit (sk_info_flags s) FLAG_NO_REPORT then ((consume (Kfree s) m, mq), b)
        else (skbq_tx_move_to_pending s (m, mq), True))"

definition morse_skbq_tx_complete :: "sk_buff list \<Rightarrow> morse \<times> morse_skbq \<Rightarrow> morse \<times> morse_skbq" where
  "morse_skbq_tx_complete xs st =
     (case fold tx_complete_one xs (st, False) of
        ((m, mq), awaits) \<Rightarrow>
          (if awaits \<and> stale_status_enabled m
           then m\<lparr>stale_timer := Some (jiffies m + status_lifetime m)\<rparr> else m, mq))"

text \<open>The QoS null frame with the power management bit becomes a null frame.\<close>

definition skbq_qosnullfunc_to_nullfunc :: "sk_buff \<Rightarrow> sk_buff" where
  "skbq_qosnullfunc_to_nullfunc s =
     (if ftype_stype (sk_fc s) = 0xC8 \<and> sk_fc s AND 0x1000 \<noteq> 0
      then s\<lparr>sk_fc := (sk_fc s AND NOT 0x00C0) OR 0x0040\<rparr> else s)"

text \<open>
  The frame is taken from the pending list whenever that list is not empty: \<open>None\<close> when it is in the
  other one, whose length would be wrong from then on.
\<close>

definition has_ptr :: "sk_buff \<Rightarrow> sk_buff list \<Rightarrow> bool" where
  "has_ptr s xs \<longleftrightarrow> sk_ptr s \<in> sk_ptr ` set xs"

definition skbq_cmd_finish :: "sk_buff \<Rightarrow> morse \<times> morse_skbq \<Rightarrow> (morse \<times> morse_skbq) option" where
  "skbq_cmd_finish s st =
     (case st of (m, mq) \<Rightarrow>
        if pending mq \<noteq> [] then
          (if has_ptr s (pending mq) then Some (consume (Kfree s) m, morse_skbq_unlink Pending_list s mq) else None)
        else if skbq mq \<noteq> [] then
          (if has_ptr s (skbq mq) then Some (consume (Kfree s) m, morse_skbq_unlink Tx_list s mq) else None)
        else Some st)"

text \<open>mac80211 processing, statistics and rate feedback of the frame are one fate.\<close>

definition skbq_data_tx_finish :: "sk_buff \<Rightarrow> tx_status \<Rightarrow> morse \<times> morse_skbq \<Rightarrow> morse \<times> morse_skbq" where
  "skbq_data_tx_finish s ts st =
     (case st of (m, mq) \<Rightarrow>
        let mq = morse_skbq_unlink Pending_list s mq;
            s = skbq_qosnullfunc_to_nullfunc s
        in (consume (if monitor_mode m then Kfree s else Tx_reported s ts) m, mq))"

definition morse_skbq_skb_finish :: "sk_buff \<Rightarrow> tx_status \<Rightarrow> morse \<times> morse_skbq \<Rightarrow> (morse \<times> morse_skbq) option" where
  "morse_skbq_skb_finish s ts st =
     (if q_command (snd st) then skbq_cmd_finish s st else Some (skbq_data_tx_finish s ts st))"

definition morse_skbq_skb_finish_fullmac :: "sk_buff \<Rightarrow> tx_status \<Rightarrow> morse \<times> morse_skbq \<Rightarrow> morse \<times> morse_skbq" where
  "morse_skbq_skb_finish_fullmac s ts st =
     (consume (Kfree s) (notify (Mgmt_tx_status (ts_pkt_id ts) True) (fst st)), morse_skbq_unlink Pending_list s (snd st))"

definition flush_list :: "qsel \<Rightarrow> sk_buff list \<Rightarrow> morse \<times> morse_skbq \<Rightarrow> morse \<times> morse_skbq" where
  "flush_list q xs st = fold (\<lambda>s st. (morse_flush_txskb s (fst st), morse_skbq_unlink q s (snd st))) xs st"

definition morse_skbq_tx_flush :: "morse \<times> morse_skbq \<Rightarrow> (morse \<times> morse_skbq) \<times> nat" where
  "morse_skbq_tx_flush st =
     (flush_list Tx_list (skbq (snd st)) (flush_list Pending_list (pending (snd st)) st),
      length (pending (snd st)) + length (skbq (snd st)))"

definition morse_skbq_init :: "bool \<Rightarrow> bool \<Rightarrow> bool \<Rightarrow> morse_skbq" where
  "morse_skbq_init command data dir_to_host =
     \<lparr>pkt_seq = 0, q_command = command, q_data = data, q_dir_to_host = dir_to_host, skbq_size = 0, skbq = [], pending = []\<rparr>"

definition morse_skbq_finish :: "morse \<times> morse_skbq \<Rightarrow> morse \<times> morse_skbq" where
  "morse_skbq_finish st =
     (let m = fst (morse_skbq_purge (skbq (snd st)) (fst st));
          m = fst (morse_skbq_purge (pending (snd st)) m)
      in (m, (snd st)\<lparr>skbq := [], pending := [], skbq_size := 0\<rparr>))"

section \<open>TX status reports\<close>

text \<open>The queues of a chip interface, and the part of \<open>struct chip_if_ops\<close> that finds them.\<close>

datatype qname = Data_q nat | Beacon_q | Mgmt_q | Cmd_q

record driver =
  mors :: morse
  fm_sta_vif :: "vif option"
  queues :: "qname \<Rightarrow> morse_skbq"

record chip_if_ops =
  skbq_tc_q_from_aci :: "nat \<Rightarrow> qname option"
  skbq_mgmt_tc_q :: "qname option"
  skbq_bcn_tc_q :: "qname option"
  skbq_get_tx_qs :: "qname list"
  skbq_get_tx_buffered_count :: "driver \<Rightarrow> nat"

definition on_queue :: "qname \<Rightarrow> (morse \<times> morse_skbq \<Rightarrow> (morse \<times> morse_skbq) option) \<Rightarrow> driver \<Rightarrow> driver option" where
  "on_queue q f d =
     (case f (mors d, queues d q) of None \<Rightarrow> None
      | Some (m, mq) \<Rightarrow> Some (d\<lparr>mors := m, queues := (queues d)(q := mq)\<rparr>))"

definition match_tx_status_to_skbq :: "chip_if_ops \<Rightarrow> tx_status \<Rightarrow> qname option" where
  "match_tx_status_to_skbq ops ts =
     (if ts_channel ts = CHAN_DATA \<or> ts_channel ts = CHAN_DATA_NOACK \<or> ts_channel ts = CHAN_LOOPBACK
      then skbq_tc_q_from_aci ops (dot11_tid_to_ac (ts_tid ts))
      else if ts_channel ts = CHAN_MGMT then skbq_mgmt_tc_q ops
      else if ts_channel ts = CHAN_BEACON then skbq_bcn_tc_q ops
      else None)"

definition count_page_invalid :: "morse \<Rightarrow> morse" where
  "count_page_invalid m =
     m\<lparr>page_stats := (page_stats m)\<lparr>tx_status_page_invalid := tx_status_page_invalid (page_stats m) + 1\<rparr>\<rparr>"

definition count_duty_cycle :: "morse \<Rightarrow> morse" where
  "count_duty_cycle m =
     m\<lparr>page_stats := (page_stats m)\<lparr>tx_status_duty_cycle_cant_send := tx_status_duty_cycle_cant_send (page_stats m) + 1\<rparr>\<rparr>"

text \<open>One report, for the queue it belongs to.\<close>

definition tx_status_finish :: "sk_buff \<Rightarrow> tx_status \<Rightarrow> morse \<times> morse_skbq \<Rightarrow> (morse \<times> morse_skbq) option" where
  "tx_status_finish s ts st =
     (let s = morse_skb_remove_hdr_after_sent_to_chip s
      in if fullmac (fst st) then Some (morse_skbq_skb_finish_fullmac s ts st) else morse_skbq_skb_finish s ts st)"

definition tx_status_on_queue :: "vif option \<Rightarrow> tx_status \<Rightarrow> morse \<times> morse_skbq \<Rightarrow> (morse \<times> morse_skbq) option" where
  "tx_status_on_queue fm_vif ts st =
     (case skbq_get_pending_by_id (ts_pkt_id ts) st of
        (st, None) \<Rightarrow> Some st
      | ((m, mq), Some s) \<Rightarrow>
          if bit (ts_flags ts) FLAG_PAGE_INVALID then Some (skbq_drop_pending_skb s (count_page_invalid m, mq))
          else if bit (ts_flags ts) FLAG_DUTY_CYCLE_CANT_SEND then Some (skbq_drop_pending_skb s (count_duty_cycle m, mq))
          else if bit (ts_flags ts) FLAG_PS_FILTERED then do {
            (st, consumed) \<leftarrow> tx_skb_is_ps_filtered fm_vif s ts (m, mq);
            if consumed then Some st else tx_status_finish s ts st
          } else tx_status_finish s ts (m, mq))"

definition tx_status_one :: "chip_if_ops \<Rightarrow> tx_status \<Rightarrow> driver \<Rightarrow> driver option" where
  "tx_status_one ops ts d =
     (case match_tx_status_to_skbq ops ts of None \<Rightarrow> Some d
      | Some q \<Rightarrow> on_queue q (tx_status_on_queue (fm_sta_vif d) ts) d)"

definition eval_ps :: "chip_if_ops \<Rightarrow> driver \<Rightarrow> driver" where
  "eval_ps ops d =
     (if ps_enable (mors d) \<and> \<not> ps_suspended (mors d) \<and> skbq_get_tx_buffered_count ops d = 0
      then d\<lparr>mors := (mors d)\<lparr>ps_eval_queued := True\<rparr>\<rparr> else d)"

definition morse_skbq_tx_status_process :: "chip_if_ops \<Rightarrow> sk_buff \<Rightarrow> driver \<Rightarrow> driver option" where
  "morse_skbq_tx_status_process ops s d =
     do { d \<leftarrow> ofold (tx_status_one ops) (sk_statuses s) d; Some (eval_ps ops d) }"

section \<open>Frames from the chip\<close>

definition on_mors :: "(morse \<Rightarrow> morse) \<Rightarrow> driver \<Rightarrow> driver" where
  "on_mors f d = d\<lparr>mors := f (mors d)\<rparr>"

text \<open>\<open>__skb_pull\<close> does not check the length.\<close>

definition skb_pull_unchecked :: "nat \<Rightarrow> sk_buff \<Rightarrow> sk_buff" where
  "skb_pull_unchecked n s = s\<lparr>sk_len := sub32 (sk_len s) n\<rparr>"

definition dispatch_one :: "chip_if_ops \<Rightarrow> sk_buff \<Rightarrow> driver \<Rightarrow> driver option" where
  "dispatch_one ops s d =
     (let s = skb_pull_unchecked (SKB_HEADER_SIZE + sk_offset s) s; chan = sk_chan s
      in if chan = CHAN_COMMAND then Some (on_mors (consume (Cmd_resp s)) d)
         else if chan = CHAN_TX_STATUS then
           map_option (on_mors (consume (Kfree s))) (morse_skbq_tx_status_process ops s d)
         else if chan = CHAN_LOOPBACK then Some (on_mors (consume (Kfree s)) d)
         else if chan = CHAN_WIPHY then Some (on_mors (consume (Wiphy_rx s)) d)
         else if chan = CHAN_MGMT \<and> fullmac (mors d) then Some (on_mors (consume (Wiphy_rx_mgmt s)) d)
         else Some (on_mors (consume (Mac_recv s)) d))"

text \<open>The work of a queue from the chip: everything it holds is taken first; the chip is looked at again at the end.\<close>

definition morse_skbq_dispatch_work :: "chip_if_ops \<Rightarrow> morse_skbq \<Rightarrow> driver \<Rightarrow> (driver \<times> morse_skbq) option" where
  "morse_skbq_dispatch_work ops rx d =
     (case morse_skbq_deq_num_items (morse_skbq_count rx) rx of
        (rx, xs) \<Rightarrow> do {
          d \<leftarrow> ofold (dispatch_one ops) xs d;
          Some (on_mors (queue_chip_work RX_PEND) d, rx)
        })"

end
