(* ===== verification/Skbq_Frames.thy ===== *)
theory Skbq_Frames
  imports Skbq
begin

text \<open>
  Lemmas on the queues of \<^verbatim>\<open>skbq.c\<close>: the invariant of a queue (its size is that of the frames in it,
  no frame is in it twice), and what each operation does to the frames: a frame that is handed over
  is held in one of the two lists until its fate is recorded, once.
\<close>

section \<open>The invariant of a queue\<close>

definition total_len :: "sk_buff list \<Rightarrow> nat" where
  "total_len xs = sum_list (map sk_len xs)"

definition sized :: "morse_skbq \<Rightarrow> bool" where
  "sized mq \<longleftrightarrow> skbq_size mq = total_len (skbq mq) \<and> skbq_size mq \<le> MORSE_SKBQ_SIZE"

definition ptrs :: "sk_buff list \<Rightarrow> nat multiset" where
  "ptrs xs = mset (map sk_ptr xs)"

definition holds :: "morse_skbq \<Rightarrow> nat multiset" where
  "holds mq = ptrs (skbq mq) + ptrs (pending mq)"

definition once :: "nat multiset \<Rightarrow> bool" where
  "once M \<longleftrightarrow> (\<forall>p. count M p \<le> 1)"

text \<open>Every frame held before or newly handed over (\<open>E\<close>) is held after, or its fate was recorded once.\<close>

definition conserves :: "morse \<times> morse_skbq \<Rightarrow> morse \<times> morse_skbq \<Rightarrow> nat multiset \<Rightarrow> bool" where
  "conserves st st' E \<longleftrightarrow> (\<exists>F. fates (fst st') = fates (fst st) @ F \<and>
     holds (snd st') + ptrs (map fate_skb F) = holds (snd st) + E)"

lemma ptrs_simps [simp]:
  "ptrs [] = {#}" "ptrs (x # xs) = add_mset (sk_ptr x) (ptrs xs)" "ptrs (xs @ ys) = ptrs xs + ptrs ys"
  by (simp_all add: ptrs_def)

lemma ptrs_rev [simp]: "ptrs (rev xs) = ptrs xs"
  by (simp add: ptrs_def rev_map [symmetric])

lemma total_len_simps [simp]:
  "total_len [] = 0" "total_len (x # xs) = sk_len x + total_len xs" "total_len (xs @ ys) = total_len xs + total_len ys"
  by (simp_all add: total_len_def)

lemma once_distinct: "once (ptrs xs) \<longleftrightarrow> distinct (map sk_ptr xs)"
  unfolding once_def ptrs_def by (metis distinct_count_atmost_1 count_mset_0_iff le_Suc_eq le_zero_eq One_nat_def not_in_iff count_greater_zero_iff set_mset_mset zero_le_one order_refl less_eq_Suc_le)

lemma once_mono: "once (M + N) \<Longrightarrow> once M"
  unfolding once_def by (metis add_leD1 count_union)

lemma once_sub: "M \<subseteq># N \<Longrightarrow> once N \<Longrightarrow> once M"
  unfolding once_def by (meson le_trans mset_subset_eq_count)

lemma conserves_refl: "conserves st st {#}"
  unfolding conserves_def by (intro exI [of _ "[]"]) simp

lemma conserves_trans:
  assumes "conserves s t E" "conserves t u E'"
  shows "conserves s u (E + E')"
proof -
  obtain F G where "fates (fst t) = fates (fst s) @ F" "holds (snd t) + ptrs (map fate_skb F) = holds (snd s) + E"
    "fates (fst u) = fates (fst t) @ G" "holds (snd u) + ptrs (map fate_skb G) = holds (snd t) + E'"
    using assms by (auto simp: conserves_def)
  note f = this
  have "holds (snd u) + ptrs (map fate_skb (F @ G)) = (holds (snd u) + ptrs (map fate_skb G)) + ptrs (map fate_skb F)"
    by (simp add: ac_simps)
  also have "\<dots> = (holds (snd t) + ptrs (map fate_skb F)) + E'" unfolding f(4) by (simp add: ac_simps)
  also have "\<dots> = holds (snd s) + (E + E')" unfolding f(2) by (simp add: ac_simps)
  finally show ?thesis unfolding conserves_def using f(1,3) by (intro exI [of _ "F @ G"]) simp
qed

lemma conserves_once: "conserves st st' E \<Longrightarrow> once (holds (snd st) + E) \<Longrightarrow> once (holds (snd st'))"
  unfolding conserves_def by (metis once_mono)

lemma sub32_space [simp]: "a \<le> b \<Longrightarrow> b < 4294967296 \<Longrightarrow> sub32 b a = b - a"
proof -
  assume "a \<le> b" "b < 4294967296"
  then have "b + 4294967296 - a = (b - a) + 4294967296" "b - a < 4294967296" by simp_all
  then show "sub32 b a = b - a" unfolding sub32_def trunc32_def by (metis mod_add_self2 mod_less)
qed

lemma space_sized: "sized mq \<Longrightarrow> morse_skbq_space mq = MORSE_SKBQ_SIZE - total_len (skbq mq)"
  by (simp add: sized_def morse_skbq_space_def MORSE_SKBQ_SIZE_def)

section \<open>Taking one frame out, putting one in\<close>

lemma unlink_absent: "\<not> has_ptr s xs \<Longrightarrow> skb_unlink s xs = xs"
  unfolding skb_unlink_def has_ptr_def by (rule filter_True) (metis imageI)

lemma unlink_Cons [simp]:
  "skb_unlink s (x # xs) = (if sk_ptr x = sk_ptr s then skb_unlink s xs else x # skb_unlink s xs)"
  by (simp add: skb_unlink_def)

lemma has_ptr_simps [simp]:
  "has_ptr s [] = False" "has_ptr s (x # xs) = (sk_ptr s = sk_ptr x \<or> has_ptr s xs)"
  by (auto simp: has_ptr_def)

lemma once_ptrs_Cons: "once (add_mset (sk_ptr x) (ptrs xs)) \<Longrightarrow> \<not> has_ptr x xs \<and> once (ptrs xs)"
  using once_distinct [of "x # xs"] by (auto simp: has_ptr_def once_distinct)

lemma unlink_ptrs:
  "once (ptrs xs) \<Longrightarrow> has_ptr s xs \<Longrightarrow> add_mset (sk_ptr s) (ptrs (skb_unlink s xs)) = ptrs xs"
proof (induction xs)
  case (Cons x xs)
  note x = once_ptrs_Cons [OF Cons.prems(1) [simplified]]
  show ?case
  proof (cases "sk_ptr x = sk_ptr s")
    case True
    then have "\<not> has_ptr s xs" using x by (simp add: has_ptr_def)
    with True show ?thesis by (simp add: unlink_absent)
  next
    case False
    with Cons x show ?thesis by (simp add: add_mset_commute)
  qed
qed simp

lemma unlink_len:
  "once (ptrs xs) \<Longrightarrow> s \<in> set xs \<Longrightarrow> total_len (skb_unlink s xs) + sk_len s = total_len xs"
proof (induction xs)
  case (Cons x xs)
  note x = once_ptrs_Cons [OF Cons.prems(1) [simplified]]
  show ?case
  proof (cases "s = x")
    case True
    with x show ?thesis by (simp add: unlink_absent)
  next
    case False
    then have s: "s \<in> set xs" using Cons.prems(2) by simp
    then have "sk_ptr x \<noteq> sk_ptr s" using x by (auto simp: has_ptr_def)
    with Cons x s show ?thesis by simp
  qed
qed simp

lemma in_has_ptr: "s \<in> set xs \<Longrightarrow> has_ptr s xs"
  by (auto simp: has_ptr_def)

lemma unlink_pending_holds:
  assumes "once (holds mq)" "has_ptr s (pending mq)"
  shows "add_mset (sk_ptr s) (holds (morse_skbq_unlink Pending_list s mq)) = holds mq"
proof -
  have "once (ptrs (pending mq))" using assms(1) once_mono by (metis holds_def union_commute)
  from unlink_ptrs [OF this assms(2)] show ?thesis by (simp add: holds_def morse_skbq_unlink_def)
qed

lemma unlink_tx_holds:
  assumes "once (holds mq)" "has_ptr s (skbq mq)"
  shows "add_mset (sk_ptr s) (holds (morse_skbq_unlink Tx_list s mq)) = holds mq"
proof -
  have "once (ptrs (skbq mq))" using assms(1) once_mono by (metis holds_def)
  from unlink_ptrs [OF this assms(2)] show ?thesis by (simp add: holds_def morse_skbq_unlink_def)
qed

lemma unlink_tx_sized:
  assumes "sized mq" "once (holds mq)" "s \<in> set (skbq mq)"
  shows "sized (morse_skbq_unlink Tx_list s mq)"
proof -
  have "once (ptrs (skbq mq))" using assms(2) once_mono by (metis holds_def)
  from unlink_len [OF this assms(3)] assms(1) show ?thesis by (auto simp: sized_def morse_skbq_unlink_def)
qed

lemma unlink_pending_sized [simp]: "sized (morse_skbq_unlink Pending_list s mq) = sized mq"
  by (simp add: sized_def morse_skbq_unlink_def)

lemma queue_before_ptrs: "ptrs (skb_queue_before p s xs) = add_mset (sk_ptr s) (ptrs xs)"
  by (induction xs) (simp_all add: add_mset_commute)

lemma queue_before_len: "total_len (skb_queue_before p s xs) = sk_len s + total_len xs"
  by (induction xs) simp_all

lemma queue_ptrs [simp]: "ptrs (skb_queue h b s xs) = add_mset (sk_ptr s) (ptrs xs)"
  by (simp add: skb_queue_def queue_before_ptrs split: option.split)

lemma queue_len [simp]: "total_len (skb_queue h b s xs) = sk_len s + total_len xs"
  by (simp add: skb_queue_def queue_before_len split: option.split)

lemma put_sized:
  assumes "sized mq"
  shows "sized (fst (morse_skbq_put q s h b mq))"
proof (cases q)
  case Tx_list
  show ?thesis
  proof (cases "morse_skbq_space mq < sk_len s")
    case False
    then have "skbq_size mq + sk_len s \<le> MORSE_SKBQ_SIZE" using assms space_sized [OF assms] unfolding sized_def by linarith
    with Tx_list False assms show ?thesis
      by (simp add: morse_skbq_put_def sized_def MORSE_SKBQ_SIZE_def)
  qed (use Tx_list assms in \<open>simp add: morse_skbq_put_def\<close>)
qed (use assms in \<open>simp add: morse_skbq_put_def sized_def\<close>)

lemma put_holds:
  "holds (fst (morse_skbq_put q s h b mq)) =
     (if snd (morse_skbq_put q s h b mq) then add_mset (sk_ptr s) (holds mq) else holds mq)"
  by (simp add: morse_skbq_put_def holds_def split: qsel.split)

lemma put_fits: "sk_len s \<le> morse_skbq_space mq \<Longrightarrow> snd (morse_skbq_put q s h b mq)"
  by (simp add: morse_skbq_put_def split: qsel.split)

lemma put_ok: "snd (morse_skbq_put Tx_list s h b mq) \<longleftrightarrow> sk_len s \<le> morse_skbq_space mq"
  by (simp add: morse_skbq_put_def split: qsel.split)

section \<open>Every operation conserves frames and sizes\<close>

text \<open>The size of the queue in order, no frame twice.\<close>

definition wf_q :: "morse_skbq \<Rightarrow> bool" where
  "wf_q mq \<longleftrightarrow> sized mq \<and> once (holds mq)"

text \<open>What an operation guarantees: frames conserved and the queue well formed.\<close>

definition keeps :: "morse \<times> morse_skbq \<Rightarrow> morse \<times> morse_skbq \<Rightarrow> bool" where
  "keeps st st' \<longleftrightarrow> conserves st st' {#} \<and> wf_q (snd st')"

lemma keeps_trans: "keeps s t \<Longrightarrow> keeps t u \<Longrightarrow> keeps s u"
  using conserves_trans [of s t "{#}" u "{#}"] by (simp add: keeps_def)

lemma keeps_refl: "wf_q (snd st) \<Longrightarrow> keeps st st"
  by (simp add: keeps_def conserves_refl)

lemma keeps_wf: "keeps st st' \<Longrightarrow> wf_q (snd st')"
  by (simp add: keeps_def)

text \<open>Only the record of fates counts on the driver's side.\<close>

lemma fates_simps [simp, frame]:
  "fates (consume f m) = fates m @ [f]" "fates (notify n m) = fates m" "fates (count_status_dropped m) = fates m"
  "fates (count_status_flushed m) = fates m" "fates (count_page_invalid m) = fates m" "fates (count_duty_cycle m) = fates m"
  "fates (morse_skbq_stop_tx_queues m) = fates m" "fates (signal_channel chan m) = fates m"
  "fates (queue_chip_work e m) = fates m" "fates (morse_skbq_may_wake_tx_queues qs m) = fates m"
  by (simp_all add: consume_def notify_def count_status_dropped_def count_status_flushed_def count_page_invalid_def
      count_duty_cycle_def morse_skbq_stop_tx_queues_def signal_channel_def queue_chip_work_def morse_skbq_may_wake_tx_queues_def)

lemma ptr_simps [simp, frame]:
  "sk_ptr (skb_pull n s) = sk_ptr s" "sk_ptr (skb_pull_unchecked n s) = sk_ptr s"
  "sk_ptr (morse_skb_remove_hdr_after_sent_to_chip s) = sk_ptr s" "sk_ptr (skbq_qosnullfunc_to_nullfunc s) = sk_ptr s"
  "sk_ptr (set_queued_tx_skb_expiry m s) = sk_ptr s" "sk_ptr (push_header m chan i s) = sk_ptr s"
  by (simp_all add: skb_pull_def skb_pull_unchecked_def morse_skb_remove_hdr_after_sent_to_chip_def
      skbq_qosnullfunc_to_nullfunc_def set_queued_tx_skb_expiry_def push_header_def Let_def)

lemma has_ptr_cong: "sk_ptr s = sk_ptr t \<Longrightarrow> has_ptr s xs = has_ptr t xs"
  by (simp add: has_ptr_def)

lemma unlink_ptr_cong: "sk_ptr s = sk_ptr t \<Longrightarrow> skb_unlink s xs = skb_unlink t xs"
  by (simp add: skb_unlink_def)

lemma consume_pending:
  assumes "wf_q mq" "has_ptr s (pending mq)" "fates m' = fates m @ [f]" "sk_ptr (fate_skb f) = sk_ptr s"
  shows "keeps (m, mq) (m', morse_skbq_unlink Pending_list s mq)"
proof -
  have h: "add_mset (sk_ptr s) (holds (morse_skbq_unlink Pending_list s mq)) = holds mq"
    using assms(1,2) unlink_pending_holds by (simp add: wf_q_def)
  then have "conserves (m, mq) (m', morse_skbq_unlink Pending_list s mq) {#}"
    unfolding conserves_def using assms(3,4) by (intro exI [of _ "[f]"]) simp
  moreover from this have "once (holds (morse_skbq_unlink Pending_list s mq))"
    using conserves_once assms(1) by (fastforce simp: wf_q_def)
  ultimately show ?thesis using assms(1) by (simp add: keeps_def wf_q_def)
qed

lemma consume_tx:
  assumes "wf_q mq" "s \<in> set (skbq mq)" "fates m' = fates m @ [f]" "sk_ptr (fate_skb f) = sk_ptr s"
  shows "keeps (m, mq) (m', morse_skbq_unlink Tx_list s mq)"
proof -
  have h: "add_mset (sk_ptr s) (holds (morse_skbq_unlink Tx_list s mq)) = holds mq"
    using assms(1,2) unlink_tx_holds in_has_ptr by (simp add: wf_q_def)
  then have "conserves (m, mq) (m', morse_skbq_unlink Tx_list s mq) {#}"
    unfolding conserves_def using assms(3,4) by (intro exI [of _ "[f]"]) simp
  moreover from this have "once (holds (morse_skbq_unlink Tx_list s mq))"
    using conserves_once assms(1) by (fastforce simp: wf_q_def)
  ultimately show ?thesis using assms(1,2) unlink_tx_sized by (simp add: keeps_def wf_q_def)
qed

lemma drop_pending_shape:
  "\<exists>m' f. skbq_drop_pending_skb s (m, mq) = (m', morse_skbq_unlink Pending_list s mq) \<and>
    fates m' = fates m @ [f] \<and> sk_ptr (fate_skb f) = sk_ptr s \<and> jiffies m' = jiffies m"
  by (auto simp: skbq_drop_pending_skb_def morse_skbq_sta_eosp_def morse_flush_txskb_def Let_def
      count_status_dropped_def consume_def notify_def)

lemma drop_pending_keeps:
  "wf_q (snd st) \<Longrightarrow> has_ptr s (pending (snd st)) \<Longrightarrow> keeps st (skbq_drop_pending_skb s st)"
  using drop_pending_shape [of s "fst st" "snd st"] consume_pending [of "snd st" s _ "fst st"] by fastforce

lemma flush_stale_shape:
  "snd (flush_stale s st) = morse_skbq_unlink Pending_list s (snd st)" "jiffies (fst (flush_stale s st)) = jiffies (fst st)"
  using drop_pending_shape [of s "fst st" "snd st"]
  by (auto simp: flush_stale_def count_status_flushed_def split: prod.split)

lemma flush_stale_keeps:
  assumes "wf_q (snd st)" "has_ptr s (pending (snd st))"
  shows "keeps st (flush_stale s st)"
proof -
  obtain m mq where st: "st = (m, mq)" by (cases st)
  obtain m' f where d: "skbq_drop_pending_skb s (m, mq) = (m', morse_skbq_unlink Pending_list s mq)"
    "fates m' = fates m @ [f]" "sk_ptr (fate_skb f) = sk_ptr s"
    using drop_pending_shape by blast
  from consume_pending [OF _ _ _ d(3), of mq "count_status_flushed m'" m] d(2) assms
  show ?thesis by (simp add: st flush_stale_def d(1))
qed

lemma timed_out_cong: "jiffies m = jiffies m' \<Longrightarrow> has_pending_tx_skb_timed_out m = has_pending_tx_skb_timed_out m'"
  by (simp add: fun_eq_iff has_pending_tx_skb_timed_out_def)

lemma pending_unlink_pending [simp]: "pending (morse_skbq_unlink Pending_list s mq) = skb_unlink s (pending mq)"
  "skbq (morse_skbq_unlink Pending_list s mq) = skbq mq" "skbq_size (morse_skbq_unlink Pending_list s mq) = skbq_size mq"
  by (simp_all add: morse_skbq_unlink_def)

lemma wf_pending_once: "wf_q mq \<Longrightarrow> once (ptrs (pending mq))"
  unfolding wf_q_def holds_def by (metis once_mono union_commute)

lemma wf_skbq_once: "wf_q mq \<Longrightarrow> once (ptrs (skbq mq))"
  unfolding wf_q_def holds_def by (metis once_mono)

text \<open>Walking the pending list: what was kept before, then the rest.\<close>

lemma unlink_middle:
  assumes "once (ptrs (ys @ x # xs))"
  shows "skb_unlink x (ys @ x # xs) = ys @ xs"
proof -
  have "distinct (map sk_ptr (ys @ x # xs))" using assms once_distinct by blast
  then have "\<not> has_ptr x ys" "\<not> has_ptr x xs" by (auto simp: has_ptr_def)
  then show ?thesis using unlink_absent [of x ys] unlink_absent [of x xs] by (simp add: skb_unlink_def)
qed

lemma stale_walk_ok:
  assumes "wf_q (snd st)" "pending (snd st) = ys @ xs"
  shows "keeps st (fst (stale_walk xs st)) \<and>
    pending (snd (fst (stale_walk xs st))) = ys @ filter (\<lambda>x. \<not> has_pending_tx_skb_timed_out (fst st) x) xs \<and>
    skbq (snd (fst (stale_walk xs st))) = skbq (snd st) \<and>
    snd (stale_walk xs st) = length (filter (has_pending_tx_skb_timed_out (fst st)) xs)"
  using assms
proof (induction xs arbitrary: st ys)
  case Nil
  then show ?case by (simp add: keeps_refl)
next
  case (Cons x xs)
  show ?case
  proof (cases "has_pending_tx_skb_timed_out (fst st) x")
    case False
    with Cons.IH [of st "ys @ [x]"] Cons.prems show ?thesis by simp
  next
    case True
    have "has_ptr x (pending (snd st))" using Cons.prems(2) by (auto simp: has_ptr_def)
    note k = flush_stale_keeps [OF Cons.prems(1) this]
    have p: "pending (snd (flush_stale x st)) = ys @ xs"
      using wf_pending_once [OF Cons.prems(1)] Cons.prems(2) unlink_middle flush_stale_shape(1) by simp
    from Cons.IH [OF keeps_wf [OF k] p] keeps_trans [OF k] True timed_out_cong [OF flush_stale_shape(2), of x st]
    show ?thesis by (simp add: flush_stale_shape(1) case_prod_beta)
  qed
qed

lemma pending_by_id_ok:
  assumes "wf_q (snd st)" "pending (snd st) = ys @ xs"
  shows "keeps st (fst (pending_by_id_walk i xs st)) \<and>
    pending (snd (fst (pending_by_id_walk i xs st))) =
      ys @ filter (\<lambda>x. \<not> (sk_pkt_id x < i \<and> has_pending_tx_skb_timed_out (fst st) x)) (takeWhile (\<lambda>x. sk_pkt_id x \<noteq> i) xs) @
        dropWhile (\<lambda>x. sk_pkt_id x \<noteq> i) xs \<and>
    skbq (snd (fst (pending_by_id_walk i xs st))) = skbq (snd st) \<and>
    jiffies (fst (fst (pending_by_id_walk i xs st))) = jiffies (fst st) \<and>
    snd (pending_by_id_walk i xs st) = find (\<lambda>x. sk_pkt_id x = i) xs"
  using assms
proof (induction xs arbitrary: st ys)
  case Nil
  then show ?case by (simp add: keeps_refl)
next
  case (Cons x xs)
  show ?case
  proof (cases "sk_pkt_id x = i")
    case True
    with Cons.prems show ?thesis by (simp add: keeps_refl)
  next
    case ne: False
    show ?thesis
    proof (cases "sk_pkt_id x < i \<and> has_pending_tx_skb_timed_out (fst st) x")
      case False
      with Cons.IH [of st "ys @ [x]"] Cons.prems ne show ?thesis by auto
    next
      case True
      have "has_ptr x (pending (snd st))" using Cons.prems(2) by (auto simp: has_ptr_def)
      note k = flush_stale_keeps [OF Cons.prems(1) this]
      have p: "pending (snd (flush_stale x st)) = ys @ xs"
        using wf_pending_once [OF Cons.prems(1)] Cons.prems(2) unlink_middle flush_stale_shape(1) by simp
      from Cons.IH [OF keeps_wf [OF k] p] keeps_trans [OF k] True ne timed_out_cong [OF flush_stale_shape(2), of x st]
      show ?thesis by (simp add: flush_stale_shape)
    qed
  qed
qed

text \<open>Walks from the head of the queue.\<close>

lemma unlink_head: "once (ptrs (x # xs)) \<Longrightarrow> skb_unlink x (x # xs) = xs"
  using unlink_middle [of "[]" x xs] by simp

lemma unlink_tx_head:
  assumes "wf_q mq" "skbq mq = x # xs"
  shows "morse_skbq_unlink Tx_list x mq = mq\<lparr>skbq_size := skbq_size mq - sk_len x, skbq := xs\<rparr>"
proof -
  have "sk_len x \<le> skbq_size mq" using assms by (simp add: wf_q_def sized_def)
  then show ?thesis using unlink_head wf_skbq_once [OF assms(1)] assms(2)
    by (simp add: morse_skbq_unlink_def min_absorb1)
qed

lemma expired_cong:
  "jiffies m = jiffies m' \<Longrightarrow> queued_lifetime m = queued_lifetime m' \<Longrightarrow>
    has_queued_tx_skb_expired m = has_queued_tx_skb_expired m'"
  by (simp add: fun_eq_iff has_queued_tx_skb_expired_def)

lemma flush_txskb_frame [simp, frame]:
  "jiffies (morse_flush_txskb s m) = jiffies m" "queued_lifetime (morse_flush_txskb s m) = queued_lifetime m"
  "\<exists>f. fates (morse_flush_txskb s m) = fates m @ [f] \<and> sk_ptr (fate_skb f) = sk_ptr s"
  by (auto simp: morse_flush_txskb_def consume_def)

lemma aged_walk_ok:
  assumes "wf_q (snd st)" "skbq (snd st) = xs"
  shows "keeps st (fst (aged_walk xs st)) \<and>
    skbq (snd (fst (aged_walk xs st))) = dropWhile (has_queued_tx_skb_expired (fst st)) xs \<and>
    pending (snd (fst (aged_walk xs st))) = pending (snd st) \<and>
    snd (aged_walk xs st) = length (takeWhile (has_queued_tx_skb_expired (fst st)) xs)"
  using assms
proof (induction xs arbitrary: st)
  case Nil
  then show ?case by (simp add: keeps_refl)
next
  case (Cons x xs)
  show ?case
  proof (cases "has_queued_tx_skb_expired (fst st) x")
    case False
    with Cons.prems show ?thesis by (simp add: keeps_refl)
  next
    case True
    let ?st = "(morse_flush_txskb x (fst st), morse_skbq_unlink Tx_list x (snd st))"
    obtain f where "fates (morse_flush_txskb x (fst st)) = fates (fst st) @ [f]" "sk_ptr (fate_skb f) = sk_ptr x"
      using flush_txskb_frame(3) by blast
    then have k: "keeps st ?st"
      using consume_tx [of "snd st" x "morse_flush_txskb x (fst st)" "fst st" f] Cons.prems by simp
    have q: "skbq (snd ?st) = xs" "pending (snd ?st) = pending (snd st)"
      using unlink_tx_head [OF Cons.prems] by simp_all
    have e: "has_queued_tx_skb_expired (fst ?st) = has_queued_tx_skb_expired (fst st)"
      by (rule expired_cong) simp_all
    from Cons.IH [OF keeps_wf [OF k] q(1)] keeps_trans [OF k] q(2) True
    show ?thesis unfolding e by (simp add: case_prod_beta)
  qed
qed

lemma deq_walk_eq:
  assumes "wf_q mq" "skbq mq = xs"
  shows "deq_walk n xs mq = (mq\<lparr>skbq_size := skbq_size mq - total_len (take n xs), skbq := drop n xs\<rparr>, take n xs)"
  using assms
proof (induction xs arbitrary: n mq)
  case Nil
  then show ?case by simp
next
  case (Cons x xs)
  show ?case
  proof (cases n)
    case 0
    with Cons.prems show ?thesis by simp
  next
    case (Suc k)
    let ?mq = "morse_skbq_unlink Tx_list x mq"
    have "wf_q ?mq"
    proof -
      have "keeps (m, mq) (consume (Kfree x) m, ?mq)" for m
        using consume_tx [of mq x "consume (Kfree x) m" m "Kfree x"] Cons.prems by simp
      then show ?thesis using keeps_wf by fastforce
    qed
    moreover have "skbq ?mq = xs" using unlink_tx_head [OF Cons.prems] by simp
    ultimately show ?thesis using Cons.IH [of ?mq k] Suc unlink_tx_head [OF Cons.prems] by simp
  qed
qed

lemma deq_eq:
  assumes "wf_q mq"
  shows "morse_skbq_deq_num_items n mq =
    (mq\<lparr>skbq_size := skbq_size mq - total_len (take n (skbq mq)), skbq := drop n (skbq mq)\<rparr>, take n (skbq mq))"
  unfolding morse_skbq_deq_num_items_def by (rule deq_walk_eq [OF assms refl])

lemma total_len_take_drop: "total_len xs = total_len (take n xs) + total_len (drop n xs)"
  by (metis append_take_drop_id total_len_simps(3))

lemma ptrs_take_drop: "ptrs xs = ptrs (take n xs) + ptrs (drop n xs)"
  by (metis append_take_drop_id ptrs_simps(3))

lemma deq_wf:
  assumes "wf_q mq"
  shows "wf_q (fst (morse_skbq_deq_num_items n mq))"
    "holds (fst (morse_skbq_deq_num_items n mq)) + ptrs (snd (morse_skbq_deq_num_items n mq)) = holds mq"
proof -
  have h: "holds (fst (morse_skbq_deq_num_items n mq)) + ptrs (snd (morse_skbq_deq_num_items n mq)) = holds mq"
    using ptrs_take_drop [of "skbq mq" n] by (simp add: deq_eq [OF assms] holds_def ac_simps)
  show "holds (fst (morse_skbq_deq_num_items n mq)) + ptrs (snd (morse_skbq_deq_num_items n mq)) = holds mq" by (rule h)
  have "once (holds (fst (morse_skbq_deq_num_items n mq)))" using h assms once_mono unfolding wf_q_def by metis
  moreover have "sized (fst (morse_skbq_deq_num_items n mq))"
    using assms total_len_take_drop [of "skbq mq" n] by (simp add: deq_eq [OF assms] wf_q_def sized_def)
  ultimately show "wf_q (fst (morse_skbq_deq_num_items n mq))" by (simp add: wf_q_def)
qed

text \<open>Enqueueing a list: as many frames from its front as fit.\<close>

definition put_front :: "bool \<Rightarrow> sk_buff list \<Rightarrow> sk_buff list \<Rightarrow> sk_buff list" where
  "put_front at_head xs q = (if at_head then rev xs @ q else q @ xs)"

lemma put_tail_eq:
  assumes "sized mq" "sk_len x \<le> morse_skbq_space mq"
  shows "morse_skbq_put Tx_list x h None mq =
    (mq\<lparr>skbq_size := skbq_size mq + sk_len x, skbq := (if h then x # skbq mq else skbq mq @ [x])\<rparr>, True)"
proof -
  have "skbq_size mq + sk_len x < 4294967296"
    using assms space_sized [OF assms(1)] unfolding sized_def MORSE_SKBQ_SIZE_def by linarith
  then show ?thesis using assms(2) by (simp add: morse_skbq_put_def skb_queue_def)
qed

lemma enq_walk_eq:
  assumes "sized mq" "room = morse_skbq_space mq"
  shows "\<exists>pre rest. xs = pre @ rest \<and> (rest = [] \<or> morse_skbq_space mq < total_len pre + sk_len (hd rest)) \<and>
    total_len pre \<le> morse_skbq_space mq \<and>
    enq_walk room xs h mq = (mq\<lparr>skbq_size := skbq_size mq + total_len pre, skbq := put_front h pre (skbq mq)\<rparr>, rest, total_len pre)"
  using assms
proof (induction xs arbitrary: mq room)
  case Nil
  then show ?case by (intro exI [of _ "[]"]) (simp add: put_front_def)
next
  case (Cons x xs)
  show ?case
  proof (cases "room < sk_len x")
    case True
    with Cons.prems show ?thesis
      by (intro exI [of _ "[]"] exI [of _ "x # xs"]) (simp add: put_front_def)
  next
    case False
    let ?mq = "mq\<lparr>skbq_size := skbq_size mq + sk_len x, skbq := (if h then x # skbq mq else skbq mq @ [x])\<rparr>"
    have p: "morse_skbq_put Tx_list x h None mq = (?mq, True)" using put_tail_eq Cons.prems False by simp
    have sz: "sized ?mq" using put_sized [OF Cons.prems(1), of Tx_list x h None] p by simp
    have sp: "morse_skbq_space ?mq = morse_skbq_space mq - sk_len x"
      using space_sized [OF sz] space_sized [OF Cons.prems(1)] by (simp add: add.commute)
    obtain pre rest where r: "xs = pre @ rest" "rest = [] \<or> morse_skbq_space ?mq < total_len pre + sk_len (hd rest)"
      "total_len pre \<le> morse_skbq_space ?mq"
      "enq_walk (room - sk_len x) xs h ?mq =
        (?mq\<lparr>skbq_size := skbq_size ?mq + total_len pre, skbq := put_front h pre (skbq ?mq)\<rparr>, rest, total_len pre)"
      using Cons.IH [OF sz, of "room - sk_len x"] sp Cons.prems(2) by metis
    show ?thesis
    proof (intro exI conjI)
      show "x # xs = (x # pre) @ rest" using r(1) by simp
      show "rest = [] \<or> morse_skbq_space mq < total_len (x # pre) + sk_len (hd rest)"
        using r(2) False Cons.prems(2) unfolding sp by auto
      show "total_len (x # pre) \<le> morse_skbq_space mq" using r(3) False Cons.prems(2) unfolding sp by simp
      show "enq_walk room (x # xs) h mq =
        (mq\<lparr>skbq_size := skbq_size mq + total_len (x # pre), skbq := put_front h (x # pre) (skbq mq)\<rparr>, rest, total_len (x # pre))"
        using False p r(4) by (simp add: put_front_def)
    qed
  qed
qed

lemma space_drop:
  assumes "wf_q mq"
  shows "total_len (take n (skbq mq)) \<le> morse_skbq_space (fst (morse_skbq_deq_num_items n mq))"
proof -
  have "sized (fst (morse_skbq_deq_num_items n mq))" using deq_wf(1) [OF assms] by (simp add: wf_q_def)
  from space_sized [OF this] assms total_len_take_drop [of "skbq mq" n] show ?thesis
    by (auto simp: deq_eq [OF assms] wf_q_def sized_def)
qed

section \<open>Sending\<close>

lemma set_pkt_id_simps [simp]: "ptrs (set_pkt_id p i xs) = ptrs xs" "total_len (set_pkt_id p i xs) = total_len xs"
  by (induction xs) (simp_all add: set_pkt_id_def)

lemma pkt_id_simps [simp]:
  "sk_ptr (snd (morse_skbq_pkt_id s mq)) = sk_ptr s" "holds (fst (morse_skbq_pkt_id s mq)) = holds mq"
  "sized (fst (morse_skbq_pkt_id s mq)) = sized mq"
  by (simp_all add: morse_skbq_pkt_id_def holds_def sized_def)

lemma skbq_tx_ok:
  assumes "sized mq" "morse_skbq_tx s chan (m, mq) = ((m', mq'), s', ok)"
  shows "sized mq'" "fates m' = fates m" "sk_ptr s' = sk_ptr s"
    "holds mq' = (if ok then add_mset (sk_ptr s) (holds mq) else holds mq)"
    "ok \<longleftrightarrow> sk_len s \<le> morse_skbq_space mq"
proof -
  obtain mq1 b where p: "morse_skbq_put Tx_list s False None mq = (mq1, b)" by fastforce
  obtain mq2 s2 where i: "morse_skbq_pkt_id s mq1 = (mq2, s2)" by fastforce
  have e: "ok = b" "mq' = mq2" "s' = s2" "fates m' = fates m"
    using assms(2) unfolding morse_skbq_tx_def prod.case p i Let_def by (auto split: if_splits)
  show "fates m' = fates m" by (rule e(4))
  show "sized mq'" using put_sized [OF assms(1), of Tx_list s False None] p i pkt_id_simps(3) [of s mq1] e(2) by simp
  show "sk_ptr s' = sk_ptr s" using pkt_id_simps(1) [of s mq1] i e(3) by simp
  show "holds mq' = (if ok then add_mset (sk_ptr s) (holds mq) else holds mq)"
    using put_holds [of Tx_list s False None mq] p i pkt_id_simps(2) [of s mq1] e(1,2) by simp
  show "ok \<longleftrightarrow> sk_len s \<le> morse_skbq_space mq"
    using p e(1) by (auto simp: morse_skbq_put_def split: if_splits)
qed

lemma consume_new:
  "conserves (m, mq) (consume (Kfree s') m, mq) {#p#}" if "sk_ptr s' = p"
  unfolding conserves_def using that by (intro exI [of _ "[Kfree s']"]) simp

lemma skb_tx_ok:
  assumes "wf_q mq" "sk_ptr s \<notin># holds mq"
  shows "conserves (m, mq) (fst (morse_skbq_skb_tx pad_ok s info chan (m, mq))) {#sk_ptr s#}"
    "wf_q (snd (fst (morse_skbq_skb_tx pad_ok s info chan (m, mq))))"
proof -
  let ?r = "morse_skbq_skb_tx pad_ok s info chan (m, mq)"
  let ?s = "push_header m chan (case info of Some i \<Rightarrow> i | None \<Rightarrow> 0) (set_queued_tx_skb_expiry m s)"
  obtain m1 mq1 s1 ok where tx: "morse_skbq_tx ?s chan (m, mq) = ((m1, mq1), s1, ok)"
    by (cases "morse_skbq_tx ?s chan (m, mq)") auto
  have sz: "sized mq" using assms(1) by (simp add: wf_q_def)
  note t = skbq_tx_ok [OF sz tx]
  have r: "fst ?r = (consume (Kfree s) m, mq) \<or> fst ?r = (consume (Kfree ?s) m, mq) \<or>
      fst ?r = (if ok then (m1, mq1) else (consume (Kfree s1) m1, mq1))"
    unfolding morse_skbq_skb_tx_def prod.case Let_def tx by auto
  have sent: "conserves (m, mq) (if ok then (m1, mq1) else (consume (Kfree s1) m1, mq1)) {#sk_ptr s#}"
  proof (cases ok)
    case True
    then show ?thesis unfolding conserves_def using t by (intro exI [of _ "[]"]) simp
  next
    case False
    then show ?thesis unfolding conserves_def using t by (intro exI [of _ "[Kfree s1]"]) simp
  qed
  show c: "conserves (m, mq) (fst ?r) {#sk_ptr s#}"
    using r consume_new [of s "sk_ptr s" m mq] consume_new [of ?s "sk_ptr s" m mq] sent by auto
  have "once (holds mq + {#sk_ptr s#})"
    using assms unfolding wf_q_def once_def by (auto simp: not_in_iff)
  with conserves_once [OF c] have "once (holds (snd (fst ?r)))" by simp
  moreover have "sized (snd (fst ?r))" using r sz t(1) by (auto split: if_splits)
  ultimately show "wf_q (snd (fst ?r))" by (simp add: wf_q_def)
qed

text \<open>Frames given to the chip go to the pending list or are freed.\<close>

lemma tx_complete_one_ok:
  assumes "once (holds (snd (fst sb)) + {#sk_ptr s#})" "wf_q (snd (fst sb))"
  shows "conserves (fst sb) (fst (tx_complete_one s sb)) {#sk_ptr s#} \<and> wf_q (snd (fst (tx_complete_one s sb))) \<and>
    skbq (snd (fst (tx_complete_one s sb))) = skbq (snd (fst sb))"
proof -
  obtain m mq b where sb: "sb = ((m, mq), b)" by (metis surj_pair)
  let ?r = "fst (tx_complete_one s sb)"
  have "(\<exists>f m'. ?r = (m', mq) \<and> fates m' = fates m @ [f] \<and> sk_ptr (fate_skb f) = sk_ptr s) \<or>
      (\<exists>t. ?r = (m, mq\<lparr>pending := pending mq @ [t]\<rparr>) \<and> sk_ptr t = sk_ptr s)"
    by (auto simp: sb tx_complete_one_def Let_def consume_def notify_def skbq_tx_move_to_pending_def
        morse_skbq_put_def skb_queue_def)
  then show ?thesis
  proof (elim disjE exE conjE)
    fix f m' assume r: "?r = (m', mq)" "fates m' = fates m @ [f]" "sk_ptr (fate_skb f) = sk_ptr s"
    then have "conserves (m, mq) (m', mq) {#sk_ptr s#}" unfolding conserves_def by (intro exI [of _ "[f]"]) simp
    with r(1) assms(2) show ?thesis by (simp add: sb)
  next
    fix t assume r: "?r = (m, mq\<lparr>pending := pending mq @ [t]\<rparr>)" "sk_ptr t = sk_ptr s"
    have h: "holds (mq\<lparr>pending := pending mq @ [t]\<rparr>) = holds mq + {#sk_ptr s#}" using r(2) by (simp add: holds_def)
    have "conserves (m, mq) (m, mq\<lparr>pending := pending mq @ [t]\<rparr>) {#sk_ptr s#}"
      unfolding conserves_def using h by (intro exI [of _ "[]"]) simp
    moreover have "wf_q (mq\<lparr>pending := pending mq @ [t]\<rparr>)"
      using assms h by (simp add: wf_q_def sized_def sb)
    ultimately show ?thesis using r(1) by (simp add: sb)
  qed
qed

lemma tx_complete_fold:
  assumes "once (holds (snd (fst sb)) + ptrs xs)" "wf_q (snd (fst sb))"
  shows "conserves (fst sb) (fst (fold tx_complete_one xs sb)) (ptrs xs) \<and> wf_q (snd (fst (fold tx_complete_one xs sb))) \<and>
    skbq (snd (fst (fold tx_complete_one xs sb))) = skbq (snd (fst sb))"
  using assms
proof (induction xs arbitrary: sb)
  case Nil
  then show ?case by (simp add: conserves_refl)
next
  case (Cons x xs)
  have "once (holds (snd (fst sb)) + {#sk_ptr x#})"
    by (rule once_mono [of _ "ptrs xs"]) (use Cons.prems(1) in \<open>simp add: ac_simps\<close>)
  note o = tx_complete_one_ok [OF this Cons.prems(2)]
  let ?t = "tx_complete_one x sb"
  have "once (holds (snd (fst ?t)) + ptrs xs)"
  proof -
    obtain F where "holds (snd (fst ?t)) + ptrs (map fate_skb F) = holds (snd (fst sb)) + {#sk_ptr x#}"
      using o by (auto simp: conserves_def)
    then have "(holds (snd (fst ?t)) + ptrs xs) + ptrs (map fate_skb F) = holds (snd (fst sb)) + ptrs (x # xs)"
      by (simp add: ac_simps)
    with Cons.prems(1) show ?thesis by (metis once_mono)
  qed
  from Cons.IH [OF this] o conserves_trans [of "fst sb" "fst ?t" "{#sk_ptr x#}" _ "ptrs xs"] show ?case by simp
qed

lemma tx_complete_ok:
  assumes "once (holds mq + ptrs xs)" "wf_q mq"
  shows "conserves (m, mq) (morse_skbq_tx_complete xs (m, mq)) (ptrs xs) \<and> wf_q (snd (morse_skbq_tx_complete xs (m, mq))) \<and>
    skbq (snd (morse_skbq_tx_complete xs (m, mq))) = skbq mq"
proof -
  obtain m' mq' b where f: "fold tx_complete_one xs ((m, mq), False) = ((m', mq'), b)" by (metis surj_pair)
  let ?m = "if b \<and> stale_status_enabled m' then m'\<lparr>stale_timer := Some (jiffies m' + status_lifetime m')\<rparr> else m'"
  have r: "morse_skbq_tx_complete xs (m, mq) = (?m, mq')" by (simp add: morse_skbq_tx_complete_def f)
  have "fates ?m = fates m'" by simp
  moreover have "conserves (m, mq) (m', mq') (ptrs xs) \<and> wf_q mq' \<and> skbq mq' = skbq mq"
    using tx_complete_fold [of "((m, mq), False)" xs] assms by (simp add: f)
  ultimately show ?thesis unfolding r by (simp add: conserves_def)
qed


section \<open>Reinserting a frame\<close>

lemma queue_before_middle:
  "distinct (map sk_ptr (a @ y # b)) \<Longrightarrow> skb_queue_before (sk_ptr y) s (a @ y # b) = a @ s # y # b"
  by (induction a) auto

lemma split_at:
  assumes "x \<in> set xs" "\<not> P x"
  obtains y b where "xs = takeWhile P xs @ y # b" "\<not> P y" "dropWhile P xs = y # b"
proof -
  have "dropWhile P xs \<noteq> []" using assms by (auto simp: dropWhile_eq_Nil_conv)
  then obtain y b where d: "dropWhile P xs = y # b" by (meson neq_Nil_conv)
  then have "\<not> P y" by (metis hd_dropWhile list.sel(1) list.simps(3))
  with d that show ?thesis by (metis takeWhile_dropWhile_id)
qed

lemma sorted_map_last: "sorted (map f xs) \<Longrightarrow> x \<in> set xs \<Longrightarrow> f x \<le> f (last xs)"
  by (induction xs) (auto split: if_splits)

lemma insert_walk_eq:
  "\<exists>x \<in> set xs. i \<le> sk_pkt_id x \<Longrightarrow>
    insert_walk i s xs mq =
      fst (morse_skbq_put Tx_list s False (Some (sk_ptr (hd (dropWhile (\<lambda>x. sk_pkt_id x < i) xs)))) mq)"
  by (induction xs) auto

text \<open>In every case one put on the queue, at some place.\<close>

lemma insert_pending_put:
  "\<exists>b. insert_pending_skb_to_skbq s i mq =
    fst (morse_skbq_put Tx_list s False b (morse_skbq_unlink Pending_list s mq))"
proof (cases "skbq mq = [] \<or> sk_pkt_id (last (skbq mq)) \<le> i")
  case True
  then show ?thesis by (auto simp: insert_pending_skb_to_skbq_def Let_def)
next
  case False
  then have "\<exists>x \<in> set (skbq mq). i \<le> sk_pkt_id x" by (meson last_in_set nat_le_linear)
  from insert_walk_eq [OF this] False show ?thesis by (auto simp: insert_pending_skb_to_skbq_def Let_def)
qed

lemma space_unlink_pending [simp]:
  "morse_skbq_space (morse_skbq_unlink Pending_list s mq) = morse_skbq_space mq"
  by (simp add: morse_skbq_space_def)

lemma insert_pending_ok:
  assumes "wf_q mq" "has_ptr s (pending mq)"
  shows "wf_q (insert_pending_skb_to_skbq s i mq)"
    "holds (insert_pending_skb_to_skbq s i mq) + (if morse_skbq_space mq < sk_len s then {#sk_ptr s#} else {#}) = holds mq"
proof -
  let ?u = "morse_skbq_unlink Pending_list s mq"
  obtain b where r: "insert_pending_skb_to_skbq s i mq = fst (morse_skbq_put Tx_list s False b ?u)"
    using insert_pending_put by blast
  have h: "add_mset (sk_ptr s) (holds ?u) = holds mq"
    using unlink_pending_holds assms by (simp add: wf_q_def)
  have "sized ?u" using assms(1) by (simp add: wf_q_def)
  then have "sized (insert_pending_skb_to_skbq s i mq)" unfolding r by (rule put_sized)
  moreover have "holds (insert_pending_skb_to_skbq s i mq) \<subseteq># holds mq"
    unfolding r put_holds h [symmetric] by simp
  ultimately show "wf_q (insert_pending_skb_to_skbq s i mq)"
    using assms(1) once_sub unfolding wf_q_def by blast
  show "holds (insert_pending_skb_to_skbq s i mq) + (if morse_skbq_space mq < sk_len s then {#sk_ptr s#} else {#}) = holds mq"
    unfolding r put_holds put_ok space_unlink_pending using h by simp
qed

text \<open>The place: before the first frame with a larger id.\<close>

lemma insert_pending_place:
  assumes "wf_q mq" "has_ptr s (pending mq)" "sk_len s \<le> morse_skbq_space mq"
    "sorted (map sk_pkt_id (skbq mq))" "i \<notin> sk_pkt_id ` set (skbq mq)"
  shows "skbq (insert_pending_skb_to_skbq s i mq) =
    takeWhile (\<lambda>x. sk_pkt_id x < i) (skbq mq) @ s # dropWhile (\<lambda>x. sk_pkt_id x < i) (skbq mq)"
proof (cases "skbq mq = [] \<or> sk_pkt_id (last (skbq mq)) \<le> i")
  case True
  let ?q = "skbq mq"
  have "\<forall>x \<in> set ?q. sk_pkt_id x < i"
  proof
    fix x assume x: "x \<in> set ?q"
    then have "sk_pkt_id x \<le> i" using True sorted_map_last [OF assms(4) x] by auto
    moreover have "sk_pkt_id x \<noteq> i" using assms(5) x by blast
    ultimately show "sk_pkt_id x < i" by simp
  qed
  then have tw: "takeWhile (\<lambda>x. sk_pkt_id x < i) ?q = ?q" "dropWhile (\<lambda>x. sk_pkt_id x < i) ?q = []"
    by (auto simp: takeWhile_eq_all_conv dropWhile_eq_Nil_conv)
  have "insert_pending_skb_to_skbq s i mq =
      fst (morse_skbq_put Tx_list s False None (morse_skbq_unlink Pending_list s mq))"
    using True by (auto simp: insert_pending_skb_to_skbq_def Let_def)
  then have "skbq (insert_pending_skb_to_skbq s i mq) = ?q @ [s]"
    using assms(3) by (simp add: morse_skbq_put_def skb_queue_def)
  then show ?thesis unfolding tw by simp
next
  case False
  let ?q = "skbq mq"
  have x: "last ?q \<in> set ?q" "\<not> sk_pkt_id (last ?q) < i" using False by auto
  obtain y b where y: "?q = takeWhile (\<lambda>x. sk_pkt_id x < i) ?q @ y # b" "dropWhile (\<lambda>x. sk_pkt_id x < i) ?q = y # b"
    using split_at [of "last ?q" ?q "\<lambda>x. sk_pkt_id x < i"] x by blast
  have "distinct (map sk_ptr ?q)" using wf_skbq_once [OF assms(1)] once_distinct by blast
  then have "skb_queue_before (sk_ptr y) s ?q = takeWhile (\<lambda>x. sk_pkt_id x < i) ?q @ s # y # b"
    using queue_before_middle y(1) by metis
  moreover have "insert_pending_skb_to_skbq s i mq =
      fst (morse_skbq_put Tx_list s False (Some (sk_ptr y)) (morse_skbq_unlink Pending_list s mq))"
    using False insert_walk_eq [OF bexI [of _ "last ?q"], of i ?q s] x y(2)
    by (simp add: insert_pending_skb_to_skbq_def Let_def)
  ultimately show ?thesis using assms(3) y(2) by (simp add: morse_skbq_put_def skb_queue_def)
qed

section \<open>TX status and the end of a frame\<close>

lemma find_pending: "find P xs = Some s \<Longrightarrow> s \<in> set xs \<and> P s"
  by (auto simp: find_Some_iff)

lemma find_dropWhile: "find P xs = Some s \<Longrightarrow> s \<in> set (dropWhile (\<lambda>x. \<not> P x) xs)"
  by (induction xs) (auto split: if_splits)

lemma get_pending_ok:
  assumes "wf_q (snd st)" "skbq_get_pending_by_id i st = (st', r)"
  shows "keeps st st'" "r = find (\<lambda>x. sk_pkt_id x = i) (pending (snd st))"
    "r = Some s \<Longrightarrow> s \<in> set (pending (snd st'))" "skbq (snd st') = skbq (snd st)"
proof -
  note o = pending_by_id_ok [OF assms(1), of "[]" "pending (snd st)" i, simplified]
  have e: "pending_by_id_walk i (pending (snd st)) st = (st', r)"
    using assms(2) by (simp add: skbq_get_pending_by_id_def)
  show "keeps st st'" "r = find (\<lambda>x. sk_pkt_id x = i) (pending (snd st))" "skbq (snd st') = skbq (snd st)"
    using o by (simp_all add: e)
  then show "s \<in> set (pending (snd st'))" if "r = Some s"
    using o that find_dropWhile [of "\<lambda>x. sk_pkt_id x = i" "pending (snd st)" s] by (auto simp: e)
qed

lemma unlink_pending_cong: "sk_ptr s = sk_ptr t \<Longrightarrow> morse_skbq_unlink q s mq = morse_skbq_unlink q t mq"
  if "q = Pending_list"
  using that by (simp add: morse_skbq_unlink_def skb_unlink_def)

lemma tx_status_finish_ok:
  assumes "wf_q mq" "has_ptr s (pending mq)"
  shows "\<exists>st'. tx_status_finish s ts (m, mq) = Some st' \<and> keeps (m, mq) st' \<and> skbq (snd st') = skbq mq"
proof -
  have p: "pending mq \<noteq> []" using assms(2) by auto
  have h: "has_ptr (morse_skb_remove_hdr_after_sent_to_chip s) (pending mq)"
    using assms(2) has_ptr_cong ptr_simps(3) by metis
  have "\<exists>m' f. tx_status_finish s ts (m, mq) = Some (m', morse_skbq_unlink Pending_list s mq) \<and>
      fates m' = fates m @ [f] \<and> sk_ptr (fate_skb f) = sk_ptr s"
    using h p unlink_pending_cong [OF refl ptr_simps(3)]
    by (simp add: tx_status_finish_def morse_skbq_skb_finish_fullmac_def morse_skbq_skb_finish_def
        skbq_cmd_finish_def skbq_data_tx_finish_def Let_def)
  then obtain m' f where r: "tx_status_finish s ts (m, mq) = Some (m', morse_skbq_unlink Pending_list s mq)"
      "fates m' = fates m @ [f]" "sk_ptr (fate_skb f) = sk_ptr s" by blast
  from r(1) consume_pending [OF assms r(2,3)] show ?thesis by simp
qed

text \<open>When a report can be processed: the interface of a filtered frame can be found.\<close>

definition status_ok :: "vif option \<Rightarrow> tx_status \<Rightarrow> morse \<times> morse_skbq \<Rightarrow> bool" where
  "status_ok fm_vif ts st \<longleftrightarrow>
     (case skbq_get_pending_by_id (ts_pkt_id ts) st of
        (_, None) \<Rightarrow> True
      | ((m, mq), Some s) \<Rightarrow> bit (ts_flags ts) FLAG_PAGE_INVALID \<or> bit (ts_flags ts) FLAG_DUTY_CYCLE_CANT_SEND \<or>
          \<not> bit (ts_flags ts) FLAG_PS_FILTERED \<or>
          (if fullmac m then fm_vif \<noteq> None
           else sk_vif s \<noteq> None \<or> morse_get_vif_from_tx_status m ts \<noteq> None))"

text \<open>Whether a report puts its frame back on the queue, and the frame that is lost then because the queue is full.\<close>

definition goes_back :: "vif option \<Rightarrow> sk_buff \<Rightarrow> tx_status \<Rightarrow> morse \<Rightarrow> bool" where
  "goes_back fm_vif s ts m \<longleftrightarrow>
     bit (ts_flags ts) FLAG_PS_FILTERED \<and> \<not> bit (ts_flags ts) FLAG_PAGE_INVALID \<and> \<not> bit (ts_flags ts) FLAG_DUTY_CYCLE_CANT_SEND \<and>
     (if fullmac m then (case fm_vif of None \<Rightarrow> False | Some v \<Rightarrow> supports_ps_filter v)
      else (case (case sk_vif s of Some v \<Rightarrow> Some v | None \<Rightarrow> morse_get_vif_from_tx_status m ts) of
              None \<Rightarrow> False | Some v \<Rightarrow> supports_ps_filter v \<and> vif_station v))"

definition lost_by :: "vif option \<Rightarrow> tx_status \<Rightarrow> morse \<times> morse_skbq \<Rightarrow> nat multiset" where
  "lost_by fm_vif ts st =
     (case skbq_get_pending_by_id (ts_pkt_id ts) st of
        (_, None) \<Rightarrow> {#}
      | ((m, mq), Some s) \<Rightarrow> if goes_back fm_vif s ts m \<and> morse_skbq_space mq < sk_len s then {#sk_ptr s#} else {#})"

definition keeps_but :: "nat multiset \<Rightarrow> morse \<times> morse_skbq \<Rightarrow> morse \<times> morse_skbq \<Rightarrow> bool" where
  "keeps_but L st st' \<longleftrightarrow> wf_q (snd st') \<and>
     (\<exists>F. fates (fst st') = fates (fst st) @ F \<and> holds (snd st') + ptrs (map fate_skb F) + L = holds (snd st))"

lemma keeps_but_none: "keeps_but {#} st st' = keeps st st'"
  by (auto simp: keeps_but_def keeps_def conserves_def)

lemma keeps_but_trans:
  assumes "keeps s t" "keeps_but L t u"
  shows "keeps_but L s u"
proof -
  obtain F where F: "fates (fst t) = fates (fst s) @ F" "holds (snd t) + ptrs (map fate_skb F) = holds (snd s)"
    using assms(1) by (auto simp: keeps_def conserves_def)
  obtain G where G: "fates (fst u) = fates (fst t) @ G" "holds (snd u) + ptrs (map fate_skb G) + L = holds (snd t)"
    using assms(2) by (auto simp: keeps_but_def)
  have "holds (snd u) + ptrs (map fate_skb (F @ G)) + L = holds (snd s)"
    unfolding F(2) [symmetric] G(2) [symmetric] by (simp add: ac_simps)
  moreover have "fates (fst u) = fates (fst s) @ (F @ G)" using F(1) G(1) by simp
  ultimately show ?thesis using assms(2) unfolding keeps_but_def by blast
qed

lemma reinsert_keeps:
  assumes "wf_q mq" "has_ptr s (pending mq)"
  shows "keeps_but (if morse_skbq_space mq < sk_len s then {#sk_ptr s#} else {#}) (m, mq) (m, insert_pending_skb_to_skbq s i mq)"
  using insert_pending_ok [OF assms] unfolding keeps_but_def
  by (intro conjI exI [of _ "[]"]) simp_all

lemma ps_filtered_cases:
  assumes "if fullmac m then fm_vif \<noteq> None else sk_vif s \<noteq> None \<or> morse_get_vif_from_tx_status m ts \<noteq> None"
    and ps: "bit (ts_flags ts) FLAG_PS_FILTERED" "\<not> bit (ts_flags ts) FLAG_PAGE_INVALID" "\<not> bit (ts_flags ts) FLAG_DUTY_CYCLE_CANT_SEND"
  shows "if goes_back fm_vif s ts m
    then tx_skb_is_ps_filtered fm_vif s ts (m, mq) = Some ((m, insert_pending_skb_to_skbq s (ts_pkt_id ts) mq), True)
    else tx_skb_is_ps_filtered fm_vif s ts (m, mq) \<in> {Some (skbq_drop_pending_skb s (m, mq), True), Some ((m, mq), False)}"
proof (cases "fullmac m")
  case True
  then obtain v where "fm_vif = Some v" using assms by auto
  with True ps show ?thesis by (cases "supports_ps_filter v") (simp_all add: tx_skb_is_ps_filtered_def goes_back_def)
next
  case False
  then obtain v where v: "(case sk_vif s of Some v \<Rightarrow> Some v | None \<Rightarrow> morse_get_vif_from_tx_status m ts) = Some v"
    using assms(1) by (cases "sk_vif s") auto
  have g: "goes_back fm_vif s ts m \<longleftrightarrow> supports_ps_filter v \<and> vif_station v"
    unfolding goes_back_def if_not_P [OF False] v using ps by simp
  have "tx_skb_is_ps_filtered fm_vif s ts (m, mq) =
      Some (if \<not> supports_ps_filter v then (skbq_drop_pending_skb s (m, mq), True)
            else if \<not> vif_station v then ((m, mq), False)
            else ((m, insert_pending_skb_to_skbq s (ts_pkt_id ts) mq), True))"
    unfolding tx_skb_is_ps_filtered_def Let_def fst_conv snd_conv if_not_P [OF False] v by simp
  then show ?thesis unfolding g by simp
qed

lemma ps_filtered_ok:
  assumes "wf_q mq" "has_ptr s (pending mq)"
    "if fullmac m then fm_vif \<noteq> None else sk_vif s \<noteq> None \<or> morse_get_vif_from_tx_status m ts \<noteq> None"
    "bit (ts_flags ts) FLAG_PS_FILTERED" "\<not> bit (ts_flags ts) FLAG_PAGE_INVALID" "\<not> bit (ts_flags ts) FLAG_DUTY_CYCLE_CANT_SEND"
  shows "\<exists>st' c. tx_skb_is_ps_filtered fm_vif s ts (m, mq) = Some (st', c) \<and>
    keeps_but (if goes_back fm_vif s ts m \<and> morse_skbq_space mq < sk_len s then {#sk_ptr s#} else {#}) (m, mq) st' \<and>
    (\<not> c \<longrightarrow> st' = (m, mq) \<and> \<not> goes_back fm_vif s ts m)"
proof (cases "goes_back fm_vif s ts m")
  case True
  then show ?thesis using ps_filtered_cases [OF assms(3-6), of mq] reinsert_keeps [OF assms(1,2), of m "ts_pkt_id ts"]
    by (auto intro: exI [of _ True])
next
  case False
  have "keeps_but {#} (m, mq) (skbq_drop_pending_skb s (m, mq))" "keeps_but {#} (m, mq) (m, mq)"
    using drop_pending_keeps [of "(m, mq)" s] keeps_refl [of "(m, mq)"] assms(1,2) by (simp_all add: keeps_but_none)
  moreover have "tx_skb_is_ps_filtered fm_vif s ts (m, mq) \<in> {Some (skbq_drop_pending_skb s (m, mq), True), Some ((m, mq), False)}"
    using ps_filtered_cases [OF assms(3-6), of mq] False by simp
  ultimately show ?thesis using False by (elim insertE emptyE) (intro exI conjI, assumption, simp, simp)+
qed

lemma count_keeps: "keeps (count_page_invalid m, mq) st = keeps (m, mq) st" "keeps (count_duty_cycle m, mq) st = keeps (m, mq) st"
  by (simp_all add: keeps_def conserves_def)

lemma lost_by_Some:
  "skbq_get_pending_by_id (ts_pkt_id ts) st = ((m, mq), Some s) \<Longrightarrow>
    lost_by fm_vif ts st = (if goes_back fm_vif s ts m \<and> morse_skbq_space mq < sk_len s then {#sk_ptr s#} else {#})"
  by (simp add: lost_by_def)

lemma tx_status_ok:
  assumes "wf_q (snd st)" "status_ok fm_vif ts st"
  shows "\<exists>st'. tx_status_on_queue fm_vif ts st = Some st' \<and> keeps_but (lost_by fm_vif ts st) st st'"
proof -
  obtain m1 mq1 r where g: "skbq_get_pending_by_id (ts_pkt_id ts) st = ((m1, mq1), r)"
    by (metis surj_pair)
  note o = get_pending_ok [OF assms(1) g]
  show ?thesis
  proof (cases r)
    case None
    with g o(1) show ?thesis by (simp add: tx_status_on_queue_def lost_by_def keeps_but_none)
  next
    case (Some s)
    have p: "has_ptr s (pending mq1)" using o(3) [OF Some] in_has_ptr by simp
    have w: "wf_q mq1" using keeps_wf [OF o(1)] by simp
    note l = lost_by_Some [OF g [unfolded Some], of fm_vif]
    have d: "keeps st (skbq_drop_pending_skb s (count_page_invalid m1, mq1))"
      "keeps st (skbq_drop_pending_skb s (count_duty_cycle m1, mq1))"
      using keeps_trans [OF o(1)] drop_pending_keeps [of "(count_page_invalid m1, mq1)" s]
        drop_pending_keeps [of "(count_duty_cycle m1, mq1)" s] w p by (simp_all add: count_keeps)
    obtain st2 where t: "tx_status_finish s ts (m1, mq1) = Some st2" "keeps st st2"
      using tx_status_finish_ok [OF w p, of ts m1] keeps_trans [OF o(1)] by blast
    show ?thesis
    proof (cases "bit (ts_flags ts) FLAG_PS_FILTERED \<and> \<not> bit (ts_flags ts) FLAG_PAGE_INVALID \<and> \<not> bit (ts_flags ts) FLAG_DUTY_CYCLE_CANT_SEND")
      case True
      then have "if fullmac m1 then fm_vif \<noteq> None else sk_vif s \<noteq> None \<or> morse_get_vif_from_tx_status m1 ts \<noteq> None"
        using assms(2) g Some by (simp add: status_ok_def)
      then obtain st' c where c: "tx_skb_is_ps_filtered fm_vif s ts (m1, mq1) = Some (st', c)" "keeps_but (lost_by fm_vif ts st) (m1, mq1) st'"
          "\<not> c \<longrightarrow> st' = (m1, mq1) \<and> \<not> goes_back fm_vif s ts m1"
        using ps_filtered_ok [OF w p, of m1 fm_vif ts] True unfolding l by blast
      have "keeps_but (lost_by fm_vif ts st) st st'" using keeps_but_trans [OF o(1) c(2)] .
      with True g Some t c show ?thesis by (cases c) (simp_all add: tx_status_on_queue_def l keeps_but_none)
    next
      case False
      then have n: "lost_by fm_vif ts st = {#}" unfolding l by (auto simp: goes_back_def)
      from False g Some t(1) have "tx_status_on_queue fm_vif ts st \<in> {Some (skbq_drop_pending_skb s (count_page_invalid m1, mq1)),
          Some (skbq_drop_pending_skb s (count_duty_cycle m1, mq1)), Some st2}"
        by (auto simp: tx_status_on_queue_def)
      with t(2) d show ?thesis unfolding n keeps_but_none by blast
    qed
  qed
qed

end
