(* ===== verification/Skbq_User.thy ===== *)
theory Skbq_User
  imports Skbq_Frames
begin

text \<open>
  A queue of \<^verbatim>\<open>skbq.c\<close> and the code that uses it: frames are handed over, taken off, given to the chip,
  put back or purged, reports arrive and time passes. The locale of step systems, interpreted on these
  calls, gives the invariant of all runs: every frame is accounted for.
\<close>

section \<open>Emptying a queue\<close>

lemma flush_pending_ok:
  "wf_q (snd st) \<Longrightarrow> pending (snd st) = xs \<Longrightarrow>
    keeps st (flush_list Pending_list xs st) \<and> pending (snd (flush_list Pending_list xs st)) = [] \<and>
    skbq (snd (flush_list Pending_list xs st)) = skbq (snd st)"
proof (induction xs arbitrary: st)
  case Nil
  then show ?case by (simp add: flush_list_def keeps_refl)
next
  case (Cons x xs)
  let ?st = "(morse_flush_txskb x (fst st), morse_skbq_unlink Pending_list x (snd st))"
  obtain f where "fates (morse_flush_txskb x (fst st)) = fates (fst st) @ [f]" "sk_ptr (fate_skb f) = sk_ptr x"
    using flush_txskb_frame(3) by blast
  then have k: "keeps st ?st"
    using consume_pending [of "snd st" x "morse_flush_txskb x (fst st)" "fst st" f] Cons.prems by simp
  have q: "pending (snd ?st) = xs"
    using unlink_head wf_pending_once [OF Cons.prems(1)] Cons.prems(2) by simp
  from Cons.IH [OF keeps_wf [OF k] q] keeps_trans [OF k] show ?case by (simp add: flush_list_def)
qed

lemma flush_tx_ok:
  "wf_q (snd st) \<Longrightarrow> skbq (snd st) = xs \<Longrightarrow>
    keeps st (flush_list Tx_list xs st) \<and> skbq (snd (flush_list Tx_list xs st)) = [] \<and>
    pending (snd (flush_list Tx_list xs st)) = pending (snd st)"
proof (induction xs arbitrary: st)
  case Nil
  then show ?case by (simp add: flush_list_def keeps_refl)
next
  case (Cons x xs)
  let ?st = "(morse_flush_txskb x (fst st), morse_skbq_unlink Tx_list x (snd st))"
  obtain f where "fates (morse_flush_txskb x (fst st)) = fates (fst st) @ [f]" "sk_ptr (fate_skb f) = sk_ptr x"
    using flush_txskb_frame(3) by blast
  then have k: "keeps st ?st"
    using consume_tx [of "snd st" x "morse_flush_txskb x (fst st)" "fst st" f] Cons.prems by simp
  have q: "skbq (snd ?st) = xs" "pending (snd ?st) = pending (snd st)"
    using unlink_tx_head [OF Cons.prems] by simp_all
  from Cons.IH [OF keeps_wf [OF k] q(1)] keeps_trans [OF k] q(2) show ?case by (simp add: flush_list_def)
qed

lemma tx_flush_ok:
  assumes "wf_q (snd st)"
  shows "keeps st (fst (morse_skbq_tx_flush st))"
    "holds (snd (fst (morse_skbq_tx_flush st))) = {#}" "skbq_size (snd (fst (morse_skbq_tx_flush st))) = 0"
proof -
  note p = flush_pending_ok [OF assms refl]
  let ?st = "flush_list Pending_list (pending (snd st)) st"
  have w: "wf_q (snd ?st)" using p keeps_wf by blast
  note t = flush_tx_ok [OF w refl]
  show k: "keeps st (fst (morse_skbq_tx_flush st))"
    using keeps_trans p t by (simp add: morse_skbq_tx_flush_def) blast
  show "holds (snd (fst (morse_skbq_tx_flush st))) = {#}"
    using p t by (simp add: morse_skbq_tx_flush_def holds_def)
  have "skbq (snd (fst (morse_skbq_tx_flush st))) = []" using p t by (simp add: morse_skbq_tx_flush_def)
  with keeps_wf [OF k] show "skbq_size (snd (fst (morse_skbq_tx_flush st))) = 0" by (simp add: wf_q_def sized_def)
qed

lemma purge_fates: "fates (fst (morse_skbq_purge xs m)) = fates m @ map Kfree xs"
proof -
  have "fates (foldl (\<lambda>m s. consume (Kfree s) m) m xs) = fates m @ map Kfree xs"
    by (induction xs arbitrary: m) (simp_all del: fates_simps add: consume_def)
  then show ?thesis by (simp add: morse_skbq_purge_def)
qed

lemma fate_Kfree [simp]: "map (fate_skb \<circ> Kfree) xs = xs"
  by (simp add: comp_def)

lemma purge_pending_ok:
  "wf_q (snd st) \<Longrightarrow> keeps st (fst (morse_skbq_purge_pending st))"
proof -
  assume w: "wf_q (snd st)"
  obtain m n where p: "morse_skbq_purge (pending (snd st)) (fst st) = (m, n)" by fastforce
  then have f: "fates m = fates (fst st) @ map Kfree (pending (snd st))" using purge_fates by (metis fst_conv)
  have c: "conserves st (m, (snd st)\<lparr>pending := []\<rparr>) {#}"
    unfolding conserves_def using f by (intro exI [of _ "map Kfree (pending (snd st))"]) (simp add: holds_def)
  moreover have "once (holds ((snd st)\<lparr>pending := []\<rparr>))" using conserves_once [OF c] w by (simp add: wf_q_def)
  ultimately show ?thesis using w by (simp add: keeps_def morse_skbq_purge_pending_def p wf_q_def sized_def)
qed

lemma finish_ok: "wf_q (snd st) \<Longrightarrow> keeps st (morse_skbq_finish st)"
  unfolding keeps_def conserves_def
  by (intro conjI exI [of _ "map Kfree (skbq (snd st)) @ map Kfree (pending (snd st))"])
    (simp_all add: morse_skbq_finish_def Let_def purge_fates holds_def wf_q_def sized_def once_def)

lemma purge_aged_ok: "wf_q (snd st) \<Longrightarrow> keeps st (morse_skbq_purge_aged st)"
proof -
  assume w: "wf_q (snd st)"
  obtain m mq n where a: "aged_walk (skbq (snd st)) st = ((m, mq), n)" by (metis surj_pair)
  have "keeps st (m, mq)" using aged_walk_ok [OF w refl] by (simp add: a)
  then show ?thesis by (simp add: morse_skbq_purge_aged_def a keeps_def conserves_def)
qed

lemma check_stale_ok: "wf_q (snd st) \<Longrightarrow> keeps st (fst (morse_skbq_check_for_stale_tx st))"
  using stale_walk_ok [of st "[]"] by (simp add: morse_skbq_check_for_stale_tx_def)

text \<open>A command: in the list the code takes it from.\<close>

definition cmd_ok :: "sk_buff \<Rightarrow> morse_skbq \<Rightarrow> bool" where
  "cmd_ok s mq \<longleftrightarrow> (if pending mq \<noteq> [] then has_ptr s (pending mq) else skbq mq \<noteq> [] \<longrightarrow> s \<in> set (skbq mq))"

lemma cmd_finish_ok:
  assumes "wf_q (snd st)" "cmd_ok s (snd st)"
  shows "\<exists>st'. skbq_cmd_finish s st = Some st' \<and> keeps st st'"
proof -
  obtain m mq where st: "st = (m, mq)" by (cases st)
  have w: "wf_q mq" using assms(1) st by simp
  consider "pending mq \<noteq> []" "has_ptr s (pending mq)" | "pending mq = []" "s \<in> set (skbq mq)" | "pending mq = []" "skbq mq = []"
    using assms(2) st by (auto simp: cmd_ok_def split: if_splits)
  then show ?thesis
  proof cases
    case 1
    with consume_pending [OF w 1(2), of "consume (Kfree s) m" m "Kfree s"] show ?thesis by (simp add: st skbq_cmd_finish_def)
  next
    case 2
    with consume_tx [OF w 2(2), of "consume (Kfree s) m" m "Kfree s"] in_has_ptr [OF 2(2)]
    show ?thesis by (auto simp: st skbq_cmd_finish_def)
  next
    case 3
    with w show ?thesis by (simp add: st skbq_cmd_finish_def keeps_refl)
  qed
qed

section \<open>A queue and the code that empties it\<close>

text \<open>
  The queue, the frames its user has taken from it and not yet sent (\<open>hand\<close>), and, for the record, every
  frame ever handed over and every frame that was to go back to a full queue and was lost (\<open>leaked\<close>). \<open>Call_complete n\<close>: the first \<open>n\<close> frames were given to the chip;
  \<open>Call_prepend\<close>: the frames that could not be sent go back; \<open>Call_time\<close>: the clock advances.
\<close>

record skbq_user =
  u_st :: "morse \<times> morse_skbq"
  hand :: "sk_buff list"
  given :: "nat multiset"
  leaked :: "nat multiset"

datatype skbq_call =
    Call_skb_tx bool sk_buff "u32 option" nat
  | Call_deq nat
  | Call_complete nat
  | Call_prepend
  | Call_purge
  | Call_purge_pending
  | Call_purge_aged
  | Call_stale
  | Call_status "vif option" tx_status
  | Call_cmd_finish sk_buff
  | Call_flush
  | Call_finish
  | Call_time u64

definition on_st :: "skbq_user \<Rightarrow> morse \<times> morse_skbq \<Rightarrow> skbq_user" where
  "on_st u st = u\<lparr>u_st := st\<rparr>"

fun user_step :: "skbq_call \<Rightarrow> skbq_user \<Rightarrow> skbq_user option" where
  "user_step (Call_skb_tx pad_ok s info chan) u =
     Some (u\<lparr>u_st := fst (morse_skbq_skb_tx pad_ok s info chan (u_st u)), given := add_mset (sk_ptr s) (given u)\<rparr>)"
| "user_step (Call_deq n) u =
     (case morse_skbq_deq_num_items n (snd (u_st u)) of (mq, xs) \<Rightarrow>
        Some (u\<lparr>u_st := (fst (u_st u), mq), hand := hand u @ xs\<rparr>))"
| "user_step (Call_complete n) u =
     Some (u\<lparr>u_st := morse_skbq_tx_complete (take n (hand u)) (u_st u), hand := drop n (hand u)\<rparr>)"
| "user_step Call_prepend u =
     (case morse_skbq_enq_prepend (hand u) (snd (u_st u)) of (mq, rest, _) \<Rightarrow>
        Some (u\<lparr>u_st := (fst (u_st u), mq), hand := rest\<rparr>))"
| "user_step Call_purge u = Some (u\<lparr>u_st := (fst (morse_skbq_purge (hand u) (fst (u_st u))), snd (u_st u)), hand := []\<rparr>)"
| "user_step Call_purge_pending u = Some (on_st u (fst (morse_skbq_purge_pending (u_st u))))"
| "user_step Call_purge_aged u = Some (on_st u (morse_skbq_purge_aged (u_st u)))"
| "user_step Call_stale u = Some (on_st u (fst (morse_skbq_check_for_stale_tx (u_st u))))"
| "user_step (Call_status v ts) u =
     map_option (\<lambda>st. (on_st u st)\<lparr>leaked := leaked u + lost_by v ts (u_st u)\<rparr>) (tx_status_on_queue v ts (u_st u))"
| "user_step (Call_cmd_finish s) u = map_option (on_st u) (skbq_cmd_finish s (u_st u))"
| "user_step Call_flush u = Some (on_st u (fst (morse_skbq_tx_flush (u_st u))))"
| "user_step Call_finish u = Some (on_st u (morse_skbq_finish (u_st u)))"
| "user_step (Call_time t) u = Some (on_st u ((fst (u_st u))\<lparr>jiffies := t\<rparr>, snd (u_st u)))"

text \<open>A new frame has an address of its own; a report can be processed; a finished command is where it is looked for.\<close>

fun call_ok :: "skbq_call \<Rightarrow> skbq_user \<Rightarrow> bool" where
  "call_ok (Call_skb_tx pad_ok s info chan) u \<longleftrightarrow> sk_ptr s \<notin># holds (snd (u_st u)) + ptrs (hand u)"
| "call_ok (Call_status v ts) u \<longleftrightarrow> status_ok v ts (u_st u)"
| "call_ok (Call_cmd_finish s) u \<longleftrightarrow> cmd_ok s (snd (u_st u))"
| "call_ok _ u \<longleftrightarrow> True"

text \<open>Every frame handed over is in one of the queue's lists or with the user, or its fate is recorded, or it was lost.\<close>

definition frames_accounted :: "skbq_user \<Rightarrow> bool" where
  "frames_accounted u \<longleftrightarrow> sized (snd (u_st u)) \<and> once (holds (snd (u_st u)) + ptrs (hand u)) \<and>
     holds (snd (u_st u)) + ptrs (hand u) + ptrs (map fate_skb (fates (fst (u_st u)))) + leaked u = given u"


text \<open>What the operations on the queue alone give for a user.\<close>

lemma keeps_but_accounted:
  assumes "frames_accounted u" "keeps_but L (u_st u) st"
  shows "frames_accounted (u\<lparr>u_st := st, leaked := leaked u + L\<rparr>)"
proof -
  obtain F where f: "fates (fst st) = fates (fst (u_st u)) @ F" "holds (snd st) + ptrs (map fate_skb F) + L = holds (snd (u_st u))"
    using assms(2) by (auto simp: keeps_but_def)
  have "once ((holds (snd st) + ptrs (hand u)) + (ptrs (map fate_skb F) + L))"
    using assms(1) f(2) [symmetric] by (simp add: frames_accounted_def ac_simps)
  then have "once (holds (snd st) + ptrs (hand u))" by (rule once_mono)
  then show ?thesis using assms f(1) f(2) [symmetric] by (simp add: frames_accounted_def keeps_but_def wf_q_def ac_simps)
qed

lemma keeps_accounted:
  assumes "frames_accounted u" "keeps (u_st u) st"
  shows "frames_accounted (u\<lparr>u_st := st\<rparr>)"
  using keeps_but_accounted [OF assms(1), of "{#}" st] assms(2) by (simp add: keeps_but_none)

lemma accounted_wf: "frames_accounted u \<Longrightarrow> wf_q (snd (u_st u))"
  by (auto simp: frames_accounted_def wf_q_def dest: once_mono)

lemma deq_accounted:
  assumes "frames_accounted u" "morse_skbq_deq_num_items n (snd (u_st u)) = (mq, xs)"
  shows "frames_accounted (u\<lparr>u_st := (fst (u_st u), mq), hand := hand u @ xs\<rparr>)"
  using assms(1) deq_wf(1) [OF accounted_wf [OF assms(1)], of n] deq_wf(2) [OF accounted_wf [OF assms(1)], of n, symmetric] assms(2)
  by (simp add: frames_accounted_def wf_q_def ac_simps)

lemma complete_accounted:
  assumes "frames_accounted u"
  shows "frames_accounted (u\<lparr>u_st := morse_skbq_tx_complete (take n (hand u)) (u_st u), hand := drop n (hand u)\<rparr>)"
proof -
  obtain m mq where st: "u_st u = (m, mq)" by (cases "u_st u")
  let ?a = "take n (hand u)" and ?b = "drop n (hand u)"
  have h: "ptrs (hand u) = ptrs ?a + ptrs ?b" by (rule ptrs_take_drop)
  have o: "once ((holds mq + ptrs ?a) + ptrs ?b)" using assms h by (simp add: frames_accounted_def st ac_simps)
  have w: "wf_q mq" using accounted_wf [OF assms] st by simp
  note t = tx_complete_ok [OF once_mono [OF o] w, of m]
  obtain F where f: "fates (fst (morse_skbq_tx_complete ?a (m, mq))) = fates m @ F"
      "holds (snd (morse_skbq_tx_complete ?a (m, mq))) + ptrs (map fate_skb F) = holds mq + ptrs ?a"
    using t by (auto simp: conserves_def)
  have "once ((holds (snd (morse_skbq_tx_complete ?a (m, mq))) + ptrs ?b) + ptrs (map fate_skb F))"
    using o f(2) [symmetric] by (simp add: ac_simps)
  then have "once (holds (snd (morse_skbq_tx_complete ?a (m, mq))) + ptrs ?b)" by (rule once_mono)
  moreover have "holds (snd (morse_skbq_tx_complete ?a (m, mq))) + ptrs ?b + (ptrs (map fate_skb (fates m)) + ptrs (map fate_skb F)) + leaked u = given u"
  proof -
    have "holds (snd (morse_skbq_tx_complete ?a (m, mq))) + ptrs ?b + (ptrs (map fate_skb (fates m)) + ptrs (map fate_skb F)) + leaked u =
        (holds (snd (morse_skbq_tx_complete ?a (m, mq))) + ptrs (map fate_skb F)) + (ptrs ?b + ptrs (map fate_skb (fates m)) + leaked u)"
      by (simp only: ac_simps)
    also have "\<dots> = holds mq + ptrs (hand u) + ptrs (map fate_skb (fates m)) + leaked u" unfolding f(2) h by (simp only: ac_simps)
    also have "\<dots> = given u" using assms by (simp add: frames_accounted_def st)
    finally show ?thesis .
  qed
  ultimately show ?thesis using t f(1) by (simp add: frames_accounted_def st wf_q_def)
qed

lemma prepend_eq:
  assumes "sized mq"
  obtains pre rest where "xs = rest @ pre" "rest = [] \<or> morse_skbq_space mq < total_len pre + sk_len (last rest)"
    "total_len pre \<le> morse_skbq_space mq"
    "morse_skbq_enq_prepend xs mq = (mq\<lparr>skbq_size := skbq_size mq + total_len pre, skbq := pre @ skbq mq\<rparr>, rest, total_len pre)"
proof -
  obtain pre rest where p: "rev xs = pre @ rest" "rest = [] \<or> morse_skbq_space mq < total_len pre + sk_len (hd rest)"
    "total_len pre \<le> morse_skbq_space mq"
    "enq_walk (morse_skbq_space mq) (rev xs) True mq =
      (mq\<lparr>skbq_size := skbq_size mq + total_len pre, skbq := put_front True pre (skbq mq)\<rparr>, rest, total_len pre)"
    using enq_walk_eq [OF assms refl, of "rev xs" True] by blast
  have "xs = rev rest @ rev pre" using p(1) by (metis rev_append rev_rev_ident)
  moreover have "total_len (rev pre) = total_len pre" by (simp add: total_len_def rev_map [symmetric])
  ultimately show ?thesis using that [of "rev rest" "rev pre"] p
    by (auto simp: morse_skbq_enq_prepend_def put_front_def last_rev)
qed

lemma grow_sized: "sized mq \<Longrightarrow> total_len xs = n \<Longrightarrow> n \<le> morse_skbq_space mq \<Longrightarrow>
    sized (mq\<lparr>skbq_size := skbq_size mq + n, skbq := xs @ skbq mq\<rparr>)"
  using space_sized [of mq] by (auto simp: sized_def)

lemma prepend_accounted:
  assumes "frames_accounted u" "morse_skbq_enq_prepend (hand u) (snd (u_st u)) = (mq, rest, n)"
  shows "frames_accounted (u\<lparr>u_st := (fst (u_st u), mq), hand := rest\<rparr>)"
proof -
  have s: "sized (snd (u_st u))" using assms(1) by (simp add: frames_accounted_def)
  obtain pre where p: "hand u = rest @ pre" "total_len pre \<le> morse_skbq_space (snd (u_st u))"
      "mq = (snd (u_st u))\<lparr>skbq_size := skbq_size (snd (u_st u)) + total_len pre, skbq := pre @ skbq (snd (u_st u))\<rparr>"
    using prepend_eq [OF s, of "hand u"] assms(2) by (metis prod.inject)
  have "sized mq" unfolding p(3) by (rule grow_sized [OF s refl p(2)])
  then show ?thesis using assms(1) by (simp add: frames_accounted_def p(1,3) holds_def ac_simps)
qed

lemma purge_accounted:
  assumes "frames_accounted u"
  shows "frames_accounted (u\<lparr>u_st := (fst (morse_skbq_purge (hand u) (fst (u_st u))), snd (u_st u)), hand := []\<rparr>)"
  using assms once_mono [of "holds (snd (u_st u))" "ptrs (hand u)"]
  by (simp add: frames_accounted_def purge_fates ac_simps)

lemma skb_tx_accounted:
  assumes "frames_accounted u" "sk_ptr s \<notin># holds (snd (u_st u)) + ptrs (hand u)"
  shows "frames_accounted (u\<lparr>u_st := fst (morse_skbq_skb_tx pad_ok s info chan (u_st u)), given := add_mset (sk_ptr s) (given u)\<rparr>)"
proof -
  obtain m mq where st: "u_st u = (m, mq)" by (cases "u_st u")
  have w: "wf_q mq" using accounted_wf [OF assms(1)] st by simp
  have "sk_ptr s \<notin># holds mq" using assms(2) st by simp
  note t = skb_tx_ok [OF w this, where m = m and pad_ok = pad_ok and info = info and chan = chan]
  let ?st = "fst (morse_skbq_skb_tx pad_ok s info chan (m, mq))"
  obtain F where f: "fates (fst ?st) = fates m @ F" "holds (snd ?st) + ptrs (map fate_skb F) = holds mq + {#sk_ptr s#}"
    using t(1) by (auto simp: conserves_def)
  have "once ((holds mq + ptrs (hand u)) + {#sk_ptr s#})"
    using assms by (auto simp: frames_accounted_def st once_def not_in_iff)
  then have "once ((holds (snd ?st) + ptrs (hand u)) + ptrs (map fate_skb F))"
    using f(2) by (simp add: ac_simps)
  then have "once (holds (snd ?st) + ptrs (hand u))" by (rule once_mono)
  moreover have "holds (snd ?st) + ptrs (hand u) + (ptrs (map fate_skb (fates m)) + ptrs (map fate_skb F)) + leaked u = add_mset (sk_ptr s) (given u)"
  proof -
    have "holds (snd ?st) + ptrs (hand u) + (ptrs (map fate_skb (fates m)) + ptrs (map fate_skb F)) + leaked u =
        (holds (snd ?st) + ptrs (map fate_skb F)) + (ptrs (hand u) + ptrs (map fate_skb (fates m)) + leaked u)"
      by (simp only: ac_simps)
    also have "\<dots> = (holds mq + ptrs (hand u) + ptrs (map fate_skb (fates m)) + leaked u) + {#sk_ptr s#}" unfolding f(2) by (simp only: ac_simps)
    also have "\<dots> = given u + {#sk_ptr s#}" using assms(1) by (simp add: frames_accounted_def st)
    finally show ?thesis by simp
  qed
  ultimately show ?thesis using t(2) f(1) by (simp add: frames_accounted_def st wf_q_def)
qed

lemma time_accounted: "frames_accounted u \<Longrightarrow> frames_accounted (on_st u ((fst (u_st u))\<lparr>jiffies := t\<rparr>, snd (u_st u)))"
  by (simp add: frames_accounted_def on_st_def)

lemma user_step_ok:
  assumes u: "frames_accounted u" and ok: "call_ok c u"
  shows "\<exists>u'. user_step c u = Some u' \<and> frames_accounted u'"
proof -
  note w = accounted_wf [OF u] and k = keeps_accounted [OF u]
  show ?thesis
  proof (cases c)
    case (Call_skb_tx p s i ch) with skb_tx_accounted [OF u, of s] ok show ?thesis by simp
  next
    case (Call_deq n) then show ?thesis using deq_accounted [OF u, of n] by (auto split: prod.split)
  next
    case (Call_complete n) then show ?thesis using complete_accounted [OF u, of n] by simp
  next
    case Call_prepend then show ?thesis using prepend_accounted [OF u] by (auto split: prod.split)
  next
    case Call_purge then show ?thesis using purge_accounted [OF u] by simp
  next
    case Call_purge_pending then show ?thesis using k [OF purge_pending_ok [OF w]] by (simp add: on_st_def)
  next
    case Call_purge_aged then show ?thesis using k [OF purge_aged_ok [OF w]] by (simp add: on_st_def)
  next
    case Call_stale then show ?thesis using k [OF check_stale_ok [OF w]] by (simp add: on_st_def)
  next
    case (Call_status v ts)
    then show ?thesis using tx_status_ok [OF w, of v ts] ok keeps_but_accounted [OF u] by (auto simp: on_st_def)
  next
    case (Call_cmd_finish s) then show ?thesis using cmd_finish_ok [OF w, of s] ok k by (auto simp: on_st_def)
  next
    case Call_flush then show ?thesis using k [OF tx_flush_ok(1) [OF w]] by (simp add: on_st_def)
  next
    case Call_finish then show ?thesis using k [OF finish_ok [OF w]] by (simp add: on_st_def)
  next
    case (Call_time t) then show ?thesis using time_accounted [OF u, of t] by simp
  qed
qed

interpretation skbq_user: step_system user_step frames_accounted call_ok
  by unfold_locales (rule user_step_ok)

text \<open>The queue that is sent from, as a user of \<^verbatim>\<open>skbq.c\<close> who holds some frames.\<close>

definition user_of :: "qname \<Rightarrow> driver \<Rightarrow> sk_buff list \<Rightarrow> nat multiset \<Rightarrow> skbq_user" where
  "user_of q d xs M = \<lparr>u_st = (mors d, queues d q), hand = xs, given = M, leaked = {#}\<rparr>"

definition all_ptrs :: "qname \<Rightarrow> driver \<Rightarrow> nat multiset" where
  "all_ptrs q d = holds (queues d q) + ptrs (map fate_skb (fates (mors d)))"

lemma accounted_start: "wf_q (queues d q) \<Longrightarrow> frames_accounted (user_of q d [] (all_ptrs q d))"
  by (simp add: frames_accounted_def user_of_def all_ptrs_def wf_q_def)

lemma accounted_end: "frames_accounted (user_of q d [] M) \<Longrightarrow> wf_q (queues d q) \<and> all_ptrs q d = M"
  by (simp add: frames_accounted_def user_of_def all_ptrs_def wf_q_def)

lemma accounted_hand:
  "frames_accounted (user_of q d xs M) \<Longrightarrow> ptrs xs = ptrs ys \<Longrightarrow> frames_accounted (user_of q d ys M)"
  by (simp add: frames_accounted_def user_of_def)

lemma purge_some_accounted:
  assumes "frames_accounted (user_of q d (xs @ ys) M)"
  shows "frames_accounted (user_of q (on_mors (\<lambda>m. fst (morse_skbq_purge ys m)) d) xs M)"
  using assms once_mono [of "holds (queues d q) + ptrs xs" "ptrs ys"]
  by (simp add: frames_accounted_def user_of_def on_mors_def purge_fates ac_simps)

lemma prepend_some_accounted:
  assumes "frames_accounted (user_of q d (xs @ ys) M)" "morse_skbq_enq_prepend ys (queues d q) = (mq, rest, n)"
  shows "frames_accounted (user_of q (d\<lparr>queues := (queues d)(q := mq)\<rparr>) (xs @ rest) M)"
proof -
  have s: "sized (queues d q)" using assms(1) by (simp add: frames_accounted_def user_of_def)
  obtain pre where p: "ys = rest @ pre" "total_len pre \<le> morse_skbq_space (queues d q)"
      "mq = (queues d q)\<lparr>skbq_size := skbq_size (queues d q) + total_len pre, skbq := pre @ skbq (queues d q)\<rparr>"
    using prepend_eq [OF s, of ys] assms(2) by (metis prod.inject)
  have "sized mq" unfolding p(3) by (rule grow_sized [OF s refl p(2)])
  then show ?thesis using assms(1) by (simp add: frames_accounted_def user_of_def p(1,3) holds_def ac_simps)
qed

section \<open>What the work item is scheduled by\<close>

text \<open>The events, the clock, whether the work is queued and whether the chip answers: no operation on the frames changes them.\<close>

definition sched_of :: "morse \<Rightarrow> chip_event set \<times> u64 \<times> bool \<times> bool" where
  "sched_of m = (event_flags m, jiffies m, chip_work_queued m, CHIP_UNRESPONSIVE \<in> state_flags m)"

lemma sched_stats [simp]: "sched_of (m\<lparr>page_stats := p\<rparr>) = sched_of m" "sched_of (m\<lparr>stale_timer := t\<rparr>) = sched_of m"
  by (simp_all add: sched_of_def)

lemma sched_frame [simp]:
  "sched_of (consume f m) = sched_of m" "sched_of (notify n m) = sched_of m"
  "sched_of (morse_flush_txskb s m) = sched_of m" "sched_of (morse_skbq_may_wake_tx_queues qs m) = sched_of m"
  "sched_of (fst (morse_skbq_purge xs m)) = sched_of m"
proof -
  show c: "sched_of (consume f m) = sched_of m" for f m by (simp add: consume_def sched_of_def)
  show "sched_of (notify n m) = sched_of m" "sched_of (morse_flush_txskb s m) = sched_of m"
    by (simp_all add: notify_def morse_flush_txskb_def c) (simp add: sched_of_def)
  show "sched_of (morse_skbq_may_wake_tx_queues qs m) = sched_of m"
    by (simp add: morse_skbq_may_wake_tx_queues_def sched_of_def)
  show "sched_of (fst (morse_skbq_purge xs m)) = sched_of m"
    unfolding morse_skbq_purge_def by (induction xs arbitrary: m) (simp_all add: c)
qed

lemma aged_walk_sched: "sched_of (fst (fst (aged_walk xs st))) = sched_of (fst st)"
  by (induction xs arbitrary: st) (simp_all add: case_prod_beta)

lemma queue_sched [simp]:
  "sched_of (fst (morse_skbq_purge_aged st)) = sched_of (fst st)"
  "sched_of (fst (fst (morse_skbq_purge_pending st))) = sched_of (fst st)"
  "sched_of (fst (morse_skbq_tx_complete xs st)) = sched_of (fst st)"
proof -
  show "sched_of (fst (morse_skbq_purge_aged st)) = sched_of (fst st)"
    by (simp add: morse_skbq_purge_aged_def case_prod_beta aged_walk_sched)
  show "sched_of (fst (fst (morse_skbq_purge_pending st))) = sched_of (fst st)"
    by (simp add: morse_skbq_purge_pending_def case_prod_beta)
  have "sched_of (fst (fst (tx_complete_one s sb))) = sched_of (fst (fst sb))" for s sb
    by (cases sb) (simp add: tx_complete_one_def skbq_tx_move_to_pending_def Let_def split: prod.split_asm prod.split)
  then have "sched_of (fst (fst (fold tx_complete_one xs sb))) = sched_of (fst (fst sb))" for sb
    by (induction xs arbitrary: sb) simp_all
  from this [of "(st, False)"] show "sched_of (fst (morse_skbq_tx_complete xs st)) = sched_of (fst st)"
    by (simp add: morse_skbq_tx_complete_def case_prod_beta sched_of_def)
qed

lemma sched_events: "sched_of m' = sched_of m \<Longrightarrow> event_flags m' = event_flags m"
  by (simp add: sched_of_def)

lemma event_frame [simp]:
  "event_flags (consume f m) = event_flags m" "event_flags (notify n m) = event_flags m"
  "event_flags (morse_flush_txskb s m) = event_flags m" "event_flags (morse_skbq_may_wake_tx_queues qs m) = event_flags m"
  "event_flags (fst (morse_skbq_purge xs m)) = event_flags m"
  by (rule sched_events; simp)+

lemma queue_events [simp]:
  "event_flags (fst (morse_skbq_purge_aged st)) = event_flags (fst st)"
  "event_flags (fst (fst (morse_skbq_purge_pending st))) = event_flags (fst st)"
  "event_flags (fst (morse_skbq_tx_complete xs st)) = event_flags (fst st)"
  by (rule sched_events; simp)+

end
