(* ===== verification/Skbq_Theorems.thy ===== *)
theory Skbq_Theorems
  imports Skbq_User
begin

text \<open>What holds of the queues of \<^verbatim>\<open>skbq.c\<close>: no frame is lost or kept twice, frames go back to where they were, reports finish their frame, and where the code fails.\<close>

section \<open>Example frames and queues\<close>

definition a_skb :: "nat \<Rightarrow> sk_buff" where
  "a_skb p = \<lparr>sk_ptr = p, sk_len = 100, sk_chan = CHAN_DATA, sk_offset = 0, sk_pkt_id = 0, sk_info_flags = 0, sk_fc = 0x88,
    sk_addr1 = 7, sk_data = 1000, sk_vif = Some \<lparr>vif_station = True, supports_ps_filter = True, vif_stas = [7]\<rparr>,
    sk_eosp = False, sk_enqueue_time = 0, sk_status_expiry = 0, sk_statuses = []\<rparr>"

definition a_morse :: morse where
  "a_morse = \<lparr>fullmac = False, started = True, airtime_fairness = False, monitor_mode = False, ps_enable = False,
    ps_suspended = False, fw_reports_bcn_tx_status = True, stale_status_enabled = True,
    vifs = [Some \<lparr>vif_station = True, supports_ps_filter = True, vif_stas = [7]\<rparr>],
    extra_tx_offset = 4, bulk_alignment = 4, max_txq_len = 32, queued_lifetime = 1000, status_lifetime = 1000,
    jiffies = 5000, state_flags = {}, event_flags = {}, chip_work_queued = False, ps_eval_queued = False,
    stale_timer = None, stopped_acs = [],
    page_stats = \<lparr>queue_stop = 0, tx_aged_out = 0, tx_status_dropped = 0, tx_status_flushed = 0,
      tx_status_page_invalid = 0, tx_status_duty_cycle_cant_send = 0\<rparr>, fates = [], notices = []\<rparr>"

definition a_status :: "nat \<Rightarrow> u32 \<Rightarrow> tx_status" where
  "a_status i f = \<lparr>ts_flags = f, ts_pkt_id = i, ts_tid = 0, ts_channel = CHAN_DATA, ts_rates = []\<rparr>"

definition a_queue :: "sk_buff list \<Rightarrow> sk_buff list \<Rightarrow> morse_skbq" where
  "a_queue xs ys = \<lparr>pkt_seq = 9, q_command = False, q_data = True, q_dir_to_host = False, skbq_size = sum_list (map sk_len xs),
     skbq = xs, pending = ys\<rparr>"

lemma a_queue_wf: "wf_q (a_queue xs ys) \<longleftrightarrow> total_len xs \<le> 524288 \<and> distinct (map sk_ptr (xs @ ys))"
  using once_distinct [of "xs @ ys"] by (simp add: a_queue_def wf_q_def sized_def holds_def total_len_def MORSE_SKBQ_SIZE_def)

section \<open>Frames and sizes\<close>

definition user_init :: "morse \<Rightarrow> bool \<Rightarrow> bool \<Rightarrow> bool \<Rightarrow> skbq_user" where
  "user_init m command data dir = \<lparr>u_st = (m\<lparr>fates := []\<rparr>, morse_skbq_init command data dir), hand = [], given = {#}, leaked = {#}\<rparr>"

lemma init_accounted: "frames_accounted (user_init m command data dir)"
  by (simp add: user_init_def morse_skbq_init_def frames_accounted_def sized_def holds_def once_def)

text \<open>C1: Whatever is called on a queue, in any order, from its initialisation on, its recorded size is the sum
  of the lengths of the frames in it and at most 512 KiB, no frame is twice in the driver's hands, and
  every frame ever handed over is on the queue, awaits its status, is held by the code that took it off, or
  has met exactly one end: it was freed, or reported to mac80211 or to user space; or it is one of the frames
  that a report put back while the queue was full: those, and no others, are lost (\<open>lost_by\<close>, a fault of the code).
  The calls are only restricted to what the driver can do (\<open>call_ok\<close>): a new frame has an address that no live frame has, a
  report of a filtered frame is for an interface that exists, and a command is finished while it is in the list
  that the code takes it from.\<close>

theorem skbq_conserves_frames:
  assumes "all_ok user_step call_ok cs (user_init m command data dir)"
  shows "\<exists>u. ofold user_step cs (user_init m command data dir) = Some u \<and>
    skbq_size (snd (u_st u)) = sum_list (map sk_len (skbq (snd (u_st u)))) \<and> skbq_size (snd (u_st u)) \<le> 524288 \<and>
    distinct (map sk_ptr (skbq (snd (u_st u)) @ pending (snd (u_st u)) @ hand u)) \<and>
    mset (map sk_ptr (skbq (snd (u_st u)) @ pending (snd (u_st u)) @ hand u @ map fate_skb (fates (fst (u_st u))))) + leaked u = given u"
proof -
  obtain u where u: "ofold user_step cs (user_init m command data dir) = Some u" "frames_accounted u"
    using skbq_user.run_ok [OF init_accounted assms] by blast
  have "distinct (map sk_ptr (skbq (snd (u_st u)) @ pending (snd (u_st u)) @ hand u))"
    using u(2) unfolding once_distinct [symmetric] by (simp add: frames_accounted_def holds_def ac_simps)
  moreover have "mset (map sk_ptr (skbq (snd (u_st u)) @ pending (snd (u_st u)) @ hand u @ map fate_skb (fates (fst (u_st u))))) + leaked u = given u"
    using u(2) unfolding ptrs_def [symmetric] by (simp add: frames_accounted_def holds_def ac_simps)
  moreover have "skbq_size (snd (u_st u)) = sum_list (map sk_len (skbq (snd (u_st u))))" "skbq_size (snd (u_st u)) \<le> 524288"
    using u(2) by (simp_all add: frames_accounted_def sized_def total_len_def MORSE_SKBQ_SIZE_def)
  ultimately show ?thesis using u(1) by blast
qed

lemmas run_simps =
  a_skb_def a_morse_def a_status_def user_init_def morse_skbq_init_def morse_skbq_skb_tx_def push_header_def set_queued_tx_skb_expiry_def ftype_stype_def
  align_down_def SKB_HEADER_SIZE_def trunc8_def trunc32_def morse_skbq_tx_def morse_skbq_put_def morse_skbq_space_def sub32_def
  MORSE_SKBQ_SIZE_def morse_skbq_pkt_id_def set_pkt_id_def skb_queue_def morse_skbq_over_threshold_def signal_channel_def morse_is_data_tx_allowed_def
  queue_chip_work_def CHAN_DATA_def CHAN_BEACON_def CHAN_LOOPBACK_def CHAN_WIPHY_def CHAN_COMMAND_def CHAN_MGMT_def CHAN_DATA_NOACK_def
  holds_def Let_def morse_skbq_deq_num_items_def morse_skbq_unlink_def skb_unlink_def morse_skbq_tx_complete_def tx_complete_one_def
  skbq_tx_move_to_pending_def FLAG_NO_REPORT_def morse_skbq_enq_prepend_def status_ok_def skbq_get_pending_by_id_def
  tx_status_on_queue_def tx_skb_is_ps_filtered_def insert_pending_skb_to_skbq_def on_st_def FLAG_PS_FILTERED_def FLAG_PAGE_INVALID_def
  FLAG_DUTY_CYCLE_CANT_SEND_def tx_status_finish_def morse_skb_remove_hdr_after_sent_to_chip_def skb_pull_def morse_skbq_skb_finish_def
  skbq_data_tx_finish_def skbq_qosnullfunc_to_nullfunc_def consume_def notify_def morse_skbq_check_for_stale_tx_def
  has_pending_tx_skb_timed_out_def flush_stale_def skbq_drop_pending_skb_def morse_skbq_sta_eosp_def morse_flush_txskb_def
  count_status_dropped_def count_status_flushed_def flush_list_def morse_skbq_tx_flush_def find_sta_def 


theorem skbq_conserves_frames_witness:
  "let cs = [Call_skb_tx True (a_skb 1) None CHAN_DATA, Call_skb_tx True (a_skb 2) None CHAN_DATA,
      Call_skb_tx True (a_skb 3) None CHAN_DATA, Call_deq 2, Call_complete 1, Call_prepend,
      Call_status None (a_status 0 0x8000), Call_deq 3, Call_complete 2, Call_status None (a_status 1 0), Call_time 9000,
      Call_stale, Call_flush]
   in \<exists>u. ofold user_step cs (user_init a_morse False True False) = Some u \<and>
     skbq_size (snd (u_st u)) = sum_list (map sk_len (skbq (snd (u_st u)))) \<and> skbq_size (snd (u_st u)) \<le> 524288 \<and>
     distinct (map sk_ptr (skbq (snd (u_st u)) @ pending (snd (u_st u)) @ hand u)) \<and>
     mset (map sk_ptr (skbq (snd (u_st u)) @ pending (snd (u_st u)) @ hand u @ map fate_skb (fates (fst (u_st u))))) + leaked u = given u"
  unfolding Let_def by (rule skbq_conserves_frames) (simp add: run_simps bit_numeral_rec)

text \<open>C36: Frames that are taken off the queue and put back, because the chip had no room for them, leave it as it
  was: in their order, at the head, with the same size; all of them fit.\<close>

theorem skbq_deq_prepend:
  assumes "wf_q mq"
  shows "morse_skbq_enq_prepend (snd (morse_skbq_deq_num_items n mq)) (fst (morse_skbq_deq_num_items n mq)) =
    (mq, [], sum_list (map sk_len (take n (skbq mq))))"
proof -
  let ?mq = "fst (morse_skbq_deq_num_items n mq)" and ?xs = "take n (skbq mq)"
  have s: "sized ?mq" using deq_wf(1) [OF assms] by (simp add: wf_q_def)
  obtain pre rest where p: "?xs = rest @ pre" "rest = [] \<or> morse_skbq_space ?mq < total_len pre + sk_len (last rest)"
    "morse_skbq_enq_prepend ?xs ?mq = (?mq\<lparr>skbq_size := skbq_size ?mq + total_len pre, skbq := pre @ skbq ?mq\<rparr>, rest, total_len pre)"
    using prepend_eq [OF s, of ?xs] by metis
  have "rest = []"
  proof (rule ccontr)
    assume "rest \<noteq> []"
    then have "total_len pre + sk_len (last rest) \<le> total_len ?xs"
      unfolding p(1) by (induction rest rule: rev_induct) simp_all
    with space_drop [OF assms, of n] p(2) \<open>rest \<noteq> []\<close> show False by linarith
  qed
  with p(1) have "pre = ?xs" "rest = []" by simp_all
  moreover have "total_len ?xs \<le> skbq_size mq" using assms total_len_take_drop [of "skbq mq" n] by (simp add: wf_q_def sized_def)
  ultimately show ?thesis using p(3) by (simp add: deq_eq [OF assms] total_len_def)
qed

theorem skbq_deq_prepend_witness:
  "let mq = a_queue [a_skb 1, a_skb 2, a_skb 3] [a_skb 4]
   in morse_skbq_enq_prepend (snd (morse_skbq_deq_num_items 2 mq)) (fst (morse_skbq_deq_num_items 2 mq)) = (mq, [], 200)"
  using skbq_deq_prepend [of "a_queue [a_skb 1, a_skb 2, a_skb 3] [a_skb 4]" 2] unfolding Let_def a_queue_wf
  by (simp add: total_len_def a_skb_def) (simp add: a_queue_def)

lemma sorted_split:
  assumes "sorted (map f xs)" "i \<notin> f ` set xs"
  shows "takeWhile (\<lambda>x. f x < i) xs = filter (\<lambda>x. f x < i) xs" "dropWhile (\<lambda>x. f x < i) xs = filter (\<lambda>x. i < f x) xs"
  using assms
proof (induction xs)
  case (Cons a xs)
  { case 1
    have "filter (\<lambda>x. f x < i) xs = []" if "\<not> f a < i"
      using that 1 by (fastforce simp: filter_empty_conv)
    with Cons 1 show ?case by auto }
  { case 2
    have "filter (\<lambda>x. i < f x) xs = xs" if "\<not> f a < i"
      using that 2 by (fastforce simp: filter_id_conv)
    with Cons 2 show ?case by auto }
qed simp_all

lemma sorted_map_filter: "sorted (map f xs) \<Longrightarrow> sorted (map f (filter P xs))"
  by (induction xs) auto

text \<open>C28: A frame the chip filtered because its station sleeps is put back by packet id: when the queue is in the
  order of the ids and has no frame with this one, it goes before all frames that were sent after it and behind all that were
  sent before, and the order is kept. When the queue has no room for it, it is left as it is. In both cases the frame no longer
  awaits a report (so in the second it is in neither list: it is lost).\<close>

theorem skbq_reinsert_sorted:
  assumes "wf_q mq" "s \<in> set (pending mq)" "sorted (map sk_pkt_id (skbq mq))" "sk_pkt_id s \<notin> sk_pkt_id ` set (skbq mq)"
  shows "skbq (insert_pending_skb_to_skbq s (sk_pkt_id s) mq) =
      (if sk_len s \<le> morse_skbq_space mq
       then filter (\<lambda>x. sk_pkt_id x < sk_pkt_id s) (skbq mq) @ s # filter (\<lambda>x. sk_pkt_id s < sk_pkt_id x) (skbq mq)
       else skbq mq) \<and>
    sorted (map sk_pkt_id (skbq (insert_pending_skb_to_skbq s (sk_pkt_id s) mq))) \<and>
    pending (insert_pending_skb_to_skbq s (sk_pkt_id s) mq) = filter (\<lambda>x. sk_ptr x \<noteq> sk_ptr s) (pending mq)"
proof -
  let ?i = "sk_pkt_id s" and ?q = "skbq mq"
  have h: "has_ptr s (pending mq)" by (rule in_has_ptr [OF assms(2)])
  obtain b where r: "insert_pending_skb_to_skbq s ?i mq = fst (morse_skbq_put Tx_list s False b (morse_skbq_unlink Pending_list s mq))"
    using insert_pending_put by blast
  have e: "skbq (insert_pending_skb_to_skbq s ?i mq) = (if sk_len s \<le> morse_skbq_space mq
      then filter (\<lambda>x. sk_pkt_id x < ?i) ?q @ s # filter (\<lambda>x. ?i < sk_pkt_id x) ?q else ?q)"
  proof (cases "sk_len s \<le> morse_skbq_space mq")
    case True
    then show ?thesis using insert_pending_place [OF assms(1) h True assms(3,4)] sorted_split [OF assms(3,4)] by simp
  next
    case False
    moreover have "skbq (morse_skbq_unlink Pending_list s mq) = ?q" by (simp add: morse_skbq_unlink_def)
    ultimately show ?thesis unfolding r by (simp add: morse_skbq_put_def)
  qed
  have "sorted (map sk_pkt_id (filter (\<lambda>x. sk_pkt_id x < ?i) ?q @ s # filter (\<lambda>x. ?i < sk_pkt_id x) ?q))"
    using assms(3) by (auto simp: sorted_append sorted_map_filter)
  then have "sorted (map sk_pkt_id (skbq (insert_pending_skb_to_skbq s ?i mq)))" unfolding e using assms(3) by simp
  moreover have "pending (insert_pending_skb_to_skbq s ?i mq) = filter (\<lambda>x. sk_ptr x \<noteq> sk_ptr s) (pending mq)"
    unfolding r by (simp add: morse_skbq_put_def morse_skbq_unlink_def skb_unlink_def)
  ultimately show ?thesis using e by blast
qed

theorem skbq_reinsert_sorted_witness:
  "let s = (a_skb 2)\<lparr>sk_pkt_id := 5\<rparr>;
       mq = a_queue [(a_skb 1)\<lparr>sk_pkt_id := 4\<rparr>, (a_skb 3)\<lparr>sk_pkt_id := 6\<rparr>] [s]
   in skbq (insert_pending_skb_to_skbq s (sk_pkt_id s) mq) =
      (if sk_len s \<le> morse_skbq_space mq
       then filter (\<lambda>x. sk_pkt_id x < sk_pkt_id s) (skbq mq) @ s # filter (\<lambda>x. sk_pkt_id s < sk_pkt_id x) (skbq mq)
       else skbq mq) \<and>
    sorted (map sk_pkt_id (skbq (insert_pending_skb_to_skbq s (sk_pkt_id s) mq))) \<and>
    pending (insert_pending_skb_to_skbq s (sk_pkt_id s) mq) = filter (\<lambda>x. sk_ptr x \<noteq> sk_ptr s) (pending mq)"
  unfolding Let_def
  by (rule skbq_reinsert_sorted, simp add: a_queue_wf a_skb_def) (simp_all add: a_queue_def a_skb_def)

text \<open>A queue is never both long enough to stop mac80211 and short enough to wake it, whatever limit is set,
  except 1.\<close>

theorem skbq_thresholds_exclusive:
  assumes "skbq_size mq \<le> MORSE_SKBQ_SIZE" "max_txq_len m \<noteq> 1" "max_txq_len m < 4294967296"
  shows "\<not> (morse_skbq_over_threshold m mq \<and> morse_skbq_under_threshold m mq)"
proof (cases "max_txq_len m = 0")
  case True
  then show ?thesis by (simp add: morse_skbq_over_threshold_def morse_skbq_under_threshold_def)
next
  case False
  then have "2 \<le> max_txq_len m" using assms(2) by simp
  with assms(3) False show ?thesis by (auto simp: morse_skbq_over_threshold_def morse_skbq_under_threshold_def)
qed

theorem skbq_thresholds_exclusive_witness:
  "let mq = a_queue (map a_skb [0..<32]) []
   in \<not> (morse_skbq_over_threshold a_morse mq \<and> morse_skbq_under_threshold a_morse mq)"
  unfolding Let_def by (rule skbq_thresholds_exclusive)
    (simp_all add: a_queue_def a_skb_def a_morse_def MORSE_SKBQ_SIZE_def comp_def sum_list_triv)

text \<open>With a limit of 1 a queue with one frame is over the threshold and under it at once, since the
  subtraction of 2 wraps; with a limit of 2 not even an empty queue is under it, so that mac80211 is never
  woken.\<close>

theorem skbq_small_limits:
  "let m1 = a_morse\<lparr>max_txq_len := 1\<rparr>; m2 = a_morse\<lparr>max_txq_len := 2\<rparr>; mq = a_queue [a_skb 1] []
   in morse_skbq_over_threshold m1 mq \<and> morse_skbq_under_threshold m1 mq \<and>
      \<not> morse_skbq_under_threshold m2 (a_queue [] []) \<and>
      morse_skbq_may_wake_tx_queues [a_queue [] []] (morse_skbq_stop_tx_queues m2) = morse_skbq_stop_tx_queues m2"
  by (simp add: a_morse_def a_queue_def morse_skbq_over_threshold_def morse_skbq_under_threshold_def sub32_def trunc32_def
      morse_skbq_may_wake_tx_queues_def morse_skbq_stop_tx_queues_def)

text \<open>A filtered frame that is to go back to a full queue is lost: after the report it is in neither list,
  it was not freed and mac80211 was not told.\<close>

theorem skbq_full_reinsert_leaks:
  "let mq = a_queue [(a_skb 1)\<lparr>sk_len := 524288\<rparr>] [a_skb 2]
   in \<exists>mq'. tx_status_on_queue None (a_status 0 0x8000) (a_morse, mq) = Some (a_morse, mq') \<and>
        2 \<in># holds mq \<and> 2 \<notin># holds mq' \<and> fates a_morse = []"
  by (simp add: a_queue_def run_simps bit_numeral_rec)

text \<open>In the headroom \<open>morse_skbq_alloc_skb\<close> reserves, the header that is put in front of a frame fits: it
  starts behind the start of the buffer, at the alignment the bus needs, and its \<open>offset\<close> field tells
  exactly how far the frame is behind it, so that the frame has its length back once the header is
  removed.\<close>

theorem skbq_header_roundtrip:
  assumes "0 < bulk_alignment m" "extra_tx_offset m + bulk_alignment m \<le> 256"
    "sk_data s = base + fst (morse_skbq_alloc_skb m len)"
  shows "let t = push_header m chan info s
    in base \<le> sk_data t \<and> bulk_alignment m dvd sk_data t \<and> sk_data t + SKB_HEADER_SIZE + sk_offset t = sk_data s \<and>
       sk_len (morse_skb_remove_hdr_after_sent_to_chip t) = sk_len s"
proof -
  define a e where "a = bulk_alignment m" and "e = extra_tx_offset m"
  have D: "sk_data s = base + (40 + e + a)"
    using assms(3) by (simp add: morse_skbq_alloc_skb_def SKB_HEADER_SIZE_def a_def e_def Let_def)
  let ?r = "(base + a) mod a"
  have r: "?r < a" "?r \<le> base + a" using assms(1) by (simp add: a_def) (rule mod_less_eq_dividend)
  have h: "align_down (sk_data s - SKB_HEADER_SIZE - extra_tx_offset m) (bulk_alignment m) = base + a - ?r"
    by (simp add: align_down_def D SKB_HEADER_SIZE_def a_def e_def)
  have o: "sk_data s - (base + a - ?r + SKB_HEADER_SIZE) = e + ?r" using r D by (simp add: SKB_HEADER_SIZE_def)
  have "trunc8 (e + ?r) = e + ?r" using assms(2) r by (simp add: trunc8_def a_def e_def)
  moreover have "a dvd base + a - ?r" by (metis dvd_minus_mod)
  ultimately show ?thesis unfolding push_header_def h Let_def o
    using r D by (simp add: a_def [symmetric] SKB_HEADER_SIZE_def morse_skb_remove_hdr_after_sent_to_chip_def skb_pull_def)
qed

theorem skbq_header_roundtrip_witness:
  "let m = a_morse\<lparr>bulk_alignment := 8\<rparr>; s = (a_skb 1)\<lparr>sk_data := 1003 + fst (morse_skbq_alloc_skb m 10)\<rparr>; t = push_header m CHAN_DATA 0 s
   in 1003 \<le> sk_data t \<and> bulk_alignment m dvd sk_data t \<and> sk_data t + SKB_HEADER_SIZE + sk_offset t = sk_data s \<and>
      sk_len (morse_skb_remove_hdr_after_sent_to_chip t) = sk_len s"
  using skbq_header_roundtrip [of "a_morse\<lparr>bulk_alignment := 8\<rparr>"
      "(a_skb 1)\<lparr>sk_data := 1003 + fst (morse_skbq_alloc_skb (a_morse\<lparr>bulk_alignment := 8\<rparr>) 10)\<rparr>" 1003 10 CHAN_DATA 0]
  unfolding Let_def by (simp add: a_morse_def)

lemma split_first:
  "i \<notin> f ` set ys \<Longrightarrow> f s = i \<Longrightarrow> takeWhile (\<lambda>x. f x \<noteq> i) (ys @ s # zs) = ys \<and>
    dropWhile (\<lambda>x. f x \<noteq> i) (ys @ s # zs) = s # zs \<and> find (\<lambda>x. f x = i) (ys @ s # zs) = Some s"
  by (induction ys) auto

lemma pending_by_id_frame:
  "fullmac (fst (fst (pending_by_id_walk i xs st))) = fullmac (fst st) \<and>
   monitor_mode (fst (fst (pending_by_id_walk i xs st))) = monitor_mode (fst st) \<and>
   q_command (snd (fst (pending_by_id_walk i xs st))) = q_command (snd st)"
proof (induction xs arbitrary: st)
  case (Cons x xs)
  have "fullmac (fst (flush_stale x st)) = fullmac (fst st) \<and> monitor_mode (fst (flush_stale x st)) = monitor_mode (fst st) \<and>
      q_command (snd (flush_stale x st)) = q_command (snd st)"
    by (cases st) (auto simp: flush_stale_def skbq_drop_pending_skb_def morse_skbq_sta_eosp_def morse_flush_txskb_def Let_def
        count_status_dropped_def count_status_flushed_def consume_def notify_def morse_skbq_unlink_def)
  with Cons show ?case by simp
qed simp

text \<open>C27: A report without a special flag finishes the frame that was sent with its id, and no other: the frame is
  given to mac80211 with the report, without its header; frames that were sent before it and have timed out
  are dropped (only those, although the comment on the function says all older ones), and all others keep waiting, in order.
  (In fullmac mode, with a monitor interface and for commands other functions finish the frame.)\<close>

theorem skbq_status_finishes:
  assumes "wf_q mq" "\<not> fullmac m" "\<not> monitor_mode m" "\<not> q_command mq"
    "pending mq = ys @ s # zs" "sk_pkt_id s = ts_pkt_id ts" "ts_pkt_id ts \<notin> sk_pkt_id ` set ys"
    "\<not> bit (ts_flags ts) FLAG_PAGE_INVALID" "\<not> bit (ts_flags ts) FLAG_DUTY_CYCLE_CANT_SEND" "\<not> bit (ts_flags ts) FLAG_PS_FILTERED"
  shows "\<exists>m' mq'. tx_status_on_queue fm_vif ts (m, mq) = Some (m', mq') \<and>
    last (fates m') = Tx_reported (skbq_qosnullfunc_to_nullfunc (morse_skb_remove_hdr_after_sent_to_chip s)) ts \<and>
    pending mq' = filter (\<lambda>x. \<not> (sk_pkt_id x < ts_pkt_id ts \<and> has_pending_tx_skb_timed_out m x)) ys @ zs \<and>
    skbq mq' = skbq mq"
proof -
  obtain m1 mq1 r where g: "skbq_get_pending_by_id (ts_pkt_id ts) (m, mq) = ((m1, mq1), r)" by (metis surj_pair)
  then have w: "pending_by_id_walk (ts_pkt_id ts) (pending mq) (m, mq) = ((m1, mq1), r)"
    by (simp add: skbq_get_pending_by_id_def)
  have split: "takeWhile (\<lambda>x. sk_pkt_id x \<noteq> ts_pkt_id ts) (pending mq) = ys"
      "dropWhile (\<lambda>x. sk_pkt_id x \<noteq> ts_pkt_id ts) (pending mq) = s # zs"
      "find (\<lambda>x. sk_pkt_id x = ts_pkt_id ts) (pending mq) = Some s"
    unfolding assms(5) using split_first [OF assms(7,6)] by blast+
  note o = pending_by_id_ok [of "(m, mq)" "[]" "pending mq" "ts_pkt_id ts", simplified, OF assms(1), unfolded w split, simplified]
  have c: "\<not> fullmac m1" "\<not> monitor_mode m1" "\<not> q_command mq1"
    using pending_by_id_frame [of "ts_pkt_id ts" "pending mq" "(m, mq)"] assms(2-4) by (simp_all add: w)
  let ?s = "morse_skb_remove_hdr_after_sent_to_chip s"
  have r: "tx_status_on_queue fm_vif ts (m, mq) =
      Some (consume (Tx_reported (skbq_qosnullfunc_to_nullfunc ?s) ts) m1, morse_skbq_unlink Pending_list ?s mq1)"
    using g o assms(8-10) c
    by (simp add: tx_status_on_queue_def tx_status_finish_def morse_skbq_skb_finish_def skbq_data_tx_finish_def Let_def)
  have "once (ptrs (pending mq1))" using wf_pending_once keeps_wf o by fastforce
  then have "skb_unlink s (pending mq1) = filter (\<lambda>x. \<not> (sk_pkt_id x < ts_pkt_id ts \<and> has_pending_tx_skb_timed_out m x)) ys @ zs"
    using unlink_middle [of _ s zs] o by simp
  then show ?thesis using o unlink_ptr_cong [OF ptr_simps(3)] unfolding r by simp
qed

theorem skbq_status_finishes_witness:
  "let ys = [(a_skb 1)\<lparr>sk_pkt_id := 4\<rparr>]; s = (a_skb 2)\<lparr>sk_pkt_id := 5\<rparr>; zs = [(a_skb 3)\<lparr>sk_pkt_id := 6\<rparr>];
       mq = a_queue [] (ys @ s # zs); ts = a_status 5 0
   in \<exists>m' mq'. tx_status_on_queue None ts (a_morse, mq) = Some (m', mq') \<and>
    last (fates m') = Tx_reported (skbq_qosnullfunc_to_nullfunc (morse_skb_remove_hdr_after_sent_to_chip s)) ts \<and>
    pending mq' = filter (\<lambda>x. \<not> (sk_pkt_id x < ts_pkt_id ts \<and> has_pending_tx_skb_timed_out a_morse x)) ys @ zs \<and>
    skbq mq' = skbq mq"
  unfolding Let_def
  by (rule skbq_status_finishes, simp add: a_queue_wf a_skb_def total_len_def)
    (simp_all add: a_queue_def a_skb_def a_status_def a_morse_def)

end
