(* ===== verification/Pager.thy ===== *)
theory Pager
  imports Skbq
begin

text \<open>Pagers move pages of chip memory between the driver and the chip: the operations the page sets rely on, and the hardware pager.\<close>

section \<open>Pages, the bus and a pager's operations\<close>

definition ENOENT :: int where "ENOENT = 2"

record page =
  pg_addr :: u32
  pg_size :: nat

text \<open>
  Access to the chip: registers and data memory, with an error code. What the chip does is not part of
  the code, so the accesses are functions on a state of any type \<open>'d\<close>.
\<close>

record 'd bus_ops =
  morse_reg32_read :: "u32 \<Rightarrow> 'd \<Rightarrow> 'd \<times> int \<times> u32"
  morse_reg32_write :: "u32 \<Rightarrow> u32 \<Rightarrow> 'd \<Rightarrow> 'd \<times> int"
  morse_dm_read :: "u32 \<Rightarrow> nat \<Rightarrow> 'd \<Rightarrow> 'd \<times> int \<times> u8 list"
  morse_dm_write :: "u32 \<Rightarrow> u8 list \<Rightarrow> 'd \<Rightarrow> 'd \<times> int"

record pager =
  p_dir_to_host :: bool
  p_dir_to_chip :: bool
  p_free :: bool
  p_populated :: bool
  p_id :: nat
  page_size_bytes :: nat

text \<open>
  \<open>struct morse_pager_ops\<close>, on a state that holds the pagers and the chip. A page that was not got is an
  error code; \<open>None\<close> is undefined behaviour.
\<close>

record 'e pager_ops =
  op_put :: "page \<Rightarrow> 'e \<Rightarrow> ('e \<times> int) option"
  op_pop :: "'e \<Rightarrow> ('e \<times> (int + page)) option"
  op_notify :: "'e \<Rightarrow> 'e"
  op_write_page :: "page \<Rightarrow> u8 list \<Rightarrow> 'e \<Rightarrow> 'e \<times> int"
  op_read_page :: "page \<Rightarrow> nat \<Rightarrow> 'e \<Rightarrow> 'e \<times> (int + u8 list)"

text \<open>A kernel FIFO of a fixed depth: \<open>kfifo_put\<close> tells whether there was room.\<close>

definition kfifo_put :: "nat \<Rightarrow> 'a \<Rightarrow> 'a list \<Rightarrow> 'a list \<times> bool" where
  "kfifo_put depth x q = (if length q < depth then (q @ [x], True) else (q, False))"

section \<open>Page transfers\<close>

text \<open>\<open>write_page\<close> and \<open>read_page\<close> of both kinds of pagers, at offset 0.\<close>

definition page_write :: "'d bus_ops \<Rightarrow> page \<Rightarrow> u8 list \<Rightarrow> 'd \<Rightarrow> 'd \<times> int" where
  "page_write bus p buff d =
     (if pg_size p < length buff then (d, - EMSGSIZE)
      else if pg_addr p = 0 then (d, - EFAULT)
      else morse_dm_write bus (pg_addr p) buff d)"

definition page_read :: "'d bus_ops \<Rightarrow> page \<Rightarrow> nat \<Rightarrow> 'd \<Rightarrow> 'd \<times> (int + u8 list)" where
  "page_read bus p n d =
     (if pg_size p < n then (d, Inl (- EMSGSIZE))
      else if pg_addr p = 0 then (d, Inl (- EFAULT))
      else case morse_dm_read bus (pg_addr p) n d of (d, r, buff) \<Rightarrow> (d, if r \<noteq> 0 then Inl r else Inr buff))"

section \<open>The hardware pager\<close>

record pkt_memory =
  base_addr :: u32
  page_len :: nat
  page_len_reserved :: nat
  pkt_num :: nat

record hw_pager = pager +
  put_addr :: u32
  pop_addr :: u32
  bitmap :: "u32 list"

definition BITMAP_LEN :: nat where
  "BITMAP_LEN = 31"

text \<open>\<open>None\<close>: division by a page length of 0.\<close>

definition hw_get_index_from_page :: "pkt_memory \<Rightarrow> page \<Rightarrow> (int + nat) option" where
  "hw_get_index_from_page pkt p =
     (if pg_addr p < base_addr pkt \<or> base_addr pkt + of_nat (page_len pkt * pkt_num pkt) < pg_addr p
      then Some (Inl (- EINVAL))
      else do {
        i \<leftarrow> div_opt (unat (pg_addr p - of_nat (page_len_reserved pkt) - base_addr pkt)) (page_len pkt);
        Some (Inr (trunc8 i))
      })"

definition hw_get_page_from_index :: "pkt_memory \<Rightarrow> nat \<Rightarrow> int + page" where
  "hw_get_page_from_index pkt i =
     (if pkt_num pkt \<le> i then Inl (- EINVAL)
      else Inr \<lparr>pg_addr = base_addr pkt + of_nat (page_len pkt * i) + of_nat (page_len_reserved pkt),
                pg_size = trunc32 (page_len pkt + 4294967296 - page_len_reserved pkt)\<rparr>)"

definition hw_cache_pages :: "page \<Rightarrow> hw_pager \<Rightarrow> hw_pager option" where
  "hw_cache_pages p pg =
     do { bm \<leftarrow> upd_opt (bitmap pg) (unat (drop_bit BITMAP_LEN (pg_addr p))) (\<lambda>_. pg_addr p AND NOT (push_bit BITMAP_LEN 1));
          Some (pg\<lparr>bitmap := bm\<rparr>) }"

text \<open>The index of the lowest bit that is set, counted from 0.\<close>

definition ffs :: "u32 \<Rightarrow> nat option" where
  "ffs w = find (bit w) [0..<32]"

definition first_block :: "u32 list \<Rightarrow> nat option" where
  "first_block bm = find (\<lambda>b. bm ! b \<noteq> 0) [0..<length bm]"

definition hw_get_page_from_cache :: "pkt_memory \<Rightarrow> hw_pager \<Rightarrow> hw_pager \<times> (int + page)" where
  "hw_get_page_from_cache pkt pg =
     (case first_block (bitmap pg) of None \<Rightarrow> (pg, Inl (- ENOENT))
      | Some b \<Rightarrow>
          (case ffs (bitmap pg ! b) of None \<Rightarrow> (pg, Inl (- ENOENT))
           | Some i \<Rightarrow>
               (pg\<lparr>bitmap := (bitmap pg)[b := bitmap pg ! b AND NOT (push_bit i 1)]\<rparr>,
                hw_get_page_from_index pkt (trunc8 (b * BITMAP_LEN + i)))))"

definition hw_pop_raw :: "'d bus_ops \<Rightarrow> hw_pager \<Rightarrow> 'd \<Rightarrow> 'd \<times> (int + page)" where
  "hw_pop_raw bus pg d =
     (case morse_reg32_read bus (pop_addr pg) d of
        (d, r, v) \<Rightarrow>
          (d, if r \<noteq> 0 then Inl r
              else if v = 0 then Inl (- EAGAIN)
              else Inr \<lparr>pg_addr = v, pg_size = page_size_bytes pg\<rparr>))"

definition hw_pop :: "'d bus_ops \<Rightarrow> pkt_memory \<Rightarrow> hw_pager \<times> 'd \<Rightarrow> ((hw_pager \<times> 'd) \<times> (int + page)) option" where
  "hw_pop bus pkt st =
     (case st of (pg, d) \<Rightarrow>
        if \<not> p_free pg \<or> pkt_num pkt = 0 then Some (case hw_pop_raw bus pg d of (d, r) \<Rightarrow> ((pg, d), r))
        else (case hw_get_page_from_cache pkt pg of
                (pg, Inr p) \<Rightarrow> Some ((pg, d), Inr p)
              | (pg, Inl _) \<Rightarrow>
                  (case hw_pop_raw bus pg d of
                     (d, Inl r) \<Rightarrow> Some ((pg, d), Inl r)
                   | (d, Inr p) \<Rightarrow> do {
                       pg \<leftarrow> hw_cache_pages p pg;
                       Some (case hw_get_page_from_cache pkt pg of (pg, r) \<Rightarrow> ((pg, d), r))
                     })))"

definition hw_put_raw :: "'d bus_ops \<Rightarrow> hw_pager \<Rightarrow> u32 \<Rightarrow> 'd \<Rightarrow> 'd \<times> int" where
  "hw_put_raw bus pg a d = morse_reg32_write bus (put_addr pg) a d"

text \<open>\<open>None\<close>: the page's block is behind the bitmap.\<close>

definition hw_put :: "'d bus_ops \<Rightarrow> pkt_memory \<Rightarrow> page \<Rightarrow> hw_pager \<times> 'd \<Rightarrow> ((hw_pager \<times> 'd) \<times> int) option" where
  "hw_put bus pkt p st =
     (case st of (pg, d) \<Rightarrow>
        if \<not> p_free pg \<or> pkt_num pkt = 0
        then Some (case hw_put_raw bus pg (pg_addr p) d of (d, r) \<Rightarrow> ((pg, d), r))
        else do {
          ri \<leftarrow> hw_get_index_from_page pkt p;
          case ri of Inl r \<Rightarrow> Some ((pg, d), r)
          | Inr i \<Rightarrow> do {
              bm \<leftarrow> upd_opt (bitmap pg) (i div BITMAP_LEN) (\<lambda>w. w OR push_bit (i - i div BITMAP_LEN * BITMAP_LEN) 1);
              Some ((pg\<lparr>bitmap := bm\<rparr>, d), 0)
            }
        })"

text \<open>The pages of a block are forgotten even when they could not be written.\<close>

definition notify_block :: "'d bus_ops \<Rightarrow> nat \<Rightarrow> hw_pager \<times> 'd \<Rightarrow> hw_pager \<times> 'd" where
  "notify_block bus b st =
     (case st of (pg, d) \<Rightarrow>
        if bitmap pg ! b = 0 then (pg, d)
        else (pg\<lparr>bitmap := (bitmap pg)[b := 0]\<rparr>,
              fst (hw_put_raw bus pg (push_bit BITMAP_LEN (of_nat b) OR bitmap pg ! b) d)))"

definition hw_notify_pager :: "'d bus_ops \<Rightarrow> pkt_memory \<Rightarrow> hw_pager \<times> 'd \<Rightarrow> hw_pager \<times> 'd" where
  "hw_notify_pager bus pkt st =
     (if (p_dir_to_host (fst st) \<or> p_free (fst st)) \<and> pkt_num pkt \<noteq> 0
      then fold (notify_block bus) [0..<length (bitmap (fst st))] st else st)"

section \<open>Interrupts of the pagers\<close>

text \<open>A place of chip memory that holds one page, read when its interrupt comes, and the pages read so far.\<close>

record bypass =
  byp_location :: u32
  to_process :: "u32 list"

definition TX_STATUS_IRQ :: nat where "TX_STATUS_IRQ = 15"
definition CMD_RESP_IRQ :: nat where "CMD_RESP_IRQ = 29"
definition TX_STATUS_FIFO_DEPTH :: nat where "TX_STATUS_FIFO_DEPTH = 4"
definition CMD_RESP_FIFO_DEPTH :: nat where "CMD_RESP_FIFO_DEPTH = 2"

definition morse_pager_irq_enable :: "nat \<Rightarrow> bool \<Rightarrow> u32 \<Rightarrow> u32" where
  "morse_pager_irq_enable i enable irqs = (if enable then irqs OR push_bit i 1 else irqs AND NOT (push_bit i 1))"

text \<open>The flag: a page is waiting to be received.\<close>

definition read_bypass :: "'d bus_ops \<Rightarrow> nat \<Rightarrow> bool \<Rightarrow> bypass \<Rightarrow> 'd \<Rightarrow> 'd \<times> bypass \<times> bool" where
  "read_bypass bus depth raised by d =
     (if raised \<and> byp_location by \<noteq> 0
      then (case morse_reg32_read bus (byp_location by) d of
              (d, r, v) \<Rightarrow>
                if r = 0 then (d, by\<lparr>to_process := fst (kfifo_put depth v (to_process by))\<rparr>, True) else (d, by, False))
      else (d, by, False))"

definition pager_raised :: "(pager \<Rightarrow> bool) \<Rightarrow> u32 \<Rightarrow> pager list \<Rightarrow> bool" where
  "pager_raised P status pagers = list_ex (\<lambda>i. bit status i \<and> P (pagers ! i)) [0..<length pagers]"

definition morse_pager_irq_handler ::
    "'d bus_ops \<Rightarrow> u32 \<Rightarrow> u32 \<Rightarrow> pager list \<Rightarrow> bypass \<Rightarrow> bypass \<Rightarrow> 'd \<Rightarrow> morse \<Rightarrow> 'd \<times> bypass \<times> bypass \<times> morse" where
  "morse_pager_irq_handler bus enabled status pagers tx_sts cmd_resp d m =
     (let status = status AND enabled;
          rx = pager_raised p_populated status pagers;
          ret = pager_raised (\<lambda>p. \<not> p_populated p) status pagers;
          (d, tx_sts, rx1) = read_bypass bus TX_STATUS_FIFO_DEPTH (bit status TX_STATUS_IRQ) tx_sts d;
          (d, cmd_resp, rx2) = read_bypass bus CMD_RESP_FIFO_DEPTH (bit status CMD_RESP_IRQ) cmd_resp d;
          rx = (rx \<or> rx1 \<or> rx2);
          m = (if rx then queue_chip_work RX_PEND m else m);
          m = (if ret then queue_chip_work PAGE_RETURN_PEND m else m)
      in (d, tx_sts, cmd_resp, m))"

section \<open>What the page sets rely on\<close>

text \<open>A transfer that succeeds stayed inside the page.\<close>

locale page_transfer =
  fixes put_octets :: "page \<Rightarrow> u8 list \<Rightarrow> 'e \<Rightarrow> 'e \<times> int"
    and get_octets :: "page \<Rightarrow> nat \<Rightarrow> 'e \<Rightarrow> 'e \<times> (int + u8 list)"
  assumes put_fits: "put_octets p b e = (e', 0) \<Longrightarrow> length b \<le> pg_size p \<and> pg_addr p \<noteq> 0"
    and get_fits: "get_octets p n e = (e', Inr b) \<Longrightarrow> n \<le> pg_size p \<and> pg_addr p \<noteq> 0"
begin

lemma too_long_fails: "pg_size p < length b \<Longrightarrow> snd (put_octets p b e) \<noteq> 0"
  using put_fits [of p b e "fst (put_octets p b e)"] by (cases "put_octets p b e") auto

lemma too_far_fails: "pg_size p < n \<Longrightarrow> \<exists>r. snd (get_octets p n e) = Inl r"
  using get_fits [of p n e "fst (get_octets p n e)"] by (cases "snd (get_octets p n e)") (auto simp: prod_eq_iff)

end

lemma errno_pos [simp]: "EMSGSIZE \<noteq> 0" "EFAULT \<noteq> 0" "EINVAL \<noteq> 0" "ENOSPC \<noteq> 0" "EAGAIN \<noteq> 0" "ENOENT \<noteq> 0" "ENOMEM \<noteq> 0"
  by (simp_all add: EMSGSIZE_def EFAULT_def EINVAL_def ENOSPC_def EAGAIN_def ENOENT_def ENOMEM_def)

interpretation bus_transfer: page_transfer "page_write bus" "page_read bus" for bus :: "'d bus_ops"
  by unfold_locales (auto simp: page_write_def page_read_def split: if_splits prod.splits)

end
