(* ===== verification/Pager_Hw.thy ===== *)
theory Pager_Hw
  imports Pager
begin

text \<open>The hardware pager's cache: a bitmap of two words of 31 pages that behaves as a set of page numbers.\<close>

section \<open>The bitmap of the hardware pager as a set of page numbers\<close>

definition wf_bitmap :: "u32 list \<Rightarrow> bool" where
  "wf_bitmap bm \<longleftrightarrow> length bm = 2 \<and> (\<forall>w \<in> set bm. \<not> bit w 31)"

definition held :: "u32 list \<Rightarrow> nat set" where
  "held bm = {i \<in> {0..<62}. bit (bm ! (i div 31)) (i mod 31)}"

definition wf_pkt :: "pkt_memory \<Rightarrow> bool" where
  "wf_pkt pkt \<longleftrightarrow> page_len_reserved pkt < page_len pkt \<and> 0 < pkt_num pkt \<and> pkt_num pkt \<le> 62 \<and>
     unat (base_addr pkt) + page_len pkt * pkt_num pkt < 2 ^ 32"

definition page_of :: "pkt_memory \<Rightarrow> nat \<Rightarrow> page" where
  "page_of pkt i = \<lparr>pg_addr = base_addr pkt + of_nat (page_len pkt * i) + of_nat (page_len_reserved pkt),
     pg_size = page_len pkt - page_len_reserved pkt\<rparr>"

lemma pkt_less: "wf_pkt pkt \<Longrightarrow> i < pkt_num pkt \<Longrightarrow>
    unat (base_addr pkt) + (page_len pkt * i + page_len_reserved pkt) < 2 ^ 32 \<and>
    page_len pkt * i + page_len_reserved pkt < page_len pkt * pkt_num pkt"
proof -
  assume p: "wf_pkt pkt" and i: "i < pkt_num pkt"
  have "page_len pkt * i + page_len_reserved pkt < page_len pkt * Suc i" using p by (simp add: wf_pkt_def)
  also have "\<dots> \<le> page_len pkt * pkt_num pkt" using i by (intro mult_le_mono2) simp
  finally show ?thesis using p by (simp add: wf_pkt_def)
qed

lemma unat_add_of_nat: "unat (a :: u32) + n < 2 ^ 32 \<Longrightarrow> unat (a + of_nat n) = unat a + n"
  by (simp add: unat_word_ariths(1) take_bit_nat_def unat_of_nat mod_add_right_eq)

lemma unat_small: "n < 2 ^ 32 \<Longrightarrow> unat (of_nat n :: u32) = n"
  by (simp add: unat_of_nat take_bit_nat_eq_self)

lemma trunc32_wrap: "n < 4294967296 \<Longrightarrow> trunc32 (n + 4294967296) = n"
  unfolding trunc32_def by (metis mod_add_self2 mod_less)

lemma page_from_index: "wf_pkt pkt \<Longrightarrow> i < pkt_num pkt \<Longrightarrow> hw_get_page_from_index pkt i = Inr (page_of pkt i)"
proof -
  assume p: "wf_pkt pkt" and i: "i < pkt_num pkt"
  have "page_len pkt \<le> page_len pkt * pkt_num pkt" using p by (simp add: wf_pkt_def)
  moreover have "page_len pkt * pkt_num pkt < 4294967296" using p by (simp add: wf_pkt_def)
  ultimately have l: "page_len pkt < 4294967296" by linarith
  have "page_len_reserved pkt \<le> page_len pkt" using p by (simp add: wf_pkt_def)
  then have "page_len pkt + 4294967296 - page_len_reserved pkt = (page_len pkt - page_len_reserved pkt) + 4294967296"
    by (rule diff_add_assoc2)
  moreover have "page_len pkt - page_len_reserved pkt < 4294967296" using l diff_le_self le_less_trans by blast
  ultimately have "trunc32 (page_len pkt + 4294967296 - page_len_reserved pkt) = page_len pkt - page_len_reserved pkt"
    using trunc32_wrap by metis
  with i show ?thesis by (simp add: hw_get_page_from_index_def page_of_def)
qed

lemma index_from_page:
  assumes p: "wf_pkt pkt" and i: "i < pkt_num pkt"
  shows "hw_get_index_from_page pkt (page_of pkt i) = Some (Inr i)"
proof -
  let ?n = "page_len pkt * i + page_len_reserved pkt"
  have a: "pg_addr (page_of pkt i) = base_addr pkt + of_nat ?n" by (simp add: page_of_def ac_simps)
  have u: "unat (base_addr pkt + of_nat ?n) = unat (base_addr pkt) + ?n"
    by (rule unat_add_of_nat) (use pkt_less [OF p i] in simp)
  have e: "unat (base_addr pkt + of_nat (page_len pkt * pkt_num pkt)) = unat (base_addr pkt) + page_len pkt * pkt_num pkt"
    by (rule unat_add_of_nat) (use p in \<open>simp add: wf_pkt_def\<close>)
  have "\<not> pg_addr (page_of pkt i) < base_addr pkt"
    unfolding a word_less_nat_alt u by simp
  moreover have "\<not> base_addr pkt + of_nat (page_len pkt * pkt_num pkt) < pg_addr (page_of pkt i)"
    unfolding a word_less_nat_alt u e using pkt_less [OF p i] by simp
  moreover have "pg_addr (page_of pkt i) - of_nat (page_len_reserved pkt) - base_addr pkt = of_nat (page_len pkt * i)"
    by (simp add: page_of_def)
  moreover have "unat (of_nat (page_len pkt * i) :: u32) = page_len pkt * i"
    by (rule unat_small) (use pkt_less [OF p i] in linarith)
  ultimately show ?thesis using p i by (simp add: hw_get_index_from_page_def wf_pkt_def div_opt_def)
qed

section \<open>Putting and getting\<close>

lemma held_less: "i \<in> held bm \<Longrightarrow> i < 62"
  by (simp add: held_def)

lemma bit_or_single: "bit ((w :: u32) OR 2 ^ k) j \<longleftrightarrow> bit w j \<or> (j = k \<and> k < 32)"
  by (auto simp: bit_or_iff bit_exp_iff)

lemma bit_clear_single: "bit ((w :: u32) AND NOT (2 ^ k)) j \<longleftrightarrow> bit w j \<and> j \<noteq> k"
  using bit_imp_le_length [of w j] by (auto simp: bit_and_iff bit_not_iff bit_exp_iff)

lemma nat31_inj: "(i :: nat) div 31 = j div 31 \<Longrightarrow> i mod 31 = j mod 31 \<Longrightarrow> i = j"
  by (metis mult_div_mod_eq)

lemma set_bit_held:
  assumes w: "wf_bitmap bm" and i: "i < 62"
  shows "held (bm[i div 31 := bm ! (i div 31) OR push_bit (i mod 31) 1]) = insert i (held bm)"
    "wf_bitmap (bm[i div 31 := bm ! (i div 31) OR push_bit (i mod 31) 1])"
proof -
  have l: "length bm = 2" "i div 31 < 2" using w i by (auto simp: wf_bitmap_def)
  show "held (bm[i div 31 := bm ! (i div 31) OR push_bit (i mod 31) 1]) = insert i (held bm)"
    using l i nat31_inj [of _ i] by (auto simp: held_def nth_list_update bit_or_single)
  show "wf_bitmap (bm[i div 31 := bm ! (i div 31) OR push_bit (i mod 31) 1])"
    using w l by (auto simp: wf_bitmap_def bit_or_single dest!: set_update_subset_insert [THEN subsetD])
qed

lemma clear_bit_held:
  assumes w: "wf_bitmap bm" and b: "b < 2" and k: "k < 31"
  shows "held (bm[b := bm ! b AND NOT (push_bit k 1)]) = held bm - {b * 31 + k}"
    "wf_bitmap (bm[b := bm ! b AND NOT (push_bit k 1)])"
proof -
  have l: "length bm = 2" using w by (simp add: wf_bitmap_def)
  show "held (bm[b := bm ! b AND NOT (push_bit k 1)]) = held bm - {b * 31 + k}"
    using l b k by (auto simp: held_def nth_list_update bit_clear_single)
  show "wf_bitmap (bm[b := bm ! b AND NOT (push_bit k 1)])"
    using w b by (auto simp: wf_bitmap_def bit_clear_single dest!: set_update_subset_insert [THEN subsetD])
qed

lemma find_upt_Some:
  "find P [0..<n] = Some i \<longleftrightarrow> i < n \<and> P i \<and> (\<forall>j < i. \<not> P j)"
  by (auto simp: find_Some_iff)

lemma find_upt_None: "find P [0..<n] = None \<longleftrightarrow> (\<forall>i < n. \<not> P i)"
  by (auto simp: find_None_iff)

lemma word_neq_0_bit: "(w :: u32) \<noteq> 0 \<longleftrightarrow> (\<exists>k < 32. bit w k)"
proof
  assume "w \<noteq> 0"
  then obtain k where "bit w k" by (metis bit_word_eqI bit_0_eq bot_apply bot_bool_def)
  then show "\<exists>k < 32. bit w k" using bit_imp_le_length [of w k] by auto
qed auto

lemma held_iff: "wf_bitmap bm \<Longrightarrow> b < 2 \<Longrightarrow> k < 31 \<Longrightarrow> b * 31 + k \<in> held bm \<longleftrightarrow> bit (bm ! b) k"
  by (simp add: held_def)

lemma wf_block: "wf_bitmap bm \<Longrightarrow> b < 2 \<Longrightarrow> bit (bm ! b) k \<Longrightarrow> k < 31"
  using bit_imp_le_length [of "bm ! b" k] by (cases "k = 31") (auto simp: wf_bitmap_def)

lemma first_block_None: "wf_bitmap bm \<Longrightarrow> first_block bm = None \<longleftrightarrow> held bm = {}"
proof -
  assume w: "wf_bitmap bm"
  have "held bm = {}" if "\<forall>b < 2. bm ! b = 0"
    using that by (auto simp: held_def)
  moreover have "bm ! b = 0" if "held bm = {}" "b < 2" for b
  proof (rule ccontr)
    assume "bm ! b \<noteq> 0"
    then obtain k where "bit (bm ! b) k" using word_neq_0_bit by blast
    with held_iff [OF w that(2) wf_block [OF w that(2) this]] that(1) show False by simp
  qed
  ultimately show ?thesis using w by (auto simp: first_block_def find_upt_None wf_bitmap_def)
qed

lemma first_page:
  assumes w: "wf_bitmap bm" and b: "first_block bm = Some b"
  obtains k where "ffs (bm ! b) = Some k" "b < 2" "k < 31" "b * 31 + k = Min (held bm)" "held bm \<noteq> {}"
proof -
  have b2: "b < 2" "bm ! b \<noteq> 0" and first: "\<And>c. c < b \<Longrightarrow> bm ! c = 0"
    using b w by (auto simp: first_block_def find_upt_Some wf_bitmap_def)
  then have "ffs (bm ! b) \<noteq> None" using word_neq_0_bit by (auto simp: ffs_def find_upt_None)
  then obtain k where k: "ffs (bm ! b) = Some k" by blast
  then have kb: "bit (bm ! b) k" and low: "\<And>j. j < k \<Longrightarrow> \<not> bit (bm ! b) j" by (auto simp: ffs_def find_upt_Some)
  have k31: "k < 31" using wf_block [OF w b2(1) kb] .
  have i: "b * 31 + k \<in> held bm" using held_iff [OF w b2(1) k31] kb by simp
  have "Min (held bm) = b * 31 + k"
  proof (rule Min_eqI)
    show "finite (held bm)" by (simp add: held_def)
    show "b * 31 + k \<in> held bm" by (rule i)
    fix j assume j: "j \<in> held bm"
    then have bit: "bit (bm ! (j div 31)) (j mod 31)" by (simp add: held_def)
    then have "\<not> j div 31 < b" using first by auto
    moreover have "\<not> (j div 31 = b \<and> j mod 31 < k)" using bit low by auto
    ultimately have "b < j div 31 \<or> (j div 31 = b \<and> k \<le> j mod 31)" by auto
    moreover have "j = j div 31 * 31 + j mod 31" by simp
    ultimately show "b * 31 + k \<le> j" using k31 by linarith
  qed
  with that k b2 k31 i show ?thesis by auto
qed

text \<open>Getting a page takes the lowest one out.\<close>

lemma get_from_cache:
  assumes p: "wf_pkt pkt" and w: "wf_bitmap (bitmap pg)" and h: "held (bitmap pg) \<subseteq> {0..<pkt_num pkt}"
  shows "held (bitmap pg) = {} \<Longrightarrow> hw_get_page_from_cache pkt pg = (pg, Inl (- ENOENT))"
    "held (bitmap pg) \<noteq> {} \<Longrightarrow> \<exists>bm. hw_get_page_from_cache pkt pg = (pg\<lparr>bitmap := bm\<rparr>, Inr (page_of pkt (Min (held (bitmap pg))))) \<and>
       wf_bitmap bm \<and> held bm = held (bitmap pg) - {Min (held (bitmap pg))}"
proof -
  show "held (bitmap pg) = {} \<Longrightarrow> hw_get_page_from_cache pkt pg = (pg, Inl (- ENOENT))"
    using first_block_None [OF w] by (simp add: hw_get_page_from_cache_def)
  assume "held (bitmap pg) \<noteq> {}"
  then obtain b where b: "first_block (bitmap pg) = Some b" using first_block_None [OF w] by blast
  obtain k where k: "ffs (bitmap pg ! b) = Some k" "b < 2" "k < 31" "b * 31 + k = Min (held (bitmap pg))" "held (bitmap pg) \<noteq> {}"
    using first_page [OF w b] by blast
  have "Min (held (bitmap pg)) < pkt_num pkt"
    using h k(5) Min_in [of "held (bitmap pg)"] by (auto simp: held_def)
  moreover from this have "Min (held (bitmap pg)) < 256" using p by (simp add: wf_pkt_def)
  ultimately have "hw_get_page_from_index pkt (trunc8 (b * BITMAP_LEN + k)) = Inr (page_of pkt (Min (held (bitmap pg))))"
    using page_from_index [OF p] k(4) by (simp add: BITMAP_LEN_def)
  with clear_bit_held [OF w k(2,3)] k(4)
  show "\<exists>bm. hw_get_page_from_cache pkt pg = (pg\<lparr>bitmap := bm\<rparr>, Inr (page_of pkt (Min (held (bitmap pg))))) \<and>
       wf_bitmap bm \<and> held bm = held (bitmap pg) - {Min (held (bitmap pg))}"
    by (intro exI [of _ "(bitmap pg)[b := bitmap pg ! b AND NOT (push_bit k 1)]"]) (simp add: hw_get_page_from_cache_def b k(1))
qed

lemma put_page:
  assumes p: "wf_pkt pkt" and w: "wf_bitmap (bitmap pg)" and f: "p_free pg" and i: "i < pkt_num pkt"
  shows "\<exists>bm. hw_put bus pkt (page_of pkt i) (pg, d) = Some ((pg\<lparr>bitmap := bm\<rparr>, d), 0) \<and> wf_bitmap bm \<and>
    held bm = insert i (held (bitmap pg))"
proof -
  have i62: "i < 62" and n: "pkt_num pkt \<noteq> 0" using p i by (auto simp: wf_pkt_def)
  have "i - i div BITMAP_LEN * BITMAP_LEN = i mod 31" by (simp add: BITMAP_LEN_def minus_div_mult_eq_mod)
  moreover have "i div BITMAP_LEN < length (bitmap pg)" using i62 w by (simp add: BITMAP_LEN_def wf_bitmap_def)
  ultimately show ?thesis using set_bit_held [OF w i62] f n
    by (intro exI [of _ "(bitmap pg)[i div 31 := bitmap pg ! (i div 31) OR push_bit (i mod 31) 1]"])
      (simp add: hw_put_def index_from_page [OF p i] BITMAP_LEN_def)
qed

section \<open>Giving pages back\<close>

text \<open>The words that are written when the cache is emptied.\<close>

definition bulk_words :: "u32 list \<Rightarrow> u32 list" where
  "bulk_words bm = map (\<lambda>b. push_bit 31 (of_nat b) OR bm ! b) (filter (\<lambda>b. bm ! b \<noteq> 0) [0..<length bm])"

lemma two_blocks: "wf_bitmap bm \<Longrightarrow> \<exists>v w. bm = [v, w] \<and> \<not> bit v 31 \<and> \<not> bit w 31"
  unfolding wf_bitmap_def by (metis (no_types) Suc_1 length_0_conv length_Suc_conv list.set_intros numeral_2_eq_2)

lemma notify_words:
  assumes w: "wf_bitmap (bitmap pg)" and n: "pkt_num pkt \<noteq> 0" and f: "p_free pg"
  shows "hw_notify_pager bus pkt (pg, d) =
    (pg\<lparr>bitmap := [0, 0]\<rparr>, fold (\<lambda>v d. fst (morse_reg32_write bus (put_addr pg) v d)) (bulk_words (bitmap pg)) d)"
proof -
  obtain u v where b: "bitmap pg = [u, v]" using two_blocks [OF w] by blast
  have r: "[0..<Suc (Suc 0)] = [0, 1]" by (simp add: upt_rec)
  have p: "pg\<lparr>bitmap := bitmap pg\<rparr> = pg" by simp
  show ?thesis using n f b p
    by (auto simp: hw_notify_pager_def notify_block_def bulk_words_def r hw_put_raw_def BITMAP_LEN_def)
qed

lemma clear_set: "\<not> bit (w :: u32) k \<Longrightarrow> w AND NOT (2 ^ k) = w \<and> (2 ^ k OR w) AND NOT (2 ^ k) = w"
  by (intro conjI; rule bit_word_eqI) (auto simp: bit_clear_single or.commute [of _ w] bit_or_single)

lemma block_word:
  assumes "\<not> bit (w :: u32) 31" "b < 2"
  shows "unat (drop_bit 31 (push_bit 31 (of_nat b) OR w)) = b" "(push_bit 31 (of_nat b) OR w) AND NOT (2 ^ 31) = w"
proof -
  have z: "drop_bit 31 w = 0"
  proof (rule bit_word_eqI)
    fix n
    show "bit (drop_bit 31 w) n = bit (0 :: u32) n"
      using assms(1) bit_imp_le_length [of w "31 + n"] by (cases n) (auto simp: bit_drop_bit_eq)
  qed
  consider "b = 0" | "b = 1" using assms(2) by linarith
  then show "unat (drop_bit 31 (push_bit 31 (of_nat b) OR w)) = b"
    using z by cases simp_all
  have "w AND NOT (2 ^ 31) = w" "(2 ^ 31 OR w) AND NOT (2 ^ 31) = w" using clear_set [OF assms(1)] by blast+
  then show "(push_bit 31 (of_nat b) OR w) AND NOT (2 ^ 31) = w"
    using assms(2) by (cases b) (simp_all add: less_Suc_eq)
qed

text \<open>The other side of a free pager loads the words into its own cache.\<close>

lemma peer_loads:
  assumes w: "wf_bitmap bm"
  shows "ofold (\<lambda>v pg. hw_cache_pages \<lparr>pg_addr = v, pg_size = n\<rparr> pg) (bulk_words bm) (pg\<lparr>bitmap := [0, 0]\<rparr>) = Some (pg\<lparr>bitmap := bm\<rparr>)"
proof -
  obtain u v where b: "bm = [u, v]" "\<not> bit u 31" "\<not> bit v 31" using two_blocks [OF w] by blast
  have r: "[0..<Suc (Suc 0)] = [0, 1]" by (simp add: upt_rec)
  note d = block_word [OF b(2), of 0] block_word [OF b(3), of 1]
  show ?thesis using d
    by (auto simp: bulk_words_def b(1) r hw_cache_pages_def BITMAP_LEN_def upd_opt_def)
qed

section \<open>The cache refines a set of pages\<close>

lemma hw_pop_cached:
  assumes "wf_pkt pkt" "wf_bitmap (bitmap pg)" "p_free pg" "held (bitmap pg) \<subseteq> {0..<pkt_num pkt}" "held (bitmap pg) \<noteq> {}"
  shows "\<exists>bm. hw_pop bus pkt (pg, d) = Some ((pg\<lparr>bitmap := bm\<rparr>, d), Inr (page_of pkt (Min (held (bitmap pg))))) \<and>
    wf_bitmap bm \<and> held bm = held (bitmap pg) - {Min (held (bitmap pg))}"
  using get_from_cache(2) [OF assms(1,2,4,5)] assms(1,3) by (auto simp: hw_pop_def wf_pkt_def)

lemma hw_puts:
  assumes "wf_pkt pkt" "wf_bitmap (bitmap pg)" "p_free pg" "set is \<subseteq> {0..<pkt_num pkt}"
  shows "\<exists>bm. ofold (\<lambda>i st. map_option fst (hw_put bus pkt (page_of pkt i) st)) is (pg, d) = Some (pg\<lparr>bitmap := bm\<rparr>, d) \<and>
    wf_bitmap bm \<and> held bm = set is \<union> held (bitmap pg)"
  using assms
proof (induction "is" arbitrary: pg)
  case Nil
  then show ?case by (intro exI [of _ "bitmap pg"]) simp
next
  case (Cons i js)
  obtain bm where b: "hw_put bus pkt (page_of pkt i) (pg, d) = Some ((pg\<lparr>bitmap := bm\<rparr>, d), 0)" "wf_bitmap bm"
      "held bm = insert i (held (bitmap pg))"
    using put_page [OF Cons.prems(1-3), of i bus d] Cons.prems(4) by auto
  from Cons.IH [of "pg\<lparr>bitmap := bm\<rparr>"] Cons.prems b show ?case by auto
qed

lemma held_empty: "wf_bitmap [0, 0]" "held [0, 0] = {}"
  by (auto simp: wf_bitmap_def held_def nth_Cons split: nat.splits)

definition a_pkt :: pkt_memory where
  "a_pkt = \<lparr>base_addr = 0x80100000, page_len = 2048, page_len_reserved = 16, pkt_num = 60\<rparr>"

definition a_hw_pager :: "u32 list \<Rightarrow> hw_pager" where
  "a_hw_pager bm = \<lparr>p_dir_to_host = True, p_dir_to_chip = False, p_free = True, p_populated = False, p_id = 1,
     page_size_bytes = 2032, put_addr = 0x100, pop_addr = 0x104, bitmap = bm\<rparr>"

text \<open>A bus that records what is written to registers.\<close>

definition a_bus :: "(u32 \<times> u32) list bus_ops" where
  "a_bus = \<lparr>morse_reg32_read = \<lambda>a d. (d, 0, 0), morse_reg32_write = \<lambda>a v d. (d @ [(a, v)], 0),
     morse_dm_read = \<lambda>a n d. (d, 0, replicate n 0), morse_dm_write = \<lambda>a b d. (d, 0)\<rparr>"

text \<open>Pops until the pager has nothing, at most \<open>n\<close>.\<close>

primrec hw_pops :: "'d bus_ops \<Rightarrow> pkt_memory \<Rightarrow> nat \<Rightarrow> hw_pager \<times> 'd \<Rightarrow> ((hw_pager \<times> 'd) \<times> page list) option" where
  "hw_pops bus pkt 0 st = Some (st, [])"
| "hw_pops bus pkt (Suc n) st = do {
     (st, r) \<leftarrow> hw_pop bus pkt st;
     case r of Inl _ \<Rightarrow> Some (st, [])
     | Inr p \<Rightarrow> do { (st, ps) \<leftarrow> hw_pops bus pkt n st; Some (st, p # ps) }
   }"

lemma hw_pops_cached:
  assumes "wf_pkt pkt" "p_free pg" "wf_bitmap (bitmap pg)" "held (bitmap pg) \<subseteq> {0..<pkt_num pkt}" "n = card (held (bitmap pg))"
  shows "\<exists>bm. hw_pops bus pkt n (pg, d) = Some ((pg\<lparr>bitmap := bm\<rparr>, d), map (page_of pkt) (sorted_list_of_set (held (bitmap pg)))) \<and>
    wf_bitmap bm \<and> held bm = {}"
  using assms(2-)
proof (induction n arbitrary: pg)
  case 0
  have "finite (held (bitmap pg))" by (simp add: held_def)
  then have "held (bitmap pg) = {}" using 0 by simp
  with 0 show ?case by (intro exI [of _ "bitmap pg"]) simp
next
  case (Suc n)
  let ?S = "held (bitmap pg)"
  have fin: "finite ?S" by (simp add: held_def)
  have ne: "?S \<noteq> {}" using Suc.prems(4) by auto
  obtain bm where b: "hw_pop bus pkt (pg, d) = Some ((pg\<lparr>bitmap := bm\<rparr>, d), Inr (page_of pkt (Min ?S)))"
      "wf_bitmap bm" "held bm = ?S - {Min ?S}"
    using hw_pop_cached [OF assms(1) Suc.prems(2,1,3) ne, of bus d] by (elim exE conjE)
  have "n = card (held bm)" using Suc.prems(4) b(3) fin ne by simp
  moreover have sub: "held bm \<subseteq> {0..<pkt_num pkt}" using Suc.prems(3) b(3) by blast
  ultimately obtain bm' where "hw_pops bus pkt n (pg\<lparr>bitmap := bm\<rparr>, d) =
      Some ((pg\<lparr>bitmap := bm'\<rparr>, d), map (page_of pkt) (sorted_list_of_set (held bm)))" "wf_bitmap bm'" "held bm' = {}"
    using Suc.IH [of "pg\<lparr>bitmap := bm\<rparr>"] sub Suc.prems(1) b(2) by (simp del: One_nat_def) blast
  moreover have "sorted_list_of_set ?S = Min ?S # sorted_list_of_set (held bm)"
    using sorted_list_of_set_nonempty [OF fin ne] b(3) by simp
  ultimately show ?case using b(1) by (intro exI [of _ bm']) simp
qed

text \<open>C13: The two words a free pager keeps its pages in behave as a set of page numbers: when pages were put
  into it in any order, pops give each of them once, the least number first, without an access to the chip,
  and then the pager is empty.\<close>

theorem hw_pager_refines_set:
  assumes "wf_pkt pkt" "p_free pg" "bitmap pg = [0, 0]" "set is \<subseteq> {0..<pkt_num pkt}"
  shows "\<exists>pg1 bm. ofold (\<lambda>i st. map_option fst (hw_put bus pkt (page_of pkt i) st)) is (pg, d) = Some (pg1, d) \<and>
    hw_pops bus pkt (card (set is)) (pg1, d) = Some ((pg\<lparr>bitmap := bm\<rparr>, d), map (page_of pkt) (sorted_list_of_set (set is))) \<and>
    held bm = {}"
proof -
  have w: "wf_bitmap (bitmap pg)" and h: "held (bitmap pg) = {}" using held_empty assms(3) by simp_all
  obtain bm where b: "ofold (\<lambda>i st. map_option fst (hw_put bus pkt (page_of pkt i) st)) is (pg, d) = Some (pg\<lparr>bitmap := bm\<rparr>, d)"
      "wf_bitmap bm" "held bm = set is"
    using hw_puts [OF assms(1) w assms(2,4), of bus d] h by auto
  from hw_pops_cached [of pkt "pg\<lparr>bitmap := bm\<rparr>" "card (set is)" bus d] assms b show ?thesis by auto
qed

theorem hw_pager_refines_set_witness:
  "\<exists>pg1 bm. ofold (\<lambda>i st. map_option fst (hw_put a_bus a_pkt (page_of a_pkt i) st)) [45, 3, 31, 3] (a_hw_pager [0, 0], []) = Some (pg1, []) \<and>
    hw_pops a_bus a_pkt (card (set [45, 3, 31, 3 :: nat])) (pg1, []) =
      Some (((a_hw_pager [0, 0])\<lparr>bitmap := bm\<rparr>, []), map (page_of a_pkt) (sorted_list_of_set (set [45, 3, 31, 3]))) \<and>
    held bm = {}"
  by (rule hw_pager_refines_set) (simp_all add: wf_pkt_def a_pkt_def a_hw_pager_def)

text \<open>C37: The pages that were put into the pager and given back with a notification are exactly those the other
  side finds when it reads the words written: at most two, whatever the number of pages.\<close>

theorem hw_pages_reach_peer:
  assumes "wf_pkt pkt" "p_free pg" "bitmap pg = [0, 0]" "set is \<subseteq> {0..<pkt_num pkt}"
  shows "\<exists>pg1 ws bm. ofold (\<lambda>i st. map_option fst (hw_put bus pkt (page_of pkt i) st)) is (pg, d) = Some (pg1, d) \<and>
    hw_notify_pager bus pkt (pg1, d) = (pg, fold (\<lambda>v d. fst (morse_reg32_write bus (put_addr pg) v d)) ws d) \<and>
    length ws \<le> 2 \<and>
    ofold (\<lambda>v p. hw_cache_pages \<lparr>pg_addr = v, pg_size = n\<rparr> p) ws (peer\<lparr>bitmap := [0, 0]\<rparr>) = Some (peer\<lparr>bitmap := bm\<rparr>) \<and>
    held bm = set is"
proof -
  have w: "wf_bitmap (bitmap pg)" and h: "held (bitmap pg) = {}" using held_empty assms(3) by simp_all
  obtain bm where b: "ofold (\<lambda>i st. map_option fst (hw_put bus pkt (page_of pkt i) st)) is (pg, d) = Some (pg\<lparr>bitmap := bm\<rparr>, d)"
      "wf_bitmap bm" "held bm = set is"
    using hw_puts [OF assms(1) w assms(2,4), of bus d] h by auto
  have n: "pkt_num pkt \<noteq> 0" using assms(1) by (simp add: wf_pkt_def)
  have z: "pg\<lparr>bitmap := [0, 0]\<rparr> = pg" using assms(3) by simp
  have "length (bulk_words bm) \<le> 2" using b(2) length_filter_le [of _ "[0..<length bm]"]
    by (simp add: bulk_words_def wf_bitmap_def)
  with b notify_words [of "pg\<lparr>bitmap := bm\<rparr>" pkt bus d] n assms(2) z peer_loads [OF b(2)] show ?thesis
    by (intro exI [of _ "pg\<lparr>bitmap := bm\<rparr>"] exI [of _ "bulk_words bm"] exI [of _ bm]) simp
qed

theorem hw_pages_reach_peer_witness:
  "\<exists>pg1 ws bm. ofold (\<lambda>i st. map_option fst (hw_put a_bus a_pkt (page_of a_pkt i) st)) [45, 3, 31, 3] (a_hw_pager [0, 0], []) = Some (pg1, []) \<and>
    hw_notify_pager a_bus a_pkt (pg1, []) =
      (a_hw_pager [0, 0], fold (\<lambda>v d. fst (morse_reg32_write a_bus (put_addr (a_hw_pager [0, 0])) v d)) ws []) \<and>
    length ws \<le> 2 \<and>
    ofold (\<lambda>v p. hw_cache_pages \<lparr>pg_addr = v, pg_size = 0\<rparr> p) ws ((a_hw_pager [])\<lparr>bitmap := [0, 0]\<rparr>) = Some ((a_hw_pager [])\<lparr>bitmap := bm\<rparr>) \<and>
    held bm = set [45, 3, 31, 3]"
  by (rule hw_pages_reach_peer) (simp_all add: wf_pkt_def a_pkt_def a_hw_pager_def)

text \<open>
  The last address the range check admits is one behind the packet memory; with 62 pages its block is
  behind the bitmap, and the store is outside the array.
\<close>

lemma hw_put_outside:
  "let pkt = a_pkt\<lparr>page_len_reserved := 0, pkt_num := 62\<rparr>
   in hw_put bus pkt \<lparr>pg_addr = base_addr pkt + 2048 * 62, pg_size = 2048\<rparr> (a_hw_pager [0, 0], d) = None"
  by (simp add: hw_put_def a_hw_pager_def a_pkt_def hw_get_index_from_page_def div_opt_def trunc8_def BITMAP_LEN_def upd_opt_def)

end
