(* ===== verification/Pager_Sw.thy ===== *)
theory Pager_Sw
  imports Pager
begin

text \<open>The software pager: a ring buffer of page addresses in chip memory, with a cache of words on the host. It is shown to be a queue of octets.\<close>

section \<open>The ring buffer of a software pager\<close>

record sw_pager = pager +
  entry_addr :: u32
  rb_size :: nat
  rb_base :: u32
  rb_head :: u32
  rb_tail :: u32
  head_is_dirty :: bool
  tail_is_dirty :: bool
  sw_cache :: "u32 list"
  pages_need_put :: bool

definition MAX_PAGER_PAGE_LEN :: nat where "MAX_PAGER_PAGE_LEN = 32"

text \<open>\<open>struct morse_pager_sw_entry\<close>: the head and the tail in the pager's entry of the table.\<close>

definition RB_HEAD_ADDR :: "sw_pager \<Rightarrow> u32" where "RB_HEAD_ADDR pg = entry_addr pg + 8"
definition RB_TAIL_ADDR :: "sw_pager \<Rightarrow> u32" where "RB_TAIL_ADDR pg = entry_addr pg + 12"

text \<open>The register accesses are not checked; a read that failed leaves the local copy as it was. \<open>trgr\<close> is the trigger register.\<close>

definition reg_write2 :: "'d bus_ops \<Rightarrow> u32 \<Rightarrow> u32 \<Rightarrow> 'd \<Rightarrow> 'd" where
  "reg_write2 bus a v d = fst (morse_reg32_write bus a v d)"

definition sw_rb_write_tail :: "'d bus_ops \<Rightarrow> u32 \<Rightarrow> sw_pager \<times> 'd \<Rightarrow> sw_pager \<times> 'd" where
  "sw_rb_write_tail bus trgr st =
     (case st of (pg, d) \<Rightarrow>
        (pg\<lparr>tail_is_dirty := False\<rparr>,
         reg_write2 bus trgr (push_bit (p_id pg) 1) (reg_write2 bus (RB_TAIL_ADDR pg) (rb_tail pg) d)))"

definition sw_rb_write_head :: "'d bus_ops \<Rightarrow> u32 \<Rightarrow> sw_pager \<times> 'd \<Rightarrow> sw_pager \<times> 'd" where
  "sw_rb_write_head bus trgr st =
     (case st of (pg, d) \<Rightarrow>
        (pg\<lparr>head_is_dirty := False\<rparr>,
         reg_write2 bus trgr (push_bit (p_id pg) 1) (reg_write2 bus (RB_HEAD_ADDR pg) (rb_head pg) d)))"

definition sw_rb_read_head :: "'d bus_ops \<Rightarrow> sw_pager \<times> 'd \<Rightarrow> sw_pager \<times> 'd" where
  "sw_rb_read_head bus st =
     (case st of (pg, d) \<Rightarrow>
        (case morse_reg32_read bus (RB_HEAD_ADDR pg) d of (d, r, v) \<Rightarrow> (if r = 0 then pg\<lparr>rb_head := v\<rparr> else pg, d)))"

definition sw_rb_read_tail :: "'d bus_ops \<Rightarrow> sw_pager \<times> 'd \<Rightarrow> sw_pager \<times> 'd" where
  "sw_rb_read_tail bus st =
     (case st of (pg, d) \<Rightarrow>
        (case morse_reg32_read bus (RB_TAIL_ADDR pg) d of (d, r, v) \<Rightarrow> (if r = 0 then pg\<lparr>rb_tail := v\<rparr> else pg, d)))"

definition sw_count :: "sw_pager \<Rightarrow> nat" where
  "sw_count pg = unat (((rb_head pg - rb_base pg) - (rb_tail pg - rb_base pg)) AND (of_nat (rb_size pg) - 1))"

definition sw_space :: "sw_pager \<Rightarrow> nat" where
  "sw_space pg = unat (of_nat (rb_size pg) - 1 - (of_nat (sw_count pg) :: u32))"

definition sw_space_to_end :: "sw_pager \<Rightarrow> nat" where
  "sw_space_to_end pg =
     (if rb_tail pg \<le> rb_head pg then unat (rb_base pg + of_nat (rb_size pg) - 1 - rb_head pg + 1)
      else unat (rb_tail pg - rb_head pg))"

definition sw_count_to_end :: "sw_pager \<Rightarrow> nat" where
  "sw_count_to_end pg =
     (if rb_tail pg \<le> rb_head pg then unat (rb_head pg - rb_tail pg)
      else unat (rb_base pg + of_nat (rb_size pg) - 1 - rb_tail pg + 1))"

definition sw_data_write :: "'d bus_ops \<Rightarrow> u8 list \<Rightarrow> sw_pager \<times> 'd \<Rightarrow> (sw_pager \<times> 'd) \<times> int" where
  "sw_data_write bus data st =
     (case sw_rb_read_tail bus st of
        (pg, d) \<Rightarrow>
          let spc2end = sw_space_to_end pg; len = length data
          in if sw_space pg < len then ((pg, d), - EAGAIN)
             else if len \<le> spc2end
             then ((pg\<lparr>rb_head := rb_head pg + of_nat len, head_is_dirty := True\<rparr>,
                    fst (morse_dm_write bus (rb_head pg) data d)), 0)
             else ((pg\<lparr>rb_head := rb_base pg + of_nat (len - spc2end), head_is_dirty := True\<rparr>,
                    fst (morse_dm_write bus (rb_base pg) (drop spc2end data)
                          (fst (morse_dm_write bus (rb_head pg) (take spc2end data) d)))), 0))"

definition dm_read2 :: "'d bus_ops \<Rightarrow> u32 \<Rightarrow> nat \<Rightarrow> 'd \<Rightarrow> 'd \<times> u8 list" where
  "dm_read2 bus a n d = (case morse_dm_read bus a n d of (d, _, b) \<Rightarrow> (d, b))"

definition sw_data_read :: "'d bus_ops \<Rightarrow> nat \<Rightarrow> sw_pager \<times> 'd \<Rightarrow> (sw_pager \<times> 'd) \<times> (int + u8 list)" where
  "sw_data_read bus len st =
     (case st of (pg, d) \<Rightarrow>
        let cnt2end = sw_count_to_end pg
        in if sw_count pg < len then ((pg, d), Inl (- EAGAIN))
           else if len \<le> cnt2end
           then (case dm_read2 bus (rb_tail pg) len d of
                   (d, b) \<Rightarrow>
                     ((pg\<lparr>rb_tail := (if rb_tail pg + of_nat len = rb_base pg + of_nat (rb_size pg) then rb_base pg
                                      else rb_tail pg + of_nat len), tail_is_dirty := True\<rparr>, d), Inr b))
           else (case dm_read2 bus (rb_tail pg) cnt2end d of
                   (d, b) \<Rightarrow>
                     (case dm_read2 bus (rb_base pg) (len - cnt2end) d of
                        (d, c) \<Rightarrow>
                          ((pg\<lparr>rb_tail := rb_base pg + of_nat (len - cnt2end), tail_is_dirty := True\<rparr>, d), Inr (b @ c)))))"

section \<open>Pages in the ring\<close>

definition of_le32 :: "u8 list \<Rightarrow> u32" where
  "of_le32 b = ucast (b ! 0) OR push_bit 8 (ucast (b ! 1)) OR push_bit 16 (ucast (b ! 2)) OR push_bit 24 (ucast (b ! 3))"

definition sw_write_index :: "'d bus_ops \<Rightarrow> u32 \<Rightarrow> sw_pager \<times> 'd \<Rightarrow> sw_pager \<times> 'd" where
  "sw_write_index bus trgr st =
     (let pg = fst st
      in if p_dir_to_chip pg then
           (if p_populated pg \<and> head_is_dirty pg then sw_rb_write_head bus trgr st
            else if p_free pg \<and> tail_is_dirty pg then sw_rb_write_tail bus trgr st else st)
         else if p_dir_to_host pg then
           (if p_populated pg \<and> tail_is_dirty pg then sw_rb_write_tail bus trgr st
            else if p_free pg \<and> head_is_dirty pg then sw_rb_write_head bus trgr st else st)
         else st)"

text \<open>The pages are taken out of the cache before it is known whether the ring has room for them.\<close>

definition sw_notify_pager :: "'d bus_ops \<Rightarrow> u32 \<Rightarrow> sw_pager \<times> 'd \<Rightarrow> sw_pager \<times> 'd" where
  "sw_notify_pager bus trgr st =
     (case st of (pg, d) \<Rightarrow>
        sw_write_index bus trgr
          (if pages_need_put pg \<and> sw_cache pg \<noteq> []
           then (case sw_data_write bus (concat (map le32 (sw_cache pg))) (pg\<lparr>sw_cache := []\<rparr>, d) of
                   ((pg, d), _) \<Rightarrow> (pg\<lparr>pages_need_put := False\<rparr>, d))
           else (pg, d)))"

text \<open>\<open>alloc\<close>: the buffer could be allocated. Whole words only; a word for which the cache has no room is lost.\<close>

primrec words_of :: "nat \<Rightarrow> u8 list \<Rightarrow> u32 list" where
  "words_of 0 b = []"
| "words_of (Suc n) b = of_le32 b # words_of n (drop 4 b)"

definition sw_pop :: "'d bus_ops \<Rightarrow> bool \<Rightarrow> sw_pager \<times> 'd \<Rightarrow> (sw_pager \<times> 'd) \<times> (int + page)" where
  "sw_pop bus alloc st =
     (let fill = (if sw_cache (fst st) \<noteq> [] then (st, 0)
                  else (let st = sw_rb_read_head bus st; n = sw_count (fst st)
                        in if n = 0 then (st, - EAGAIN)
                           else if \<not> alloc then (st, - ENOMEM)
                           else (case sw_data_read bus n st of
                                   (st, Inl r) \<Rightarrow> (st, r)
                                 | ((pg, d), Inr b) \<Rightarrow>
                                     ((pg\<lparr>sw_cache := fold (\<lambda>w q. fst (kfifo_put MAX_PAGER_PAGE_LEN w q)) (words_of (n div 4) b) (sw_cache pg)\<rparr>, d), 0))))
      in case fill of
           ((pg, d), r) \<Rightarrow>
             if r \<noteq> 0 then ((pg, d), Inl r)
             else (case sw_cache pg of
                     [] \<Rightarrow> ((pg, d), Inr \<lparr>pg_addr = 0, pg_size = page_size_bytes pg\<rparr>)
                   | w # q \<Rightarrow> ((pg\<lparr>sw_cache := q\<rparr>, d), Inr \<lparr>pg_addr = w, pg_size = page_size_bytes pg\<rparr>)))"

text \<open>A page for which the cache has no room is lost, and 0 is returned.\<close>

definition sw_put :: "page \<Rightarrow> sw_pager \<times> 'd \<Rightarrow> (sw_pager \<times> 'd) \<times> int" where
  "sw_put p st =
     ((let pg = fst st in (pg\<lparr>sw_cache := fst (kfifo_put MAX_PAGER_PAGE_LEN (pg_addr p) (sw_cache pg)), pages_need_put := True\<rparr>, snd st)), 0)"

definition sw_init :: "pager \<Rightarrow> u32 \<Rightarrow> nat \<Rightarrow> u32 \<Rightarrow> u32 \<Rightarrow> u32 \<Rightarrow> sw_pager" where
  "sw_init p entry sz base head tail =
     \<lparr>p_dir_to_host = p_dir_to_host p, p_dir_to_chip = p_dir_to_chip p, p_free = p_free p, p_populated = p_populated p,
      p_id = p_id p, page_size_bytes = page_size_bytes p, entry_addr = entry, rb_size = trunc16 sz, rb_base = base,
      rb_head = head, rb_tail = tail, head_is_dirty = False, tail_is_dirty = False, sw_cache = [], pages_need_put = False\<rparr>"


section \<open>Positions in the ring\<close>

text \<open>\<open>at pg h t\<close>: the head and the tail are \<open>h\<close> and \<open>t\<close> octets behind the base; the head may be at the very end.\<close>

definition ring_at :: "sw_pager \<Rightarrow> nat \<Rightarrow> nat \<Rightarrow> bool" where
  "ring_at pg h t \<longleftrightarrow> rb_head pg = rb_base pg + of_nat h \<and> rb_tail pg = rb_base pg + of_nat t \<and> h \<le> rb_size pg \<and> t < rb_size pg \<and>
     (\<exists>k \<in> {1..15}. rb_size pg = 2 ^ k) \<and> unat (rb_base pg) + rb_size pg < 2 ^ 32"

lemma ring_size: "ring_at pg h t \<Longrightarrow> 0 < rb_size pg \<and> rb_size pg \<le> 32768"
proof -
  assume "ring_at pg h t"
  then obtain k where k: "k \<le> 15" "rb_size pg = 2 ^ k" by (auto simp: ring_at_def)
  have "(2 :: nat) ^ k \<le> 2 ^ 15" using k(1) by (intro power_increasing) auto
  with k(2) show ?thesis by simp
qed

lemma unat_off: "ring_at pg h t \<Longrightarrow> j \<le> rb_size pg \<Longrightarrow> unat (rb_base pg + of_nat j) = unat (rb_base pg) + j"
  using unat_word_ariths(1) [of "rb_base pg" "of_nat j"] ring_size [of pg h t]
  by (simp add: ring_at_def unat_of_nat take_bit_nat_eq_self)

lemma le_off: "ring_at pg h t \<Longrightarrow> rb_tail pg \<le> rb_head pg \<longleftrightarrow> t \<le> h"
  using unat_off [of pg h t h] unat_off [of pg h t t] by (simp add: ring_at_def word_le_nat_alt)

lemma unat_small32: "n \<le> 65536 \<Longrightarrow> unat (of_nat n :: u32) = n"
  by (simp add: unat_of_nat take_bit_nat_eq_self)

lemma mod_once: "x < 2 * s \<Longrightarrow> x mod s = (if x < s then x else x - s)" for x s :: nat
  by (simp add: le_mod_geq)

lemma unat_uminus32: "0 < unat (w :: u32) \<Longrightarrow> unat (- w) = 4294967296 - unat w"
  using unat_sub_if_size [of "0 :: u32" w] by (simp add: word_size split: if_splits)

lemma unat_diff32: "a \<le> 32768 \<Longrightarrow> b \<le> 32768 \<Longrightarrow>
    unat (of_nat a - of_nat b :: u32) = (if b \<le> a then a - b else 4294967296 - (b - a))"
proof (cases "b \<le> a")
  case True
  assume "a \<le> 32768" "b \<le> 32768"
  then have "unat (of_nat (a - b) :: u32) = a - b" by (intro unat_small32) linarith
  with True show ?thesis by (simp add: of_nat_diff)
next
  case False
  assume "a \<le> 32768" "b \<le> 32768"
  then have u: "unat (of_nat (b - a) :: u32) = b - a" by (intro unat_small32) linarith
  have "(of_nat a - of_nat b :: u32) = - of_nat (b - a)" using False by (simp add: of_nat_diff)
  then have "unat (of_nat a - of_nat b :: u32) = 4294967296 - unat (of_nat (b - a) :: u32)"
    using unat_uminus32 [of "of_nat (b - a)"] False u by (metis diff_is_0_eq neq0_conv)
  with False u show ?thesis by metis
qed

lemma count_eq:
  assumes r: "ring_at pg h t"
  shows "sw_count pg = (h + rb_size pg - t) mod rb_size pg"
proof -
  obtain k where k: "k \<le> 15" "rb_size pg = 2 ^ k" using r by (auto simp: ring_at_def)
  have t: "t \<le> rb_size pg" "h \<le> rb_size pg" using r by (auto simp: ring_at_def)
  have m: "(of_nat (rb_size pg) :: u32) - 1 = mask k" by (simp add: k(2) mask_eq_exp_minus_1)
  have "sw_count pg = unat (of_nat h - of_nat t :: u32) mod 2 ^ k"
    using r unfolding sw_count_def m
    by (simp add: ring_at_def take_bit_eq_mask [symmetric] unsigned_take_bit_eq take_bit_nat_def)
  also have "\<dots> = (h + rb_size pg - t) mod 2 ^ k"
  proof (cases "t \<le> h")
    case True
    then have "h + rb_size pg - t = (h - t) + 2 ^ k" using k(2) by simp
    then have "(h + rb_size pg - t) mod 2 ^ k = (h - t) mod 2 ^ k" by simp
    with True show ?thesis using unat_diff32 [of h t] ring_size [OF r] t by simp
  next
    case False
    have "(4294967296 :: nat) = 2 ^ k * 2 ^ (32 - k)" using k(1) by (simp flip: power_add)
    moreover have "(2 :: nat) ^ k \<le> 4294967296" using ring_size [OF r] k(2) by simp
    ultimately have "4294967296 - (t - h) = (h + 2 ^ k - t) + 2 ^ k * (2 ^ (32 - k) - 1)"
      using False t k(2) by (simp add: diff_mult_distrib2)
    then have "(4294967296 - (t - h)) mod 2 ^ k = (h + 2 ^ k - t) mod 2 ^ k" by (metis mod_mult_self2)
    then show ?thesis using False unat_diff32 [of h t] ring_size [OF r] t k(2) by simp
  qed
  finally show ?thesis using k(2) by simp
qed

lemma space_eq:
  assumes r: "ring_at pg h t"
  shows "sw_space pg = rb_size pg - 1 - sw_count pg"
proof -
  have c: "sw_count pg < rb_size pg" using count_eq [OF r] ring_size [OF r] by simp
  then have "of_nat (rb_size pg) - 1 - (of_nat (sw_count pg) :: u32) = of_nat (rb_size pg - 1 - sw_count pg)"
    by (simp add: of_nat_diff)
  moreover have "unat (of_nat (rb_size pg - 1 - sw_count pg) :: u32) = rb_size pg - 1 - sw_count pg"
    using ring_size [OF r] by (intro unat_small32) linarith
  ultimately show ?thesis unfolding sw_space_def by metis
qed

lemma space_to_end_eq:
  assumes r: "ring_at pg h t"
  shows "sw_space_to_end pg = (if t \<le> h then rb_size pg - h else t - h)"
proof -
  have t: "t \<le> 32768" "h \<le> 32768" "h \<le> rb_size pg" using r ring_size [OF r] by (auto simp: ring_at_def)
  have "rb_base pg + of_nat (rb_size pg) - 1 - rb_head pg + 1 = of_nat (rb_size pg) - of_nat h"
    using r by (simp add: ring_at_def)
  moreover have "rb_tail pg - rb_head pg = of_nat t - of_nat h" using r by (simp add: ring_at_def)
  ultimately show ?thesis using unat_diff32 [of "rb_size pg" h] unat_diff32 [of t h] ring_size [OF r] t
    unfolding sw_space_to_end_def le_off [OF r] by presburger
qed

lemma count_to_end_eq:
  assumes r: "ring_at pg h t"
  shows "sw_count_to_end pg = (if t \<le> h then h - t else rb_size pg - t)"
proof -
  have t: "t \<le> 32768" "h \<le> 32768" "t \<le> rb_size pg" using r ring_size [OF r] by (auto simp: ring_at_def)
  have "rb_base pg + of_nat (rb_size pg) - 1 - rb_tail pg + 1 = of_nat (rb_size pg) - of_nat t"
    using r by (simp add: ring_at_def)
  moreover have "rb_head pg - rb_tail pg = of_nat h - of_nat t" using r by (simp add: ring_at_def)
  ultimately show ?thesis using unat_diff32 [of "rb_size pg" t] unat_diff32 [of h t] ring_size [OF r] t
    unfolding sw_count_to_end_def le_off [OF r] by presburger
qed

section \<open>The octets in the ring\<close>

text \<open>Chip memory: a write stores the octets, a read returns them, and registers are elsewhere.\<close>

definition store :: "u32 \<Rightarrow> u8 list \<Rightarrow> (u32 \<Rightarrow> u8) \<Rightarrow> u32 \<Rightarrow> u8" where
  "store a b m x = (if unat (x - a) < length b then b ! unat (x - a) else m x)"

definition load :: "u32 \<Rightarrow> nat \<Rightarrow> (u32 \<Rightarrow> u8) \<Rightarrow> u8 list" where
  "load a n m = map (\<lambda>i. m (a + of_nat i)) [0..<n]"

definition is_ram :: "'d bus_ops \<Rightarrow> ('d \<Rightarrow> u32 \<Rightarrow> u8) \<Rightarrow> bool" where
  "is_ram bus mem \<longleftrightarrow>
     (\<forall>a b d. mem (fst (morse_dm_write bus a b d)) = store a b (mem d)) \<and>
     (\<forall>a n d. mem (fst (morse_dm_read bus a n d)) = mem d \<and> snd (snd (morse_dm_read bus a n d)) = load a n (mem d)) \<and>
     (\<forall>a d. mem (fst (morse_reg32_read bus a d)) = mem d) \<and>
     (\<forall>a v d. mem (fst (morse_reg32_write bus a v d)) = mem d)"

definition cell :: "(u32 \<Rightarrow> u8) \<Rightarrow> sw_pager \<Rightarrow> nat \<Rightarrow> u8" where
  "cell m pg j = m (rb_base pg + of_nat j)"

text \<open>What the ring holds: \<open>sw_count\<close> octets from the tail on.\<close>

definition ring_octets :: "(u32 \<Rightarrow> u8) \<Rightarrow> sw_pager \<Rightarrow> nat \<Rightarrow> u8 list" where
  "ring_octets m pg t = map (\<lambda>i. cell m pg ((t + i) mod rb_size pg)) [0..<sw_count pg]"

lemma cell_store:
  assumes r: "ring_at pg h t" and j: "j < rb_size pg" and a: "a \<le> rb_size pg" and b: "length b \<le> rb_size pg - a"
  shows "cell (store (rb_base pg + of_nat a) b m) pg j = (if a \<le> j \<and> j < a + length b then b ! (j - a) else cell m pg j)"
proof (cases "a \<le> j")
  case True
  then have "rb_base pg + of_nat j - (rb_base pg + of_nat a) = (of_nat (j - a) :: u32)" by (simp add: of_nat_diff)
  moreover have "unat (of_nat (j - a) :: u32) = j - a" using ring_size [OF r] j by (intro unat_small32) linarith
  ultimately show ?thesis using True unfolding cell_def store_def by auto
next
  case False
  then have n: "0 < a - j" "a - j \<le> 32768" using ring_size [OF r] a by auto
  have "rb_base pg + of_nat j - (rb_base pg + of_nat a) = (of_nat j - of_nat a :: u32)" by simp
  moreover have "unat (of_nat j - of_nat a :: u32) = 4294967296 - (a - j)"
    using n False j a ring_size [OF r] unat_diff32 [of j a] by simp
  moreover have "length b \<le> 32768" using b ring_size [OF r] by linarith
  ultimately have "\<not> unat (rb_base pg + of_nat j - (rb_base pg + of_nat a)) < length b" using n by simp
  with False show ?thesis unfolding cell_def store_def by auto
qed


lemma cell_frame: "rb_base pg' = rb_base pg \<Longrightarrow> cell m pg' = cell m pg"
  by (simp add: cell_def fun_eq_iff)

text \<open>Positions behind the head, around the end of the ring.\<close>

lemma ring_positions:
  fixes h s t c n i :: nat
  assumes "h \<le> s" "t < s" "c = (h + s - t) mod s" "n < s - c"
  shows "i < c \<Longrightarrow> ((t + i) mod s + s - h mod s) mod s = s - c + i"
    "i < n \<Longrightarrow> ((t + (c + i)) mod s + s - h mod s) mod s = i"
    "((h + n) + s - t) mod s = c + n"
proof -
  define g where "g = h mod s"
  have g: "g < s" "g = h \<or> (h = s \<and> g = 0)" using assms(1,2) by (auto simp: g_def mod_once)
  have "(s + s - t) mod s = (s - t) mod s" using assms(2) by (metis diff_add_assoc2 less_imp_le_nat mod_add_self2)
  then have "c = (g + s - t) mod s" using assms(3) g(2) by auto
  then have c: "c = (if t \<le> g then g - t else g + s - t)"
    using assms(2) g(1) by (auto simp: mod_once)
  show "((t + i) mod s + s - h mod s) mod s = s - c + i" if "i < c"
    unfolding g_def [symmetric] using c g(1) assms(2) that by (auto simp: mod_once split: if_splits)
  show "((t + (c + i)) mod s + s - h mod s) mod s = i" if "i < n"
    unfolding g_def [symmetric] using c g(1) assms(2,4) that by (auto simp: mod_once split: if_splits)
  show "((h + n) + s - t) mod s = c + n"
    using c g assms(1,2,4) by (auto simp: mod_once split: if_splits)
qed


lemma data_write_cells:
  assumes tail: "sw_rb_read_tail bus st = (pg, d)" and r: "ring_at pg h t" and ram: "is_ram bus mem"
    and len: "length data \<le> sw_space pg" and res: "sw_data_write bus data st = ((pg', d'), e)"
  shows "e = 0" "\<exists>h'. ring_at pg' h' t \<and> h' mod rb_size pg = (h + length data) mod rb_size pg"
    "rb_base pg' = rb_base pg" "rb_size pg' = rb_size pg"
    "j < rb_size pg \<Longrightarrow> cell (mem d') pg j =
      (if (j + rb_size pg - h mod rb_size pg) mod rb_size pg < length data
       then data ! ((j + rb_size pg - h mod rb_size pg) mod rb_size pg) else cell (mem d) pg j)"
proof -
  let ?s = "rb_size pg" and ?n = "length data"
  have s: "0 < ?s" "h \<le> ?s" "t < ?s" using r ring_size [OF r] by (auto simp: ring_at_def)
  have sp: "sw_space pg = ?s - 1 - (h + ?s - t) mod ?s" using space_eq [OF r] count_eq [OF r] by simp
  have head: "rb_head pg = rb_base pg + of_nat h" using r by (simp add: ring_at_def)
  have wr: "mem (fst (morse_dm_write bus a b x)) = store a b (mem x)" for a b x using ram by (simp add: is_ram_def)
  have hs: "h < ?s \<or> h = ?s" using s(2) by linarith
  show "e = 0" using res len unfolding sw_data_write_def tail by (auto simp: Let_def split: if_splits)
  show "rb_base pg' = rb_base pg" "rb_size pg' = rb_size pg"
    using res len unfolding sw_data_write_def tail by (auto simp: Let_def split: if_splits)
  show "\<exists>h'. ring_at pg' h' t \<and> h' mod ?s = (h + ?n) mod ?s"
  proof (cases "?n \<le> sw_space_to_end pg")
    case True
    then have "h + ?n \<le> ?s" using space_to_end_eq [OF r] s by (auto split: if_splits)
    then show ?thesis using True res len r head
      unfolding sw_data_write_def tail by (intro exI [of _ "h + ?n"]) (auto simp: Let_def ring_at_def)
  next
    case False
    have "t \<le> h" using False space_to_end_eq [OF r] len sp s by (auto simp: mod_once split: if_splits)
    then have e: "sw_space_to_end pg = ?s - h" using space_to_end_eq [OF r] by simp
    have "h + ?n = (?n - (?s - h)) + ?s" "?n - (?s - h) < ?s" using False e len sp s by auto
    then have "(?n - (?s - h)) mod ?s = (h + ?n) mod ?s" "?n - (?s - h) \<le> ?s"
      by (metis mod_add_self2, simp)
    moreover have "pg' = pg\<lparr>rb_head := rb_base pg + of_nat (?n - (?s - h)), head_is_dirty := True\<rparr>"
      using False res len e unfolding sw_data_write_def tail by (auto simp: Let_def)
    ultimately show ?thesis using r by (intro exI [of _ "?n - (?s - h)"]) (simp add: ring_at_def)
  qed
  show "cell (mem d') pg j = (if (j + ?s - h mod ?s) mod ?s < ?n then data ! ((j + ?s - h mod ?s) mod ?s) else cell (mem d) pg j)"
    if j: "j < ?s"
  proof (cases "?n \<le> sw_space_to_end pg")
    case True
    then have n: "h + ?n \<le> ?s" using space_to_end_eq [OF r] s by (auto split: if_splits)
    have "mem d' = store (rb_base pg + of_nat h) data (mem d)"
      using True res len wr unfolding sw_data_write_def tail by (auto simp: Let_def head)
    then have c: "cell (mem d') pg j = (if h \<le> j \<and> j < h + ?n then data ! (j - h) else cell (mem d) pg j)"
      using cell_store [OF r j s(2)] n by simp
    show ?thesis unfolding c using hs n j s(1) by (auto simp: mod_once)
  next
    case False
    have "t \<le> h" using False space_to_end_eq [OF r] len sp s by (auto simp: mod_once split: if_splits)
    then have e: "sw_space_to_end pg = ?s - h" using space_to_end_eq [OF r] by simp
    have n: "?n - (?s - h) < h" "?s - h < ?n" using False e len sp s \<open>t \<le> h\<close> by (auto simp: mod_once split: if_splits)
    have "mem d' = store (rb_base pg + of_nat 0) (drop (?s - h) data) (store (rb_base pg + of_nat h) (take (?s - h) data) (mem d))"
      using False res len wr e unfolding sw_data_write_def tail by (auto simp: Let_def head)
    then have c: "cell (mem d') pg j = (if j < ?n - (?s - h) then drop (?s - h) data ! j
        else if h \<le> j then take (?s - h) data ! (j - h) else cell (mem d) pg j)"
      using cell_store [OF r j, of 0 "drop (?s - h) data"] cell_store [OF r j s(2), of "take (?s - h) data"] n s j by simp
    show ?thesis unfolding c using hs n j s by (auto simp: mod_once ac_simps)
  qed
qed


lemma ring_octets_nth: "i < sw_count pg \<Longrightarrow> ring_octets m pg t ! i = cell m pg ((t + i) mod rb_size pg)"
  by (simp add: ring_octets_def)

lemma ring_octets_len [simp]: "length (ring_octets m pg t) = sw_count pg"
  by (simp add: ring_octets_def)

lemma data_write_appends:
  assumes tail: "sw_rb_read_tail bus st = (pg, d)" and r: "ring_at pg h t" and ram: "is_ram bus mem"
    and len: "length data \<le> sw_space pg" and res: "sw_data_write bus data st = ((pg', d'), e)"
  shows "ring_octets (mem d') pg' t = ring_octets (mem d) pg t @ data" "\<exists>h'. ring_at pg' h' t" "e = 0"
proof -
  note w = data_write_cells [OF tail r ram len res]
  let ?s = "rb_size pg" and ?n = "length data" and ?c = "sw_count pg"
  obtain h' where h': "ring_at pg' h' t" "h' mod ?s = (h + ?n) mod ?s" using w(2) by blast
  show "\<exists>h'. ring_at pg' h' t" using h'(1) by blast
  show "e = 0" by (rule w(1))
  have s: "h \<le> ?s" "t < ?s" "?c = (h + ?s - t) mod ?s"
    using r count_eq [OF r] by (auto simp: ring_at_def)
  moreover have "?c < ?s" using s(2,3) by simp
  ultimately have s: "h \<le> ?s" "t < ?s" "?c = (h + ?s - t) mod ?s" "?n < ?s - ?c"
    using space_eq [OF r] len by linarith+
  note pos = ring_positions [OF s]
  have "(h' + ?s - t) mod ?s = ((h + ?n) + ?s - t) mod ?s"
    using h'(2) s(2) by (metis Nat.add_diff_assoc less_imp_le_nat mod_add_left_eq)
  then have c': "sw_count pg' = ?c + ?n" using count_eq [OF h'(1)] pos(3) w(4) by simp
  show "ring_octets (mem d') pg' t = ring_octets (mem d) pg t @ data"
  proof (rule nth_equalityI)
    show "length (ring_octets (mem d') pg' t) = length (ring_octets (mem d) pg t @ data)" using c' by simp
    fix i assume "i < length (ring_octets (mem d') pg' t)"
    then have i: "i < ?c + ?n" using c' by simp
    have m: "(t + i) mod ?s < ?s" using s(2) by simp
    have l: "ring_octets (mem d') pg' t ! i = cell (mem d') pg ((t + i) mod ?s)"
      using i c' w(4) cell_frame [OF w(3)] by (simp add: ring_octets_nth)
    show "ring_octets (mem d') pg' t ! i = (ring_octets (mem d) pg t @ data) ! i"
    proof (cases "i < ?c")
      case True
      have "\<not> ((t + i) mod ?s + ?s - h mod ?s) mod ?s < ?n" using pos(1) [OF True] s(4) by simp
      with True show ?thesis unfolding l w(5) [OF m] by (simp add: nth_append ring_octets_nth)
    next
      case False
      then obtain k where k: "i = ?c + k" "k < ?n" using i by (metis add_diff_inverse_nat nat_add_left_cancel_less)
      show ?thesis unfolding l w(5) [OF m] using pos(2) [OF k(2)] k by (simp add: nth_append)
    qed
  qed
qed


text \<open>Taking octets out.\<close>

lemma load_cells: "a + n \<le> rb_size pg \<Longrightarrow> load (rb_base pg + of_nat a) n m = map (cell m pg) [a..<a + n]"
  by (rule nth_equalityI) (simp_all add: load_def cell_def ac_simps)

lemma ring_take:
  assumes r: "ring_at pg h t" and n: "n \<le> sw_count pg"
  shows "take n (ring_octets m pg t) =
    (if t + n \<le> rb_size pg then map (cell m pg) [t..<t + n]
     else map (cell m pg) [t..<rb_size pg] @ map (cell m pg) [0..<n - (rb_size pg - t)])"
proof (rule nth_equalityI)
  let ?s = "rb_size pg"
  have t: "t < ?s" and c: "sw_count pg < ?s" using r count_eq [OF r] ring_size [OF r] by (auto simp: ring_at_def)
  show "length (take n (ring_octets m pg t)) = length (if t + n \<le> ?s then map (cell m pg) [t..<t + n]
     else map (cell m pg) [t..<?s] @ map (cell m pg) [0..<n - (?s - t)])" using n t by auto
  fix i assume "i < length (take n (ring_octets m pg t))"
  then have i: "i < n" "i < sw_count pg" using n by auto
  have "(t + i) mod ?s = (if t + i < ?s then t + i else t + i - ?s)" using t i c by (simp add: mod_once)
  then show "take n (ring_octets m pg t) ! i = (if t + n \<le> ?s then map (cell m pg) [t..<t + n]
     else map (cell m pg) [t..<?s] @ map (cell m pg) [0..<n - (?s - t)]) ! i"
    using i t c n by (auto simp: ring_octets_nth nth_append ac_simps)
qed

lemma ring_advance:
  fixes h s t c n i :: nat
  assumes "h \<le> s" "t < s" "c = (h + s - t) mod s" "n \<le> c"
  shows "(h + s - (t + n) mod s) mod s = c - n" "i < c - n \<Longrightarrow> ((t + n) mod s + i) mod s = (t + (n + i)) mod s"
proof -
  define g where "g = h mod s"
  have g: "g < s" "g = h \<or> (h = s \<and> g = 0)" using assms(1,2) by (auto simp: g_def mod_once)
  have w: "(h + s - x) mod s = (g + s - x) mod s" if "x < s" for x
  proof -
    have "(s + s - x) mod s = (s - x) mod s" using that by (metis diff_add_assoc2 less_imp_le_nat mod_add_self2)
    then show ?thesis using g(2) by auto
  qed
  have c: "c = (if t \<le> g then g - t else g + s - t)"
    using assms(2,3) g(1) w [of t] by (auto simp: mod_once)
  have "(t + n) mod s < s" using assms(2) by simp
  then show "(h + s - (t + n) mod s) mod s = c - n"
    unfolding w [OF \<open>(t + n) mod s < s\<close>] using c g(1) assms(2,4) by (auto simp: mod_once split: if_splits)
  show "((t + n) mod s + i) mod s = (t + (n + i)) mod s" by (metis add.assoc mod_add_left_eq)
qed

lemma data_read_takes:
  assumes r: "ring_at pg h t" and ram: "is_ram bus mem" and n: "n \<le> sw_count pg"
    and res: "sw_data_read bus n (pg, d) = ((pg', d'), out)"
  shows "out = Inr (take n (ring_octets (mem d) pg t))"
    "\<exists>t'. ring_at pg' h t' \<and> ring_octets (mem d') pg' t' = drop n (ring_octets (mem d) pg t)"
proof -
  let ?s = "rb_size pg" and ?t = "(t + n) mod rb_size pg"
  have s: "h \<le> ?s" "t < ?s" "sw_count pg = (h + ?s - t) mod ?s" using r count_eq [OF r] by (auto simp: ring_at_def)
  have c: "sw_count pg < ?s" using s(2,3) by simp
  have tl: "rb_tail pg = rb_base pg + of_nat t" using r by (simp add: ring_at_def)
  have fr: "mem (fst (morse_dm_read bus a k x)) = mem x" "snd (snd (morse_dm_read bus a k x)) = load a k (mem x)" for a k x
    using ram by (auto simp: is_ram_def)
  then have rd: "dm_read2 bus a k x = (fst (morse_dm_read bus a k x), load a k (mem x))" for a k x
    by (simp add: dm_read2_def case_prod_beta)
  have e: "sw_count_to_end pg = (if t \<le> h then h - t else ?s - t)" by (rule count_to_end_eq [OF r])
  have l0: "load (rb_base pg) k m = map (cell m pg) [0..<k]" if "k \<le> ?s" for k m
    using load_cells [of 0 k pg m] that by simp
  have key: "out = Inr (take n (ring_octets (mem d) pg t)) \<and> mem d' = mem d \<and>
      pg' = pg\<lparr>rb_tail := rb_base pg + of_nat ?t, tail_is_dirty := True\<rparr>"
  proof (cases "n \<le> sw_count_to_end pg")
    case True
    then have b: "t + n \<le> ?s" using e s by (auto split: if_splits)
    have "(of_nat t + of_nat n = (of_nat ?s :: u32)) \<longleftrightarrow> t + n = ?s"
      using unat_off [OF r b] unat_off [OF r order_refl] by (metis add_left_cancel of_nat_add)
    then have "(if rb_tail pg + of_nat n = rb_base pg + of_nat ?s then rb_base pg else rb_tail pg + of_nat n) =
        rb_base pg + of_nat ?t"
      using b s(2) by (auto simp: tl mod_once ac_simps)
    then show ?thesis using True res n b ring_take [OF r n] load_cells [OF b]
      unfolding sw_data_read_def by (auto simp: Let_def rd fr tl)
  next
    case False
    have "sw_count pg \<le> h - t" if "t \<le> h"
    proof -
      have "h + ?s - t = (h - t) + ?s" using that by simp
      then show ?thesis using s(3) by simp
    qed
    with False e n have "\<not> t \<le> h" by (auto split: if_splits)
    then have b: "\<not> t + n \<le> ?s" "sw_count_to_end pg = ?s - t" using e s False by auto
    have k: "n - (?s - t) = ?t" "?t \<le> ?s" using b(1) s(2) c n by (auto simp: mod_once)
    have "load (rb_tail pg) (?s - t) (mem d) = map (cell (mem d) pg) [t..<?s]"
      using load_cells [of t "?s - t" pg] s(2) by (simp add: tl)
    then show ?thesis using False res n b ring_take [OF r n] l0 [OF k(2)] k(1)
      unfolding sw_data_read_def by (auto simp: Let_def rd fr)
  qed
  show "out = Inr (take n (ring_octets (mem d) pg t))" using key by blast
  have r': "ring_at pg' h ?t" using key r s(2) by (simp add: ring_at_def)
  have cnt: "sw_count pg' = sw_count pg - n" using count_eq [OF r'] ring_advance(1) [OF s n] key by simp
  have "ring_octets (mem d') pg' ?t = drop n (ring_octets (mem d) pg t)"
  proof (rule nth_equalityI)
    show "length (ring_octets (mem d') pg' ?t) = length (drop n (ring_octets (mem d) pg t))" using cnt by simp
    fix i assume "i < length (ring_octets (mem d') pg' ?t)"
    then have i: "i < sw_count pg - n" "i < sw_count pg'" using cnt by simp_all
    then show "ring_octets (mem d') pg' ?t ! i = drop n (ring_octets (mem d) pg t) ! i"
      using ring_advance(2) [OF s n i(1)] key cell_frame [of pg' pg "mem d"] by (simp add: ring_octets_nth)
  qed
  with r' show "\<exists>t'. ring_at pg' h t' \<and> ring_octets (mem d') pg' t' = drop n (ring_octets (mem d) pg t)" by blast
qed


section \<open>The ring is a queue of octets\<close>

text \<open>C12: The ring buffer of a software pager is a bounded queue of octets: a write appends its octets at the
  end when they fit, around the end of the buffer if need be, and otherwise changes nothing and fails; a
  read takes the oldest octets out; the ring holds one octet less than its size.\<close>

theorem sw_ring_is_queue:
  assumes "is_ram bus mem" "sw_rb_read_tail bus (pg0, d0) = (pg, d)" "ring_at pg h t"
  shows "(length data \<le> sw_space pg \<longrightarrow>
      (\<exists>pg' d' h'. sw_data_write bus data (pg0, d0) = ((pg', d'), 0) \<and> ring_at pg' h' t \<and>
         ring_octets (mem d') pg' t = ring_octets (mem d) pg t @ data)) \<and>
    (sw_space pg < length data \<longrightarrow> sw_data_write bus data (pg0, d0) = ((pg, d), - EAGAIN)) \<and>
    (n \<le> sw_count pg \<longrightarrow>
      (\<exists>pg' d' t'. sw_data_read bus n (pg, d) = ((pg', d'), Inr (take n (ring_octets (mem d) pg t))) \<and> ring_at pg' h t' \<and>
         ring_octets (mem d') pg' t' = drop n (ring_octets (mem d) pg t))) \<and>
    length (ring_octets (mem d) pg t) + sw_space pg = rb_size pg - 1"
proof (intro conjI impI)
  obtain pg' d' e where w: "sw_data_write bus data (pg0, d0) = ((pg', d'), e)" by (metis surj_pair)
  show "\<exists>pg' d' h'. sw_data_write bus data (pg0, d0) = ((pg', d'), 0) \<and> ring_at pg' h' t \<and>
      ring_octets (mem d') pg' t = ring_octets (mem d) pg t @ data" if "length data \<le> sw_space pg"
    using data_write_appends [OF assms(2,3,1) that w] w by blast
  show "sw_data_write bus data (pg0, d0) = ((pg, d), - EAGAIN)" if "sw_space pg < length data"
    using that by (simp add: sw_data_write_def assms(2) Let_def)
  obtain pg' d' out where r: "sw_data_read bus n (pg, d) = ((pg', d'), out)" by (metis surj_pair)
  show "\<exists>pg' d' t'. sw_data_read bus n (pg, d) = ((pg', d'), Inr (take n (ring_octets (mem d) pg t))) \<and> ring_at pg' h t' \<and>
      ring_octets (mem d') pg' t' = drop n (ring_octets (mem d) pg t)" if "n \<le> sw_count pg"
    using data_read_takes [OF assms(3,1) that r] r by blast
  have "sw_count pg < rb_size pg" using count_eq [OF assms(3)] ring_size [OF assms(3)] by simp
  then show "length (ring_octets (mem d) pg t) + sw_space pg = rb_size pg - 1" using space_eq [OF assms(3)] by simp
qed

text \<open>A memory, and a tail register that says 6.\<close>

definition ram_bus :: "(u32 \<Rightarrow> u8) bus_ops" where
  "ram_bus = \<lparr>morse_reg32_read = \<lambda>a d. (d, 0, 0x1006), morse_reg32_write = \<lambda>a v d. (d, 0),
     morse_dm_read = \<lambda>a n d. (d, 0, load a n d), morse_dm_write = \<lambda>a b d. (store a b d, 0)\<rparr>"

definition a_sw_pager :: sw_pager where
  "a_sw_pager = sw_init \<lparr>p_dir_to_host = True, p_dir_to_chip = False, p_free = True, p_populated = False, p_id = 1,
     page_size_bytes = 1604\<rparr> 0x2000 8 0x1000 0x1007 0x1006"

lemma a_ring: "ring_at a_sw_pager 7 6"
proof -
  have "\<exists>k \<in> {1..15}. (8 :: nat) = 2 ^ k" by (rule bexI [of _ 3]) simp_all
  then show ?thesis by (simp add: ring_at_def a_sw_pager_def sw_init_def)
qed

theorem sw_ring_is_queue_witness:
  "(\<exists>pg' d' h'. sw_data_write ram_bus [1, 2, 3, 4] (a_sw_pager, \<lambda>_. 9) = ((pg', d'), 0) \<and> ring_at pg' h' 6 \<and>
      ring_octets d' pg' 6 = ring_octets (\<lambda>_. 9) a_sw_pager 6 @ [1, 2, 3, 4]) \<and>
   (\<exists>pg' d' t'. sw_data_read ram_bus 1 (a_sw_pager, \<lambda>_. 9) = ((pg', d'), Inr (take 1 (ring_octets (\<lambda>_. 9) a_sw_pager 6))) \<and>
      ring_at pg' 7 t' \<and> ring_octets d' pg' t' = drop 1 (ring_octets (\<lambda>_. 9) a_sw_pager 6)) \<and>
   length (ring_octets (\<lambda>_. 9) a_sw_pager 6) + sw_space a_sw_pager = 7"
proof -
  have n: "sw_count a_sw_pager = 1" "sw_space a_sw_pager = 6" "rb_size a_sw_pager = 8"
    by (simp_all add: sw_count_def sw_space_def a_sw_pager_def sw_init_def)
  have "is_ram ram_bus (\<lambda>d. d)" by (simp add: is_ram_def ram_bus_def)
  moreover have "sw_rb_read_tail ram_bus (a_sw_pager, \<lambda>_. 9) = (a_sw_pager, \<lambda>_. 9)"
    by (simp add: sw_rb_read_tail_def ram_bus_def a_sw_pager_def sw_init_def)
  ultimately show ?thesis
    using sw_ring_is_queue [of ram_bus "\<lambda>d. d" a_sw_pager "\<lambda>_. 9" a_sw_pager "\<lambda>_. 9" 7 6 "[1, 2, 3, 4]" 1] a_ring n by simp
qed

text \<open>A page that is put when the cache is full is lost, and the caller is told that it was put.\<close>

lemma sw_put_full_loses:
  "sw_put \<lparr>pg_addr = a, pg_size = n\<rparr> (a_sw_pager\<lparr>sw_cache := replicate 32 5\<rparr>, d) =
     ((a_sw_pager\<lparr>sw_cache := replicate 32 5, pages_need_put := True\<rparr>, d), 0)"
  by (simp add: sw_put_def kfifo_put_def MAX_PAGER_PAGE_LEN_def)

end
