(* ===== verification/Skb_Header.thy ===== *)
theory Skb_Header
  imports Skbq
begin

text \<open>Octets of a frame from the chip: its header, its checksum and the TX status records in it.\<close>

text \<open>The fields of \<open>struct morse_buff_skb_header\<close>; \<open>None\<close>: read behind the received octets.\<close>

record rx_header =
  rh_sync :: nat
  rh_channel :: nat
  rh_len :: nat
  rh_offset :: nat
  rh_checksum :: u32

definition rx_header_of :: "u8 list \<Rightarrow> rx_header option" where
  "rx_header_of b =
     do {
       sync \<leftarrow> nth_opt b 0;
       channel \<leftarrow> nth_opt b 1;
       len \<leftarrow> le16_at b 2;
       offset \<leftarrow> nth_opt b 4;
       lower \<leftarrow> nth_opt b 5;
       upper \<leftarrow> le16_at b 6;
       Some \<lparr>rh_sync = unat sync, rh_channel = unat channel, rh_len = unat len, rh_offset = unat offset,
             rh_checksum = push_bit 8 (ucast upper) OR ucast lower\<rparr>
     }"

definition MORSE_SKB_HEADER_SYNC :: nat where "MORSE_SKB_HEADER_SYNC = 0xAA"
definition MORSE_SKB_HEADER_CHIP_OWNED_SYNC :: nat where "MORSE_SKB_HEADER_CHIP_OWNED_SYNC = 0xBB"

definition is_pv1_qos_data :: "u16 \<Rightarrow> bool" where
  "is_pv1_qos_data fc \<longleftrightarrow> fc AND 0x0003 = 1 \<and> (fc AND 0x001c = 0x0000 \<or> fc AND 0x001c = 0x000C)"

definition is_data_frame :: "u16 \<Rightarrow> bool" where
  "is_data_frame fc \<longleftrightarrow> fc AND 0x000c = 0x0008 \<or> fc AND 0x008c = 0x0088 \<or> is_pv1_qos_data fc"

primrec xor_words :: "nat \<Rightarrow> u8 list \<Rightarrow> u32 option" where
  "xor_words 0 b = Some 0"
| "xor_words (Suc n) b = do { w \<leftarrow> le32_at b 0; x \<leftarrow> xor_words n (drop 4 b); Some (w XOR x) }"

definition clear_checksum :: "u8 list \<Rightarrow> u8 list" where
  "clear_checksum b = b[5 := 0, 6 := 0, 7 := 0]"

text \<open>
  The checksum covers the octets the header announces, or only the headers of a data frame; the fields are
  cleared in the buffer. The length is a \<open>u16\<close> that wraps, and is not compared with the octets received.
\<close>

definition morse_validate_skb_checksum :: "u8 list \<Rightarrow> (u8 list \<times> bool) option" where
  "morse_validate_skb_checksum b =
     do {
       h \<leftarrow> rx_header_of b;
       data \<leftarrow> (if rh_channel h = CHAN_DATA then map_option is_data_frame (le16_at b SKB_HEADER_SIZE) else Some False);
       (let len = trunc16 (rh_len h + SKB_HEADER_SIZE);
            len = (if data then min len (SKB_HEADER_SIZE + 32 + 8) div 4 * 4 else len);
            b = clear_checksum b
        in do {
          x \<leftarrow> xor_words ((len + 3) div 4) b;
          Some (b, x AND 0x00FFFFFF = rh_checksum h)
        })
     }"

definition parse_tx_status :: "u8 list \<Rightarrow> tx_status option" where
  "parse_tx_status b =
     do {
       flags \<leftarrow> le32_at b 0;
       pkt_id \<leftarrow> le32_at b 4;
       tid \<leftarrow> nth_opt b 8;
       channel \<leftarrow> nth_opt b 9;
       rates \<leftarrow> those (map (\<lambda>i. do { r \<leftarrow> le32_at b (12 + 5 * i); c \<leftarrow> nth_opt b (16 + 5 * i);
                                 Some \<lparr>ri_ratecode = r, ri_count = unat c\<rparr> }) [0..<4]);
       Some \<lparr>ts_flags = flags, ts_pkt_id = unat pkt_id, ts_tid = unat tid, ts_channel = unat channel, ts_rates = rates\<rparr>
     }"

text \<open>The records in the data of a frame, as many as fit.\<close>

primrec parse_tx_statuses :: "nat \<Rightarrow> u8 list \<Rightarrow> tx_status list option" where
  "parse_tx_statuses 0 b = Some []"
| "parse_tx_statuses (Suc n) b = do { t \<leftarrow> parse_tx_status b; ts \<leftarrow> parse_tx_statuses n (drop 32 b); Some (t # ts) }"

definition tx_statuses_of :: "u8 list \<Rightarrow> tx_status list option" where
  "tx_statuses_of b = parse_tx_statuses (length b div 32) b"

end
