(* ===== verification/Pageset.thy ===== *)
theory Pageset
  imports Pager Skb_Header
begin

text \<open>
  \<^verbatim>\<open>pageset.c\<close>: frames are sent in pages of chip memory and received from them. The set to the chip keeps free
  pages, two of them reserved for commands and beacons; the set from the chip returns every page it has
  read. The work item looks at the events in a fixed order.
\<close>

section \<open>State\<close>

definition CMD_RSVED_PAGES_MAX :: nat where "CMD_RSVED_PAGES_MAX = 2"
definition CMD_RSVED_CMD_PAGES_MAX :: nat where "CMD_RSVED_CMD_PAGES_MAX = 1"
definition CACHED_PAGES_MAX :: nat where "CACHED_PAGES_MAX = 32"
definition MAX_PAGES_PER_TX_TXN :: nat where "MAX_PAGES_PER_TX_TXN = 16"
definition MAX_PAGES_PER_RX_TXN :: nat where "MAX_PAGES_PER_RX_TXN = 32"
definition PAGE_RETURN_NOTIFY_INT :: nat where "PAGE_RETURN_NOTIFY_INT = 4"
definition BCN_LOSS_CHECK :: nat where "BCN_LOSS_CHECK = 500"
definition BCN_LOSS_THRESHOLD :: nat where "BCN_LOSS_THRESHOLD = 50"

record pageset_stats =
  excessive_bcn_loss :: nat
  bcn_no_page :: nat
  cmd_no_page :: nat
  cmd_rsv_page_retry :: nat
  no_page :: nat
  cmd_tx :: nat
  bcn_tx :: nat
  mgmt_tx :: nat
  data_tx :: nat
  write_fail :: nat
  page_owned_by_chip :: nat
  invalid_checksum :: nat
  invalid_tx_status_checksum :: nat

text \<open>
  The two page sets of \<open>struct morse_chip_if_state\<close>, with the driver's part of \<open>struct morse\<close> (in \<open>drv\<close>, whose
  queues are those of the set to the chip) and the pagers and the chip (in \<open>dev\<close>). \<open>sent_pages\<close> records, in
  order, the pages that were put to the chip with a frame; \<open>rx_ptr\<close> is the address of the next frame that is
  allocated.
\<close>

record 'e pagesets =
  drv :: driver
  dev :: 'e
  access_lock :: bool
  reserved_pages :: "page list"
  cached_pages :: "page list"
  rx_data_q :: morse_skbq
  rx_cmd_q :: morse_skbq
  byp_tx_sts :: bypass
  byp_cmd_resp :: bypass
  bcn_page_get :: nat
  bcn_page_fail :: nat
  stats :: pageset_stats
  net_work_queued :: bool
  txq_tasklet :: bool
  rx_ptr :: nat
  sent_pages :: "(u32 \<times> nat) list"

text \<open>
  The operations of the four pagers, and what else the code reads: the octets of a frame up to the end of its
  buffer, whether an allocation succeeds, and the interrupt register that asks for a beacon.
\<close>

record 'e env =
  tx_data :: "'e pager_ops"
  tx_return :: "'e pager_ops"
  rx_data :: "'e pager_ops"
  rx_return :: "'e pager_ops"
  buffer_of :: "sk_buff \<Rightarrow> u8 list"
  alloc_skb :: "nat \<Rightarrow> bool"
  beacon_irq :: "'e \<Rightarrow> bool"
  pager_base_address :: u32
  pager_page_size :: nat
  validate_skb_checksum :: bool

definition skbq_pageset_tc_q_from_aci :: "nat \<Rightarrow> qname option" where
  "skbq_pageset_tc_q_from_aci aci = (if 4 \<le> aci then None else Some (Data_q aci))"

definition tx_qs :: "qname list" where
  "tx_qs = map Data_q [0, 1, 2, 3]"

definition qlen :: "driver \<Rightarrow> qname \<Rightarrow> nat" where
  "qlen d q = length (skbq (queues d q))"

definition pend_len :: "driver \<Rightarrow> qname \<Rightarrow> nat" where
  "pend_len d q = length (pending (queues d q))"

definition morse_pagesets_get_tx_status_pending_count :: "driver \<Rightarrow> nat" where
  "morse_pagesets_get_tx_status_pending_count d =
     pend_len d Beacon_q + pend_len d Mgmt_q + pend_len d Cmd_q + sum_list (map (pend_len d) tx_qs)"

definition morse_pagesets_get_tx_buffered_count :: "driver \<Rightarrow> nat" where
  "morse_pagesets_get_tx_buffered_count d =
     qlen d Beacon_q + pend_len d Beacon_q + (qlen d Mgmt_q + pend_len d Mgmt_q) + (qlen d Cmd_q + pend_len d Cmd_q) +
     sum_list (map (\<lambda>q. morse_skbq_count_tx_ready (mors d) (queues d q) + pend_len d q) tx_qs)"

definition morse_pageset_ops :: chip_if_ops where
  "morse_pageset_ops =
     \<lparr>skbq_tc_q_from_aci = skbq_pageset_tc_q_from_aci, skbq_mgmt_tc_q = Some Mgmt_q, skbq_bcn_tc_q = Some Beacon_q,
      skbq_get_tx_qs = tx_qs, skbq_get_tx_buffered_count = morse_pagesets_get_tx_buffered_count\<rparr>"

section \<open>Free pages\<close>

definition morse_pageset_page_is_cached :: "'e pagesets \<Rightarrow> page \<Rightarrow> bool" where
  "morse_pageset_page_is_cached st p \<longleftrightarrow>
     list_ex (\<lambda>x. pg_addr x = pg_addr p) (reserved_pages st) \<or> list_ex (\<lambda>x. pg_addr x = pg_addr p) (cached_pages st)"

text \<open>The first loop; it returns the pages popped and whether the pager had no more. It need not end.\<close>

partial_function (option) fill_reserved :: "'e pager_ops \<Rightarrow> 'e pagesets \<Rightarrow> nat \<Rightarrow> ('e pagesets \<times> nat \<times> bool) option" where
  "fill_reserved ops st popped =
     (if length (reserved_pages st) < CMD_RSVED_PAGES_MAX
      then do {
        (e, r) \<leftarrow> op_pop ops (dev st);
        (case r of
           Inl _ \<Rightarrow> Some (st\<lparr>dev := e\<rparr>, popped, True)
         | Inr p \<Rightarrow>
             fill_reserved ops
               (if morse_pageset_page_is_cached st p then st\<lparr>dev := e\<rparr>
                else st\<lparr>dev := e, reserved_pages := fst (kfifo_put CMD_RSVED_PAGES_MAX p (reserved_pages st))\<rparr>)
               (popped + 1))
      }
      else Some (st, popped, False))"

text \<open>The second loop, which pops at most \<open>n\<close> pages more.\<close>

primrec fill_cached :: "'e pager_ops \<Rightarrow> nat \<Rightarrow> 'e pagesets \<Rightarrow> nat \<Rightarrow> ('e pagesets \<times> nat) option" where
  "fill_cached ops 0 st popped = Some (st, popped)"
| "fill_cached ops (Suc n) st popped =
     do {
       (e, r) \<leftarrow> op_pop ops (dev st);
       (case r of
          Inl _ \<Rightarrow> Some (st\<lparr>dev := e\<rparr>, popped)
        | Inr p \<Rightarrow>
            fill_cached ops n
              (if morse_pageset_page_is_cached st p then st\<lparr>dev := e\<rparr>
               else st\<lparr>dev := e, cached_pages := fst (kfifo_put CACHED_PAGES_MAX p (cached_pages st))\<rparr>)
              (popped + 1))
     }"

definition return_handler_no_lock :: "'e env \<Rightarrow> 'e pagesets \<Rightarrow> 'e pagesets option" where
  "return_handler_no_lock env st =
     do {
       (st, popped, empty) \<leftarrow> fill_reserved (tx_return env) st 0;
       (st, popped) \<leftarrow> (if empty then Some (st, popped) else fill_cached (tx_return env) (2 * CACHED_PAGES_MAX - popped) st popped);
       Some (if popped \<noteq> 0 then st\<lparr>dev := op_notify (tx_return env) (dev st)\<rparr> else st)
     }"

definition morse_pageset_to_chip_return_handler :: "'e env \<Rightarrow> bool \<Rightarrow> 'e pagesets \<Rightarrow> 'e pagesets option" where
  "morse_pageset_to_chip_return_handler env have_lock st =
     (if \<not> have_lock \<and> access_lock st then Some st
      else if have_lock then return_handler_no_lock env st
      else map_option (\<lambda>st. st\<lparr>access_lock := False\<rparr>) (return_handler_no_lock env (st\<lparr>access_lock := True\<rparr>)))"

definition upd_stats :: "(pageset_stats \<Rightarrow> pageset_stats) \<Rightarrow> 'e pagesets \<Rightarrow> 'e pagesets" where
  "upd_stats f st = st\<lparr>stats := f (stats st)\<rparr>"

definition morse_pageset_bcn_loss_monitor :: "'e pagesets \<Rightarrow> 'e pagesets" where
  "morse_pageset_bcn_loss_monitor st =
     (if BCN_LOSS_THRESHOLD < bcn_page_fail st
      then upd_stats (\<lambda>s. s\<lparr>excessive_bcn_loss := excessive_bcn_loss s + 1\<rparr>) st else st)
     \<lparr>bcn_page_get := 0, bcn_page_fail := 0\<rparr>"

definition morse_pageset_rsved_page_is_avail :: "'e env \<Rightarrow> nat \<Rightarrow> bool \<Rightarrow> 'e pagesets \<Rightarrow> ('e pagesets \<times> bool) option" where
  "morse_pageset_rsved_page_is_avail env channel have_lock st =
     (if channel = CHAN_BEACON then
        (let st = st\<lparr>bcn_page_get := bcn_page_get st + 1\<rparr>;
             st = (if bcn_page_get st = BCN_LOSS_CHECK then morse_pageset_bcn_loss_monitor st else st)
         in if length (reserved_pages st) \<le> 1
            then Some (upd_stats (\<lambda>s. s\<lparr>bcn_no_page := bcn_no_page s + 1\<rparr>) (st\<lparr>bcn_page_fail := bcn_page_fail st + 1\<rparr>), False)
            else Some (st, True))
      else if channel = CHAN_COMMAND then do {
        st \<leftarrow> (if reserved_pages st \<noteq> [] then Some st
               else do {
                 st \<leftarrow> morse_pageset_to_chip_return_handler env have_lock st;
                 Some (if reserved_pages st = [] then upd_stats (\<lambda>s. s\<lparr>cmd_no_page := cmd_no_page s + 1\<rparr>) st
                       else upd_stats (\<lambda>s. s\<lparr>cmd_rsv_page_retry := cmd_rsv_page_retry s + 1\<rparr>) st)
               });
        Some (st, reserved_pages st \<noteq> [])
      }
      else Some (st, False))"

section \<open>One frame to the chip\<close>

definition pad_len :: "nat \<Rightarrow> nat" where
  "pad_len n = (if n mod 4 \<noteq> 0 then 4 - n mod 4 else 0)"

text \<open>A page for the frame: from the reserved ones or the cached ones; the flag says which.\<close>

definition take_page :: "bool \<Rightarrow> 'e pagesets \<Rightarrow> 'e pagesets \<times> page option" where
  "take_page from_rsvd st =
     (case (if from_rsvd then reserved_pages st else cached_pages st) of
        [] \<Rightarrow> (st, None)
      | p # ps \<Rightarrow> (if from_rsvd then st\<lparr>reserved_pages := ps\<rparr> else st\<lparr>cached_pages := ps\<rparr>, Some p))"

definition give_page_back :: "bool \<Rightarrow> page \<Rightarrow> 'e pagesets \<Rightarrow> 'e pagesets" where
  "give_page_back from_rsvd p st =
     (if from_rsvd then st\<lparr>reserved_pages := fst (kfifo_put CMD_RSVED_PAGES_MAX p (reserved_pages st))\<rparr>
      else st\<lparr>cached_pages := fst (kfifo_put CACHED_PAGES_MAX p (cached_pages st))\<rparr>)"

text \<open>The frame is written to the page, and the page put to the chip; when that fails, an invalid header is.\<close>

definition send_page :: "'e env \<Rightarrow> bool \<Rightarrow> page \<Rightarrow> sk_buff \<Rightarrow> nat \<Rightarrow> 'e pagesets \<Rightarrow> ('e pagesets \<times> int) option" where
  "send_page env from_rsvd p s write_len st =
     (case op_write_page (tx_data env) p (take write_len (buffer_of env s)) (dev st) of
        (e, r) \<Rightarrow>
          (let st = st\<lparr>dev := e\<rparr>
           in if r \<noteq> 0 then Some (give_page_back from_rsvd p st, r)
              else do {
                (e, r) \<leftarrow> op_put (tx_data env) p (dev st);
                (let st = st\<lparr>dev := e\<rparr>
                 in if r \<noteq> 0 then do {
                      (let e = fst (op_write_page (tx_data env) p ((take SKB_HEADER_SIZE (buffer_of env s))[0 := 0]) (dev st))
                       in do {
                         (e, _) \<leftarrow> op_put (tx_data env) p e;
                         Some (st\<lparr>dev := e\<rparr>, r)
                       })
                    }
                    else Some (st\<lparr>sent_pages := sent_pages st @ [(pg_addr p, sk_ptr s)]\<rparr>, 0))
              }))"

text \<open>A page that was taken is not given back when the frame is too long for it or for its own buffer.\<close>

definition morse_pageset_write :: "'e env \<Rightarrow> sk_buff \<Rightarrow> 'e pagesets \<Rightarrow> ('e pagesets \<times> int) option" where
  "morse_pageset_write env s st =
     (let write_len = sk_len s + pad_len (sk_len s)
      in if access_lock st then Some (st, -1)
         else do {
           (st, from_rsvd) \<leftarrow> morse_pageset_rsved_page_is_avail env (sk_chan s) True (st\<lparr>access_lock := True\<rparr>);
           (st, r) \<leftarrow> (case take_page from_rsvd st of
                        (st, None) \<Rightarrow> Some (st, - ENOSPC)
                      | (st, Some p) \<Rightarrow>
                          if pg_size p < write_len then Some (st, - ENOSPC)
                          else if length (buffer_of env s) < write_len then Some (st, - ENOSPC)
                          else send_page env from_rsvd p s write_len st);
           Some (st\<lparr>access_lock := False\<rparr>, r)
         })"

section \<open>One page from the chip\<close>

definition put_return :: "'e env \<Rightarrow> page \<Rightarrow> 'e pagesets \<Rightarrow> ('e pagesets \<times> int) option" where
  "put_return env p st =
     do { (e, r) \<leftarrow> op_put (rx_return env) p (dev st); Some (st\<lparr>dev := e\<rparr>, r) }"

definition on_drv :: "(morse \<Rightarrow> morse) \<Rightarrow> 'e pagesets \<Rightarrow> 'e pagesets" where
  "on_drv f st = st\<lparr>drv := on_mors f (drv st)\<rparr>"

text \<open>The next page: command responses and TX status reports that bypass the pager come first.\<close>

definition next_rx_page :: "'e env \<Rightarrow> 'e pagesets \<Rightarrow> ('e pagesets \<times> (int + page)) option" where
  "next_rx_page env st =
     (case to_process (byp_cmd_resp st) of
        a # as \<Rightarrow> Some (st\<lparr>byp_cmd_resp := (byp_cmd_resp st)\<lparr>to_process := as\<rparr>\<rparr>, Inr \<lparr>pg_addr = a, pg_size = pager_page_size env\<rparr>)
      | [] \<Rightarrow>
          (case to_process (byp_tx_sts st) of
             a # as \<Rightarrow> Some (st\<lparr>byp_tx_sts := (byp_tx_sts st)\<lparr>to_process := as\<rparr>\<rparr>, Inr \<lparr>pg_addr = a, pg_size = pager_page_size env\<rparr>)
           | [] \<Rightarrow> do { (e, r) \<leftarrow> op_pop (rx_data env) (dev st); Some (st\<lparr>dev := e\<rparr>, r) }))"

text \<open>The octets as they were read, and whether they are to be believed; a TX status is read again up to twice.\<close>

primrec checksum_rounds ::
    "'e env \<Rightarrow> page \<Rightarrow> nat \<Rightarrow> u8 list \<Rightarrow> 'e pagesets \<Rightarrow> ('e pagesets \<times> u8 list \<times> bool \<times> int) option" where
  "checksum_rounds env p 0 b st = Some (st, b, False, 0)"
| "checksum_rounds env p (Suc n) b st =
     do {
       (b', valid) \<leftarrow> morse_validate_skb_checksum b;
       h \<leftarrow> rx_header_of b';
       (if valid then Some (st, b', True, 0)
        else (let st = upd_stats (\<lambda>s. s\<lparr>invalid_checksum := invalid_checksum s + 1\<rparr>) st
              in if rh_channel h \<noteq> CHAN_TX_STATUS then Some (st, b', False, 0)
                 else (case op_read_page (rx_data env) p (length b) (dev st) of
                         (e, Inl r) \<Rightarrow> Some (st\<lparr>dev := e\<rparr>, b', False, r)
                       | (e, Inr b) \<Rightarrow> checksum_rounds env p n b (st\<lparr>dev := e\<rparr>))))
     }"

definition rx_skb :: "nat \<Rightarrow> rx_header \<Rightarrow> nat \<Rightarrow> tx_status list \<Rightarrow> sk_buff" where
  "rx_skb p h len ts =
     \<lparr>sk_ptr = p, sk_len = len, sk_chan = rh_channel h, sk_offset = rh_offset h, sk_pkt_id = 0, sk_info_flags = 0, sk_fc = 0,
      sk_addr1 = 0, sk_data = 0, sk_vif = None, sk_eosp = False, sk_enqueue_time = 0, sk_status_expiry = 0, sk_statuses = ts\<rparr>"

datatype rx_queue = Rx_data | Rx_cmd

definition rx_queue_of :: "nat \<Rightarrow> rx_queue option" where
  "rx_queue_of c =
     (if c = CHAN_DATA \<or> c = CHAN_NDP_FRAMES \<or> c = CHAN_TX_STATUS \<or> c = CHAN_DATA_NOACK \<or> c = CHAN_BEACON \<or>
         c = CHAN_MGMT \<or> c = CHAN_LOOPBACK then Some Rx_data
      else if c = CHAN_COMMAND then Some Rx_cmd else None)"

definition rx_put :: "rx_queue \<Rightarrow> sk_buff \<Rightarrow> 'e pagesets \<Rightarrow> 'e pagesets \<times> bool" where
  "rx_put q s st =
     (case q of
        Rx_data \<Rightarrow> (case morse_skbq_put_tail s (rx_data_q st) of (mq, ok) \<Rightarrow> (st\<lparr>rx_data_q := mq, net_work_queued := True\<rparr>, ok))
      | Rx_cmd \<Rightarrow> (case morse_skbq_put_tail s (rx_cmd_q st) of (mq, ok) \<Rightarrow> (st\<lparr>rx_cmd_q := mq, net_work_queued := True\<rparr>, ok)))"

text \<open>An offset that cannot be is replaced by the padding of the length.\<close>

definition fix_offset :: "rx_header \<Rightarrow> rx_header" where
  "fix_offset h = (if 3 < rh_offset h then h\<lparr>rh_offset := pad_len (rh_len h)\<rparr> else h)"

text \<open>
  What is done with the octets of a page; the results are the page that is left to return (its address is
  0 when the chip owns it already) and the code. A frame that does not get into a queue is freed.
\<close>

definition rx_frame :: "'e env \<Rightarrow> page \<Rightarrow> u8 list \<Rightarrow> 'e pagesets \<Rightarrow> ('e pagesets \<times> page \<times> int) option" where
  "rx_frame env p b st =
     do {
       h \<leftarrow> rx_header_of b;
       if rh_sync h \<noteq> MORSE_SKB_HEADER_SYNC
       then (if rh_sync h = MORSE_SKB_HEADER_CHIP_OWNED_SYNC
             then Some (upd_stats (\<lambda>s. s\<lparr>page_owned_by_chip := page_owned_by_chip s + 1\<rparr>) st, p\<lparr>pg_addr := 0\<rparr>, 0)
             else Some (st, p, 0))
       else do {
         (st, b, valid, r) \<leftarrow> (if validate_skb_checksum env then checksum_rounds env p 2 b st else Some (st, b, True, 0));
         h \<leftarrow> map_option fix_offset (rx_header_of b);
         if \<not> valid
         then Some (if rh_channel h = CHAN_TX_STATUS
                    then upd_stats (\<lambda>s. s\<lparr>invalid_tx_status_checksum := invalid_tx_status_checksum s + 1\<rparr>) st else st, p, r)
         else (case rx_queue_of (rh_channel h) of
                 None \<Rightarrow> Some (st, p, 0)
               | Some q \<Rightarrow> do {
                   (let len = min (length b) (SKB_HEADER_SIZE + rh_offset h + rh_len h)
                    in do {
                      ts \<leftarrow> tx_statuses_of (drop (SKB_HEADER_SIZE + rh_offset h) (take len b));
                      (let s = rx_skb (rx_ptr st) h len ts
                       in case rx_put q s (st\<lparr>rx_ptr := rx_ptr st + 1\<rparr>) of
                            (st, ok) \<Rightarrow> Some (if ok then (st, p, 0) else (on_drv (consume (Kfree s)) st, p, - ENOMEM)))
                    })
                 })
       }
     }"

text \<open>The code of the last step is the one that is returned: that of the return of the page, when there is one.\<close>

definition morse_pageset_read :: "'e env \<Rightarrow> 'e pagesets \<Rightarrow> ('e pagesets \<times> int) option" where
  "morse_pageset_read env st =
     do {
       (st, rp) \<leftarrow> next_rx_page env st;
       case rp of
         Inl r \<Rightarrow> Some (st, r)
       | Inr p \<Rightarrow> do {
           (let skb_len = (unat (drop_bit 20 (pg_addr p)) + 3) div 4 * 4;
                p = p\<lparr>pg_addr := (pg_addr p AND 0xFFFFF) OR pager_base_address env\<rparr>
            in do {
              (st, p, r) \<leftarrow> (if \<not> alloc_skb env skb_len then Some (st, p, - ENOMEM)
                            else case op_read_page (rx_data env) p skb_len (dev st) of
                                   (e, Inl r) \<Rightarrow> Some (st\<lparr>dev := e\<rparr>, p, r)
                                 | (e, Inr b) \<Rightarrow> rx_frame env p b (st\<lparr>dev := e\<rparr>));
              if pg_addr p \<noteq> 0 then put_return env p st else Some (st, r)
            })
         }
     }"

section \<open>Sending a queue\<close>

definition on_q :: "qname \<Rightarrow> (morse \<times> morse_skbq \<Rightarrow> morse \<times> morse_skbq) \<Rightarrow> 'e pagesets \<Rightarrow> 'e pagesets" where
  "on_q q f st =
     (let d = drv st
      in case f (mors d, queues d q) of (m, mq) \<Rightarrow> st\<lparr>drv := d\<lparr>mors := m, queues := (queues d)(q := mq)\<rparr>\<rparr>)"

definition morse_pageset_num_pages :: "'e env \<Rightarrow> nat \<Rightarrow> 'e pagesets \<Rightarrow> ('e pagesets \<times> nat) option" where
  "morse_pageset_num_pages env channel st =
     (if channel = CHAN_COMMAND
      then Some (st, min CMD_RSVED_CMD_PAGES_MAX (length (reserved_pages st) + length (cached_pages st)))
      else do {
        (st, avail) \<leftarrow> morse_pageset_rsved_page_is_avail env channel False st;
        Some (st, min MAX_PAGES_PER_TX_TXN ((if avail then CMD_RSVED_PAGES_MAX - CMD_RSVED_CMD_PAGES_MAX else 0) + length (cached_pages st)))
      })"

definition count_tx :: "nat \<Rightarrow> pageset_stats \<Rightarrow> pageset_stats" where
  "count_tx channel s =
     (if channel = CHAN_COMMAND then s\<lparr>cmd_tx := cmd_tx s + 1\<rparr>
      else if channel = CHAN_BEACON then s\<lparr>bcn_tx := bcn_tx s + 1\<rparr>
      else if channel = CHAN_MGMT then s\<lparr>mgmt_tx := mgmt_tx s + 1\<rparr>
      else s\<lparr>data_tx := data_tx s + 1\<rparr>)"

text \<open>The loop over the frames: the pages left, the frames sent and those that failed.\<close>

primrec tx_walk ::
    "'e env \<Rightarrow> sk_buff list \<Rightarrow> nat \<Rightarrow> 'e pagesets \<Rightarrow> ('e pagesets \<times> sk_buff list \<times> sk_buff list) option" where
  "tx_walk env [] n st = Some (st, [], [])"
| "tx_walk env (s # xs) n st =
     do {
       (st, r) \<leftarrow> (if n \<noteq> 0 then morse_pageset_write env s st
                  else Some (upd_stats (\<lambda>x. x\<lparr>no_page := no_page x + 1\<rparr>) st, - ENOSPC));
       if r = 0 then do {
         (st, sent, failed) \<leftarrow> tx_walk env xs (n - 1) (upd_stats (count_tx (sk_chan s)) st);
         Some (st, s # sent, failed)
       } else do {
         (st, sent, failed) \<leftarrow> tx_walk env xs n st;
         Some (st, sent, s # failed)
       }
     }"

definition tx_purge :: "qname \<Rightarrow> 'e pagesets \<Rightarrow> 'e pagesets" where
  "tx_purge q st =
     (if q = Cmd_q then on_q q (\<lambda>x. fst (morse_skbq_purge_pending x)) st
      else if q = Mgmt_q then on_q q morse_skbq_purge_aged st else st)"

definition tx_finish :: "'e env \<Rightarrow> qname \<Rightarrow> sk_buff list \<Rightarrow> sk_buff list \<Rightarrow> 'e pagesets \<Rightarrow> 'e pagesets" where
  "tx_finish env q sent failed st =
     (let st = (if failed = [] then st
                else on_drv (\<lambda>m. fst (morse_skbq_purge failed m)) (upd_stats (\<lambda>s. s\<lparr>write_fail := write_fail s + length failed\<rparr>) st))
      in if sent = [] then st
         else (let st = on_q q (morse_skbq_tx_complete sent) st in st\<lparr>dev := op_notify (tx_data env) (dev st)\<rparr>))"

definition morse_pageset_tx :: "'e env \<Rightarrow> qname \<Rightarrow> 'e pagesets \<Rightarrow> 'e pagesets option" where
  "morse_pageset_tx env q st =
     (case skbq (queues (drv st) q) of
        [] \<Rightarrow> Some st
      | s # _ \<Rightarrow> do {
          (st, n) \<leftarrow> morse_pageset_num_pages env (sk_chan s) st;
          (let st = tx_purge q st;
               (mq, xs) = (if 0 < n then morse_skbq_deq_num_items n (queues (drv st) q) else (queues (drv st) q, []));
               st = st\<lparr>drv := (drv st)\<lparr>queues := (queues (drv st))(q := mq)\<rparr>\<rparr>
           in do {
             (st, sent, failed) \<leftarrow> tx_walk env xs n st;
             Some (tx_finish env q sent failed st)
           })
        })"

section \<open>The handlers of the work item\<close>

text \<open>The result is whether there is more to do.\<close>

definition tx_handler :: "'e env \<Rightarrow> qname \<Rightarrow> 'e pagesets \<Rightarrow> ('e pagesets \<times> bool) option" where
  "tx_handler env q st =
     do { st \<leftarrow> morse_pageset_tx env q st; Some (st, 0 < morse_skbq_count (queues (drv st) q)) }"

primrec tx_data_walk :: "'e env \<Rightarrow> nat list \<Rightarrow> 'e pagesets \<Rightarrow> nat \<Rightarrow> ('e pagesets \<times> nat) option" where
  "tx_data_walk env [] st n = Some (st, n)"
| "tx_data_walk env (aci # acis) st n =
     (if \<not> morse_is_data_tx_allowed (mors (drv st)) then Some (st, n)
      else do {
        st \<leftarrow> morse_pageset_tx env (Data_q aci) st;
        tx_data_walk env acis st (n + morse_skbq_count (queues (drv st) (Data_q aci)))
      })"

definition morse_pageset_tx_data_handler :: "'e env \<Rightarrow> 'e pagesets \<Rightarrow> ('e pagesets \<times> bool) option" where
  "morse_pageset_tx_data_handler env st =
     do {
       (st, n) \<leftarrow> tx_data_walk env [3, 2, 1, 0] st 0;
       (let st = on_drv (morse_skbq_may_wake_tx_queues (map (queues (drv st)) tx_qs)) st;
            m = mors (drv st);
            st = (if airtime_fairness m \<and> DATA_QS_STOPPED \<notin> state_flags m then st\<lparr>txq_tasklet := True\<rparr> else st)
        in Some (st, 0 < n \<and> morse_is_data_tx_allowed (mors (drv st))))
     }"

text \<open>
  The loop of the receive handler, with \<open>k\<close> pages read and \<open>fuel\<close> more to read at most. The results are
  the last code, the pages read, whether a notification is due and whether a beacon was asked for.
\<close>

primrec rx_loop :: "'e env \<Rightarrow> bool \<Rightarrow> nat \<Rightarrow> nat \<Rightarrow> 'e pagesets \<Rightarrow> ('e pagesets \<times> int \<times> nat \<times> bool \<times> bool) option" where
  "rx_loop env check 0 k st = Some (st, 0, k, False, False)"
| "rx_loop env check (Suc fuel) k st =
     do {
       (st, r) \<leftarrow> morse_pageset_read env st;
       (let k = k + 1;
            due = (k mod PAGE_RETURN_NOTIFY_INT \<noteq> 0);
            st = (if due then st else st\<lparr>dev := op_notify (rx_return env) (dev st)\<rparr>)
        in if \<not> due \<and> check \<and> beacon_irq env (dev st) then Some (st, r, k, due, True)
           else if k < MAX_PAGES_PER_RX_TXN \<and> r = 0 then rx_loop env check fuel k st
           else Some (st, r, k, due, False))
     }"

definition morse_pageset_rx_handler :: "'e env \<Rightarrow> bool \<Rightarrow> 'e pagesets \<Rightarrow> ('e pagesets \<times> bool \<times> bool) option" where
  "morse_pageset_rx_handler env check st =
     do {
       (st, r, k, due, beacon) \<leftarrow> rx_loop env check MAX_PAGES_PER_RX_TXN 0 st;
       (let st = (if due then st\<lparr>dev := op_notify (rx_return env) (dev st)\<rparr> else st);
            st = st\<lparr>dev := op_notify (rx_data env) (dev st)\<rparr>
        in Some (st, r = - ENOMEM \<or> k = MAX_PAGES_PER_RX_TXN \<or> beacon, beacon))
     }"

definition ps_evaluate :: "bool \<Rightarrow> 'e pagesets \<Rightarrow> 'e pagesets" where
  "ps_evaluate flushed st =
     (if flushed then st\<lparr>drv := eval_ps morse_pageset_ops (drv st)\<rparr> else st)"

definition stale_queue :: "qname \<Rightarrow> 'e pagesets \<times> nat \<Rightarrow> 'e pagesets \<times> nat" where
  "stale_queue q sn =
     (case morse_skbq_check_for_stale_tx (mors (drv (fst sn)), queues (drv (fst sn)) q) of
        (_, n) \<Rightarrow> (on_q q (\<lambda>x. fst (morse_skbq_check_for_stale_tx x)) (fst sn), snd sn + n))"

definition morse_pagesets_stale_tx_work :: "'e pagesets \<Rightarrow> 'e pagesets" where
  "morse_pagesets_stale_tx_work st =
     (if \<not> stale_status_enabled (mors (drv st)) then st
      else (case fold stale_queue ([Beacon_q, Mgmt_q] @ tx_qs) (st, 0) of (st, n) \<Rightarrow> ps_evaluate (n \<noteq> 0) st))"

section \<open>The work item\<close>

definition event :: "chip_event \<Rightarrow> 'e pagesets \<Rightarrow> bool" where
  "event v st \<longleftrightarrow> v \<in> event_flags (mors (drv st))"

definition set_event :: "chip_event \<Rightarrow> 'e pagesets \<Rightarrow> 'e pagesets" where
  "set_event v = on_drv (\<lambda>m. m\<lparr>event_flags := insert v (event_flags m)\<rparr>)"

definition clear_event :: "chip_event \<Rightarrow> 'e pagesets \<Rightarrow> 'e pagesets" where
  "clear_event v = on_drv (\<lambda>m. m\<lparr>event_flags := event_flags m - {v}\<rparr>)"

text \<open>\<open>test_and_clear_bit\<close>, the handler, and the event again when the handler has more to do.\<close>

definition on_event ::
    "chip_event \<Rightarrow> ('e pagesets \<Rightarrow> ('e pagesets \<times> bool) option) \<Rightarrow> 'e pagesets \<Rightarrow> 'e pagesets option" where
  "on_event v f st =
     (if event v st then do {
        (st, more) \<leftarrow> f (clear_event v st);
        Some (if more then set_event v st else st)
      } else Some st)"

text \<open>The first look at the receive pages: it may stop for a beacon, for which it then waits (\<open>wait\<close>).\<close>

definition work_rx :: "'e env \<Rightarrow> ('e pagesets \<Rightarrow> 'e pagesets) \<Rightarrow> bool \<Rightarrow> 'e pagesets \<Rightarrow> ('e pagesets \<times> bool) option" where
  "work_rx env wait ap st =
     (if event RX_PEND st then do {
        (st, more, beacon) \<leftarrow> morse_pageset_rx_handler env ap (clear_event RX_PEND st);
        (let st = (if more then set_event RX_PEND st else st)
         in Some (if beacon then wait st else st, beacon))
      } else Some (st, False))"

text \<open>The second look: the event is cleared whether or not there was a beacon.\<close>

definition work_rx_again :: "'e env \<Rightarrow> bool \<Rightarrow> 'e pagesets \<Rightarrow> 'e pagesets option" where
  "work_rx_again env beacon st =
     (if event RX_PEND st then
        (let st = clear_event RX_PEND st
         in if beacon then do {
              (st, more, _) \<leftarrow> morse_pageset_rx_handler env False st;
              Some (if more then set_event RX_PEND st else st)
            } else Some st)
      else Some st)"

definition work_traffic :: "'e pagesets \<Rightarrow> 'e pagesets" where
  "work_traffic st =
     (let st = (if event DATA_TRAFFIC_PAUSE_PEND st then
                  (let st = clear_event DATA_TRAFFIC_PAUSE_PEND st
                   in if event DATA_TRAFFIC_RESUME_PEND st then clear_event DATA_TRAFFIC_RESUME_PEND st
                      else on_drv morse_skbq_data_traffic_pause st)
                else st)
      in if event DATA_TRAFFIC_RESUME_PEND st
         then on_drv morse_skbq_data_traffic_resume (clear_event DATA_TRAFFIC_RESUME_PEND st) else st)"

text \<open>
  \<open>morse_pagesets_work\<close>, without the bus and power-save calls. \<open>ap\<close>: there is an AP interface. The work is
  queued again when receive pages are left.
\<close>

definition morse_pagesets_work :: "'e env \<Rightarrow> ('e pagesets \<Rightarrow> 'e pagesets) \<Rightarrow> bool \<Rightarrow> 'e pagesets \<Rightarrow> 'e pagesets option" where
  "morse_pagesets_work env wait ap st =
     (if event_flags (mors (drv st)) = {} \<or> CHIP_UNRESPONSIVE \<in> state_flags (mors (drv st)) then Some st
      else do {
        st \<leftarrow> on_event TX_BEACON_PEND (tx_handler env Beacon_q) st;
        (st, beacon) \<leftarrow> work_rx env wait ap st;
        st \<leftarrow> on_event PAGE_RETURN_PEND
               (\<lambda>st. map_option (\<lambda>st. (st, False)) (morse_pageset_to_chip_return_handler env False st)) st;
        st \<leftarrow> on_event TX_COMMAND_PEND (tx_handler env Cmd_q) st;
        st \<leftarrow> on_event TX_BEACON_PEND (tx_handler env Beacon_q) st;
        st \<leftarrow> work_rx_again env beacon st;
        st \<leftarrow> on_event TX_MGMT_PEND (tx_handler env Mgmt_q) st;
        (let st = work_traffic st
         in do {
           st \<leftarrow> on_event TX_DATA_PEND (morse_pageset_tx_data_handler env) st;
           (let st = clear_event UPDATE_HW_CLOCK_REFERENCE st
            in Some (if event RX_PEND st then on_drv (\<lambda>m. m\<lparr>chip_work_queued := True\<rparr>) st else st))
         })
      })"

section \<open>Setting up and taking down\<close>

definition no_stats :: pageset_stats where
  "no_stats = \<lparr>excessive_bcn_loss = 0, bcn_no_page = 0, cmd_no_page = 0, cmd_rsv_page_retry = 0, no_page = 0, cmd_tx = 0,
     bcn_tx = 0, mgmt_tx = 0, data_tx = 0, write_fail = 0, page_owned_by_chip = 0, invalid_checksum = 0,
     invalid_tx_status_checksum = 0\<rparr>"

text \<open>Both page sets carry data and commands.\<close>

definition morse_pageset_init :: "morse \<Rightarrow> vif option \<Rightarrow> 'e \<Rightarrow> bypass \<Rightarrow> bypass \<Rightarrow> 'e pagesets" where
  "morse_pageset_init m v e tx_sts cmd_resp =
     \<lparr>drv = \<lparr>mors = m, fm_sta_vif = v,
             queues = (\<lambda>q. if q = Cmd_q then morse_skbq_init True False False else morse_skbq_init False True False)\<rparr>,
      dev = e, access_lock = False, reserved_pages = [], cached_pages = [],
      rx_data_q = morse_skbq_init False True True, rx_cmd_q = morse_skbq_init True False True,
      byp_tx_sts = tx_sts\<lparr>to_process := []\<rparr>, byp_cmd_resp = cmd_resp\<lparr>to_process := []\<rparr>,
      bcn_page_get = 0, bcn_page_fail = 0, stats = no_stats, net_work_queued = False, txq_tasklet = False,
      rx_ptr = 0, sent_pages = []\<rparr>"

definition all_qs :: "qname list" where
  "all_qs = [Beacon_q, Mgmt_q] @ tx_qs @ [Cmd_q]"

definition morse_pageset_finish :: "'e pagesets \<Rightarrow> 'e pagesets" where
  "morse_pageset_finish st = fold (\<lambda>q. on_q q morse_skbq_finish) all_qs st"

definition morse_pageset_flush_tx_data :: "'e pagesets \<Rightarrow> 'e pagesets" where
  "morse_pageset_flush_tx_data st = fold (\<lambda>q. on_q q (\<lambda>x. fst (morse_skbq_tx_flush x))) ([Beacon_q, Mgmt_q] @ tx_qs) st"

end
