(* ===== verification/Pageset_Frames.thy ===== *)
theory Pageset_Frames
  imports Pageset Skbq_User "HOL-Library.Sublist"
begin

text \<open>
  Lemmas on the page sets: what keeps the caches of free pages in order, that a page is left for commands, and
  where the frames of a queue are when it has been sent.
\<close>


section \<open>The caches of free pages\<close>

text \<open>No page is in the caches twice, and they are not longer than they can be.\<close>

definition pages_ok :: "'e pagesets \<Rightarrow> bool" where
  "pages_ok st \<longleftrightarrow> length (reserved_pages st) \<le> CMD_RSVED_PAGES_MAX \<and> length (cached_pages st) \<le> CACHED_PAGES_MAX \<and>
     distinct (map pg_addr (reserved_pages st @ cached_pages st))"

lemma not_cached: "\<not> morse_pageset_page_is_cached st p \<longleftrightarrow> pg_addr p \<notin> pg_addr ` set (reserved_pages st @ cached_pages st)"
  by (auto simp: morse_pageset_page_is_cached_def list_ex_iff image_iff) (metis UnI1 UnI2)+

lemma pages_ok_cong:
  "reserved_pages st' = reserved_pages st \<Longrightarrow> cached_pages st' = cached_pages st \<Longrightarrow> pages_ok st' = pages_ok st"
  by (simp add: pages_ok_def)

lemma add_reserved: "pages_ok st \<Longrightarrow> \<not> morse_pageset_page_is_cached st p \<Longrightarrow>
    pages_ok (st\<lparr>dev := e, reserved_pages := fst (kfifo_put CMD_RSVED_PAGES_MAX p (reserved_pages st))\<rparr>)"
  unfolding not_cached by (auto simp: pages_ok_def kfifo_put_def)

lemma add_cached: "pages_ok st \<Longrightarrow> \<not> morse_pageset_page_is_cached st p \<Longrightarrow>
    pages_ok (st\<lparr>dev := e, cached_pages := fst (kfifo_put CACHED_PAGES_MAX p (cached_pages st))\<rparr>)"
  unfolding not_cached by (auto simp: pages_ok_def kfifo_put_def)

lemma pages_ok_dev [simp]: "pages_ok (st\<lparr>dev := e\<rparr>) = pages_ok st"
  by (rule pages_ok_cong) simp_all

text \<open>The first loop keeps every property that adding a new page to the reserved ones keeps.\<close>

lemma fill_reserved_keeps:
  assumes "fill_reserved ops st n = Some r" "P st"
    and d: "\<And>st e. P st \<Longrightarrow> P (st\<lparr>dev := e\<rparr>)"
    and a: "\<And>st e p. P st \<Longrightarrow> \<not> morse_pageset_page_is_cached st p \<Longrightarrow>
      P (st\<lparr>dev := e, reserved_pages := fst (kfifo_put CMD_RSVED_PAGES_MAX p (reserved_pages st))\<rparr>)"
  shows "P (fst r)"
  using assms(1,2)
proof (induction rule: fill_reserved.raw_induct [rotated, consumes 1, case_names step])
  case (step f ops st n r)
  show ?case
  proof (cases "length (reserved_pages st) < CMD_RSVED_PAGES_MAX")
    case True
    with step(2) obtain e x where p: "op_pop ops (dev st) = Some (e, x)" by (auto simp: bind_eq_Some_conv)
    show ?thesis
    proof (cases x)
      case (Inl y)
      then show ?thesis using step(2,3) True p d by auto
    next
      case (Inr y)
      then have "f ops (if morse_pageset_page_is_cached st y then st\<lparr>dev := e\<rparr>
                else st\<lparr>dev := e, reserved_pages := fst (kfifo_put CMD_RSVED_PAGES_MAX y (reserved_pages st))\<rparr>) (n + 1) = Some r"
        using step(2) True p by simp
      from step(1) [OF this] show ?thesis using step(3) d a by (cases "morse_pageset_page_is_cached st y") simp_all
    qed
  qed (use step in auto)
qed

lemma fill_cached_keeps:
  assumes "P st"
    and d: "\<And>st e. P st \<Longrightarrow> P (st\<lparr>dev := e\<rparr>)"
    and a: "\<And>st e p. P st \<Longrightarrow> \<not> morse_pageset_page_is_cached st p \<Longrightarrow>
      P (st\<lparr>dev := e, cached_pages := fst (kfifo_put CACHED_PAGES_MAX p (cached_pages st))\<rparr>)"
  shows "returns (\<lambda>r. P (fst r)) (fill_cached ops k st n)"
  using assms(1)
proof (induction k arbitrary: st n)
  case (Suc k)
  show ?case
    unfolding fill_cached.simps
    by (rule returns_any) (auto simp: Suc.prems d a intro!: Suc.IH split: sum.split)
qed simp

section \<open>Properties of the caches\<close>

text \<open>What leaves both caches alone keeps every property of them: all of the receiving side does.\<close>

definition same_caches :: "'e pagesets \<Rightarrow> 'e pagesets \<Rightarrow> bool" where
  "same_caches st st' \<longleftrightarrow> reserved_pages st' = reserved_pages st \<and> cached_pages st' = cached_pages st"

named_theorems caches

lemma caches_simps [simp, caches]:
  "reserved_pages (upd_stats f st) = reserved_pages st" "cached_pages (upd_stats f st) = cached_pages st"
  "reserved_pages (on_drv g st) = reserved_pages st" "cached_pages (on_drv g st) = cached_pages st"
  "reserved_pages (on_q q h st) = reserved_pages st" "cached_pages (on_q q h st) = cached_pages st"
  "reserved_pages (set_event v st) = reserved_pages st" "cached_pages (set_event v st) = cached_pages st"
  "reserved_pages (clear_event v st) = reserved_pages st" "cached_pages (clear_event v st) = cached_pages st"
  "reserved_pages (morse_pageset_bcn_loss_monitor st) = reserved_pages st"
  "cached_pages (morse_pageset_bcn_loss_monitor st) = cached_pages st"
  "reserved_pages (tx_purge q st) = reserved_pages st" "cached_pages (tx_purge q st) = cached_pages st"
  "reserved_pages (tx_finish env q xs ys st) = reserved_pages st" "cached_pages (tx_finish env q xs ys st) = cached_pages st"
  "reserved_pages (work_traffic st) = reserved_pages st" "cached_pages (work_traffic st) = cached_pages st"
  by (simp_all add: upd_stats_def on_drv_def on_q_def set_event_def clear_event_def morse_pageset_bcn_loss_monitor_def
      tx_purge_def tx_finish_def work_traffic_def Let_def split: prod.split)

locale cache_property =
  fixes P :: "'e pagesets \<Rightarrow> bool"
  assumes same: "reserved_pages st' = reserved_pages st \<Longrightarrow> cached_pages st' = cached_pages st \<Longrightarrow> P st \<Longrightarrow> P st'"
begin

lemma same_eq: "reserved_pages st' = reserved_pages st \<Longrightarrow> cached_pages st' = cached_pages st \<Longrightarrow> P st' = P st"
  using same by metis

lemma same_simps [simp]:
  "P (st\<lparr>dev := e\<rparr>) = P st" "P (st\<lparr>drv := d\<rparr>) = P st" "P (st\<lparr>byp_tx_sts := bt\<rparr>) = P st" "P (st\<lparr>byp_cmd_resp := bc\<rparr>) = P st"
  "P (st\<lparr>rx_data_q := rd\<rparr>) = P st" "P (st\<lparr>rx_cmd_q := rc\<rparr>) = P st" "P (st\<lparr>net_work_queued := nq\<rparr>) = P st"
  "P (st\<lparr>rx_ptr := rp\<rparr>) = P st" "P (st\<lparr>access_lock := al\<rparr>) = P st" "P (st\<lparr>sent_pages := sp\<rparr>) = P st"
  "P (st\<lparr>bcn_page_get := bg\<rparr>) = P st" "P (st\<lparr>bcn_page_fail := bf\<rparr>) = P st" "P (st\<lparr>txq_tasklet := tt\<rparr>) = P st"
  "P (upd_stats f st) = P st" "P (on_drv g st) = P st" "P (on_q q h st) = P st" "P (set_event v st) = P st" "P (clear_event v st) = P st"
  "P (morse_pageset_bcn_loss_monitor st) = P st" "P (tx_purge q st) = P st" "P (tx_finish env q xs ys st) = P st"
  "P (work_traffic st) = P st"
  by (rule same_eq; simp)+

lemma put_return_keeps: "P st \<Longrightarrow> fst_ok P (put_return env p st)"
  unfolding put_return_def by (rule returns_any) auto

lemma next_rx_page_keeps: "P st \<Longrightarrow> fst_ok P (next_rx_page env st)"
  unfolding next_rx_page_def by (auto intro!: returns_any split: list.split)

lemma checksum_rounds_keeps: "P st \<Longrightarrow> fst_ok P (checksum_rounds env p n b st)"
proof (induction n arbitrary: b st)
  case (Suc n)
  show ?case unfolding checksum_rounds.simps
    by (intro returns_any) (auto simp: Let_def Suc.prems intro!: returns_any Suc.IH split: sum.split prod.split)
qed simp

lemma rx_put_keeps [simp]: "P (fst (rx_put q s st)) = P st"
  by (simp add: rx_put_def split: rx_queue.splits prod.splits)

lemma rx_frame_keeps:
  assumes "P st"
  shows "fst_ok P (rx_frame env p b st)"
proof -
  have "fst_ok P (if validate_skb_checksum env then checksum_rounds env p 2 b st else Some (st, b, True, 0))"
    using assms checksum_rounds_keeps by auto
  note b = fst_ok_bind [OF this]
  show ?thesis unfolding rx_frame_def
    apply (rule returns_any, split if_split, intro conjI impI)
     apply (simp add: assms)
    apply (rule b, split prod.split, intro allI impI, split prod.split, intro allI impI, rule returns_any)
    by (split if_split, intro conjI impI) (simp, auto simp: Let_def case_prod_beta intro!: returns_any split: option.split)
qed

lemma read_keeps:
  assumes "P st"
  shows "fst_ok P (morse_pageset_read env st)"
proof -
  note n = fst_ok_bind [OF next_rx_page_keeps [OF assms]]
  show ?thesis unfolding morse_pageset_read_def Let_def
    by (rule n)
      (auto intro!: fst_ok_bind [where Q = P] rx_frame_keeps put_return_keeps split: sum.split prod.split)
qed

lemma rx_loop_keeps: "P st \<Longrightarrow> fst_ok P (rx_loop env ap fuel k st)"
proof (induction fuel arbitrary: k st)
  case (Suc fuel)
  show ?case unfolding rx_loop.simps Let_def
    by (rule fst_ok_bind [OF read_keeps [OF Suc.prems]]) (auto intro!: Suc.IH)
qed simp

lemma rx_handler_keeps: "P st \<Longrightarrow> fst_ok P (morse_pageset_rx_handler env ap st)"
  unfolding morse_pageset_rx_handler_def Let_def
  by (rule fst_ok_bind [OF rx_loop_keeps]) auto

end

text \<open>A property that new pages keep, and taking a page and giving it back, is kept by everything the work item does.\<close>

locale cache_invariant = cache_property +
  assumes new_reserved: "P st \<Longrightarrow> \<not> morse_pageset_page_is_cached st p \<Longrightarrow>
      P (st\<lparr>dev := e, reserved_pages := fst (kfifo_put CMD_RSVED_PAGES_MAX p (reserved_pages st))\<rparr>)"
    and new_cached: "P st \<Longrightarrow> \<not> morse_pageset_page_is_cached st p \<Longrightarrow>
      P (st\<lparr>dev := e, cached_pages := fst (kfifo_put CACHED_PAGES_MAX p (cached_pages st))\<rparr>)"
    and take: "P st \<Longrightarrow> P (fst (take_page b st))"
    and give_back: "P st \<Longrightarrow> take_page b st = (st', Some p) \<Longrightarrow> P (give_page_back b p (st'\<lparr>dev := e\<rparr>))"
begin

lemma return_handler_no_lock_keeps:
  assumes "P st"
  shows "returns P (return_handler_no_lock env st)"
proof -
  have r: "fst_ok P (fill_reserved ops st n)" if "P st" for ops st n
    unfolding returns_def by (intro allI impI) (erule fill_reserved_keeps [where P = P]; simp add: that new_reserved)
  have c: "fst_ok P (fill_cached ops k st n)" if "P st" for ops k st n
    by (rule fill_cached_keeps [where P = P]; simp add: that new_cached)
  show ?thesis unfolding return_handler_no_lock_def
    by (rule fst_ok_bind [OF r [OF assms]]) (auto intro!: fst_ok_bind [where Q = P] c)
qed

lemma return_handler_keeps: "P st \<Longrightarrow> returns P (morse_pageset_to_chip_return_handler env l st)"
  by (auto simp: morse_pageset_to_chip_return_handler_def return_handler_no_lock_keeps)

lemma rsved_page_keeps: "P st \<Longrightarrow> fst_ok P (morse_pageset_rsved_page_is_avail env chan l st)"
  unfolding morse_pageset_rsved_page_is_avail_def
  by (auto simp: Let_def intro!: returns_bind [OF return_handler_keeps])

lemma send_page_keeps:
  assumes "P st" "take_page b st = (st', Some p)"
  shows "fst_ok P (send_page env b p s n st')"
proof -
  have t: "P st'" "P (give_page_back b p (st'\<lparr>dev := e\<rparr>))" for e
    using take [OF assms(1), of b] give_back [OF assms] assms(2) by simp_all
  show ?thesis unfolding send_page_def
    by (auto simp: Let_def t intro!: returns_any split: prod.split)
qed

lemma write_keeps: "P st \<Longrightarrow> fst_ok P (morse_pageset_write env s st)"
proof -
  assume p: "P st"
  then have p1: "P (st\<lparr>access_lock := True\<rparr>)" by simp
  have c: "fst_ok P (case take_page b st of
                        (st, None) \<Rightarrow> Some (st, - ENOSPC)
                      | (st, Some p) \<Rightarrow>
                          if pg_size p < n then Some (st, - ENOSPC)
                          else if length (buffer_of env s) < n then Some (st, - ENOSPC)
                          else send_page env b p s n st)" if "P st" for b n st
    using take [OF that, of b] that send_page_keeps by (auto split: prod.split option.split)
  show ?thesis unfolding morse_pageset_write_def Let_def
    by (auto simp: p intro!: fst_ok_bind [OF rsved_page_keeps [OF p1]] fst_ok_bind [OF c])
qed

lemma num_pages_keeps: "P st \<Longrightarrow> fst_ok P (morse_pageset_num_pages env chan st)"
  unfolding morse_pageset_num_pages_def by (auto intro!: fst_ok_bind [OF rsved_page_keeps])

lemma tx_walk_keeps: "P st \<Longrightarrow> fst_ok P (tx_walk env xs n st)"
proof (induction xs arbitrary: n st)
  case (Cons s xs)
  have w: "fst_ok P (if n \<noteq> 0 then morse_pageset_write env s st
                  else Some (upd_stats (\<lambda>x. x\<lparr>no_page := no_page x + 1\<rparr>) st, - ENOSPC))"
    using Cons.prems write_keeps by simp
  show ?case unfolding tx_walk.simps
    by (rule fst_ok_bind [OF w]) (auto intro!: fst_ok_bind [OF Cons.IH])
qed simp

lemma tx_keeps: "P st \<Longrightarrow> returns P (morse_pageset_tx env q st)"
  unfolding morse_pageset_tx_def Let_def
  by (auto intro!: fst_ok_bind [OF num_pages_keeps] fst_ok_bind [OF tx_walk_keeps] split: list.split prod.split)

lemma tx_handler_keeps: "P st \<Longrightarrow> fst_ok P (tx_handler env q st)"
  unfolding tx_handler_def by (auto intro!: returns_bind [OF tx_keeps])

lemma tx_data_walk_keeps: "P st \<Longrightarrow> fst_ok P (tx_data_walk env acis st n)"
  by (induction acis arbitrary: st n) (auto intro!: returns_bind [OF tx_keeps])

lemma tx_data_handler_keeps: "P st \<Longrightarrow> fst_ok P (morse_pageset_tx_data_handler env st)"
  unfolding morse_pageset_tx_data_handler_def Let_def by (rule fst_ok_bind [OF tx_data_walk_keeps]) simp_all

lemma on_event_keeps: "(\<And>st. P st \<Longrightarrow> fst_ok P (f st)) \<Longrightarrow> P st \<Longrightarrow> returns P (on_event v f st)"
  unfolding on_event_def by (auto intro!: fst_ok_bind [where Q = P])

lemma work_rx_keeps: "(\<And>st. P st \<Longrightarrow> P (wait st)) \<Longrightarrow> P st \<Longrightarrow> fst_ok P (work_rx env wait ap st)"
  unfolding work_rx_def Let_def by (auto intro!: fst_ok_bind [OF rx_handler_keeps])

lemma work_rx_again_keeps: "P st \<Longrightarrow> returns P (work_rx_again env beacon st)"
  unfolding work_rx_again_def Let_def by (auto intro!: fst_ok_bind [OF rx_handler_keeps])

lemma work_keeps:
  assumes "\<And>st. P st \<Longrightarrow> P (wait st)" "P st"
  shows "returns P (morse_pagesets_work env wait ap st)"
proof -
  have e: "returns P (on_event v (tx_handler env q) st)" if "P st" for v q st
    by (rule on_event_keeps) (simp_all add: that tx_handler_keeps)
  have d: "returns P (on_event v (morse_pageset_tx_data_handler env) st)" if "P st" for v st
    by (rule on_event_keeps) (simp_all add: that tx_data_handler_keeps)
  have r: "returns P (on_event v (\<lambda>st. map_option (\<lambda>st. (st, b)) (morse_pageset_to_chip_return_handler env l st)) st)"
    if "P st" for v b l st
    by (rule on_event_keeps) (simp_all add: that return_handler_keeps)
  show ?thesis unfolding morse_pagesets_work_def Let_def
    by (auto simp: assms intro!: returns_bind [OF e] returns_bind [OF r] returns_bind [OF d]
        fst_ok_bind [OF work_rx_keeps] returns_bind [OF work_rx_again_keeps])
qed

end

lemma take_page_cases:
  "take_page b st = (st', Some p) \<Longrightarrow>
     (b \<and> reserved_pages st = p # reserved_pages st' \<and> cached_pages st' = cached_pages st) \<or>
     (\<not> b \<and> cached_pages st = p # cached_pages st' \<and> reserved_pages st' = reserved_pages st)"
  by (auto simp: take_page_def split: list.splits if_splits)

interpretation distinct_pages: cache_invariant "pages_ok :: 'e pagesets \<Rightarrow> bool"
proof
  fix st st' :: "'e pagesets" and b p e
  show "pages_ok (fst (take_page b st))" if "pages_ok st"
    using that by (auto simp: take_page_def pages_ok_def split: list.split) (metis IntI imageI empty_iff)+
  show "pages_ok (give_page_back b p (st'\<lparr>dev := e\<rparr>))" if "pages_ok st" "take_page b st = (st', Some p)"
    using take_page_cases [OF that(2)] that(1)
    by (auto simp: pages_ok_def give_page_back_def kfifo_put_def) (metis IntI imageI empty_iff)+
qed (erule (1) add_reserved | erule (1) add_cached | simp add: pages_ok_def)+


section \<open>A page is kept for commands\<close>

interpretation page_left: cache_property "\<lambda>st :: 'e pagesets. reserved_pages st \<noteq> []"
  by unfold_locales simp

lemma rsved_page_other:
  "chan \<noteq> CHAN_COMMAND \<Longrightarrow> \<exists>st' b. morse_pageset_rsved_page_is_avail env chan l st = Some (st', b) \<and>
     reserved_pages st' = reserved_pages st \<and> cached_pages st' = cached_pages st \<and> drv st' = drv st \<and>
     (b \<longrightarrow> 1 < length (reserved_pages st))"
  by (auto simp: morse_pageset_rsved_page_is_avail_def Let_def upd_stats_def morse_pageset_bcn_loss_monitor_def)

lemma give_page_back_left: "reserved_pages st \<noteq> [] \<Longrightarrow> reserved_pages (give_page_back b p (st\<lparr>dev := e\<rparr>)) \<noteq> []"
  by (simp add: give_page_back_def kfifo_put_def)

lemma send_page_left:
  "reserved_pages st \<noteq> [] \<Longrightarrow> fst_ok (\<lambda>st. reserved_pages st \<noteq> []) (send_page env b p s n st)"
  unfolding send_page_def
  by (auto simp: Let_def give_page_back_left intro!: returns_any split: prod.split)

lemma write_left:
  assumes "sk_chan s \<noteq> CHAN_COMMAND" "reserved_pages st \<noteq> []"
  shows "fst_ok (\<lambda>st. reserved_pages st \<noteq> []) (morse_pageset_write env s st)"
proof (cases "access_lock st")
  case True
  then show ?thesis using assms by (simp add: morse_pageset_write_def)
next
  case False
  obtain st1 b where r: "morse_pageset_rsved_page_is_avail env (sk_chan s) True (st\<lparr>access_lock := True\<rparr>) = Some (st1, b)"
    "reserved_pages st1 = reserved_pages st" "b \<longrightarrow> 1 < length (reserved_pages st)"
    using rsved_page_other [OF assms(1), of env True "st\<lparr>access_lock := True\<rparr>"] by auto
  have t: "reserved_pages (fst (take_page b st1)) \<noteq> []"
    using r(2,3) assms(2) by (auto simp: take_page_def split: list.split)
  have "fst_ok (\<lambda>st. reserved_pages st \<noteq> []) (case take_page b st1 of
                        (st, None) \<Rightarrow> Some (st, - ENOSPC)
                      | (st, Some p) \<Rightarrow>
                          if pg_size p < n then Some (st, - ENOSPC)
                          else if length (buffer_of env s) < n then Some (st, - ENOSPC)
                          else send_page env b p s n st)" for n
    using t send_page_left by (auto split: prod.split option.split)
  note c = fst_ok_bind [OF this]
  show ?thesis unfolding morse_pageset_write_def Let_def using False
    by (simp add: r(1)) (rule c, simp)
qed

lemma tx_walk_left:
  "\<forall>s \<in> set xs. sk_chan s \<noteq> CHAN_COMMAND \<Longrightarrow> reserved_pages st \<noteq> [] \<Longrightarrow>
    fst_ok (\<lambda>st. reserved_pages st \<noteq> []) (tx_walk env xs n st)"
proof (induction xs arbitrary: n st)
  case (Cons s xs)
  have w: "fst_ok (\<lambda>st. reserved_pages st \<noteq> []) (if n \<noteq> 0 then morse_pageset_write env s st
                  else Some (upd_stats (\<lambda>x. x\<lparr>no_page := no_page x + 1\<rparr>) st, - ENOSPC))"
    using Cons.prems by (cases "n = 0") (simp_all add: write_left)
  show ?case unfolding tx_walk.simps
    by (rule fst_ok_bind [OF w]) (use Cons.prems(1) in \<open>auto intro!: fst_ok_bind [OF Cons.IH]\<close>)
qed simp

lemma tx_purge_skbq:
  assumes "wf_q (queues (drv st) q)"
  shows "\<exists>k. skbq (queues (drv (tx_purge q st)) q) = drop k (skbq (queues (drv st) q))"
    "wf_q (queues (drv (tx_purge q st)) q)"
proof -
  let ?r = "aged_walk (skbq (queues (drv st) q)) (mors (drv st), queues (drv st) q)"
  have "skbq (snd (fst ?r)) = dropWhile (has_queued_tx_skb_expired (mors (drv st))) (skbq (queues (drv st) q))"
    using aged_walk_ok [of "(mors (drv st), queues (drv st) q)" "skbq (queues (drv st) q)"] assms by simp
  then show "\<exists>k. skbq (queues (drv (tx_purge q st)) q) = drop k (skbq (queues (drv st) q))"
    by (cases ?r) (auto simp: tx_purge_def on_q_def Let_def morse_skbq_purge_aged_def morse_skbq_purge_pending_def dropWhile_eq_drop
        intro: exI [of _ 0] split: prod.split)
  show "wf_q (queues (drv (tx_purge q st)) q)"
    using assms keeps_wf [OF purge_aged_ok [of "(mors (drv st), queues (drv st) q)"]]
      keeps_wf [OF purge_pending_ok [of "(mors (drv st), queues (drv st) q)"]]
    by (auto simp: tx_purge_def on_q_def Let_def split: prod.split)
qed


section \<open>Sending accounts for every frame\<close>

text \<open>What writing a frame does to the driver and to the record of the pages sent.\<close>

definition sent_from :: "'e pagesets \<Rightarrow> (u32 \<times> nat) list \<Rightarrow> 'e pagesets \<Rightarrow> bool" where
  "sent_from st ps st' \<longleftrightarrow> drv st' = drv st \<and> sent_pages st' = sent_pages st @ ps"

lemma sent_from_refl [simp]: "sent_from st [] st"
  by (simp add: sent_from_def)

lemma return_handler_no_lock_sent: "returns (sent_from st0 ps) (return_handler_no_lock env st)" if "sent_from st0 ps st"
proof -
  have r: "fst_ok (sent_from st0 ps) (fill_reserved ops st n)" if "sent_from st0 ps st" for ops st n
    unfolding returns_def
    by (intro allI impI) (erule fill_reserved_keeps [where P = "sent_from st0 ps"]; use that in \<open>simp add: sent_from_def\<close>)
  have c: "fst_ok (sent_from st0 ps) (fill_cached ops k st n)" if "sent_from st0 ps st" for ops k st n
    by (rule fill_cached_keeps [where P = "sent_from st0 ps"]; use that in \<open>simp add: sent_from_def\<close>)
  have d: "sent_from st0 ps (st\<lparr>dev := e\<rparr>) = sent_from st0 ps st" for st e by (simp add: sent_from_def)
  show ?thesis unfolding return_handler_no_lock_def
    by (rule fst_ok_bind [OF r [OF that]]) (auto simp: d intro!: fst_ok_bind [where Q = "sent_from st0 ps"] c)
qed

lemma return_handler_sent: "returns (sent_from st0 ps) (morse_pageset_to_chip_return_handler env l st)" if "sent_from st0 ps st"
proof -
  have a: "sent_from st0 ps (st\<lparr>access_lock := b\<rparr>) = sent_from st0 ps st" for st b by (simp add: sent_from_def)
  show ?thesis using that return_handler_no_lock_sent by (auto simp: morse_pageset_to_chip_return_handler_def a)
qed

lemma rsved_page_sent: "fst_ok (sent_from st0 ps) (morse_pageset_rsved_page_is_avail env chan l st)" if "sent_from st0 ps st"
proof -
  have u: "sent_from st0 ps (upd_stats f st) = sent_from st0 ps st"
    "sent_from st0 ps (morse_pageset_bcn_loss_monitor st) = sent_from st0 ps st"
    "sent_from st0 ps (st\<lparr>bcn_page_get := n\<rparr>) = sent_from st0 ps st" "sent_from st0 ps (st\<lparr>bcn_page_fail := n\<rparr>) = sent_from st0 ps st"
    for f st n by (simp_all add: sent_from_def upd_stats_def morse_pageset_bcn_loss_monitor_def)
  show ?thesis unfolding morse_pageset_rsved_page_is_avail_def Let_def
    using that by (auto simp: u intro!: returns_bind [OF return_handler_sent])
qed

lemma send_page_sent:
  assumes "sent_from st0 [] st" "send_page env b p s n st = Some (st', r)"
  shows "\<exists>ps. sent_from st0 ps st' \<and> map snd ps = (if r = 0 then [sk_ptr s] else [])"
proof -
  obtain e x where w: "op_write_page (tx_data env) p (take n (buffer_of env s)) (dev st) = (e, x)" by fastforce
  show ?thesis
  proof (cases "x = 0")
    case False
    then show ?thesis using assms w
      by (auto simp: send_page_def Let_def sent_from_def give_page_back_def intro: exI [of _ "[]"])
  next
    case True
    with assms(2) w obtain e2 y where u: "op_put (tx_data env) p e = Some (e2, y)"
      by (auto simp: send_page_def Let_def bind_eq_Some_conv)
    show ?thesis using assms w u True
      by (cases "y = 0") (auto simp: send_page_def Let_def sent_from_def bind_eq_Some_conv intro: exI [of _ "[]"])
  qed
qed

lemma take_page_sent: "sent_from st0 ps (fst (take_page b st)) = sent_from st0 ps st"
  by (simp add: take_page_def sent_from_def split: list.split)

lemma write_sent:
  assumes "morse_pageset_write env s st = Some (st', r)"
  shows "\<exists>ps. sent_from st ps st' \<and> map snd ps = (if r = 0 then [sk_ptr s] else [])"
proof (cases "access_lock st")
  case True
  then show ?thesis using assms by (auto simp: morse_pageset_write_def intro: exI [of _ "[]"])
next
  case False
  have "sent_from st [] (st\<lparr>access_lock := True\<rparr>)" by (simp add: sent_from_def)
  note v = rsved_page_sent [OF this]
  obtain st1 b where r: "morse_pageset_rsved_page_is_avail env (sk_chan s) True (st\<lparr>access_lock := True\<rparr>) = Some (st1, b)"
    using assms False by (auto simp: morse_pageset_write_def Let_def bind_eq_Some_conv)
  then have s1: "sent_from st [] st1" using v [of env "sk_chan s" True] by (auto simp: returns_def)
  obtain st2 po where t: "take_page b st1 = (st2, po)" by fastforce
  with s1 take_page_sent [of st "[]" b st1] have s2: "sent_from st [] st2" by simp
  have a: "sent_from st ps (st'\<lparr>access_lock := False\<rparr>) = sent_from st ps st'" for ps st' by (simp add: sent_from_def)
  show ?thesis
  proof (cases po)
    case None
    then show ?thesis using assms False s2
      by (auto simp: morse_pageset_write_def Let_def r t a ENOSPC_def intro: exI [of _ "[]"])
  next
    case (Some p)
    then show ?thesis using assms False s2
      by (auto simp: morse_pageset_write_def Let_def r t a bind_eq_Some_conv ENOSPC_def dest!: send_page_sent [OF s2]
          split: if_splits)
  qed
qed

lemma tx_walk_sent:
  assumes "tx_walk env xs n st = Some (st', sent, failed)"
  shows "\<exists>ps. sent_from st ps st' \<and> map snd ps = map sk_ptr sent \<and> subseq sent xs \<and> length sent \<le> n \<and>
    ptrs sent + ptrs failed = ptrs xs"
  using assms
proof (induction xs arbitrary: n st st' sent failed)
  case (Cons s xs)
  obtain st1 r where w: "(if n \<noteq> 0 then morse_pageset_write env s st
      else Some (upd_stats (\<lambda>x. x\<lparr>no_page := no_page x + 1\<rparr>) st, - ENOSPC)) = Some (st1, r)"
    using Cons.prems by (auto simp: bind_eq_Some_conv)
  have u: "sent_from (upd_stats f s1) ps s2 = sent_from s1 ps s2" for f and s1 s2 :: "'a pagesets" and ps
    by (simp add: sent_from_def upd_stats_def)
  have u2: "sent_from s1 ps (upd_stats f s2) = sent_from s1 ps s2" for f and s1 s2 :: "'a pagesets" and ps
    by (simp add: sent_from_def upd_stats_def)
  obtain ps where p: "sent_from st ps st1" "map snd ps = (if r = 0 then [sk_ptr s] else [])" "r = 0 \<longrightarrow> n \<noteq> 0"
    using w write_sent [of env s st st1 r] by (auto simp: u2 ENOSPC_def split: if_splits)
  show ?case
  proof (cases "r = 0")
    case True
    then obtain xs' where x: "tx_walk env xs (n - 1) (upd_stats (count_tx (sk_chan s)) st1) = Some (st', xs', failed)" "sent = s # xs'"
      using Cons.prems w by (auto simp: bind_eq_Some_conv)
    obtain qs where "sent_from st1 qs st'" "map snd qs = map sk_ptr xs'" "subseq xs' xs" "length xs' \<le> n - 1"
        "ptrs xs' + ptrs failed = ptrs xs"
      using Cons.IH [OF x(1)] by (auto simp: u)
    then show ?thesis using p x(2) True by (intro exI [of _ "ps @ qs"]) (auto simp: sent_from_def)
  next
    case False
    then obtain ys where y: "tx_walk env xs n st1 = Some (st', sent, ys)" "failed = s # ys"
      using Cons.prems w by (auto simp: bind_eq_Some_conv)
    obtain qs where "sent_from st1 qs st'" "map snd qs = map sk_ptr sent" "subseq sent xs" "length sent \<le> n"
        "ptrs sent + ptrs ys = ptrs xs"
      using Cons.IH [OF y(1)] by auto
    then show ?thesis using p y(2) False by (intro exI [of _ "ps @ qs"]) (auto simp: sent_from_def)
  qed
qed simp


lemma num_pages_sent:
  assumes "morse_pageset_num_pages env chan st = Some (st', n)"
  shows "sent_from st [] st'" "n \<le> MAX_PAGES_PER_TX_TXN"
  using assms rsved_page_sent [OF sent_from_refl [of st], where env = env and chan = chan and l = False]
  by (auto simp: morse_pageset_num_pages_def returns_def bind_eq_Some_conv MAX_PAGES_PER_TX_TXN_def CMD_RSVED_CMD_PAGES_MAX_def
      split: if_splits)

lemma tx_purge_accounted:
  assumes "frames_accounted (user_of q (drv st) xs M)"
  shows "frames_accounted (user_of q (drv (tx_purge q st)) xs M)"
  using assms keeps_accounted [OF assms purge_aged_ok] keeps_accounted [OF assms purge_pending_ok] accounted_wf [OF assms]
  by (auto simp: user_of_def tx_purge_def on_q_def Let_def split: prod.split)

lemma tx_finish_accounted:
  assumes "frames_accounted (user_of q (drv st) (sent @ failed) M)"
  shows "frames_accounted (user_of q (drv (tx_finish env q sent failed st)) [] M)"
proof -
  let ?st = "if failed = [] then st else on_drv (\<lambda>m. fst (morse_skbq_purge failed m))
    (upd_stats (\<lambda>s. s\<lparr>write_fail := write_fail s + length failed\<rparr>) st)"
  have a: "frames_accounted (user_of q (drv ?st) sent M)"
    using assms purge_some_accounted [OF assms] by (cases "failed = []") (simp_all add: on_drv_def upd_stats_def)
  show ?thesis
    using a complete_accounted [OF a, where n = "length sent"]
    by (auto simp: tx_finish_def Let_def on_q_def user_of_def split: prod.split)
qed

lemma tx_finish_skbq:
  assumes "frames_accounted (user_of q (drv st) (sent @ failed) M)"
  shows "skbq (queues (drv (tx_finish env q sent failed st)) q) = skbq (queues (drv st) q)"
    "sent_pages (tx_finish env q sent failed st) = sent_pages st"
    "\<forall>q'. q' \<noteq> q \<longrightarrow> queues (drv (tx_finish env q sent failed st)) q' = queues (drv st) q'"
proof -
  have "once (holds (queues (drv st) q) + ptrs sent)"
    using assms once_mono [of "holds (queues (drv st) q) + ptrs sent" "ptrs failed"]
    by (simp add: frames_accounted_def user_of_def ac_simps)
  note t = tx_complete_ok [OF this accounted_wf [OF assms, unfolded user_of_def, simplified], THEN conjunct2, THEN conjunct2]
  show "skbq (queues (drv (tx_finish env q sent failed st)) q) = skbq (queues (drv st) q)"
    using t by (auto simp: tx_finish_def Let_def on_q_def on_drv_def upd_stats_def on_mors_def split: prod.split) (metis snd_conv)+
  show "sent_pages (tx_finish env q sent failed st) = sent_pages st"
    "\<forall>q'. q' \<noteq> q \<longrightarrow> queues (drv (tx_finish env q sent failed st)) q' = queues (drv st) q'"
    by (simp_all add: tx_finish_def Let_def on_q_def on_drv_def upd_stats_def on_mors_def split: prod.split)
qed

lemma tx_purge_other:
  "sent_pages (tx_purge q st) = sent_pages st" "q' \<noteq> q \<Longrightarrow> queues (drv (tx_purge q st)) q' = queues (drv st) q'"
  by (auto simp: tx_purge_def on_q_def Let_def split: prod.split)

end
