(* ===== verification/Pageset_Theorems.thy ===== *)
theory Pageset_Theorems
  imports Pageset_Frames Skbq_Theorems
begin

text \<open>
  What holds of the page sets of \<^verbatim>\<open>pageset.c\<close>: the free pages stay in order and one is left for commands, sending a
  queue accounts for its frames, and where the code fails.
\<close>


section \<open>Events that stay cleared\<close>

definition events :: "'e pagesets \<Rightarrow> chip_event set" where
  "events st = event_flags (mors (drv st))"

lemma events_simps [simp]:
  "events (upd_stats f st) = events st" "events (on_drv g st) = event_flags (g (mors (drv st)))"
  "events (st\<lparr>txq_tasklet := b\<rparr>) = events st" "events (st\<lparr>dev := e\<rparr>) = events st"
  "events (st\<lparr>access_lock := l\<rparr>) = events st" "events (st\<lparr>reserved_pages := ps\<rparr>) = events st"
  "events (st\<lparr>cached_pages := ps\<rparr>) = events st"
  "events (set_event v st) = insert v (events st)" "events (clear_event v st) = events st - {v}"
  "events (st\<lparr>drv := (drv st)\<lparr>queues := qs\<rparr>\<rparr>) = events st"
  by (simp_all add: events_def upd_stats_def on_drv_def on_mors_def set_event_def clear_event_def)

lemma on_q_events: "(\<And>x. event_flags (fst (f x)) = event_flags (fst x)) \<Longrightarrow> events (on_q q f st) = events st"
  by (simp add: events_def on_q_def Let_def case_prod_beta)

lemma tx_events_simps [simp]: "events (tx_purge q st) = events st" "events (tx_finish env q xs ys st) = events st"
proof -
  show "events (tx_purge q st) = events st" by (simp add: tx_purge_def on_q_events)
  show "events (tx_finish env q xs ys st) = events st"
    by (simp add: tx_finish_def Let_def on_q_events) (simp add: events_def upd_stats_def)
qed

lemma event_events: "event v st \<longleftrightarrow> v \<in> events st"
  by (simp add: event_def events_def)

lemma tx_events: "returns (\<lambda>st'. events st' = events st) (morse_pageset_tx env q st)"
proof (cases "skbq (queues (drv st) q)")
  case (Cons s ss)
  have n: "fst_ok (\<lambda>st'. events st' = events st) (morse_pageset_num_pages env c st)" for c
    unfolding returns_def
  proof (intro allI impI)
    fix r assume "morse_pageset_num_pages env c st = Some r"
    then have "sent_from st [] (fst r)" using num_pages_sent(1) [of env c st] by (metis prod.collapse)
    then show "events (fst r) = events st" by (simp add: sent_from_def events_def)
  qed
  have w: "fst_ok (\<lambda>st'. events st' = events st) (tx_walk env xs n st1)" if "events st1 = events st" for xs n st1
    unfolding returns_def
  proof (intro allI impI)
    fix r assume "tx_walk env xs n st1 = Some r"
    then obtain ps where "sent_from st1 ps (fst r)" using tx_walk_sent [of env xs n st1] by (metis prod.collapse)
    then show "events (fst r) = events st" using that by (simp add: sent_from_def events_def)
  qed
  show ?thesis unfolding morse_pageset_tx_def Cons list.case Let_def
    by (rule fst_ok_bind [OF n], split prod.split, intro allI impI, rule fst_ok_bind [OF w]) auto
qed (simp add: morse_pageset_tx_def)

text \<open>With an event cleared, the later handlers leave it so.\<close>

lemma on_event_clear:
  assumes "\<And>st. fst_ok (\<lambda>st'. events st' = events st) (f st)" "v \<noteq> w" "v \<notin> events st"
  shows "returns (\<lambda>st'. v \<notin> events st') (on_event w f st)"
  unfolding on_event_def using assms(2,3) by (auto intro!: fst_ok_bind [OF assms(1)])

lemma tx_data_handler_events: "fst_ok (\<lambda>st'. events st' = events st) (morse_pageset_tx_data_handler env st)"
proof -
  have w: "fst_ok (\<lambda>st'. events st' = events st) (tx_data_walk env acis st n)" for acis n st
  proof (induction acis arbitrary: n st)
    case (Cons a acis)
    have "fst_ok (\<lambda>st'. events st' = events st) (tx_data_walk env acis r m)" if "events r = events st" for r m
      using Cons [of r m] that by simp
    then show ?case by (auto intro!: returns_bind [OF tx_events])
  qed simp
  show ?thesis unfolding morse_pageset_tx_data_handler_def Let_def
    by (rule fst_ok_bind [OF w]) (simp add: events_def [symmetric])
qed


lemma tx_handler_events: "fst_ok (\<lambda>st'. events st' = events st) (tx_handler env q st)"
  unfolding tx_handler_def by (auto intro!: returns_bind [OF tx_events])

lemma work_traffic_events: "v \<noteq> TX_DATA_PEND \<Longrightarrow> v \<notin> events st \<Longrightarrow> v \<notin> events (work_traffic st)"
  by (simp add: work_traffic_def Let_def event_events morse_skbq_data_traffic_pause_def morse_skbq_data_traffic_resume_def)
    (simp add: events_def on_drv_def on_mors_def clear_event_def)

section \<open>Example pagers\<close>

text \<open>All pagers share a list of pages: the next one that a pop gives. Memory is written without effect and reads as zeros.\<close>

definition list_pager :: "page list pager_ops" where
  "list_pager = \<lparr>op_put = (\<lambda>p ps. Some (ps, 0)), op_pop = (\<lambda>ps. Some (case ps of [] \<Rightarrow> ([], Inl (- ENOENT)) | p # ps \<Rightarrow> (ps, Inr p))),
     op_notify = id, op_write_page = (\<lambda>p b ps. (ps, 0)), op_read_page = (\<lambda>p n ps. (ps, Inr (replicate n 0)))\<rparr>"

definition list_env :: "page list env" where
  "list_env = \<lparr>tx_data = list_pager, tx_return = list_pager, rx_data = list_pager, rx_return = list_pager,
     buffer_of = (\<lambda>s. replicate (sk_len s + 4) 0), alloc_skb = (\<lambda>_. True), beacon_irq = (\<lambda>_. False), pager_base_address = 0x80100000,
     pager_page_size = 2048, validate_skb_checksum = False\<rparr>"

definition a_page :: "u32 \<Rightarrow> page" where
  "a_page a = \<lparr>pg_addr = a, pg_size = 2048\<rparr>"

definition no_bypass :: bypass where
  "no_bypass = \<lparr>byp_location = 0, to_process = []\<rparr>"

text \<open>The chip waits with 40 pages, each announcing 40 octets.\<close>

definition rx_waiting :: "page list \<Rightarrow> page list pagesets" where
  "rx_waiting ps = morse_pageset_init (a_morse\<lparr>event_flags := {RX_PEND}\<rparr>) None ps no_bypass no_bypass"

lemma read_zeros:
  "to_process (byp_cmd_resp st) = [] \<Longrightarrow> to_process (byp_tx_sts st) = [] \<Longrightarrow> dev st = a_page 0x02800000 # ps \<Longrightarrow>
    morse_pageset_read list_env st = Some (st\<lparr>dev := ps\<rparr>, 0)"
  by (simp add: morse_pageset_read_def next_rx_page_def list_env_def list_pager_def a_page_def rx_frame_def rx_header_of_def le16_at_def
      nth_opt_def MORSE_SKB_HEADER_SYNC_def MORSE_SKB_HEADER_CHIP_OWNED_SYNC_def put_return_def)

lemma rx_loop_zeros:
  "0 < fuel \<Longrightarrow> k + fuel = MAX_PAGES_PER_RX_TXN \<Longrightarrow> to_process (byp_cmd_resp st) = [] \<Longrightarrow> to_process (byp_tx_sts st) = [] \<Longrightarrow>
    dev st = replicate (fuel + n) (a_page 0x02800000) \<Longrightarrow>
    rx_loop list_env False fuel k st = Some (st\<lparr>dev := replicate n (a_page 0x02800000)\<rparr>, 0, MAX_PAGES_PER_RX_TXN, False, False)"
proof (induction fuel arbitrary: k st)
  case (Suc fuel)
  have r: "morse_pageset_read list_env st = Some (st\<lparr>dev := replicate (fuel + n) (a_page 0x02800000)\<rparr>, 0)"
    using Suc.prems by (intro read_zeros) simp_all
  have o: "op_notify (rx_return list_env) = id" by (simp add: list_env_def list_pager_def)
  show ?case
  proof (cases "fuel = 0")
    case True
    then have "Suc k = 32" using Suc.prems by (simp add: MAX_PAGES_PER_RX_TXN_def)
    then show ?thesis using True by (simp add: r o Let_def PAGE_RETURN_NOTIFY_INT_def MAX_PAGES_PER_RX_TXN_def)
  next
    case False
    then show ?thesis using Suc by (simp add: r o Let_def PAGE_RETURN_NOTIFY_INT_def)
  qed
qed simp

text \<open>C33: On a chip that responds and has an event, a work item without an AP interface never ends with \<open>RX_PEND\<close> set, whatever is left
  to read: the flag that the receive handler sets when it stops after 32 pages is cleared again by the test that only
  serves beacons. So the requeueing at the end of the work item, which is there for exactly these pages, is never reached. The
  pages that are left are looked at again when something else sets the flag: an interrupt, or the dispatch
  of a frame that was received (\<open>morse_skbq_dispatch_work\<close> sets it after it has handled the queue). If none of the 32 pages held a
  frame, as in the witness, nothing does.\<close>

theorem rx_pend_is_lost:
  assumes "event_flags (mors (drv st)) \<noteq> {}" "CHIP_UNRESPONSIVE \<notin> state_flags (mors (drv st))"
    "morse_pagesets_work env wait False st = Some st'"
  shows "RX_PEND \<notin> event_flags (mors (drv st'))"
proof -
  have loop: "returns (\<lambda>(_, _, _, _, beacon). \<not> beacon) (rx_loop env False fuel k st)" for fuel k st
    by (induction fuel arbitrary: k st) (auto simp: Let_def intro!: returns_any)
  have r: "returns (\<lambda>r. \<not> snd r) (work_rx env wait False st)" for st
    unfolding work_rx_def morse_pageset_rx_handler_def Let_def
    by (auto simp: case_prod_beta intro!: returns_bind [OF loop])
  have a: "returns (\<lambda>st'. RX_PEND \<notin> events st') (work_rx_again env False st)" for st
    by (simp add: work_rx_again_def event_events)
  have e: "returns (\<lambda>st'. RX_PEND \<notin> events st') (on_event TX_MGMT_PEND (tx_handler env Mgmt_q) st)"
    "returns (\<lambda>st'. RX_PEND \<notin> events st') (on_event TX_DATA_PEND (morse_pageset_tx_data_handler env) st)"
    if "RX_PEND \<notin> events st" for st
    using on_event_clear that tx_handler_events tx_data_handler_events by (metis chip_event.distinct)+
  have "returns (\<lambda>st'. RX_PEND \<notin> events st') (morse_pagesets_work env wait False st)"
  proof -
    have t: "returns (\<lambda>st'. RX_PEND \<notin> events st') (do {
        st \<leftarrow> work_rx_again env False st;
        st \<leftarrow> on_event TX_MGMT_PEND (tx_handler env Mgmt_q) st;
        st \<leftarrow> on_event TX_DATA_PEND (morse_pageset_tx_data_handler env) (work_traffic st);
        Some (if event RX_PEND (clear_event UPDATE_HW_CLOCK_REFERENCE st)
              then on_drv (\<lambda>m. m\<lparr>chip_work_queued := True\<rparr>) (clear_event UPDATE_HW_CLOCK_REFERENCE st)
              else clear_event UPDATE_HW_CLOCK_REFERENCE st) })" for st
      by (rule returns_bind [OF a], rule returns_bind [OF e(1)], assumption, rule returns_bind [OF e(2)], rule work_traffic_events)
        (simp_all add: event_events)
    show ?thesis unfolding morse_pagesets_work_def Let_def using assms(1,2)
      by simp (rule returns_any, rule returns_bind [OF r], split prod.split, intro allI impI, rule returns_any, rule returns_any, rule returns_any, use t in simp)
  qed
  then show ?thesis using assms(3) by (simp add: returns_def events_def)
qed


text \<open>Of 40 pages, none of which holds a frame (their sync octet is wrong), 8 are left, with no event and no work queued.\<close>

theorem rx_pend_is_lost_witness:
  "\<exists>st'. morse_pagesets_work list_env id False (rx_waiting (replicate 40 (a_page 0x02800000))) = Some st' \<and>
     length (dev st') = 8 \<and> \<not> chip_work_queued (mors (drv st')) \<and> RX_PEND \<notin> event_flags (mors (drv st'))"
proof -
  let ?st = "rx_waiting (replicate 40 (a_page 0x02800000))"
  have l: "rx_loop list_env False 32 0 (clear_event RX_PEND ?st) =
      Some ((clear_event RX_PEND ?st)\<lparr>dev := replicate 8 (a_page 0x02800000)\<rparr>, 0, MAX_PAGES_PER_RX_TXN, False, False)"
    by (rule rx_loop_zeros) (simp_all add: clear_event_def on_drv_def on_mors_def rx_waiting_def morse_pageset_init_def no_bypass_def MAX_PAGES_PER_RX_TXN_def)
  let ?st1 = "(clear_event RX_PEND ?st)\<lparr>dev := replicate 8 (a_page 0x02800000)\<rparr>"
  have h: "morse_pageset_rx_handler list_env False (clear_event RX_PEND ?st) = Some (?st1, True, False)"
    using l by (simp add: morse_pageset_rx_handler_def MAX_PAGES_PER_RX_TXN_def) (simp add: list_env_def list_pager_def)
  have f: "events ?st = {RX_PEND}" by (simp add: events_def rx_waiting_def morse_pageset_init_def)
  have w: "work_rx list_env id False ?st = Some (set_event RX_PEND ?st1, False)"
    by (simp add: work_rx_def event_events f h)
  let ?st2 = "clear_event UPDATE_HW_CLOCK_REFERENCE (clear_event RX_PEND (set_event RX_PEND ?st1))"
  have r: "morse_pagesets_work list_env id False ?st = Some ?st2"
    using f w by (simp add: morse_pagesets_work_def on_event_def event_events work_rx_again_def work_traffic_def)
      (simp add: rx_waiting_def morse_pageset_init_def a_morse_def)
  have d: "dev ?st2 = replicate 8 (a_page 0x02800000)" "\<not> chip_work_queued (mors (drv ?st2))"
    by (simp_all add: clear_event_def set_event_def on_drv_def on_mors_def rx_waiting_def morse_pageset_init_def a_morse_def)
  have "event_flags (mors (drv ?st)) \<noteq> {}" "CHIP_UNRESPONSIVE \<notin> state_flags (mors (drv ?st))"
    by (simp_all add: rx_waiting_def morse_pageset_init_def a_morse_def)
  from rx_pend_is_lost [OF this r] r d show ?thesis by (intro exI [of _ ?st2]) simp
qed

section \<open>Free pages run out\<close>

lemma fill_reserved_step:
  "CMD_RSVED_PAGES_MAX \<le> length (reserved_pages st) \<Longrightarrow> fill_reserved ops st n = Some (st, n, False)"
  "length (reserved_pages st) < CMD_RSVED_PAGES_MAX \<Longrightarrow> op_pop ops (dev st) = Some (e, Inl x) \<Longrightarrow>
    fill_reserved ops st n = Some (st\<lparr>dev := e\<rparr>, n, True)"
  "length (reserved_pages st) < CMD_RSVED_PAGES_MAX \<Longrightarrow> op_pop ops (dev st) = Some (e, Inr p) \<Longrightarrow>
    morse_pageset_page_is_cached st p \<Longrightarrow> fill_reserved ops st n = fill_reserved ops (st\<lparr>dev := e\<rparr>) (n + 1)"
  "length (reserved_pages st) < CMD_RSVED_PAGES_MAX \<Longrightarrow> op_pop ops (dev st) = Some (e, Inr p) \<Longrightarrow>
    \<not> morse_pageset_page_is_cached st p \<Longrightarrow>
    fill_reserved ops st n = fill_reserved ops (st\<lparr>dev := e, reserved_pages := reserved_pages st @ [p]\<rparr>) (n + 1)"
  by (subst fill_reserved.simps, simp add: kfifo_put_def)+

text \<open>A pager that only gives a page that is cached already keeps the first loop going for ever.\<close>

lemma fill_reserved_diverges:
  assumes "\<And>e. op_pop ops e = Some (e, Inr p)" "morse_pageset_page_is_cached st p"
    "length (reserved_pages st) < CMD_RSVED_PAGES_MAX"
  shows "fill_reserved ops st n = None"
proof (rule ccontr)
  assume "fill_reserved ops st n \<noteq> None"
  then obtain r where "fill_reserved ops st n = Some r" by auto
  then show False using assms
  proof (induction rule: fill_reserved.raw_induct [rotated, consumes 1, case_names step])
    case (step f ops st n r)
    then have "f ops st (n + 1) = Some r" by simp
    from step(1) [OF this] step(3-5) show ?case by simp
  qed
qed

text \<open>C19: A work item leaves every free page in one of the caches at most once, and neither cache overfull.\<close>

theorem pageset_pages_distinct:
  assumes "pages_ok st" "\<And>st. pages_ok st \<Longrightarrow> pages_ok (wait st)" "morse_pagesets_work env wait ap st = Some st'"
  shows "length (reserved_pages st') \<le> 2 \<and> length (cached_pages st') \<le> 32 \<and>
    distinct (map pg_addr (reserved_pages st' @ cached_pages st'))"
proof -
  have "returns pages_ok (morse_pagesets_work env wait ap st)"
    by (rule distinct_pages.work_keeps) (use assms(1,2) in simp_all)
  then have "pages_ok st'" by (simp add: assms(3))
  then show ?thesis by (simp add: pages_ok_def CMD_RSVED_PAGES_MAX_def CACHED_PAGES_MAX_def)
qed

definition pages_return :: "u32 list \<Rightarrow> page list pagesets" where
  "pages_return as = morse_pageset_init (a_morse\<lparr>event_flags := {PAGE_RETURN_PEND}\<rparr>) None (map a_page as) no_bypass no_bypass"

lemma fill_cached_step:
  "0 < k \<Longrightarrow> op_pop ops (dev st) = Some (e, Inl x) \<Longrightarrow> fill_cached ops k st n = Some (st\<lparr>dev := e\<rparr>, n)"
  "0 < k \<Longrightarrow> op_pop ops (dev st) = Some (e, Inr p) \<Longrightarrow> morse_pageset_page_is_cached st p \<Longrightarrow>
    fill_cached ops k st n = fill_cached ops (k - 1) (st\<lparr>dev := e\<rparr>) (n + 1)"
  "0 < k \<Longrightarrow> op_pop ops (dev st) = Some (e, Inr p) \<Longrightarrow> \<not> morse_pageset_page_is_cached st p \<Longrightarrow>
    fill_cached ops k st n = fill_cached ops (k - 1) (st\<lparr>dev := e, cached_pages := fst (kfifo_put CACHED_PAGES_MAX p (cached_pages st))\<rparr>) (n + 1)"
  by (cases k; simp)+

lemma fills_run:
  assumes "dev st = map a_page [1, 2, 1, 3, 2]" "reserved_pages st = []" "cached_pages st = []"
  shows "return_handler_no_lock list_env st = Some (st\<lparr>dev := [], reserved_pages := map a_page [1, 2], cached_pages := [a_page 3]\<rparr>)"
proof -
  have p: "op_pop list_pager [] = Some ([], Inl (- ENOENT))" "op_pop list_pager (p # ps) = Some (ps, Inr p)" for p ps
    by (simp_all add: list_pager_def)
  let ?st1 = "st\<lparr>dev := map a_page [1, 3, 2], reserved_pages := map a_page [1, 2]\<rparr>"
  have f: "fill_reserved list_pager st 0 = Some (?st1, 2, False)"
    by (simp add: assms p fill_reserved_step CMD_RSVED_PAGES_MAX_def morse_pageset_page_is_cached_def a_page_def)
  have c: "fill_cached list_pager 62 ?st1 2 = Some (?st1\<lparr>dev := [], cached_pages := [a_page 3]\<rparr>, 5)"
    by (simp add: assms p fill_cached_step CACHED_PAGES_MAX_def morse_pageset_page_is_cached_def a_page_def kfifo_put_def)
  have e: "tx_return list_env = list_pager" "op_notify list_pager = id" by (simp_all add: list_env_def list_pager_def)
  show ?thesis using c by (simp add: return_handler_no_lock_def e f CACHED_PAGES_MAX_def)
qed

lemma pages_return_run:
  "\<exists>st'. morse_pagesets_work list_env id False (pages_return [1, 2, 1, 3, 2]) = Some st' \<and>
     reserved_pages st' = [a_page 1, a_page 2] \<and> cached_pages st' = [a_page 3]"
proof -
  let ?st = "pages_return [1, 2, 1, 3, 2]"
  let ?c = "(clear_event PAGE_RETURN_PEND ?st)\<lparr>access_lock := True\<rparr>"
  have r: "return_handler_no_lock list_env ?c = Some (?c\<lparr>dev := [], reserved_pages := map a_page [1, 2], cached_pages := [a_page 3]\<rparr>)"
    by (rule fills_run) (simp_all add: clear_event_def on_drv_def pages_return_def morse_pageset_init_def)
  have f: "events ?st = {PAGE_RETURN_PEND}" by (simp add: events_def pages_return_def morse_pageset_init_def)
  then have e: "event_flags (mors (drv ?st)) = {PAGE_RETURN_PEND}" by (simp add: events_def)
  have l: "\<not> access_lock (clear_event PAGE_RETURN_PEND ?st)" "CHIP_UNRESPONSIVE \<notin> state_flags (mors (drv ?st))"
    by (simp_all add: clear_event_def on_drv_def pages_return_def morse_pageset_init_def a_morse_def)
  show ?thesis using f l r
    by (simp add: morse_pagesets_work_def on_event_def event_events work_rx_def work_rx_again_def work_traffic_def
        morse_pageset_to_chip_return_handler_def e)
qed

theorem pageset_pages_distinct_witness:
  "\<exists>st'. morse_pagesets_work list_env id False (pages_return [1, 2, 1, 3, 2]) = Some st' \<and>
     reserved_pages st' = [a_page 1, a_page 2] \<and> cached_pages st' = [a_page 3] \<and>
     distinct (map pg_addr (reserved_pages st' @ cached_pages st'))"
proof -
  obtain st' where r: "morse_pagesets_work list_env id False (pages_return [1, 2, 1, 3, 2]) = Some st'"
      "reserved_pages st' = [a_page 1, a_page 2]" "cached_pages st' = [a_page 3]"
    using pages_return_run by blast
  have "pages_ok (pages_return [1, 2, 1, 3, 2])" by (simp add: pages_ok_def pages_return_def morse_pageset_init_def)
  from pageset_pages_distinct [OF this _ r(1)] r show ?thesis by simp
qed

text \<open>C18: Sending beacons, management frames or data never takes the last reserved page: as long as no command is
  sent, a page that is reserved stays available to the next command.\<close>

theorem pageset_keeps_command_page:
  assumes "wf_q (queues (drv st) q)" "\<forall>s \<in> set (skbq (queues (drv st) q)). sk_chan s \<noteq> CHAN_COMMAND"
    "reserved_pages st \<noteq> []" "morse_pageset_tx env q st = Some st'"
  shows "reserved_pages st' \<noteq> []"
proof (cases "skbq (queues (drv st) q)")
  case Nil
  then show ?thesis using assms(3,4) by (simp add: morse_pageset_tx_def)
next
  case (Cons s ss)
  then have "sk_chan s \<noteq> CHAN_COMMAND" using assms(2) by simp
  then obtain st1 n where n: "morse_pageset_num_pages env (sk_chan s) st = Some (st1, n)" "reserved_pages st1 = reserved_pages st"
      "drv st1 = drv st"
    using rsved_page_other [of "sk_chan s" env False st] by (auto simp: morse_pageset_num_pages_def)
  let ?d = "drv (tx_purge q st1)"
  obtain mq xs where d: "(if 0 < n then morse_skbq_deq_num_items n (queues ?d q) else (queues ?d q, [])) = (mq, xs)" by fastforce
  have w: "wf_q (queues (drv st1) q)" using assms(1) n(3) by simp
  have "set xs \<subseteq> set (skbq (queues ?d q))"
    using d deq_eq [OF tx_purge_skbq(2) [OF w], of n] by (auto split: if_splits dest: in_set_takeD)
  also have "\<dots> \<subseteq> set (skbq (queues (drv st) q))"
    using tx_purge_skbq(1) [OF w] n(3) set_drop_subset by metis
  finally have "\<forall>s \<in> set xs. sk_chan s \<noteq> CHAN_COMMAND" using assms(2) by auto
  note t = tx_walk_left [OF this]
  show ?thesis using assms(3,4) Cons n d
      t [of "(tx_purge q st1)\<lparr>drv := ?d\<lparr>queues := (queues ?d)(q := mq)\<rparr>\<rparr>" env n]
    by (auto simp: morse_pageset_tx_def Let_def bind_eq_Some_conv returns_def)
qed


section \<open>Sending a queue\<close>

definition tx_ready :: "sk_buff list \<Rightarrow> page list \<Rightarrow> page list \<Rightarrow> page list pagesets" where
  "tx_ready xs rsvd free =
     (let st = morse_pageset_init a_morse None [] no_bypass no_bypass
      in st\<lparr>drv := (drv st)\<lparr>queues := (queues (drv st))(Data_q 0 := a_queue xs [])\<rparr>, reserved_pages := rsvd, cached_pages := free\<rparr>)"

lemma tx_ready_queue: "queues (drv (tx_ready xs rsvd free)) (Data_q 0) = a_queue xs []" "reserved_pages (tx_ready xs rsvd free) = rsvd"
  by (simp_all add: tx_ready_def Let_def)

lemma tx_ready_run:
  "\<exists>st'. morse_pageset_tx list_env (Data_q 0) (tx_ready [a_skb 1, a_skb 2, a_skb 3] [a_page 1] [a_page 2, a_page 3]) = Some st' \<and>
     sent_pages st' = [(2, 1), (3, 2)] \<and> map sk_ptr (skbq (queues (drv st') (Data_q 0))) = [3] \<and>
     map sk_ptr (pending (queues (drv st') (Data_q 0))) = [1, 2] \<and> reserved_pages st' = [a_page 1] \<and> cached_pages st' = []"
  by (simp add: morse_pageset_tx_def tx_ready_def Let_def a_queue_def morse_pageset_init_def morse_pageset_num_pages_def
      morse_pageset_rsved_page_is_avail_def run_simps MAX_PAGES_PER_TX_TXN_def tx_purge_def morse_pageset_write_def take_page_def
      send_page_def list_env_def list_pager_def a_page_def pad_len_def upd_stats_def count_tx_def tx_finish_def on_q_def)

text \<open>C2: Sending a queue accounts for every frame: each frame that was on the queue, or awaiting its status, or
  had met its end, still is in exactly one of these places, and the queue stays well formed. What is left on the
  queue is a tail of what was there; the frames put to the chip, at most 16 and each with a page of its own, are among those
  taken from the head and go in their order. No other queue changes.\<close>

theorem pageset_tx_accounts:
  assumes "wf_q (queues (drv st) q)" "morse_pageset_tx env q st = Some st'"
  shows "wf_q (queues (drv st') q) \<and>
    mset (map sk_ptr (skbq (queues (drv st') q) @ pending (queues (drv st') q) @ map fate_skb (fates (mors (drv st'))))) =
    mset (map sk_ptr (skbq (queues (drv st) q) @ pending (queues (drv st) q) @ map fate_skb (fates (mors (drv st))))) \<and>
    (\<exists>k ps. skbq (queues (drv st') q) = drop k (skbq (queues (drv st) q)) \<and> sent_pages st' = sent_pages st @ ps \<and> length ps \<le> 16 \<and>
      subseq (map snd ps) (map sk_ptr (take k (skbq (queues (drv st) q))))) \<and>
    (\<forall>q'. q' \<noteq> q \<longrightarrow> queues (drv st') q' = queues (drv st) q')"
proof (cases "skbq (queues (drv st) q)")
  case Nil
  then show ?thesis using assms by (simp add: morse_pageset_tx_def)
next
  case (Cons s ss)
  obtain st1 n where n: "morse_pageset_num_pages env (sk_chan s) st = Some (st1, n)"
    using assms(2) Cons by (auto simp: morse_pageset_tx_def bind_eq_Some_conv)
  note n1 = num_pages_sent [OF n]
  let ?d = "drv (tx_purge q st1)"
  obtain mq xs where d: "(if 0 < n then morse_skbq_deq_num_items n (queues ?d q) else (queues ?d q, [])) = (mq, xs)" by fastforce
  let ?st2 = "(tx_purge q st1)\<lparr>drv := ?d\<lparr>queues := (queues ?d)(q := mq)\<rparr>\<rparr>"
  obtain st3 sent failed where w: "tx_walk env xs n ?st2 = Some (st3, sent, failed)" "st' = tx_finish env q sent failed st3"
    using assms(2) Cons n d by (auto simp: morse_pageset_tx_def bind_eq_Some_conv Let_def)
  obtain ps where p: "sent_from ?st2 ps st3" "map snd ps = map sk_ptr sent" "subseq sent xs" "length sent \<le> n"
      "ptrs sent + ptrs failed = ptrs xs"
    using tx_walk_sent [OF w(1)] by blast
  have q1: "wf_q (queues (drv st1) q)" using assms(1) n1 by (simp add: sent_from_def)
  obtain j where j: "skbq (queues ?d q) = drop j (skbq (queues (drv st) q))"
    using tx_purge_skbq(1) [OF q1] n1(1) by (auto simp: sent_from_def)
  have qd: "xs = take n (skbq (queues ?d q))" "skbq mq = drop n (skbq (queues ?d q))"
    using d deq_eq [OF tx_purge_skbq(2) [OF q1], of n] by (auto split: if_splits)
  let ?M = "all_ptrs q (drv st)"
  have a0: "frames_accounted (user_of q (drv st1) [] ?M)"
    using accounted_start [OF assms(1)] n1(1) by (simp add: sent_from_def)
  note a1 = tx_purge_accounted [OF a0]
  have a2: "frames_accounted (user_of q (drv ?st2) xs ?M)"
    using a1 deq_accounted [OF a1, of n] d by (cases "0 < n") (auto simp: user_of_def)
  have a3: "frames_accounted (user_of q (drv st3) (sent @ failed) ?M)"
    using accounted_hand [OF a2, of "sent @ failed"] p(1,5) by (simp add: sent_from_def)
  note a4 = tx_finish_accounted [OF a3, of env, folded w(2), THEN accounted_end]
  note f = tx_finish_skbq [OF a3, of env, folded w(2)]
  have t: "xs = take n (drop j (skbq (queues (drv st) q)))" using qd j by simp
  have "subseq (map sk_ptr xs) (map sk_ptr (take (j + n) (skbq (queues (drv st) q))))"
    unfolding t take_add map_append by (rule list_emb_append2) simp
  then have "subseq (map snd ps) (map sk_ptr (take (n + j) (skbq (queues (drv st) q))))"
    using p(2,3) subseq_map [of sent xs sk_ptr] by (metis add.commute subseq_order.trans)
  moreover have "length ps \<le> 16" using p(2,4) n1(2) by (metis MAX_PAGES_PER_TX_TXN_def length_map order_trans)
  moreover have "skbq (queues (drv st') q) = drop (n + j) (skbq (queues (drv st) q))"
    using f(1) p(1) qd(2) j by (simp add: sent_from_def)
  moreover have "sent_pages st' = sent_pages st @ ps"
    using f(2) p(1) n1(1) by (simp add: sent_from_def tx_purge_other)
  ultimately show ?thesis
    using a4 f(3) p(1) n1(1)
    by (auto simp: all_ptrs_def holds_def ptrs_def sent_from_def tx_purge_other ac_simps)
qed


theorem pageset_tx_accounts_witness:
  "\<exists>st'. morse_pageset_tx list_env (Data_q 0) (tx_ready [a_skb 1, a_skb 2, a_skb 3] [a_page 1] [a_page 2, a_page 3]) = Some st' \<and>
     sent_pages st' = [(2, 1), (3, 2)] \<and> wf_q (queues (drv st') (Data_q 0))"
proof -
  obtain st' where r: "morse_pageset_tx list_env (Data_q 0) (tx_ready [a_skb 1, a_skb 2, a_skb 3] [a_page 1] [a_page 2, a_page 3]) = Some st'"
      "sent_pages st' = [(2, 1), (3, 2)]"
    using tx_ready_run by blast
  have "wf_q (queues (drv (tx_ready [a_skb 1, a_skb 2, a_skb 3] [a_page 1] [a_page 2, a_page 3])) (Data_q 0))"
    by (simp add: tx_ready_queue a_queue_wf a_skb_def)
  from pageset_tx_accounts [OF this r(1)] r show ?thesis by (intro exI [of _ st']) simp
qed

theorem pageset_keeps_command_page_witness:
  "\<exists>st'. morse_pageset_tx list_env (Data_q 0) (tx_ready [a_skb 1, a_skb 2, a_skb 3] [a_page 1] [a_page 2, a_page 3]) = Some st' \<and>
     cached_pages st' = [] \<and> reserved_pages st' \<noteq> []"
proof -
  let ?st = "tx_ready [a_skb 1, a_skb 2, a_skb 3] [a_page 1] [a_page 2, a_page 3]"
  obtain st' where r: "morse_pageset_tx list_env (Data_q 0) ?st = Some st'" "cached_pages st' = []" using tx_ready_run by blast
  have "reserved_pages st' \<noteq> []"
    by (rule pageset_keeps_command_page [OF _ _ _ r(1)])
      (simp_all add: tx_ready_queue a_queue_wf, simp_all add: a_skb_def a_queue_def CHAN_DATA_def CHAN_COMMAND_def)
  with r show ?thesis by blast
qed

section \<open>Where the code fails\<close>

text \<open>A frame that does not fit a page costs the page: it is in no cache afterwards, and was not put to the chip.\<close>

lemma write_leaks_page:
  "\<not> access_lock st \<Longrightarrow> sk_chan s = CHAN_DATA \<Longrightarrow> cached_pages st = p # ps \<Longrightarrow> pg_size p < sk_len s + pad_len (sk_len s) \<Longrightarrow>
    morse_pageset_write env s st = Some (st\<lparr>cached_pages := ps\<rparr>, - ENOSPC)"
  by (simp add: morse_pageset_write_def morse_pageset_rsved_page_is_avail_def take_page_def CHAN_DATA_def CHAN_BEACON_def CHAN_COMMAND_def)

text \<open>That a received frame was dropped for want of room in the queue cannot be seen: the code returned is that of the page's return.\<close>

lemma read_hides_drop:
  assumes "next_rx_page env st = Some (st1, Inr p)" "alloc_skb env n" "n = (unat (drop_bit 20 (pg_addr p)) + 3) div 4 * 4"
    "op_read_page (rx_data env) (p\<lparr>pg_addr := (pg_addr p AND 0xFFFFF) OR pager_base_address env\<rparr>) n (dev st1) = (e, Inr b)"
    "rx_frame env (p\<lparr>pg_addr := (pg_addr p AND 0xFFFFF) OR pager_base_address env\<rparr>) b (st1\<lparr>dev := e\<rparr>) = Some (st2, q, - ENOMEM)"
    "pg_addr q \<noteq> 0" "op_put (rx_return env) q (dev st2) = Some (e2, 0)"
  shows "morse_pageset_read env st = Some (st2\<lparr>dev := e2\<rparr>, 0)"
  using assms by (simp add: morse_pageset_read_def Let_def put_return_def)

end
