(* ===== verification/Yaps_Hw.thy ===== *)
theory Yaps_Hw
  imports Pager Skb_Header
begin

text \<open>
  \<^verbatim>\<open>yaps-hw.c\<close>: packets to and from the chip as a stream, each behind a delimiter word. The driver reads how
  much room the chip has, writes as many packets as fit, and splits what it reads.
\<close>

section \<open>Constants and state\<close>

definition YAPS_HW_WINDOW_SIZE_BYTES :: nat where "YAPS_HW_WINDOW_SIZE_BYTES = 32768"
definition YAPS_MAX_PKT_SIZE_BYTES :: nat where "YAPS_MAX_PKT_SIZE_BYTES = 16128"
definition YAPS_METADATA_PAGE_COUNT :: nat where "YAPS_METADATA_PAGE_COUNT = 1"
definition YAPS_PHANDLE_CORRUPTION_WAR_EXTRA_PAGE :: nat where "YAPS_PHANDLE_CORRUPTION_WAR_EXTRA_PAGE = 1"
definition YAPS_PAGE_SIZE :: nat where "YAPS_PAGE_SIZE = 256"

definition MORSE_YAPS_TX_Q :: nat where "MORSE_YAPS_TX_Q = 0"
definition MORSE_YAPS_CMD_Q :: nat where "MORSE_YAPS_CMD_Q = 1"
definition MORSE_YAPS_BEACON_Q :: nat where "MORSE_YAPS_BEACON_Q = 2"
definition MORSE_YAPS_MGMT_Q :: nat where "MORSE_YAPS_MGMT_Q = 3"
definition MORSE_YAPS_NUM_TC_Q :: nat where "MORSE_YAPS_NUM_TC_Q = 4"


text \<open>\<open>YAPS_CALC_PADDING\<close>.\<close>

definition yaps_padding :: "nat \<Rightarrow> nat" where
  "yaps_padding n = (if n mod 4 \<noteq> 0 then 4 - n mod 4 else 0)"

text \<open>The status registers the code uses, as the chip writes them.\<close>

record yaps_status =
  tc_tx_pool_num_pages :: u32
  tc_cmd_pool_num_pages :: u32
  tc_beacon_pool_num_pages :: u32
  tc_mgmt_pool_num_pages :: u32
  tc_tx_num_pkts :: u32
  tc_cmd_num_pkts :: u32
  tc_beacon_num_pkts :: u32
  tc_mgmt_num_pkts :: u32
  fc_num_pkts :: u32
  fc_rx_bytes_in_queue :: u32
  tc_delim_crc_fail_detected :: u32
  status_lock :: u32

text \<open>\<open>struct morse_yaps_hw_aux_data\<close>, with the two buffers from their aligned address on.\<close>

record yaps_aux =
  yaps_access_lock :: bool
  yds_addr :: u32
  ysl_addr :: u32
  status_regs_addr :: u32
  tc_tx_q_size :: nat
  tc_cmd_q_size :: nat
  tc_beacon_q_size :: nat
  tc_mgmt_q_size :: nat
  reserved_yaps_page_size :: nat
  to_chip_buffer :: "u8 list"
  from_chip_buffer :: "u8 list"
  status_regs :: yaps_status
  rx_split :: nat

text \<open>A packet for the chip: the octets of the frame, without padding, and its queue.\<close>

type_synonym tc_pkt = "u8 list \<times> nat"

section \<open>Delimiters\<close>

definition YAPS_DELIM_SET_PKT_SIZE :: "nat \<Rightarrow> nat \<Rightarrow> u32" where
  "YAPS_DELIM_SET_PKT_SIZE reserved n = (of_nat n AND 0x3FFF) + of_nat reserved"

definition YAPS_DELIM_GET_PHANDLE_SIZE :: "u32 \<Rightarrow> nat" where
  "YAPS_DELIM_GET_PHANDLE_SIZE d = unat (d AND 0x3FFF)"

definition YAPS_DELIM_GET_PKT_SIZE :: "nat \<Rightarrow> u32 \<Rightarrow> int" where
  "YAPS_DELIM_GET_PKT_SIZE reserved d = int (YAPS_DELIM_GET_PHANDLE_SIZE d) - int reserved"

definition YAPS_DELIM_SET_POOL_ID :: "nat \<Rightarrow> u32" where
  "YAPS_DELIM_SET_POOL_ID p = push_bit 14 (of_nat p AND 0x7)"

definition YAPS_DELIM_GET_POOL_ID :: "u32 \<Rightarrow> nat" where
  "YAPS_DELIM_GET_POOL_ID d = unat (drop_bit 14 d AND 0x7)"

definition YAPS_DELIM_SET_PADDING :: "nat \<Rightarrow> u32" where
  "YAPS_DELIM_SET_PADDING n = push_bit 17 (of_nat n AND 0x3)"

definition YAPS_DELIM_GET_PADDING :: "u32 \<Rightarrow> nat" where
  "YAPS_DELIM_GET_PADDING d = unat (drop_bit 17 d AND 0x3)"

definition YAPS_DELIM_SET_IRQ :: "bool \<Rightarrow> u32" where
  "YAPS_DELIM_SET_IRQ irq = push_bit 19 (of_bool irq)"

definition YAPS_DELIM_SET_CRC :: "u8 \<Rightarrow> u32" where
  "YAPS_DELIM_SET_CRC c = push_bit 25 (ucast c AND 0x7F)"

definition YAPS_DELIM_GET_CRC :: "u32 \<Rightarrow> u8" where
  "YAPS_DELIM_GET_CRC d = ucast (drop_bit 25 d AND 0x7F)"

text \<open>The kernel's \<open>crc7_be_byte\<close> is a parameter. The CRC is over the 25 bits below the CRC's own.\<close>

definition morse_yaps_crc :: "(u8 \<Rightarrow> u8 \<Rightarrow> u8) \<Rightarrow> u32 \<Rightarrow> u8" where
  "morse_yaps_crc crc7_be_byte word =
     (let w = word AND 0x1ffffff
      in drop_bit 1 (crc7_be_byte (crc7_be_byte (crc7_be_byte (crc7_be_byte 0 (ucast (drop_bit 24 w)))
           (ucast (drop_bit 16 w))) (ucast (drop_bit 8 w))) (ucast w)))"

definition morse_yaps_delimiter :: "(u8 \<Rightarrow> u8 \<Rightarrow> u8) \<Rightarrow> nat \<Rightarrow> nat \<Rightarrow> nat \<Rightarrow> bool \<Rightarrow> u32" where
  "morse_yaps_delimiter crc7 reserved n pool irq =
     (let d = YAPS_DELIM_SET_PKT_SIZE reserved n OR YAPS_DELIM_SET_PADDING (yaps_padding n) OR
              YAPS_DELIM_SET_POOL_ID pool OR YAPS_DELIM_SET_IRQ irq
      in d OR YAPS_DELIM_SET_CRC (morse_yaps_crc crc7 d))"

definition morse_yaps_is_valid_delimiter :: "(u8 \<Rightarrow> u8 \<Rightarrow> u8) \<Rightarrow> u32 \<Rightarrow> bool" where
  "morse_yaps_is_valid_delimiter crc7 d =
     (let n = YAPS_DELIM_GET_PHANDLE_SIZE d; padding = YAPS_DELIM_GET_PADDING d
      in if morse_yaps_crc crc7 d \<noteq> YAPS_DELIM_GET_CRC d then False
         else if n = 0 then False
         else if YAPS_MAX_PKT_SIZE_BYTES < n + padding then False
         else yaps_padding n = padding)"

section \<open>Whether a packet fits\<close>

definition morse_yaps_pages_required :: "nat \<Rightarrow> nat \<Rightarrow> nat" where
  "morse_yaps_pages_required reserved n =
     (n + reserved + (YAPS_PAGE_SIZE - 1)) div YAPS_PAGE_SIZE + YAPS_METADATA_PAGE_COUNT + YAPS_PHANDLE_CORRUPTION_WAR_EXTRA_PAGE"

text \<open>
  The pages in the pool of a queue, the packets in the queue and its size. Another queue has none of them:
  the code then goes on with NULL pointers.
\<close>

definition tc_pool :: "nat \<Rightarrow> yaps_aux \<Rightarrow> (u32 \<times> u32 \<times> nat) option" where
  "tc_pool q a =
     (let s = status_regs a
      in if q = MORSE_YAPS_TX_Q then Some (tc_tx_pool_num_pages s, tc_tx_num_pkts s, tc_tx_q_size a)
         else if q = MORSE_YAPS_CMD_Q then Some (tc_cmd_pool_num_pages s, tc_cmd_num_pkts s, tc_cmd_q_size a)
         else if q = MORSE_YAPS_BEACON_Q then Some (tc_beacon_pool_num_pages s, tc_beacon_num_pkts s, tc_beacon_q_size a)
         else if q = MORSE_YAPS_MGMT_Q then Some (tc_mgmt_pool_num_pages s, tc_mgmt_num_pkts s, tc_mgmt_q_size a)
         else None)"

definition set_tc_pool :: "nat \<Rightarrow> u32 \<Rightarrow> u32 \<Rightarrow> yaps_aux \<Rightarrow> yaps_aux" where
  "set_tc_pool q pages pkts a =
     (let s = status_regs a
      in a\<lparr>status_regs :=
             (if q = MORSE_YAPS_TX_Q then s\<lparr>tc_tx_pool_num_pages := pages, tc_tx_num_pkts := pkts\<rparr>
              else if q = MORSE_YAPS_CMD_Q then s\<lparr>tc_cmd_pool_num_pages := pages, tc_cmd_num_pkts := pkts\<rparr>
              else if q = MORSE_YAPS_BEACON_Q then s\<lparr>tc_beacon_pool_num_pages := pages, tc_beacon_num_pkts := pkts\<rparr>
              else s\<lparr>tc_mgmt_pool_num_pages := pages, tc_mgmt_num_pkts := pkts\<rparr>)\<rparr>)"

text \<open>Always called to update the counts; both are read as signed numbers.\<close>

definition morse_yaps_will_fit :: "nat \<Rightarrow> nat \<Rightarrow> yaps_aux \<Rightarrow> (yaps_aux \<times> bool) option" where
  "morse_yaps_will_fit n q a =
     do {
       (pages, pkts, q_size) \<leftarrow> tc_pool q a;
       (let required = morse_yaps_pages_required (reserved_yaps_page_size a) n
        in Some (if sint pages < int required \<or> int q_size - sint pkts = 0 then (a, False)
                 else (set_tc_pool q (pages - of_nat required) (pkts + 1) a, True)))
     }"

definition morse_yaps_hw_write_pkt_err_check :: "tc_pkt \<Rightarrow> yaps_aux \<Rightarrow> (yaps_aux \<times> int) option" where
  "morse_yaps_hw_write_pkt_err_check p a =
     (if YAPS_MAX_PKT_SIZE_BYTES < length (fst p) + reserved_yaps_page_size a then Some (a, - EMSGSIZE)
      else if MORSE_YAPS_NUM_TC_Q < snd p then Some (a, - EINVAL)
      else do {
        (a, fits) \<leftarrow> morse_yaps_will_fit (length (fst p)) (snd p) a;
        Some (a, if fits then 0 else - EAGAIN)
      })"

section \<open>Writing\<close>

text \<open>A store into a buffer; \<open>None\<close>: behind its end.\<close>

definition put_octets :: "nat \<Rightarrow> u8 list \<Rightarrow> u8 list \<Rightarrow> u8 list option" where
  "put_octets off xs b =
     (if off + length xs \<le> length b then Some (take off b @ xs @ drop (off + length xs) b) else None)"

text \<open>
  The transaction under way: the octets in the buffer (the write pointer is behind them), the packets in it, and the packets
  sent before.
\<close>

record yaps_batch =
  batch_txn_len :: nat
  pkts_pending :: nat
  num_pkts_sent :: nat

text \<open>The label \<open>exit\<close>. The code of the write replaces the one that led there, and packets count as sent even if it failed.\<close>

definition write_exit :: "'d bus_ops \<Rightarrow> yaps_batch \<Rightarrow> int \<Rightarrow> yaps_aux \<times> 'd \<Rightarrow> (yaps_aux \<times> 'd) \<times> int \<times> nat" where
  "write_exit bus t r st =
     (case st of (a, d) \<Rightarrow>
        case (if 0 < batch_txn_len t
              then (case morse_dm_write bus (yds_addr a) (take (batch_txn_len t) (to_chip_buffer a)) d of (d, r) \<Rightarrow> (d, r, num_pkts_sent t + pkts_pending t))
              else (d, r, num_pkts_sent t)) of
          (d, r, n) \<Rightarrow> ((a\<lparr>yaps_access_lock := False\<rparr>, d), r, n))"

text \<open>When the packet does not fit the window any more, what is in the buffer is written.\<close>

definition flush_window :: "'d bus_ops \<Rightarrow> nat \<Rightarrow> yaps_batch \<Rightarrow> yaps_aux \<times> 'd \<Rightarrow> 'd \<times> int \<times> yaps_batch" where
  "flush_window bus tx_len t st =
     (case st of (a, d) \<Rightarrow>
        if YAPS_HW_WINDOW_SIZE_BYTES < batch_txn_len t + tx_len
        then (case morse_dm_write bus (yds_addr a) (take (batch_txn_len t) (to_chip_buffer a)) d of
                (d, r) \<Rightarrow> (d, r, if r \<noteq> 0 then t\<lparr>batch_txn_len := 0\<rparr>
                                 else \<lparr>batch_txn_len = 0, pkts_pending = 0, num_pkts_sent = num_pkts_sent t + pkts_pending t\<rparr>))
        else (d, 0, t))"

text \<open>The loop. The packet at hand has passed its check; the next one is checked before the delimiter is built.\<close>

fun write_walk ::
    "'d bus_ops \<Rightarrow> (u8 \<Rightarrow> u8 \<Rightarrow> u8) \<Rightarrow> tc_pkt list \<Rightarrow> yaps_batch \<Rightarrow> yaps_aux \<times> 'd \<Rightarrow> ((yaps_aux \<times> 'd) \<times> int \<times> nat) option" where
  "write_walk bus crc7 [] t st = Some (write_exit bus t 0 st)"
| "write_walk bus crc7 (p # ps) t (a, d) =
     (let pkt_size = length (fst p) + yaps_padding (length (fst p)); tx_len = pkt_size + 4
      in case flush_window bus tx_len t (a, d) of
           (d, r, t) \<Rightarrow>
             if r \<noteq> 0 then Some (write_exit bus t r (a, d))
             else do {
               (a, r) \<leftarrow> (case ps of [] \<Rightarrow> Some (a, 0) | p' # _ \<Rightarrow> morse_yaps_hw_write_pkt_err_check p' a);
               (let delim = morse_yaps_delimiter crc7 (reserved_yaps_page_size a) pkt_size (snd p) (ps = [] \<or> r \<noteq> 0)
                in do {
                  b \<leftarrow> put_octets (batch_txn_len t) (le32 delim) (to_chip_buffer a);
                  b \<leftarrow> put_octets (batch_txn_len t + 4) (fst p) b;
                  (let a = a\<lparr>to_chip_buffer := b\<rparr>;
                       t = t\<lparr>batch_txn_len := batch_txn_len t + tx_len, pkts_pending := pkts_pending t + 1\<rparr>
                   in if r \<noteq> 0 then Some (write_exit bus t r (a, d)) else write_walk bus crc7 ps t (a, d))
                })
             })"

text \<open>
  The results are the code and the number of packets sent. The first packet is checked whether or not there is
  one: \<open>None\<close> is the use of an entry of the static array that was not set.
\<close>

definition morse_yaps_hw_write_pkts ::
    "'d bus_ops \<Rightarrow> (u8 \<Rightarrow> u8 \<Rightarrow> u8) \<Rightarrow> tc_pkt list \<Rightarrow> yaps_aux \<times> 'd \<Rightarrow> ((yaps_aux \<times> 'd) \<times> int \<times> nat) option" where
  "morse_yaps_hw_write_pkts bus crc7 ps st =
     (case st of (a, d) \<Rightarrow>
        if yaps_access_lock a then Some (st, -1, 0)
        else case ps of
               [] \<Rightarrow> None
             | p # _ \<Rightarrow> do {
                 (a, r) \<leftarrow> morse_yaps_hw_write_pkt_err_check p (a\<lparr>yaps_access_lock := True\<rparr>);
                 (let t = \<lparr>batch_txn_len = 0, pkts_pending = 0, num_pkts_sent = 0\<rparr>
                  in if r \<noteq> 0 then Some (write_exit bus t r (a, d)) else write_walk bus crc7 ps t (a, d))
               })"

section \<open>Reading\<close>

text \<open>The sizes that must not exceed \<open>INT_MAX\<close> are computed as \<open>u32\<close>.\<close>

definition morse_calc_bytes_remaining :: "yaps_aux \<Rightarrow> int" where
  "morse_calc_bytes_remaining a =
     (let s = status_regs a; too_large = (\<lambda>w :: u32. 0x7FFFFFFF < w)
      in if too_large (fc_rx_bytes_in_queue s) \<or> too_large (fc_num_pkts s * 4) \<or>
            too_large (fc_num_pkts s * of_nat (reserved_yaps_page_size a)) then - EIO
         else uint (fc_rx_bytes_in_queue s))"

text \<open>The octets at the read pointer; \<open>None\<close>: behind the end of the buffer, or a negative number.\<close>

definition get_octets :: "nat \<Rightarrow> int \<Rightarrow> u8 list \<Rightarrow> u8 list option" where
  "get_octets off n b = (if 0 \<le> n \<and> off + nat n \<le> length b then Some (take (nat n) (drop off b)) else None)"

text \<open>What was read replaces the start of the buffer.\<close>

definition read_into :: "'d bus_ops \<Rightarrow> u32 \<Rightarrow> int \<Rightarrow> yaps_aux \<times> 'd \<Rightarrow> ((yaps_aux \<times> 'd) \<times> int) option" where
  "read_into bus addr n st =
     (case st of (a, d) \<Rightarrow>
        if n < 0 \<or> length (from_chip_buffer a) < nat n then None
        else case morse_dm_read bus addr (nat n) d of
               (d, r, xs) \<Rightarrow>
                 if r \<noteq> 0 then Some ((a, d), r)
                 else do { b \<leftarrow> put_octets 0 xs (from_chip_buffer a); Some ((a\<lparr>from_chip_buffer := b\<rparr>, d), 0) })"

text \<open>
  The loop over the packets in the buffer, at most \<open>k\<close>: \<open>pos\<close> is the read pointer, \<open>n\<close> the octets left. The results
  are the code and the packets received, with their pools. \<open>alloc\<close>: an allocation of that size succeeds.
\<close>

primrec read_walk ::
    "'d bus_ops \<Rightarrow> (u8 \<Rightarrow> u8 \<Rightarrow> u8) \<Rightarrow> (nat \<Rightarrow> bool) \<Rightarrow> nat \<Rightarrow> nat \<Rightarrow> int \<Rightarrow> yaps_aux \<times> 'd \<Rightarrow>
      ((yaps_aux \<times> 'd) \<times> int \<times> (u8 list \<times> nat) list) option" where
  "read_walk bus crc7 alloc 0 pos n st = Some (st, 0, [])"
| "read_walk bus crc7 alloc (Suc k) pos n st =
     (if n \<le> 0 then Some (st, 0, [])
      else do {
        delim \<leftarrow> le32_at (from_chip_buffer (fst st)) pos;
        (let pos = pos + 4; n = n - 4
         in if delim = 0 \<or> \<not> morse_yaps_is_valid_delimiter crc7 delim then Some (st, 0, [])
            else (let pkt_size = YAPS_DELIM_GET_PKT_SIZE (reserved_yaps_page_size (fst st)) delim;
                      total_len = pkt_size + int (YAPS_DELIM_GET_PADDING delim);
                      pool = YAPS_DELIM_GET_POOL_ID delim
                  in if \<not> alloc (nat (pkt_size mod 4294967296)) then Some (st, - ENOMEM, [])
                     else if total_len \<le> n then do {
                       x \<leftarrow> get_octets pos pkt_size (from_chip_buffer (fst st));
                       (st, r, xs) \<leftarrow> read_walk bus crc7 alloc k (pos + nat total_len) (n - total_len) st;
                       Some (st, r, (x, pool) # xs)
                     }
                     else if pkt_size < n then None
                     else do {
                       x \<leftarrow> get_octets pos n (from_chip_buffer (fst st));
                       (st, r) \<leftarrow> read_into bus (ysl_addr (fst st) + 4) (total_len - n) (fst st\<lparr>rx_split := rx_split (fst st) + 1\<rparr>, snd st);
                       if r \<noteq> 0 then Some (st, r, [])
                       else do {
                         y \<leftarrow> get_octets 0 (pkt_size - n) (from_chip_buffer (fst st));
                         (st, r, xs) \<leftarrow> read_walk bus crc7 alloc k (nat (total_len - n)) 0 st;
                         Some (st, r, (x @ y, pool) # xs)
                       }
                     }))
      })"

definition unlock_yaps :: "(yaps_aux \<times> 'd) \<times> 'r \<Rightarrow> (yaps_aux \<times> 'd) \<times> 'r" where
  "unlock_yaps x = (case x of ((a, d), r) \<Rightarrow> ((a\<lparr>yaps_access_lock := False\<rparr>, d), r))"

definition morse_yaps_hw_read_pkts ::
    "'d bus_ops \<Rightarrow> (u8 \<Rightarrow> u8 \<Rightarrow> u8) \<Rightarrow> (nat \<Rightarrow> bool) \<Rightarrow> nat \<Rightarrow> yaps_aux \<times> 'd \<Rightarrow>
      ((yaps_aux \<times> 'd) \<times> int \<times> (u8 list \<times> nat) list) option" where
  "morse_yaps_hw_read_pkts bus crc7 alloc num_pkts_max st =
     (case st of (a, d) \<Rightarrow>
        let n = morse_calc_bytes_remaining a
        in if num_pkts_max = 0 \<or> n = 0 then Some (st, 0, [])
           else if n < 0 then Some (st, n, [])
           else (let again = int YAPS_HW_WINDOW_SIZE_BYTES < n; n = min n (int YAPS_HW_WINDOW_SIZE_BYTES)
                 in if yaps_access_lock a then Some (st, -1, [])
                    else do {
                      (st, r) \<leftarrow> read_into bus (ysl_addr a) n (a\<lparr>yaps_access_lock := True\<rparr>, d);
                      (st, r, xs) \<leftarrow> (if r \<noteq> 0 then Some (st, r, []) else read_walk bus crc7 alloc num_pkts_max 0 n st);
                      Some (unlock_yaps (st, if again \<and> r = 0 then - EAGAIN else r, xs))
                    }))"

section \<open>The status registers\<close>

definition STATUS_REGS_LEN :: nat where "STATUS_REGS_LEN = 72"

definition parse_status :: "u8 list \<Rightarrow> yaps_status option" where
  "parse_status b =
     do {
       p0 \<leftarrow> le32_at b 0; p1 \<leftarrow> le32_at b 4; p2 \<leftarrow> le32_at b 8; p3 \<leftarrow> le32_at b 12;
       n0 \<leftarrow> le32_at b 32; n1 \<leftarrow> le32_at b 36; n2 \<leftarrow> le32_at b 40; n3 \<leftarrow> le32_at b 44;
       fc \<leftarrow> le32_at b 48; bytes \<leftarrow> le32_at b 56; crc \<leftarrow> le32_at b 60; lock \<leftarrow> le32_at b 68;
       Some \<lparr>tc_tx_pool_num_pages = p0, tc_cmd_pool_num_pages = p1, tc_beacon_pool_num_pages = p2, tc_mgmt_pool_num_pages = p3,
             tc_tx_num_pkts = n0, tc_cmd_num_pkts = n1, tc_beacon_num_pkts = n2, tc_mgmt_num_pkts = n3,
             fc_num_pkts = fc, fc_rx_bytes_in_queue = bytes, tc_delim_crc_fail_detected = crc, status_lock = lock\<rparr>
     }"

text \<open>The registers are read until the chip has unlocked them; \<open>tries\<close> reads fit into the 100 ms the code waits.\<close>

primrec read_status :: "'d bus_ops \<Rightarrow> nat \<Rightarrow> yaps_aux \<times> 'd \<Rightarrow> ((yaps_aux \<times> 'd) \<times> int) option" where
  "read_status bus 0 st = Some (st, - ETIMEDOUT)"
| "read_status bus (Suc tries) st =
     (case morse_dm_read bus (status_regs_addr (fst st)) STATUS_REGS_LEN (snd st) of
        (d, r, b) \<Rightarrow>
          if r \<noteq> 0 then Some ((fst st, d), r)
          else do {
            s \<leftarrow> parse_status b;
            (let st = (fst st\<lparr>status_regs := s\<rparr>, d)
             in if status_lock s \<noteq> 0 then read_status bus tries st else Some (st, 0))
          })"

definition morse_yaps_hw_update_status :: "'d bus_ops \<Rightarrow> nat \<Rightarrow> yaps_aux \<times> 'd \<Rightarrow> ((yaps_aux \<times> 'd) \<times> int) option" where
  "morse_yaps_hw_update_status bus tries st =
     (if yaps_access_lock (fst st) then Some (st, -1)
      else do {
        (st, r) \<leftarrow> read_status bus tries (fst st\<lparr>yaps_access_lock := True\<rparr>, snd st);
        Some (unlock_yaps (st, if r = 0 \<and> tc_delim_crc_fail_detected (status_regs (fst st)) \<noteq> 0 then - EIO else r))
      })"

section \<open>The table of the firmware\<close>

text \<open>The fields of \<open>struct morse_yaps_hw_table\<close> the code uses later; the structure is packed.\<close>

definition morse_yaps_fill_aux_data_from_hw_tbl :: "u8 list \<Rightarrow> yaps_aux \<Rightarrow> yaps_aux option" where
  "morse_yaps_fill_aux_data_from_hw_tbl tbl a =
     do {
       ysl \<leftarrow> le32_at tbl 4; yds \<leftarrow> le32_at tbl 8; regs \<leftarrow> le32_at tbl 12;
       tx_q \<leftarrow> nth_opt tbl 26; cmd_q \<leftarrow> nth_opt tbl 27; beacon_q \<leftarrow> nth_opt tbl 28; mgmt_q \<leftarrow> nth_opt tbl 29;
       reserved \<leftarrow> le16_at tbl 32;
       Some (a\<lparr>ysl_addr := ysl, yds_addr := yds, status_regs_addr := regs, tc_tx_q_size := unat tx_q, tc_cmd_q_size := unat cmd_q,
               tc_beacon_q_size := unat beacon_q, tc_mgmt_q_size := unat mgmt_q, reserved_yaps_page_size := unat reserved\<rparr>)
     }"

end
