(* ===== verification/Yaps.thy ===== *)
theory Yaps
  imports Pageset Yaps_Hw
begin

text \<open>
  \<^verbatim>\<open>yaps.c\<close>: the queues over the stream of packets. The work item reads what the chip has, then sends the queues in a fixed
  order; when the chip is full, data waits until the chip says that packets were freed or a timer runs off.
\<close>

section \<open>State\<close>

definition MAX_PKTS_PER_TX_TXN :: nat where "MAX_PKTS_PER_TX_TXN = 16"
definition MAX_PKTS_PER_RX_TXN :: nat where "MAX_PKTS_PER_RX_TXN = 32"

text \<open>
  \<open>struct morse_yaps\<close>, with the driver's part of \<open>struct morse\<close> in \<open>y_drv\<close> (whose queues are those to the chip) and the chip
  in \<open>y_dev\<close>. \<open>full_timer\<close> is the timer of \<open>chip_queue_full\<close>, \<open>y_rx_ptr\<close> the address of the next frame received.
\<close>

record 'd yaps =
  y_drv :: driver
  y_dev :: 'd
  aux_data :: yaps_aux
  data_rx_q :: morse_skbq
  cmd_resp_q :: morse_skbq
  y_stats :: pageset_stats
  rx_empty :: nat
  is_full :: bool
  retry_expiry :: u64
  full_timer :: "u64 option"
  finishing :: bool
  y_net_work :: bool
  y_tasklet :: bool
  y_rx_ptr :: nat

text \<open>
  What the code calls or reads: the bus, the kernel's CRC, the allocator, the octets of a frame, how many status reads fit into the
  time the code waits, whether checksums are checked, and \<open>CHIP_FULL_RECOVERY_TIMEOUT_MS\<close> in jiffies.
\<close>

record 'd yaps_env =
  y_bus :: "'d bus_ops"
  y_crc7 :: "u8 \<Rightarrow> u8 \<Rightarrow> u8"
  y_alloc :: "nat \<Rightarrow> bool"
  y_octets :: "sk_buff \<Rightarrow> u8 list"
  y_tries :: nat
  y_validate :: bool
  y_timeout :: u64

definition skbq_yaps_tc_q_from_aci :: "nat \<Rightarrow> qname option" where
  "skbq_yaps_tc_q_from_aci aci = (if 4 \<le> aci then None else Some (Data_q aci))"

definition morse_yaps_get_tx_status_pending_count :: "driver \<Rightarrow> nat" where
  "morse_yaps_get_tx_status_pending_count d =
     pend_len d Beacon_q + pend_len d Mgmt_q + pend_len d Cmd_q + sum_list (map (pend_len d) tx_qs)"

definition morse_yaps_get_tx_buffered_count :: "driver \<Rightarrow> nat" where
  "morse_yaps_get_tx_buffered_count d =
     qlen d Beacon_q + pend_len d Beacon_q + (qlen d Mgmt_q + pend_len d Mgmt_q) + (qlen d Cmd_q + pend_len d Cmd_q) +
     sum_list (map (\<lambda>q. morse_skbq_count_tx_ready (mors d) (queues d q) + pend_len d q) tx_qs)"

definition morse_yaps_ops :: chip_if_ops where
  "morse_yaps_ops =
     \<lparr>skbq_tc_q_from_aci = skbq_yaps_tc_q_from_aci, skbq_mgmt_tc_q = Some Mgmt_q, skbq_bcn_tc_q = Some Beacon_q,
      skbq_get_tx_qs = tx_qs, skbq_get_tx_buffered_count = morse_yaps_get_tx_buffered_count\<rparr>"

text \<open>\<open>time_before\<close>: the clock may wrap.\<close>

definition time_before :: "u64 \<Rightarrow> u64 \<Rightarrow> bool" where
  "time_before a b \<longleftrightarrow> sint (a - b) < 0"

definition on_morse :: "(morse \<Rightarrow> morse) \<Rightarrow> 'd yaps \<Rightarrow> 'd yaps" where
  "on_morse f st = st\<lparr>y_drv := on_mors f (y_drv st)\<rparr>"

definition with_queue :: "qname \<Rightarrow> (morse \<times> morse_skbq \<Rightarrow> morse \<times> morse_skbq) \<Rightarrow> 'd yaps \<Rightarrow> 'd yaps" where
  "with_queue q f st =
     (let d = y_drv st
      in case f (mors d, queues d q) of (m, mq) \<Rightarrow> st\<lparr>y_drv := d\<lparr>mors := m, queues := (queues d)(q := mq)\<rparr>\<rparr>)"

definition count_stats :: "(pageset_stats \<Rightarrow> pageset_stats) \<Rightarrow> 'd yaps \<Rightarrow> 'd yaps" where
  "count_stats f st = st\<lparr>y_stats := f (y_stats st)\<rparr>"

definition pending_event :: "chip_event \<Rightarrow> 'd yaps \<Rightarrow> bool" where
  "pending_event v st \<longleftrightarrow> v \<in> event_flags (mors (y_drv st))"

definition raise_event :: "chip_event \<Rightarrow> 'd yaps \<Rightarrow> 'd yaps" where
  "raise_event v = on_morse (\<lambda>m. m\<lparr>event_flags := insert v (event_flags m)\<rparr>)"

definition drop_event :: "chip_event \<Rightarrow> 'd yaps \<Rightarrow> 'd yaps" where
  "drop_event v = on_morse (\<lambda>m. m\<lparr>event_flags := event_flags m - {v}\<rparr>)"

definition queue_work :: "'d yaps \<Rightarrow> 'd yaps" where
  "queue_work = on_morse (\<lambda>m. m\<lparr>chip_work_queued := True\<rparr>)"

definition on_hw :: "((yaps_aux \<times> 'd) \<times> 'r) \<Rightarrow> 'd yaps \<Rightarrow> 'd yaps \<times> 'r" where
  "on_hw x st = (case x of ((a, d), r) \<Rightarrow> (st\<lparr>aux_data := a, y_dev := d\<rparr>, r))"

section \<open>Interrupts and the timer\<close>

definition yaps_irq_handler :: "u32 \<Rightarrow> 'd yaps \<Rightarrow> 'd yaps" where
  "yaps_irq_handler status st =
     (let st = (if bit status 0 then raise_event RX_PEND st else st);
          st = (if bit status 1 then raise_event TX_PACKET_FREED_UP_PEND (st\<lparr>full_timer := None\<rparr>) else st)
      in queue_work st)"

definition morse_tx_chip_full_timer :: "'d yaps \<Rightarrow> 'd yaps" where
  "morse_tx_chip_full_timer st = queue_work st"

section \<open>One frame from the chip\<close>

definition yaps_rx_queue :: "nat \<Rightarrow> rx_queue option" where
  "yaps_rx_queue c =
     (if c = CHAN_DATA \<or> c = CHAN_NDP_FRAMES \<or> c = CHAN_TX_STATUS \<or> c = CHAN_DATA_NOACK \<or> c = CHAN_BEACON \<or>
         c = CHAN_MGMT \<or> c = CHAN_WIPHY \<or> c = CHAN_LOOPBACK then Some Rx_data
      else if c = CHAN_COMMAND then Some Rx_cmd else None)"

definition rx_room :: "rx_queue \<Rightarrow> 'd yaps \<Rightarrow> nat" where
  "rx_room q st = morse_skbq_space (case q of Rx_data \<Rightarrow> data_rx_q st | Rx_cmd \<Rightarrow> cmd_resp_q st)"

definition rx_enq :: "rx_queue \<Rightarrow> sk_buff \<Rightarrow> 'd yaps \<Rightarrow> 'd yaps" where
  "rx_enq q s st =
     (case q of
        Rx_data \<Rightarrow> st\<lparr>data_rx_q := fst (morse_skbq_enq [s] (data_rx_q st))\<rparr>
      | Rx_cmd \<Rightarrow> st\<lparr>cmd_resp_q := fst (morse_skbq_enq [s] (cmd_resp_q st))\<rparr>)"

text \<open>
  The header and the checksum; then the frame is cut to the length its header gives, which may be less than the octets received but
  not more, and queued if the length the header gives fits. A frame that is not queued is freed.
\<close>

definition morse_yaps_read_pkt :: "'d yaps_env \<Rightarrow> u8 list \<Rightarrow> 'd yaps \<Rightarrow> ('d yaps \<times> int) option" where
  "morse_yaps_read_pkt env b st =
     do {
       h \<leftarrow> rx_header_of b;
       if rh_sync h \<noteq> MORSE_SKB_HEADER_SYNC then Some (st, - EIO)
       else do {
         (b, valid) \<leftarrow> (if y_validate env then morse_validate_skb_checksum b else Some (b, True));
         (let st = (if valid then st else count_stats (\<lambda>s. s\<lparr>invalid_checksum := invalid_checksum s + 1\<rparr>) st)
          in if \<not> valid \<and> rh_channel h \<noteq> CHAN_TX_STATUS then Some (st, - EIO)
             else (let st = (if valid then st
                             else count_stats (\<lambda>s. s\<lparr>invalid_tx_status_checksum := invalid_tx_status_checksum s + 1\<rparr>) st)
                   in case yaps_rx_queue (rh_channel h) of
                        None \<Rightarrow> Some (st, - EIO)
                      | Some q \<Rightarrow>
                          (let len = SKB_HEADER_SIZE + rh_offset h + rh_len h; st = st\<lparr>y_net_work := True\<rparr>
                           in if rx_room q st < len then Some (st, - ENOMEM)
                              else do {
                                (let b = take len b
                                 in do {
                                   ts \<leftarrow> tx_statuses_of (drop (SKB_HEADER_SIZE + rh_offset h) b);
                                   Some (rx_enq q (rx_skb (y_rx_ptr st) h (length b) ts) (st\<lparr>y_rx_ptr := y_rx_ptr st + 1\<rparr>), 0)
                                 })
                              })))
       }
     }"

primrec read_pkts_walk :: "'d yaps_env \<Rightarrow> (u8 list \<times> nat) list \<Rightarrow> 'd yaps \<Rightarrow> 'd yaps option" where
  "read_pkts_walk env [] st = Some st"
| "read_pkts_walk env (p # ps) st = do { (st, _) \<leftarrow> morse_yaps_read_pkt env (fst p) st; read_pkts_walk env ps st }"

definition update_status :: "'d yaps_env \<Rightarrow> 'd yaps \<Rightarrow> ('d yaps \<times> int) option" where
  "update_status env st =
     map_option (\<lambda>x. on_hw x st) (morse_yaps_hw_update_status (y_bus env) (y_tries env) (aux_data st, y_dev st))"

text \<open>What was received before an error is not processed.\<close>

definition morse_yaps_rx_handler :: "'d yaps_env \<Rightarrow> 'd yaps \<Rightarrow> ('d yaps \<times> bool) option" where
  "morse_yaps_rx_handler env st =
     do {
       (st, r) \<leftarrow> update_status env st;
       if r \<noteq> 0 then Some (st, r = - ENOMEM \<or> r = - EAGAIN)
       else do {
         x \<leftarrow> morse_yaps_hw_read_pkts (y_bus env) (y_crc7 env) (y_alloc env) MAX_PKTS_PER_RX_TXN (aux_data st, y_dev st);
         (case on_hw x st of
            (st, r, ps) \<Rightarrow>
              if r \<noteq> 0 \<and> r \<noteq> - EAGAIN then Some (st, r = - ENOMEM)
              else do {
                st \<leftarrow> read_pkts_walk env ps (if ps = [] then st\<lparr>rx_empty := rx_empty st + 1\<rparr> else st);
                Some (st, r = - EAGAIN)
              })
       }
     }"

section \<open>Sending a queue\<close>

definition tc_queue_of :: "sk_buff \<Rightarrow> nat" where
  "tc_queue_of s =
     (if sk_chan s = CHAN_COMMAND then MORSE_YAPS_CMD_Q
      else if sk_chan s = CHAN_BEACON then MORSE_YAPS_BEACON_Q
      else if sk_chan s = CHAN_MGMT then MORSE_YAPS_MGMT_Q
      else MORSE_YAPS_TX_Q)"

definition tc_pkt_of :: "'d yaps_env \<Rightarrow> sk_buff \<Rightarrow> tc_pkt" where
  "tc_pkt_of env s = (y_octets env s, tc_queue_of s)"

definition purge_old :: "qname \<Rightarrow> 'd yaps \<Rightarrow> 'd yaps" where
  "purge_old q st =
     (if q = Cmd_q then with_queue q (\<lambda>x. fst (morse_skbq_purge_pending x)) st
      else if q = Mgmt_q then with_queue q morse_skbq_purge_aged st else st)"

text \<open>The first \<open>n\<close> frames were sent; the others go back to the head of the queue, and those that do not fit there are freed.\<close>

definition tx_done :: "qname \<Rightarrow> sk_buff list \<Rightarrow> nat \<Rightarrow> 'd yaps \<Rightarrow> 'd yaps" where
  "tx_done q xs n st =
     (let sent = take n xs; failed = drop n xs;
          st = count_stats (fold (\<lambda>s. count_tx (sk_chan s)) sent) st;
          st = count_stats (\<lambda>s. s\<lparr>no_page := no_page s + length failed\<rparr>) st;
          st = (if failed = [] then st
                else (case morse_skbq_enq_prepend failed (queues (y_drv st) q) of
                        (mq, rest, _) \<Rightarrow>
                          on_morse (\<lambda>m. fst (morse_skbq_purge rest m))
                            (count_stats (\<lambda>s. s\<lparr>write_fail := write_fail s + length rest\<rparr>)
                              (st\<lparr>y_drv := (y_drv st)\<lparr>queues := (queues (y_drv st))(q := mq)\<rparr>\<rparr>))))
      in if sent = [] then st else with_queue q (morse_skbq_tx_complete sent) st)"

text \<open>When the status cannot be read, the frames taken from the queue are left behind.\<close>

definition morse_yaps_tx :: "'d yaps_env \<Rightarrow> qname \<Rightarrow> 'd yaps \<Rightarrow> ('d yaps \<times> int) option" where
  "morse_yaps_tx env q st =
     (if skbq (queues (y_drv st) q) = [] then Some (st, 0)
      else (let st = purge_old q st;
                (mq, xs) = morse_skbq_deq_num_items MAX_PKTS_PER_TX_TXN (queues (y_drv st) q);
                st = st\<lparr>y_drv := (y_drv st)\<lparr>queues := (queues (y_drv st))(q := mq)\<rparr>\<rparr>
            in do {
              (st, r) \<leftarrow> update_status env st;
              if r \<noteq> 0 then Some (st, r)
              else do {
                x \<leftarrow> morse_yaps_hw_write_pkts (y_bus env) (y_crc7 env) (map (tc_pkt_of env) xs) (aux_data st, y_dev st);
                (case on_hw x st of (st, r, n) \<Rightarrow> Some (tx_done q xs n st, r))
              }
            }))"

section \<open>The handlers of the work item\<close>

text \<open>The result is whether there is more to do.\<close>

definition tx_queue_handler :: "'d yaps_env \<Rightarrow> qname \<Rightarrow> 'd yaps \<Rightarrow> ('d yaps \<times> bool) option" where
  "tx_queue_handler env q st =
     do { (st, _) \<leftarrow> morse_yaps_tx env q st; Some (st, 0 < morse_skbq_count (queues (y_drv st) q)) }"

primrec tx_acis :: "'d yaps_env \<Rightarrow> nat list \<Rightarrow> 'd yaps \<Rightarrow> nat \<Rightarrow> ('d yaps \<times> nat) option" where
  "tx_acis env [] st n = Some (st, n)"
| "tx_acis env (aci # acis) st n =
     (if \<not> morse_is_data_tx_allowed (mors (y_drv st)) then Some (st, n)
      else do {
        (st, r) \<leftarrow> morse_yaps_tx env (Data_q aci) st;
        (let st = st\<lparr>is_full := (r \<noteq> 0)\<rparr>; n = n + morse_skbq_count (queues (y_drv st) (Data_q aci))
         in if r \<noteq> 0 then Some (st, n) else tx_acis env acis st n)
      })"

definition morse_yaps_tx_data_handler :: "'d yaps_env \<Rightarrow> 'd yaps \<Rightarrow> ('d yaps \<times> bool) option" where
  "morse_yaps_tx_data_handler env st =
     do {
       (st, n) \<leftarrow> tx_acis env [3, 2, 1, 0] st 0;
       (let st = on_morse (morse_skbq_may_wake_tx_queues (map (queues (y_drv st)) tx_qs)) st;
            m = mors (y_drv st);
            st = (if airtime_fairness m \<and> DATA_QS_STOPPED \<notin> state_flags m then st\<lparr>y_tasklet := True\<rparr> else st)
        in Some (st, 0 < n \<and> morse_is_data_tx_allowed (mors (y_drv st))))
     }"

definition stale_one :: "qname \<Rightarrow> 'd yaps \<times> nat \<Rightarrow> 'd yaps \<times> nat" where
  "stale_one q sn =
     (case morse_skbq_check_for_stale_tx (mors (y_drv (fst sn)), queues (y_drv (fst sn)) q) of
        (_, n) \<Rightarrow> (with_queue q (\<lambda>x. fst (morse_skbq_check_for_stale_tx x)) (fst sn), snd sn + n))"

definition morse_yaps_stale_tx_work :: "'d yaps \<Rightarrow> 'd yaps" where
  "morse_yaps_stale_tx_work st =
     (if \<not> stale_status_enabled (mors (y_drv st)) then st
      else (case fold stale_one ([Beacon_q, Mgmt_q] @ tx_qs) (st, 0) of
              (st, n) \<Rightarrow> if n \<noteq> 0 then st\<lparr>y_drv := eval_ps morse_yaps_ops (y_drv st)\<rparr> else st))"

section \<open>The work item\<close>

text \<open>\<open>test_and_clear_bit\<close>, the handler, and the event again when the handler has more to do.\<close>

definition handle :: "chip_event \<Rightarrow> ('d yaps \<Rightarrow> ('d yaps \<times> bool) option) \<Rightarrow> 'd yaps \<Rightarrow> 'd yaps option" where
  "handle v f st =
     (if pending_event v st then do {
        (st, more) \<leftarrow> f (drop_event v st);
        Some (if more then raise_event v st else st)
      } else Some st)"

definition handle_traffic :: "'d yaps \<Rightarrow> 'd yaps" where
  "handle_traffic st =
     (let st = (if pending_event DATA_TRAFFIC_PAUSE_PEND st
                then on_morse morse_skbq_data_traffic_pause (drop_event DATA_TRAFFIC_RESUME_PEND (drop_event DATA_TRAFFIC_PAUSE_PEND st))
                else st)
      in if pending_event DATA_TRAFFIC_RESUME_PEND st
         then on_morse morse_skbq_data_traffic_resume (drop_event DATA_TRAFFIC_RESUME_PEND st) else st)"

definition handle_freed :: "'d yaps \<Rightarrow> 'd yaps" where
  "handle_freed st =
     (if pending_event TX_PACKET_FREED_UP_PEND st then (drop_event TX_PACKET_FREED_UP_PEND st)\<lparr>is_full := False\<rparr> else st)"

text \<open>Data is not looked at while the chip is known to be full and the time to look again has not come.\<close>

definition data_blocked :: "'d yaps \<Rightarrow> bool" where
  "data_blocked st \<longleftrightarrow> is_full st \<and> time_before (jiffies (mors (y_drv st))) (retry_expiry st)"

definition arm_full_timer :: "'d yaps_env \<Rightarrow> 'd yaps \<Rightarrow> 'd yaps" where
  "arm_full_timer env st =
     (let t = jiffies (mors (y_drv st)) + y_timeout env in st\<lparr>retry_expiry := t, full_timer := Some t\<rparr>)"

definition handle_data :: "'d yaps_env \<Rightarrow> 'd yaps \<Rightarrow> 'd yaps option" where
  "handle_data env st =
     (if pending_event TX_DATA_PEND st then do {
        st \<leftarrow> handle TX_DATA_PEND (morse_yaps_tx_data_handler env) st;
        Some (if is_full st then arm_full_timer env st else st)
      } else Some st)"

text \<open>The work is queued again for every event but data, and for data if the chip is not full.\<close>

definition requeue :: "'d yaps \<Rightarrow> 'd yaps" where
  "requeue st =
     (let flags = event_flags (mors (y_drv st))
      in if finishing st then st
         else if flags - {TX_DATA_PEND} \<noteq> {} then queue_work st
         else if \<not> is_full st \<and> flags \<noteq> {} then queue_work st
         else st)"

text \<open>The part of the work before data: frames from the chip, commands, beacons, management frames, pauses, and whether packets were freed.\<close>

definition work_before_data :: "'d yaps_env \<Rightarrow> 'd yaps \<Rightarrow> 'd yaps option" where
  "work_before_data env st =
     do {
       st \<leftarrow> handle RX_PEND (morse_yaps_rx_handler env) st;
       st \<leftarrow> handle TX_COMMAND_PEND (tx_queue_handler env Cmd_q) st;
       st \<leftarrow> handle TX_BEACON_PEND (tx_queue_handler env Beacon_q) st;
       st \<leftarrow> handle TX_MGMT_PEND (tx_queue_handler env Mgmt_q) st;
       Some (handle_freed (handle_traffic st))
     }"

text \<open>\<open>morse_yaps_work\<close>, without the bus and power-save calls. The clock update does not touch this state.\<close>

definition morse_yaps_work :: "'d yaps_env \<Rightarrow> 'd yaps \<Rightarrow> 'd yaps option" where
  "morse_yaps_work env st =
     (if CHIP_UNRESPONSIVE \<in> state_flags (mors (y_drv st)) \<or> event_flags (mors (y_drv st)) = {} then Some st
      else do {
        st \<leftarrow> work_before_data env st;
        if data_blocked st then Some (requeue st)
        else do {
          st \<leftarrow> handle_data env st;
          Some (requeue (drop_event UPDATE_HW_CLOCK_REFERENCE st))
        }
      })"

section \<open>Setting up and taking down\<close>

text \<open>The interface carries data and commands in both directions.\<close>

definition morse_yaps_init :: "morse \<Rightarrow> vif option \<Rightarrow> 'd \<Rightarrow> yaps_aux \<Rightarrow> 'd yaps" where
  "morse_yaps_init m v d a =
     \<lparr>y_drv = \<lparr>mors = m, fm_sta_vif = v,
               queues = (\<lambda>q. if q = Cmd_q then morse_skbq_init True False False
                             else morse_skbq_init False True (q = Beacon_q \<or> q = Mgmt_q))\<rparr>,
      y_dev = d, aux_data = a, data_rx_q = morse_skbq_init False True True, cmd_resp_q = morse_skbq_init True False True,
      y_stats = no_stats, rx_empty = 0, is_full = False, retry_expiry = 0, full_timer = None, finishing = False,
      y_net_work = False, y_tasklet = False, y_rx_ptr = 0\<rparr>"

definition morse_yaps_finish :: "'d yaps \<Rightarrow> 'd yaps" where
  "morse_yaps_finish st =
     (let st = fold (\<lambda>q. with_queue q morse_skbq_finish) all_qs (st\<lparr>finishing := True\<rparr>)
      in st\<lparr>data_rx_q := (data_rx_q st)\<lparr>skbq := [], pending := [], skbq_size := 0\<rparr>,
            cmd_resp_q := (cmd_resp_q st)\<lparr>skbq := [], pending := [], skbq_size := 0\<rparr>, full_timer := None\<rparr>)"

definition morse_yaps_flush_tx_data :: "'d yaps \<Rightarrow> 'd yaps" where
  "morse_yaps_flush_tx_data st = fold (\<lambda>q. with_queue q (\<lambda>x. fst (morse_skbq_tx_flush x))) ([Beacon_q, Mgmt_q] @ tx_qs) st"

definition morse_yaps_flush_cmds :: "'d yaps \<Rightarrow> 'd yaps" where
  "morse_yaps_flush_cmds st =
     (let st = with_queue Cmd_q morse_skbq_finish st
      in st\<lparr>cmd_resp_q := (cmd_resp_q st)\<lparr>skbq := [], pending := [], skbq_size := 0\<rparr>\<rparr>)"

end
