(* ===== verification/Yaps_Stream.thy ===== *)
theory Yaps_Stream
  imports Yaps_Hw
begin

text \<open>
  The stream of packets: what a delimiter says, and that the frames the driver writes are read as they were.
\<close>

unbundle bit_operations_syntax

section \<open>Delimiters\<close>

lemma masks: "(0x3FFF :: u32) = mask 14" "(0x7 :: u32) = mask 3" "(0x3 :: u32) = mask 2" "(0x7F :: u32) = mask 7"
  "(0x1ffffff :: u32) = mask 25"
  by (simp_all add: mask_eq_exp_minus_1)

lemmas delimiter_defs = YAPS_DELIM_SET_PADDING_def YAPS_DELIM_SET_POOL_ID_def YAPS_DELIM_SET_IRQ_def YAPS_DELIM_SET_CRC_def
  YAPS_DELIM_GET_PADDING_def YAPS_DELIM_GET_POOL_ID_def YAPS_DELIM_GET_CRC_def YAPS_DELIM_GET_PHANDLE_SIZE_def
  masks take_bit_eq_mask [symmetric]

lemma unat_of_small: "m < 2 ^ 32 \<Longrightarrow> unat (of_nat m :: u32) = m"
  by (simp add: unat_of_nat)

lemma of_nat_field: "m < 2 ^ k \<Longrightarrow> take_bit k (of_nat m :: u32) = of_nat m"
  by (simp add: take_bit_of_nat take_bit_nat_eq_self flip: of_nat_take_bit)

text \<open>The five fields do not overlap.\<close>

lemma fields:
  fixes s p q c r :: u32
  assumes s: "take_bit 14 s = s"
    and d: "d = (s OR push_bit 17 (take_bit 2 p) OR push_bit 14 (take_bit 3 q) OR push_bit 19 (take_bit 1 r)) OR
    push_bit 25 (take_bit 7 c)"
  shows "take_bit 14 d = s" "take_bit 2 (drop_bit 17 d) = take_bit 2 p" "take_bit 3 (drop_bit 14 d) = take_bit 3 q"
    "take_bit 7 (drop_bit 25 d) = take_bit 7 c"
    "take_bit 25 d = s OR push_bit 17 (take_bit 2 p) OR push_bit 14 (take_bit 3 q) OR push_bit 19 (take_bit 1 r)"
proof -
  have b: "\<not> bit s i" if "14 \<le> i" for i using that s by (metis bit_take_bit_iff not_le)
  then have l: "bit s i \<Longrightarrow> i < 14" for i by (meson not_le)
  note bits = bit_take_bit_iff bit_or_iff bit_push_bit_iff bit_drop_bit_eq
  show "take_bit 14 d = s" unfolding d by (rule bit_word_eqI) (use b l in \<open>auto simp: bits\<close>)
  show "take_bit 2 (drop_bit 17 d) = take_bit 2 p" unfolding d by (rule bit_word_eqI) (use b in \<open>auto simp: bits\<close>)
  show "take_bit 3 (drop_bit 14 d) = take_bit 3 q" unfolding d by (rule bit_word_eqI) (use b in \<open>auto simp: bits\<close>)
  show "take_bit 7 (drop_bit 25 d) = take_bit 7 c" unfolding d by (rule bit_word_eqI) (use b in \<open>auto simp: bits\<close>)
  have "\<not> bit s i" if "25 \<le> i" for i using that b by simp
  then have "i < 25" if "bit s i" for i using that by (meson not_le)
  then show "take_bit 25 d = s OR push_bit 17 (take_bit 2 p) OR push_bit 14 (take_bit 3 q) OR push_bit 19 (take_bit 1 r)"
    unfolding d by (intro bit_word_eqI) (auto simp: bits)
qed

lemma crc_of_low: "morse_yaps_crc crc7 (take_bit 25 d) = morse_yaps_crc crc7 d"
  by (simp add: morse_yaps_crc_def masks take_bit_eq_mask [symmetric])

lemma seven_bits: "take_bit 7 (ucast (drop_bit 1 c) :: u32) = ucast (drop_bit 1 (c :: u8))"
  by (rule bit_word_eqI) (auto simp: bit_take_bit_iff bit_unsigned_iff bit_drop_bit_eq dest: bit_imp_le_length)

lemma crc_width: "take_bit 7 (ucast (morse_yaps_crc crc7 d) :: u32) = ucast (morse_yaps_crc crc7 d)"
  unfolding morse_yaps_crc_def Let_def by (rule seven_bits)

lemma ucast_back: "ucast (ucast c :: u32) = (c :: u8)"
  by (rule bit_word_eqI) (auto simp: bit_simps)

lemma delimiter_read:
  assumes "n + reserved < 2 ^ 14" "pool < 8"
    and d_def: "d = morse_yaps_delimiter crc7 reserved n pool irq"
  shows "YAPS_DELIM_GET_PHANDLE_SIZE d = n + reserved" "YAPS_DELIM_GET_PADDING d = yaps_padding n"
    "YAPS_DELIM_GET_POOL_ID d = pool" "YAPS_DELIM_GET_CRC d = morse_yaps_crc crc7 d"
proof -
  have s: "YAPS_DELIM_SET_PKT_SIZE reserved n = of_nat (n + reserved)"
    using assms(1) by (simp add: YAPS_DELIM_SET_PKT_SIZE_def masks take_bit_eq_mask [symmetric] of_nat_field)
  have t: "take_bit 14 (of_nat (n + reserved) :: u32) = of_nat (n + reserved)"
    using assms(1) by (rule of_nat_field)
  define c where "c = morse_yaps_crc crc7 (of_nat (n + reserved) OR push_bit 17 (take_bit 2 (of_nat (yaps_padding n))) OR
    push_bit 14 (take_bit 3 (of_nat pool)) OR push_bit 19 (take_bit 1 (of_bool irq)))"
  have d: "d = (of_nat (n + reserved) OR push_bit 17 (take_bit 2 (of_nat (yaps_padding n))) OR
      push_bit 14 (take_bit 3 (of_nat pool)) OR push_bit 19 (take_bit 1 (of_bool irq))) OR push_bit 25 (take_bit 7 (ucast c))"
    unfolding d_def morse_yaps_delimiter_def s c_def Let_def by (simp add: delimiter_defs del: of_nat_add)
  note f = fields [OF t, of _ "of_nat (yaps_padding n)" "of_nat pool" "of_bool irq" "ucast c", OF d]
  show "YAPS_DELIM_GET_PHANDLE_SIZE d = n + reserved"
    using assms(1) by (simp add: delimiter_defs f unat_of_small del: of_nat_add)
  have "yaps_padding n < 2 ^ 2" by (simp add: yaps_padding_def)
  then show "YAPS_DELIM_GET_PADDING d = yaps_padding n"
    by (simp add: delimiter_defs f of_nat_field unat_of_small)
  show "YAPS_DELIM_GET_POOL_ID d = pool"
    using assms(2) of_nat_field [of pool 3] by (simp add: delimiter_defs f unat_of_small)
  have "morse_yaps_crc crc7 d = c" by (subst crc_of_low [symmetric]) (simp only: f c_def)
  moreover have "YAPS_DELIM_GET_CRC d = c"
    using crc_width by (simp add: delimiter_defs f c_def ucast_back)
  ultimately show "YAPS_DELIM_GET_CRC d = morse_yaps_crc crc7 d" by simp
qed

text \<open>Delimiters the driver builds are valid, whatever the CRC function.\<close>

lemma delimiter_valid:
  assumes "n + reserved + yaps_padding n \<le> YAPS_MAX_PKT_SIZE_BYTES" "0 < n + reserved" "pool < 8" "4 dvd reserved"
  shows "morse_yaps_is_valid_delimiter crc7 (morse_yaps_delimiter crc7 reserved n pool irq)"
proof -
  have "n + reserved < 2 ^ 14" using assms(1) by (simp add: YAPS_MAX_PKT_SIZE_BYTES_def)
  note r = delimiter_read [OF this assms(3) refl]
  have "(n + reserved) mod 4 = n mod 4" using assms(4) by (auto elim!: dvdE)
  then have "yaps_padding (n + reserved) = yaps_padding n" by (simp add: yaps_padding_def)
  with assms show ?thesis by (simp add: morse_yaps_is_valid_delimiter_def r Let_def)
qed


section \<open>Streams\<close>

text \<open>Packets as the chip gets them: the padded octets, the queue, and whether the delimiter asks for an interrupt.\<close>

type_synonym framed = "(u8 list \<times> nat) \<times> bool"

definition frame_octets :: "(u8 \<Rightarrow> u8 \<Rightarrow> u8) \<Rightarrow> nat \<Rightarrow> framed \<Rightarrow> u8 list" where
  "frame_octets crc7 reserved f =
     (case f of ((x, pool), irq) \<Rightarrow> le32 (morse_yaps_delimiter crc7 reserved (length x) pool irq) @ x)"

definition stream :: "(u8 \<Rightarrow> u8 \<Rightarrow> u8) \<Rightarrow> nat \<Rightarrow> framed list \<Rightarrow> u8 list" where
  "stream crc7 reserved w = concat (map (frame_octets crc7 reserved) w)"

definition frame_ok :: "nat \<Rightarrow> framed \<Rightarrow> bool" where
  "frame_ok reserved f \<longleftrightarrow> 0 < length (fst (fst f)) + reserved \<and> length (fst (fst f)) mod 4 = 0 \<and>
     length (fst (fst f)) + reserved \<le> YAPS_MAX_PKT_SIZE_BYTES \<and> snd (fst f) < 8"

definition padded_as :: "tc_pkt \<Rightarrow> u8 list \<times> nat \<Rightarrow> bool" where
  "padded_as p x \<longleftrightarrow> snd x = snd p \<and> length (fst x) = length (fst p) + yaps_padding (length (fst p)) \<and>
     take (length (fst p)) (fst x) = fst p"

lemma stream_simps [simp]:
  "stream crc7 reserved [] = []"
  "stream crc7 reserved (f # w) = frame_octets crc7 reserved f @ stream crc7 reserved w"
  "stream crc7 reserved (v @ w) = stream crc7 reserved v @ stream crc7 reserved w"
  by (simp_all add: stream_def)

text \<open>The octets of a list of frames are split into these frames.\<close>

lemma read_walk_stream:
  assumes "\<forall>f \<in> set w. frame_ok (reserved_yaps_page_size a) f" "4 dvd reserved_yaps_page_size a"
    "\<forall>f \<in> set w. alloc (length (fst (fst f)))" "length w \<le> k"
    "from_chip_buffer a = pre @ stream crc7 (reserved_yaps_page_size a) w @ post"
  shows "read_walk bus crc7 alloc k (length pre) (int (length (stream crc7 (reserved_yaps_page_size a) w))) (a, d) =
    Some ((a, d), 0, map fst w)"
  using assms(1,3,4,5)
proof (induction w arbitrary: k pre)
  case Nil
  then show ?case by (cases k) simp_all
next
  case (Cons f w)
  obtain x pool irq where f: "f = ((x, pool), irq)" by (metis surj_pair)
  let ?rv = "reserved_yaps_page_size a"
  define delim where "delim = morse_yaps_delimiter crc7 ?rv (length x) pool irq"
  obtain k' where k: "k = Suc k'" using Cons.prems by (cases k) simp_all
  have ok: "0 < length x + ?rv" "length x mod 4 = 0" "length x + ?rv \<le> YAPS_MAX_PKT_SIZE_BYTES" "pool < 8"
    using Cons.prems(1) by (simp_all add: f frame_ok_def)
  have pad: "yaps_padding (length x) = 0" using ok by (simp add: yaps_padding_def)
  have "length x + ?rv < 2 ^ 14" using ok(3) by (simp add: YAPS_MAX_PKT_SIZE_BYTES_def)
  note r = delimiter_read [OF this ok(4) delim_def]
  have v: "morse_yaps_is_valid_delimiter crc7 delim"
    unfolding delim_def using ok pad assms(2) by (intro delimiter_valid) simp_all
  have nz: "delim \<noteq> 0" using r(1) ok(1) by (auto simp: YAPS_DELIM_GET_PHANDLE_SIZE_def)
  have b: "from_chip_buffer a = pre @ le32 delim @ x @ stream crc7 ?rv w @ post"
    using Cons.prems(4) by (simp add: f frame_octets_def delim_def)
  then have b': "from_chip_buffer a = (pre @ le32 delim @ x) @ stream crc7 ?rv w @ post" by simp
  have at: "le32_at (from_chip_buffer a) (length pre) = Some delim"
    unfolding b by (rule le32_at_le32)
  have g: "get_octets (length pre + 4) (int (length x)) (from_chip_buffer a) = Some x"
    unfolding b by (simp add: get_octets_def)
  have al: "alloc (length x)" using Cons.prems(2) by (simp add: f)
  have IH: "read_walk bus crc7 alloc k' (length pre + 4 + length x) (int (length (stream crc7 ?rv w))) (a, d) =
      Some ((a, d), 0, map fst w)"
    using Cons.IH [of k' "pre @ le32 delim @ x"] Cons.prems b' k by (simp add: add.assoc)
  have small: "int (length x) mod 4294967296 = int (length x)"
    using ok(3) by (simp add: YAPS_MAX_PKT_SIZE_BYTES_def)
  show ?case
    using at g al IH nz v r pad ok(1)
    by (simp add: k f frame_octets_def delim_def [symmetric] YAPS_DELIM_GET_PKT_SIZE_def small nat_int)
qed

section \<open>What the driver writes\<close>

text \<open>A bus that keeps what was written, unless it answers with an error.\<close>

type_synonym journal = "(u32 \<times> u8 list) list"

definition recorder :: "(journal \<Rightarrow> int) \<Rightarrow> journal bus_ops" where
  "recorder answer = \<lparr>morse_reg32_read = \<lambda>_ j. (j, 0, 0), morse_reg32_write = \<lambda>_ _ j. (j, 0), morse_dm_read = \<lambda>_ _ j. (j, 0, []),
     morse_dm_write = \<lambda>a xs j. (if answer j = 0 then (j @ [(a, xs)], 0) else (j, answer j))\<rparr>"

lemma recorder_write [simp]:
  "morse_dm_write (recorder answer) a xs j = (if answer j = 0 then (j @ [(a, xs)], 0) else (j, answer j))"
  by (simp add: recorder_def)

lemma put_twice:
  assumes "off + 4 + length xs + pad \<le> length b" "length w = 4"
  obtains b1 b2 y where "put_octets off w b = Some b1" "put_octets (off + 4) xs b1 = Some b2" "length b2 = length b"
    "length y = pad" "take (off + 4 + length xs + pad) b2 = take off b @ w @ xs @ y"
proof
  let ?y = "take pad (drop (off + 4 + length xs) b)"
  let ?b1 = "take off b @ w @ drop (off + 4) b"
  let ?b2 = "take off b @ w @ xs @ drop (off + 4 + length xs) b"
  show "put_octets off w b = Some ?b1" using assms by (simp add: put_octets_def)
  show "put_octets (off + 4) xs ?b1 = Some ?b2" using assms by (simp add: put_octets_def add.commute add.left_commute)
  show "length ?b2 = length b" "length ?y = pad" using assms by simp_all
  show "take (off + 4 + length xs + pad) ?b2 = take off b @ w @ xs @ ?y" using assms by (simp add: min_absorb2)
qed

text \<open>The fields that a check of a packet keeps.\<close>

definition same_setup :: "yaps_aux \<Rightarrow> yaps_aux \<Rightarrow> bool" where
  "same_setup a a' \<longleftrightarrow> yds_addr a' = yds_addr a \<and> reserved_yaps_page_size a' = reserved_yaps_page_size a \<and>
     length (to_chip_buffer a') = length (to_chip_buffer a)"

lemma tc_pool_some: "q < 4 \<longleftrightarrow> tc_pool q a \<noteq> None"
  by (auto simp: tc_pool_def MORSE_YAPS_TX_Q_def MORSE_YAPS_CMD_Q_def MORSE_YAPS_BEACON_Q_def MORSE_YAPS_MGMT_Q_def Let_def)

definition tx_ok :: "nat \<Rightarrow> tc_pkt \<Rightarrow> bool" where
  "tx_ok reserved p \<longleftrightarrow> fst p \<noteq> [] \<and> snd p < 4 \<and> length (fst p) + reserved \<le> YAPS_MAX_PKT_SIZE_BYTES"

lemma set_tc_pool_keeps [simp]:
  "to_chip_buffer (set_tc_pool q x y a) = to_chip_buffer a" "yds_addr (set_tc_pool q x y a) = yds_addr a"
  "reserved_yaps_page_size (set_tc_pool q x y a) = reserved_yaps_page_size a"
  "yaps_access_lock (set_tc_pool q x y a) = yaps_access_lock a"
  by (simp_all add: set_tc_pool_def Let_def)

lemma err_check_total:
  assumes "snd p < 4"
  shows "\<exists>a' r. morse_yaps_hw_write_pkt_err_check p a = Some (a', r) \<and> same_setup a a' \<and> to_chip_buffer a' = to_chip_buffer a \<and>
    (r = 0 \<longrightarrow> length (fst p) + reserved_yaps_page_size a \<le> YAPS_MAX_PKT_SIZE_BYTES)"
proof -
  obtain pages pkts size where "tc_pool (snd p) a = Some (pages, pkts, size)"
    using assms tc_pool_some [of "snd p" a] by auto
  then have "morse_yaps_will_fit n (snd p) a = Some (a, False) \<or>
      (\<exists>x y. morse_yaps_will_fit n (snd p) a = Some (set_tc_pool (snd p) x y a, True))" for n
    by (auto simp: morse_yaps_will_fit_def Let_def)
  from this [of "length (fst p)"] assms show ?thesis
    by (auto simp: morse_yaps_hw_write_pkt_err_check_def MORSE_YAPS_NUM_TC_Q_def same_setup_def EMSGSIZE_def)
qed

lemma padded_length: obtains j where "n + yaps_padding n = 4 * j" "4 * j < n + 4"
proof -
  obtain q r where n: "n = 4 * q + r" "r < 4" by (metis mult_div_mod_eq mod_less_divisor zero_less_numeral)
  then have "n mod 4 = r" by simp
  then have p: "yaps_padding n = (if r = 0 then 0 else 4 - r)" by (simp add: yaps_padding_def)
  show thesis
  proof (cases "r = 0")
    case True
    with n p show thesis by (intro that [of q]) simp_all
  next
    case False
    with n p show thesis by (intro that [of "q + 1"]) simp_all
  qed
qed

lemma four_bound: "(4 * j :: nat) < m + 4 \<Longrightarrow> m + 4 * k \<le> 16128 \<Longrightarrow> 4 * j + 4 * k \<le> 16128"
  by presburger

lemma framed_packet:
  assumes "tx_ok reserved p" "4 dvd reserved" "length y = yaps_padding (length (fst p))"
  shows "frame_ok reserved ((fst p @ y, snd p), irq)" "padded_as p (fst p @ y, snd p)"
proof -
  obtain k where k: "reserved = 4 * k" using assms(2) by blast
  obtain j where j: "length (fst p) + yaps_padding (length (fst p)) = 4 * j" "4 * j < length (fst p) + 4"
    by (rule padded_length)
  have "0 < length (fst p)" using assms(1) by (simp add: tx_ok_def)
  then have "0 < j" using j(1) by (cases j) simp_all
  moreover have "4 * j + 4 * k \<le> 16128"
    using assms(1) by (intro four_bound [OF j(2)]) (simp add: tx_ok_def k YAPS_MAX_PKT_SIZE_BYTES_def)
  ultimately show "frame_ok reserved ((fst p @ y, snd p), irq)"
    using assms j by (auto simp: frame_ok_def tx_ok_def k YAPS_MAX_PKT_SIZE_BYTES_def)
  show "padded_as p (fst p @ y, snd p)" using assms(3) by (simp add: padded_as_def)
qed


text \<open>A transaction under way: the packets in the buffer are whole frames.\<close>

definition batched :: "(u8 \<Rightarrow> u8 \<Rightarrow> u8) \<Rightarrow> yaps_aux \<Rightarrow> yaps_batch \<Rightarrow> framed list \<Rightarrow> bool" where
  "batched crc7 a t pend \<longleftrightarrow>
     take (batch_txn_len t) (to_chip_buffer a) = stream crc7 (reserved_yaps_page_size a) pend \<and>
     batch_txn_len t \<le> YAPS_HW_WINDOW_SIZE_BYTES \<and> length pend = pkts_pending t \<and>
     length (to_chip_buffer a) = YAPS_HW_WINDOW_SIZE_BYTES \<and>
     (\<forall>f \<in> set pend. frame_ok (reserved_yaps_page_size a) f)"

lemma batched_length: "batched crc7 a t pend \<Longrightarrow> batch_txn_len t = length (stream crc7 (reserved_yaps_page_size a) pend)"
  unfolding batched_def by (metis length_take min_absorb2)

text \<open>The windows written and the number of packets reported, when the packets of \<open>pend\<close> were in the buffer and those of \<open>xs\<close> were added.\<close>

definition wrote ::
    "(u8 \<Rightarrow> u8 \<Rightarrow> u8) \<Rightarrow> yaps_aux \<Rightarrow> framed list \<Rightarrow> tc_pkt list \<Rightarrow> yaps_batch \<Rightarrow> journal \<Rightarrow> journal \<Rightarrow> int \<Rightarrow> nat \<Rightarrow> bool" where
  "wrote crc7 a pend ps t j j' r n \<longleftrightarrow>
     (\<exists>ws xs rest. j' = j @ map (\<lambda>w. (yds_addr a, stream crc7 (reserved_yaps_page_size a) w)) ws \<and>
        pend @ xs = concat ws @ rest \<and> list_all2 padded_as (take (length xs) ps) (map fst xs) \<and>
        (\<forall>w \<in> set ws. length (stream crc7 (reserved_yaps_page_size a) w) \<le> YAPS_HW_WINDOW_SIZE_BYTES) \<and>
        (\<forall>f \<in> set xs. frame_ok (reserved_yaps_page_size a) f) \<and>
        (r = 0 \<longrightarrow> rest = [] \<and> n = num_pkts_sent t + length (concat ws)))"

lemma exit_wrote:
  assumes "batched crc7 a t pend"
  shows "\<exists>a' j' r' n. write_exit (recorder answer) t r (a, j) = ((a', j'), r', n) \<and> same_setup a a' \<and> \<not> yaps_access_lock a' \<and>
    (batch_txn_len t = 0 \<longrightarrow> r' = r) \<and> wrote crc7 a pend ps t j j' r' n"
proof -
  have l: "batch_txn_len t = length (stream crc7 (reserved_yaps_page_size a) pend)"
    by (rule batched_length [OF assms])
  show ?thesis
  proof (cases "batch_txn_len t = 0")
    case True
    then have "pend = []" using l by (cases pend) (auto simp: frame_octets_def le32_def split: prod.splits)
    with True show ?thesis using assms
      by (auto simp: write_exit_def same_setup_def wrote_def batched_def intro!: exI [of _ "[]"])
  next
    case False
    show ?thesis
    proof (cases "answer j = 0")
      case True
      then show ?thesis using assms False
        apply (simp add: write_exit_def same_setup_def wrote_def)
        apply (intro exI [of _ "[pend]"] exI [of _ "[]"])
        apply (simp add: batched_def l [symmetric])
        done
    next
      case False
      then show ?thesis using assms \<open>batch_txn_len t \<noteq> 0\<close>
        apply (simp add: write_exit_def same_setup_def wrote_def)
        apply (intro exI [of _ "[]"])
        apply auto
        done
    qed
  qed
qed


lemma wrote_setup: "same_setup a a' \<Longrightarrow> wrote crc7 a' = wrote crc7 a"
  by (simp add: wrote_def same_setup_def fun_eq_iff)

lemma wrote_more:
  assumes "wrote crc7 a (pend @ [f]) ps t' j j' r n" "num_pkts_sent t' = num_pkts_sent t" "padded_as p (fst f)"
    "frame_ok (reserved_yaps_page_size a) f"
  shows "wrote crc7 a pend (p # ps) t j j' r n"
proof -
  obtain ws xs rest where w: "j' = j @ map (\<lambda>w. (yds_addr a, stream crc7 (reserved_yaps_page_size a) w)) ws"
    "pend @ f # xs = concat ws @ rest" "list_all2 padded_as (take (length xs) ps) (map fst xs)"
    "\<forall>w \<in> set ws. length (stream crc7 (reserved_yaps_page_size a) w) \<le> YAPS_HW_WINDOW_SIZE_BYTES"
    "\<forall>f \<in> set xs. frame_ok (reserved_yaps_page_size a) f" "r = 0 \<longrightarrow> rest = [] \<and> n = num_pkts_sent t + length (concat ws)"
    using assms(1,2) unfolding wrote_def by auto
  then show ?thesis using assms(3,4) unfolding wrote_def
    by (intro exI [of _ ws] exI [of _ "f # xs"] exI [of _ rest]) simp
qed

lemma flush_cases:
  assumes "batched crc7 a t pend" "tx_len \<le> YAPS_HW_WINDOW_SIZE_BYTES"
  obtains (failed) r t1 where "flush_window (recorder answer) tx_len t (a, j) = (j, r, t1)" "r \<noteq> 0" "batch_txn_len t1 = 0"
  | (room) t1 pend1 j1 where "flush_window (recorder answer) tx_len t (a, j) = (j1, 0, t1)" "batched crc7 a t1 pend1"
      "batch_txn_len t1 + tx_len \<le> YAPS_HW_WINDOW_SIZE_BYTES"
      "\<And>ps j' r n. wrote crc7 a pend1 ps t1 j1 j' r n \<Longrightarrow> wrote crc7 a pend ps t j j' r n"
proof (cases "YAPS_HW_WINDOW_SIZE_BYTES < batch_txn_len t + tx_len")
  case False
  then show thesis using assms by (intro room [of j t pend]) (simp_all add: flush_window_def)
next
  case True
  show thesis
  proof (cases "answer j = 0")
    case False
    then show thesis using True
      by (intro failed [of "answer j" "t\<lparr>batch_txn_len := 0\<rparr>"]) (auto simp: flush_window_def batched_def)
  next
    case ok: True
    let ?t = "\<lparr>batch_txn_len = 0, pkts_pending = 0, num_pkts_sent = num_pkts_sent t + pkts_pending t\<rparr>"
    let ?s = "stream crc7 (reserved_yaps_page_size a)"
    have l: "length (?s pend) \<le> YAPS_HW_WINDOW_SIZE_BYTES"
      using assms(1) batched_length [OF assms(1)] by (simp add: batched_def)
    show thesis
    proof (rule room [of "j @ [(yds_addr a, ?s pend)]" ?t "[]"])
      show "flush_window (recorder answer) tx_len t (a, j) = (j @ [(yds_addr a, ?s pend)], 0, ?t)"
        using True ok assms(1) by (simp add: flush_window_def batched_def)
      show "batched crc7 a ?t []" "batch_txn_len ?t + tx_len \<le> YAPS_HW_WINDOW_SIZE_BYTES"
        using assms by (simp_all add: batched_def)
      fix ps j' r n
      assume "wrote crc7 a [] ps ?t (j @ [(yds_addr a, ?s pend)]) j' r n"
      then obtain ws xs rest where w: "j' = j @ [(yds_addr a, ?s pend)] @ map (\<lambda>w. (yds_addr a, ?s w)) ws"
        "xs = concat ws @ rest" "list_all2 padded_as (take (length xs) ps) (map fst xs)"
        "\<forall>w \<in> set ws. length (?s w) \<le> YAPS_HW_WINDOW_SIZE_BYTES"
        "\<forall>f \<in> set xs. frame_ok (reserved_yaps_page_size a) f" "r = 0 \<longrightarrow> rest = [] \<and> n = num_pkts_sent t + pkts_pending t + length (concat ws)"
        unfolding wrote_def by auto
      moreover have "length pend = pkts_pending t" using assms(1) by (simp add: batched_def)
      ultimately show "wrote crc7 a pend ps t j j' r n" using l unfolding wrote_def
        by (intro exI [of _ "pend # ws"] exI [of _ xs] exI [of _ rest]) simp
    qed
  qed
qed


lemma write_walk_wrote:
  assumes "batched crc7 a t pend" "4 dvd reserved_yaps_page_size a" "\<forall>p \<in> set ps. fst p \<noteq> [] \<and> snd p < 4"
    "ps \<noteq> [] \<Longrightarrow> tx_ok (reserved_yaps_page_size a) (hd ps)"
  shows "\<exists>a' j' r n. write_walk (recorder answer) crc7 ps t (a, j) = Some ((a', j'), r, n) \<and> same_setup a a' \<and>
    \<not> yaps_access_lock a' \<and> wrote crc7 a pend ps t j j' r n"
  using assms
proof (induction ps arbitrary: a t pend j)
  case Nil
  then show ?case using exit_wrote [OF Nil.prems(1), where answer = answer and r = 0 and j = j and ps = "[]"] by auto
next
  case (Cons p ps)
  let ?m = "length (fst p)" and ?pad = "yaps_padding (length (fst p))"
  have p: "tx_ok (reserved_yaps_page_size a) p" using Cons.prems(4) by simp
  have "?pad \<le> 3" by (simp add: yaps_padding_def) arith
  then have small: "?m + ?pad + 4 \<le> YAPS_HW_WINDOW_SIZE_BYTES"
    using p by (simp add: tx_ok_def YAPS_MAX_PKT_SIZE_BYTES_def YAPS_HW_WINDOW_SIZE_BYTES_def)
  show ?case
  proof (rule flush_cases [OF Cons.prems(1) small, where answer = answer and j = j], goal_cases failed room)
    case (failed r t1)
    have "wrote crc7 a pend (p # ps) t j j r n" for n
      using failed(2) unfolding wrote_def by (rule_tac x = "[]" in exI, rule_tac x = "[]" in exI) simp
    then show ?thesis using failed by (simp add: write_exit_def same_setup_def)
  next
    case (room t1 pend1 j1)
    have "\<exists>a2 r. (case ps of [] \<Rightarrow> Some (a, 0) | p' # _ \<Rightarrow> morse_yaps_hw_write_pkt_err_check p' a) = Some (a2, r) \<and>
        same_setup a a2 \<and> to_chip_buffer a2 = to_chip_buffer a \<and> (r = 0 \<and> ps \<noteq> [] \<longrightarrow> tx_ok (reserved_yaps_page_size a) (hd ps))"
    proof (cases ps)
      case Nil
      then show ?thesis by (simp add: same_setup_def)
    next
      case (Cons q qs)
      with Cons.prems(3) err_check_total [of q a] show ?thesis by (auto simp: tx_ok_def)
    qed
    then obtain a2 r where c: "(case ps of [] \<Rightarrow> Some (a, 0) | p' # _ \<Rightarrow> morse_yaps_hw_write_pkt_err_check p' a) = Some (a2, r)"
      "same_setup a a2" "to_chip_buffer a2 = to_chip_buffer a"
      "r = 0 \<and> ps \<noteq> [] \<longrightarrow> tx_ok (reserved_yaps_page_size a) (hd ps)" by blast
    let ?irq = "ps = [] \<or> r \<noteq> 0"
    define delim where "delim = morse_yaps_delimiter crc7 (reserved_yaps_page_size a2) (?m + ?pad) (snd p) ?irq"
    have b: "batch_txn_len t1 + 4 + ?m + ?pad \<le> length (to_chip_buffer a2)"
      using room(2,3) c(3) by (simp add: batched_def)
    obtain b1 b2 y where put: "put_octets (batch_txn_len t1) (le32 delim) (to_chip_buffer a2) = Some b1"
      "put_octets (batch_txn_len t1 + 4) (fst p) b1 = Some b2" "length b2 = length (to_chip_buffer a2)" "length y = ?pad"
      "take (batch_txn_len t1 + 4 + ?m + ?pad) b2 = take (batch_txn_len t1) (to_chip_buffer a2) @ le32 delim @ fst p @ y"
      by (rule put_twice [OF b length_le32 [of delim]])
    define f where "f = ((fst p @ y, snd p), ?irq)"
    have f: "frame_ok (reserved_yaps_page_size a) f" "padded_as p (fst f)"
      unfolding f_def using framed_packet [OF p Cons.prems(2) put(4)] by simp_all
    let ?a3 = "a2\<lparr>to_chip_buffer := b2\<rparr>"
    let ?t3 = "t1\<lparr>batch_txn_len := batch_txn_len t1 + (?m + ?pad + 4), pkts_pending := pkts_pending t1 + 1\<rparr>"
    have su: "same_setup a ?a3" using c(2) put(3) by (simp add: same_setup_def)
    have rv: "reserved_yaps_page_size a2 = reserved_yaps_page_size a" using c(2) by (simp add: same_setup_def)
    have bt: "batched crc7 ?a3 ?t3 (pend1 @ [f])"
      using room(2,3) put f(1) c(3)
      by (simp add: batched_def f_def frame_octets_def delim_def rv add.assoc add.commute [of 4] add.left_commute [of 4])
    have more: "wrote crc7 ?a3 (pend1 @ [f]) ps ?t3 j1 j' r n \<Longrightarrow> wrote crc7 a pend (p # ps) t j j' r n" for j' r n
      using room(4) wrote_more [OF _ _ f(2,1)] wrote_setup [OF su] by simp
    have step: "write_walk (recorder answer) crc7 (p # ps) t (a, j) =
        (if r \<noteq> 0 then Some (write_exit (recorder answer) ?t3 r (?a3, j1)) else write_walk (recorder answer) crc7 ps ?t3 (?a3, j1))"
      using room(1) c(1) put(1,2) [unfolded delim_def] by (simp add: Let_def)
    show ?thesis
    proof (cases "r = 0")
      case True
      have "\<exists>a' j' r n. write_walk (recorder answer) crc7 ps ?t3 (?a3, j1) = Some ((a', j'), r, n) \<and> same_setup ?a3 a' \<and>
          \<not> yaps_access_lock a' \<and> wrote crc7 ?a3 (pend1 @ [f]) ps ?t3 j1 j' r n"
        using Cons.prems True c(4) rv by (intro Cons.IH [OF bt]) simp_all
      then show ?thesis
        using su more True unfolding step by (auto simp: same_setup_def simp del: write_walk.simps)
    next
      case False
      then show ?thesis
        using exit_wrote [OF bt, where answer = answer and r = r and j = j1 and ps = ps] su more
        unfolding step by (auto simp: same_setup_def)
    qed
  qed
qed

definition splits_into :: "(u8 \<Rightarrow> u8 \<Rightarrow> u8) \<Rightarrow> yaps_aux \<Rightarrow> u8 list \<Rightarrow> (u8 list \<times> nat) list \<Rightarrow> bool" where
  "splits_into crc7 a b xs \<longleftrightarrow>
     map_option snd (read_walk (recorder (\<lambda>_. 0)) crc7 (\<lambda>_. True) (length xs) 0 (int (length b)) (a\<lparr>from_chip_buffer := b\<rparr>, [])) =
       Some (0, xs)"

lemma stream_splits:
  assumes "\<forall>f \<in> set w. frame_ok (reserved_yaps_page_size a) f" "4 dvd reserved_yaps_page_size a"
  shows "splits_into crc7 a (stream crc7 (reserved_yaps_page_size a) w) (map fst w)"
  using read_walk_stream [of w "a\<lparr>from_chip_buffer := stream crc7 (reserved_yaps_page_size a) w\<rparr>" "\<lambda>_. True"
      "length w" "[]" crc7 "[]" "recorder (\<lambda>_. 0)" "[]"] assms
  by (simp add: splits_into_def)

lemma take_all2_map: "list_all2 P (take n xs) ys \<Longrightarrow> list_all2 P (take (min n m) xs) (take m ys)"
  by (metis list_all2_takeI min.commute take_take)

text \<open>C5: Whatever the bus answers, what the driver writes are whole windows, and reading them back gives the packets in order, each with
  its queue and padded to whole words, without a gap or a repetition; if no error is reported, the number reported is the number of packets
  written. This holds for every CRC function and every part the chip reserves in a packet, if it is whole words.\<close>

theorem yaps_written_is_read:
  assumes "ps \<noteq> []" "\<forall>p \<in> set ps. fst p \<noteq> [] \<and> snd p < 4" "\<not> yaps_access_lock a"
    "4 dvd reserved_yaps_page_size a" "length (to_chip_buffer a) = YAPS_HW_WINDOW_SIZE_BYTES"
  shows "\<exists>a' bs xss r n. morse_yaps_hw_write_pkts (recorder answer) crc7 ps (a, []) = Some ((a', map (Pair (yds_addr a)) bs), r, n) \<and>
    list_all2 (splits_into crc7 a) bs xss \<and> (\<forall>b \<in> set bs. length b \<le> YAPS_HW_WINDOW_SIZE_BYTES) \<and>
    list_all2 padded_as (take (length (concat xss)) ps) (concat xss) \<and> (r = 0 \<longrightarrow> n = length (concat xss)) \<and> \<not> yaps_access_lock a'"
proof -
  obtain p qs where ps: "ps = p # qs" using assms(1) by (cases ps) simp_all
  let ?a = "a\<lparr>yaps_access_lock := True\<rparr>" and ?t = "\<lparr>batch_txn_len = 0, pkts_pending = 0, num_pkts_sent = 0\<rparr>"
  obtain a1 r1 where c: "morse_yaps_hw_write_pkt_err_check p ?a = Some (a1, r1)" "same_setup ?a a1" "to_chip_buffer a1 = to_chip_buffer a"
      "r1 = 0 \<longrightarrow> length (fst p) + reserved_yaps_page_size a \<le> YAPS_MAX_PKT_SIZE_BYTES"
    using err_check_total [of p ?a] assms(2) ps by auto
  have b: "batched crc7 a1 ?t []" using c(2) assms(5) by (simp add: batched_def same_setup_def c(3))
  have rv: "reserved_yaps_page_size a1 = reserved_yaps_page_size a" "yds_addr a1 = yds_addr a" using c(2) by (simp_all add: same_setup_def)
  have "\<exists>a' j' r n. (if r1 \<noteq> 0 then Some (write_exit (recorder answer) ?t r1 (a1, [])) else write_walk (recorder answer) crc7 ps ?t (a1, [])) =
      Some ((a', j'), r, n) \<and> \<not> yaps_access_lock a' \<and> wrote crc7 a1 [] ps ?t [] j' r n"
  proof (cases "r1 = 0")
    case True
    then have "tx_ok (reserved_yaps_page_size a1) p" using c(4) assms(2) ps rv by (simp add: tx_ok_def)
    then show ?thesis using write_walk_wrote [OF b, of ps answer "[]"] assms(2,4) rv True ps by auto
  next
    case False
    then show ?thesis using exit_wrote [OF b, where answer = answer and r = r1 and j = "[]" and ps = ps] by auto
  qed
  then obtain a' j' r n where w: "morse_yaps_hw_write_pkts (recorder answer) crc7 ps (a, []) = Some ((a', j'), r, n)"
    "\<not> yaps_access_lock a'" "wrote crc7 a1 [] ps ?t [] j' r n"
    using assms(3) c(1) ps by (auto simp: morse_yaps_hw_write_pkts_def Let_def)
  then obtain ws xs rest where x: "j' = map (\<lambda>w. (yds_addr a, stream crc7 (reserved_yaps_page_size a) w)) ws"
      "xs = concat ws @ rest" "list_all2 padded_as (take (length xs) ps) (map fst xs)"
      "\<forall>w \<in> set ws. length (stream crc7 (reserved_yaps_page_size a) w) \<le> YAPS_HW_WINDOW_SIZE_BYTES"
      "\<forall>f \<in> set xs. frame_ok (reserved_yaps_page_size a) f" "r = 0 \<longrightarrow> n = length (concat ws)"
    unfolding wrote_def by (auto simp: rv)
  let ?xss = "map (map fst) ws" and ?bs = "map (stream crc7 (reserved_yaps_page_size a)) ws"
  have l: "length (concat ?xss) = length (concat ws)" "concat ?xss = take (length (concat ws)) (map fst xs)"
    using x(2) by (simp_all add: map_concat [symmetric] length_concat comp_def)
  have "list_all2 padded_as (take (length (concat ?xss)) ps) (concat ?xss)"
    using take_all2_map [OF x(3), of "length (concat ws)"] x(2) unfolding l by (simp add: min_absorb2)
  moreover have "list_all2 (splits_into crc7 a) ?bs ?xss"
    unfolding list_all2_map1 list_all2_map2 list_all2_same
  proof
    fix w
    assume "w \<in> set ws"
    then have "\<forall>f \<in> set w. frame_ok (reserved_yaps_page_size a) f" using x(2,5) by auto
    then show "splits_into crc7 a (stream crc7 (reserved_yaps_page_size a) w) (map fst w)"
      using assms(4) by (rule stream_splits)
  qed
  ultimately show ?thesis using w(1,2) x(1,4,6) l(1)
    by (intro exI [of _ a'] exI [of _ ?bs] exI [of _ ?xss] exI [of _ r] exI [of _ n]) (simp add: comp_def)
qed

text \<open>Two packets for different queues.\<close>

definition a_status :: yaps_status where
  "a_status = \<lparr>tc_tx_pool_num_pages = 20, tc_cmd_pool_num_pages = 20, tc_beacon_pool_num_pages = 20, tc_mgmt_pool_num_pages = 20,
     tc_tx_num_pkts = 0, tc_cmd_num_pkts = 0, tc_beacon_num_pkts = 0, tc_mgmt_num_pkts = 0,
     fc_num_pkts = 0, fc_rx_bytes_in_queue = 0, tc_delim_crc_fail_detected = 0, status_lock = 0\<rparr>"

definition a_yaps :: "nat \<Rightarrow> yaps_aux" where
  "a_yaps n = \<lparr>yaps_access_lock = False, yds_addr = 0x1000, ysl_addr = 0x2000, status_regs_addr = 0x3000,
     tc_tx_q_size = 8, tc_cmd_q_size = 8, tc_beacon_q_size = 8, tc_mgmt_q_size = 8, reserved_yaps_page_size = 64,
     to_chip_buffer = replicate n 0, from_chip_buffer = replicate n 0, status_regs = a_status, rx_split = 0\<rparr>"

theorem yaps_written_is_read_witness:
  "\<exists>a' bs xss r n. morse_yaps_hw_write_pkts (recorder (\<lambda>_. 0)) (\<lambda>c x. c XOR x) [([1, 2, 3 :: u8], 0 :: nat), ([4, 5, 6, 7, 8], 3)]
      (a_yaps 32768, []) = Some ((a', map (Pair 0x1000) bs), r, n) \<and>
    list_all2 (splits_into (\<lambda>c x. c XOR x) (a_yaps 32768)) bs xss \<and>
    list_all2 padded_as (take (length (concat xss)) [([1, 2, 3 :: u8], 0 :: nat), ([4, 5, 6, 7, 8], 3)]) (concat xss)"
  using yaps_written_is_read [of "[([1, 2, 3 :: u8], 0 :: nat), ([4, 5, 6, 7, 8], 3)]" "a_yaps 32768" "\<lambda>_. 0" "\<lambda>c x. c XOR x"]
  by (simp add: a_yaps_def YAPS_HW_WINDOW_SIZE_BYTES_def) blast

end
