(* ===== verification/Yaps_Bounds.thy ===== *)
theory Yaps_Bounds
  imports Yaps_Stream
begin

text \<open>
  Bounds: the driver writes no more than the chip has room for, and when what it reads stays within the buffers.
\<close>

section \<open>Room in the chip\<close>

lemma tc_pool_set [simp]:
  "q' < 4 \<Longrightarrow> tc_pool q (set_tc_pool q' x y a) =
     (if q = q' then map_option (\<lambda>(_, _, n). (x, y, n)) (tc_pool q a) else tc_pool q a)"
  by (auto simp: tc_pool_def set_tc_pool_def MORSE_YAPS_TX_Q_def MORSE_YAPS_CMD_Q_def MORSE_YAPS_BEACON_Q_def MORSE_YAPS_MGMT_Q_def Let_def)

definition pages_left :: "nat \<Rightarrow> yaps_aux \<Rightarrow> int" where
  "pages_left q a = (case tc_pool q a of None \<Rightarrow> 0 | Some (pages, pkts, n) \<Rightarrow> sint pages)"

definition pkts_left :: "nat \<Rightarrow> yaps_aux \<Rightarrow> int" where
  "pkts_left q a = (case tc_pool q a of None \<Rightarrow> 0 | Some (pages, pkts, n) \<Rightarrow> int n - sint pkts)"

text \<open>The chip reports counts that can be: no queue holds more packets than it has room for.\<close>

definition plausible :: "yaps_aux \<Rightarrow> bool" where
  "plausible a \<longleftrightarrow> (\<forall>q < 4. case tc_pool q a of None \<Rightarrow> True
     | Some (pages, pkts, n) \<Rightarrow> 0 \<le> sint pages \<and> sint pkts \<le> int n \<and> n < 2 ^ 31)"

definition pages_of :: "nat \<Rightarrow> nat \<Rightarrow> tc_pkt list \<Rightarrow> int" where
  "pages_of reserved q ps = (\<Sum>p \<leftarrow> filter (\<lambda>p. snd p = q) ps. int (morse_yaps_pages_required reserved (length (fst p))))"

definition room_for :: "yaps_aux \<Rightarrow> tc_pkt list \<Rightarrow> bool" where
  "room_for a ps \<longleftrightarrow> (\<forall>q < 4. pages_of (reserved_yaps_page_size a) q ps \<le> pages_left q a \<and>
     int (length (filter (\<lambda>p. snd p = q) ps)) \<le> pkts_left q a)"

lemma sint_range: "- (2 ^ 31) \<le> sint (w :: u32)" "sint (w :: u32) < 2 ^ 31"
  using sint_ge [of w] sint_lt [of w] by simp_all

lemma sint_minus: 
  assumes "int k \<le> sint (w :: u32)"
  shows "sint (w - of_nat k) = sint w - int k"
proof -
  have "sint (of_nat k :: u32) = int k"
    using assms sint_range [of w] by (simp add: signed_of_nat signed_take_bit_int_eq_self)
  then show ?thesis using assms sint_range [of w] by (simp add: sint_word_ariths signed_take_bit_int_eq_self)
qed

lemma sint_plus: "sint (w :: u32) < int n \<Longrightarrow> n < 2 ^ 31 \<Longrightarrow> sint (w + 1) = sint w + 1"
  using sint_range [of w] by (simp add: sint_word_ariths signed_take_bit_int_eq_self)

lemma tc_pool_fields [simp]:
  "tc_pool q (a\<lparr>to_chip_buffer := b\<rparr>) = tc_pool q a" "tc_pool q (a\<lparr>yaps_access_lock := l\<rparr>) = tc_pool q a"
  by (simp_all add: tc_pool_def Let_def cong: if_cong)

lemma check_passed:
  assumes "morse_yaps_hw_write_pkt_err_check p a = Some (a', 0)"
  shows "\<exists>pages pkts n. tc_pool (snd p) a = Some (pages, pkts, n) \<and>
    int (morse_yaps_pages_required (reserved_yaps_page_size a) (length (fst p))) \<le> sint pages \<and> int n - sint pkts \<noteq> 0 \<and>
    a' = set_tc_pool (snd p) (pages - of_nat (morse_yaps_pages_required (reserved_yaps_page_size a) (length (fst p)))) (pkts + 1) a"
proof (cases "tc_pool (snd p) a")
  case None
  then show ?thesis using assms
    by (simp add: morse_yaps_hw_write_pkt_err_check_def morse_yaps_will_fit_def EMSGSIZE_def EINVAL_def split: if_splits)
next
  case (Some x)
  obtain pages pkts n where x: "x = (pages, pkts, n)" by (metis prod_cases3)
  show ?thesis using assms Some unfolding x
    by (simp add: morse_yaps_hw_write_pkt_err_check_def morse_yaps_will_fit_def EMSGSIZE_def EINVAL_def EAGAIN_def Let_def not_less
          split: if_splits)
qed

lemma checked:
  assumes "morse_yaps_hw_write_pkt_err_check p a = Some (a', 0)" "plausible a"
  shows "snd p < 4" "plausible a'" "reserved_yaps_page_size a' = reserved_yaps_page_size a"
    "pages_left q a' = pages_left q a - pages_of (reserved_yaps_page_size a) q [p]"
    "pkts_left q a' = pkts_left q a - (if snd p = q then 1 else 0)"
    "pages_of (reserved_yaps_page_size a) (snd p) [p] \<le> pages_left (snd p) a" "1 \<le> pkts_left (snd p) a"
proof -
  let ?k = "morse_yaps_pages_required (reserved_yaps_page_size a) (length (fst p))"
  obtain pages pkts n where t: "tc_pool (snd p) a = Some (pages, pkts, n)" and k: "int ?k \<le> sint pages" "int n - sint pkts \<noteq> 0"
    and a': "a' = set_tc_pool (snd p) (pages - of_nat ?k) (pkts + 1) a"
    using check_passed [OF assms(1)] by blast
  show q: "snd p < 4" using t tc_pool_some [of "snd p" a] by simp
  have n: "sint pkts < int n" "n < 2 ^ 31" using assms(2) [unfolded plausible_def, rule_format, OF q] t k(2) by simp_all
  note s = sint_minus [OF k(1)] sint_plus [OF n]
  show "reserved_yaps_page_size a' = reserved_yaps_page_size a" by (simp add: a')
  show "pages_left q a' = pages_left q a - pages_of (reserved_yaps_page_size a) q [p]"
    using t q by (cases "snd p = q") (simp_all add: a' pages_left_def pages_of_def q s)
  show "pkts_left q a' = pkts_left q a - (if snd p = q then 1 else 0)"
    using t q by (cases "snd p = q") (simp_all add: a' pkts_left_def q s)
  show "plausible a'"
    unfolding plausible_def
  proof (intro allI impI)
    fix q' :: nat
    assume "q' < 4"
    with assms(2) have "case tc_pool q' a of None \<Rightarrow> True
       | Some (pages, pkts, n) \<Rightarrow> 0 \<le> sint pages \<and> sint pkts \<le> int n \<and> n < 2 ^ 31" by (simp add: plausible_def)
    then show "case tc_pool q' a' of None \<Rightarrow> True
       | Some (pages, pkts, n) \<Rightarrow> 0 \<le> sint pages \<and> sint pkts \<le> int n \<and> n < 2 ^ 31"
      using t k n s q by (auto simp: a' split: option.splits)
  qed
  show "pages_of (reserved_yaps_page_size a) (snd p) [p] \<le> pages_left (snd p) a" "1 \<le> pkts_left (snd p) a"
    using t k n by (simp_all add: pages_left_def pkts_left_def pages_of_def)
qed

lemma room_for_more:
  assumes "morse_yaps_hw_write_pkt_err_check p a = Some (a', 0)" "plausible a" "room_for a' ps"
  shows "room_for a (p # ps)"
  unfolding room_for_def
proof (intro allI impI)
  fix q :: nat
  assume q: "q < 4"
  have r: "pages_of (reserved_yaps_page_size a) q ps \<le> pages_left q a'" "int (length (filter (\<lambda>p. snd p = q) ps)) \<le> pkts_left q a'"
    using assms(3) q checked(3) [OF assms(1,2)] by (simp_all add: room_for_def)
  have "pages_of (reserved_yaps_page_size a) q (p # ps) = pages_of (reserved_yaps_page_size a) q [p] + pages_of (reserved_yaps_page_size a) q ps"
    by (simp add: pages_of_def)
  then show "pages_of (reserved_yaps_page_size a) q (p # ps) \<le> pages_left q a \<and> int (length (filter (\<lambda>p. snd p = q) (p # ps))) \<le> pkts_left q a"
    using r checked(4,5) [OF assms(1,2), of q] by auto
qed

lemma room_for_none: "plausible a \<Longrightarrow> room_for a []"
  by (fastforce simp: room_for_def plausible_def pages_of_def pages_left_def pkts_left_def split: option.splits)

lemma write_exit_sent: "write_exit bus t r (a, d) = (st', r', n) \<Longrightarrow> n \<le> num_pkts_sent t + pkts_pending t"
  by (auto simp: write_exit_def split: if_splits prod.splits)

lemma flush_sent:
  "flush_window bus tx_len t (a, d) = (d', r, t') \<Longrightarrow> num_pkts_sent t' + pkts_pending t' \<le> num_pkts_sent t + pkts_pending t"
  by (auto simp: flush_window_def split: if_splits prod.splits)

lemma write_walk_room:
  assumes "write_walk bus crc7 ps t (a, d) = Some (st', r, n)" "plausible a"
  shows "n \<le> num_pkts_sent t + pkts_pending t + length ps \<and>
    (\<exists>k. n \<le> num_pkts_sent t + pkts_pending t + 1 + k \<and> k \<le> length (tl ps) \<and> room_for a (take k (tl ps)))"
  using assms
proof (induction ps arbitrary: t a d)
  case Nil
  then show ?case using write_exit_sent [of bus t 0 a d st' r n] room_for_none by fastforce
next
  case (Cons p ps)
  let ?tx = "length (fst p) + yaps_padding (length (fst p)) + 4"
  obtain d1 r1 t1 where f: "flush_window bus ?tx t (a, d) = (d1, r1, t1)" by (metis prod_cases3)
  note fs = flush_sent [OF f]
  show ?case
  proof (cases "r1 = 0")
    case False
    with Cons.prems(1) f have "write_exit bus t1 r1 (a, d1) = (st', r, n)" by simp
    then show ?thesis using fs write_exit_sent room_for_none [OF Cons.prems(2)] by fastforce
  next
    case True
    obtain a2 r2 where c: "(case ps of [] \<Rightarrow> Some (a, 0) | p' # _ \<Rightarrow> morse_yaps_hw_write_pkt_err_check p' a) = Some (a2, r2)"
      using Cons.prems(1) f True by (auto simp: Let_def split: bind_splits)
    then obtain b where rest: "let a = a2\<lparr>to_chip_buffer := b\<rparr>;
                       t = t1\<lparr>batch_txn_len := batch_txn_len t1 + ?tx, pkts_pending := pkts_pending t1 + 1\<rparr>
                   in (if r2 \<noteq> 0 then Some (write_exit bus t r2 (a, d1)) else write_walk bus crc7 ps t (a, d1)) = Some (st', r, n)"
      using Cons.prems(1) f True by (auto simp: Let_def split: bind_splits)
    let ?a = "a2\<lparr>to_chip_buffer := b\<rparr>"
    let ?t = "t1\<lparr>batch_txn_len := batch_txn_len t1 + ?tx, pkts_pending := pkts_pending t1 + 1\<rparr>"
    show ?thesis
    proof (cases "r2 = 0")
      case False
      then have "write_exit bus ?t r2 (?a, d1) = (st', r, n)" using rest by (simp add: Let_def)
      then have "n \<le> num_pkts_sent t + pkts_pending t + 1" using fs write_exit_sent by fastforce
      then show ?thesis using room_for_none [OF Cons.prems(2)] by (auto intro!: exI [of _ 0])
    next
      case ok: True
      then have w: "write_walk bus crc7 ps ?t (?a, d1) = Some (st', r, n)" using rest by (simp add: Let_def)
      show ?thesis
      proof (cases ps)
        case Nil
        then show ?thesis using w fs write_exit_sent [of bus ?t 0 ?a d1 st' r n] room_for_none [OF Cons.prems(2)]
          by (auto intro!: exI [of _ 0])
      next
        case ps: (Cons q qs)
        then have e: "morse_yaps_hw_write_pkt_err_check q a = Some (a2, 0)" using c ok by simp
        have "plausible ?a" using checked(2) [OF e Cons.prems(2)] by (simp add: plausible_def)
        from Cons.IH [OF w this] ps obtain k where k: "n \<le> num_pkts_sent t1 + pkts_pending t1 + 1 + length ps"
          "n \<le> num_pkts_sent t1 + pkts_pending t1 + 2 + k" "k \<le> length qs" "room_for ?a (take k qs)" by auto
        have "room_for a2 (take k qs)" using k(4) by (simp add: room_for_def pages_left_def pkts_left_def)
        then have "room_for a (q # take k qs)" by (rule room_for_more [OF e Cons.prems(2)])
        then show ?thesis using k fs ps by (auto intro!: exI [of _ "Suc k"])
      qed
    qed
  qed
qed

lemma pages_of_append: "pages_of reserved q (ps @ qs) = pages_of reserved q ps + pages_of reserved q qs"
  by (simp add: pages_of_def)

lemma pages_of_nonneg: "0 \<le> pages_of reserved q ps"
  by (auto simp: pages_of_def intro!: sum_list_nonneg)

lemma room_for_take: 
  assumes "room_for a ps"
  shows "room_for a (take m ps)"
  unfolding room_for_def
proof (intro allI impI)
  fix q :: nat
  assume q: "q < 4"
  have "pages_of r q ps = pages_of r q (take m ps) + pages_of r q (drop m ps)" for r
    by (simp flip: pages_of_append)
  moreover have "filter (\<lambda>p. snd p = q) ps = filter (\<lambda>p. snd p = q) (take m ps) @ filter (\<lambda>p. snd p = q) (drop m ps)"
    by (simp flip: filter_append)
  ultimately show "pages_of (reserved_yaps_page_size a) q (take m ps) \<le> pages_left q a \<and>
      int (length (filter (\<lambda>p. snd p = q) (take m ps))) \<le> pkts_left q a"
    using assms q pages_of_nonneg [of "reserved_yaps_page_size a" q "drop m ps"] unfolding room_for_def by fastforce
qed

text \<open>C16: The packets reported as sent fit, for every queue together, into the pages and the packet slots the chip reported before,
  each with its metadata page and the spare page. The chip's counts need only be possible ones.\<close>

theorem yaps_fits_the_chip:
  assumes "morse_yaps_hw_write_pkts bus crc7 ps (a, d) = Some (st', r, n)" "plausible a"
  shows "n \<le> length ps \<and> room_for a (take n ps)"
proof (cases "yaps_access_lock a")
  case True
  then show ?thesis using assms room_for_none [OF assms(2)] by (auto simp: morse_yaps_hw_write_pkts_def)
next
  case False
  let ?a = "a\<lparr>yaps_access_lock := True\<rparr>" and ?t = "\<lparr>batch_txn_len = 0, pkts_pending = 0, num_pkts_sent = 0\<rparr>"
  have a: "plausible ?a" "room_for ?a = room_for a"
    using assms(2) by (simp_all add: plausible_def room_for_def pages_left_def pkts_left_def fun_eq_iff)
  obtain p qs a1 r1 where ps: "ps = p # qs" and c: "morse_yaps_hw_write_pkt_err_check p ?a = Some (a1, r1)"
    and w: "(if r1 \<noteq> 0 then Some (write_exit bus ?t r1 (a1, d)) else write_walk bus crc7 ps ?t (a1, d)) = Some (st', r, n)"
    using assms(1) False by (cases ps) (auto simp: morse_yaps_hw_write_pkts_def Let_def split: bind_splits)
  show ?thesis
  proof (cases "r1 = 0")
    case False
    then have "n = 0" using w write_exit_sent [of bus ?t r1 a1 d st' r n] by simp
    then show ?thesis using room_for_none [OF assms(2)] by simp
  next
    case True
    then obtain k where k: "n \<le> length ps" "n \<le> 1 + k" "k \<le> length qs" "room_for a1 (take k qs)"
      using write_walk_room [of bus crc7 ps ?t a1 d st' r n] w checked(2) [of p ?a a1] a(1) c ps by auto
    have "room_for a1 (take (n - 1) qs)"
      using room_for_take [OF k(4), of "n - 1"] k(2) by (simp add: min_absorb1)
    then have "room_for a (p # take (n - 1) qs)"
      using room_for_more [of p ?a a1] c True a by simp
    then show ?thesis using k(1) ps room_for_none [OF assms(2)] by (cases n) simp_all
  qed
qed

section \<open>Reading whole words\<close>

definition reads_all :: "'d bus_ops \<Rightarrow> bool" where
  "reads_all bus \<longleftrightarrow> (\<forall>addr n d. length (snd (snd (morse_dm_read bus addr n d))) = n)"

lemma read_into_total:
  assumes "reads_all bus" "0 \<le> n" "nat n \<le> length (from_chip_buffer a)"
  shows "\<exists>b d' r. read_into bus addr n (a, d) = Some ((a\<lparr>from_chip_buffer := b\<rparr>, d'), r) \<and> length b = length (from_chip_buffer a)"
proof -
  obtain d' r xs where x: "morse_dm_read bus addr (nat n) d = (d', r, xs)" by (metis prod_cases3)
  then have "length xs = nat n" using assms(1) unfolding reads_all_def by (metis snd_conv)
  then show ?thesis using assms(2,3) x
    by (cases "r = 0") (auto simp: read_into_def put_octets_def intro: exI [of _ "from_chip_buffer a"])
qed

lemma valid_delimiter_sizes:
  assumes "morse_yaps_is_valid_delimiter crc7 d" "4 dvd reserved"
  shows "4 dvd YAPS_DELIM_GET_PKT_SIZE reserved d + int (YAPS_DELIM_GET_PADDING d)" "YAPS_DELIM_GET_PADDING d < 4"
    "YAPS_DELIM_GET_PKT_SIZE reserved d + int (YAPS_DELIM_GET_PADDING d) \<le> 16128"
proof -
  let ?n = "YAPS_DELIM_GET_PHANDLE_SIZE d"
  have v: "YAPS_DELIM_GET_PADDING d = yaps_padding ?n" "?n + YAPS_DELIM_GET_PADDING d \<le> 16128"
    using assms(1) by (auto simp: morse_yaps_is_valid_delimiter_def Let_def YAPS_MAX_PKT_SIZE_BYTES_def split: if_splits)
  obtain j where j: "?n + yaps_padding ?n = 4 * j" "4 * j < ?n + 4" by (rule padded_length)
  obtain k where k: "reserved = 4 * k" using assms(2) by blast
  have "YAPS_DELIM_GET_PKT_SIZE reserved d + int (YAPS_DELIM_GET_PADDING d) = int (?n + yaps_padding ?n) - int reserved"
    by (simp add: YAPS_DELIM_GET_PKT_SIZE_def v)
  then have s: "YAPS_DELIM_GET_PKT_SIZE reserved d + int (YAPS_DELIM_GET_PADDING d) = 4 * (int j - int k)" by (simp add: j k)
  then show "4 dvd YAPS_DELIM_GET_PKT_SIZE reserved d + int (YAPS_DELIM_GET_PADDING d)" by simp
  show "YAPS_DELIM_GET_PADDING d < 4" using j v by simp
  show "YAPS_DELIM_GET_PKT_SIZE reserved d + int (YAPS_DELIM_GET_PADDING d) \<le> 16128"
    using s j v by simp
qed

lemma le32_at_total: "pos + 4 \<le> length b \<Longrightarrow> \<exists>w. le32_at b pos = Some w"
  by (simp add: le32_at_def le16_at_def nth_opt_def)

lemma get_octets_total: "0 \<le> n \<Longrightarrow> pos + nat n \<le> length b \<Longrightarrow> \<exists>x. get_octets pos n b = Some x \<and> length x = nat n"
  by (simp add: get_octets_def)

text \<open>
  The delimiters the loop comes to in the octets \<open>b\<close> of the window, and those among them it has memory for, in
  the order of the loop. After a packet that runs off the end of the window there is nothing left.
\<close>

primrec delimiters :: "(u8 \<Rightarrow> u8 \<Rightarrow> u8) \<Rightarrow> nat \<Rightarrow> u8 list \<Rightarrow> nat \<Rightarrow> nat \<Rightarrow> int \<Rightarrow> u32 list" where
  "delimiters crc7 reserved b 0 pos n = []"
| "delimiters crc7 reserved b (Suc k) pos n =
     (if n \<le> 0 then []
      else case le32_at b pos of None \<Rightarrow> []
      | Some d \<Rightarrow>
          if d = 0 \<or> \<not> morse_yaps_is_valid_delimiter crc7 d then []
          else (let total_len = YAPS_DELIM_GET_PKT_SIZE reserved d + int (YAPS_DELIM_GET_PADDING d)
                in d # (if total_len \<le> n - 4
                        then delimiters crc7 reserved b k (pos + 4 + nat total_len) (n - 4 - total_len) else [])))"

abbreviation has_memory :: "(nat \<Rightarrow> bool) \<Rightarrow> nat \<Rightarrow> u32 \<Rightarrow> bool" where
  "has_memory alloc reserved d \<equiv> alloc (nat (YAPS_DELIM_GET_PKT_SIZE reserved d mod 4294967296))"

definition negative_size :: "nat \<Rightarrow> u32 \<Rightarrow> bool" where
  "negative_size reserved d \<longleftrightarrow> YAPS_DELIM_GET_PHANDLE_SIZE d < reserved"

lemma read_walk_exact:
  assumes "reads_all bus" "4 dvd reserved_yaps_page_size a"
    "length (from_chip_buffer a) = YAPS_HW_WINDOW_SIZE_BYTES" "4 dvd n" "0 \<le> n" "pos + nat n \<le> YAPS_HW_WINDOW_SIZE_BYTES"
  shows "if \<exists>x \<in> set (takeWhile (has_memory alloc (reserved_yaps_page_size a))
           (delimiters crc7 (reserved_yaps_page_size a) (from_chip_buffer a) k pos n)). negative_size (reserved_yaps_page_size a) x
    then read_walk bus crc7 alloc k pos n (a, d) = None
    else \<exists>st r xs. read_walk bus crc7 alloc k pos n (a, d) = Some (st, r, xs) \<and> length xs \<le> k"
  using assms(2-)
proof (induction k arbitrary: pos n)
  case 0
  then show ?case by simp
next
  case (Suc k)
  let ?b = "from_chip_buffer a" and ?rv = "reserved_yaps_page_size a"
  show ?case
  proof (cases "n = 0")
    case True
    then show ?thesis by simp
  next
    case False
    then have n: "4 \<le> n" using Suc.prems(3,4) False by (intro zdvd_imp_le) simp_all
    obtain delim where delim: "le32_at ?b pos = Some delim"
      using le32_at_total [of pos ?b] n Suc.prems by fastforce
    show ?thesis
    proof (cases "delim \<noteq> 0 \<and> morse_yaps_is_valid_delimiter crc7 delim \<and> has_memory alloc ?rv delim")
      case False
      then show ?thesis using n delim by (auto simp: Let_def)
    next
      case valid: True
      let ?size = "YAPS_DELIM_GET_PKT_SIZE ?rv delim" and ?pad = "int (YAPS_DELIM_GET_PADDING delim)"
      have s: "4 dvd ?size + ?pad" "?pad < 4" "?size + ?pad \<le> 16128"
        using valid_delimiter_sizes [of crc7 delim ?rv] valid Suc.prems(1) by simp_all
      have neg: "negative_size ?rv delim \<longleftrightarrow> ?size < 0" by (simp add: negative_size_def YAPS_DELIM_GET_PKT_SIZE_def)
      show ?thesis
      proof (cases "?size < 0")
        case True
        have "?size + ?pad \<le> 0" using True s(1,2) zdvd_imp_le [of 4 "?size + ?pad"] by fastforce
        then have "?size + ?pad \<le> n - 4" using n by simp
        moreover have "get_octets (pos + 4) ?size ?b = None" using True by (simp add: get_octets_def)
        ultimately show ?thesis using n delim valid True neg by (simp add: Let_def)
      next
        case size: False
        show ?thesis
        proof (cases "?size + ?pad \<le> n - 4")
          case fits: True
          obtain x where x: "get_octets (pos + 4) ?size ?b = Some x"
            using get_octets_total [of ?size "pos + 4" ?b] size fits n Suc.prems by fastforce
          let ?pos = "pos + 4 + nat (?size + ?pad)" and ?n = "n - 4 - (?size + ?pad)"
          have "4 dvd ?n" using s(1) Suc.prems(3) by (intro dvd_diff) simp_all
          moreover have "0 \<le> ?n" using fits by simp
          moreover have "?pos + nat ?n \<le> YAPS_HW_WINDOW_SIZE_BYTES" using Suc.prems(5) fits size n by linarith
          ultimately have "if \<exists>x \<in> set (takeWhile (has_memory alloc ?rv) (delimiters crc7 ?rv ?b k ?pos ?n)). negative_size ?rv x
            then read_walk bus crc7 alloc k ?pos ?n (a, d) = None
            else \<exists>st r xs. read_walk bus crc7 alloc k ?pos ?n (a, d) = Some (st, r, xs) \<and> length xs \<le> k"
            using Suc.prems by (intro Suc.IH) simp_all
          then show ?thesis using n delim valid size fits x neg by (auto simp: Let_def split: if_splits)
        next
          case split: False
          have "4 dvd (?size + ?pad) - (n - 4)" using s(1) Suc.prems(3) by (intro dvd_diff) simp_all
          then have "4 \<le> (?size + ?pad) - (n - 4)" using split by (intro zdvd_imp_le) simp_all
          then have over: "n - 4 < ?size" using s(2) by linarith
          obtain x where x: "get_octets (pos + 4) (n - 4) ?b = Some x"
            using get_octets_total [of "n - 4" "pos + 4" ?b] n Suc.prems by fastforce
          let ?a = "a\<lparr>rx_split := rx_split a + 1\<rparr>"
          have o: "0 \<le> ?size + ?pad - (n - 4)" "nat (?size + ?pad - (n - 4)) \<le> length (from_chip_buffer ?a)"
            using split s n Suc.prems(2) by (simp_all add: YAPS_HW_WINDOW_SIZE_BYTES_def)
          obtain b d' r where b: "read_into bus (ysl_addr a + 4) (?size + ?pad - (n - 4)) (?a, d) = Some ((?a\<lparr>from_chip_buffer := b\<rparr>, d'), r)"
            "length b = length ?b"
            using read_into_total [OF assms(1) o, of "ysl_addr a + 4" d] by auto
          have "nat (?size - (n - 4)) \<le> length b"
            using b(2) s n Suc.prems(2) by (simp add: YAPS_HW_WINDOW_SIZE_BYTES_def)
          then obtain y where y: "get_octets 0 (?size - (n - 4)) b = Some y"
            using get_octets_total [of "?size - (n - 4)" 0 b] over by auto
          have "\<exists>st r xs. read_walk bus crc7 alloc k (nat (?size + ?pad - (n - 4))) 0 (?a\<lparr>from_chip_buffer := b\<rparr>, d') = Some (st, r, xs) \<and>
              length xs \<le> k"
            by (cases k) simp_all
          then show ?thesis using n delim valid split over x b y neg size by (cases "r = 0") (auto simp: Let_def)
        qed
      qed
    qed
  qed
qed

text \<open>The delimiters of a read with memory for their packets: those in the window it copies into the buffer first.\<close>

definition delimiters_read ::
    "'d bus_ops \<Rightarrow> (u8 \<Rightarrow> u8 \<Rightarrow> u8) \<Rightarrow> (nat \<Rightarrow> bool) \<Rightarrow> nat \<Rightarrow> yaps_aux \<times> 'd \<Rightarrow> u32 list" where
  "delimiters_read bus crc7 alloc k st =
     (case st of (a, d) \<Rightarrow>
        let n = min (morse_calc_bytes_remaining a) (int YAPS_HW_WINDOW_SIZE_BYTES)
        in if n \<le> 0 \<or> yaps_access_lock a then []
           else case read_into bus (ysl_addr a) n (a, d) of
             None \<Rightarrow> []
           | Some ((a', _), r) \<Rightarrow>
               if r \<noteq> 0 then []
               else takeWhile (has_memory alloc (reserved_yaps_page_size a))
                      (delimiters crc7 (reserved_yaps_page_size a) (from_chip_buffer a') k 0 n))"

lemma read_into_lock:
  "read_into bus addr n (a\<lparr>yaps_access_lock := l\<rparr>, d) =
    map_option (\<lambda>((a, d), r). ((a\<lparr>yaps_access_lock := l\<rparr>, d), r)) (read_into bus addr n (a, d))"
  by (auto simp: read_into_def split: prod.splits Option.bind_splits)

text \<open>C17: When the chip reports whole words, the part it reserves in a packet is whole words, and the bus delivers as many octets
  as asked into a buffer of the window's size, reading is defined whatever the octets are, with one exception: no copy leaves a buffer or has a negative size, and at most as many packets
  result as there are entries for. The exception is exact: if the loop comes to a valid delimiter whose size is
  smaller than the reserved part, and the allocation of its size (a negative number, passed as unsigned) succeeds, the copy has a
  negative size.\<close>

theorem yaps_read_defined:
  assumes "reads_all bus" "4 dvd reserved_yaps_page_size a" "length (from_chip_buffer a) = YAPS_HW_WINDOW_SIZE_BYTES"
    "4 dvd uint (fc_rx_bytes_in_queue (status_regs a))"
  shows "if \<exists>x \<in> set (delimiters_read bus crc7 alloc num_pkts_max (a, d)). YAPS_DELIM_GET_PHANDLE_SIZE x < reserved_yaps_page_size a
    then morse_yaps_hw_read_pkts bus crc7 alloc num_pkts_max (a, d) = None
    else \<exists>st r xs. morse_yaps_hw_read_pkts bus crc7 alloc num_pkts_max (a, d) = Some (st, r, xs) \<and> length xs \<le> num_pkts_max"
proof -
  let ?n = "morse_calc_bytes_remaining a"
  let ?m = "min ?n (int YAPS_HW_WINDOW_SIZE_BYTES)"
  let ?a = "a\<lparr>yaps_access_lock := True\<rparr>"
  consider "?n \<le> 0 \<or> num_pkts_max = 0 \<or> yaps_access_lock a"
    | "0 < ?n" "?n = uint (fc_rx_bytes_in_queue (status_regs a))" "num_pkts_max \<noteq> 0" "\<not> yaps_access_lock a"
    by (cases "?n \<le> 0") (auto simp: morse_calc_bytes_remaining_def Let_def EIO_def split: if_splits)
  then show ?thesis
  proof cases
    case 1
    then have "set (delimiters_read bus crc7 alloc num_pkts_max (a, d)) = {}"
      by (auto simp: delimiters_read_def Let_def split: option.splits)
    moreover have "\<exists>st r xs. morse_yaps_hw_read_pkts bus crc7 alloc num_pkts_max (a, d) = Some (st, r, xs) \<and> length xs \<le> num_pkts_max"
      using 1 by (auto simp: morse_yaps_hw_read_pkts_def Let_def)
    ultimately show ?thesis by simp
  next
    case 2
    have m: "0 \<le> ?m" "nat ?m \<le> YAPS_HW_WINDOW_SIZE_BYTES" using 2 by simp_all
    have dv: "4 dvd ?m" using 2(2) assms(4) by (simp add: min_def YAPS_HW_WINDOW_SIZE_BYTES_def)
    obtain b d' r where b: "read_into bus (ysl_addr a) ?m (a, d) = Some ((a\<lparr>from_chip_buffer := b\<rparr>, d'), r)"
        "length b = length (from_chip_buffer a)"
      using read_into_total [OF assms(1) m(1), of a "ysl_addr a" d] m(2) assms(3) by auto
    have "\<not> ?m \<le> 0" using 2(1) by (simp add: YAPS_HW_WINDOW_SIZE_BYTES_def)
    let ?a1 = "a\<lparr>from_chip_buffer := b, yaps_access_lock := True\<rparr>"
    have ds: "delimiters_read bus crc7 alloc num_pkts_max (a, d) = (if r \<noteq> 0 then [] else
        takeWhile (has_memory alloc (reserved_yaps_page_size a)) (delimiters crc7 (reserved_yaps_page_size a) b num_pkts_max 0 ?m))"
      using 2(4) b(1) \<open>\<not> ?m \<le> 0\<close> by (simp add: delimiters_read_def Let_def)
    have rd: "morse_yaps_hw_read_pkts bus crc7 alloc num_pkts_max (a, d) = (if r \<noteq> 0
        then Some (unlock_yaps ((?a1, d'), r, [])) else
        do { (st, r, xs) \<leftarrow> read_walk bus crc7 alloc num_pkts_max 0 ?m (?a1, d');
             Some (unlock_yaps (st, if int YAPS_HW_WINDOW_SIZE_BYTES < ?n \<and> r = 0 then - EAGAIN else r, xs)) })"
      using 2 b(1) by (simp add: morse_yaps_hw_read_pkts_def Let_def read_into_lock)
    have w: "if \<exists>x \<in> set (takeWhile (has_memory alloc (reserved_yaps_page_size ?a1))
          (delimiters crc7 (reserved_yaps_page_size ?a1) (from_chip_buffer ?a1) num_pkts_max 0 ?m)). negative_size (reserved_yaps_page_size ?a1) x
      then read_walk bus crc7 alloc num_pkts_max 0 ?m (?a1, d') = None
      else \<exists>st r xs. read_walk bus crc7 alloc num_pkts_max 0 ?m (?a1, d') = Some (st, r, xs) \<and> length xs \<le> num_pkts_max"
      using assms(2,3) b(2) m dv by (intro read_walk_exact [OF assms(1)]) simp_all
    show ?thesis
    proof (cases "r = 0")
      case False
      then show ?thesis by (simp add: ds rd unlock_yaps_def)
    next
      case True
      let ?bad = "\<exists>x \<in> set (delimiters_read bus crc7 alloc num_pkts_max (a, d)). YAPS_DELIM_GET_PHANDLE_SIZE x < reserved_yaps_page_size a"
      have w: "if ?bad then read_walk bus crc7 alloc num_pkts_max 0 ?m (?a1, d') = None
        else \<exists>st r xs. read_walk bus crc7 alloc num_pkts_max 0 ?m (?a1, d') = Some (st, r, xs) \<and> length xs \<le> num_pkts_max"
        using w True unfolding negative_size_def by (simp add: ds)
      show ?thesis
      proof (cases ?bad)
        case True
        then show ?thesis using w \<open>r = 0\<close> by (simp add: rd)
      next
        case False
        then obtain st r' xs where "read_walk bus crc7 alloc num_pkts_max 0 ?m (?a1, d') = Some (st, r', xs)" "length xs \<le> num_pkts_max"
          using w by auto
        then show ?thesis using False \<open>r = 0\<close> by (cases st) (simp add: rd unlock_yaps_def)
      qed
    qed
  qed
qed

text \<open>The examples.\<close>

definition zero_bus :: "journal bus_ops" where
  "zero_bus = \<lparr>morse_reg32_read = \<lambda>_ j. (j, 0, 0), morse_reg32_write = \<lambda>_ _ j. (j, 0),
     morse_dm_read = \<lambda>_ n j. (j, 0, replicate n 0), morse_dm_write = \<lambda>_ _ j. (j, 0)\<rparr>"

lemma a_yaps_plausible: "plausible (a_yaps n)"
  by (auto simp: plausible_def tc_pool_def a_yaps_def a_status_def Let_def)

lemma a_yaps_writes:
  "\<exists>st'. morse_yaps_hw_write_pkts zero_bus (\<lambda>_ _. 0) [([1, 2, 3, 4], 0)] (a_yaps 16, []) = Some (st', 0, 1)"
  by (simp add: morse_yaps_hw_write_pkts_def morse_yaps_hw_write_pkt_err_check_def morse_yaps_will_fit_def tc_pool_def
      a_yaps_def a_status_def YAPS_MAX_PKT_SIZE_BYTES_def MORSE_YAPS_NUM_TC_Q_def MORSE_YAPS_TX_Q_def set_tc_pool_def
      morse_yaps_pages_required_def YAPS_PAGE_SIZE_def YAPS_METADATA_PAGE_COUNT_def YAPS_PHANDLE_CORRUPTION_WAR_EXTRA_PAGE_def
      flush_window_def YAPS_HW_WINDOW_SIZE_BYTES_def yaps_padding_def put_octets_def write_exit_def zero_bus_def Let_def)

theorem yaps_fits_the_chip_witness: "room_for (a_yaps 16) [([1, 2, 3, 4], 0)]"
  using a_yaps_writes yaps_fits_the_chip [OF _ a_yaps_plausible, of zero_bus "\<lambda>_ _. 0" "[([1, 2, 3, 4], 0)]" 16 "[]"]
  by fastforce

theorem yaps_read_defined_witness:
  "\<exists>st r xs. morse_yaps_hw_read_pkts zero_bus (\<lambda>_ _. 0) (\<lambda>_. True) 32
      (a_yaps 32768\<lparr>status_regs := a_status\<lparr>fc_num_pkts := 1, fc_rx_bytes_in_queue := 80\<rparr>\<rparr>, []) = Some (st, r, xs) \<and> length xs \<le> 32"
proof -
  let ?a = "a_yaps 32768\<lparr>status_regs := a_status\<lparr>fc_num_pkts := 1, fc_rx_bytes_in_queue := 80\<rparr>\<rparr>"
  let ?b = "replicate 80 0 @ drop 80 (from_chip_buffer ?a)"
  have r: "read_into zero_bus (ysl_addr ?a) 80 (?a, []) = Some ((?a\<lparr>from_chip_buffer := ?b\<rparr>, []), 0)"
    by (simp add: read_into_def put_octets_def zero_bus_def a_yaps_def)
  have n: "morse_calc_bytes_remaining ?a = 80" by (simp add: morse_calc_bytes_remaining_def a_yaps_def a_status_def)
  have "nth_opt ?b i = Some 0" if "i < 4" for i using that by (simp add: nth_opt_def nth_append)
  then have "le32_at ?b 0 = Some 0" by (simp add: le32_at_def le16_at_def)
  then have "delimiters crc7 rv ?b k 0 80 = []" for crc7 rv k by (cases k) simp_all
  then have "delimiters_read zero_bus (\<lambda>_ _. 0) (\<lambda>_. True) 32 (?a, []) = []"
    using r by (simp add: delimiters_read_def n YAPS_HW_WINDOW_SIZE_BYTES_def Let_def)
  then show ?thesis
    using yaps_read_defined [of zero_bus ?a "\<lambda>_ _. 0" "\<lambda>_. True" 32 "[]"]
    by (simp add: reads_all_def zero_bus_def a_yaps_def a_status_def YAPS_HW_WINDOW_SIZE_BYTES_def)
qed

section \<open>Where the code and its checks part\<close>

text \<open>The check on the queue accepts the number behind the last one.\<close>

lemma queue_off_by_one:
  assumes "snd p = MORSE_YAPS_NUM_TC_Q" "length (fst p) + reserved_yaps_page_size a \<le> YAPS_MAX_PKT_SIZE_BYTES"
  shows "morse_yaps_hw_write_pkt_err_check p a = None"
proof -
  have "tc_pool (snd p) a = None" using assms(1) tc_pool_some [of 4 a] unfolding MORSE_YAPS_NUM_TC_Q_def by (metis less_irrefl)
  with assms show ?thesis by (simp add: morse_yaps_hw_write_pkt_err_check_def morse_yaps_will_fit_def)
qed

lemma no_packets_undefined: "\<not> yaps_access_lock a \<Longrightarrow> morse_yaps_hw_write_pkts bus crc7 [] (a, d) = None"
  by (simp add: morse_yaps_hw_write_pkts_def)

text \<open>The packets of a write that failed count as sent, and the error that led to the end is lost.\<close>

lemma failed_write_counts:
  assumes "morse_dm_write bus (yds_addr a) (take (batch_txn_len t) (to_chip_buffer a)) d = (d', e)" "0 < batch_txn_len t"
  shows "write_exit bus t r (a, d) = ((a\<lparr>yaps_access_lock := False\<rparr>, d'), e, num_pkts_sent t + pkts_pending t)"
  using assms by (simp add: write_exit_def)

text \<open>More packets in the chip than its queue holds count as room.\<close>

lemma overfull_queue_fits:
  assumes "tc_pool q a = Some (pages, pkts, n)" "int n < sint pkts"
    "int (morse_yaps_pages_required (reserved_yaps_page_size a) m) \<le> sint pages"
  shows "\<exists>a'. morse_yaps_will_fit m q a = Some (a', True)"
  using assms by (simp add: morse_yaps_will_fit_def Let_def)

text \<open>A packet whose padding is cut by the end of what was read: the size of the second copy is negative.\<close>

lemma cut_padding_undefined:
  assumes "le32_at (from_chip_buffer a) pos = Some delim" "delim \<noteq> 0" "morse_yaps_is_valid_delimiter crc7 delim"
    "YAPS_DELIM_GET_PKT_SIZE (reserved_yaps_page_size a) delim < n - 4"
    "n - 4 < YAPS_DELIM_GET_PKT_SIZE (reserved_yaps_page_size a) delim + int (YAPS_DELIM_GET_PADDING delim)" "0 < n"
    "alloc (nat (YAPS_DELIM_GET_PKT_SIZE (reserved_yaps_page_size a) delim mod 4294967296))"
  shows "read_walk bus crc7 alloc (Suc k) pos n (a, d) = None"
  using assms by (simp add: Let_def)

end
