(* ===== verification/Yaps_Frames.thy ===== *)
theory Yaps_Frames
  imports Yaps Yaps_Bounds Pageset_Theorems
begin

text \<open>
  Where the frames of a queue are when it was sent by \<^verbatim>\<open>yaps.c\<close>, and where frames and time are lost.
\<close>

section \<open>Frames are accounted for\<close>

lemma y_drv_simps [simp]: "y_drv (count_stats f st) = y_drv st" "y_drv (on_morse g st) = on_mors g (y_drv st)"
  by (simp_all add: count_stats_def on_morse_def)

lemma y_drv_queue: "y_drv (with_queue q h st) = (case h (mors (y_drv st), queues (y_drv st) q) of
     (m, mq) \<Rightarrow> (y_drv st)\<lparr>mors := m, queues := (queues (y_drv st))(q := mq)\<rparr>)"
  by (simp add: with_queue_def Let_def split: prod.split)

lemma user_of_queue: "user_of q (d\<lparr>queues := (queues d)(q := mq)\<rparr>) xs M = (user_of q d ys M)\<lparr>u_st := (mors d, mq), hand := xs\<rparr>"
  by (simp add: user_of_def)

lemma with_queue_accounted:
  assumes "frames_accounted (user_of q (y_drv st) [] M)" "\<And>x. wf_q (snd x) \<Longrightarrow> keeps x (f x)"
  shows "frames_accounted (user_of q (y_drv (with_queue q f st)) [] M)"
  using keeps_accounted [OF assms(1), of "f (mors (y_drv st), queues (y_drv st) q)"]
    assms(2) [of "(mors (y_drv st), queues (y_drv st) q)"] accounted_wf [OF assms(1)]
  by (simp add: user_of_def y_drv_queue case_prod_beta)

lemma purge_old_accounted:
  "frames_accounted (user_of q (y_drv st) [] M) \<Longrightarrow> frames_accounted (user_of q (y_drv (purge_old q st)) [] M)"
  by (auto simp: purge_old_def intro!: with_queue_accounted purge_pending_ok purge_aged_ok)

lemma take_at_most: "take (min (length xs) n) xs = take n xs"
  by (simp add: min_def)

lemma tx_done_accounted:
  assumes "frames_accounted (user_of q (y_drv st) xs M)"
  shows "frames_accounted (user_of q (y_drv (tx_done q xs n st)) [] M)"
proof -
  let ?sent = "take n xs" and ?failed = "drop n xs"
  obtain mq rest k where p: "morse_skbq_enq_prepend ?failed (queues (y_drv st) q) = (mq, rest, k)" by (metis prod_cases3)
  define d1 where "d1 = (if ?failed = [] then y_drv st
    else on_mors (\<lambda>m. fst (morse_skbq_purge rest m)) ((y_drv st)\<lparr>queues := (queues (y_drv st))(q := mq)\<rparr>))"
  have a: "frames_accounted (user_of q (y_drv st) (?sent @ ?failed) M)" using assms by simp
  have d1: "frames_accounted (user_of q d1 ?sent M)"
  proof (cases "?failed = []")
    case True
    then show ?thesis using a by (simp add: d1_def)
  next
    case False
    then show ?thesis unfolding d1_def if_not_P [OF False]
      by (intro purge_some_accounted prepend_some_accounted [OF a p])
  qed
  obtain m' mq' where c: "morse_skbq_tx_complete ?sent (mors d1, queues d1 q) = (m', mq')" by fastforce
  have "frames_accounted (user_of q (d1\<lparr>mors := m', queues := (queues d1)(q := mq')\<rparr>) [] M)"
    using complete_accounted [OF d1, of "length xs"] c by (simp add: user_of_def take_at_most)
  moreover have "y_drv (tx_done q xs n st) = (if ?sent = [] then d1 else d1\<lparr>mors := m', queues := (queues d1)(q := mq')\<rparr>)"
    unfolding tx_done_def Let_def using c p
    by (cases "?failed = []"; cases "?sent = []") (simp_all add: d1_def y_drv_queue)
  ultimately show ?thesis using d1 by (cases "?sent = []") simp_all
qed

lemma update_status_drv: "update_status env st = Some (st', r) \<Longrightarrow> y_drv st' = y_drv st"
  by (auto simp: update_status_def on_hw_def split: prod.splits)

lemma on_hw_drv: "y_drv (fst (on_hw x st)) = y_drv st"
  by (simp add: on_hw_def case_prod_beta)

text \<open>The frames that a transmission takes from the queue.\<close>

definition tx_taken :: "qname \<Rightarrow> 'd yaps \<Rightarrow> sk_buff list" where
  "tx_taken q st = snd (morse_skbq_deq_num_items MAX_PKTS_PER_TX_TXN (queues (y_drv (purge_old q st)) q))"

text \<open>C15: Sending a queue accounts for its frames: each is in one of the queue's lists or its fate is recorded, whatever the bus, the chip and
  the room for going back do. The only frames that get lost are those taken from the queue when the status of the chip cannot be
  read: exactly these, and the code is the one of that read.\<close>

theorem yaps_tx_accounts:
  assumes "morse_yaps_tx env q st = Some (st', r)" "wf_q (queues (y_drv st) q)"
  shows "wf_q (queues (y_drv st') q) \<and>
    (all_ptrs q (y_drv st') = all_ptrs q (y_drv st) \<or>
     (\<exists>st1. update_status env (purge_old q st) = Some (st1, r) \<and> r \<noteq> 0 \<and>
        all_ptrs q (y_drv st') + ptrs (tx_taken q st) = all_ptrs q (y_drv st)))"
proof (cases "skbq (queues (y_drv st) q) = []")
  case True
  with assms show ?thesis by (simp add: morse_yaps_tx_def)
next
  case False
  let ?M = "all_ptrs q (y_drv st)"
  let ?p = "purge_old q st"
  have a: "frames_accounted (user_of q (y_drv ?p) [] ?M)"
    by (rule purge_old_accounted) (rule accounted_start [OF assms(2)])
  obtain mq xs where d: "morse_skbq_deq_num_items MAX_PKTS_PER_TX_TXN (queues (y_drv ?p) q) = (mq, xs)" by fastforce
  let ?st = "?p\<lparr>y_drv := (y_drv ?p)\<lparr>queues := (queues (y_drv ?p))(q := mq)\<rparr>\<rparr>"
  have b: "frames_accounted (user_of q (y_drv ?st) xs ?M)"
    using deq_accounted [OF a, of MAX_PKTS_PER_TX_TXN mq xs] d by (simp add: user_of_def)
  obtain st1 r1 where u: "update_status env ?st = Some (st1, r1)"
    and rest: "(if r1 \<noteq> 0 then Some (st1, r1)
      else do {
        x \<leftarrow> morse_yaps_hw_write_pkts (y_bus env) (y_crc7 env) (map (tc_pkt_of env) xs) (aux_data st1, y_dev st1);
        (case on_hw x st1 of (st, r, n) \<Rightarrow> Some (tx_done q xs n st, r))
      }) = Some (st', r)"
    using assms(1) False d by (auto simp: morse_yaps_tx_def Let_def split: bind_splits)
  have s1: "y_drv st1 = y_drv ?st" by (rule update_status_drv [OF u])
  show ?thesis
  proof (cases "r1 = 0")
    case True
    then obtain x n st2 where x: "on_hw x st1 = (st2, r, n)" "st' = tx_done q xs n st2"
      using rest by (auto simp: case_prod_beta split: bind_splits) (metis prod.collapse)
    have "y_drv st2 = y_drv ?st" using on_hw_drv [of x st1] x(1) s1 by simp
    then have "frames_accounted (user_of q (y_drv st') [] ?M)" using tx_done_accounted [of q st2 xs ?M n] b x(2) by simp
    from accounted_end [OF this] show ?thesis by simp
  next
    case lost: False
    have st': "st' = st1" "r = r1" using rest lost by simp_all
    have w: "wf_q mq" "holds mq + ptrs xs = holds (queues (y_drv ?p) q)"
      using deq_wf [of "queues (y_drv ?p) q" MAX_PKTS_PER_TX_TXN] accounted_wf [OF a] d by (simp_all add: user_of_def)
    have m: "all_ptrs q (y_drv ?p) = ?M" using accounted_end [OF a] by simp
    have "all_ptrs q (y_drv st') + ptrs (tx_taken q st) = ?M"
      using w(2) s1 st'(1) m [symmetric] d by (simp add: all_ptrs_def tx_taken_def ac_simps)
    moreover have "\<exists>st2. update_status env ?p = Some (st2, r)"
      using u st'(2) by (auto simp: update_status_def on_hw_def case_prod_beta)
    moreover have "wf_q (queues (y_drv st') q)" using s1 st'(1) w(1) by simp
    ultimately show ?thesis using lost st'(2) by blast
  qed
qed

text \<open>An interface with one frame to send, over a chip that reports no room.\<close>

definition yaps_example :: "yaps_aux \<Rightarrow> journal yaps" where
  "yaps_example a = (morse_yaps_init a_morse None [] a)\<lparr>y_drv := \<lparr>mors = a_morse, fm_sta_vif = None, queues = (\<lambda>q. a_queue [a_skb 1] [])\<rparr>\<rparr>"

definition yaps_env_example :: "journal yaps_env" where
  "yaps_env_example = \<lparr>y_bus = zero_bus, y_crc7 = (\<lambda>_ _. 0), y_alloc = (\<lambda>n. n < 4096), y_octets = (\<lambda>s. replicate (sk_len s) 0),
     y_tries = 3, y_validate = True, y_timeout = 30\<rparr>"

lemma zero_status: "\<exists>a'. morse_yaps_hw_update_status zero_bus (Suc n) (a_yaps k, []) = Some ((a', []), 0) \<and>
    tc_pool 0 a' = Some (0, 0, 8) \<and> reserved_yaps_page_size a' = 64 \<and> \<not> yaps_access_lock a'"
  by (simp add: morse_yaps_hw_update_status_def zero_bus_def parse_status_def le32_at_def le16_at_def nth_opt_def STATUS_REGS_LEN_def
      a_yaps_def unlock_yaps_def tc_pool_def MORSE_YAPS_TX_Q_def Let_def)

lemma tx_defined:
  assumes "morse_yaps_hw_update_status (y_bus env) (y_tries env) (aux_data st, y_dev st) = Some (x, 0)"
    "morse_yaps_hw_write_pkts (y_bus env) (y_crc7 env) (map (tc_pkt_of env) (tx_taken q st)) x \<noteq> None"
  shows "\<exists>st' r. morse_yaps_tx env q st = Some (st', r)"
proof -
  have p: "aux_data (purge_old q st) = aux_data st" "y_dev (purge_old q st) = y_dev st"
    by (simp_all add: purge_old_def with_queue_def Let_def case_prod_beta)
  obtain mq xs where d: "morse_skbq_deq_num_items MAX_PKTS_PER_TX_TXN (queues (y_drv (purge_old q st)) q) = (mq, xs)" by fastforce
  obtain a e where x: "x = (a, e)" by (cases x)
  obtain y where "morse_yaps_hw_write_pkts (y_bus env) (y_crc7 env) (map (tc_pkt_of env) xs) (a, e) = Some y"
    using assms(2) d x by (auto simp: tx_taken_def)
  then show ?thesis using assms(1) p d x
    by (simp add: morse_yaps_tx_def update_status_def on_hw_def case_prod_beta Let_def)
qed

lemma no_room_returns:
  "\<exists>st' r. morse_yaps_tx yaps_env_example (Data_q 0) (yaps_example (a_yaps 16)) = Some (st', r)"
proof -
  have e: "aux_data (yaps_example a) = a" "y_dev (yaps_example a) = []" "y_bus yaps_env_example = zero_bus" "y_tries yaps_env_example = Suc 2"
    "queues (y_drv (yaps_example a)) q = a_queue [a_skb 1] []" for a q
    by (simp_all add: yaps_example_def yaps_env_example_def morse_yaps_init_def)
  obtain a' where u: "morse_yaps_hw_update_status zero_bus (Suc 2) (a_yaps 16, []) = Some ((a', []), 0)"
    "tc_pool 0 a' = Some (0, 0, 8)" "reserved_yaps_page_size a' = 64" "\<not> yaps_access_lock a'"
    using zero_status [of 2 16] by blast
  have "tx_taken (Data_q 0) (yaps_example (a_yaps 16)) = [a_skb 1]"
    by (simp add: tx_taken_def purge_old_def e) (simp add: morse_skbq_deq_num_items_def a_queue_def MAX_PKTS_PER_TX_TXN_def)
  moreover have "tc_pkt_of yaps_env_example (a_skb 1) = (replicate 100 0, 0)"
    by (simp add: tc_pkt_of_def tc_queue_of_def yaps_env_example_def a_skb_def CHAN_DATA_def CHAN_COMMAND_def CHAN_BEACON_def CHAN_MGMT_def
        MORSE_YAPS_TX_Q_def)
  moreover have "morse_yaps_hw_write_pkts zero_bus crc7 [(replicate 100 0, 0)] (a', []) \<noteq> None" for crc7
    using u(2-4)
    by (simp add: morse_yaps_hw_write_pkts_def morse_yaps_hw_write_pkt_err_check_def YAPS_MAX_PKT_SIZE_BYTES_def MORSE_YAPS_NUM_TC_Q_def
        morse_yaps_will_fit_def morse_yaps_pages_required_def YAPS_PAGE_SIZE_def EAGAIN_def Let_def)
  ultimately show ?thesis using u(1) by (intro tx_defined [where x = "(a', [])"]) (simp_all add: e)
qed

theorem yaps_tx_accounts_witness:
  "\<exists>st' r. morse_yaps_tx yaps_env_example (Data_q 0) (yaps_example (a_yaps 16)) = Some (st', r) \<and> wf_q (queues (y_drv st') (Data_q 0))"
proof -
  obtain st' r where t: "morse_yaps_tx yaps_env_example (Data_q 0) (yaps_example (a_yaps 16)) = Some (st', r)"
    using no_room_returns by blast
  have "wf_q (queues (y_drv (yaps_example (a_yaps 16))) (Data_q 0))"
    by (simp add: yaps_example_def a_queue_wf total_len_def a_skb_def)
  from yaps_tx_accounts [OF t this] t show ?thesis by blast
qed

section \<open>Where frames and time are lost\<close>

text \<open>When every management frame of the queue has aged out, the code sends the first entry of an array that is not set.\<close>

lemma aged_out_undefined:
  assumes "skbq (queues (y_drv st) q) \<noteq> []" "tx_taken q st = []"
    "morse_yaps_hw_update_status (y_bus env) (y_tries env) (aux_data st, y_dev st) = Some ((a, d), 0)" "\<not> yaps_access_lock a"
  shows "morse_yaps_tx env q st = None"
proof -
  have p: "aux_data (purge_old q st) = aux_data st" "y_dev (purge_old q st) = y_dev st"
    by (simp_all add: purge_old_def with_queue_def Let_def case_prod_beta)
  show ?thesis using assms p
    by (simp add: morse_yaps_tx_def tx_taken_def update_status_def on_hw_def case_prod_beta no_packets_undefined)
qed

text \<open>What was received before an allocation failed is dropped.\<close>

lemma received_before_error_lost:
  assumes "update_status env st = Some (st1, 0)"
    "morse_yaps_hw_read_pkts (y_bus env) (y_crc7 env) (y_alloc env) MAX_PKTS_PER_RX_TXN (aux_data st1, y_dev st1) = Some ((a, d), - ENOMEM, ps)"
  shows "morse_yaps_rx_handler env st = Some (st1\<lparr>aux_data := a, y_dev := d\<rparr>, True)"
  using assms by (simp add: morse_yaps_rx_handler_def on_hw_def ENOMEM_def EAGAIN_def)

text \<open>A clock update that is due while the chip is full: the work does nothing and is queued again, as long as the chip is.\<close>

lemma clock_update_spins:
  assumes "event_flags (mors (y_drv st)) = {UPDATE_HW_CLOCK_REFERENCE}" "CHIP_UNRESPONSIVE \<notin> state_flags (mors (y_drv st))"
    "data_blocked st" "\<not> finishing st"
  shows "morse_yaps_work env st = Some (queue_work st)"
  using assms
  by (simp add: morse_yaps_work_def work_before_data_def handle_def pending_event_def handle_traffic_def handle_freed_def requeue_def Let_def)

end
