(* ===== verification/Yaps_Wake.thy ===== *)
theory Yaps_Wake
  imports Yaps_Frames
begin

text \<open>
  The work of \<^verbatim>\<open>yaps.c\<close> as a system of steps: interrupts, the timer of the full chip, the work itself, frames sent and the clock. Its
  invariant shows that data that is pending is looked at in time.
\<close>

section \<open>What wakes the work\<close>

abbreviation flags :: "'d yaps \<Rightarrow> chip_event set" where "flags st \<equiv> event_flags (mors (y_drv st))"
abbreviation now :: "'d yaps \<Rightarrow> u64" where "now st \<equiv> jiffies (mors (y_drv st))"
abbreviation work_queued :: "'d yaps \<Rightarrow> bool" where "work_queued st \<equiv> chip_work_queued (mors (y_drv st))"
abbreviation responsive :: "'d yaps \<Rightarrow> bool" where "responsive st \<equiv> CHIP_UNRESPONSIVE \<notin> state_flags (mors (y_drv st))"

definition full_state :: "'d yaps \<Rightarrow> bool \<times> u64 \<times> u64 option \<times> bool" where
  "full_state st = (is_full st, retry_expiry st, full_timer st, finishing st)"

definition ysched :: "'d yaps \<Rightarrow> (chip_event set \<times> u64 \<times> bool \<times> bool) \<times> bool \<times> u64 \<times> u64 option \<times> bool" where
  "ysched st = (sched_of (mors (y_drv st)), full_state st)"

lemma ysched_simps [simp]:
  "ysched (count_stats f st) = ysched st" "ysched (st\<lparr>aux_data := a\<rparr>) = ysched st" "ysched (st\<lparr>y_dev := d\<rparr>) = ysched st"
  "ysched (st\<lparr>data_rx_q := q\<rparr>) = ysched st" "ysched (st\<lparr>cmd_resp_q := q\<rparr>) = ysched st" "ysched (st\<lparr>rx_empty := n\<rparr>) = ysched st"
  "ysched (st\<lparr>y_net_work := b\<rparr>) = ysched st" "ysched (st\<lparr>y_tasklet := b\<rparr>) = ysched st" "ysched (st\<lparr>y_rx_ptr := n\<rparr>) = ysched st"
  "ysched (st\<lparr>y_drv := (y_drv st)\<lparr>queues := qs\<rparr>\<rparr>) = ysched st"
  by (simp_all add: ysched_def full_state_def count_stats_def)

lemma ysched_drv: "ysched (st\<lparr>y_drv := d\<rparr>) = (sched_of (mors d), full_state st)"
  by (simp add: ysched_def full_state_def)

lemma full_state_stats [simp]: "full_state (count_stats f st) = full_state st"
  by (simp add: full_state_def count_stats_def)

lemma on_morse_sched: "(\<And>m. sched_of (f m) = sched_of m) \<Longrightarrow> ysched (on_morse f st) = ysched st"
  by (simp add: ysched_def full_state_def on_morse_def on_mors_def)

lemma with_queue_sched: "(\<And>x. sched_of (fst (f x)) = sched_of (fst x)) \<Longrightarrow> ysched (with_queue q f st) = ysched st"
  by (simp add: ysched_def full_state_def with_queue_def Let_def case_prod_beta)

lemma on_hw_sched [simp]: "ysched (fst (on_hw x st)) = ysched st"
  by (simp add: on_hw_def case_prod_beta)

lemma purge_old_sched [simp]: "ysched (purge_old q st) = ysched st"
  by (simp add: purge_old_def with_queue_sched)

lemma tx_done_sched [simp]: "ysched (tx_done q xs n st) = ysched st"
  by (simp add: tx_done_def Let_def with_queue_sched on_morse_sched ysched_drv case_prod_beta) (simp add: ysched_def)

text \<open>Nothing that reads or sends frames touches it.\<close>

abbreviation keeps_sched :: "'d yaps \<Rightarrow> ('d yaps \<times> 'r) option \<Rightarrow> bool" where
  "keeps_sched st x \<equiv> fst_ok (\<lambda>st'. ysched st' = ysched st) x"

lemma update_status_sched: "keeps_sched st (update_status env st)"
  by (cases "morse_yaps_hw_update_status (y_bus env) (y_tries env) (aux_data st, y_dev st)") (simp_all add: update_status_def)

lemma tx_sched: "keeps_sched st (morse_yaps_tx env q st)"
proof -
  have h: "keeps_sched st1 (do {
        x \<leftarrow> morse_yaps_hw_write_pkts (y_bus env) (y_crc7 env) ps (aux_data st1, y_dev st1);
        (case on_hw x st1 of (st, r, n) \<Rightarrow> Some (tx_done q xs n st, r))
      })" for st1 :: "'a yaps" and ps xs
    by (rule returns_any) (auto simp: returns_def case_prod_beta)
  have "keeps_sched st (do {
        (st, r) \<leftarrow> update_status env st1;
        if r \<noteq> 0 then Some (st, r)
        else do {
          x \<leftarrow> morse_yaps_hw_write_pkts (y_bus env) (y_crc7 env) ps (aux_data st, y_dev st);
          (case on_hw x st of (st, r, n) \<Rightarrow> Some (tx_done q xs n st, r))
        }
      })" if "ysched st1 = ysched st" for st1 ps xs
    by (rule fst_ok_bind [OF update_status_sched]) (use that h in \<open>auto simp: returns_def\<close>)
  then show ?thesis
    by (auto simp: morse_yaps_tx_def Let_def split: prod.split)
qed

lemma rx_enq_sched [simp]: "ysched (rx_enq q s st) = ysched st"
  by (simp add: rx_enq_def split: rx_queue.split)

lemma read_pkt_sched: "keeps_sched st (morse_yaps_read_pkt env b st)"
  unfolding morse_yaps_read_pkt_def Let_def
  by (intro returns_any) (auto split: option.split prod.split intro!: returns_any)

lemma read_pkts_walk_sched: "returns (\<lambda>st'. ysched st' = ysched st) (read_pkts_walk env ps st)"
proof (induction ps arbitrary: st)
  case (Cons p ps)
  have "returns (\<lambda>st'. ysched st' = ysched st) (read_pkts_walk env ps st1)" if "ysched st1 = ysched st" for st1
    using Cons [of st1] that by simp
  then show ?case unfolding read_pkts_walk.simps by (intro fst_ok_bind [OF read_pkt_sched])
qed simp

lemma rx_handler_sched: "keeps_sched st (morse_yaps_rx_handler env st)"
  unfolding morse_yaps_rx_handler_def
proof (rule fst_ok_bind [OF update_status_sched])
  fix st1 :: "'a yaps" and r :: int
  assume u: "ysched st1 = ysched st"
  have w: "keeps_sched st (do { st \<leftarrow> read_pkts_walk env ps st2; Some (st, b) })" if "ysched st2 = ysched st" for st2 ps and b :: bool
    by (rule returns_bind [OF read_pkts_walk_sched]) (simp add: that)
  show "keeps_sched st (if r \<noteq> 0 then Some (st1, r = - ENOMEM \<or> r = - EAGAIN)
       else do {
         x \<leftarrow> morse_yaps_hw_read_pkts (y_bus env) (y_crc7 env) (y_alloc env) MAX_PKTS_PER_RX_TXN (aux_data st1, y_dev st1);
         (case on_hw x st1 of
            (st, r, ps) \<Rightarrow>
              if r \<noteq> 0 \<and> r \<noteq> - EAGAIN then Some (st, r = - ENOMEM)
              else do {
                st \<leftarrow> read_pkts_walk env ps (if ps = [] then st\<lparr>rx_empty := rx_empty st + 1\<rparr> else st);
                Some (st, r = - EAGAIN)
              })
       })"
    using u by (auto simp: case_prod_beta intro!: returns_any w)
qed

lemma tx_queue_handler_sched: "keeps_sched st (tx_queue_handler env q st)"
  unfolding tx_queue_handler_def by (rule fst_ok_bind [OF tx_sched]) simp

text \<open>Only the handler of data changes whether the chip is taken for full.\<close>

definition same_but_full :: "'d yaps \<Rightarrow> 'd yaps \<Rightarrow> bool" where
  "same_but_full st st' \<longleftrightarrow> sched_of (mors (y_drv st')) = sched_of (mors (y_drv st)) \<and>
     retry_expiry st' = retry_expiry st \<and> full_timer st' = full_timer st \<and> finishing st' = finishing st"

lemma same_but_full_sched: "ysched st' = ysched st \<Longrightarrow> same_but_full st st'"
  by (simp add: same_but_full_def ysched_def full_state_def)

lemma same_but_full_trans: "same_but_full st1 st2 \<Longrightarrow> same_but_full st2 st3 \<Longrightarrow> same_but_full st1 st3"
  by (simp add: same_but_full_def)

lemma tx_acis_sched: "fst_ok (same_but_full st) (tx_acis env acis st n)"
proof (induction acis arbitrary: st n)
  case Nil
  then show ?case by (simp add: same_but_full_def)
next
  case (Cons a acis)
  have "fst_ok (same_but_full st) (tx_acis env acis (st1\<lparr>is_full := b\<rparr>) m)" if "ysched st1 = ysched st" for st1 m b
  proof (rule returns_mono [OF Cons])
    fix r :: "'a yaps \<times> nat"
    assume "same_but_full (st1\<lparr>is_full := b\<rparr>) (fst r)"
    moreover have "same_but_full st (st1\<lparr>is_full := b\<rparr>)"
      using same_but_full_sched [OF that] by (simp add: same_but_full_def)
    ultimately show "same_but_full st (fst r)" by (rule same_but_full_trans [rotated])
  qed
  moreover have "same_but_full st (st1\<lparr>is_full := b\<rparr>)" if "ysched st1 = ysched st" for st1 b
    using same_but_full_sched [OF that] by (simp add: same_but_full_def)
  moreover have "same_but_full st st" by (simp add: same_but_full_def)
  ultimately show ?case
    unfolding tx_acis.simps Let_def by (auto intro!: fst_ok_bind [OF tx_sched])
qed

lemma tx_data_handler_sched: "fst_ok (same_but_full st) (morse_yaps_tx_data_handler env st)"
  unfolding morse_yaps_tx_data_handler_def Let_def
  by (rule fst_ok_bind [OF tx_acis_sched]) (auto simp: same_but_full_def on_morse_def on_mors_def)

text \<open>The work before data: it handles events, clears the mark of a full chip when packets were freed, and keeps the rest.\<close>

definition early_events :: "chip_event set" where
  "early_events = {RX_PEND, TX_COMMAND_PEND, TX_BEACON_PEND, TX_MGMT_PEND}"

definition early :: "'d yaps \<Rightarrow> 'd yaps \<Rightarrow> bool" where
  "early st st' \<longleftrightarrow> flags st' - early_events = flags st - early_events \<and> now st' = now st \<and> work_queued st' = work_queued st \<and>
     responsive st' = responsive st \<and> full_state st' = full_state st"

lemma early_refl [simp]: "early st st"
  by (simp add: early_def)

lemma early_trans: "early st1 st2 \<Longrightarrow> early st2 st3 \<Longrightarrow> early st1 st3"
  by (simp add: early_def)

lemma handle_early:
  assumes "v \<in> early_events" "\<And>st. keeps_sched st (f st)"
  shows "returns (early st) (handle v f st)"
proof -
  have d: "early st (drop_event v st)" for st
    using assms(1) by (auto simp: early_def drop_event_def on_morse_def on_mors_def full_state_def)
  have r: "early st (raise_event v st)" for st
    using assms(1) by (auto simp: early_def raise_event_def on_morse_def on_mors_def full_state_def)
  have s: "early (drop_event v st) st1" if "ysched st1 = ysched (drop_event v st)" for st1
    using that by (simp add: early_def ysched_def sched_of_def)
  have "early st (if more then raise_event v st1 else st1)" if "ysched st1 = ysched (drop_event v st)" for st1 more
    using early_trans [OF d s [OF that]] early_trans [OF early_trans [OF d s [OF that]] r] by simp
  then show ?thesis unfolding handle_def by (auto intro!: fst_ok_bind [OF assms(2)] simp: if_distrib)
qed

lemma handle_next:
  assumes "early st st1" "v \<in> early_events" "\<And>st. keeps_sched st (f st)"
  shows "returns (early st) (handle v f st1)"
  by (rule returns_mono [OF handle_early [OF assms(2,3)]]) (rule early_trans [OF assms(1)])

lemma handle_traffic_sched:
  "flags (handle_traffic st) - {DATA_TRAFFIC_PAUSE_PEND, DATA_TRAFFIC_RESUME_PEND, TX_DATA_PEND} =
     flags st - {DATA_TRAFFIC_PAUSE_PEND, DATA_TRAFFIC_RESUME_PEND, TX_DATA_PEND}"
  "TX_DATA_PEND \<in> flags st \<Longrightarrow> TX_DATA_PEND \<in> flags (handle_traffic st)"
  "now (handle_traffic st) = now st" "work_queued (handle_traffic st) = work_queued st"
  "responsive (handle_traffic st) = responsive st" "full_state (handle_traffic st) = full_state st"
  by (auto simp: handle_traffic_def Let_def drop_event_def on_morse_def on_mors_def pending_event_def full_state_def
      morse_skbq_data_traffic_pause_def morse_skbq_data_traffic_resume_def)

lemma handle_freed_sched:
  "flags (handle_freed st) = flags st - {TX_PACKET_FREED_UP_PEND}" "now (handle_freed st) = now st"
  "work_queued (handle_freed st) = work_queued st" "responsive (handle_freed st) = responsive st"
  "is_full (handle_freed st) = (is_full st \<and> TX_PACKET_FREED_UP_PEND \<notin> flags st)" "retry_expiry (handle_freed st) = retry_expiry st"
  "full_timer (handle_freed st) = full_timer st" "finishing (handle_freed st) = finishing st"
  by (auto simp: handle_freed_def drop_event_def on_morse_def on_mors_def pending_event_def)

definition after_early :: "'d yaps \<Rightarrow> 'd yaps \<Rightarrow> bool" where
  "after_early st st' \<longleftrightarrow> TX_PACKET_FREED_UP_PEND \<notin> flags st' \<and> is_full st' = (is_full st \<and> TX_PACKET_FREED_UP_PEND \<notin> flags st) \<and>
     (TX_DATA_PEND \<in> flags st \<longrightarrow> TX_DATA_PEND \<in> flags st') \<and> now st' = now st \<and> work_queued st' = work_queued st \<and>
     responsive st' = responsive st \<and> retry_expiry st' = retry_expiry st \<and> full_timer st' = full_timer st \<and> finishing st' = finishing st"

lemma early_after: 
  assumes "early st st1"
  shows "after_early st (handle_freed (handle_traffic st1))"
proof -
  have f: "v \<in> flags st1 \<longleftrightarrow> v \<in> flags st" if "v \<notin> early_events" for v
    using assms that by (auto simp: early_def)
  have "TX_PACKET_FREED_UP_PEND \<in> flags (handle_traffic st1) \<longleftrightarrow> TX_PACKET_FREED_UP_PEND \<in> flags st1"
    using handle_traffic_sched(1) [of st1] by blast
  then show ?thesis
    using assms f [of TX_PACKET_FREED_UP_PEND] f [of TX_DATA_PEND] handle_traffic_sched(2-) [of st1]
    by (auto simp: after_early_def handle_freed_sched early_def early_events_def full_state_def)
qed

lemma work_before_data_sched: "returns (after_early st) (work_before_data env st)"
proof -
  have "returns (early st) (do {
       st \<leftarrow> handle RX_PEND (morse_yaps_rx_handler env) st;
       st \<leftarrow> handle TX_COMMAND_PEND (tx_queue_handler env Cmd_q) st;
       st \<leftarrow> handle TX_BEACON_PEND (tx_queue_handler env Beacon_q) st;
       handle TX_MGMT_PEND (tx_queue_handler env Mgmt_q) st })"
    by (auto intro!: returns_bind [OF handle_next [where st = st]] handle_next [where st = st] rx_handler_sched tx_queue_handler_sched
        simp: early_events_def)
  then have "returns (after_early st) (Option.bind (do {
       st \<leftarrow> handle RX_PEND (morse_yaps_rx_handler env) st;
       st \<leftarrow> handle TX_COMMAND_PEND (tx_queue_handler env Cmd_q) st;
       st \<leftarrow> handle TX_BEACON_PEND (tx_queue_handler env Beacon_q) st;
       handle TX_MGMT_PEND (tx_queue_handler env Mgmt_q) st }) (\<lambda>st. Some (handle_freed (handle_traffic st))))"
    by (rule returns_bind) (simp add: early_after)
  then show ?thesis by (simp add: work_before_data_def)
qed

section \<open>The steps of a run\<close>

text \<open>The clock is far from wrapping.\<close>

definition clock_limit :: nat where "clock_limit = 2 ^ 62"

lemma below_63: "n < 2 ^ 63 \<Longrightarrow> int n < 2 ^ 63"
proof -
  assume "n < 2 ^ 63"
  then have "int n < int (2 ^ 63)" by (simp only: of_nat_less_iff)
  then show ?thesis by simp
qed

lemma sint_small: "unat (w :: u64) < 2 ^ 63 \<Longrightarrow> sint w = int (unat w)"
proof -
  assume "unat w < 2 ^ 63"
  then have "int (unat w) < 2 ^ 63" by (rule below_63)
  moreover have "- (2 ^ 63) \<le> int (unat w)" by (rule order_trans [of _ 0]) simp_all
  ultimately have "signed_take_bit 63 (int (unat w)) = int (unat w)" by (simp only: signed_take_bit_int_eq_self)
  moreover have "sint w = signed_take_bit 63 (int (unat w))" by (simp add: sint_uint)
  ultimately show ?thesis by simp
qed

lemma time_before_iff:
  assumes "unat a < clock_limit" "unat b < 2 ^ 63"
  shows "time_before a b \<longleftrightarrow> unat a < unat b"
proof -
  have "clock_limit \<le> 2 ^ 63" by (simp add: clock_limit_def)
  then have a: "unat a < 2 ^ 63" using assms(1) by (rule order_less_le_trans [rotated])
  note s = sint_small [OF a] sint_small [OF assms(2)] and l = below_63 [OF a] below_63 [OF assms(2)]
  have "int (unat a) - int (unat b) < 2 ^ 63" using l(1) by (rule order_le_less_trans [rotated]) simp
  moreover have "- (2 ^ 63) \<le> int (unat a) - int (unat b)"
    using l(2) order_trans [of "- (2 ^ 63)" "- int (unat b)" "int (unat a) - int (unat b)"] by simp
  ultimately have "signed_take_bit 63 (int (unat a) - int (unat b)) = int (unat a) - int (unat b)"
    by (simp only: signed_take_bit_int_eq_self)
  moreover have "sint (a - b) = signed_take_bit 63 (sint a - sint b)" by (simp add: sint_word_ariths)
  ultimately have "sint (a - b) = int (unat a) - int (unat b)" unfolding s by (simp only:)
  then show ?thesis unfolding time_before_def by (simp only: diff_less_0_iff_less of_nat_less_iff)
qed

definition clock_tick :: "nat \<Rightarrow> 'd yaps \<Rightarrow> 'd yaps" where
  "clock_tick n = on_morse (\<lambda>m. m\<lparr>jiffies := jiffies m + of_nat n\<rparr>)"

text \<open>The timer runs off, and the work starts.\<close>

definition timer_runs_off :: "'d yaps \<Rightarrow> 'd yaps" where
  "timer_runs_off st = morse_tx_chip_full_timer (st\<lparr>full_timer := None\<rparr>)"

definition work_taken :: "'d yaps \<Rightarrow> 'd yaps" where
  "work_taken = on_morse (\<lambda>m. m\<lparr>chip_work_queued := False\<rparr>)"

text \<open>
  Interrupts, the timer, the work and the clock; frames sent by the rest of the driver; events raised by it, with the work; the end; and
  anything that leaves alone what the work is scheduled by.
\<close>

inductive yaps_step :: "'d yaps_env \<Rightarrow> 'd yaps \<Rightarrow> 'd yaps \<Rightarrow> bool" for env where
  irq: "yaps_step env st (yaps_irq_handler status st)"
| timer: "full_timer st = Some t \<Longrightarrow> \<not> time_before (now st) t \<Longrightarrow> yaps_step env st (timer_runs_off st)"
| work: "work_queued st \<Longrightarrow> morse_yaps_work env (work_taken st) = Some st' \<Longrightarrow> yaps_step env st st'"
| tick: "unat (now st) + 1 < clock_limit \<Longrightarrow> yaps_step env st (clock_tick 1 st)"
| send: "yaps_step env st (with_queue q (\<lambda>x. fst (morse_skbq_skb_tx pad_ok s info chan x)) st)"
| request: "yaps_step env st (queue_work (raise_event v st))"
| stop: "yaps_step env st (morse_yaps_finish st)"
| other: "ysched st' = ysched st \<Longrightarrow> yaps_step env st st'"

text \<open>
  The invariant: a full chip will be looked at again, the timer stands for the time to look again, and data that is pending has the work
  queued or the timer armed.
\<close>

definition wake_ok :: "'d yaps_env \<Rightarrow> 'd yaps \<Rightarrow> bool" where
  "wake_ok env st \<longleftrightarrow>
     unat (now st) < clock_limit \<and> unat (retry_expiry st) \<le> unat (now st) + unat (y_timeout env) \<and>
     (\<forall>t. full_timer st = Some t \<longrightarrow> t = retry_expiry st) \<and>
     (finishing st \<or> (is_full st \<longrightarrow> full_timer st \<noteq> None \<or> TX_PACKET_FREED_UP_PEND \<in> flags st \<or> unat (retry_expiry st) \<le> unat (now st))) \<and>
     (TX_DATA_PEND \<in> flags st \<and> \<not> finishing st \<and> responsive st \<longrightarrow> work_queued st \<or> full_timer st \<noteq> None)"

definition env_ok :: "'d yaps_env \<Rightarrow> bool" where
  "env_ok env \<longleftrightarrow> unat (y_timeout env) < clock_limit"

lemma wake_not_before:
  assumes "wake_ok env st" "env_ok env"
  shows "time_before (now st) (retry_expiry st) \<longleftrightarrow> unat (now st) < unat (retry_expiry st)"
  using assms by (intro time_before_iff) (auto simp: wake_ok_def env_ok_def clock_limit_def)

lemma wake_sched: "ysched st' = ysched st \<Longrightarrow> wake_ok env st' = wake_ok env st"
  by (auto simp: wake_ok_def ysched_def sched_of_def full_state_def)

lemma requeue_sched:
  "flags (requeue st) = flags st" "now (requeue st) = now st" "responsive (requeue st) = responsive st"
  "full_state (requeue st) = full_state st"
  "\<not> finishing st \<Longrightarrow> flags st \<noteq> {} \<Longrightarrow> \<not> is_full st \<Longrightarrow> work_queued (requeue st)"
  "work_queued st \<Longrightarrow> work_queued (requeue st)"
  by (auto simp: requeue_def Let_def queue_work_def on_morse_def on_mors_def full_state_def)

text \<open>What the work does with data.\<close>

definition data_handled :: "'d yaps_env \<Rightarrow> 'd yaps \<Rightarrow> 'd yaps \<Rightarrow> bool" where
  "data_handled env st st' \<longleftrightarrow> now st' = now st \<and> responsive st' = responsive st \<and> finishing st' = finishing st \<and>
     (TX_PACKET_FREED_UP_PEND \<in> flags st' \<longleftrightarrow> TX_PACKET_FREED_UP_PEND \<in> flags st) \<and>
     (is_full st' \<and> retry_expiry st' = now st + y_timeout env \<and> full_timer st' = Some (retry_expiry st') \<or>
      \<not> is_full st' \<and> retry_expiry st' = retry_expiry st \<and> full_timer st' = full_timer st \<or>
      TX_DATA_PEND \<notin> flags st' \<and> full_state st' = full_state st)"

lemma data_sched:
  fixes env :: "'a yaps_env" and st :: "'a yaps"
  shows "returns (data_handled env st) (handle_data env st)"
proof (cases "pending_event TX_DATA_PEND st")
  case False
  then show ?thesis by (simp add: handle_data_def data_handled_def pending_event_def)
next
  case True
  let ?Q = "\<lambda>st1. now st1 = now st \<and> responsive st1 = responsive st \<and> finishing st1 = finishing st \<and>
      retry_expiry st1 = retry_expiry st \<and> full_timer st1 = full_timer st \<and>
      (TX_PACKET_FREED_UP_PEND \<in> flags st1 \<longleftrightarrow> TX_PACKET_FREED_UP_PEND \<in> flags st)"
  have "returns ?Q (handle TX_DATA_PEND (morse_yaps_tx_data_handler env) st)"
    unfolding handle_def
    by (auto intro!: fst_ok_bind [OF tx_data_handler_sched]
        simp: same_but_full_def sched_of_def drop_event_def raise_event_def on_morse_def on_mors_def)
  then show ?thesis unfolding handle_data_def if_P [OF True]
  proof (rule returns_bind)
    fix st1 :: "'a yaps"
    assume "?Q st1"
    then show "returns (data_handled env st) (Some (if is_full st1 then arm_full_timer env st1 else st1))"
      by (cases "is_full st1") (simp_all add: data_handled_def arm_full_timer_def Let_def)
  qed
qed


lemma unat_add_small: "unat (a :: u64) < clock_limit \<Longrightarrow> unat b < clock_limit \<Longrightarrow> unat (a + b) = unat a + unat b"
  by (simp add: unat_word_ariths clock_limit_def)

lemma irq_wake: "wake_ok env st \<Longrightarrow> wake_ok env (yaps_irq_handler status st)"
  by (auto simp: wake_ok_def yaps_irq_handler_def Let_def raise_event_def queue_work_def on_morse_def on_mors_def)

lemma timer_wake:
  assumes "wake_ok env st" "env_ok env" "full_timer st = Some t" "\<not> time_before (now st) t"
  shows "wake_ok env (timer_runs_off st)"
proof -
  have "t = retry_expiry st" using assms(1,3) by (simp add: wake_ok_def)
  then have "unat (retry_expiry st) \<le> unat (now st)" using wake_not_before [OF assms(1,2)] assms(4) by simp
  then show ?thesis using assms(1)
    by (auto simp: wake_ok_def timer_runs_off_def morse_tx_chip_full_timer_def queue_work_def on_morse_def on_mors_def)
qed

lemma tick_wake: "wake_ok env st \<Longrightarrow> unat (now st) + 1 < clock_limit \<Longrightarrow> wake_ok env (clock_tick 1 st)"
  by (auto simp: wake_ok_def clock_tick_def on_morse_def on_mors_def unat_add_small clock_limit_def)

lemma skb_tx_sched:
  assumes m': "m' = fst (fst (morse_skbq_skb_tx pad_ok s info chan x))"
  shows "jiffies m' = jiffies (fst x) \<and> (CHIP_UNRESPONSIVE \<in> state_flags m' \<longleftrightarrow> CHIP_UNRESPONSIVE \<in> state_flags (fst x)) \<and>
    (event_flags m' = event_flags (fst x) \<and> chip_work_queued m' = chip_work_queued (fst x) \<or>
     event_flags (fst x) \<subseteq> event_flags m' \<and> chip_work_queued m')"
proof -
  have c: "jiffies (consume f m) = jiffies m" "state_flags (consume f m) = state_flags m" "event_flags (consume f m) = event_flags m"
    "chip_work_queued (consume f m) = chip_work_queued m" for f m
    by (simp_all add: consume_def)
  have st: "sched_of (morse_skbq_stop_tx_queues m) = sched_of m" for m
    by (simp add: morse_skbq_stop_tx_queues_def sched_of_def)
  have sg: "jiffies (signal_channel ch m) = jiffies m \<and> state_flags (signal_channel ch m) = state_flags m \<and>
    (event_flags (signal_channel ch m) = event_flags m \<and> chip_work_queued (signal_channel ch m) = chip_work_queued m \<or>
     event_flags m \<subseteq> event_flags (signal_channel ch m) \<and> chip_work_queued (signal_channel ch m))" for ch m
    by (auto simp: signal_channel_def queue_chip_work_def)
  have tx: "\<exists>m1. sched_of m1 = sched_of m \<and> fst (fst (morse_skbq_tx s1 ch (m, mq))) = signal_channel ch m1" for s1 ch m mq
    using st [of m] by (auto simp: morse_skbq_tx_def Let_def case_prod_beta)
  obtain m mq where x: "x = (m, mq)" by (cases x)
  show ?thesis
  proof (cases "\<exists>f. m' = consume f m")
    case True
    then show ?thesis using c x by auto
  next
    case False
    then obtain s1 where s1: "m' = fst (fst (morse_skbq_tx s1 chan (m, mq))) \<or> (\<exists>f. m' = consume f (fst (fst (morse_skbq_tx s1 chan (m, mq)))))"
      unfolding m' x morse_skbq_skb_tx_def by (auto simp: Let_def case_prod_beta split: if_splits)
    obtain m1 where m1: "sched_of m1 = sched_of m" "fst (fst (morse_skbq_tx s1 chan (m, mq))) = signal_channel chan m1"
      using tx by blast
    then have "jiffies m' = jiffies (signal_channel chan m1)" "state_flags m' = state_flags (signal_channel chan m1)"
      "event_flags m' = event_flags (signal_channel chan m1)" "chip_work_queued m' = chip_work_queued (signal_channel chan m1)"
      using s1 c by auto
    then show ?thesis using sg [of chan m1] m1(1) x by (auto simp: sched_of_def)
  qed
qed

lemma send_wake:
  assumes "wake_ok env st"
  shows "wake_ok env (with_queue q (\<lambda>x. fst (morse_skbq_skb_tx pad_ok s info chan x)) st)"
  using assms skb_tx_sched [OF refl, of pad_ok s info chan "(mors (y_drv st), queues (y_drv st) q)"]
  by (auto simp: wake_ok_def with_queue_def Let_def case_prod_beta)

lemma request_wake: "wake_ok env st \<Longrightarrow> wake_ok env (queue_work (raise_event v st))"
  by (auto simp: wake_ok_def raise_event_def queue_work_def on_morse_def on_mors_def)

lemma finish_queue_wake: "wake_ok env st \<Longrightarrow> finishing st \<Longrightarrow> 
  wake_ok env (with_queue q morse_skbq_finish st) \<and> finishing (with_queue q morse_skbq_finish st)"
proof -
  assume a: "wake_ok env st" "finishing st"
  have "sched_of (fst (morse_skbq_finish x)) = sched_of (fst x)" for x
    by (simp add: morse_skbq_finish_def Let_def)
  then have "ysched (with_queue q morse_skbq_finish st) = ysched st" by (rule with_queue_sched)
  then show ?thesis using a wake_sched [of "with_queue q morse_skbq_finish st" st env] by (simp add: ysched_def full_state_def)
qed

lemma stop_wake:
  assumes "wake_ok env st"
  shows "wake_ok env (morse_yaps_finish st)"
proof -
  have "wake_ok env (fold (\<lambda>q. with_queue q morse_skbq_finish) qs st1) \<and> finishing (fold (\<lambda>q. with_queue q morse_skbq_finish) qs st1)"
    if "wake_ok env st1" "finishing st1" for qs st1
    using that by (induction qs arbitrary: st1) (simp_all add: finish_queue_wake)
  from this [of "st\<lparr>finishing := True\<rparr>" all_qs] assms show ?thesis
    by (auto simp: wake_ok_def morse_yaps_finish_def Let_def)
qed

lemma work_wake:
  assumes "wake_ok env st" "env_ok env" "morse_yaps_work env (work_taken st) = Some st'"
  shows "wake_ok env st'"
proof -
  let ?st = "work_taken st"
  have t: "flags ?st = flags st" "now ?st = now st" "responsive ?st = responsive st" "full_state ?st = full_state st"
    by (simp_all add: work_taken_def on_morse_def on_mors_def full_state_def)
  show ?thesis
  proof (cases "\<not> responsive st \<or> flags st = {}")
    case True
    then have "st' = ?st" using assms(3) t by (auto simp: morse_yaps_work_def)
    then show ?thesis using assms(1) True t by (auto simp: wake_ok_def full_state_def)
  next
    case False
    then obtain st1 where st1: "work_before_data env ?st = Some st1"
      "(if data_blocked st1 then Some (requeue st1)
        else do { st \<leftarrow> handle_data env st1; Some (requeue (drop_event UPDATE_HW_CLOCK_REFERENCE st)) }) = Some st'"
      using assms(3) t by (auto simp: morse_yaps_work_def split: bind_splits)
    have e: "after_early ?st st1" using work_before_data_sched [of ?st env] st1(1) by simp
    then have v: "now st1 = now st" "responsive st1 = responsive st" "retry_expiry st1 = retry_expiry st" "full_timer st1 = full_timer st"
      "finishing st1 = finishing st" "is_full st1 = (is_full st \<and> TX_PACKET_FREED_UP_PEND \<notin> flags st)" "TX_PACKET_FREED_UP_PEND \<notin> flags st1"
      using t by (simp_all add: after_early_def full_state_def)
    have w1: "unat (now st1) < clock_limit" "unat (retry_expiry st1) \<le> unat (now st1) + unat (y_timeout env)"
      "\<forall>t. full_timer st1 = Some t \<longrightarrow> t = retry_expiry st1"
      "finishing st1 \<or> (is_full st1 \<longrightarrow> full_timer st1 \<noteq> None \<or> unat (retry_expiry st1) \<le> unat (now st1))"
      using assms(1) v by (auto simp: wake_ok_def)
    have b: "time_before (now st1) (retry_expiry st1) \<longleftrightarrow> unat (now st1) < unat (retry_expiry st1)"
      using wake_not_before [OF assms(1,2)] v by simp
    show ?thesis
    proof (cases "data_blocked st1")
      case True
      then have "st' = requeue st1" "is_full st1" "unat (now st1) < unat (retry_expiry st1)" using st1(2) b by (simp_all add: data_blocked_def)
      then show ?thesis using w1 v requeue_sched [of st1]
        by (auto simp: wake_ok_def full_state_def)
    next
      case False
      then obtain st2 where st2: "handle_data env st1 = Some st2" "st' = requeue (drop_event UPDATE_HW_CLOCK_REFERENCE st2)"
        using st1(2) by (auto split: bind_splits)
      have d: "data_handled env st1 st2" using data_sched [of env st1] st2(1) by simp
      let ?st3 = "drop_event UPDATE_HW_CLOCK_REFERENCE st2"
      have f: "flags ?st3 = flags st2 - {UPDATE_HW_CLOCK_REFERENCE}" "now ?st3 = now st2" "responsive ?st3 = responsive st2"
        "full_state ?st3 = full_state st2"
        by (simp_all add: drop_event_def on_morse_def on_mors_def full_state_def)
      have a: "unat (now st1 + y_timeout env) = unat (now st1) + unat (y_timeout env)"
        using w1(1) assms(2) by (intro unat_add_small) (simp_all add: env_ok_def)
      note q = requeue_sched [of ?st3]
      have s: "now st' = now st1" "responsive st' = responsive st1" "finishing st' = finishing st1" "is_full st' = is_full st2"
        "retry_expiry st' = retry_expiry st2" "full_timer st' = full_timer st2" "flags st' = flags st2 - {UPDATE_HW_CLOCK_REFERENCE}"
        using q(1-4) f d st2(2) by (simp_all add: data_handled_def full_state_def)
      have qd: "work_queued st'" if "TX_DATA_PEND \<in> flags st'" "\<not> is_full st2" "\<not> finishing st1"
        using q(5) that f d s unfolding st2(2) by (auto simp: data_handled_def full_state_def)
      from d consider "is_full st2" "retry_expiry st2 = now st1 + y_timeout env" "full_timer st2 = Some (retry_expiry st2)"
        | "\<not> is_full st2" "retry_expiry st2 = retry_expiry st1" "full_timer st2 = full_timer st1"
        | "TX_DATA_PEND \<notin> flags st2" "is_full st2 = is_full st1" "retry_expiry st2 = retry_expiry st1" "full_timer st2 = full_timer st1"
        by (auto simp: data_handled_def full_state_def)
      then show ?thesis
      proof cases
        case 1
        then show ?thesis using w1(1) a s by (auto simp: wake_ok_def)
      next
        case 2
        then show ?thesis using w1 s qd by (auto simp: wake_ok_def)
      next
        case 3
        then show ?thesis using w1 s by (auto simp: wake_ok_def)
      qed
    qed
  qed
qed

lemma step_wake: "yaps_step env st st' \<Longrightarrow> env_ok env \<Longrightarrow> wake_ok env st \<Longrightarrow> wake_ok env st'"
proof (induction rule: yaps_step.induct)
  case (other st' st)
  then show ?case using wake_sched by blast
next
  case (tick st)
  then show ?case using tick_wake by blast
qed (simp_all add: irq_wake timer_wake work_wake send_wake request_wake stop_wake)

section \<open>Data that is pending is looked at\<close>

definition yaps_run :: "'d yaps_env \<Rightarrow> 'd yaps \<Rightarrow> 'd yaps \<Rightarrow> bool" where
  "yaps_run env = (yaps_step env)\<^sup>*\<^sup>*"

lemma run_wake: "yaps_run env st st' \<Longrightarrow> env_ok env \<Longrightarrow> wake_ok env st \<Longrightarrow> wake_ok env st'"
  unfolding yaps_run_def by (induction rule: rtranclp_induct) (simp_all add: step_wake)

lemma init_wake: "unat (jiffies m) < clock_limit \<Longrightarrow> event_flags m = {} \<Longrightarrow> wake_ok env (morse_yaps_init m v d a)"
  by (simp add: wake_ok_def morse_yaps_init_def)

lemma ticks:
  assumes "unat (now st) + n < clock_limit"
  shows "unat (now (clock_tick n st)) = unat (now st) + n"
proof -
  have "unat (of_nat n :: u64) = n" using assms by (simp add: unat_of_nat clock_limit_def)
  then show ?thesis using unat_add_small [of "now st" "of_nat n"] assms by (simp add: clock_tick_def on_morse_def on_mors_def)
qed

text \<open>C4: Whatever interrupts, timers, requests and errors of the bus came before: while data is pending, the chip answers and the interface is
  not taken down, either the work is queued, or after at most the time-out the timer can run off, and the work it starts then gets to the
  data: it is not held back because the chip was full. No wake-up is lost.\<close>

theorem yaps_data_is_woken:
  assumes "yaps_run env (morse_yaps_init m v d a) st" "unat (jiffies m) < clock_limit" "event_flags m = {}" "env_ok env"
    "TX_DATA_PEND \<in> event_flags (mors (y_drv st))" "\<not> finishing st" "CHIP_UNRESPONSIVE \<notin> state_flags (mors (y_drv st))"
    "unat (jiffies (mors (y_drv st))) + unat (y_timeout env) < clock_limit"
  shows "chip_work_queued (mors (y_drv st)) \<or>
    (\<exists>n t. n \<le> unat (y_timeout env) \<and> full_timer (clock_tick n st) = Some t \<and>
      \<not> time_before (jiffies (mors (y_drv (clock_tick n st)))) t \<and>
      returns (\<lambda>st'. \<not> data_blocked st' \<and> TX_DATA_PEND \<in> event_flags (mors (y_drv st')))
        (work_before_data env (work_taken (timer_runs_off (clock_tick n st)))))"
proof (cases "work_queued st")
  case False
  have w: "wake_ok env st" by (rule run_wake [OF assms(1,4) init_wake [OF assms(2,3)]])
  then have t: "full_timer st = Some (retry_expiry st)" using assms(5-7) False by (auto simp: wake_ok_def)
  let ?n = "unat (retry_expiry st) - unat (now st)"
  have n: "?n \<le> unat (y_timeout env)" using w by (auto simp: wake_ok_def)
  let ?st = "clock_tick ?n st"
  have lim: "unat (now st) + ?n < clock_limit" using n assms(8) by linarith
  have k: "unat (now ?st) = unat (now st) + ?n" by (rule ticks [OF lim])
  have e: "unat (retry_expiry st) < 2 ^ 63"
    using w assms(8) by (auto simp: wake_ok_def clock_limit_def)
  have nb: "\<not> time_before (now ?st) (retry_expiry st)"
    using time_before_iff [of "now ?st" "retry_expiry st"] k lim e by simp
  have f: "full_timer ?st = Some (retry_expiry st)" using t by (simp add: clock_tick_def on_morse_def)
  let ?st1 = "work_taken (timer_runs_off ?st)"
  have s: "now ?st1 = now ?st" "retry_expiry ?st1 = retry_expiry st" "TX_DATA_PEND \<in> flags ?st1"
    using assms(5) by (simp_all add: work_taken_def timer_runs_off_def morse_tx_chip_full_timer_def queue_work_def clock_tick_def
        on_morse_def on_mors_def)
  have "returns (\<lambda>st'. \<not> data_blocked st' \<and> TX_DATA_PEND \<in> flags st') (work_before_data env ?st1)"
    by (rule returns_mono [OF work_before_data_sched]) (use s nb in \<open>simp add: after_early_def data_blocked_def\<close>)
  then show ?thesis using n f nb by blast
qed simp

theorem yaps_data_is_woken_witness:
  "chip_work_queued (mors (y_drv (queue_work (raise_event TX_DATA_PEND (morse_yaps_init a_morse None ([] :: journal) (a_yaps 16)))))) \<or>
    (\<exists>n t. full_timer (clock_tick n (queue_work (raise_event TX_DATA_PEND (morse_yaps_init a_morse None ([] :: journal) (a_yaps 16))))) = Some t)"
proof -
  let ?init = "morse_yaps_init a_morse None ([] :: journal) (a_yaps 16)"
  let ?st = "queue_work (raise_event TX_DATA_PEND ?init)"
  have r: "yaps_run yaps_env_example ?init ?st" using yaps_step.request [of yaps_env_example ?init TX_DATA_PEND] by (auto simp: yaps_run_def)
  show ?thesis
    using yaps_data_is_woken [OF r]
    by (fastforce simp: env_ok_def yaps_env_example_def clock_limit_def a_morse_def morse_yaps_init_def queue_work_def raise_event_def
        on_morse_def on_mors_def)
qed

end
