(* ===== verification/Twt.thy ===== *)
theory Twt
  imports Prelude
begin

text \<open>
  \<^verbatim>\<open>twt.c\<close>, the data of target wake time agreements: the request type and the control octet with their bit fields, the wake
  interval as mantissa and exponent, and the element that carries an agreement in frames, built and parsed.
\<close>

section \<open>Constants\<close>

definition TWT_IE_MIN_LENGTH :: nat where "TWT_IE_MIN_LENGTH = 10"
definition TWT_IE_MAX_LENGTH :: nat where "TWT_IE_MAX_LENGTH = 20"
definition WLAN_EID_S1G_TWT :: u8 where "WLAN_EID_S1G_TWT = 216"

definition TWT_CONTROL_NDP :: u8 where "TWT_CONTROL_NDP = 1"
definition TWT_CONTROL_NEG_TYPE :: u8 where "TWT_CONTROL_NEG_TYPE = 4"
definition TWT_CONTROL_NEG_TYPE_BROADCAST :: u8 where "TWT_CONTROL_NEG_TYPE_BROADCAST = 8"
definition TWT_CONTROL_WAKE_DUR_UNIT :: u8 where "TWT_CONTROL_WAKE_DUR_UNIT = 32"

definition TWT_REQTYPE_REQUEST :: u16 where "TWT_REQTYPE_REQUEST = 0x1"
definition TWT_REQTYPE_SETUP_CMD :: u16 where "TWT_REQTYPE_SETUP_CMD = 0xe"
definition TWT_REQTYPE_IMPLICIT :: u16 where "TWT_REQTYPE_IMPLICIT = 0x20"
definition TWT_REQTYPE_FLOWTYPE :: u16 where "TWT_REQTYPE_FLOWTYPE = 0x40"
definition TWT_REQTYPE_FLOWID :: u16 where "TWT_REQTYPE_FLOWID = 0x380"
definition TWT_REQTYPE_WAKE_INT_EXP :: u16 where "TWT_REQTYPE_WAKE_INT_EXP = 0x7c00"
definition TWT_REQTYPE_PROTECTION :: u16 where "TWT_REQTYPE_PROTECTION = 0x8000"

lemmas twt_flags =
  TWT_CONTROL_NDP_def TWT_CONTROL_NEG_TYPE_def TWT_CONTROL_NEG_TYPE_BROADCAST_def TWT_CONTROL_WAKE_DUR_UNIT_def
  TWT_REQTYPE_REQUEST_def TWT_REQTYPE_SETUP_CMD_def TWT_REQTYPE_IMPLICIT_def TWT_REQTYPE_FLOWTYPE_def TWT_REQTYPE_FLOWID_def
  TWT_REQTYPE_WAKE_INT_EXP_def TWT_REQTYPE_PROTECTION_def

section \<open>Setup commands\<close>

datatype setup_cmd =
  CMD_REQUEST | CMD_SUGGEST | CMD_DEMAND | CMD_GROUPING | CMD_ACCEPT | CMD_ALTERNATE | CMD_DICTATE | CMD_REJECT

text \<open>The values of the enumeration.\<close>

primrec cmd_value :: "setup_cmd \<Rightarrow> u16" where
  "cmd_value CMD_REQUEST = 0"
| "cmd_value CMD_SUGGEST = 1"
| "cmd_value CMD_DEMAND = 2"
| "cmd_value CMD_GROUPING = 3"
| "cmd_value CMD_ACCEPT = 4"
| "cmd_value CMD_ALTERNATE = 5"
| "cmd_value CMD_DICTATE = 6"
| "cmd_value CMD_REJECT = 7"

definition setup_cmd_of :: "u16 \<Rightarrow> setup_cmd" where
  "setup_cmd_of w =
     (if w = 0 then CMD_REQUEST else if w = 1 then CMD_SUGGEST else if w = 2 then CMD_DEMAND else if w = 3 then CMD_GROUPING
      else if w = 4 then CMD_ACCEPT else if w = 5 then CMD_ALTERNATE else if w = 6 then CMD_DICTATE else CMD_REJECT)"

definition morse_twt_cmd_is_req :: "setup_cmd \<Rightarrow> bool" where
  "morse_twt_cmd_is_req cmd \<longleftrightarrow> cmd_value cmd AND 4 = 0"

definition morse_twt_set_command :: "setup_cmd \<Rightarrow> u16 \<Rightarrow> u16" where
  "morse_twt_set_command cmd rt =
     (let rt = rt AND NOT TWT_REQTYPE_SETUP_CMD;
          rt = (if morse_twt_cmd_is_req cmd then rt OR TWT_REQTYPE_REQUEST else rt AND NOT TWT_REQTYPE_REQUEST)
      in rt OR push_bit 1 (cmd_value cmd))"

definition morse_twt_get_command :: "u16 \<Rightarrow> setup_cmd" where
  "morse_twt_get_command rt = setup_cmd_of (drop_bit 1 (rt AND TWT_REQTYPE_SETUP_CMD))"

section \<open>Agreements\<close>

record twt_params =
  req_type :: u16
  twt_time :: u64
  min_twt_dur :: u8
  mantissa :: u16
  twt_channel :: u8

record agreement_data =
  wake_time_us :: u64
  wake_interval_us :: u64
  wake_duration_us :: u32
  control :: u8
  params :: twt_params

text \<open>
  \<open>1 << exp\<close> is computed in \<open>int\<close>: for the largest exponent, 31, the compilers of the kernel give the smallest integer, which
  is then converted to the unsigned type at hand.
\<close>

definition one_shl :: "nat \<Rightarrow> u32" where
  "one_shl e = push_bit e 1"

definition flow_id_of :: "u16 \<Rightarrow> nat" where
  "flow_id_of rt = unat (drop_bit 7 (rt AND TWT_REQTYPE_FLOWID))"

definition wake_exp_of :: "u16 \<Rightarrow> nat" where
  "wake_exp_of rt = unat (drop_bit 10 (rt AND TWT_REQTYPE_WAKE_INT_EXP))"

definition morse_twt_calculate_wake_interval_us :: "twt_params \<Rightarrow> u64" where
  "morse_twt_calculate_wake_interval_us p = ucast (mantissa p) * scast (one_shl (wake_exp_of (req_type p)))"

definition has_dur_unit :: "u8 \<Rightarrow> bool" where
  "has_dur_unit c \<longleftrightarrow> c AND TWT_CONTROL_WAKE_DUR_UNIT \<noteq> 0"

definition morse_twt_update_params :: "u8 \<Rightarrow> u64 \<Rightarrow> u64 \<Rightarrow> u32 \<Rightarrow> twt_params \<Rightarrow> twt_params" where
  "morse_twt_update_params ctrl time interval duration p =
     p\<lparr>twt_time := time,
       mantissa := ucast (interval div ucast (one_shl (wake_exp_of (req_type p)))),
       min_twt_dur := (if has_dur_unit ctrl then ucast (duration div 1024) else ucast (duration div 256))\<rparr>"

section \<open>The element\<close>

text \<open>
  The octets of \<open>struct ieee80211_twt_params\<close>, and of the element, which the code copies from the packed structure from
  \<open>control\<close> on.
\<close>

definition param_octets :: "twt_params \<Rightarrow> u8 list" where
  "param_octets p = le16 (req_type p) @ le64_octets (twt_time p) @ [min_twt_dur p] @ le16 (mantissa p) @ [twt_channel p]"

definition ie_octets :: "agreement_data \<Rightarrow> u8 list" where
  "ie_octets a = control a # param_octets (params a)"

definition params_at :: "u8 list \<Rightarrow> nat \<Rightarrow> twt_params option" where
  "params_at b i =
     do {
       rt \<leftarrow> le16_at b i;
       t \<leftarrow> le64_at b (i + 2);
       d \<leftarrow> nth_opt b (i + 10);
       m \<leftarrow> le16_at b (i + 11);
       c \<leftarrow> nth_opt b (i + 13);
       Some \<lparr>req_type = rt, twt_time = t, min_twt_dur = d, mantissa = m, twt_channel = c\<rparr>
     }"

text \<open>An element of a received frame: its length field, and the octets that can be read from its body on, to the end of the frame.\<close>

record ie_element =
  ie_len :: nat
  ie_mem :: "u8 list"

datatype iftype = IF_STATION | IF_AP | IF_OTHER

definition morse_twt_validate_params :: "iftype \<Rightarrow> twt_params \<Rightarrow> int" where
  "morse_twt_validate_params ty p =
     (let cmd = morse_twt_get_command (req_type p)
      in if (cmd = CMD_ACCEPT \<or> cmd = CMD_REJECT) \<and> ty \<noteq> IF_STATION then - EINVAL
         else if (cmd = CMD_REQUEST \<or> cmd = CMD_DEMAND \<or> cmd = CMD_SUGGEST) \<and> ty \<noteq> IF_AP then - EINVAL
         else if cmd = CMD_GROUPING then - EINVAL
         else if req_type p AND TWT_REQTYPE_FLOWTYPE \<noteq> 0 then - EINVAL
         else if req_type p AND TWT_REQTYPE_IMPLICIT = 0 then - EINVAL
         else if req_type p AND TWT_REQTYPE_PROTECTION \<noteq> 0 then - EINVAL
         else if 0 < twt_channel p then - EINVAL
         else 0)"

text \<open>What the code fills in for an element it accepts.\<close>

definition data_of_params :: "u8 \<Rightarrow> twt_params \<Rightarrow> agreement_data" where
  "data_of_params ctrl p =
     \<lparr>wake_time_us = twt_time p,
      wake_interval_us = morse_twt_calculate_wake_interval_us p,
      wake_duration_us = ucast (min_twt_dur p) * (if has_dur_unit ctrl then 1024 else 256),
      control = ctrl, params = p\<rparr>"

text \<open>
  \<open>morse_twt_parse_ie\<close> up to the allocation: an error, or the agreement. The command and the flow of the event are read from it.
\<close>

definition parse_element :: "iftype \<Rightarrow> ie_element \<Rightarrow> (int + agreement_data) option" where
  "parse_element ty ie =
     (if ie_len ie < TWT_IE_MIN_LENGTH \<or> TWT_IE_MAX_LENGTH < ie_len ie then Some (Inl (- EINVAL))
      else do {
        ctrl \<leftarrow> nth_opt (ie_mem ie) 0;
        if ctrl AND TWT_CONTROL_NEG_TYPE_BROADCAST \<noteq> 0 then Some (Inl (- EINVAL))
        else if ctrl AND TWT_CONTROL_NEG_TYPE \<noteq> 0 then Some (Inl (- EINVAL))
        else if ctrl AND TWT_CONTROL_NDP \<noteq> 0 then Some (Inl (- EINVAL))
        else do {
          p \<leftarrow> params_at (ie_mem ie) 1;
          let ret = morse_twt_validate_params ty p
          in if ret \<noteq> 0 then Some (Inl ret) else Some (Inr (data_of_params ctrl p))
        }
      })"

section \<open>The fields of a request\<close>

definition U16_MAX :: u64 where "U16_MAX = 65535"

text \<open>\<open>int\<close> arithmetic: the sum wraps (the kernel is built with \<open>-fno-strict-overflow\<close>) and the division rounds to 0.\<close>

definition twt_calculate_wake_duration :: "u32 \<Rightarrow> u8" where
  "twt_calculate_wake_duration d = word_of_int (let n = strunc32 (sint d + 255) in if n < 0 then - ((- n) div 256) else n div 256)"

definition twt_calculate_wake_interval :: "u16 \<Rightarrow> nat \<Rightarrow> u64 option" where
  "twt_calculate_wake_interval m e = (if 64 \<le> e then None else Some (ucast m * push_bit e 1))"

function halve_to_u16 :: "u64 \<Rightarrow> nat \<Rightarrow> u64 \<times> nat" where
  "halve_to_u16 m e = (if U16_MAX < m then halve_to_u16 (drop_bit 1 m) (e + 1) else (m, e))"
  by auto

termination halve_to_u16
proof (relation "measure (unat \<circ> fst)")
  fix m :: u64 and e :: nat
  assume "U16_MAX < m"
  then have "65535 < unat m" by (simp add: U16_MAX_def word_less_nat_alt)
  then show "((drop_bit 1 m, e + 1), m, e) \<in> measure (unat \<circ> fst)" by (simp add: drop_bit_Suc unat_div)
qed simp

declare halve_to_u16.simps [simp del]

definition twt_calculate_wake_interval_fields :: "u64 \<Rightarrow> (u64 \<times> u16 \<times> nat) option" where
  "twt_calculate_wake_interval_fields interval =
     (case halve_to_u16 interval 0 of (m, e) \<Rightarrow>
        map_option (\<lambda>i. (i, ucast m, e)) (twt_calculate_wake_interval (ucast m) e))"

text \<open>The agreement as the firmware gets it, in a buffer of zeroes; the parameters then say that the agreement is implicit.\<close>

definition MORSE_CMD_DOT11_TWT_AGREEMENT_MAX_LEN :: nat where "MORSE_CMD_DOT11_TWT_AGREEMENT_MAX_LEN = 20"

definition put_at :: "nat \<Rightarrow> u8 list \<Rightarrow> u8 list \<Rightarrow> u8 list" where
  "put_at i xs b = take i b @ xs @ drop (i + length xs) b"

definition morse_twt_initialise_agreement :: "agreement_data \<Rightarrow> agreement_data \<times> u8 list \<times> nat" where
  "morse_twt_initialise_agreement a =
     (let b = replicate MORSE_CMD_DOT11_TWT_AGREEMENT_MAX_LEN 0;
          b = put_at 11 [min_twt_dur (params a)] b;
          b = put_at 12 (le16 (mantissa (params a))) b;
          rt = req_type (params a) OR TWT_REQTYPE_IMPLICIT;
          a = a\<lparr>params := (params a)\<lparr>req_type := rt\<rparr>\<rparr>;
          b = put_at 1 (le16 rt) b;
          b = put_at 3 (le64_octets (twt_time (params a))) b
      in (a, b, 1 + 2 + 2 + 8 + 1 + 1))"

end
