(* ===== verification/Twt_Agreements.thy ===== *)
theory Twt_Agreements
  imports Twt
begin

text \<open>
  \<^verbatim>\<open>twt.c\<close>, the state of target wake time on an interface: events and their queues, stations with their agreements, and the
  lists of agreements by wake interval, from which the responder allots wake times.
\<close>

section \<open>State\<close>

datatype twt_state =
  NO_AGREEMENT | CONSIDER_REQUEST | CONSIDER_SUGGEST | CONSIDER_DEMAND | CONSIDER_GROUPING | AGREEMENT

definition MORSE_TWT_AGREEMENTS_MAX_PER_STA :: nat where "MORSE_TWT_AGREEMENTS_MAX_PER_STA = 8"

type_synonym mac_addr = "u8 list"

record twt_agreement =
  agr_state :: twt_state
  agr_data :: agreement_data

text \<open>A station, named by the address of its allocation.\<close>

record twt_sta =
  sta_id :: nat
  sta_addr :: mac_addr
  dialog_token :: u8
  action_is_pending :: bool
  agreements :: "twt_agreement list"

text \<open>The union of an event: the command and the agreement (\<open>None\<close> is \<open>NULL\<close>), or the teardown flag.\<close>

datatype event_body = Setup setup_cmd "agreement_data option" | Teardown bool

record twt_event =
  ev_addr :: mac_addr
  ev_flow :: nat
  ev_body :: event_body

text \<open>
  \<open>struct morse_twt\<close>. Events are allocated objects (\<open>ev_heap\<close>) and the queues hold their addresses; an access to an event that was
  freed has no value. Stations exist while they are in \<open>stas\<close>. A list of agreements refers to them by station and flow, as the code
  links them into the list in place. \<open>install_ready\<close>: the queue of installations and the work items were initialised.
  \<open>allocs\<close> counts the allocations so far and names the next one. \<open>sent\<close> and \<open>fw_log\<close> record the frames handed on and the commands
  to the firmware, the latest first.
\<close>

type_synonym agr_ref = "nat \<times> nat"

datatype twt_out = To_mac80211 "u8 list" | To_mgmt_queue "u8 list"

datatype fw_cmd = Fw_install nat "u8 list" | Fw_validate nat "u8 list" | Fw_remove nat

record twt =
  ev_heap :: "nat \<Rightarrow> twt_event option"
  stas :: "twt_sta list"
  wake_intervals :: "agr_ref list list"
  events :: "nat list"
  tx :: "nat list"
  req_event_tx :: "nat option"
  requester :: bool
  responder :: bool
  next_dialog_token :: u8
  active_agreements :: u64
  to_install :: "nat list"
  install_ready :: bool
  work_scheduled :: bool
  cmd_work_scheduled :: bool
  allocs :: nat
  sent :: "twt_out list"
  fw_log :: "fw_cmd list"

text \<open>
  What the code reads and calls: the interface, the allocator (by the number of the allocation), mac80211's stations (their \<open>mfp\<close>
  flag), the driver's management queue and the firmware (its answer to the n-th command).
\<close>

record twt_env =
  v_type :: iftype
  v_addr :: mac_addr
  v_bssid :: mac_addr
  v_assoc :: bool
  t_kmalloc :: "nat \<Rightarrow> bool"
  t_find_sta :: "mac_addr \<Rightarrow> bool option"
  t_sw_crypto :: bool
  t_skb_tx :: "nat \<Rightarrow> u8 list \<Rightarrow> int"
  t_cmd_tx :: "nat \<Rightarrow> fw_cmd \<Rightarrow> int"

definition morse_twt_is_enabled :: "twt \<Rightarrow> bool" where
  "morse_twt_is_enabled st \<longleftrightarrow> requester st \<or> responder st"

definition kmalloc :: "twt_env \<Rightarrow> twt \<Rightarrow> twt \<times> nat option" where
  "kmalloc env st = (st\<lparr>allocs := allocs st + 1\<rparr>, if t_kmalloc env (allocs st) then Some (allocs st) else None)"

section \<open>Events and queues\<close>

definition put_event :: "nat \<Rightarrow> twt_event \<Rightarrow> twt \<Rightarrow> twt" where
  "put_event p e st = st\<lparr>ev_heap := (ev_heap st)(p := Some e)\<rparr>"

definition unlink_event :: "nat \<Rightarrow> twt \<Rightarrow> twt" where
  "unlink_event p st =
     st\<lparr>events := removeAll p (events st), tx := removeAll p (tx st), to_install := removeAll p (to_install st)\<rparr>"

definition morse_twt_purge_event :: "nat \<Rightarrow> twt \<Rightarrow> twt option" where
  "morse_twt_purge_event p st =
     (case ev_heap st p of
        None \<Rightarrow> None
      | Some e \<Rightarrow> Some ((unlink_event p st)\<lparr>ev_heap := (ev_heap st)(p := None)\<rparr>))"

definition purge_if :: "mac_addr option \<Rightarrow> nat option \<Rightarrow> nat \<Rightarrow> twt \<Rightarrow> twt option" where
  "purge_if addr flow p st =
     do {
       e \<leftarrow> ev_heap st p;
       if (case addr of None \<Rightarrow> True | Some a \<Rightarrow> ev_addr e = a) \<and> (case flow of None \<Rightarrow> True | Some f \<Rightarrow> ev_flow e = f)
       then morse_twt_purge_event p st else Some st
     }"

definition morse_twt_queue_purge :: "nat list \<Rightarrow> mac_addr option \<Rightarrow> nat option \<Rightarrow> twt \<Rightarrow> twt option" where
  "morse_twt_queue_purge q addr flow st =
     (if addr = None \<and> flow = None then Some st else ofold (purge_if addr flow) q st)"

definition morse_twt_event_queue_purge :: "mac_addr option \<Rightarrow> twt \<Rightarrow> twt option" where
  "morse_twt_event_queue_purge addr st = morse_twt_queue_purge (events st) addr None st"

definition morse_twt_tx_queue_purge :: "mac_addr option \<Rightarrow> twt \<Rightarrow> twt option" where
  "morse_twt_tx_queue_purge addr st = morse_twt_queue_purge (tx st) addr None st"

definition morse_twt_to_install_queue_purge :: "mac_addr option \<Rightarrow> twt \<Rightarrow> twt option" where
  "morse_twt_to_install_queue_purge addr st =
     (if addr = None then Some st
      else if install_ready st then morse_twt_queue_purge (to_install st) addr None st else None)"

text \<open>The first event for an address; an event with the zero address is for everybody.\<close>

definition zero_addr :: mac_addr where
  "zero_addr = replicate 6 0"

fun peek_walk :: "twt \<Rightarrow> mac_addr \<Rightarrow> nat option \<Rightarrow> nat list \<Rightarrow> nat option option" where
  "peek_walk st a flow [] = Some None"
| "peek_walk st a flow (p # q) =
     do {
       e \<leftarrow> ev_heap st p;
       if (ev_addr e = a \<or> ev_addr e = zero_addr) \<and> (case flow of None \<Rightarrow> True | Some f \<Rightarrow> ev_flow e = f)
       then Some (Some p) else peek_walk st a flow q
     }"

definition morse_twt_peek_queue :: "nat list \<Rightarrow> mac_addr option \<Rightarrow> nat option \<Rightarrow> twt \<Rightarrow> nat option option" where
  "morse_twt_peek_queue q addr flow st =
     (case addr of
        None \<Rightarrow> Some (case q of [] \<Rightarrow> None | p # _ \<Rightarrow> Some p)
      | Some a \<Rightarrow> peek_walk st a flow q)"

definition morse_twt_peek_tx :: "mac_addr option \<Rightarrow> nat option \<Rightarrow> twt \<Rightarrow> nat option option" where
  "morse_twt_peek_tx addr flow st =
     (if addr = None \<or> \<not> morse_twt_is_enabled st then Some None else morse_twt_peek_queue (tx st) addr flow st)"

definition morse_twt_peek_event :: "mac_addr option \<Rightarrow> nat option \<Rightarrow> twt \<Rightarrow> nat option option" where
  "morse_twt_peek_event addr flow st = morse_twt_peek_queue (events st) addr flow st"

definition morse_twt_queue_event :: "nat \<Rightarrow> twt \<Rightarrow> twt option" where
  "morse_twt_queue_event p st =
     do {
       e \<leftarrow> ev_heap st p;
       st \<leftarrow> morse_twt_queue_purge (events st) (Some (ev_addr e)) (Some (ev_flow e)) st;
       Some (st\<lparr>events := events st @ [p]\<rparr>)
     }"

section \<open>Stations and agreements\<close>

definition sta_at :: "twt \<Rightarrow> nat \<Rightarrow> twt_sta option" where
  "sta_at st i = find (\<lambda>s. sta_id s = i) (stas st)"

definition upd_sta :: "nat \<Rightarrow> (twt_sta \<Rightarrow> twt_sta) \<Rightarrow> twt \<Rightarrow> twt" where
  "upd_sta i f st = st\<lparr>stas := map (\<lambda>s. if sta_id s = i then f s else s) (stas st)\<rparr>"

definition agreement_at :: "twt \<Rightarrow> agr_ref \<Rightarrow> twt_agreement option" where
  "agreement_at st r = do { s \<leftarrow> sta_at st (fst r); nth_opt (agreements s) (snd r) }"

definition upd_agreement :: "agr_ref \<Rightarrow> (twt_agreement \<Rightarrow> twt_agreement) \<Rightarrow> twt \<Rightarrow> twt option" where
  "upd_agreement r f st =
     do {
       a \<leftarrow> agreement_at st r;
       Some (upd_sta (fst r) (\<lambda>s. s\<lparr>agreements := (agreements s)[snd r := f a]\<rparr>) st)
     }"

definition morse_twt_get_sta :: "mac_addr \<Rightarrow> twt \<Rightarrow> nat option" where
  "morse_twt_get_sta a st = map_option sta_id (find (\<lambda>s. sta_addr s = a) (stas st))"

definition zero_params :: twt_params where
  "zero_params = \<lparr>req_type = 0, twt_time = 0, min_twt_dur = 0, mantissa = 0, twt_channel = 0\<rparr>"

definition zero_data :: agreement_data where
  "zero_data = \<lparr>wake_time_us = 0, wake_interval_us = 0, wake_duration_us = 0, control = 0, params = zero_params\<rparr>"

definition new_sta :: "nat \<Rightarrow> mac_addr \<Rightarrow> twt_sta" where
  "new_sta i a =
     \<lparr>sta_id = i, sta_addr = a, dialog_token = 0, action_is_pending = False,
      agreements = replicate MORSE_TWT_AGREEMENTS_MAX_PER_STA \<lparr>agr_state = NO_AGREEMENT, agr_data = zero_data\<rparr>\<rparr>"

definition morse_twt_add_sta :: "twt_env \<Rightarrow> mac_addr \<Rightarrow> twt \<Rightarrow> twt \<times> nat option" where
  "morse_twt_add_sta env a st =
     (case kmalloc env st of
        (st, None) \<Rightarrow> (st, None)
      | (st, Some i) \<Rightarrow> (st\<lparr>stas := stas st @ [new_sta i a]\<rparr>, Some i))"

text \<open>An agreement leaves the list it is in; a list that becomes empty goes, too.\<close>

fun unlink_agreement :: "agr_ref \<Rightarrow> agr_ref list list \<Rightarrow> agr_ref list list" where
  "unlink_agreement r [] = []"
| "unlink_agreement r (w # ws) =
     (if r \<in> set w then (if removeAll r w = [] then ws else removeAll r w # ws) else w # unlink_agreement r ws)"

definition morse_twt_agreement_remove :: "agr_ref \<Rightarrow> twt \<Rightarrow> twt option" where
  "morse_twt_agreement_remove r st =
     do {
       a \<leftarrow> agreement_at st r;
       Some (st\<lparr>wake_intervals := unlink_agreement r (wake_intervals st)\<rparr>)
     }"

definition morse_twt_sta_remove :: "twt_env \<Rightarrow> nat option \<Rightarrow> twt \<Rightarrow> (twt \<times> int) option" where
  "morse_twt_sta_remove env sta st =
     (case sta of
        None \<Rightarrow> Some (st, - ENODEV)
      | Some i \<Rightarrow> do {
          s \<leftarrow> sta_at st i;
          st \<leftarrow> ofold (\<lambda>k. morse_twt_agreement_remove (i, k)) [0..<MORSE_TWT_AGREEMENTS_MAX_PER_STA] st;
          st \<leftarrow> (if v_type env = IF_STATION
                 then morse_twt_to_install_queue_purge (Some (sta_addr s)) (st\<lparr>active_agreements := 0\<rparr>)
                 else Some st);
          st \<leftarrow> morse_twt_tx_queue_purge (Some (sta_addr s)) st;
          Some (st\<lparr>stas := filter (\<lambda>s. sta_id s \<noteq> i) (stas st)\<rparr>, 0)
        })"

definition morse_twt_sta_remove_addr :: "twt_env \<Rightarrow> mac_addr \<Rightarrow> twt \<Rightarrow> (twt \<times> int) option" where
  "morse_twt_sta_remove_addr env a st =
     (if \<not> morse_twt_is_enabled st then Some (st, 0) else morse_twt_sta_remove env (morse_twt_get_sta a st) st)"

definition morse_twt_sta_remove_all :: "twt_env \<Rightarrow> twt \<Rightarrow> twt option" where
  "morse_twt_sta_remove_all env st =
     ofold (\<lambda>s st. map_option fst (morse_twt_sta_remove env (Some (sta_id s)) st)) (stas st) st"

definition morse_twt_sta_agreement_remove :: "twt_env \<Rightarrow> nat \<Rightarrow> nat \<Rightarrow> twt \<Rightarrow> (twt \<times> int) option" where
  "morse_twt_sta_agreement_remove env i flow st =
     (if MORSE_TWT_AGREEMENTS_MAX_PER_STA \<le> flow then Some (st, - EINVAL)
      else do {
        st \<leftarrow> morse_twt_agreement_remove (i, flow) st;
        s \<leftarrow> sta_at st i;
        if \<forall>a \<in> set (agreements s). agr_state a = NO_AGREEMENT then morse_twt_sta_remove env (Some i) st
        else Some (st, 0)
      })"

definition morse_twt_sta_agreement_add :: "nat \<Rightarrow> nat \<Rightarrow> agreement_data option \<Rightarrow> twt \<Rightarrow> (twt \<times> int) option" where
  "morse_twt_sta_agreement_add i flow data st =
     (case data of
        None \<Rightarrow> Some (st, - EINVAL)
      | Some d \<Rightarrow>
          if MORSE_TWT_AGREEMENTS_MAX_PER_STA \<le> flow then Some (st, - EINVAL)
          else map_option (\<lambda>st. (st, 0)) (upd_agreement (i, flow) (\<lambda>a. a\<lparr>agr_data := d\<rparr>) st))"

section \<open>Lists of agreements by wake interval\<close>

definition insert_list :: "nat \<Rightarrow> twt \<Rightarrow> twt" where
  "insert_list k st = st\<lparr>wake_intervals := take k (wake_intervals st) @ [] # drop k (wake_intervals st)\<rparr>"

definition new_list :: "twt_env \<Rightarrow> nat \<Rightarrow> twt \<Rightarrow> twt \<times> nat option" where
  "new_list env k st = (case kmalloc env st of (st, None) \<Rightarrow> (st, None) | (st, Some _) \<Rightarrow> (insert_list k st, Some k))"

text \<open>The list for an interval, found by its first agreement, or a new one at its place in the order; \<open>k\<close> lists were passed.\<close>

fun interval_walk :: "twt_env \<Rightarrow> u64 \<Rightarrow> nat \<Rightarrow> agr_ref list list \<Rightarrow> twt \<Rightarrow> (twt \<times> nat option) option" where
  "interval_walk env i k [] st = Some (st, None)"
| "interval_walk env i k (w # ws) st =
     (case w of
        [] \<Rightarrow> Some (st, None)
      | r # _ \<Rightarrow> do {
          a \<leftarrow> agreement_at st r;
          let j = wake_interval_us (agr_data a)
          in if j = i then Some (st, Some k)
             else if i < j then Some (new_list env k st)
             else if ws = [] then Some (new_list env (k + 1) st)
             else interval_walk env i (k + 1) ws st
        })"

definition morse_twt_agreement_wake_interval_get :: "twt_env \<Rightarrow> u64 \<Rightarrow> twt \<Rightarrow> (twt \<times> nat option) option" where
  "morse_twt_agreement_wake_interval_get env i st =
     (if wake_intervals st = [] then Some (new_list env 0 st) else interval_walk env i 0 (wake_intervals st) st)"

text \<open>
  The first gap that is long enough, or the end of the list: the position in the list and the wake time. The offsets in the
  interval are remainders; a zero interval has none.
\<close>

definition rem64 :: "u64 \<Rightarrow> u64 \<Rightarrow> u64 option" where
  "rem64 a b = (if b = 0 then None else Some (a mod b))"

definition EBADSLT :: int where "EBADSLT = 57"

fun fit_walk :: "twt \<Rightarrow> u32 \<Rightarrow> nat \<Rightarrow> agr_ref list \<Rightarrow> (int + nat \<times> u64) option" where
  "fit_walk st dur k [] = Some (Inl (- EBADSLT))"
| "fit_walk st dur k [r] =
     do {
       a \<leftarrow> agreement_at st r;
       Some (Inr (k + 1, wake_time_us (agr_data a) + ucast (wake_duration_us (agr_data a))))
     }"
| "fit_walk st dur k (r # r' # rs) =
     do {
       a \<leftarrow> agreement_at st r;
       a' \<leftarrow> agreement_at st r';
       cur \<leftarrow> rem64 (wake_time_us (agr_data a)) (wake_interval_us (agr_data a));
       next \<leftarrow> rem64 (wake_time_us (agr_data a')) (wake_interval_us (agr_data a'));
       let next = (if next < cur then next + wake_interval_us (agr_data a) else next);
           unalloc = next - (cur + ucast (wake_duration_us (agr_data a)))
       in if ucast dur \<le> unalloc
          then Some (Inr (k + 1, wake_time_us (agr_data a) + ucast (wake_duration_us (agr_data a))))
          else fit_walk st dur (k + 1) (r' # rs)
     }"

definition insert_at :: "nat \<Rightarrow> 'a \<Rightarrow> 'a list \<Rightarrow> 'a list" where
  "insert_at k x xs = take k xs @ x # drop k xs"

text \<open>\<open>list_add\<close> of an agreement: one that is linked already would corrupt the list.\<close>

definition link_agreement :: "nat \<Rightarrow> nat \<Rightarrow> agr_ref \<Rightarrow> twt \<Rightarrow> twt option" where
  "link_agreement w k r st =
     (if r \<in> set (concat (wake_intervals st)) then None
      else map_option (\<lambda>ws. st\<lparr>wake_intervals := ws\<rparr>) (upd_opt (wake_intervals st) w (insert_at k r)))"

definition set_wake_time :: "agr_ref \<Rightarrow> u64 \<Rightarrow> twt \<Rightarrow> twt option" where
  "set_wake_time r t = upd_agreement r (\<lambda>a. a\<lparr>agr_data := (agr_data a)\<lparr>wake_time_us := t\<rparr>\<rparr>)"

definition morse_twt_agreement_wake_interval_add :: "twt_env \<Rightarrow> agr_ref \<Rightarrow> twt \<Rightarrow> (twt \<times> int) option" where
  "morse_twt_agreement_wake_interval_add env r st =
     do {
       a \<leftarrow> agreement_at st r;
       if agr_state a = NO_AGREEMENT \<or> agr_state a = AGREEMENT then Some (st, - EINVAL)
       else do {
         (st, wi) \<leftarrow> morse_twt_agreement_wake_interval_get env (wake_interval_us (agr_data a)) st;
         case wi of
           None \<Rightarrow> Some (st, - EINVAL)
         | Some w \<Rightarrow> do {
             l \<leftarrow> nth_opt (wake_intervals st) w;
             if l = [] then do {
               st \<leftarrow> set_wake_time r 0 st;
               st \<leftarrow> link_agreement w 0 r st;
               Some (st, 0)
             }
             else if morse_twt_get_command (req_type (params (agr_data a))) = CMD_DEMAND then do {
               st \<leftarrow> link_agreement w (length l) r st;
               Some (st, 0)
             }
             else do {
               x \<leftarrow> fit_walk st (wake_duration_us (agr_data a)) 0 l;
               case x of
                 Inl e \<Rightarrow> Some (st, e)
               | Inr (k, t) \<Rightarrow> do {
                   st \<leftarrow> set_wake_time r t st;
                   st \<leftarrow> link_agreement w k r st;
                   Some (st, 0)
                 }
             }
           }
       }
     }"

end
