(* ===== verification/Twt_Events.thy ===== *)
theory Twt_Events
  imports Twt_Agreements
begin

text \<open>
  \<^verbatim>\<open>twt.c\<close>, the responder's state machine: action frames, accepting and rejecting, the states of an agreement, and the
  events that drive them.
\<close>

section \<open>Action frames\<close>

definition WLAN_CATEGORY_S1G_UNPROTECTED :: u8 where "WLAN_CATEGORY_S1G_UNPROTECTED = 22"
definition WLAN_CATEGORY_S1G_PROTECTED :: u8 where "WLAN_CATEGORY_S1G_PROTECTED = 23"
definition WLAN_S1G_TWT_SETUP :: u8 where "WLAN_S1G_TWT_SETUP = 6"
definition WLAN_S1G_TWT_TEARDOWN :: u8 where "WLAN_S1G_TWT_TEARDOWN = 7"
definition WLAN_S1G_PROTECTED_TWT_SETUP :: u8 where "WLAN_S1G_PROTECTED_TWT_SETUP = 4"
definition WLAN_S1G_PROTECTED_TWT_TEARDOWN :: u8 where "WLAN_S1G_PROTECTED_TWT_TEARDOWN = 5"

definition morse_dot11_is_twt_setup_action_frame :: "u8 \<Rightarrow> u8 \<Rightarrow> bool" where
  "morse_dot11_is_twt_setup_action_frame category code \<longleftrightarrow>
     category = WLAN_CATEGORY_S1G_PROTECTED \<and> code = WLAN_S1G_PROTECTED_TWT_SETUP \<or>
     category = WLAN_CATEGORY_S1G_UNPROTECTED \<and> code = WLAN_S1G_TWT_SETUP"

definition morse_dot11_is_twt_teardown_action_frame :: "u8 \<Rightarrow> u8 \<Rightarrow> bool" where
  "morse_dot11_is_twt_teardown_action_frame category code \<longleftrightarrow>
     category = WLAN_CATEGORY_S1G_PROTECTED \<and> code = WLAN_S1G_PROTECTED_TWT_TEARDOWN \<or>
     category = WLAN_CATEGORY_S1G_UNPROTECTED \<and> code = WLAN_S1G_TWT_TEARDOWN"

text \<open>\<open>- EINVAL\<close> for an event without data; 15 octets of element body.\<close>

definition morse_twt_get_ie_size :: "twt_event \<Rightarrow> int" where
  "morse_twt_get_ie_size e = (case ev_body e of Setup _ None \<Rightarrow> - EINVAL | Setup _ (Some _) \<Rightarrow> 15 | Teardown _ \<Rightarrow> 0)"

definition morse_dot11_insert_ie :: "u8 \<Rightarrow> u8 list \<Rightarrow> u8 list" where
  "morse_dot11_insert_ie eid body = eid # of_nat (length body) # body"

text \<open>The frame: management action, addresses, category and code, then the token and the element or the flow.\<close>

definition action_frame :: "twt_env \<Rightarrow> twt_event \<Rightarrow> mac_addr \<Rightarrow> u8 \<Rightarrow> bool \<Rightarrow> bool \<Rightarrow> u8 list" where
  "action_frame env e dest token is_setup mfp =
     le16 (if mfp then 0x40d0 else 0x00d0) @ [0, 0] @ dest @ v_addr env @ v_bssid env @ [0, 0] @
     (if mfp then [WLAN_CATEGORY_S1G_PROTECTED, if is_setup then WLAN_S1G_PROTECTED_TWT_SETUP else WLAN_S1G_PROTECTED_TWT_TEARDOWN]
      else [WLAN_CATEGORY_S1G_UNPROTECTED, if is_setup then WLAN_S1G_TWT_SETUP else WLAN_S1G_TWT_TEARDOWN]) @
     (if is_setup
      then token # (case ev_body e of Setup _ (Some a) \<Rightarrow> morse_dot11_insert_ie WLAN_EID_S1G_TWT (ie_octets a) | _ \<Rightarrow> [])
      else [of_nat (ev_flow e)])"

text \<open>A setup event without data would get a frame that is too short for what is written into it.\<close>

definition morse_mac_send_twt_action_frame ::
  "twt_env \<Rightarrow> twt_event \<Rightarrow> mac_addr \<Rightarrow> u8 \<Rightarrow> bool \<Rightarrow> twt \<Rightarrow> (twt \<times> int) option" where
  "morse_mac_send_twt_action_frame env e dest token is_setup st =
     (case kmalloc env st of
        (st, None) \<Rightarrow> Some (st, - ENOMEM)
      | (st, Some _) \<Rightarrow>
          if is_setup \<and> morse_twt_get_ie_size e < 0 then None
          else (case t_find_sta env dest of
              None \<Rightarrow> Some (st, - EINVAL)
            | Some mfp \<Rightarrow>
                if mfp \<and> t_sw_crypto env then Some (st, - EINVAL)
                else (let f = action_frame env e dest token is_setup mfp
                      in if mfp then Some (st\<lparr>sent := To_mac80211 f # sent st\<rparr>, 0)
                         else (let ret = t_skb_tx env (allocs st) f
                               in if ret \<noteq> 0 then Some (st, ret) else Some (st\<lparr>sent := To_mgmt_queue f # sent st\<rparr>, 0)))))"

section \<open>Entering a state\<close>

text \<open>\<open>morse_twt_enter_state\<close> for the two states that end a negotiation.\<close>

definition set_agr_state :: "nat \<Rightarrow> nat \<Rightarrow> twt_state \<Rightarrow> twt \<Rightarrow> twt option" where
  "set_agr_state i flow s = upd_agreement (i, flow) (\<lambda>a. a\<lparr>agr_state := s\<rparr>)"

definition morse_twt_enter_state_no_agreement :: "twt_env \<Rightarrow> nat \<Rightarrow> twt_event \<Rightarrow> twt \<Rightarrow> (twt \<times> int) option" where
  "morse_twt_enter_state_no_agreement env i e st =
     do { st \<leftarrow> set_agr_state i (ev_flow e) NO_AGREEMENT st; morse_twt_sta_agreement_remove env i (ev_flow e) st }"

definition morse_twt_enter_state_agreement :: "nat \<Rightarrow> twt_event \<Rightarrow> twt \<Rightarrow> (twt \<times> int) option" where
  "morse_twt_enter_state_agreement i e st =
     do {
       st \<leftarrow> set_agr_state i (ev_flow e) AGREEMENT st;
       data \<leftarrow> (case ev_body e of Setup _ d \<Rightarrow> Some d | Teardown _ \<Rightarrow> None);
       morse_twt_sta_agreement_add i (ev_flow e) data st
     }"

text \<open>
  The answer to a request: as an action frame, after which the state is entered and the event is freed, or on the queue for the
  association response.
\<close>

definition answer :: "twt_env \<Rightarrow> nat \<Rightarrow> nat \<Rightarrow> (twt_event \<Rightarrow> twt \<Rightarrow> (twt \<times> int) option) \<Rightarrow> twt \<Rightarrow> (twt \<times> int) option" where
  "answer env i p enter st =
     do {
       e \<leftarrow> ev_heap st p;
       s \<leftarrow> sta_at st i;
       if action_is_pending s then do {
         (st, _) \<leftarrow> morse_mac_send_twt_action_frame env e (sta_addr s) (dialog_token s) True st;
         (st, _) \<leftarrow> enter e (upd_sta i (\<lambda>s. s\<lparr>action_is_pending := False\<rparr>) st);
         st \<leftarrow> morse_twt_purge_event p st;
         Some (st, 0)
       }
       else Some (st\<lparr>tx := tx st @ [p]\<rparr>, 0)
     }"

definition accepted_data :: "agreement_data \<Rightarrow> agreement_data" where
  "accepted_data a =
     a\<lparr>params := morse_twt_update_params (control a) (wake_time_us a) (wake_interval_us a) (wake_duration_us a)
         ((params a)\<lparr>req_type := morse_twt_set_command CMD_ACCEPT (req_type (params a))\<rparr>)\<rparr>"

definition morse_twt_send_accept :: "twt_env \<Rightarrow> nat \<Rightarrow> nat \<Rightarrow> twt \<Rightarrow> (twt \<times> int) option" where
  "morse_twt_send_accept env i p st =
     do {
       e \<leftarrow> ev_heap st p;
       data \<leftarrow> (case ev_body e of Setup _ d \<Rightarrow> Some d | Teardown _ \<Rightarrow> None);
       case data of
         None \<Rightarrow> Some (st, - EINVAL)
       | Some d \<Rightarrow> do {
           let r = (i, ev_flow e);
           st \<leftarrow> upd_agreement r (\<lambda>a. a\<lparr>agr_data := d\<rparr>) st;
           (st, _) \<leftarrow> morse_twt_agreement_wake_interval_add env r st;
           st \<leftarrow> upd_agreement r (\<lambda>a. a\<lparr>agr_data := accepted_data (agr_data a)\<rparr>) st;
           a \<leftarrow> agreement_at st r;
           answer env i p (morse_twt_enter_state_agreement i) (put_event p (e\<lparr>ev_body := Setup CMD_ACCEPT (Some (agr_data a))\<rparr>) st)
         }
     }"

definition rejected_data :: "agreement_data \<Rightarrow> agreement_data" where
  "rejected_data a = a\<lparr>params := (params a)\<lparr>req_type := morse_twt_set_command CMD_REJECT (req_type (params a))\<rparr>\<rparr>"

definition morse_twt_send_reject :: "twt_env \<Rightarrow> nat \<Rightarrow> nat \<Rightarrow> twt \<Rightarrow> (twt \<times> int) option" where
  "morse_twt_send_reject env i p st =
     do {
       e \<leftarrow> ev_heap st p;
       d \<leftarrow> (case ev_body e of Setup _ d \<Rightarrow> d | Teardown _ \<Rightarrow> None);
       answer env i p (morse_twt_enter_state_no_agreement env i) (put_event p (e\<lparr>ev_body := Setup CMD_REJECT (Some (rejected_data d))\<rparr>) st)
     }"

text \<open>\<open>morse_twt_enter_state\<close>; a station that is \<open>NULL\<close> is an error.\<close>

definition morse_twt_enter_state :: "twt_env \<Rightarrow> nat option \<Rightarrow> nat \<Rightarrow> twt_state \<Rightarrow> twt \<Rightarrow> (twt \<times> int) option" where
  "morse_twt_enter_state env sta p s st =
     (case sta of
        None \<Rightarrow> Some (st, - EINVAL)
      | Some i \<Rightarrow> do {
          e \<leftarrow> ev_heap st p;
          case s of
            NO_AGREEMENT \<Rightarrow> morse_twt_enter_state_no_agreement env i e st
          | AGREEMENT \<Rightarrow> morse_twt_enter_state_agreement i e st
          | CONSIDER_REQUEST \<Rightarrow> Option.bind (set_agr_state i (ev_flow e) s st) (morse_twt_send_accept env i p)
          | CONSIDER_SUGGEST \<Rightarrow> Option.bind (set_agr_state i (ev_flow e) s st) (morse_twt_send_accept env i p)
          | CONSIDER_DEMAND \<Rightarrow> Option.bind (set_agr_state i (ev_flow e) s st) (morse_twt_send_reject env i p)
          | CONSIDER_GROUPING \<Rightarrow> Option.bind (set_agr_state i (ev_flow e) s st) (morse_twt_send_reject env i p)
        })"

section \<open>Events in a state\<close>

text \<open>The state that a request leads to; grouping is considered like a demand. The others are responses.\<close>

definition considered :: "setup_cmd \<Rightarrow> twt_state option" where
  "considered cmd =
     (case cmd of
        CMD_REQUEST \<Rightarrow> Some CONSIDER_REQUEST
      | CMD_SUGGEST \<Rightarrow> Some CONSIDER_SUGGEST
      | CMD_DEMAND \<Rightarrow> Some CONSIDER_DEMAND
      | CMD_GROUPING \<Rightarrow> Some CONSIDER_DEMAND
      | _ \<Rightarrow> None)"

definition morse_twt_handle_event_in_no_agreement :: "twt_env \<Rightarrow> nat \<Rightarrow> nat \<Rightarrow> twt \<Rightarrow> (twt \<times> int) option" where
  "morse_twt_handle_event_in_no_agreement env i p st =
     do {
       e \<leftarrow> ev_heap st p;
       case ev_body e of
         Setup cmd _ \<Rightarrow>
           (case considered cmd of
              Some s \<Rightarrow> map_option (\<lambda>(st, _). (st, 0)) (morse_twt_enter_state env (Some i) p s st)
            | None \<Rightarrow> map_option (\<lambda>st. (st, - EINVAL)) (morse_twt_purge_event p st))
       | Teardown _ \<Rightarrow> map_option (\<lambda>st. (st, - EINVAL)) (morse_twt_purge_event p st)
     }"

definition morse_twt_handle_event_in_consider :: "nat \<Rightarrow> twt \<Rightarrow> (twt \<times> int) option" where
  "morse_twt_handle_event_in_consider p st =
     do {
       e \<leftarrow> ev_heap st p;
       case ev_body e of
         Setup cmd _ \<Rightarrow>
           if considered cmd \<noteq> None then map_option (\<lambda>st. (st, 0)) (morse_twt_purge_event p st) else Some (st, - EINVAL)
       | Teardown _ \<Rightarrow> Some (st, - EINVAL)
     }"

definition morse_twt_handle_event_in_agreement :: "twt_env \<Rightarrow> nat \<Rightarrow> nat \<Rightarrow> twt \<Rightarrow> (twt \<times> int) option" where
  "morse_twt_handle_event_in_agreement env i p st =
     do {
       e \<leftarrow> ev_heap st p;
       case ev_body e of
         Setup cmd _ \<Rightarrow>
           if considered cmd = None then Some (st, - EINVAL)
           else do {
             s \<leftarrow> sta_at st i;
             old \<leftarrow> morse_twt_peek_tx (Some (sta_addr s)) (Some (ev_flow e)) st;
             if old \<noteq> None then map_option (\<lambda>st. (st, 0)) (morse_twt_purge_event p st)
             else map_option (\<lambda>(st, _). (st, 0)) (morse_twt_send_reject env i p st)
           }
       | Teardown _ \<Rightarrow> Some (st, - EINVAL)
     }"

section \<open>The queue of events\<close>

text \<open>Whether the event is for the responder's state machine; others are moved or freed.\<close>

definition morse_twt_preprocess_event :: "twt_env \<Rightarrow> nat \<Rightarrow> twt \<Rightarrow> (twt \<times> bool) option" where
  "morse_twt_preprocess_event env p st =
     do {
       e \<leftarrow> ev_heap st p;
       case ev_body e of
         Teardown t \<Rightarrow> if t then Some (st, True) else None
       | Setup cmd _ \<Rightarrow>
           if considered cmd \<noteq> None \<and> responder st then Some (st, True)
           else if cmd = CMD_ACCEPT \<and> requester st then
             (if install_ready st
              then Some (st\<lparr>to_install := to_install st @ [p], cmd_work_scheduled := cmd_work_scheduled st \<or> v_assoc env\<rparr>, False)
              else None)
           else map_option (\<lambda>st. (st, False)) (morse_twt_purge_event p st)
     }"

definition morse_twt_handle_event_teardown :: "twt_env \<Rightarrow> nat option \<Rightarrow> nat \<Rightarrow> twt \<Rightarrow> twt option" where
  "morse_twt_handle_event_teardown env sta p st =
     do {
       (st, _) \<leftarrow> (if v_type env = IF_AP then morse_twt_enter_state env sta p NO_AGREEMENT st else Some (st, - EINVAL));
       morse_twt_purge_event p st
     }"

text \<open>One setup event for a station that exists.\<close>

definition handle_setup :: "twt_env \<Rightarrow> nat \<Rightarrow> nat \<Rightarrow> twt \<Rightarrow> twt option" where
  "handle_setup env i p st =
     do {
       e \<leftarrow> ev_heap st p;
       a \<leftarrow> agreement_at st (i, ev_flow e);
       map_option fst (case agr_state a of
         NO_AGREEMENT \<Rightarrow> morse_twt_handle_event_in_no_agreement env i p st
       | AGREEMENT \<Rightarrow> morse_twt_handle_event_in_agreement env i p st
       | _ \<Rightarrow> morse_twt_handle_event_in_consider p st)
     }"

text \<open>
  The body of the loop for one event; the result says whether the loop goes on. When no station can be allocated the function
  returns, and the event is in no queue any more.
\<close>

definition handle_one :: "twt_env \<Rightarrow> nat \<Rightarrow> twt \<Rightarrow> (twt \<times> bool) option" where
  "handle_one env p st =
     do {
       (st, go) \<leftarrow> morse_twt_preprocess_event env p (st\<lparr>events := removeAll p (events st)\<rparr>);
       if \<not> go then Some (st, True)
       else do {
         e \<leftarrow> ev_heap st p;
         let sta = morse_twt_get_sta (ev_addr e) st
         in case ev_body e of
              Teardown _ \<Rightarrow> map_option (\<lambda>st. (st, True)) (morse_twt_handle_event_teardown env sta p st)
            | Setup _ _ \<Rightarrow>
                (case (case sta of None \<Rightarrow> morse_twt_add_sta env (ev_addr e) st | Some i \<Rightarrow> (st, Some i)) of
                   (st, None) \<Rightarrow> Some (st\<lparr>work_scheduled := True\<rparr>, False)
                 | (st, Some i) \<Rightarrow> map_option (\<lambda>st. (st, True)) (handle_setup env i p st))
       }
     }"

partial_function (option) handle_walk :: "twt_env \<Rightarrow> mac_addr option \<Rightarrow> twt \<Rightarrow> twt option" where
  "handle_walk env addr st =
     do {
       p \<leftarrow> morse_twt_peek_event addr None st;
       case p of
         None \<Rightarrow> Some st
       | Some p \<Rightarrow> do {
           (st, go) \<leftarrow> handle_one env p st;
           if go then handle_walk env addr st else Some st
         }
     }"

declare handle_walk.simps [code]

definition morse_twt_handle_event :: "twt_env \<Rightarrow> mac_addr option \<Rightarrow> twt \<Rightarrow> twt option" where
  "morse_twt_handle_event env addr st = (if morse_twt_is_enabled st then handle_walk env addr st else Some st)"

definition morse_twt_handle_event_work :: "twt_env \<Rightarrow> twt \<Rightarrow> twt option" where
  "morse_twt_handle_event_work env st = morse_twt_handle_event env None (st\<lparr>work_scheduled := False\<rparr>)"

section \<open>Responses that were sent\<close>

definition morse_twt_dequeue_tx_response :: "twt_env \<Rightarrow> nat \<Rightarrow> twt \<Rightarrow> (twt \<times> int) option" where
  "morse_twt_dequeue_tx_response env p st =
     do {
       e \<leftarrow> ev_heap st p;
       case morse_twt_get_sta (ev_addr e) st of
         None \<Rightarrow> Some (st, - ENODEV)
       | Some i \<Rightarrow> do {
           a \<leftarrow> agreement_at st (i, ev_flow e);
           if agr_state a = NO_AGREEMENT \<or> agr_state a = AGREEMENT then Some (st, - EINVAL)
           else case ev_body e of
               Setup cmd _ \<Rightarrow>
                 if cmd = CMD_ACCEPT then morse_twt_enter_state env (Some i) p AGREEMENT st
                 else if cmd = CMD_REJECT then morse_twt_enter_state env (Some i) p NO_AGREEMENT st
                 else Some (st, 0)
             | Teardown _ \<Rightarrow> None
         }
     }"

definition morse_twt_dequeue_tx :: "twt_env \<Rightarrow> nat \<Rightarrow> twt \<Rightarrow> (twt \<times> int) option" where
  "morse_twt_dequeue_tx env p st =
     (if \<not> morse_twt_is_enabled st then Some (st, - EINVAL)
      else do {
        e \<leftarrow> ev_heap st p;
        (st, ret) \<leftarrow> (case ev_body e of
            Setup cmd _ \<Rightarrow> if considered cmd \<noteq> None then Some (st, 0) else morse_twt_dequeue_tx_response env p st
          | Teardown _ \<Rightarrow> Some (st, 0));
        st \<leftarrow> morse_twt_purge_event p st;
        Some (st, ret)
      })"

end
