(* ===== verification/Twt_Requester.thy ===== *)
theory Twt_Requester
  imports Twt_Events
begin

text \<open>
  \<^verbatim>\<open>twt.c\<close>, frames and commands: elements and action frames that arrive, the requester's commands, installing agreements in
  the firmware, and the interface's start and end; and the places of \<^verbatim>\<open>mac.c\<close> that call them.
\<close>

section \<open>Frames that arrive\<close>

text \<open>The allocation of the agreement, and the event that the element describes.\<close>

definition event_of :: "agreement_data \<Rightarrow> mac_addr \<Rightarrow> twt_event" where
  "event_of a src =
     \<lparr>ev_addr = src, ev_flow = flow_id_of (req_type (params a)),
      ev_body = Setup (morse_twt_get_command (req_type (params a))) (Some a)\<rparr>"

definition morse_twt_parse_ie :: "twt_env \<Rightarrow> ie_element option \<Rightarrow> mac_addr \<Rightarrow> twt \<Rightarrow> (twt \<times> (int + twt_event)) option" where
  "morse_twt_parse_ie env ie src st =
     (if \<not> morse_twt_is_enabled st then Some (st, Inl (- EINVAL))
      else case ie of
          None \<Rightarrow> Some (st, Inl (- EINVAL))
        | Some ie \<Rightarrow> do {
            r \<leftarrow> parse_element (v_type env) ie;
            case r of
              Inl ret \<Rightarrow> Some (st, Inl ret)
            | Inr a \<Rightarrow>
                (case kmalloc env st of
                   (st, None) \<Rightarrow> Some (st, Inl (- ENOMEM))
                 | (st, Some _) \<Rightarrow> Some (st, Inr (event_of a src)))
          })"

text \<open>The event is allocated before the element is parsed; one that does not parse is freed at once.\<close>

definition morse_mac_process_twt_ie :: "twt_env \<Rightarrow> ie_element option \<Rightarrow> mac_addr \<Rightarrow> twt \<Rightarrow> twt option" where
  "morse_mac_process_twt_ie env ie src st =
     (case kmalloc env st of
        (st, None) \<Rightarrow> Some st
      | (st, Some p) \<Rightarrow> do {
          (st, r) \<leftarrow> morse_twt_parse_ie env ie src st;
          case r of Inl _ \<Rightarrow> Some st | Inr e \<Rightarrow> morse_twt_queue_event p (put_event p e st)
        })"

definition teardown_event :: "mac_addr \<Rightarrow> u8 \<Rightarrow> twt_event" where
  "teardown_event a flow = \<lparr>ev_addr = a, ev_flow = unat (flow AND 7), ev_body = Teardown True\<rparr>"

text \<open>The allocation is not checked.\<close>

definition alloc_event :: "twt_env \<Rightarrow> twt_event \<Rightarrow> twt \<Rightarrow> (twt \<times> nat) option" where
  "alloc_event env e st = (case kmalloc env st of (st, None) \<Rightarrow> None | (st, Some p) \<Rightarrow> Some (put_event p e st, p))"

definition morse_mac_process_twt_teardown :: "twt_env \<Rightarrow> u8 \<Rightarrow> mac_addr \<Rightarrow> twt \<Rightarrow> (twt \<times> int) option" where
  "morse_mac_process_twt_teardown env flow src st =
     (if v_type env = IF_AP \<and> morse_twt_get_sta src st = None then Some (st, - ENODEV)
      else do {
        (st, p) \<leftarrow> alloc_event env (teardown_event src flow) st;
        st \<leftarrow> morse_twt_queue_event p st;
        Some (st\<lparr>work_scheduled := True\<rparr>, 0)
      })"

text \<open>The octets of the action frame from its category on.\<close>

definition EACCES :: int where "EACCES = 13"

definition morse_mac_process_twt_action_frame ::
  "twt_env \<Rightarrow> u8 list \<Rightarrow> ie_element option \<Rightarrow> mac_addr \<Rightarrow> twt \<Rightarrow> (twt \<times> int) option" where
  "morse_mac_process_twt_action_frame env b ie src st =
     do {
       category \<leftarrow> nth_opt b 0;
       code \<leftarrow> nth_opt b 1;
       if morse_dot11_is_twt_setup_action_frame category code then do {
         st \<leftarrow> morse_mac_process_twt_ie env ie src st;
         case (case morse_twt_get_sta src st of None \<Rightarrow> morse_twt_add_sta env src st | Some i \<Rightarrow> (st, Some i)) of
           (st, None) \<Rightarrow> Some (st, - ENOMEM)
         | (st, Some i) \<Rightarrow> do {
             token \<leftarrow> nth_opt b 2;
             Some ((upd_sta i (\<lambda>s. s\<lparr>dialog_token := token, action_is_pending := True\<rparr>) st)\<lparr>work_scheduled := True\<rparr>, - EACCES)
           }
       }
       else if morse_dot11_is_twt_teardown_action_frame category code then do {
         flow \<leftarrow> nth_opt b 2;
         (st, _) \<leftarrow> morse_mac_process_twt_teardown env flow src st;
         Some (st, - EACCES)
       }
       else Some (st, 0)
     }"

text \<open>The frame control of management frames: association requests and responses, and action frames.\<close>

definition is_assoc_frame :: "u16 \<Rightarrow> bool" where
  "is_assoc_frame fc \<longleftrightarrow> fc AND 0xfc \<in> {0x00, 0x10, 0x20, 0x30}"

definition morse_mac_process_rx_twt_mgmt :: "twt_env \<Rightarrow> u8 list \<Rightarrow> ie_element option \<Rightarrow> twt \<Rightarrow> (twt \<times> int) option" where
  "morse_mac_process_rx_twt_mgmt env frame ie st =
     (if \<not> morse_twt_is_enabled st then Some (st, 0)
      else do {
        fc \<leftarrow> le16_at frame 0;
        src \<leftarrow> (if 16 \<le> length frame then Some (take 6 (drop 10 frame)) else None);
        if is_assoc_frame fc \<and> ie \<noteq> None then map_option (\<lambda>st. (st, 0)) (morse_mac_process_twt_ie env ie src st)
        else if fc AND 0xfc = 0xd0 then
          morse_mac_process_twt_action_frame env (drop (24 + (if fc AND 0x4000 \<noteq> 0 then 8 else 0)) frame) ie src st
        else Some (st, 0)
      })"

text \<open>An action frame was sent: only the code is looked at, not the category.\<close>

definition morse_mac_process_twt_action_tx_finish :: "twt_env \<Rightarrow> u8 list \<Rightarrow> twt \<Rightarrow> twt option" where
  "morse_mac_process_twt_action_tx_finish env frame st =
     (if \<not> morse_twt_is_enabled st then Some st
      else do {
        code \<leftarrow> nth_opt frame 25;
        if code = WLAN_S1G_PROTECTED_TWT_TEARDOWN \<or> code = WLAN_S1G_TWT_TEARDOWN then do {
          flow \<leftarrow> nth_opt frame 26;
          (st, p) \<leftarrow> alloc_event env (teardown_event (take 6 (drop 4 frame)) flow) st;
          if install_ready st then Some (st\<lparr>to_install := to_install st @ [p], cmd_work_scheduled := True\<rparr>) else None
        }
        else Some st
      })"

section \<open>The firmware\<close>

definition twt_cmd_tx :: "twt_env \<Rightarrow> fw_cmd \<Rightarrow> twt \<Rightarrow> twt \<times> int" where
  "twt_cmd_tx env c st = (st\<lparr>fw_log := c # fw_log st\<rparr>, t_cmd_tx env (length (fw_log st)) c)"

text \<open>The buffer of the command is not checked; the flow is read before the agreement becomes implicit.\<close>

definition morse_cmd_twt_agreement_req ::
  "twt_env \<Rightarrow> bool \<Rightarrow> agreement_data \<Rightarrow> twt \<Rightarrow> (twt \<times> agreement_data \<times> int) option" where
  "morse_cmd_twt_agreement_req env validate_only a st =
     (case kmalloc env st of
        (st, None) \<Rightarrow> None
      | (st, Some _) \<Rightarrow>
          (case morse_twt_initialise_agreement a of
             (a', b, _) \<Rightarrow>
               (case twt_cmd_tx env ((if validate_only then Fw_validate else Fw_install) (flow_id_of (req_type (params a))) b) st of
                  (st, ret) \<Rightarrow> Some (st, a', ret))))"

definition morse_twt_uninstall_agreement :: "twt_env \<Rightarrow> nat \<Rightarrow> twt \<Rightarrow> twt \<times> int" where
  "morse_twt_uninstall_agreement env flow st = twt_cmd_tx env (Fw_remove flow) st"

text \<open>The bitmap is one \<open>unsigned long\<close> of 64 bits.\<close>

definition test_agreement :: "nat \<Rightarrow> twt \<Rightarrow> bool option" where
  "test_agreement flow st = (if flow < 64 then Some (bit (active_agreements st) flow) else None)"

definition set_agreement :: "nat \<Rightarrow> twt \<Rightarrow> twt option" where
  "set_agreement flow st = (if flow < 64 then Some (st\<lparr>active_agreements := active_agreements st OR push_bit flow 1\<rparr>) else None)"

definition clear_agreement :: "nat \<Rightarrow> twt \<Rightarrow> twt option" where
  "clear_agreement flow st =
     (if flow < 64 then Some (st\<lparr>active_agreements := active_agreements st AND NOT (push_bit flow 1)\<rparr>) else None)"

definition pending_cmd :: "twt_env \<Rightarrow> nat \<Rightarrow> twt \<Rightarrow> twt option" where
  "pending_cmd env p st =
     do {
       e \<leftarrow> ev_heap st p;
       st \<leftarrow> (case ev_body e of
           Teardown _ \<Rightarrow>
             (case morse_twt_uninstall_agreement env (ev_flow e) st of
                (st, ret) \<Rightarrow> if ret = 0 then clear_agreement (ev_flow e) st else Some st)
         | Setup cmd data \<Rightarrow> do {
             a \<leftarrow> data;
             (st, a', ret) \<leftarrow> morse_cmd_twt_agreement_req env False a st;
             let st = put_event p (e\<lparr>ev_body := Setup cmd (Some a')\<rparr>) st
             in if ret = 0 then set_agreement (ev_flow e) st else Some st
           });
       morse_twt_purge_event p st
     }"

definition morse_twt_process_pending_cmds :: "twt_env \<Rightarrow> twt \<Rightarrow> twt option" where
  "morse_twt_process_pending_cmds env st =
     (if \<not> morse_twt_is_enabled st then Some st
      else if \<not> install_ready st then None
      else ofold (pending_cmd env) (to_install st) (st\<lparr>to_install := []\<rparr>))"

definition morse_twt_handle_cmd_work :: "twt_env \<Rightarrow> twt \<Rightarrow> twt option" where
  "morse_twt_handle_cmd_work env st = morse_twt_process_pending_cmds env (st\<lparr>cmd_work_scheduled := False\<rparr>)"

section \<open>The requester's commands\<close>

text \<open>
  A request is sent in an action frame when the interface is associated, and kept for the association request otherwise. The agreement
  belongs to the new event then; what the event kept before owned is not freed with it. On an error nobody frees the agreement.
\<close>

definition morse_twt_requester_send :: "twt_env \<Rightarrow> agreement_data \<Rightarrow> setup_cmd \<Rightarrow> twt \<Rightarrow> (twt \<times> int) option" where
  "morse_twt_requester_send env a cmd st =
     (if \<not> requester st then Some (st, - EPERM)
      else case kmalloc env st of
          (st, None) \<Rightarrow> Some (st, - ENOMEM)
        | (st, Some p) \<Rightarrow>
            if considered cmd = None then Some (st, - EINVAL)
            else (let e = \<lparr>ev_addr = zero_addr, ev_flow = 0, ev_body = Setup cmd (Some a)\<rparr>; st = put_event p e st
                  in if v_assoc env then do {
                       let token = next_dialog_token st + 1;
                       (st, _) \<leftarrow> morse_mac_send_twt_action_frame env e (v_bssid env) token True (st\<lparr>next_dialog_token := token\<rparr>);
                       st \<leftarrow> morse_twt_purge_event p st;
                       Some (st, 0)
                     }
                     else (let st = (case req_event_tx st of None \<Rightarrow> st | Some q \<Rightarrow> st\<lparr>ev_heap := (ev_heap st)(q := None)\<rparr>)
                           in Some (st\<lparr>req_event_tx := Some p\<rparr>, 0))))"

record twt_conf =
  c_vif_id :: nat
  opcode :: nat
  c_flow :: nat
  target_wake_time :: u64
  c_interval :: u64
  c_duration :: u32
  c_setup_cmd :: nat

definition OP_CONFIGURE :: nat where "OP_CONFIGURE = 0"
definition OP_FORCE_INSTALL :: nat where "OP_FORCE_INSTALL = 1"
definition OP_REMOVE :: nat where "OP_REMOVE = 2"
definition OP_CONFIGURE_EXPLICIT :: nat where "OP_CONFIGURE_EXPLICIT = 3"

text \<open>The other reading of the union of the interval: two octets of mantissa and one of exponent.\<close>

definition c_mantissa :: "twt_conf \<Rightarrow> u16" where
  "c_mantissa c = ucast (c_interval c)"

definition c_exponent :: "twt_conf \<Rightarrow> nat" where
  "c_exponent c = unat (ucast (drop_bit 16 (c_interval c)) :: u8)"

text \<open>The agreement of a request; \<open>None\<close>: the shift is by more than the width.\<close>

definition conf_data :: "twt_conf \<Rightarrow> agreement_data option" where
  "conf_data c =
     do {
       (interval, m, e) \<leftarrow>
         (if opcode c = OP_CONFIGURE_EXPLICIT
          then map_option (\<lambda>i. (i, c_mantissa c, c_exponent c)) (twt_calculate_wake_interval (c_mantissa c) (c_exponent c))
          else twt_calculate_wake_interval_fields (c_interval c));
       let rt = (of_nat (c_flow c * 128) AND TWT_REQTYPE_FLOWID) OR (of_nat (e * 1024) AND TWT_REQTYPE_WAKE_INT_EXP)
       in Some (zero_data\<lparr>wake_interval_us := interval, wake_duration_us := c_duration c,
            params := zero_params\<lparr>req_type := rt, mantissa := m, min_twt_dur := twt_calculate_wake_duration (c_duration c)\<rparr>\<rparr>)
     }"

definition request_data :: "nat \<Rightarrow> agreement_data \<Rightarrow> agreement_data" where
  "request_data cmd a =
     a\<lparr>params := (params a)\<lparr>req_type :=
         req_type (params a) OR TWT_REQTYPE_REQUEST OR (of_nat (cmd * 2) AND TWT_REQTYPE_SETUP_CMD)\<rparr>\<rparr>"

text \<open>The operation code is passed on as the setup command: 0 is a request, 3 a grouping.\<close>

definition morse_twt_process_set_cmd :: "twt_env \<Rightarrow> twt_conf \<Rightarrow> twt \<Rightarrow> (twt \<times> int) option" where
  "morse_twt_process_set_cmd env c st =
     do {
       active \<leftarrow> test_agreement (c_flow c) st;
       if active then Some (st, - EPERM)
       else case kmalloc env st of
           (st, None) \<Rightarrow> Some (st, - EINVAL)
         | (st, Some _) \<Rightarrow> do {
             a \<leftarrow> conf_data c;
             if opcode c = OP_FORCE_INSTALL then do {
               (st, a, ret) \<leftarrow> morse_cmd_twt_agreement_req env False (a\<lparr>params := (params a)\<lparr>twt_time := target_wake_time c\<rparr>\<rparr>) st;
               st \<leftarrow> (if ret = 0 then set_agreement (c_flow c) (st\<lparr>requester := True, responder := False\<rparr>) else Some st);
               Some (st, ret)
             }
             else do {
               (st, a, ret) \<leftarrow> morse_cmd_twt_agreement_req env True a st;
               if ret \<noteq> 0 then Some (st, ret)
               else morse_twt_requester_send env (request_data (c_setup_cmd c) a) (setup_cmd_of (of_nat (opcode c))) st
             }
           }
     }"

definition morse_twt_process_remove_cmd :: "twt_env \<Rightarrow> twt_conf \<Rightarrow> twt \<Rightarrow> (twt \<times> int) option" where
  "morse_twt_process_remove_cmd env c st =
     (if v_type env \<noteq> IF_STATION then Some (st, - EINVAL)
      else do {
        active \<leftarrow> test_agreement (c_flow c) st;
        if \<not> active then Some (st, - EPERM)
        else if v_assoc env then
          morse_mac_send_twt_action_frame env \<lparr>ev_addr = zero_addr, ev_flow = c_flow c, ev_body = Teardown True\<rparr> (v_bssid env) 0 False st
        else Some (morse_twt_uninstall_agreement env (c_flow c) st)
      })"

definition morse_process_twt_cmd :: "twt_env \<Rightarrow> nat \<Rightarrow> twt_conf \<Rightarrow> twt \<Rightarrow> (twt \<times> int) option" where
  "morse_process_twt_cmd env vif_id c st =
     (if vif_id \<noteq> c_vif_id c then Some (st, - EINVAL)
      else if opcode c = OP_CONFIGURE \<or> opcode c = OP_CONFIGURE_EXPLICIT \<or> opcode c = OP_FORCE_INSTALL
      then morse_twt_process_set_cmd env c st
      else if opcode c = OP_REMOVE then morse_twt_process_remove_cmd env c st
      else Some (st, - EFAULT))"

section \<open>Start and end of an interface\<close>

text \<open>Memory of the interface starts as zero; of an interface that started before, fields that are not set stay.\<close>

definition morse_twt_init_vif :: "bool \<Rightarrow> iftype \<Rightarrow> bool \<Rightarrow> bool \<Rightarrow> bool \<Rightarrow> bool \<Rightarrow> bool \<Rightarrow> twt \<Rightarrow> twt" where
  "morse_twt_init_vif enable ty cap_responder cap_requester ps offload monitor st =
     (let st = st\<lparr>stas := [], wake_intervals := [], events := [], tx := [], requester := False, responder := False\<rparr>;
          ready = st\<lparr>next_dialog_token := 0, work_scheduled := False, cmd_work_scheduled := False, active_agreements := 0,
                     to_install := [], install_ready := True\<rparr>
      in if \<not> enable then st
         else case ty of
             IF_AP \<Rightarrow> if cap_responder then ready\<lparr>responder := True\<rparr> else st
           | IF_STATION \<Rightarrow> if cap_requester \<and> ps \<and> offload \<and> \<not> monitor then ready\<lparr>requester := True\<rparr> else st
           | IF_OTHER \<Rightarrow> st)"

definition morse_twt_finish_vif :: "twt_env \<Rightarrow> twt \<Rightarrow> twt option" where
  "morse_twt_finish_vif env st =
     (if \<not> morse_twt_is_enabled st then Some st
      else do {
        st \<leftarrow> morse_twt_sta_remove_all env (st\<lparr>work_scheduled := False, cmd_work_scheduled := False\<rparr>);
        st \<leftarrow> morse_twt_tx_queue_purge None st;
        st \<leftarrow> morse_twt_to_install_queue_purge None st;
        morse_twt_event_queue_purge None (st\<lparr>requester := False, responder := False\<rparr>)
      })"

section \<open>The callers in mac.c\<close>

text \<open>The element for an association response or request: the body that is inserted. A response is then dequeued.\<close>

definition ie_body :: "nat \<Rightarrow> twt \<Rightarrow> u8 list option option" where
  "ie_body p st =
     do {
       e \<leftarrow> ev_heap st p;
       Some (case ev_body e of Setup _ (Some a) \<Rightarrow> Some (ie_octets a) | _ \<Rightarrow> None)
     }"

definition assoc_resp_ie :: "twt_env \<Rightarrow> mac_addr \<Rightarrow> twt \<Rightarrow> (twt \<times> u8 list option) option" where
  "assoc_resp_ie env dest st =
     (if \<not> morse_twt_is_enabled st then Some (st, None)
      else do {
        p \<leftarrow> morse_twt_peek_tx (Some dest) None st;
        case p of
          None \<Rightarrow> Some (st, None)
        | Some p \<Rightarrow> do {
            b \<leftarrow> ie_body p st;
            case b of
              None \<Rightarrow> Some (st, None)
            | Some b \<Rightarrow> map_option (\<lambda>(st, _). (st, Some b)) (morse_twt_dequeue_tx env p st)
          }
      })"

definition assoc_req_ie :: "twt \<Rightarrow> u8 list option option" where
  "assoc_req_ie st =
     (if \<not> morse_twt_is_enabled st then Some None
      else case req_event_tx st of None \<Rightarrow> Some None | Some p \<Rightarrow> ie_body p st)"

text \<open>A change of a station's state, in the order of \<open>enum ieee80211_sta_state\<close>.\<close>

definition STA_NONE :: nat where "STA_NONE = 1"
definition STA_ASSOC :: nat where "STA_ASSOC = 3"
definition STA_AUTHORIZED :: nat where "STA_AUTHORIZED = 4"

definition twt_sta_state :: "twt_env \<Rightarrow> mac_addr \<Rightarrow> nat \<Rightarrow> nat \<Rightarrow> nat \<Rightarrow> twt \<Rightarrow> twt option" where
  "twt_sta_state env a old new assoc_req_count st =
     do {
       st \<leftarrow> (if old < new \<and> STA_ASSOC \<le> new then morse_twt_handle_event env (Some a) st else Some st);
       st \<leftarrow> (if old < new \<and> new = STA_AUTHORIZED then morse_twt_process_pending_cmds env st else Some st);
       st \<leftarrow> (if STA_ASSOC \<le> old \<and> new < STA_ASSOC then map_option fst (morse_twt_sta_remove_addr env a st) else Some st);
       if new < old \<and> new = STA_NONE \<and> assoc_req_count \<le> 1 then morse_twt_event_queue_purge (Some a) st else Some st
     }"

end
