(* ===== verification/Twt_Fields.thy ===== *)
theory Twt_Fields
  imports Twt
begin

text \<open>What the fields of an agreement keep: commands, wake intervals, the element.\<close>

section \<open>Commands\<close>

lemma cmd_value_range: "push_bit 1 (cmd_value c) AND TWT_REQTYPE_SETUP_CMD = push_bit 1 (cmd_value c)"
  by (cases c) (simp_all add: TWT_REQTYPE_SETUP_CMD_def push_bit_eq_mult)

lemma setup_cmd_of_value: "setup_cmd_of (drop_bit 1 (push_bit 1 (cmd_value c))) = c"
  by (cases c) (simp_all add: setup_cmd_of_def push_bit_eq_mult drop_bit_eq_div)

lemma masked_out: "(x AND NOT m) AND m = (0 :: 'a::len word)"
  by (simp add: and.assoc)

lemma get_set_command [simp]: "morse_twt_get_command (morse_twt_set_command c rt) = c"
proof -
  have "morse_twt_set_command c rt AND TWT_REQTYPE_SETUP_CMD = push_bit 1 (cmd_value c)"
    unfolding morse_twt_set_command_def Let_def bit.conj_disj_distrib2 cmd_value_range
    by (auto intro!: bit_word_eqI simp: twt_flags bit_simps)
  then show ?thesis by (simp only: morse_twt_get_command_def setup_cmd_of_value)
qed

text \<open>The fields outside the mask of the command and the request flag.\<close>

lemma mask_apart: "b AND m = 0 \<Longrightarrow> (a OR b) AND m = (a :: 'a::len word) AND m" "b AND m = 0 \<Longrightarrow> (a AND NOT b) AND m = a AND m"
proof -
  assume b: "b AND m = 0"
  show "(a OR b) AND m = a AND m" unfolding bit.conj_disj_distrib2 b by simp
  have "m AND b = 0" using b by (simp add: and.commute)
  then have "m AND NOT b = m" using bit.conj_disj_distrib [of m b "NOT b"] by simp
  then show "(a AND NOT b) AND m = a AND m" by (metis and.assoc and.commute)
qed

lemma set_command_and:
  assumes "m AND 0xf = 0"
  shows "morse_twt_set_command c rt AND m = rt AND m"
proof -
  have sub: "b AND m = 0" if "b AND 0xf = b" for b :: u16
    proof -
    have "b AND m = (b AND 0xf) AND m" by (simp only: that)
    also have "\<dots> = b AND (m AND 0xf)" by (rule bit_word_eqI) (auto simp only: bit_and_iff)
    finally show ?thesis by (simp add: assms)
  qed
  have "push_bit 1 (cmd_value c) AND m = 0" by (rule sub) (cases c; simp add: push_bit_eq_mult)
  moreover have "TWT_REQTYPE_SETUP_CMD AND m = 0" "TWT_REQTYPE_REQUEST AND m = 0" by (rule sub, simp add: twt_flags)+
  ultimately show ?thesis by (simp add: morse_twt_set_command_def Let_def mask_apart)
qed

lemma set_command_fields [simp]:
  "flow_id_of (morse_twt_set_command c rt) = flow_id_of rt"
  "wake_exp_of (morse_twt_set_command c rt) = wake_exp_of rt"
  "morse_twt_set_command c rt AND TWT_REQTYPE_FLOWTYPE = rt AND TWT_REQTYPE_FLOWTYPE"
  "morse_twt_set_command c rt AND TWT_REQTYPE_IMPLICIT = rt AND TWT_REQTYPE_IMPLICIT"
  "morse_twt_set_command c rt AND TWT_REQTYPE_PROTECTION = rt AND TWT_REQTYPE_PROTECTION"
  by (simp_all add: flow_id_of_def wake_exp_of_def set_command_and twt_flags)

section \<open>The wake interval\<close>

lemma unat_field: "unat (drop_bit k (rt AND push_bit k (mask n)) :: u16) = unat rt div 2 ^ k mod 2 ^ n"
proof -
  have "drop_bit k (rt AND push_bit k (mask n)) = take_bit n (drop_bit k rt)"
    by (rule bit_word_eqI) (auto simp: bit_simps dest: bit_imp_le_length)
  then have "unat (drop_bit k (rt AND push_bit k (mask n))) = take_bit n (drop_bit k (unat rt))"
    using take_bit_nat_eq_self [OF unsigned_less [of rt]] by (simp only: unsigned_take_bit_eq unsigned_drop_bit_eq)
  then show ?thesis by (simp only: take_bit_eq_mod drop_bit_eq_div)
qed

lemma wake_exp_alt: "wake_exp_of rt = unat rt div 1024 mod 32"
  using unat_field [of 10 rt 5] by (simp add: wake_exp_of_def TWT_REQTYPE_WAKE_INT_EXP_def mask_eq_exp_minus_1 push_bit_eq_mult)

lemma flow_id_alt: "flow_id_of rt = unat rt div 128 mod 8"
  using unat_field [of 7 rt 3] by (simp add: flow_id_of_def TWT_REQTYPE_FLOWID_def mask_eq_exp_minus_1 push_bit_eq_mult)

lemma field_less [simp]: "wake_exp_of rt < 32" "flow_id_of rt < 8"
  by (simp_all add: wake_exp_alt flow_id_alt)

lemma unat_one_shl: "e < 32 \<Longrightarrow> unat (one_shl e) = 2 ^ e"
  unfolding one_shl_def unsigned_push_bit_eq by (simp add: take_bit_nat_eq_self push_bit_eq_mult)

lemma one_shl_signed: "e < 31 \<Longrightarrow> (scast (one_shl e) :: u64) = 2 ^ e" "(scast (one_shl 31) :: u64) = - (2 ^ 31)"
proof -
  assume e: "e < 31"
  have u: "uint (one_shl e) = 2 ^ e" unfolding uint_nat by (subst unat_one_shl) (use e in simp_all)
  have "(2 :: int) ^ e < 2 ^ 31" using e by (intro power_strict_increasing) auto
  then have "sint (one_shl e) = 2 ^ e" unfolding sint_uint u by (subst signed_take_bit_int_eq_self) (auto intro: order_trans [of _ 0])
  then have "(of_int (sint (one_shl e)) :: u64) = 2 ^ e" by simp
  then show "(scast (one_shl e) :: u64) = 2 ^ e" by (simp only: of_int_sint)
next
  show "(scast (one_shl 31) :: u64) = - (2 ^ 31)" by (simp add: one_shl_def push_bit_eq_mult)
qed

text \<open>Accepting keeps the fields of a request, as the responder only changes the wake time; an exponent of 31 negates the mantissa.\<close>

lemma unat_2p: "e < LENGTH('a) \<Longrightarrow> unat (2 ^ e :: 'a::len word) = 2 ^ e"
  using unat_of_nat [of "2 ^ e", where 'a = 'a] by (simp add: power_strict_increasing_iff)

lemma ucast_one_shl: "e < 32 \<Longrightarrow> unat (ucast (one_shl e) :: u64) = 2 ^ e"
  using unat_one_shl [of e] unsigned_less [of "one_shl e"] by (simp add: unsigned_ucast_eq take_bit_nat_eq_self)

lemma unat_interval:
  assumes "e < 31"
  shows "unat ((ucast m :: u64) * 2 ^ e) = unat (m :: u16) * 2 ^ e"
proof -
  have "(2 :: nat) ^ e \<le> 2 ^ 30" using assms by (intro power_increasing) auto
  moreover have "unat m < 2 ^ 16" using unsigned_less [of m] by simp
  ultimately have "unat m * 2 ^ e \<le> 2 ^ 16 * 2 ^ 30" by (intro mult_le_mono) auto
  then have "unat m * 2 ^ e < 2 ^ 64" by simp
  moreover have "unat (2 ^ e :: u64) = 2 ^ e" using assms by (simp add: unat_2p)
  moreover have "unat m < 2 ^ 64" using \<open>unat m < 2 ^ 16\<close> by simp
  ultimately show ?thesis by (simp add: unat_word_ariths unsigned_ucast_eq take_bit_nat_eq_self)
qed

lemma update_keeps_mantissa:
  assumes "wake_exp_of (req_type p) < 31"
  shows "mantissa (morse_twt_update_params c t (morse_twt_calculate_wake_interval_us p) d p) = mantissa p"
proof -
  let ?e = "wake_exp_of (req_type p)"
  have "unat (morse_twt_calculate_wake_interval_us p div ucast (one_shl ?e)) = unat (mantissa p)"
    using assms
    by (simp add: morse_twt_calculate_wake_interval_us_def one_shl_signed unat_div unat_interval ucast_one_shl)
  then have "(of_nat (unat (morse_twt_calculate_wake_interval_us p div ucast (one_shl ?e))) :: u16) = of_nat (unat (mantissa p))"
    by simp
  then show ?thesis by (simp add: morse_twt_update_params_def of_nat_unat)
qed

lemma neg_shl_31: "unat (- (ucast m * 2 ^ 31) :: u64) = (if m = 0 then 0 else 2 ^ 64 - unat (m :: u16) * 2 ^ 31)"
proof (cases "m = 0")
  case False
  let ?k = "unat m * 2 ^ 31"
  have m: "unat m < 2 ^ 16" using unsigned_less [of m] by simp
  have pos: "0 < unat m" using False by (simp add: unat_gt_0)
  have "(of_nat (2 ^ 64 - ?k) :: u64) = of_nat (2 ^ 64) - of_nat ?k" using m by (intro of_nat_diff) simp
  also have "\<dots> = - (ucast m * 2 ^ 31)" by simp
  finally have "unat (- (ucast m * 2 ^ 31) :: u64) = unat (of_nat (2 ^ 64 - ?k) :: u64)" by simp
  then show ?thesis using pos False by (simp add: unat_of_nat)
qed simp

lemma update_mantissa_31:
  assumes "wake_exp_of (req_type p) = 31"
  shows "mantissa (morse_twt_update_params c t (morse_twt_calculate_wake_interval_us p) d p) = - mantissa p"
proof -
  let ?i = "morse_twt_calculate_wake_interval_us p" and ?m = "unat (mantissa p)"
  have m: "?m < 65536" using unsigned_less [of "mantissa p"] by simp
  have "?i = - (ucast (mantissa p) * 2 ^ 31)" using assms
    by (simp add: morse_twt_calculate_wake_interval_us_def one_shl_signed)
  then have i: "unat ?i = (if ?m = 0 then 0 else 2 ^ 64 - ?m * 2 ^ 31)" by (simp only: neg_shl_31 unat_eq_zero)
  have "(2 ^ 64 - ?m * 2 ^ 31) = (2 ^ 33 - ?m) * 2 ^ 31" by (simp add: diff_mult_distrib)
  then have "unat (?i div ucast (one_shl 31)) = (if ?m = 0 then 0 else 2 ^ 33 - ?m)"
    by (simp only: unat_div i) (simp add: ucast_one_shl)
  then have "(of_nat (unat (?i div ucast (one_shl 31))) :: u16) = of_nat (if ?m = 0 then 0 else 2 ^ 33 - ?m)" by (simp only:)
  also have "\<dots> = - mantissa p" using m by (auto simp: of_nat_diff unat_eq_zero)
  finally show ?thesis by (simp add: morse_twt_update_params_def assms)
qed

text \<open>Mantissa and exponent of an interval: the largest that fits, and by how much it falls short.\<close>

lemma halve_spec:
  "halve_to_u16 m e = (m', e') \<Longrightarrow>
   \<exists>k. e' = e + k \<and> unat m' = unat m div 2 ^ k \<and> unat m' \<le> 65535 \<and> (k = 0 \<or> 2 ^ 15 \<le> unat m')"
proof (induction m e rule: halve_to_u16.induct)
  case (1 m e)
  have half: "unat (drop_bit 1 m) = unat m div 2" by (simp add: drop_bit_Suc unat_div)
  show ?case
  proof (cases "U16_MAX < m")
    case True
    with 1 obtain k where k: "e' = e + 1 + k" "unat m' = unat (drop_bit 1 m) div 2 ^ k" "unat m' \<le> 65535" "k = 0 \<or> 2 ^ 15 \<le> unat m'"
      by (auto simp: halve_to_u16.simps [of m])
    have "65535 < unat m" using True by (simp add: U16_MAX_def word_less_nat_alt)
    then have "2 ^ 15 \<le> unat m'" using k(2,4) half by auto
    with k half show ?thesis by (intro exI [of _ "Suc k"]) (simp add: div_mult2_eq)
  next
    case False
    then have "unat m \<le> 65535" by (simp add: U16_MAX_def word_less_nat_alt)
    with 1 False show ?thesis by (intro exI [of _ 0]) (simp add: halve_to_u16.simps [of m])
  qed
qed

lemma interval_fields_ok:
  "\<exists>i' m e. twt_calculate_wake_interval_fields i = Some (i', m, e) \<and> unat i' = unat m * 2 ^ e \<and>
     unat i' \<le> unat i \<and> unat i < unat i' + 2 ^ e \<and> e \<le> 48 \<and> (e = 0 \<or> 2 ^ 15 \<le> unat m)"
proof -
  obtain m e where h: "halve_to_u16 i 0 = (m, e)" by fastforce
  from halve_spec [OF h] have m: "unat m = unat i div 2 ^ e" "unat m \<le> 65535" "e = 0 \<or> 2 ^ 15 \<le> unat m" by auto
  have low: "unat m * 2 ^ e \<le> unat i" and high: "unat i < unat m * 2 ^ e + 2 ^ e"
    by (simp_all add: m(1)) (metis add.commute dividend_less_div_times zero_less_numeral zero_less_power)
  have i: "unat i < 2 ^ 64" using unsigned_less [of i] by simp
  have e: "e \<le> 48"
  proof (rule ccontr)
    assume "\<not> e \<le> 48"
    then have "(2 :: nat) ^ 49 \<le> 2 ^ e" by (intro power_increasing) auto
    moreover have "2 ^ 15 \<le> unat m" using m(3) \<open>\<not> e \<le> 48\<close> by auto
    ultimately have "2 ^ 15 * 2 ^ 49 \<le> unat m * 2 ^ e" by (intro mult_le_mono)
    with low i show False by simp
  qed
  have "unat (ucast m :: u16) = unat m" using m(2) by (simp add: unsigned_ucast_eq take_bit_nat_eq_self unsigned_take_bit_eq)
  moreover have "unat ((ucast (ucast m :: u16) :: u64) * push_bit e 1) = unat m * 2 ^ e"
  proof -
    have "unat (push_bit e 1 :: u64) = 2 ^ e" using e by (simp add: push_bit_eq_mult unat_2p)
    moreover have "unat (ucast (ucast m :: u16) :: u64) = unat m" using m(2) by (simp add: unsigned_ucast_eq take_bit_nat_eq_self unsigned_take_bit_eq)
    moreover have "unat m * 2 ^ e < 2 ^ 64" using low i by linarith
    ultimately show ?thesis by (simp add: unat_word_ariths)
  qed
  ultimately show ?thesis using e low high m(3)
    by (simp add: twt_calculate_wake_interval_fields_def h twt_calculate_wake_interval_def)
qed

text \<open>The wake interval the driver encodes is mantissa times a power of 2, at most the one asked for and less than one unit of
  the exponent below it; the exponent stays below 49, and a mantissa is shortened only to its top 16 bits.
\<close>

theorem twt_interval_fields:
  "\<exists>i' m e. twt_calculate_wake_interval_fields i = Some (i', m, e) \<and> unat i' = unat m * 2 ^ e \<and>
     unat i' \<le> unat i \<and> unat i < unat i' + 2 ^ e \<and> e \<le> 48 \<and> (e = 0 \<or> 2 ^ 15 \<le> unat m)"
  by (rule interval_fields_ok)

section \<open>The element\<close>

lemma params_at_octets: "params_at (pre @ param_octets p @ post) (length pre) = Some p"
proof -
  let ?b = "pre @ param_octets p @ post"
  have "le16_at ?b (length pre) = Some (req_type p)"
    using le16_at_le16 [of pre "req_type p"] by (simp add: param_octets_def)
  moreover have "le64_at ?b (length pre + 2) = Some (twt_time p)"
    using le64_at_le64 [of "pre @ le16 (req_type p)" "twt_time p"] by (simp add: param_octets_def)
  moreover have "nth_opt ?b (length pre + 10) = Some (min_twt_dur p)"
    using nth_append_length [of "pre @ le16 (req_type p) @ le64_octets (twt_time p)"]
    by (simp add: param_octets_def nth_opt_def)
  moreover have "le16_at ?b (length pre + 11) = Some (mantissa p)"
    using le16_at_le16 [of "pre @ le16 (req_type p) @ le64_octets (twt_time p) @ [min_twt_dur p]" "mantissa p"]
    by (simp add: param_octets_def)
  moreover have "nth_opt ?b (length pre + 13) = Some (twt_channel p)"
    using nth_append_length [of "pre @ le16 (req_type p) @ le64_octets (twt_time p) @ [min_twt_dur p] @ le16 (mantissa p)"]
    by (simp add: param_octets_def nth_opt_def)
  ultimately show ?thesis by (simp add: params_at_def)
qed

definition control_ok :: "u8 \<Rightarrow> bool" where
  "control_ok c \<longleftrightarrow> c AND (TWT_CONTROL_NEG_TYPE_BROADCAST OR TWT_CONTROL_NEG_TYPE OR TWT_CONTROL_NDP) = 0"

lemma parse_written:
  assumes "control_ok (control a)"
  shows "parse_element ty \<lparr>ie_len = length (ie_octets a), ie_mem = ie_octets a @ rest\<rparr> =
    Some (if morse_twt_validate_params ty (params a) = 0 then Inr (data_of_params (control a) (params a))
          else Inl (morse_twt_validate_params ty (params a)))"
proof -
  have "params_at (ie_octets a @ rest) 1 = Some (params a)"
    using params_at_octets [of "[control a]"] by (simp add: ie_octets_def)
  moreover have "control a AND TWT_CONTROL_NEG_TYPE_BROADCAST = 0" "control a AND TWT_CONTROL_NEG_TYPE = 0" "control a AND TWT_CONTROL_NDP = 0"
    using assms by (simp_all add: control_ok_def bit.conj_disj_distrib or_eq_0_iff)
  ultimately show ?thesis
    by (simp add: parse_element_def ie_octets_def nth_opt_def TWT_IE_MIN_LENGTH_def TWT_IE_MAX_LENGTH_def param_octets_def Let_def)
qed

end
