(* ===== verification/Twt_Lists.thy ===== *)
theory Twt_Lists
  imports Twt_Requester Twt_Fields
begin

text \<open>
  The stations and the lists of agreements by wake interval: what a list refers to exists, no agreement is linked twice and no list is
  empty; the operations on them are defined and keep it so.
\<close>

section \<open>Access to agreements\<close>

text \<open>The order in which updates of stations, lists and the allocation counter are written.\<close>

lemma update_order [simp]:
  "st\<lparr>allocs := n, wake_intervals := ws\<rparr> = st\<lparr>wake_intervals := ws, allocs := n\<rparr>"
  "st\<lparr>allocs := n, stas := xs\<rparr> = st\<lparr>stas := xs, allocs := n\<rparr>"
  "st\<lparr>wake_intervals := ws, stas := xs\<rparr> = st\<lparr>stas := xs, wake_intervals := ws\<rparr>"
  by (cases st; simp)+

lemma sta_at_simps [simp]:
  "sta_at (st\<lparr>ev_heap := a\<rparr>) i = sta_at st i" "sta_at (st\<lparr>wake_intervals := b\<rparr>) i = sta_at st i"
  "sta_at (st\<lparr>events := c\<rparr>) i = sta_at st i" "sta_at (st\<lparr>tx := c\<rparr>) i = sta_at st i"
  "sta_at (st\<lparr>to_install := c\<rparr>) i = sta_at st i" "sta_at (st\<lparr>allocs := d\<rparr>) i = sta_at st i"
  "sta_at (st\<lparr>sent := e\<rparr>) i = sta_at st i" "sta_at (st\<lparr>active_agreements := f\<rparr>) i = sta_at st i"
  "sta_at (st\<lparr>work_scheduled := g\<rparr>) i = sta_at st i" "sta_at (st\<lparr>cmd_work_scheduled := g\<rparr>) i = sta_at st i"
  by (simp_all add: sta_at_def)

lemma agreement_at_simps [simp]:
  "agreement_at (st\<lparr>ev_heap := a\<rparr>) r = agreement_at st r" "agreement_at (st\<lparr>wake_intervals := b\<rparr>) r = agreement_at st r"
  "agreement_at (st\<lparr>events := c\<rparr>) r = agreement_at st r" "agreement_at (st\<lparr>tx := c\<rparr>) r = agreement_at st r"
  "agreement_at (st\<lparr>to_install := c\<rparr>) r = agreement_at st r" "agreement_at (st\<lparr>allocs := d\<rparr>) r = agreement_at st r"
  "agreement_at (st\<lparr>sent := e\<rparr>) r = agreement_at st r" "agreement_at (st\<lparr>active_agreements := f\<rparr>) r = agreement_at st r"
  "agreement_at (st\<lparr>work_scheduled := g\<rparr>) r = agreement_at st r" "agreement_at (st\<lparr>cmd_work_scheduled := g\<rparr>) r = agreement_at st r"
  by (simp_all add: agreement_at_def)

lemma find_map_if:
  assumes "\<And>s. sta_id (f s) = sta_id s"
  shows "find (\<lambda>s. sta_id s = i) (map (\<lambda>s. if sta_id s = j then f s else s) xs) =
    map_option (\<lambda>s. if i = j then f s else s) (find (\<lambda>s. sta_id s = i) xs)"
  by (induction xs) (auto simp: assms)

lemma sta_at_upd_sta:
  assumes "\<And>s. sta_id (f s) = sta_id s"
  shows "sta_at (upd_sta j f st) i = map_option (\<lambda>s. if i = j then f s else s) (sta_at st i)"
  by (simp add: sta_at_def upd_sta_def find_map_if assms)

lemma agreement_at_flow:
  "agreement_at st (i, k) = Some a \<Longrightarrow> \<exists>s. sta_at st i = Some s \<and> k < length (agreements s) \<and> a = agreements s ! k"
  by (auto simp: agreement_at_def nth_opt_def split: if_splits Option.bind_splits)

text \<open>What an update of one agreement leaves alone.\<close>

definition same_stas :: "twt_sta list \<Rightarrow> twt_sta list \<Rightarrow> bool" where
  "same_stas xs ys \<longleftrightarrow>
     map (\<lambda>s. (sta_id s, sta_addr s, (action_is_pending s, dialog_token s), length (agreements s))) xs =
     map (\<lambda>s. (sta_id s, sta_addr s, (action_is_pending s, dialog_token s), length (agreements s))) ys"

lemma upd_agreement_at:
  assumes "agreement_at st r = Some a"
  shows "\<exists>xs. upd_agreement r f st = Some (st\<lparr>stas := xs\<rparr>) \<and> same_stas xs (stas st) \<and>
    (\<forall>r'. agreement_at (st\<lparr>stas := xs\<rparr>) r' = (if r' = r then Some (f a) else agreement_at st r'))"
proof -
  obtain i k where r: "r = (i, k)" by fastforce
  let ?g = "\<lambda>s. s\<lparr>agreements := (agreements s)[k := f a]\<rparr>"
  let ?st = "upd_sta i ?g st"
  obtain s where s: "sta_at st i = Some s" "k < length (agreements s)" "a = agreements s ! k"
    using assms agreement_at_flow unfolding r by blast
  have "agreement_at ?st r' = (if r' = r then Some (f a) else agreement_at st r')" for r'
    using s by (cases r'; cases "sta_at st (fst r')") (auto simp: agreement_at_def r sta_at_upd_sta nth_opt_def)
  moreover have "st\<lparr>stas := stas ?st\<rparr> = ?st" by (simp add: upd_sta_def)
  ultimately show ?thesis using assms
    by (intro exI [of _ "stas ?st"]) (auto simp: upd_agreement_def r same_stas_def upd_sta_def)
qed

section \<open>The lists of agreements\<close>

text \<open>
  Stations are named apart and have 8 agreements; the lists are not empty, and an agreement is in at most one place. Outside
  \<open>X\<close>, an agreement in a list exists, is negotiated or agreed, and its interval is not 0.
\<close>

definition linked :: "twt \<Rightarrow> agr_ref set" where
  "linked st = set (concat (wake_intervals st))"

definition linked_ok :: "twt \<Rightarrow> agr_ref \<Rightarrow> bool" where
  "linked_ok st r \<longleftrightarrow> (\<exists>a. agreement_at st r = Some a \<and> agr_state a \<noteq> NO_AGREEMENT \<and> wake_interval_us (agr_data a) \<noteq> 0)"

definition lists_ok :: "agr_ref set \<Rightarrow> twt \<Rightarrow> bool" where
  "lists_ok X st \<longleftrightarrow>
     distinct (map sta_id (stas st)) \<and>
     (\<forall>s \<in> set (stas st). length (agreements s) = MORSE_TWT_AGREEMENTS_MAX_PER_STA \<and> sta_id s < allocs st) \<and>
     distinct (concat (wake_intervals st)) \<and> [] \<notin> set (wake_intervals st) \<and> (\<forall>r \<in> linked st - X. linked_ok st r)"

lemma removeAll_empty: "removeAll x xs = [] \<longleftrightarrow> set xs \<subseteq> {x}"
  by (induction xs) auto

lemma unlink_facts:
  assumes "distinct (concat ws)" "[] \<notin> set ws"
  shows "distinct (concat (unlink_agreement r ws))" "[] \<notin> set (unlink_agreement r ws)"
    "set (concat (unlink_agreement r ws)) = set (concat ws) - {r}"
  using assms
proof (induction ws)
  case (Cons w ws)
  {
    case 1
    then show ?case using Cons.IH(3) by (auto simp: Cons.IH distinct_removeAll)
  next
    case 2
    then show ?case using Cons.IH by auto
  next
    case 3
    then show ?case using Cons.IH by (auto simp: removeAll_empty)
  }
qed simp_all

lemma sta_at_in: "sta_at st i = Some s \<Longrightarrow> s \<in> set (stas st) \<and> sta_id s = i"
  by (auto simp: sta_at_def find_Some_iff)

lemma sta_at_ids: "(sta_at st i \<noteq> None) = (i \<in> sta_id ` set (stas st))"
  by (auto simp: sta_at_def find_None_iff)

lemma agreement_at_total:
  assumes "lists_ok X st" "sta_at st i \<noteq> None" "k < MORSE_TWT_AGREEMENTS_MAX_PER_STA"
  shows "\<exists>a. agreement_at st (i, k) = Some a"
  using assms sta_at_in [of st i] by (fastforce simp: agreement_at_def lists_ok_def nth_opt_def)

lemma same_stasD:
  assumes "same_stas xs ys"
  shows "map sta_id xs = map sta_id ys" "map sta_addr xs = map sta_addr ys"
    "(\<forall>s \<in> set xs. P (length (agreements s)) (sta_id s)) = (\<forall>s \<in> set ys. P (length (agreements s)) (sta_id s))"
proof -
  let ?f = "\<lambda>s. (sta_id s, sta_addr s, (action_is_pending s, dialog_token s), length (agreements s))"
  have e: "map ?f xs = map ?f ys" using assms by (simp add: same_stas_def)
  from arg_cong [OF e, of "map fst"] show "map sta_id xs = map sta_id ys" by (simp add: comp_def)
  from arg_cong [OF e, of "map (fst \<circ> snd)"] show "map sta_addr xs = map sta_addr ys" by (simp add: comp_def)
  have "?f ` set xs = ?f ` set ys" using arg_cong [OF e, of set] by simp
  then have "(\<forall>t \<in> ?f ` set xs. P (snd (snd (snd t))) (fst t)) = (\<forall>t \<in> ?f ` set ys. P (snd (snd (snd t))) (fst t))" by simp
  then show "(\<forall>s \<in> set xs. P (length (agreements s)) (sta_id s)) = (\<forall>s \<in> set ys. P (length (agreements s)) (sta_id s))" by simp
qed

text \<open>Updating an agreement keeps the lists, if what it becomes may be in a list.\<close>

lemma lists_ok_upd:
  assumes ok: "lists_ok X st" and at: "agreement_at st r = Some a"
    and "r \<in> linked st - X \<Longrightarrow> agr_state (f a) \<noteq> NO_AGREEMENT \<and> wake_interval_us (agr_data (f a)) \<noteq> 0"
  shows "\<exists>xs. upd_agreement r f st = Some (st\<lparr>stas := xs\<rparr>) \<and> same_stas xs (stas st) \<and> lists_ok X (st\<lparr>stas := xs\<rparr>) \<and>
    agreement_at (st\<lparr>stas := xs\<rparr>) r = Some (f a) \<and> (\<forall>r'. r' \<noteq> r \<longrightarrow> agreement_at (st\<lparr>stas := xs\<rparr>) r' = agreement_at st r')"
proof -
  obtain xs where u: "upd_agreement r f st = Some (st\<lparr>stas := xs\<rparr>)" and same: "same_stas xs (stas st)"
    and at': "\<And>r'. agreement_at (st\<lparr>stas := xs\<rparr>) r' = (if r' = r then Some (f a) else agreement_at st r')"
    using upd_agreement_at [OF at] by blast
  note d = same_stasD [OF same]
  have "lists_ok X (st\<lparr>stas := xs\<rparr>)"
    using ok assms(3) d(1) d(3) [of "\<lambda>l i. l = MORSE_TWT_AGREEMENTS_MAX_PER_STA \<and> i < allocs st"]
    by (auto simp: lists_ok_def linked_ok_def at' linked_def)
  with u same at' show ?thesis by (intro exI [of _ xs]) simp
qed

lemma agreement_remove_ok:
  assumes "lists_ok X st" "agreement_at st r \<noteq> None"
  shows "\<exists>ws. morse_twt_agreement_remove r st = Some (st\<lparr>wake_intervals := ws\<rparr>) \<and> lists_ok (X - {r}) (st\<lparr>wake_intervals := ws\<rparr>) \<and>
    linked (st\<lparr>wake_intervals := ws\<rparr>) = linked st - {r}"
  using assms unlink_facts [of "wake_intervals st" r]
  by (intro exI [of _ "unlink_agreement r (wake_intervals st)"])
    (auto simp: morse_twt_agreement_remove_def lists_ok_def linked_def linked_ok_def)

section \<open>Adding an agreement to a list\<close>

text \<open>The list for an interval is one of those there, or a new empty one in between; or there is no memory for it.\<close>

definition list_found :: "twt \<Rightarrow> twt \<Rightarrow> nat option \<Rightarrow> bool" where
  "list_found st st1 wi \<longleftrightarrow>
     (\<exists>n ws. st1 = st\<lparr>wake_intervals := ws, allocs := n\<rparr> \<and> allocs st \<le> n \<and>
        (case wi of
           None \<Rightarrow> ws = wake_intervals st
         | Some w \<Rightarrow> ws = wake_intervals st \<and> w < length ws \<or>
             w \<le> length (wake_intervals st) \<and> ws = insert_at w [] (wake_intervals st)))"

lemma list_found_new:
  assumes "k \<le> length (wake_intervals st)"
  shows "case new_list env k st of (st1, wi) \<Rightarrow> list_found st st1 wi"
  using assms
  by (cases "t_kmalloc env (allocs st)")
    (auto simp: list_found_def new_list_def kmalloc_def insert_list_def insert_at_def intro!: exI [of _ "Suc (allocs st)"])

lemma list_found_same: "list_found st st None" "w < length (wake_intervals st) \<Longrightarrow> list_found st st (Some w)"
  by (auto simp: list_found_def intro!: exI [of _ "allocs st"] exI [of _ "wake_intervals st"])

lemma interval_walk_found:
  assumes "\<And>r. r \<in> set (concat ws) \<Longrightarrow> agreement_at st r \<noteq> None" "k + length ws = length (wake_intervals st)"
  shows "\<exists>st1 wi. interval_walk env i k ws st = Some (st1, wi) \<and> list_found st st1 wi"
  using assms
proof (induction ws arbitrary: k)
  case Nil
  then show ?case by (simp add: list_found_same)
next
  case (Cons w ws)
  show ?case
  proof (cases w)
    case Nil
    then show ?thesis by (simp add: list_found_same)
  next
    case w: (Cons r rs)
    with Cons.prems(1) [of r] obtain a where a: "agreement_at st r = Some a" by auto
    have "\<exists>st1 wi. interval_walk env i (k + 1) ws st = Some (st1, wi) \<and> list_found st st1 wi"
      using Cons.prems by (intro Cons.IH) auto
    moreover have "case new_list env k st of (st1, wi) \<Rightarrow> list_found st st1 wi" "case new_list env (k + 1) st of (st1, wi) \<Rightarrow> list_found st st1 wi"
      using Cons.prems(2) by (auto intro!: list_found_new)
    ultimately show ?thesis using a Cons.prems(2) by (auto simp: w list_found_same Let_def split: prod.splits)
  qed
qed

lemma wake_interval_get_found:
  assumes "lists_ok {} st"
  shows "\<exists>st1 wi. morse_twt_agreement_wake_interval_get env i st = Some (st1, wi) \<and> list_found st st1 wi"
proof -
  have "\<And>r. r \<in> set (concat (wake_intervals st)) \<Longrightarrow> agreement_at st r \<noteq> None"
    using assms by (force simp: lists_ok_def linked_def linked_ok_def)
  from interval_walk_found [OF this, where k = 0 and env = env and i = i] list_found_new [of 0 st env] show ?thesis
    by (auto simp: morse_twt_agreement_wake_interval_get_def split: prod.splits)
qed

text \<open>The search for a gap ends with a place: behind some agreement of the list.\<close>

lemma fit_walk_place:
  assumes "l \<noteq> []" "\<And>r. r \<in> set l \<Longrightarrow> linked_ok st r"
  shows "\<exists>j t. fit_walk st d k l = Some (Inr (k + j, t)) \<and> 0 < j \<and> j \<le> length l"
  using assms
proof (induction l arbitrary: k)
  case (Cons r l)
  from Cons.prems(2) have "linked_ok st r" by simp
  then obtain a where a: "agreement_at st r = Some a" "wake_interval_us (agr_data a) \<noteq> 0" unfolding linked_ok_def by blast
  show ?case
  proof (cases l)
    case Nil
    with a show ?thesis by auto
  next
    case (Cons r' rs)
    with Cons.prems(2) have "linked_ok st r'" by simp
    then obtain b where b: "agreement_at st r' = Some b" "wake_interval_us (agr_data b) \<noteq> 0" unfolding linked_ok_def by blast
    have "\<exists>j t. fit_walk st d (k + 1) l = Some (Inr (k + 1 + j, t)) \<and> 0 < j \<and> j \<le> length l"
      using Cons Cons.prems by (intro Cons.IH) auto
    then obtain j t where "fit_walk st d (k + 1) l = Some (Inr (k + (1 + j), t))" "j \<le> length l" by auto
    moreover have "\<exists>j t. Some (Inr (k + 1, t')) = Some (Inr (k + j, t)) \<and> 0 < j \<and> j \<le> length (r # l)" for t' :: u64 by auto
    ultimately show ?thesis using a b Cons by (auto simp: rem64_def Let_def)
  qed
qed simp

lemma mset_insert_at: "mset (insert_at k x xs) = add_mset x (mset xs)"
proof -
  have "mset (insert_at k x xs) = add_mset x (mset (take k xs @ drop k xs))"
    unfolding insert_at_def by (simp only: mset_append mset.simps union_mset_add_mset_right)
  then show ?thesis by simp
qed

lemma set_insert_at: "set (insert_at k x xs) = insert x (set xs)"
  by (metis mset_insert_at set_mset_add_mset_insert set_mset_mset)

lemma mset_concat_update:
  assumes "w < length ws"
  shows "mset (concat (ws[w := insert_at k x (ws ! w)])) = add_mset x (mset (concat ws))"
proof -
  have "concat ws = concat (take w ws) @ ws ! w @ concat (drop (Suc w) ws)"
    using id_take_nth_drop [OF assms] by (metis concat.simps(2) concat_append)
  then show ?thesis by (simp add: upd_conv_take_nth_drop [OF assms] mset_insert_at)
qed

lemma link_ok:
  assumes ok: "lists_ok {} st" and r: "r \<notin> linked st" "linked_ok st r"
    and found: "list_found st st1 (Some w)"
  shows "w < length (wake_intervals st1) \<and> (\<exists>ws. link_agreement w k r st1 = Some (st1\<lparr>wake_intervals := ws\<rparr>) \<and>
    lists_ok {} (st1\<lparr>wake_intervals := ws\<rparr>) \<and> linked (st1\<lparr>wake_intervals := ws\<rparr>) = insert r (linked st))"
proof -
  obtain n W where st1: "st1 = st\<lparr>wake_intervals := W, allocs := n\<rparr>" "allocs st \<le> n"
    and W: "W = wake_intervals st \<and> w < length W \<or> w \<le> length (wake_intervals st) \<and> W = insert_at w [] (wake_intervals st)"
    using found by (auto simp: list_found_def)
  have w: "w < length W" using W by (auto simp: insert_at_def)
  have conc: "concat W = concat (wake_intervals st)"
    using W by (auto simp: insert_at_def) (metis append_take_drop_id concat_append)
  have nonempty: "\<And>l. l \<in> set (W[w := insert_at k r (W ! w)]) \<Longrightarrow> l \<noteq> []"
  proof -
    fix l assume "l \<in> set (W[w := insert_at k r (W ! w)])"
    then obtain i where i: "i < length W" "l = W[w := insert_at k r (W ! w)] ! i" by (auto simp: in_set_conv_nth)
    show "l \<noteq> []"
    proof (cases "i = w")
      case True
      with i w show ?thesis by (simp add: insert_at_def)
    next
      case False
      have "W ! i \<in> set (wake_intervals st)"
        using W i(1) False by (auto simp: insert_at_def nth_append nth_Cons' dest: in_set_takeD)
      with False i ok show ?thesis by (auto simp: lists_ok_def)
    qed
  qed
  let ?ws = "W[w := insert_at k r (W ! w)]"
  note ms = mset_concat_update [OF w, of k r]
  have set': "set (concat ?ws) = insert r (linked st)"
    using arg_cong [OF ms, of set_mset] by (simp add: conc linked_def)
  have "distinct (r # concat (wake_intervals st))" using ok r(1) by (auto simp: lists_ok_def linked_def)
  then have "distinct (concat ?ws)" using ms conc by (metis mset.simps(2) mset_eq_imp_distinct_iff)
  then have "lists_ok {} (st1\<lparr>wake_intervals := ?ws\<rparr>)"
    using ok r(2) st1 nonempty set' by (fastforce simp: lists_ok_def linked_def linked_ok_def)
  then show ?thesis using w st1 r(1) set' conc by (auto simp: link_agreement_def linked_def)
qed

text \<open>
  Adding an agreement that is negotiated, whose interval is not 0 and that is in no list is defined and keeps the lists; of the
  agreements only its own wake time may change.
\<close>

definition only_lists :: "twt \<Rightarrow> twt \<Rightarrow> bool" where
  "only_lists st st' \<longleftrightarrow>
     (\<exists>xs ws n. st' = st\<lparr>stas := xs, wake_intervals := ws, allocs := n\<rparr> \<and> allocs st \<le> n \<and> same_stas xs (stas st))"

lemma only_listsI: "allocs st \<le> n \<Longrightarrow> same_stas xs (stas st) \<Longrightarrow> only_lists st (st\<lparr>stas := xs, wake_intervals := ws, allocs := n\<rparr>)"
  by (auto simp: only_lists_def)

lemma only_lists_trans:
  assumes "only_lists st st'" "only_lists st' st''"
  shows "only_lists st st''"
proof -
  obtain xs ws n xs' ws' n' where "st' = st\<lparr>stas := xs, wake_intervals := ws, allocs := n\<rparr>" "allocs st \<le> n" "same_stas xs (stas st)"
      "st'' = st'\<lparr>stas := xs', wake_intervals := ws', allocs := n'\<rparr>" "allocs st' \<le> n'" "same_stas xs' (stas st')"
    using assms by (auto simp: only_lists_def)
  then show ?thesis using only_listsI [of st n' xs' ws'] by (simp add: same_stas_def)
qed

lemma only_lists_refl [simp]: "only_lists st st"
  using only_listsI [of st "allocs st" "stas st" "wake_intervals st"] by (simp add: same_stas_def)

lemma only_lists_stas: "same_stas xs (stas st) \<Longrightarrow> only_lists st (st\<lparr>stas := xs\<rparr>)"
  using only_listsI [of st "allocs st" xs "wake_intervals st"] by simp

lemma only_lists_found: "list_found st st1 wi \<Longrightarrow> only_lists st st1"
  using only_listsI [of st _ "stas st"] by (auto simp: list_found_def same_stas_def)

lemma only_lists_wis: "only_lists st (st\<lparr>wake_intervals := ws\<rparr>)"
  using only_listsI [of st "allocs st" "stas st" ws] by (simp add: same_stas_def)

lemma list_found_stas: "list_found st st1 wi \<Longrightarrow> list_found (st\<lparr>stas := xs\<rparr>) (st1\<lparr>stas := xs\<rparr>) wi"
proof -
  assume "list_found st st1 wi"
  then obtain n ws where "st1 = st\<lparr>wake_intervals := ws, allocs := n\<rparr>" "allocs st \<le> n"
      "case wi of None \<Rightarrow> ws = wake_intervals st
       | Some w \<Rightarrow> ws = wake_intervals st \<and> w < length ws \<or> w \<le> length (wake_intervals st) \<and> ws = insert_at w [] (wake_intervals st)"
    unfolding list_found_def by blast
  then show ?thesis unfolding list_found_def by (intro exI [of _ n] exI [of _ ws]) (simp split: option.splits)
qed

lemma list_found_concat:
  assumes "list_found st st1 (Some w)"
  shows "concat (wake_intervals st1) = concat (wake_intervals st)" "w < length (wake_intervals st1)"
  using assms by (auto simp: list_found_def insert_at_def) (metis append_take_drop_id concat_append)+

lemma upd_agreement_found:
  assumes "list_found st st1 wi" "upd_agreement r f st = Some (st\<lparr>stas := xs\<rparr>)"
  shows "upd_agreement r f st1 = Some (st1\<lparr>stas := xs\<rparr>)"
proof -
  have "upd_agreement r f (st\<lparr>allocs := n, wake_intervals := ws\<rparr>) = map_option (\<lambda>s. s\<lparr>allocs := n, wake_intervals := ws\<rparr>) (upd_agreement r f st)" for n ws
    by (cases "agreement_at st r") (simp_all add: upd_agreement_def upd_sta_def)
  with assms show ?thesis by (auto simp: list_found_def)
qed

lemma set_time_link:
  assumes ok: "lists_ok {} st" and at: "agreement_at st r = Some a"
    and a: "agr_state a \<noteq> NO_AGREEMENT" "wake_interval_us (agr_data a) \<noteq> 0" and r: "r \<notin> linked st"
    and found: "list_found st st1 (Some w)"
  shows "\<exists>st2 st3. set_wake_time r t st1 = Some st2 \<and> link_agreement w k r st2 = Some st3 \<and> lists_ok {} st3 \<and> only_lists st st3 \<and>
    agreement_at st3 r = Some (a\<lparr>agr_data := (agr_data a)\<lparr>wake_time_us := t\<rparr>\<rparr>) \<and>
    (\<forall>r'. r' \<noteq> r \<longrightarrow> agreement_at st3 r' = agreement_at st r') \<and> linked st3 = insert r (linked st)"
proof -
  let ?f = "\<lambda>a. a\<lparr>agr_data := (agr_data a)\<lparr>wake_time_us := t\<rparr>\<rparr>"
  obtain xs where u: "upd_agreement r ?f st = Some (st\<lparr>stas := xs\<rparr>)" "same_stas xs (stas st)" "lists_ok {} (st\<lparr>stas := xs\<rparr>)"
      "agreement_at (st\<lparr>stas := xs\<rparr>) r = Some (?f a)" "\<And>r'. r' \<noteq> r \<Longrightarrow> agreement_at (st\<lparr>stas := xs\<rparr>) r' = agreement_at st r'"
    using lists_ok_upd [OF ok at, of ?f] r by auto
  have l: "linked (st\<lparr>stas := xs\<rparr>) = linked st" by (simp add: linked_def)
  have "linked_ok (st\<lparr>stas := xs\<rparr>) r" using a u(4) by (simp add: linked_ok_def)
  with link_ok [OF u(3) _ _ list_found_stas [OF found], of r k] r l
  obtain ws where ws: "link_agreement w k r (st1\<lparr>stas := xs\<rparr>) = Some (st1\<lparr>stas := xs, wake_intervals := ws\<rparr>)"
      "lists_ok {} (st1\<lparr>stas := xs, wake_intervals := ws\<rparr>)" "linked (st1\<lparr>stas := xs, wake_intervals := ws\<rparr>) = insert r (linked st)"
    by auto
  have "agreement_at (st1\<lparr>stas := xs, wake_intervals := ws\<rparr>) r' = agreement_at (st\<lparr>stas := xs\<rparr>) r'" for r'
    using found by (auto simp: list_found_def agreement_at_def sta_at_def)
  moreover have "only_lists st (st1\<lparr>stas := xs, wake_intervals := ws\<rparr>)"
    using only_lists_trans [OF only_lists_stas [OF u(2)] only_lists_trans [OF only_lists_found [OF list_found_stas [OF found]] only_lists_wis]]
    by simp
  moreover have "set_wake_time r t st1 = Some (st1\<lparr>stas := xs\<rparr>)"
    using upd_agreement_found [OF found u(1)] by (simp add: set_wake_time_def)
  ultimately show ?thesis using ws u(4,5) by auto
qed

lemma link_tail:
  assumes ok: "lists_ok {} st" and at: "agreement_at st r = Some a"
    and a: "agr_state a \<noteq> NO_AGREEMENT" "wake_interval_us (agr_data a) \<noteq> 0" and r: "r \<notin> linked st"
    and found: "list_found st st1 (Some w)"
  shows "\<exists>st3. link_agreement w k r st1 = Some st3 \<and> lists_ok {} st3 \<and> only_lists st st3 \<and>
    (\<forall>r'. agreement_at st3 r' = agreement_at st r') \<and> linked st3 = insert r (linked st)"
proof -
  obtain ws where "link_agreement w k r st1 = Some (st1\<lparr>wake_intervals := ws\<rparr>)" "lists_ok {} (st1\<lparr>wake_intervals := ws\<rparr>)"
      "linked (st1\<lparr>wake_intervals := ws\<rparr>) = insert r (linked st)"
    using link_ok [OF ok r _ found] at a by (auto simp: linked_ok_def)
  moreover have "only_lists st (st1\<lparr>wake_intervals := ws\<rparr>)"
    using only_lists_trans [OF only_lists_found [OF found] only_lists_wis] .
  moreover have "agreement_at (st1\<lparr>wake_intervals := ws\<rparr>) r' = agreement_at st r'" for r'
    using found by (auto simp: list_found_def)
  ultimately show ?thesis by auto
qed

text \<open>Only for want of memory no list is found.\<close>

lemma interval_walk_none:
  assumes "interval_walk env i k ws st = Some (st1, None)" "ws \<noteq> []" "[] \<notin> set ws"
  shows "\<exists>n. \<not> t_kmalloc env n"
  using assms
proof (induction ws arbitrary: k)
  case (Cons w ws)
  obtain r rs where w: "w = r # rs" using Cons.prems(3) by (cases w) auto
  have new: "\<exists>n. \<not> t_kmalloc env n" if "new_list env j st = (st1, None)" for j
    using that by (auto simp: new_list_def kmalloc_def split: if_splits)
  show ?case
  proof (cases "ws = []")
    case True
    then show ?thesis using Cons.prems(1) new by (auto simp: w Let_def split: Option.bind_splits if_splits)
  next
    case False
    then show ?thesis using Cons.prems Cons.IH [of "k + 1"] new by (auto simp: w Let_def split: Option.bind_splits if_splits)
  qed
qed simp

lemma wake_interval_get_none:
  assumes "lists_ok {} st" "morse_twt_agreement_wake_interval_get env i st = Some (st1, None)"
  shows "\<exists>n. \<not> t_kmalloc env n"
proof (cases "wake_intervals st = []")
  case True
  then show ?thesis using assms(2) by (auto simp: morse_twt_agreement_wake_interval_get_def new_list_def kmalloc_def split: if_splits)
next
  case False
  then show ?thesis using assms interval_walk_none [of env i 0 "wake_intervals st" st st1]
    by (simp add: morse_twt_agreement_wake_interval_get_def lists_ok_def)
qed

lemma wake_interval_add_ok:
  assumes ok: "lists_ok {} st" and at: "agreement_at st r = Some a"
    and a: "agr_state a \<noteq> NO_AGREEMENT" "agr_state a \<noteq> AGREEMENT" "wake_interval_us (agr_data a) \<noteq> 0" and r: "r \<notin> linked st"
  shows "\<exists>st' ret t. morse_twt_agreement_wake_interval_add env r st = Some (st', ret) \<and> lists_ok {} st' \<and> only_lists st st' \<and>
    agreement_at st' r = Some (a\<lparr>agr_data := (agr_data a)\<lparr>wake_time_us := t\<rparr>\<rparr>) \<and>
    (\<forall>r'. r' \<noteq> r \<longrightarrow> agreement_at st' r' = agreement_at st r') \<and>
    (if ret = 0 then linked st' = insert r (linked st) else \<exists>n. \<not> t_kmalloc env n)"
proof -
  obtain st1 wi where get: "morse_twt_agreement_wake_interval_get env (wake_interval_us (agr_data a)) st = Some (st1, wi)"
    and found: "list_found st st1 wi" using wake_interval_get_found [OF ok] by blast
  have at1: "agreement_at st1 r' = agreement_at st r'" for r' using found by (auto simp: list_found_def)
  show ?thesis
  proof (cases wi)
    case None
    have "lists_ok {} st1" using found ok None by (fastforce simp: list_found_def lists_ok_def linked_def linked_ok_def)
    moreover have "\<exists>n. \<not> t_kmalloc env n" using wake_interval_get_none [OF ok] get None by simp
    moreover have "a\<lparr>agr_data := (agr_data a)\<lparr>wake_time_us := wake_time_us (agr_data a)\<rparr>\<rparr> = a" by simp
    ultimately show ?thesis using at a get only_lists_found [OF found] at1 None
      by (auto simp: morse_twt_agreement_wake_interval_add_def EINVAL_def intro!: exI [of _ "wake_time_us (agr_data a)"])
  next
    case (Some w)
    note found' = found [unfolded Some]
    let ?l = "wake_intervals st1 ! w"
    have w: "w < length (wake_intervals st1)" by (rule list_found_concat [OF found'])
    have "linked_ok st1 r'" if "r' \<in> set ?l" for r'
    proof -
      have "?l \<in> set (wake_intervals st1)" using w by (rule nth_mem)
      with that have "r' \<in> set (concat (wake_intervals st1))" by auto
      then have "r' \<in> linked st" by (simp only: linked_def list_found_concat(1) [OF found'])
      then show ?thesis using ok at1 by (simp add: lists_ok_def linked_ok_def)
    qed
    then have place: "\<exists>j t. fit_walk st1 (wake_duration_us (agr_data a)) 0 ?l = Some (Inr (j, t))" if "?l \<noteq> []"
      using fit_walk_place [OF that, of st1 "wake_duration_us (agr_data a)" 0] by auto
    consider "?l = []" | "?l \<noteq> []" "morse_twt_get_command (req_type (params (agr_data a))) = CMD_DEMAND"
      | j t where "?l \<noteq> []" "morse_twt_get_command (req_type (params (agr_data a))) \<noteq> CMD_DEMAND"
          "fit_walk st1 (wake_duration_us (agr_data a)) 0 ?l = Some (Inr (j, t))"
      using place by blast
    then show ?thesis
    proof cases
      case 1
      obtain st2 st3 where l: "set_wake_time r 0 st1 = Some st2" "link_agreement w 0 r st2 = Some st3" "lists_ok {} st3" "only_lists st st3"
          "agreement_at st3 r = Some (a\<lparr>agr_data := (agr_data a)\<lparr>wake_time_us := 0\<rparr>\<rparr>)"
          "\<forall>r'. r' \<noteq> r \<longrightarrow> agreement_at st3 r' = agreement_at st r'" "linked st3 = insert r (linked st)"
        using set_time_link [OF ok at a(1,3) r found', of 0 0] by blast
      have "morse_twt_agreement_wake_interval_add env r st = Some (st3, 0)"
        using l(1,2) 1 w a at get Some by (simp add: morse_twt_agreement_wake_interval_add_def)
      then show ?thesis using l(3-7) by - (rule exI [of _ st3], rule exI [of _ 0], rule exI [of _ 0], simp)
    next
      case 2
      obtain st3 where l: "link_agreement w (length ?l) r st1 = Some st3" "lists_ok {} st3" "only_lists st st3"
          "\<forall>r'. agreement_at st3 r' = agreement_at st r'" "linked st3 = insert r (linked st)"
        using link_tail [OF ok at a(1,3) r found', of "length ?l"] by blast
      have "morse_twt_agreement_wake_interval_add env r st = Some (st3, 0)"
        using l(1) 2 w a at get Some by (simp add: morse_twt_agreement_wake_interval_add_def)
      moreover have "agreement_at st3 r = Some (a\<lparr>agr_data := (agr_data a)\<lparr>wake_time_us := wake_time_us (agr_data a)\<rparr>\<rparr>)"
        using l(4) at by (cases r) simp
      moreover have "\<forall>r'. r' \<noteq> r \<longrightarrow> agreement_at st3 r' = agreement_at st r'" using l(4) by blast
      ultimately show ?thesis using l(2,3,5) by - (rule exI [of _ st3], rule exI [of _ 0], rule exI [of _ "wake_time_us (agr_data a)"], simp)
    next
      case 3
      obtain st2 st3 where l: "set_wake_time r t st1 = Some st2" "link_agreement w j r st2 = Some st3" "lists_ok {} st3" "only_lists st st3"
          "agreement_at st3 r = Some (a\<lparr>agr_data := (agr_data a)\<lparr>wake_time_us := t\<rparr>\<rparr>)"
          "\<forall>r'. r' \<noteq> r \<longrightarrow> agreement_at st3 r' = agreement_at st r'" "linked st3 = insert r (linked st)"
        using set_time_link [OF ok at a(1,3) r found', of t j] by blast
      have "morse_twt_agreement_wake_interval_add env r st = Some (st3, 0)"
        using l(1,2) 3 w a at get Some by (simp add: morse_twt_agreement_wake_interval_add_def)
      then show ?thesis using l(3-7) by - (rule exI [of _ st3], rule exI [of _ 0], rule exI [of _ t], simp)
    qed
  qed
qed

end
