(* ===== verification/Twt_Queues.thy ===== *)
theory Twt_Queues
  imports Twt_Lists
begin

text \<open>
  Who owns the events of target wake time: every event that is allocated is in exactly one queue, or in the hands of the code that
  runs (\<open>H\<close>). Freeing and moving events keep that.
\<close>

section \<open>The invariant\<close>

definition queued :: "twt \<Rightarrow> nat list" where
  "queued st = events st @ tx st @ to_install st @ (case req_event_tx st of None \<Rightarrow> [] | Some p \<Rightarrow> [p])"

text \<open>Events that are handled, responses, and what waits for the firmware.\<close>

definition request_ok :: "twt_event \<Rightarrow> bool" where
  "request_ok e \<longleftrightarrow> ev_flow e < 8 \<and>
     (case ev_body e of
        Setup c (Some a) \<Rightarrow> considered c \<noteq> None \<longrightarrow> wake_interval_us a \<noteq> 0
      | Setup c None \<Rightarrow> False
      | Teardown t \<Rightarrow> t)"

definition response_ok :: "twt_event \<Rightarrow> bool" where
  "response_ok e \<longleftrightarrow> ev_flow e < 8 \<and> (\<exists>c a. ev_body e = Setup c (Some a) \<and> wake_interval_us a \<noteq> 0)"

definition install_ok :: "twt_event \<Rightarrow> bool" where
  "install_ok e \<longleftrightarrow> ev_flow e < 8 \<and> (case ev_body e of Setup c None \<Rightarrow> False | _ \<Rightarrow> True)"

definition has :: "(twt_event \<Rightarrow> bool) \<Rightarrow> twt \<Rightarrow> nat \<Rightarrow> bool" where
  "has P st p \<longleftrightarrow> (\<exists>e. ev_heap st p = Some e \<and> P e)"

definition events_ok :: "nat set \<Rightarrow> twt \<Rightarrow> bool" where
  "events_ok H st \<longleftrightarrow>
     distinct (queued st) \<and> set (queued st) \<inter> H = {} \<and> dom (ev_heap st) = set (queued st) \<union> H \<and> (\<forall>p \<in> dom (ev_heap st). p < allocs st) \<and>
     (\<forall>p \<in> set (events st). has request_ok st p) \<and> (\<forall>p \<in> set (tx st). has response_ok st p) \<and>
     (\<forall>p \<in> set (to_install st). has install_ok st p) \<and> install_ready st"

definition twt_ok :: "nat set \<Rightarrow> twt \<Rightarrow> bool" where
  "twt_ok H st \<longleftrightarrow> lists_ok {} st \<and> events_ok H st"

lemma events_okD:
  assumes "events_ok H st"
  shows "p \<in> H \<Longrightarrow> \<exists>e. ev_heap st p = Some e" "p \<in> set (queued st) \<Longrightarrow> \<exists>e. ev_heap st p = Some e"
    "p \<in> H \<Longrightarrow> p \<notin> set (queued st)" "allocs st \<notin> dom (ev_heap st)" "install_ready st"
  using assms by (auto simp: events_ok_def)

section \<open>What the parts depend on\<close>

lemma events_ok_cong:
  assumes "events_ok H st" "ev_heap st' = ev_heap st" "events st' = events st" "tx st' = tx st" "to_install st' = to_install st"
    "req_event_tx st' = req_event_tx st" "install_ready st' = install_ready st" "allocs st \<le> allocs st'"
  shows "events_ok H st'"
proof -
  have "queued st' = queued st" "has P st' = has P st" for P using assms by (simp_all add: queued_def has_def fun_eq_iff)
  then show ?thesis using assms unfolding events_ok_def by (metis less_le_trans)
qed

lemma lists_ok_cong:
  assumes "lists_ok X st" "stas st' = stas st" "wake_intervals st' = wake_intervals st" "allocs st \<le> allocs st'"
  shows "lists_ok X st'"
proof -
  have "linked st' = linked st" "linked_ok st' = linked_ok st" using assms by (simp_all add: linked_def linked_ok_def agreement_at_def sta_at_def fun_eq_iff)
  then show ?thesis using assms unfolding lists_ok_def by (metis less_le_trans)
qed

lemma events_ok_lists: "events_ok H st \<Longrightarrow> only_lists st st' \<Longrightarrow> events_ok H st'"
  by (auto simp: only_lists_def elim!: events_ok_cong)

section \<open>Freeing events\<close>

text \<open>The state in which only the events with \<open>P\<close> are kept.\<close>

definition keep :: "(nat \<Rightarrow> bool) \<Rightarrow> twt \<Rightarrow> twt" where
  "keep P st =
     st\<lparr>ev_heap := ev_heap st |` {p. P p}, events := filter P (events st), tx := filter P (tx st), to_install := filter P (to_install st)\<rparr>"

lemma keep_simps [simp]:
  "stas (keep P st) = stas st" "wake_intervals (keep P st) = wake_intervals st" "allocs (keep P st) = allocs st"
  "req_event_tx (keep P st) = req_event_tx st" "install_ready (keep P st) = install_ready st" "events (keep P st) = filter P (events st)"
  "tx (keep P st) = filter P (tx st)" "to_install (keep P st) = filter P (to_install st)"
  "responder (keep P st) = responder st" "requester (keep P st) = requester st"
  "ev_heap (keep P st) p = (if P p then ev_heap st p else None)"
  "sta_at (keep P st) i = sta_at st i" "agreement_at (keep P st) r = agreement_at st r"
  by (simp_all add: keep_def restrict_map_def agreement_at_def sta_at_def)

lemma keep_keep: "keep P (keep Q st) = keep (\<lambda>p. P p \<and> Q p) st"
  by (auto simp: keep_def restrict_map_def conj_commute fun_eq_iff)

lemma keep_all: "keep (\<lambda>p. True) st = st"
  by (simp add: keep_def restrict_map_def)

lemma purge_event_keep: "ev_heap st p \<noteq> None \<Longrightarrow> morse_twt_purge_event p st = Some (keep (\<lambda>q. q \<noteq> p) st)"
  by (auto simp: morse_twt_purge_event_def unlink_event_def keep_def removeAll_filter_not_eq restrict_map_def eq_commute [of p] fun_eq_iff
      intro!: twt.equality)

definition matches :: "mac_addr option \<Rightarrow> nat option \<Rightarrow> twt_event \<Rightarrow> bool" where
  "matches addr flow e \<longleftrightarrow>
     (case addr of None \<Rightarrow> True | Some a \<Rightarrow> ev_addr e = a) \<and> (case flow of None \<Rightarrow> True | Some f \<Rightarrow> ev_flow e = f)"

lemma purge_all_keep:
  assumes "distinct q" "\<And>p. p \<in> set q \<Longrightarrow> ev_heap st p \<noteq> None"
  shows "ofold (purge_if addr flow) q st = Some (keep (\<lambda>p. p \<in> set q \<longrightarrow> \<not> matches addr flow (the (ev_heap st p))) st)"
  using assms
proof (induction q arbitrary: st)
  case Nil
  then show ?case by (simp add: keep_all)
next
  case (Cons p q)
  then obtain e where e: "ev_heap st p = Some e" by fastforce
  let ?st = "keep (\<lambda>p'. p' = p \<longrightarrow> \<not> matches addr flow e) st"
  have "purge_if addr flow p st = Some ?st"
    using e purge_event_keep [of st p] keep_all [of st] by (auto simp: purge_if_def matches_def)
  moreover have "ofold (purge_if addr flow) q ?st = Some (keep (\<lambda>p. p \<in> set q \<longrightarrow> \<not> matches addr flow (the (ev_heap ?st p))) ?st)"
    using Cons.prems by (intro Cons.IH) auto
  moreover have "(p' \<in> set q \<longrightarrow> \<not> matches addr flow (the (ev_heap ?st p'))) \<and> (p' = p \<longrightarrow> \<not> matches addr flow e) \<longleftrightarrow>
      (p' \<in> set (p # q) \<longrightarrow> \<not> matches addr flow (the (ev_heap st p')))" for p'
    using Cons.prems(1) e by auto
  ultimately show ?case by (simp add: keep_keep)
qed

lemma events_ok_keep:
  assumes "events_ok H st" "\<And>p. req_event_tx st = Some p \<Longrightarrow> P p"
  shows "events_ok {p \<in> H. P p} (keep P st)"
proof -
  have "queued (keep P st) = filter P (queued st)" using assms(2) by (auto simp: queued_def split: option.splits)
  moreover have "dom (ev_heap (keep P st)) = {p \<in> dom (ev_heap st). P p}" by (auto split: if_splits)
  ultimately show ?thesis using assms(1) by (auto simp: events_ok_def has_def)
qed

lemma twt_ok_keep:
  assumes "twt_ok H st" "\<And>p. req_event_tx st = Some p \<Longrightarrow> P p"
  shows "twt_ok {p \<in> H. P p} (keep P st)"
  using assms events_ok_keep [of H st P] lists_ok_cong [of "{}" st "keep P st"] by (simp add: twt_ok_def)

text \<open>Freeing the event in hand, and purging a queue.\<close>

lemma purge_in_hand:
  assumes "twt_ok H st" "p \<in> H"
  shows "morse_twt_purge_event p st = Some (keep (\<lambda>q. q \<noteq> p) st)" "twt_ok (H - {p}) (keep (\<lambda>q. q \<noteq> p) st)"
proof -
  have e: "events_ok H st" using assms(1) by (simp add: twt_ok_def)
  have "p \<notin> set (queued st)" "ev_heap st p \<noteq> None" using events_okD(1,3) [OF e assms(2)] by auto
  then show "morse_twt_purge_event p st = Some (keep (\<lambda>q. q \<noteq> p) st)" by (simp add: purge_event_keep)
  have "{q \<in> H. q \<noteq> p} = H - {p}" by auto
  moreover have "req_event_tx st \<noteq> Some p" using \<open>p \<notin> set (queued st)\<close> by (auto simp: queued_def)
  ultimately show "twt_ok (H - {p}) (keep (\<lambda>q. q \<noteq> p) st)"
    using twt_ok_keep [OF assms(1), of "\<lambda>q. q \<noteq> p"] by metis
qed

lemma queue_purge_ok:
  assumes "twt_ok H st" "q \<in> {events st, tx st, to_install st}"
  shows "\<exists>P. morse_twt_queue_purge q addr flow st = Some (keep P st) \<and> twt_ok H (keep P st) \<and> (\<forall>p. p \<notin> set q \<longrightarrow> P p) \<and>
    (addr \<noteq> None \<or> flow \<noteq> None \<longrightarrow> (\<forall>p \<in> set q. P p = (\<not> matches addr flow (the (ev_heap st p)))))"
proof (cases "addr = None \<and> flow = None")
  case True
  then show ?thesis using assms keep_all [of st] by (auto simp: morse_twt_queue_purge_def intro!: exI [of _ "\<lambda>p. True"])
next
  case False
  let ?P = "\<lambda>p. p \<in> set q \<longrightarrow> \<not> matches addr flow (the (ev_heap st p))"
  have q: "distinct q" "set q \<subseteq> set (queued st)" "set q \<inter> H = {}" "\<And>p. req_event_tx st = Some p \<Longrightarrow> p \<notin> set q"
      "\<And>p. p \<in> set q \<Longrightarrow> ev_heap st p \<noteq> None"
  proof -
    have e: "events_ok H st" using assms(1) by (simp add: twt_ok_def)
    then have d: "distinct (queued st)" "set (queued st) \<inter> H = {}" by (simp_all add: events_ok_def)
    show s: "set q \<subseteq> set (queued st)" and "distinct q" "\<And>p. req_event_tx st = Some p \<Longrightarrow> p \<notin> set q"
      using assms(2) d(1) by (auto simp: queued_def)
    show "set q \<inter> H = {}" using s d(2) by auto
    show "\<And>p. p \<in> set q \<Longrightarrow> ev_heap st p \<noteq> None" using s events_okD(2) [OF e] by fastforce
  qed
  then have "morse_twt_queue_purge q addr flow st = Some (keep ?P st)"
    unfolding morse_twt_queue_purge_def if_not_P [OF False] by (intro purge_all_keep)
  moreover have "{p \<in> H. ?P p} = H" using q(3) by auto
  then have "twt_ok H (keep ?P st)" using twt_ok_keep [OF assms(1), of ?P] q(4) by auto
  ultimately show ?thesis by blast
qed

section \<open>Moving events\<close>

lemma take_event:
  assumes "twt_ok H st" "p \<in> set (events st)"
  shows "twt_ok (insert p H) (st\<lparr>events := removeAll p (events st)\<rparr>)" "has request_ok st p"
proof -
  let ?st = "st\<lparr>events := removeAll p (events st)\<rparr>"
  have e: "events_ok H st" using assms(1) by (simp add: twt_ok_def)
  then show "has request_ok st p" using assms(2) by (auto simp: events_ok_def)
  have q: "set (queued ?st) = set (queued st) - {p}" "distinct (queued ?st)"
    using e assms(2) by (auto simp: events_ok_def queued_def distinct_removeAll)
  have "p \<in> set (queued st)" using assms(2) by (simp add: queued_def)
  then have "events_ok (insert p H) ?st" using e q by (auto simp: events_ok_def has_def)
  then show "twt_ok (insert p H) ?st" using assms(1) lists_ok_cong [of "{}" st ?st] by (simp add: twt_ok_def)
qed

lemma give_event:
  assumes ok: "twt_ok H st" and p: "p \<in> H"
  shows "has response_ok st p \<Longrightarrow> twt_ok (H - {p}) (st\<lparr>tx := tx st @ [p]\<rparr>)"
    "has install_ok st p \<Longrightarrow> twt_ok (H - {p}) (st\<lparr>to_install := to_install st @ [p]\<rparr>)"
    "has request_ok st p \<Longrightarrow> twt_ok (H - {p}) (st\<lparr>events := events st @ [p]\<rparr>)"
proof -
  have e: "events_ok H st" using ok by (simp add: twt_ok_def)
  have new: "p \<notin> set (queued st)" by (rule events_okD(3) [OF e p])
  {
    fix st' :: twt
    assume q: "mset (queued st') = add_mset p (mset (queued st))" and h: "ev_heap st' = ev_heap st" "allocs st' = allocs st"
        "install_ready st' = install_ready st"
      and l: "stas st' = stas st" "wake_intervals st' = wake_intervals st"
      and w: "\<forall>p \<in> set (events st'). has request_ok st' p" "\<forall>p \<in> set (tx st'). has response_ok st' p" "\<forall>p \<in> set (to_install st'). has install_ok st' p"
    have s: "set (queued st') = insert p (set (queued st))" using q by (metis set_mset_add_mset_insert set_mset_mset)
    have "distinct (p # queued st)" using e new by (simp add: events_ok_def)
    then have "distinct (queued st')" using q by (metis mset.simps(2) mset_eq_imp_distinct_iff)
    then have "events_ok (H - {p}) st'" using e p s h w by (auto simp: events_ok_def)
    then have "twt_ok (H - {p}) st'" using ok lists_ok_cong [of "{}" st st'] l h by (simp add: twt_ok_def)
  }
  note move = this
  have "has P (st\<lparr>events := a\<rparr>) = has P st" "has P (st\<lparr>tx := a\<rparr>) = has P st" "has P (st\<lparr>to_install := a\<rparr>) = has P st" for P a
    by (simp_all add: has_def fun_eq_iff)
  with e show "has response_ok st p \<Longrightarrow> twt_ok (H - {p}) (st\<lparr>tx := tx st @ [p]\<rparr>)"
    "has install_ok st p \<Longrightarrow> twt_ok (H - {p}) (st\<lparr>to_install := to_install st @ [p]\<rparr>)"
    "has request_ok st p \<Longrightarrow> twt_ok (H - {p}) (st\<lparr>events := events st @ [p]\<rparr>)"
    by (intro move; auto simp: queued_def events_ok_def)+
qed

lemma put_in_hand:
  assumes "twt_ok H st" "p \<in> H"
  shows "twt_ok H (put_event p e st)"
proof -
  have e: "events_ok H st" using assms(1) by (simp add: twt_ok_def)
  note p = events_okD(1,3) [OF e assms(2)]
  have "queued (put_event p e st) = queued st" by (simp add: queued_def put_event_def)
  moreover have "has P (put_event p e st) q = has P st q" if "q \<in> set (queued st)" for P q using that p by (auto simp: has_def put_event_def)
  moreover have "dom (ev_heap (put_event p e st)) = dom (ev_heap st)" using p by (auto simp: put_event_def)
  ultimately have "events_ok H (put_event p e st)" using e by (simp add: events_ok_def queued_def put_event_def)
  then show ?thesis using assms(1) lists_ok_cong [of "{}" st "put_event p e st"] by (simp add: twt_ok_def put_event_def)
qed

lemma alloc_in_hand:
  assumes "twt_ok H st"
  shows "twt_ok (insert (allocs st) H) (put_event (allocs st) e (st\<lparr>allocs := allocs st + 1\<rparr>))"
proof -
  let ?p = "allocs st"
  let ?st = "put_event ?p e (st\<lparr>allocs := ?p + 1\<rparr>)"
  have e: "events_ok H st" using assms(1) by (simp add: twt_ok_def)
  have new: "?p \<notin> dom (ev_heap st)" using e by (auto simp: events_ok_def)
  then have q: "?p \<notin> set (queued st)" using e by (auto simp: events_ok_def)
  have "queued ?st = queued st" by (simp add: queued_def put_event_def)
  moreover have "has P ?st q = has P st q" if "q \<in> set (queued st)" for P q using that q by (auto simp: has_def put_event_def)
  moreover have "dom (ev_heap ?st) = insert ?p (dom (ev_heap st))" by (auto simp: put_event_def)
  ultimately have "events_ok (insert ?p H) ?st" using e q by (auto simp: events_ok_def queued_def put_event_def intro: less_SucI)
  then show ?thesis using assms(1) lists_ok_cong [of "{}" st ?st] by (simp add: twt_ok_def put_event_def)
qed

lemma twt_ok_allocs: "twt_ok H st \<Longrightarrow> twt_ok H (st\<lparr>allocs := allocs st + 1\<rparr>)"
  by (auto simp: twt_ok_def elim!: lists_ok_cong events_ok_cong)

lemma queue_event_ok:
  assumes ok: "twt_ok H st" and p: "p \<in> H" and r: "has request_ok st p"
  shows "\<exists>P. morse_twt_queue_event p st = Some ((keep P st)\<lparr>events := filter P (events st) @ [p]\<rparr>) \<and>
    twt_ok (H - {p}) ((keep P st)\<lparr>events := filter P (events st) @ [p]\<rparr>)"
proof -
  obtain e where e: "ev_heap st p = Some e" using r by (auto simp: has_def)
  obtain P where P: "morse_twt_queue_purge (events st) (Some (ev_addr e)) (Some (ev_flow e)) st = Some (keep P st)"
      "twt_ok H (keep P st)" "\<forall>p. p \<notin> set (events st) \<longrightarrow> P p"
    using queue_purge_ok [OF ok, of "events st" "Some (ev_addr e)" "Some (ev_flow e)"] by auto
  have "p \<notin> set (events st)" using ok p by (auto simp: twt_ok_def events_ok_def queued_def)
  then have "has request_ok (keep P st) p" using r P(3) by (auto simp: has_def)
  from give_event(3) [OF P(2) p this] P(1) e show ?thesis by (auto simp: morse_twt_queue_event_def)
qed

end
