(* ===== verification/Twt_Safety.thy ===== *)
theory Twt_Safety
  imports Twt_Queues
begin

text \<open>
  The state machine of target wake time is defined on every state that keeps its invariant (\<open>twt_ok\<close>): each event taken from the
  queue is freed or moved to another queue exactly once, and the loop over the events ends.
\<close>

section \<open>What an operation leaves alone\<close>

definition undisturbed :: "nat set \<Rightarrow> twt \<Rightarrow> twt \<Rightarrow> bool" where
  "undisturbed H st st' \<longleftrightarrow>
     events st' = events st \<and> requester st' = requester st \<and> responder st' = responder st \<and> (\<forall>p \<in> H. ev_heap st' p = ev_heap st p)"

lemma undisturbed_trans: "undisturbed H st st' \<Longrightarrow> undisturbed H' st' st'' \<Longrightarrow> H' \<subseteq> H \<Longrightarrow> undisturbed H' st st''"
  by (auto simp: undisturbed_def)

lemma undisturbed_mono: "undisturbed H st st' \<Longrightarrow> H' \<subseteq> H \<Longrightarrow> undisturbed H' st st'"
  by (auto simp: undisturbed_def)

lemma undisturbed_lists: "only_lists st st' \<Longrightarrow> undisturbed H st st'"
  by (auto simp: only_lists_def undisturbed_def)

lemma undisturbed_keep: "(\<And>p. p \<in> set (events st) \<Longrightarrow> P p) \<Longrightarrow> undisturbed {p \<in> H. P p} st (keep P st)"
  by (auto simp: undisturbed_def)

lemma twt_ok_lists: "twt_ok H st \<Longrightarrow> only_lists st st' \<Longrightarrow> lists_ok {} st' \<Longrightarrow> twt_ok H st'"
  by (auto simp: twt_ok_def events_ok_lists)

lemma queues_apart:
  assumes "twt_ok H st"
  shows "set (events st) \<inter> (set (tx st) \<union> set (to_install st)) = {}" "H \<inter> (set (events st) \<union> set (tx st) \<union> set (to_install st)) = {}"
  using assms by (auto simp: twt_ok_def events_ok_def queued_def)

section \<open>Removing a station\<close>

lemma unlink_station:
  assumes "lists_ok {} st" "sta_at st i \<noteq> None"
  shows "\<exists>ws. ofold (\<lambda>k. morse_twt_agreement_remove (i, k)) [0..<MORSE_TWT_AGREEMENTS_MAX_PER_STA] st = Some (st\<lparr>wake_intervals := ws\<rparr>) \<and>
    lists_ok {} (st\<lparr>wake_intervals := ws\<rparr>) \<and> (\<forall>r \<in> linked (st\<lparr>wake_intervals := ws\<rparr>). fst r \<noteq> i)"
proof -
  let ?n = MORSE_TWT_AGREEMENTS_MAX_PER_STA
  let ?I = "\<lambda>n s. n \<le> ?n \<longrightarrow> (\<exists>ws. s = st\<lparr>wake_intervals := ws\<rparr> \<and> lists_ok {} s \<and> (\<forall>k < n. (i, k) \<notin> linked s))"
  have "\<exists>s. ofold (\<lambda>k. morse_twt_agreement_remove (i, k)) [0..<?n] st = Some s \<and> ?I ?n s"
  proof (rule ofold_upt_rule [where I = ?I])
    show "?I 0 st" using assms(1) by (auto intro: exI [of _ "wake_intervals st"])
  next
    fix k s assume k: "k < ?n" and I: "?I k s"
    then obtain ws where s: "s = st\<lparr>wake_intervals := ws\<rparr>" "lists_ok {} s" "\<forall>j < k. (i, j) \<notin> linked s" by auto
    have "agreement_at s (i, k) \<noteq> None" using agreement_at_total [OF s(2) _ k, of i] assms(2) s(1) by auto
    from agreement_remove_ok [OF s(2) this] s show "\<exists>t. morse_twt_agreement_remove (i, k) s = Some t \<and> ?I (Suc k) t"
      by (auto simp: less_Suc_eq)
  qed
  then obtain s ws where s: "ofold (\<lambda>k. morse_twt_agreement_remove (i, k)) [0..<?n] st = Some s" "s = st\<lparr>wake_intervals := ws\<rparr>"
      "lists_ok {} s" "\<forall>k < ?n. (i, k) \<notin> linked s" by auto
  have "fst r \<noteq> i" if r: "r \<in> linked s" for r
  proof
    assume i: "fst r = i"
    have "linked_ok s r" using s(3) r by (simp add: lists_ok_def)
    then obtain a where "agreement_at s (i, snd r) = Some a" using i by (auto simp: linked_ok_def)
    then obtain x where "sta_at s i = Some x" "snd r < length (agreements x)" using agreement_at_flow by blast
    then have "snd r < ?n" using s(3) by (auto simp: lists_ok_def dest: sta_at_in)
    then show False using s(4) r i by (metis prod.collapse)
  qed
  with s show ?thesis by blast
qed

lemma find_filter_other: "j \<noteq> i \<Longrightarrow> find (\<lambda>s. sta_id s = j) (filter (\<lambda>s. sta_id s \<noteq> i) xs) = find (\<lambda>s. sta_id s = j) xs"
  by (induction xs) auto

lemma drop_station_ok:
  assumes ok: "twt_ok H st" and r: "\<forall>r \<in> linked st. fst r \<noteq> i"
  shows "twt_ok H (st\<lparr>stas := filter (\<lambda>s. sta_id s \<noteq> i) (stas st)\<rparr>)"
proof -
  let ?st = "st\<lparr>stas := filter (\<lambda>s. sta_id s \<noteq> i) (stas st)\<rparr>"
  have "agreement_at ?st r = agreement_at st r" if "r \<in> linked st" for r
    using that assms(2) by (simp add: agreement_at_def sta_at_def find_filter_other)
  then have "lists_ok {} ?st" using ok by (auto simp: twt_ok_def lists_ok_def linked_def linked_ok_def distinct_map_filter)
  moreover have "events_ok H ?st" using ok by (auto simp: twt_ok_def elim!: events_ok_cong)
  ultimately show ?thesis by (simp add: twt_ok_def)
qed

lemma sta_remove_ok:
  assumes ok: "twt_ok H st" and s: "sta_at st i = Some s"
  shows "\<exists>st'. morse_twt_sta_remove env (Some i) st = Some (st', 0) \<and> twt_ok H st' \<and> undisturbed H st st' \<and>
    stas st' = filter (\<lambda>s. sta_id s \<noteq> i) (stas st) \<and>
    (\<forall>p \<in> set (tx st). \<forall>e. ev_heap st p = Some e \<and> ev_addr e = sta_addr s \<longrightarrow> ev_heap st' p = None)"
proof -
  have l: "lists_ok {} st" using ok by (simp add: twt_ok_def)
  obtain ws where ws: "ofold (\<lambda>k. morse_twt_agreement_remove (i, k)) [0..<MORSE_TWT_AGREEMENTS_MAX_PER_STA] st = Some (st\<lparr>wake_intervals := ws\<rparr>)"
      "lists_ok {} (st\<lparr>wake_intervals := ws\<rparr>)" "\<forall>r \<in> linked (st\<lparr>wake_intervals := ws\<rparr>). fst r \<noteq> i"
    using unlink_station [OF l, of i] s by auto
  let ?a = "st\<lparr>wake_intervals := ws\<rparr>"
  have a: "twt_ok H ?a" using twt_ok_lists [OF ok only_lists_wis ws(2)] .
  let ?b = "?a\<lparr>active_agreements := 0\<rparr>"
  have b: "twt_ok H ?b" using a by (auto simp: twt_ok_def elim!: lists_ok_cong events_ok_cong)
  have "\<exists>P. (if v_type env = IF_STATION then morse_twt_to_install_queue_purge (Some (sta_addr s)) ?b else Some ?a) =
      Some (keep P (if v_type env = IF_STATION then ?b else ?a)) \<and> twt_ok H (keep P (if v_type env = IF_STATION then ?b else ?a)) \<and>
      (\<forall>p. p \<notin> set (to_install st) \<longrightarrow> P p)"
  proof (cases "v_type env = IF_STATION")
    case True
    have "install_ready ?b" using ok by (auto simp: twt_ok_def events_ok_def)
    with True queue_purge_ok [OF b, of "to_install ?b" "Some (sta_addr s)" None] show ?thesis
      by (auto simp: morse_twt_to_install_queue_purge_def)
  next
    case False
    then show ?thesis using a keep_all [of ?a] by (auto intro!: exI [of _ "\<lambda>p. True"])
  qed
  then obtain P c where c: "(if v_type env = IF_STATION then morse_twt_to_install_queue_purge (Some (sta_addr s)) ?b else Some ?a) = Some (keep P c)"
      "twt_ok H (keep P c)" "\<forall>p. p \<notin> set (to_install st) \<longrightarrow> P p" "c = (if v_type env = IF_STATION then ?b else ?a)" by blast
  obtain Q where d: "morse_twt_queue_purge (tx (keep P c)) (Some (sta_addr s)) None (keep P c) = Some (keep Q (keep P c))"
      "twt_ok H (keep Q (keep P c))" "\<forall>p. p \<notin> set (tx (keep P c)) \<longrightarrow> Q p"
      "\<forall>p \<in> set (tx (keep P c)). Q p = (\<not> matches (Some (sta_addr s)) None (the (ev_heap (keep P c) p)))"
    using queue_purge_ok [OF c(2), of "tx (keep P c)" "Some (sta_addr s)" None] by auto
  let ?d = "keep Q (keep P c)"
  let ?e = "?d\<lparr>stas := filter (\<lambda>s. sta_id s \<noteq> i) (stas ?d)\<rparr>"
  have "linked ?d = linked ?a" by (simp add: linked_def c(4))
  then have "twt_ok H ?e" using drop_station_ok [OF d(2)] ws(3) by simp
  moreover have "morse_twt_sta_remove env (Some i) st = Some (?e, 0)"
    using s ws(1) c(1) d(1) by (simp add: morse_twt_sta_remove_def morse_twt_tx_queue_purge_def)
  moreover have "P p \<and> Q p" if "p \<in> set (events st) \<union> H" for p
    using that queues_apart [OF ok] c(3,4) d(3) by (auto split: if_splits)
  then have "undisturbed H st ?e" by (auto simp: undisturbed_def c(4) intro!: filter_True)
  moreover have "stas ?d = stas st" by (simp add: c(4))
  moreover have "ev_heap ?d p = None" if "p \<in> set (tx st)" "ev_heap st p = Some e" "ev_addr e = sta_addr s" for p e
  proof -
    have "P p" using that(1) ok c(3) by (auto simp: twt_ok_def events_ok_def queued_def)
    then have "p \<in> set (tx (keep P c))" "ev_heap (keep P c) p = Some e" using that(1,2) by (auto simp: c(4))
    then have "\<not> Q p" using d(4) that(3) by (auto simp: matches_def)
    then show ?thesis by simp
  qed
  then have "\<forall>p \<in> set (tx st). \<forall>e. ev_heap st p = Some e \<and> ev_addr e = sta_addr s \<longrightarrow> ev_heap ?e p = None" by simp
  ultimately show ?thesis by (intro exI [of _ ?e]) simp
qed

section \<open>Entering a state\<close>

lemma set_state_ok:
  assumes ok: "twt_ok H st" and at: "agreement_at st (i, k) = Some a" and s: "s \<noteq> NO_AGREEMENT"
  shows "\<exists>st'. set_agr_state i k s st = Some st' \<and> twt_ok H st' \<and> undisturbed H st st' \<and> only_lists st st' \<and> linked st' = linked st \<and>
    agreement_at st' (i, k) = Some (a\<lparr>agr_state := s\<rparr>)"
proof -
  have l: "lists_ok {} st" using ok by (simp add: twt_ok_def)
  have "(i, k) \<in> linked st - {} \<Longrightarrow> wake_interval_us (agr_data a) \<noteq> 0"
    using l at by (auto simp: lists_ok_def linked_ok_def)
  then obtain xs where u: "upd_agreement (i, k) (\<lambda>a. a\<lparr>agr_state := s\<rparr>) st = Some (st\<lparr>stas := xs\<rparr>)" "same_stas xs (stas st)"
      "lists_ok {} (st\<lparr>stas := xs\<rparr>)" "agreement_at (st\<lparr>stas := xs\<rparr>) (i, k) = Some (a\<lparr>agr_state := s\<rparr>)"
    using lists_ok_upd [OF l at, of "\<lambda>a. a\<lparr>agr_state := s\<rparr>"] s by auto
  note o = only_lists_stas [OF u(2)]
  show ?thesis
    using u twt_ok_lists [OF ok o u(3)] undisturbed_lists [OF o] o by (auto simp: set_agr_state_def linked_def)
qed

definition last_agreement :: "twt \<Rightarrow> nat \<Rightarrow> nat \<Rightarrow> bool" where
  "last_agreement st i k \<longleftrightarrow> (\<forall>j < 8. \<forall>a. j \<noteq> k \<and> agreement_at st (i, j) = Some a \<longrightarrow> agr_state a = NO_AGREEMENT)"

lemma sta_at_same:
  assumes "same_stas (stas st') (stas st)"
  shows "map_option sta_addr (sta_at st' i) = map_option sta_addr (sta_at st i)"
proof -
  have "map_option sta_addr (find (\<lambda>s. sta_id s = i) xs) = map_option sta_addr (find (\<lambda>s. sta_id s = i) ys)" if "same_stas xs ys" for xs ys
    using that
  proof (induction xs arbitrary: ys)
    case (Cons x xs)
    then show ?case by (cases ys) (auto simp: same_stas_def)
  qed (simp add: same_stas_def)
  with assms show ?thesis by (simp add: sta_at_def)
qed

lemma only_lists_same: "only_lists st st' \<Longrightarrow> same_stas (stas st') (stas st)"
  by (auto simp: only_lists_def)

lemma enter_no_agreement_ok:
  assumes ok: "twt_ok H st" and s: "sta_at st i \<noteq> None" and k: "ev_flow e < 8"
  shows "\<exists>st' ret. morse_twt_enter_state_no_agreement env i e st = Some (st', ret) \<and> twt_ok H st' \<and> undisturbed H st st' \<and>
    (\<not> last_agreement st i (ev_flow e) \<longrightarrow> only_lists st st') \<and>
    (last_agreement st i (ev_flow e) \<longrightarrow>
      (\<forall>p \<in> set (tx st). \<forall>x s. ev_heap st p = Some x \<and> sta_at st i = Some s \<and> ev_addr x = sta_addr s \<longrightarrow> ev_heap st' p = None))"
proof -
  let ?r = "(i, ev_flow e)" and ?f = "\<lambda>a. a\<lparr>agr_state := NO_AGREEMENT\<rparr>"
  have l: "lists_ok {} st" using ok by (simp add: twt_ok_def)
  then have l': "lists_ok {?r} st" by (auto simp: lists_ok_def)
  obtain a where at: "agreement_at st ?r = Some a"
    using agreement_at_total [OF l s] k by (auto simp: MORSE_TWT_AGREEMENTS_MAX_PER_STA_def)
  obtain xs where u: "upd_agreement ?r ?f st = Some (st\<lparr>stas := xs\<rparr>)" "same_stas xs (stas st)" "lists_ok {?r} (st\<lparr>stas := xs\<rparr>)"
      "agreement_at (st\<lparr>stas := xs\<rparr>) ?r = Some (?f a)" "\<And>r'. r' \<noteq> ?r \<Longrightarrow> agreement_at (st\<lparr>stas := xs\<rparr>) r' = agreement_at st r'"
    using lists_ok_upd [OF l' at, of ?f] by auto
  obtain ws where ws: "morse_twt_agreement_remove ?r (st\<lparr>stas := xs\<rparr>) = Some (st\<lparr>stas := xs, wake_intervals := ws\<rparr>)"
      "lists_ok {} (st\<lparr>stas := xs, wake_intervals := ws\<rparr>)"
    using agreement_remove_ok [OF u(3), of ?r] u(4) by auto
  let ?st = "st\<lparr>stas := xs, wake_intervals := ws\<rparr>"
  have o: "only_lists st ?st" using only_lists_trans [OF only_lists_stas [OF u(2)] only_lists_wis] .
  have ok': "twt_ok H ?st" using twt_ok_lists [OF ok o ws(2)] .
  obtain s' where s': "sta_at ?st i = Some s'" using u(4) by (auto simp: agreement_at_def split: Option.bind_splits)
  obtain st' where st': "morse_twt_sta_remove env (Some i) ?st = Some (st', 0)" "twt_ok H st'" "undisturbed H ?st st'"
      "\<forall>p \<in> set (tx ?st). \<forall>x. ev_heap ?st p = Some x \<and> ev_addr x = sta_addr s' \<longrightarrow> ev_heap st' p = None"
    using sta_remove_ok [OF ok' s'] by blast
  have len: "length (agreements s') = 8"
    using ok' s' by (auto simp: twt_ok_def lists_ok_def MORSE_TWT_AGREEMENTS_MAX_PER_STA_def dest: sta_at_in)
  have nth: "agreement_at ?st (i, j) = Some (agreements s' ! j)" if "j < 8" for j using s' len that by (simp add: agreement_at_def)
  have "agr_state (agreements s' ! j) = NO_AGREEMENT \<longleftrightarrow> (\<forall>a. j \<noteq> ev_flow e \<and> agreement_at st (i, j) = Some a \<longrightarrow> agr_state a = NO_AGREEMENT)"
    if "j < 8" for j
  proof (cases "j = ev_flow e")
    case True
    then have "agreements s' ! j = ?f a" using nth [OF that] u(4) by simp
    with True show ?thesis by simp
  next
    case False
    then have "agreement_at st (i, j) = Some (agreements s' ! j)" using nth [OF that] u(5) [of "(i, j)"] by simp
    with False show ?thesis by simp
  qed
  then have last: "(\<forall>a \<in> set (agreements s'). agr_state a = NO_AGREEMENT) = last_agreement st i (ev_flow e)"
    by (simp add: all_set_conv_all_nth len last_agreement_def)
  have addr: "map_option sta_addr (sta_at st i) = Some (sta_addr s')"
    using sta_at_same [OF only_lists_same [OF o], of i] s' by simp
  have "morse_twt_enter_state_no_agreement env i e st =
      (if last_agreement st i (ev_flow e) then morse_twt_sta_remove env (Some i) ?st else Some (?st, 0))"
    using k u(1) ws(1) s' unfolding last [symmetric]
    by (simp add: morse_twt_enter_state_no_agreement_def set_agr_state_def morse_twt_sta_agreement_remove_def MORSE_TWT_AGREEMENTS_MAX_PER_STA_def)
  then show ?thesis using st' ok' o addr undisturbed_lists [OF o] undisturbed_trans [OF undisturbed_lists [OF o] st'(3)] by auto
qed

lemma enter_no_agreement_total:
  assumes "twt_ok H st" "response_ok e" "sta_at st i \<noteq> None"
  shows "\<exists>st' ret. morse_twt_enter_state_no_agreement env i e st = Some (st', ret) \<and> twt_ok H st' \<and> undisturbed H st st'"
proof -
  have "ev_flow e < 8" using assms(2) by (auto simp: response_ok_def)
  from enter_no_agreement_ok [OF assms(1,3) this] show ?thesis by blast
qed

lemma enter_agreement_ok:
  assumes ok: "twt_ok H st" and s: "sta_at st i \<noteq> None" and e: "response_ok e"
  shows "\<exists>st' ret. morse_twt_enter_state_agreement i e st = Some (st', ret) \<and> twt_ok H st' \<and> undisturbed H st st' \<and> only_lists st st'"
proof -
  let ?r = "(i, ev_flow e)"
  obtain c d where d: "ev_body e = Setup c (Some d)" "wake_interval_us d \<noteq> 0" and k: "ev_flow e < MORSE_TWT_AGREEMENTS_MAX_PER_STA"
    using e by (auto simp: response_ok_def MORSE_TWT_AGREEMENTS_MAX_PER_STA_def)
  have "lists_ok {} st" using ok by (simp add: twt_ok_def)
  from agreement_at_total [OF this s k] obtain a where at: "agreement_at st ?r = Some a" by auto
  obtain st1 where 1: "set_agr_state i (ev_flow e) AGREEMENT st = Some st1" "twt_ok H st1" "undisturbed H st st1" "only_lists st st1"
      "agreement_at st1 ?r = Some (a\<lparr>agr_state := AGREEMENT\<rparr>)"
    using set_state_ok [OF ok at, of AGREEMENT] by auto
  let ?f = "\<lambda>a. a\<lparr>agr_data := d\<rparr>"
  have l1: "lists_ok {} st1" using 1(2) by (simp add: twt_ok_def)
  obtain xs where u: "upd_agreement ?r ?f st1 = Some (st1\<lparr>stas := xs\<rparr>)" "same_stas xs (stas st1)" "lists_ok {} (st1\<lparr>stas := xs\<rparr>)"
    using lists_ok_upd [OF l1 1(5), of ?f] d(2) by auto
  note o = only_lists_stas [OF u(2)]
  have "morse_twt_enter_state_agreement i e st = Some (st1\<lparr>stas := xs\<rparr>, 0)"
    using 1(1) d(1) k u(1) by (simp add: morse_twt_enter_state_agreement_def morse_twt_sta_agreement_add_def)
  then show ?thesis
    using twt_ok_lists [OF 1(2) o u(3)] undisturbed_trans [OF 1(3) undisturbed_lists [OF o]] only_lists_trans [OF 1(4) o] by blast
qed

section \<open>Answers\<close>

lemma send_frame_ok:
  assumes ok: "twt_ok H st" and e: "is_setup \<Longrightarrow> \<exists>c a. ev_body e = Setup c (Some a)"
  shows "\<exists>st' ret. morse_mac_send_twt_action_frame env e dest token is_setup st = Some (st', ret) \<and> twt_ok H st' \<and> undisturbed UNIV st st' \<and>
    stas st' = stas st \<and> active_agreements st' = active_agreements st"
proof -
  have "\<exists>n fs ret. morse_mac_send_twt_action_frame env e dest token is_setup st = Some (st\<lparr>allocs := n, sent := fs\<rparr>, ret) \<and> allocs st \<le> n"
  proof (cases "t_kmalloc env (allocs st)")
    case False
    then show ?thesis by (auto simp: morse_mac_send_twt_action_frame_def kmalloc_def intro!: exI [of _ "allocs st + 1"] exI [of _ "sent st"])
  next
    case True
    have "\<not> (is_setup \<and> morse_twt_get_ie_size e < 0)" using e by (auto simp: morse_twt_get_ie_size_def)
    moreover have "\<exists>fs. st\<lparr>allocs := n\<rparr> = st\<lparr>allocs := n, sent := fs\<rparr>" for n by (intro exI [of _ "sent st"]) simp
    ultimately show ?thesis using True
      by (auto simp: morse_mac_send_twt_action_frame_def kmalloc_def Let_def split: option.splits intro!: exI [of _ "allocs st + 1"])
  qed
  then obtain n fs ret where f: "morse_mac_send_twt_action_frame env e dest token is_setup st = Some (st\<lparr>allocs := n, sent := fs\<rparr>, ret)" "allocs st \<le> n" by blast
  have "twt_ok H (st\<lparr>allocs := n, sent := fs\<rparr>)" using ok f(2) by (auto simp: twt_ok_def elim!: lists_ok_cong events_ok_cong)
  with f show ?thesis by (auto simp: undisturbed_def)
qed

lemma sta_at_pending: "sta_at (upd_sta i (\<lambda>s. s\<lparr>action_is_pending := b\<rparr>) st) i = map_option (\<lambda>s. s\<lparr>action_is_pending := b\<rparr>) (sta_at st i)"
  by (subst sta_at_upd_sta) simp_all

text \<open>Flags of a station do not matter to the invariant.\<close>

lemma upd_flags_ok:
  assumes ok: "twt_ok H st" and f: "\<And>s. sta_id (f s) = sta_id s \<and> agreements (f s) = agreements s"
  shows "twt_ok H (upd_sta i f st)" "undisturbed H st (upd_sta i f st)" "sta_at (upd_sta i f st) j = None \<longleftrightarrow> sta_at st j = None"
    "agreement_at (upd_sta i f st) r = agreement_at st r" "linked (upd_sta i f st) = linked st"
proof -
  have at: "agreement_at (upd_sta i f st) r = agreement_at st r" for r
    using f by (cases "sta_at st (fst r)") (auto simp: agreement_at_def sta_at_upd_sta)
  have ids: "map sta_id (stas (upd_sta i f st)) = map sta_id (stas st)" using f by (simp add: upd_sta_def)
  have "linked_ok (upd_sta i f st) = linked_ok st" by (simp add: linked_ok_def at fun_eq_iff)
  moreover have "linked (upd_sta i f st) = linked st" "wake_intervals (upd_sta i f st) = wake_intervals st"
    by (simp_all add: linked_def upd_sta_def)
  ultimately have "lists_ok {} (upd_sta i f st)"
    using ok f by (auto simp: twt_ok_def lists_ok_def ids) (auto simp: upd_sta_def)
  moreover have "events_ok H (upd_sta i f st)" using ok by (auto simp: twt_ok_def upd_sta_def elim!: events_ok_cong)
  ultimately show "twt_ok H (upd_sta i f st)" by (simp add: twt_ok_def)
  show "undisturbed H st (upd_sta i f st)" by (simp add: undisturbed_def upd_sta_def)
  show "sta_at (upd_sta i f st) j = None \<longleftrightarrow> sta_at st j = None" using f by (simp add: sta_at_upd_sta)
  show "agreement_at (upd_sta i f st) r = agreement_at st r" by (rule at)
  show "linked (upd_sta i f st) = linked st" by (simp add: linked_def upd_sta_def)
qed

lemma undisturbed_purge: "twt_ok H st \<Longrightarrow> p \<in> H \<Longrightarrow> undisturbed (H - {p}) st (keep (\<lambda>q. q \<noteq> p) st)"
  using queues_apart(2) [of H st] by (auto simp: undisturbed_def intro!: filter_True)

lemma answer_ok:
  assumes ok: "twt_ok H st" and p: "p \<in> H" and e: "has response_ok st p" and s: "sta_at st i \<noteq> None"
    and enter: "\<And>e st. twt_ok H st \<Longrightarrow> response_ok e \<Longrightarrow> sta_at st i \<noteq> None \<Longrightarrow>
      \<exists>st' ret. enter e st = Some (st', ret) \<and> twt_ok H st' \<and> undisturbed H st st'"
  shows "\<exists>st'. answer env i p enter st = Some (st', 0) \<and> twt_ok (H - {p}) st' \<and> undisturbed (H - {p}) st st'"
proof -
  obtain e' s' where e': "ev_heap st p = Some e'" "response_ok e'" and s': "sta_at st i = Some s'" using e s by (auto simp: has_def)
  show ?thesis
  proof (cases "action_is_pending s'")
    case False
    then have "answer env i p enter st = Some (st\<lparr>tx := tx st @ [p]\<rparr>, 0)" by (simp add: answer_def e' s')
    then show ?thesis using give_event(1) [OF ok p e] by (auto simp: undisturbed_def)
  next
    case True
    obtain st1 r1 where 1: "morse_mac_send_twt_action_frame env e' (sta_addr s') (dialog_token s') True st = Some (st1, r1)"
        "twt_ok H st1" "undisturbed UNIV st st1" "stas st1 = stas st"
      using send_frame_ok [OF ok, of True e'] e'(2) by (auto simp: response_ok_def) blast
    let ?st2 = "upd_sta i (\<lambda>s. s\<lparr>action_is_pending := False\<rparr>) st1"
    have "sta_at st1 i \<noteq> None" using s 1(4) by (simp add: sta_at_def)
    then have 2: "twt_ok H ?st2" "undisturbed H st1 ?st2" "sta_at ?st2 i \<noteq> None"
      using upd_flags_ok(1,2,3) [OF 1(2), of "\<lambda>s. s\<lparr>action_is_pending := False\<rparr>" i] by auto
    obtain st3 r3 where 3: "enter e' ?st2 = Some (st3, r3)" "twt_ok H st3" "undisturbed H ?st2 st3"
      using enter [OF 2(1) e'(2) 2(3)] by blast
    note 4 = purge_in_hand [OF 3(2) p]
    have "undisturbed H st st3"
      using undisturbed_trans [OF undisturbed_trans [OF 1(3) 2(2)] 3(3)] by simp
    then have "undisturbed (H - {p}) st (keep (\<lambda>q. q \<noteq> p) st3)"
      using undisturbed_trans undisturbed_purge [OF 3(2) p] by (metis Diff_subset)
    moreover have "answer env i p enter st = Some (keep (\<lambda>q. q \<noteq> p) st3, 0)"
      using True 1(1) 3(1) 4(1) by (simp add: answer_def e' s')
    ultimately show ?thesis using 4(2) by blast
  qed
qed

text \<open>The wake interval is not touched by what the answers change.\<close>

lemma answer_interval [simp]:
  "wake_interval_us (accepted_data d) = wake_interval_us d" "wake_interval_us (rejected_data d) = wake_interval_us d"
  by (simp_all add: accepted_data_def rejected_data_def)

definition asks :: "twt_event \<Rightarrow> bool" where
  "asks e \<longleftrightarrow> ev_flow e < 8 \<and> (\<exists>c d. ev_body e = Setup c (Some d) \<and> considered c \<noteq> None \<and> wake_interval_us d \<noteq> 0)"

lemma send_reject_ok:
  assumes ok: "twt_ok H st" and p: "p \<in> H" and e: "has asks st p" and s: "sta_at st i \<noteq> None"
  shows "\<exists>st'. morse_twt_send_reject env i p st = Some (st', 0) \<and> twt_ok (H - {p}) st' \<and> undisturbed (H - {p}) st st'"
proof -
  obtain e' c d where e': "ev_heap st p = Some e'" "ev_flow e' < 8" "ev_body e' = Setup c (Some d)" "wake_interval_us d \<noteq> 0"
    using e by (auto simp: has_def asks_def)
  let ?st = "put_event p (e'\<lparr>ev_body := Setup CMD_REJECT (Some (rejected_data d))\<rparr>) st"
  have "has response_ok ?st p" using e' by (simp add: has_def put_event_def response_ok_def)
  moreover have "sta_at ?st i \<noteq> None" using s by (simp add: put_event_def)
  ultimately obtain st' where st': "answer env i p (morse_twt_enter_state_no_agreement env i) ?st = Some (st', 0)"
      "twt_ok (H - {p}) st'" "undisturbed (H - {p}) ?st st'"
    using answer_ok [OF put_in_hand [OF ok p] p, of _ i "morse_twt_enter_state_no_agreement env i" env] enter_no_agreement_total
    by (metis (no_types))
  have "morse_twt_send_reject env i p st = Some (st', 0)" using e' st'(1) by (simp add: morse_twt_send_reject_def)
  moreover have "undisturbed (H - {p}) st ?st" by (simp add: undisturbed_def put_event_def)
  ultimately show ?thesis using st'(2) undisturbed_trans [OF _ st'(3)] by blast
qed

text \<open>What an accept does before it is sent: the agreement is put into the lists and gets the data of the answer.\<close>

lemma send_accept_data:
  assumes ok: "twt_ok H st" and e: "ev_heap st p = Some e" "asks e" "ev_body e = Setup c (Some d)"
    and at: "agreement_at st (i, ev_flow e) = Some a" "agr_state a \<noteq> NO_AGREEMENT" "agr_state a \<noteq> AGREEMENT"
    and r: "(i, ev_flow e) \<notin> linked st"
  shows "\<exists>st1 st2 st3 ret t. upd_agreement (i, ev_flow e) (\<lambda>a. a\<lparr>agr_data := d\<rparr>) st = Some st1 \<and>
    morse_twt_agreement_wake_interval_add env (i, ev_flow e) st1 = Some (st2, ret) \<and>
    agreement_at st2 (i, ev_flow e) = Some (a\<lparr>agr_data := d\<lparr>wake_time_us := t\<rparr>\<rparr>) \<and>
    (if ret = 0 then (i, ev_flow e) \<in> linked st2 else \<exists>n. \<not> t_kmalloc env n) \<and>
    only_lists st st3 \<and> twt_ok H st3 \<and> wake_intervals st3 = wake_intervals st2 \<and>
    agreement_at st3 (i, ev_flow e) = Some (a\<lparr>agr_data := accepted_data (d\<lparr>wake_time_us := t\<rparr>)\<rparr>) \<and>
    morse_twt_send_accept env i p st =
      answer env i p (morse_twt_enter_state_agreement i) (put_event p (e\<lparr>ev_body := Setup CMD_ACCEPT (Some (accepted_data (d\<lparr>wake_time_us := t\<rparr>)))\<rparr>) st3)"
proof -
  let ?r = "(i, ev_flow e)"
  have d: "wake_interval_us d \<noteq> 0" using e(2,3) by (auto simp: asks_def)
  have l: "lists_ok {} st" using ok by (simp add: twt_ok_def)
  obtain xs where 1: "upd_agreement ?r (\<lambda>a. a\<lparr>agr_data := d\<rparr>) st = Some (st\<lparr>stas := xs\<rparr>)" "same_stas xs (stas st)" "lists_ok {} (st\<lparr>stas := xs\<rparr>)"
      "agreement_at (st\<lparr>stas := xs\<rparr>) ?r = Some (a\<lparr>agr_data := d\<rparr>)"
    using lists_ok_upd [OF l at(1), of "\<lambda>a. a\<lparr>agr_data := d\<rparr>"] r by auto
  have r1: "?r \<notin> linked (st\<lparr>stas := xs\<rparr>)" using r by (simp add: linked_def)
  have "agr_state (a\<lparr>agr_data := d\<rparr>) \<noteq> NO_AGREEMENT" "agr_state (a\<lparr>agr_data := d\<rparr>) \<noteq> AGREEMENT"
      "wake_interval_us (agr_data (a\<lparr>agr_data := d\<rparr>)) \<noteq> 0"
    using at(2,3) d by simp_all
  from wake_interval_add_ok [OF 1(3,4) this r1, of env] obtain st2 ret t where
      2: "morse_twt_agreement_wake_interval_add env ?r (st\<lparr>stas := xs\<rparr>) = Some (st2, ret)" "lists_ok {} st2" "only_lists (st\<lparr>stas := xs\<rparr>) st2"
      "agreement_at st2 ?r = Some (a\<lparr>agr_data := d\<rparr>\<lparr>agr_data := (agr_data (a\<lparr>agr_data := d\<rparr>))\<lparr>wake_time_us := t\<rparr>\<rparr>)"
      "if ret = 0 then linked st2 = insert ?r (linked (st\<lparr>stas := xs\<rparr>)) else \<exists>n. \<not> t_kmalloc env n"
    by blast
  have at2: "agreement_at st2 ?r = Some (a\<lparr>agr_data := d\<lparr>wake_time_us := t\<rparr>\<rparr>)" using 2(4) by simp
  have linked: "if ret = 0 then ?r \<in> linked st2 else \<exists>n. \<not> t_kmalloc env n" using 2(5) by (simp split: if_splits)
  let ?f = "\<lambda>a. a\<lparr>agr_data := accepted_data (agr_data a)\<rparr>" and ?d = "accepted_data (d\<lparr>wake_time_us := t\<rparr>)"
  obtain ys where 3: "upd_agreement ?r ?f st2 = Some (st2\<lparr>stas := ys\<rparr>)" "same_stas ys (stas st2)" "lists_ok {} (st2\<lparr>stas := ys\<rparr>)"
      "agreement_at (st2\<lparr>stas := ys\<rparr>) ?r = Some (a\<lparr>agr_data := ?d\<rparr>)"
    using lists_ok_upd [OF 2(2) at2, of ?f] at(2) d by auto
  let ?st3 = "st2\<lparr>stas := ys\<rparr>"
  have o: "only_lists st ?st3" using only_lists_trans [OF only_lists_trans [OF only_lists_stas [OF 1(2)] 2(3)] only_lists_stas [OF 3(2)]] .
  have "morse_twt_send_accept env i p st =
      answer env i p (morse_twt_enter_state_agreement i) (put_event p (e\<lparr>ev_body := Setup CMD_ACCEPT (Some ?d)\<rparr>) ?st3)"
    using e(1,3) 1(1) 2(1) 3(1,4) by (simp add: morse_twt_send_accept_def Let_def)
  with 1(1) 2(1) at2 linked o twt_ok_lists [OF ok o 3(3)] 3(4) show ?thesis
    by (intro exI [of _ "st\<lparr>stas := xs\<rparr>"] exI [of _ st2] exI [of _ ?st3] exI [of _ ret] exI [of _ t]) simp
qed

lemma send_accept_ok:
  assumes ok: "twt_ok H st" and p: "p \<in> H" and e: "ev_heap st p = Some e" "asks e"
    and at: "agreement_at st (i, ev_flow e) = Some a" "agr_state a \<noteq> NO_AGREEMENT" "agr_state a \<noteq> AGREEMENT"
    and r: "(i, ev_flow e) \<notin> linked st"
  shows "\<exists>st'. morse_twt_send_accept env i p st = Some (st', 0) \<and> twt_ok (H - {p}) st' \<and> undisturbed (H - {p}) st st'"
proof -
  obtain c d where d: "ev_flow e < 8" "ev_body e = Setup c (Some d)" "wake_interval_us d \<noteq> 0" using e(2) by (auto simp: asks_def)
  obtain st3 t where 3: "only_lists st st3" "twt_ok H st3"
      "agreement_at st3 (i, ev_flow e) = Some (a\<lparr>agr_data := accepted_data (d\<lparr>wake_time_us := t\<rparr>)\<rparr>)"
      "morse_twt_send_accept env i p st =
        answer env i p (morse_twt_enter_state_agreement i) (put_event p (e\<lparr>ev_body := Setup CMD_ACCEPT (Some (accepted_data (d\<lparr>wake_time_us := t\<rparr>)))\<rparr>) st3)"
    using send_accept_data [OF ok e d(2) at r, of env] by blast
  let ?st4 = "put_event p (e\<lparr>ev_body := Setup CMD_ACCEPT (Some (accepted_data (d\<lparr>wake_time_us := t\<rparr>)))\<rparr>) st3"
  have "has response_ok ?st4 p" using d by (simp add: has_def put_event_def response_ok_def)
  moreover have "sta_at ?st4 i \<noteq> None" using 3(3) by (auto simp: put_event_def agreement_at_def split: Option.bind_splits)
  ultimately obtain st' where st': "answer env i p (morse_twt_enter_state_agreement i) ?st4 = Some (st', 0)"
      "twt_ok (H - {p}) st'" "undisturbed (H - {p}) ?st4 st'"
    using answer_ok [OF put_in_hand [OF 3(2) p] p, of _ i "morse_twt_enter_state_agreement i" env] enter_agreement_ok by (metis (no_types))
  have "undisturbed (H - {p}) st3 ?st4" by (simp add: undisturbed_def put_event_def)
  then have "undisturbed (H - {p}) st ?st4" using undisturbed_trans [OF undisturbed_lists [OF 3(1)]] by blast
  then show ?thesis using 3(4) st'(1,2) undisturbed_trans [OF _ st'(3)] by auto
qed

section \<open>One event\<close>

lemma linked_not_free:
  assumes "lists_ok {} st" "agreement_at st r = Some a" "agr_state a = NO_AGREEMENT"
  shows "r \<notin> linked st"
  using assms by (auto simp: lists_ok_def linked_ok_def)

lemma enter_considered_ok:
  assumes ok: "twt_ok H st" and p: "p \<in> H" and e: "ev_heap st p = Some e" "asks e"
    and at: "agreement_at st (i, ev_flow e) = Some a" "agr_state a = NO_AGREEMENT" and s: "considered c = Some s"
  shows "\<exists>st'. morse_twt_enter_state env (Some i) p s st = Some (st', 0) \<and> twt_ok (H - {p}) st' \<and> undisturbed (H - {p}) st st'"
proof -
  have s': "s \<noteq> NO_AGREEMENT" "s \<noteq> AGREEMENT" using s by (auto simp: considered_def split: setup_cmd.splits)
  obtain st1 where 1: "set_agr_state i (ev_flow e) s st = Some st1" "twt_ok H st1" "undisturbed H st st1" "linked st1 = linked st"
      "agreement_at st1 (i, ev_flow e) = Some (a\<lparr>agr_state := s\<rparr>)"
    using set_state_ok [OF ok at(1) s'(1)] by blast
  have "lists_ok {} st" using ok by (simp add: twt_ok_def)
  then have r: "(i, ev_flow e) \<notin> linked st1" using linked_not_free at 1(4) by metis
  have e1: "ev_heap st1 p = Some e" using 1(3) p e(1) by (simp add: undisturbed_def)
  have "sta_at st1 i \<noteq> None" using 1(5) by (auto simp: agreement_at_def split: Option.bind_splits)
  moreover have "has asks st1 p" using e(2) e1 by (simp add: has_def)
  ultimately obtain y where y: "morse_twt_send_reject env i p st1 = Some (y, 0)" "twt_ok (H - {p}) y" "undisturbed (H - {p}) st1 y"
    using send_reject_ok [OF 1(2) p] by blast
  have "\<exists>x. morse_twt_send_accept env i p st1 = Some (x, 0) \<and> twt_ok (H - {p}) x \<and> undisturbed (H - {p}) st1 x"
    by (rule send_accept_ok [OF 1(2) p e1 e(2) 1(5) _ _ r]) (simp_all add: s')
  then obtain x where x: "morse_twt_send_accept env i p st1 = Some (x, 0)" "twt_ok (H - {p}) x" "undisturbed (H - {p}) st1 x" by blast
  have u: "undisturbed (H - {p}) st st1" using undisturbed_mono [OF 1(3)] by blast
  have "morse_twt_enter_state env (Some i) p s st \<in> {Some (x, 0), Some (y, 0)}"
    using s' e(1) 1(1) x(1) y(1) by (cases s) (simp_all add: morse_twt_enter_state_def)
  then show ?thesis using x y undisturbed_trans [OF u x(3)] undisturbed_trans [OF u y(3)] by blast
qed

lemma peek_total:
  assumes "\<And>p. p \<in> set q \<Longrightarrow> ev_heap st p \<noteq> None"
  shows "\<exists>r. peek_walk st a flow q = Some r \<and> (\<forall>p. r = Some p \<longrightarrow> p \<in> set q)"
  using assms
proof (induction q)
  case (Cons p q)
  then obtain e where "ev_heap st p = Some e" by fastforce
  with Cons show ?case by auto
qed simp

lemma peek_tx_ok:
  assumes "twt_ok H st"
  shows "\<exists>r. morse_twt_peek_tx addr flow st = Some r \<and> (\<forall>p. r = Some p \<longrightarrow> p \<in> set (tx st))"
proof -
  have "ev_heap st p \<noteq> None" if "p \<in> set (tx st)" for p using assms that by (auto simp: twt_ok_def events_ok_def has_def)
  note t = peek_total [of "tx st" st, OF this]
  show ?thesis
  proof (cases addr)
    case (Some a)
    with t [of a flow] show ?thesis by (auto simp: morse_twt_peek_tx_def morse_twt_peek_queue_def)
  qed (simp add: morse_twt_peek_tx_def)
qed

lemma peek_event_ok:
  assumes "twt_ok H st"
  shows "\<exists>r. morse_twt_peek_event addr flow st = Some r \<and> (\<forall>p. r = Some p \<longrightarrow> p \<in> set (events st))"
proof -
  have "ev_heap st p \<noteq> None" if "p \<in> set (events st)" for p using assms that by (auto simp: twt_ok_def events_ok_def has_def)
  note t = peek_total [of "events st" st, OF this]
  show ?thesis
  proof (cases addr)
    case (Some a)
    with t [of a flow] show ?thesis by (simp add: morse_twt_peek_event_def morse_twt_peek_queue_def)
  qed (auto simp: morse_twt_peek_event_def morse_twt_peek_queue_def split: list.splits)
qed

lemma purge_done:
  assumes "twt_ok H st" "p \<in> H"
  shows "\<exists>st'. morse_twt_purge_event p st = Some st' \<and> twt_ok (H - {p}) st' \<and> undisturbed (H - {p}) st st'"
  using purge_in_hand [OF assms] undisturbed_purge [OF assms] by blast

lemma handle_setup_ok:
  assumes ok: "twt_ok H st" and p: "p \<in> H" and e: "ev_heap st p = Some e" "asks e" and s: "sta_at st i \<noteq> None"
  shows "\<exists>st'. handle_setup env i p st = Some st' \<and> twt_ok (H - {p}) st' \<and> undisturbed (H - {p}) st st'"
proof -
  obtain c d where d: "ev_flow e < MORSE_TWT_AGREEMENTS_MAX_PER_STA" "ev_body e = Setup c (Some d)" "considered c \<noteq> None"
    using e(2) by (auto simp: asks_def MORSE_TWT_AGREEMENTS_MAX_PER_STA_def)
  have l: "lists_ok {} st" using ok by (simp add: twt_ok_def)
  obtain a where at: "agreement_at st (i, ev_flow e) = Some a" using agreement_at_total [OF l s d(1)] by blast
  obtain sc where sc: "considered c = Some sc" using d(3) by auto
  obtain s' where s': "sta_at st i = Some s'" using s by auto
  obtain old where "morse_twt_peek_tx (Some (sta_addr s')) (Some (ev_flow e)) st = Some old" using peek_tx_ok [OF ok] by blast
  then have agr: "morse_twt_handle_event_in_agreement env i p st =
      (if old \<noteq> None then map_option (\<lambda>st. (st, 0)) (morse_twt_purge_event p st)
       else map_option (\<lambda>(st, _). (st, 0)) (morse_twt_send_reject env i p st))"
    using e(1) d(2) sc s' by (simp add: morse_twt_handle_event_in_agreement_def)
  have handle: "handle_setup env i p st = map_option fst (case agr_state a of
         NO_AGREEMENT \<Rightarrow> morse_twt_handle_event_in_no_agreement env i p st
       | AGREEMENT \<Rightarrow> morse_twt_handle_event_in_agreement env i p st
       | _ \<Rightarrow> morse_twt_handle_event_in_consider p st)"
    using e(1) at by (simp add: handle_setup_def)
  show ?thesis
  proof (cases "agr_state a = NO_AGREEMENT")
    case True
    from enter_considered_ok [OF ok p e at True sc, of env] show ?thesis
      using e(1) d(2) sc True by (auto simp: handle morse_twt_handle_event_in_no_agreement_def)
  next
    case False
    obtain x y where x: "morse_twt_purge_event p st = Some x" "twt_ok (H - {p}) x" "undisturbed (H - {p}) st x"
      using purge_done [OF ok p] by blast
    have "has asks st p" using e by (simp add: has_def)
    then obtain y where y: "morse_twt_send_reject env i p st = Some (y, 0)" "twt_ok (H - {p}) y" "undisturbed (H - {p}) st y"
      using send_reject_ok [OF ok p _ s] by blast
    show ?thesis
    proof (cases "agr_state a = AGREEMENT")
      case True
      then show ?thesis using x y by (simp add: handle agr)
    next
      case other: False
      then show ?thesis using False x e(1) d(2,3)
        by (cases "agr_state a") (simp_all add: handle morse_twt_handle_event_in_consider_def sc)
    qed
  qed
qed

section \<open>The queue of events\<close>

lemma find_append: "find P (xs @ ys) = (case find P xs of None \<Rightarrow> find P ys | Some x \<Rightarrow> Some x)"
  by (induction xs) auto

lemma add_sta_ok:
  assumes ok: "twt_ok H st"
  shows "\<exists>st' r. morse_twt_add_sta env a st = (st', r) \<and> twt_ok H st' \<and> undisturbed UNIV st st' \<and>
    (r = None \<longrightarrow> \<not> t_kmalloc env (allocs st)) \<and> (\<forall>i. r = Some i \<longrightarrow> sta_at st' i \<noteq> None)"
proof (cases "t_kmalloc env (allocs st)")
  case False
  then show ?thesis using twt_ok_allocs [OF ok] by (simp add: morse_twt_add_sta_def kmalloc_def undisturbed_def)
next
  case True
  let ?i = "allocs st"
  let ?st = "st\<lparr>stas := stas st @ [new_sta ?i a], allocs := ?i + 1\<rparr>"
  have l: "lists_ok {} st" using ok by (simp add: twt_ok_def)
  have new: "?i \<notin> sta_id ` set (stas st)" using l by (auto simp: lists_ok_def)
  have at: "sta_at (st\<lparr>stas := stas st @ [new_sta ?i a]\<rparr>) i = (case sta_at st i of None \<Rightarrow> if i = ?i then Some (new_sta ?i a) else None | Some s \<Rightarrow> Some s)" for i
    using new by (auto simp: sta_at_def find_append new_sta_def split: option.splits)
  have "linked_ok ?st r" if "r \<in> linked st" for r
  proof -
    have "linked_ok st r" using l that by (simp add: lists_ok_def)
    then show ?thesis by (auto simp: linked_ok_def agreement_at_def at split: option.splits Option.bind_splits)
  qed
  then have "lists_ok {} ?st"
    using l new by (auto simp: lists_ok_def linked_def new_sta_def)
  then have "twt_ok H ?st" using ok by (auto simp: twt_ok_def elim!: events_ok_cong)
  moreover have "sta_at ?st ?i \<noteq> None" by (simp add: at split: option.splits)
  ultimately show ?thesis using True by (simp add: morse_twt_add_sta_def kmalloc_def undisturbed_def)
qed

text \<open>
  An event that is taken is freed or moved, unless no station can be allocated for it: then it is in no queue, and the loop stops.
\<close>

definition handled :: "twt_env \<Rightarrow> nat set \<Rightarrow> nat \<Rightarrow> twt \<Rightarrow> twt \<Rightarrow> bool \<Rightarrow> bool" where
  "handled env H p st st' go \<longleftrightarrow>
     events st' = removeAll p (events st) \<and> requester st' = requester st \<and> responder st' = responder st \<and>
     (if go then twt_ok H st' else twt_ok (insert p H) st' \<and> (\<exists>n. \<not> t_kmalloc env n))"

lemma preprocess_ok:
  assumes ok: "twt_ok H st" and p: "p \<in> H" and r: "has request_ok st p"
  shows "\<exists>st' go. morse_twt_preprocess_event env p st = Some (st', go) \<and>
    (if go then st' = st \<and> (has asks st p \<or> (\<exists>e. ev_heap st p = Some e \<and> ev_body e = Teardown True \<and> ev_flow e < 8))
     else twt_ok (H - {p}) st' \<and> undisturbed (H - {p}) st st')"
proof -
  obtain e where e: "ev_heap st p = Some e" "request_ok e" using r by (auto simp: has_def)
  obtain x where x: "morse_twt_purge_event p st = Some x" "twt_ok (H - {p}) x" "undisturbed (H - {p}) st x"
    using purge_done [OF ok p] by blast
  show ?thesis
  proof (cases "ev_body e")
    case (Teardown t)
    then show ?thesis using e by (auto simp: morse_twt_preprocess_event_def request_ok_def)
  next
    case (Setup c d)
    then obtain a where d: "d = Some a" "ev_flow e < 8" "considered c \<noteq> None \<longrightarrow> wake_interval_us a \<noteq> 0"
      using e(2) by (auto simp: request_ok_def split: option.splits)
    let ?i = "st\<lparr>to_install := to_install st @ [p], cmd_work_scheduled := cmd_work_scheduled st \<or> v_assoc env\<rparr>"
    have "has install_ok st p" using e(1) d(2) Setup d(1) by (simp add: has_def install_ok_def)
    from give_event(2) [OF ok p this] have i: "twt_ok (H - {p}) ?i"
      by (auto simp: twt_ok_def elim!: lists_ok_cong events_ok_cong)
    have "install_ready st" using ok by (simp add: twt_ok_def events_ok_def)
    then show ?thesis using e(1) Setup d x i
      by (auto simp: morse_twt_preprocess_event_def has_def asks_def undisturbed_def)
  qed
qed

lemma handle_teardown_ok:
  assumes ok: "twt_ok H st" and p: "p \<in> H" and e: "ev_heap st p = Some e" "ev_flow e < 8"
    and s: "\<And>i. sta = Some i \<Longrightarrow> sta_at st i \<noteq> None"
  shows "\<exists>st'. morse_twt_handle_event_teardown env sta p st = Some st' \<and> twt_ok (H - {p}) st' \<and> undisturbed (H - {p}) st st'"
proof -
  have skip: "undisturbed H st st" by (rule undisturbed_lists) simp
  have "\<exists>x r. (if v_type env = IF_AP then morse_twt_enter_state env sta p NO_AGREEMENT st else Some (st, - EINVAL)) = Some (x, r) \<and>
      twt_ok H x \<and> undisturbed H st x"
  proof (cases sta)
    case None
    with ok e skip show ?thesis by (simp add: morse_twt_enter_state_def)
  next
    case (Some i)
    obtain x r where "morse_twt_enter_state_no_agreement env i e st = Some (x, r)" "twt_ok H x" "undisturbed H st x"
      using enter_no_agreement_ok [OF ok s [OF Some] e(2)] by blast
    with Some e ok skip show ?thesis by (simp add: morse_twt_enter_state_def)
  qed
  then obtain x r where x: "(if v_type env = IF_AP then morse_twt_enter_state env sta p NO_AGREEMENT st else Some (st, - EINVAL)) = Some (x, r)"
      "twt_ok H x" "undisturbed H st x" by blast
  obtain y where "morse_twt_purge_event p x = Some y" "twt_ok (H - {p}) y" "undisturbed (H - {p}) x y"
    using purge_done [OF x(2) p] by blast
  then show ?thesis using x undisturbed_trans [OF x(3)] by (fastforce simp: morse_twt_handle_event_teardown_def)
qed

lemma get_sta_at: "morse_twt_get_sta a st = Some i \<Longrightarrow> sta_at st i \<noteq> None"
  by (auto simp: morse_twt_get_sta_def find_Some_iff sta_at_def find_None_iff intro: nth_mem)

lemma handle_one_ok:
  assumes ok: "twt_ok H st" and p: "p \<in> set (events st)"
  shows "\<exists>st' go. handle_one env p st = Some (st', go) \<and> handled env H p st st' go"
proof -
  let ?st = "st\<lparr>events := removeAll p (events st)\<rparr>"
  have 1: "twt_ok (insert p H) ?st" "has request_ok ?st p" using take_event [OF ok p] by (auto simp: has_def)
  have pH: "p \<notin> H" using queues_apart(2) [OF ok] p by auto
  then have HH: "insert p H - {p} = H" by auto
  obtain st1 go where pre: "morse_twt_preprocess_event env p ?st = Some (st1, go)"
    and st1: "if go then st1 = ?st \<and> (has asks ?st p \<or> (\<exists>e. ev_heap ?st p = Some e \<and> ev_body e = Teardown True \<and> ev_flow e < 8))
      else twt_ok H st1 \<and> undisturbed H ?st st1"
    using preprocess_ok [OF 1(1) insertI1 1(2), of env] unfolding HH by blast
  show ?thesis
  proof (cases go)
    case False
    then show ?thesis using pre st1 by (auto simp: handle_one_def handled_def undisturbed_def)
  next
    case True
    then have st1: "st1 = ?st" and kind: "has asks ?st p \<or> (\<exists>e. ev_heap ?st p = Some e \<and> ev_body e = Teardown True \<and> ev_flow e < 8)"
      using st1 by auto
    then obtain e where e: "ev_heap ?st p = Some e" by (auto simp: has_def)
    let ?sta = "morse_twt_get_sta (ev_addr e) ?st"
    show ?thesis
    proof (cases "ev_body e")
      case (Teardown t)
      then have k: "ev_flow e < 8" using kind e by (auto simp: has_def asks_def)
      have "\<exists>st2. morse_twt_handle_event_teardown env ?sta p ?st = Some st2 \<and> twt_ok H st2 \<and> undisturbed H ?st st2"
        by (rule handle_teardown_ok [OF 1(1) insertI1 e k, unfolded HH]) (rule get_sta_at)
      then obtain st2 where "morse_twt_handle_event_teardown env ?sta p ?st = Some st2" "twt_ok H st2" "undisturbed H ?st st2" by blast
      then show ?thesis using pre True st1 e Teardown by (auto simp: handle_one_def Let_def handled_def undisturbed_def)
    next
      case (Setup c d)
      then have asks: "asks e" using kind e by (auto simp: has_def)
      obtain st2 r where r: "(case ?sta of None \<Rightarrow> morse_twt_add_sta env (ev_addr e) ?st | Some i \<Rightarrow> (?st, Some i)) = (st2, r)"
          "twt_ok (insert p H) st2" "undisturbed UNIV ?st st2" "r = None \<longrightarrow> (\<exists>n. \<not> t_kmalloc env n)" "\<And>i. r = Some i \<Longrightarrow> sta_at st2 i \<noteq> None"
        using add_sta_ok [OF 1(1), of env "ev_addr e"] get_sta_at [of "ev_addr e" ?st] 1(1) undisturbed_lists [of ?st ?st]
        by (cases ?sta) auto
      have e2: "ev_heap st2 p = Some e" using r(3) e by (simp add: undisturbed_def)
      have one: "handle_one env p st = (case r of None \<Rightarrow> Some (st2\<lparr>work_scheduled := True\<rparr>, False)
          | Some i \<Rightarrow> map_option (\<lambda>st. (st, True)) (handle_setup env i p st2))"
        using pre True st1 e Setup r(1) by (simp add: handle_one_def Let_def split: option.splits)
      show ?thesis
      proof (cases r)
        case None
        have "twt_ok (insert p H) (st2\<lparr>work_scheduled := True\<rparr>)" using r(2) by (auto simp: twt_ok_def elim!: lists_ok_cong events_ok_cong)
        then show ?thesis using one None r(3,4) by (auto simp: handled_def undisturbed_def)
      next
        case (Some i)
        obtain st3 where "handle_setup env i p st2 = Some st3" "twt_ok H st3" "undisturbed H st2 st3"
          using handle_setup_ok [OF r(2) insertI1 e2 asks r(5) [OF Some], of env, unfolded HH] by blast
        then show ?thesis using one Some r(3) by (auto simp: handled_def undisturbed_def)
      qed
    qed
  qed
qed

lemma handle_walk_ok:
  assumes "twt_ok H st"
  shows "\<exists>st' L. handle_walk env addr st = Some st' \<and> twt_ok (H \<union> L) st' \<and> requester st' = requester st \<and> responder st' = responder st \<and>
    (if L = {} then morse_twt_peek_event addr None st' = Some None else (\<exists>p. L = {p}) \<and> (\<exists>n. \<not> t_kmalloc env n))"
  using assms
proof (induction "length (events st)" arbitrary: st rule: less_induct)
  case less
  obtain q where q: "morse_twt_peek_event addr None st = Some q" "\<forall>p. q = Some p \<longrightarrow> p \<in> set (events st)"
    using peek_event_ok [OF less.prems] by blast
  show ?case
  proof (cases q)
    case None
    with q less.prems show ?thesis by (subst handle_walk.simps) (auto intro!: exI [of _ "{}"])
  next
    case (Some p)
    with q have p: "p \<in> set (events st)" by simp
    obtain st1 go where one: "handle_one env p st = Some (st1, go)" "handled env H p st st1 go"
      using handle_one_ok [OF less.prems p] by blast
    show ?thesis
    proof (cases go)
      case True
      with one have "twt_ok H st1" "length (events st1) < length (events st)" "requester st1 = requester st" "responder st1 = responder st"
        using p by (auto simp: handled_def length_removeAll_less)
      with less.hyps [of st1] q Some one True show ?thesis by (subst handle_walk.simps) auto
    next
      case False
      with one q Some show ?thesis
        by (subst handle_walk.simps) (auto simp: handled_def intro!: exI [of _ "{p}"])
    qed
  qed
qed

end
