(* ===== verification/Twt_Frames.thy ===== *)
theory Twt_Frames
  imports Twt_Safety
begin

text \<open>
  Frames that arrive and are sent keep the invariant of target wake time.
\<close>

section \<open>Elements that arrive\<close>

text \<open>An element that can be read in full and has a wake interval.\<close>

definition element_ok :: "ie_element option \<Rightarrow> bool" where
  "element_ok ie = (case ie of None \<Rightarrow> True | Some ie \<Rightarrow> 15 \<le> length (ie_mem ie) \<and> le16_at (ie_mem ie) 12 \<noteq> Some 0)"

lemma interval_not_zero:
  assumes "mantissa p \<noteq> 0"
  shows "morse_twt_calculate_wake_interval_us p \<noteq> 0"
proof (cases "wake_exp_of (req_type p) = 31")
  case True
  have "unat (morse_twt_calculate_wake_interval_us p) = 2 ^ 64 - unat (mantissa p) * 2 ^ 31"
    using assms True neg_shl_31 [of "mantissa p"] by (simp add: morse_twt_calculate_wake_interval_us_def one_shl_signed)
  moreover have "unat (mantissa p) < 2 ^ 16" using unsigned_less [of "mantissa p"] by simp
  ultimately have "0 < unat (morse_twt_calculate_wake_interval_us p)" by simp
  then show ?thesis by (simp add: unat_gt_0)
next
  case False
  then have e: "wake_exp_of (req_type p) < 31" using field_less(1) [of "req_type p"] by linarith
  then have "unat (morse_twt_calculate_wake_interval_us p) = unat (mantissa p) * 2 ^ wake_exp_of (req_type p)"
    by (simp add: morse_twt_calculate_wake_interval_us_def one_shl_signed unat_interval)
  moreover have "0 < unat (mantissa p)" using assms by (simp add: unat_gt_0)
  ultimately have "0 < unat (morse_twt_calculate_wake_interval_us p)" by simp
  then show ?thesis by (simp add: unat_gt_0)
qed

lemma params_at_total:
  assumes "i + 14 \<le> length b"
  shows "\<exists>p. params_at b i = Some p \<and> le16_at b (i + 11) = Some (mantissa p)"
  using assms by (auto simp: params_at_def le16_at_def le32_at_def le64_at_def nth_opt_def)

lemma parse_element_ok:
  assumes "element_ok (Some ie)"
  shows "\<exists>r. parse_element ty ie = Some r \<and> (\<forall>a. r = Inr a \<longrightarrow> wake_interval_us a \<noteq> 0)"
proof -
  have l: "15 \<le> length (ie_mem ie)" "le16_at (ie_mem ie) 12 \<noteq> Some 0" using assms by (auto simp: element_ok_def)
  obtain p where p: "params_at (ie_mem ie) 1 = Some p" "le16_at (ie_mem ie) (1 + 11) = Some (mantissa p)"
    using params_at_total [of 1 "ie_mem ie"] l(1) by auto
  then have "morse_twt_calculate_wake_interval_us p \<noteq> 0" using interval_not_zero l(2) by auto
  moreover obtain c where "nth_opt (ie_mem ie) 0 = Some c" using l(1) by (cases "ie_mem ie") (auto simp: nth_opt_def)
  ultimately show ?thesis using p(1) by (simp add: parse_element_def Let_def data_of_params_def)
qed

section \<open>What a call keeps\<close>

text \<open>The parts of the state that the invariant reads.\<close>

definition same_parts :: "twt \<Rightarrow> twt \<Rightarrow> bool" where
  "same_parts st st' \<longleftrightarrow>
     stas st' = stas st \<and> wake_intervals st' = wake_intervals st \<and> ev_heap st' = ev_heap st \<and> events st' = events st \<and> tx st' = tx st \<and>
     to_install st' = to_install st \<and> req_event_tx st' = req_event_tx st \<and> install_ready st' = install_ready st \<and> allocs st \<le> allocs st'"

lemma twt_ok_same: "twt_ok H st \<Longrightarrow> same_parts st st' \<Longrightarrow> twt_ok H st'"
  by (auto simp: twt_ok_def same_parts_def elim!: lists_ok_cong events_ok_cong)

lemma twt_ok_flags [simp]:
  "twt_ok H (st\<lparr>work_scheduled := b\<rparr>) = twt_ok H st" "twt_ok H (st\<lparr>cmd_work_scheduled := b\<rparr>) = twt_ok H st"
  "twt_ok H (st\<lparr>requester := b\<rparr>) = twt_ok H st" "twt_ok H (st\<lparr>responder := b\<rparr>) = twt_ok H st"
  by (auto intro: twt_ok_same [of H] simp: same_parts_def)

text \<open>A new event goes to the queue of events, or waits for the firmware.\<close>

lemma new_event_ok:
  assumes ok: "twt_ok H st" and n: "allocs st < n"
  shows "twt_ok (insert (allocs st) H) (put_event (allocs st) e (st\<lparr>allocs := n\<rparr>))"
proof -
  have eq: "put_event (allocs st) e (st\<lparr>allocs := n\<rparr>) = (put_event (allocs st) e (st\<lparr>allocs := allocs st + 1\<rparr>))\<lparr>allocs := n\<rparr>"
    by (simp add: put_event_def)
  show ?thesis unfolding eq
    by (rule twt_ok_same [OF alloc_in_hand [OF ok]]) (use n in \<open>simp add: put_event_def same_parts_def\<close>)
qed

lemma queued_new_event:
  assumes ok: "twt_ok {} st" and n: "allocs st < n" and r: "request_ok e"
  shows "\<exists>st'. morse_twt_queue_event (allocs st) (put_event (allocs st) e (st\<lparr>allocs := n\<rparr>)) = Some st' \<and> twt_ok {} st'"
proof -
  let ?p = "allocs st" and ?st = "put_event (allocs st) e (st\<lparr>allocs := n\<rparr>)"
  have "has request_ok ?st ?p" using r by (simp add: has_def put_event_def)
  from queue_event_ok [OF new_event_ok [OF ok n] insertI1 this] show ?thesis by (metis Diff_insert_absorb empty_iff)
qed

lemma process_ie_ok:
  assumes ok: "twt_ok {} st" and k: "\<And>n. t_kmalloc env n" and ie: "element_ok ie"
  shows "\<exists>st'. morse_mac_process_twt_ie env ie src st = Some st' \<and> twt_ok {} st'"
proof (cases "ie = None \<or> \<not> morse_twt_is_enabled st")
  case True
  then show ?thesis using twt_ok_allocs [OF ok]
    by (auto simp: morse_mac_process_twt_ie_def morse_twt_parse_ie_def kmalloc_def k morse_twt_is_enabled_def)
next
  case False
  then obtain i where i: "ie = Some i" by auto
  obtain r where r: "parse_element (v_type env) i = Some r" "\<forall>a. r = Inr a \<longrightarrow> wake_interval_us a \<noteq> 0"
    using parse_element_ok ie i by blast
  show ?thesis
  proof (cases r)
    case (Inl x)
    with r(1) i twt_ok_allocs [OF ok] show ?thesis
      by (auto simp: morse_mac_process_twt_ie_def morse_twt_parse_ie_def kmalloc_def k morse_twt_is_enabled_def)
  next
    case (Inr a)
    have "request_ok (event_of a src)" using r(2) Inr by (simp add: request_ok_def event_of_def)
    from queued_new_event [OF ok _ this, of "allocs st + 2"] show ?thesis
      using False i r(1) Inr
      by (simp add: morse_mac_process_twt_ie_def morse_twt_parse_ie_def kmalloc_def k morse_twt_is_enabled_def put_event_def)
  qed
qed

lemma teardown_request: "request_ok (teardown_event a f)" "install_ok (teardown_event a f)"
proof -
  have "f AND 7 \<le> 7" by (rule word_and_le1)
  then have "unat (f AND 7) \<le> 7" by (simp add: word_le_nat_alt)
  then show "request_ok (teardown_event a f)" "install_ok (teardown_event a f)"
    by (simp_all add: teardown_event_def request_ok_def install_ok_def)
qed

lemma alloc_event_ok: "t_kmalloc env (allocs st) \<Longrightarrow> alloc_event env e st = Some (put_event (allocs st) e (st\<lparr>allocs := allocs st + 1\<rparr>), allocs st)"
  by (simp add: alloc_event_def kmalloc_def)

lemma process_teardown_ok:
  assumes ok: "twt_ok {} st" and k: "\<And>n. t_kmalloc env n"
  shows "\<exists>st' r. morse_mac_process_twt_teardown env flow src st = Some (st', r) \<and> twt_ok {} st'"
proof -
  obtain st' where "morse_twt_queue_event (allocs st) (put_event (allocs st) (teardown_event src flow) (st\<lparr>allocs := allocs st + 1\<rparr>)) = Some st'"
      "twt_ok {} st'"
    using queued_new_event [OF ok _ teardown_request(1) [of src flow], of "allocs st + 1"] by auto
  then show ?thesis using ok by (simp add: morse_mac_process_twt_teardown_def alloc_event_ok k)
qed

lemma process_action_ok:
  assumes ok: "twt_ok {} st" and k: "\<And>n. t_kmalloc env n" and ie: "element_ok ie" and b: "3 \<le> length b"
  shows "\<exists>st' r. morse_mac_process_twt_action_frame env b ie src st = Some (st', r) \<and> twt_ok {} st'"
proof -
  define t where "t = b ! 2"
  have o: "nth_opt b 0 = Some (b ! 0)" "nth_opt b 1 = Some (b ! 1)" "nth_opt b 2 = Some t" using b by (auto simp: nth_opt_def t_def)
  obtain st1 where 1: "morse_mac_process_twt_ie env ie src st = Some st1" "twt_ok {} st1" using process_ie_ok [OF ok k ie] by blast
  obtain st2 r where 2: "(case morse_twt_get_sta src st1 of None \<Rightarrow> morse_twt_add_sta env src st1 | Some i \<Rightarrow> (st1, Some i)) = (st2, r)" "twt_ok {} st2"
    using add_sta_ok [OF 1(2), of env src] 1(2) by (cases "morse_twt_get_sta src st1") auto
  have 3: "twt_ok {} (upd_sta i (\<lambda>s. s\<lparr>dialog_token := t, action_is_pending := True\<rparr>) st2)" for i
    by (rule upd_flags_ok(1) [OF 2(2)]) simp
  obtain st4 r4 where 4: "morse_mac_process_twt_teardown env t src st = Some (st4, r4)" "twt_ok {} st4" using process_teardown_ok [OF ok k] by blast
  show ?thesis using o 1 2 3 4 ok by (auto simp: morse_mac_process_twt_action_frame_def split: option.splits)
qed

text \<open>A frame whose parts can be read: the addresses, and of an action frame its category, code and the octet after them.\<close>

definition frame_ok :: "u8 list \<Rightarrow> bool" where
  "frame_ok f =
     (16 \<le> length f \<and>
      (case le16_at f 0 of
         None \<Rightarrow> False
       | Some fc \<Rightarrow> fc AND 0xfc = 0xd0 \<longrightarrow> 27 + (if fc AND 0x4000 \<noteq> 0 then 8 else 0) \<le> length f))"

lemma rx_ok:
  assumes ok: "twt_ok {} st" and k: "\<And>n. t_kmalloc env n" and ie: "element_ok ie" and f: "frame_ok f"
  shows "\<exists>st' r. morse_mac_process_rx_twt_mgmt env f ie st = Some (st', r) \<and> twt_ok {} st'"
proof -
  obtain fc where fc: "le16_at f 0 = Some fc" "fc AND 0xfc = 0xd0 \<Longrightarrow> 27 + (if fc AND 0x4000 \<noteq> 0 then 8 else 0) \<le> length f" "16 \<le> length f"
    using f by (auto simp: frame_ok_def split: option.splits)
  obtain x where x: "morse_mac_process_twt_ie env ie (take 6 (drop 10 f)) st = Some x" "twt_ok {} x" using process_ie_ok [OF ok k ie] by blast
  have "\<exists>y r. morse_mac_process_twt_action_frame env (drop (24 + (if fc AND 0x4000 \<noteq> 0 then 8 else 0)) f) ie (take 6 (drop 10 f)) st = Some (y, r) \<and> twt_ok {} y"
    if "fc AND 0xfc = 0xd0" using fc(2) [OF that] by (intro process_action_ok [OF ok k ie]) auto
  then show ?thesis using fc(1,3) x ok by (auto simp: morse_mac_process_rx_twt_mgmt_def)
qed

lemma tx_finish_ok:
  assumes ok: "twt_ok {} st" and k: "\<And>n. t_kmalloc env n" and f: "27 \<le> length f"
  shows "\<exists>st'. morse_mac_process_twt_action_tx_finish env f st = Some st' \<and> twt_ok {} st'"
proof -
  obtain c d where o: "nth_opt f 25 = Some c" "nth_opt f 26 = Some d" using f by (auto simp: nth_opt_def)
  let ?e = "teardown_event (take 6 (drop 4 f)) d"
  let ?st = "put_event (allocs st) ?e (st\<lparr>allocs := allocs st + 1\<rparr>)"
  have 1: "twt_ok (insert (allocs st) {}) ?st" by (rule alloc_in_hand [OF ok])
  have "has install_ok ?st (allocs st)" using teardown_request by (simp add: has_def put_event_def)
  from give_event(2) [OF 1 insertI1 this] have "twt_ok {} (?st\<lparr>to_install := to_install ?st @ [allocs st]\<rparr>)" by simp
  moreover have "install_ready ?st" using ok by (simp add: twt_ok_def events_ok_def put_event_def)
  ultimately show ?thesis using o ok by (simp add: morse_mac_process_twt_action_tx_finish_def alloc_event_ok k)
qed

end
