(* ===== verification/Twt_Calls.thy ===== *)
theory Twt_Calls
  imports Twt_Frames
begin

text \<open>
  The other entry points of target wake time keep its invariant: the commands to the firmware, the requester's commands, the elements of
  association frames, the states of stations, and the end of the interface.
\<close>

section \<open>The firmware\<close>

text \<open>The queue of installations is taken as a whole; then its events are in hand.\<close>

lemma take_installs:
  assumes ok: "twt_ok {} st"
  shows "twt_ok (set (to_install st)) (st\<lparr>to_install := []\<rparr>)" "\<And>p. p \<in> set (to_install st) \<Longrightarrow> has install_ok (st\<lparr>to_install := []\<rparr>) p"
    "distinct (to_install st)"
proof -
  have e: "events_ok {} st" using ok by (simp add: twt_ok_def)
  then show "\<And>p. p \<in> set (to_install st) \<Longrightarrow> has install_ok (st\<lparr>to_install := []\<rparr>) p" by (auto simp: events_ok_def has_def)
  show "distinct (to_install st)" using e by (auto simp: events_ok_def queued_def)
  have "events_ok (set (to_install st)) (st\<lparr>to_install := []\<rparr>)" using e by (auto simp: events_ok_def queued_def has_def)
  then show "twt_ok (set (to_install st)) (st\<lparr>to_install := []\<rparr>)" using ok by (auto simp: twt_ok_def elim!: lists_ok_cong)
qed

lemma agreement_req_ok:
  assumes "t_kmalloc env (allocs st)"
  shows "\<exists>st' a' ret. morse_cmd_twt_agreement_req env v a st = Some (st', a', ret) \<and> same_parts st st' \<and>
    a' = a\<lparr>params := (params a)\<lparr>req_type := req_type (params a) OR TWT_REQTYPE_IMPLICIT\<rparr>\<rparr>"
  using assms
  by (simp add: morse_cmd_twt_agreement_req_def kmalloc_def twt_cmd_tx_def morse_twt_initialise_agreement_def Let_def same_parts_def)

lemma bitmap_ok:
  assumes "n < 64"
  shows "test_agreement n st \<noteq> None" "\<exists>x. set_agreement n st = Some x \<and> same_parts st x" "\<exists>x. clear_agreement n st = Some x \<and> same_parts st x"
  using assms by (auto simp: test_agreement_def set_agreement_def clear_agreement_def same_parts_def)

lemma same_parts_trans: "same_parts st x \<Longrightarrow> same_parts x y \<Longrightarrow> same_parts st y"
  by (auto simp: same_parts_def)

lemma same_parts_refl [simp]: "same_parts st st"
  by (simp add: same_parts_def)

lemma pending_cmd_ok:
  assumes ok: "twt_ok H st" and p: "p \<in> H" and e: "has install_ok st p" and k: "\<And>n. t_kmalloc env n"
  shows "\<exists>st'. pending_cmd env p st = Some st' \<and> twt_ok (H - {p}) st' \<and> (\<forall>q. q \<noteq> p \<longrightarrow> ev_heap st' q = ev_heap st q)"
proof -
  obtain e where e: "ev_heap st p = Some e" "install_ok e" using e by (auto simp: has_def)
  have f: "ev_flow e < 64" using e(2) by (auto simp: install_ok_def)
  let ?r = "case ev_body e of
      Teardown _ \<Rightarrow> (case morse_twt_uninstall_agreement env (ev_flow e) st of
          (st, ret) \<Rightarrow> if ret = 0 then clear_agreement (ev_flow e) st else Some st)
    | Setup cmd data \<Rightarrow> do {
        a \<leftarrow> data;
        (st, a', ret) \<leftarrow> morse_cmd_twt_agreement_req env False a st;
        let st = put_event p (e\<lparr>ev_body := Setup cmd (Some a')\<rparr>) st
        in if ret = 0 then set_agreement (ev_flow e) st else Some st
      }"
  have "\<exists>x. ?r = Some x \<and> twt_ok H x \<and> (\<forall>q. q \<noteq> p \<longrightarrow> ev_heap x q = ev_heap st q)"
  proof (cases "ev_body e")
    case (Teardown t)
    obtain x r where x: "morse_twt_uninstall_agreement env (ev_flow e) st = (x, r)" "same_parts st x"
      by (simp add: morse_twt_uninstall_agreement_def twt_cmd_tx_def same_parts_def)
    obtain y where y: "clear_agreement (ev_flow e) x = Some y" "same_parts x y" using bitmap_ok(3) [OF f] by blast
    show ?thesis using Teardown x(1) y(1) twt_ok_same [OF ok] x(2) same_parts_trans [OF x(2) y(2)]
      by (auto simp: same_parts_def)
  next
    case (Setup c d)
    then obtain a where d: "d = Some a" using e(2) by (auto simp: install_ok_def split: option.splits)
    obtain x a' r where x: "morse_cmd_twt_agreement_req env False a st = Some (x, a', r)" "same_parts st x"
      using agreement_req_ok [of env st False a] k by blast
    let ?x = "put_event p (e\<lparr>ev_body := Setup c (Some a')\<rparr>) x"
    have okx: "twt_ok H ?x" using put_in_hand [OF twt_ok_same [OF ok x(2)] p] .
    obtain y where y: "set_agreement (ev_flow e) ?x = Some y" "same_parts ?x y" using bitmap_ok(2) [OF f] by blast
    have heap: "\<forall>q. q \<noteq> p \<longrightarrow> ev_heap ?x q = ev_heap st q" using x(2) by (simp add: put_event_def same_parts_def)
    then have "\<forall>q. q \<noteq> p \<longrightarrow> ev_heap y q = ev_heap st q" using y(2) by (simp add: same_parts_def)
    then show ?thesis using Setup d x(1) y(1) okx heap twt_ok_same [OF okx y(2)] by (auto simp: Let_def)
  qed
  then obtain x where x: "?r = Some x" "twt_ok H x" "\<forall>q. q \<noteq> p \<longrightarrow> ev_heap x q = ev_heap st q" by blast
  have "pending_cmd env p st = morse_twt_purge_event p x" unfolding pending_cmd_def e(1) bind.bind_lunit x(1) by simp
  with purge_in_hand [OF x(2) p] x(3) show ?thesis by auto
qed

lemma pending_all_ok:
  assumes "twt_ok (set q) st" "distinct q" "\<And>p. p \<in> set q \<Longrightarrow> has install_ok st p" and k: "\<And>n. t_kmalloc env n"
  shows "\<exists>st'. ofold (pending_cmd env) q st = Some st' \<and> twt_ok {} st'"
  using assms(1-3)
proof (induction q arbitrary: st)
  case (Cons p q)
  obtain x where x: "pending_cmd env p st = Some x" "twt_ok (set (p # q) - {p}) x" "\<forall>r. r \<noteq> p \<longrightarrow> ev_heap x r = ev_heap st r"
    using pending_cmd_ok [OF Cons.prems(1), of p env] Cons.prems(3) k by auto
  have "set (p # q) - {p} = set q" using Cons.prems(2) by auto
  moreover have "has install_ok x r" if "r \<in> set q" for r
  proof -
    have "r \<noteq> p" using that Cons.prems(2) by auto
    then show ?thesis using that Cons.prems(3) [of r] x(3) by (simp add: has_def)
  qed
  ultimately show ?case using Cons.IH [of x] x(1,2) Cons.prems(2) by auto
qed simp

lemma process_pending_ok:
  assumes ok: "twt_ok {} st" and k: "\<And>n. t_kmalloc env n"
  shows "\<exists>st'. morse_twt_process_pending_cmds env st = Some st' \<and> twt_ok {} st'"
proof -
  have "install_ready st" using ok by (simp add: twt_ok_def events_ok_def)
  then show ?thesis using ok pending_all_ok [OF take_installs(1,3,2) [OF ok] k]
    by (auto simp: morse_twt_process_pending_cmds_def)
qed

section \<open>The requester's commands\<close>

lemma free_request_event:
  assumes ok: "twt_ok (insert p H) st" and p: "p \<notin> H"
  shows "twt_ok H ((case req_event_tx st of None \<Rightarrow> st | Some q \<Rightarrow> st\<lparr>ev_heap := (ev_heap st)(q := None)\<rparr>)\<lparr>req_event_tx := Some p\<rparr>)"
    (is "twt_ok H ?st")
proof -
  have e: "events_ok (insert p H) st" using ok by (simp add: twt_ok_def)
  have q: "distinct (queued ?st)" "p \<notin> set (queued st)" using e by (auto simp: events_ok_def queued_def split: option.splits)
  have "\<forall>q. req_event_tx st = Some q \<longrightarrow> q \<notin> set (events st) \<union> set (tx st) \<union> set (to_install st) \<union> insert p H"
    using e by (auto simp: events_ok_def queued_def)
  then have "events_ok H ?st" using e p q(1)
    by (cases "req_event_tx st") (auto simp: events_ok_def queued_def has_def)
  moreover have "lists_ok {} ?st" using ok by (auto simp: twt_ok_def split: option.splits elim!: lists_ok_cong)
  ultimately show ?thesis by (simp add: twt_ok_def)
qed

lemma requester_send_ok:
  assumes ok: "twt_ok {} st" and k: "\<And>n. t_kmalloc env n"
  shows "\<exists>st' r. morse_twt_requester_send env a cmd st = Some (st', r) \<and> twt_ok {} st'"
proof (cases "requester st \<and> considered cmd \<noteq> None")
  case False
  then show ?thesis using ok twt_ok_allocs [OF ok] k by (auto simp: morse_twt_requester_send_def kmalloc_def)
next
  case True
  then obtain s where s: "requester st" "considered cmd = Some s" by auto
  let ?e = "\<lparr>ev_addr = zero_addr, ev_flow = 0, ev_body = Setup cmd (Some a)\<rparr>" and ?p = "allocs st"
  let ?x = "put_event ?p ?e (st\<lparr>allocs := Suc ?p\<rparr>)"
  have x: "twt_ok {?p} ?x" using alloc_in_hand [OF ok] by simp
  show ?thesis
  proof (cases "v_assoc env")
    case False
    then show ?thesis using s free_request_event [OF x] k
      by (simp add: morse_twt_requester_send_def kmalloc_def Let_def)
  next
    case assoc: True
    let ?y = "?x\<lparr>next_dialog_token := next_dialog_token st + 1\<rparr>"
    have y: "twt_ok {?p} ?y" by (rule twt_ok_same [OF x]) (simp add: same_parts_def)
    obtain z r where z: "morse_mac_send_twt_action_frame env ?e (v_bssid env) (next_dialog_token st + 1) True ?y = Some (z, r)" "twt_ok {?p} z"
      using send_frame_ok [OF y, of True ?e env "v_bssid env" "next_dialog_token st + 1"] by auto
    have "next_dialog_token ?x = next_dialog_token st" by (simp add: put_event_def)
    then show ?thesis using s assoc z purge_in_hand [OF z(2), of ?p] k
      by (simp add: morse_twt_requester_send_def kmalloc_def Let_def)
  qed
qed

definition conf_ok :: "twt_conf \<Rightarrow> bool" where
  "conf_ok c \<longleftrightarrow> c_flow c < 64 \<and> (opcode c = OP_CONFIGURE_EXPLICIT \<longrightarrow> c_exponent c < 64)"

lemma conf_data_ok:
  assumes "conf_ok c"
  shows "\<exists>a. conf_data c = Some a"
proof (cases "opcode c = OP_CONFIGURE_EXPLICIT")
  case True
  then show ?thesis using assms by (simp add: conf_ok_def conf_data_def twt_calculate_wake_interval_def)
next
  case False
  then show ?thesis using interval_fields_ok [of "c_interval c"] by (auto simp: conf_data_def)
qed

lemma set_cmd_ok:
  assumes ok: "twt_ok {} st" and k: "\<And>n. t_kmalloc env n" and c: "conf_ok c"
  shows "\<exists>st' r. morse_twt_process_set_cmd env c st = Some (st', r) \<and> twt_ok {} st'"
proof -
  have f: "c_flow c < 64" using c by (simp add: conf_ok_def)
  obtain active where t: "test_agreement (c_flow c) st = Some active" using bitmap_ok(1) [OF f] by blast
  obtain a where a: "conf_data c = Some a" using conf_data_ok [OF c] by blast
  let ?x = "st\<lparr>allocs := allocs st + 1\<rparr>" and ?a = "a\<lparr>params := (params a)\<lparr>twt_time := target_wake_time c\<rparr>\<rparr>"
  have ok1: "twt_ok {} ?x" by (rule twt_ok_allocs [OF ok])
  obtain y b r where y: "morse_cmd_twt_agreement_req env False ?a ?x = Some (y, b, r)" "same_parts ?x y"
    using agreement_req_ok [of env ?x False ?a] k by blast
  have ok2: "twt_ok {} (y\<lparr>requester := True, responder := False\<rparr>)"
    by (rule twt_ok_same [OF twt_ok_same [OF ok1 y(2)]]) (simp add: same_parts_def)
  obtain z where z: "set_agreement (c_flow c) (y\<lparr>requester := True, responder := False\<rparr>) = Some z" "twt_ok {} z"
    using bitmap_ok(2) [OF f] twt_ok_same [OF ok2] by blast
  obtain v b' r' where v: "morse_cmd_twt_agreement_req env True a ?x = Some (v, b', r')" "same_parts ?x v"
    using agreement_req_ok [of env ?x True a] k by blast
  obtain w r'' where "morse_twt_requester_send env (request_data (c_setup_cmd c) b') (setup_cmd_of (of_nat (opcode c))) v = Some (w, r'')" "twt_ok {} w"
    using requester_send_ok [OF twt_ok_same [OF ok1 v(2)] k] by blast
  then show ?thesis using t a y z v ok ok1 twt_ok_same [OF ok1 y(2)] twt_ok_same [OF ok1 v(2)] k
    by (simp add: morse_twt_process_set_cmd_def kmalloc_def)
qed

lemma user_cmd_ok:
  assumes ok: "twt_ok {} st" and k: "\<And>n. t_kmalloc env n" and c: "conf_ok c"
  shows "\<exists>st' r. morse_process_twt_cmd env v c st = Some (st', r) \<and> twt_ok {} st'"
proof -
  obtain x r where x: "morse_twt_process_set_cmd env c st = Some (x, r)" "twt_ok {} x" using set_cmd_ok [OF assms] by blast
  obtain active where t: "test_agreement (c_flow c) st = Some active" using bitmap_ok(1) c unfolding conf_ok_def by blast
  let ?e = "\<lparr>ev_addr = zero_addr, ev_flow = c_flow c, ev_body = Teardown True\<rparr>"
  obtain y r' where y: "morse_mac_send_twt_action_frame env ?e (v_bssid env) 0 False st = Some (y, r')" "twt_ok {} y"
    using send_frame_ok [OF ok, of False ?e env "v_bssid env" 0] by auto
  obtain z r'' where z: "morse_twt_uninstall_agreement env (c_flow c) st = (z, r'')" "same_parts st z"
    by (simp add: morse_twt_uninstall_agreement_def twt_cmd_tx_def same_parts_def)
  have "\<exists>st' r. morse_twt_process_remove_cmd env c st = Some (st', r) \<and> twt_ok {} st'"
    using t y z ok twt_ok_same [OF ok z(2)] by (simp add: morse_twt_process_remove_cmd_def)
  then show ?thesis using x ok by (auto simp: morse_process_twt_cmd_def)
qed

section \<open>Responses in association frames\<close>

lemma purge_tx:
  assumes ok: "twt_ok {} st" and p: "p \<in> set (tx st)"
  shows "morse_twt_purge_event p st = Some (keep (\<lambda>q. q \<noteq> p) st)" "twt_ok {} (keep (\<lambda>q. q \<noteq> p) st)"
proof -
  have e: "events_ok {} st" using ok by (simp add: twt_ok_def)
  have "p \<in> set (queued st)" using p by (simp add: queued_def)
  then show "morse_twt_purge_event p st = Some (keep (\<lambda>q. q \<noteq> p) st)" using events_okD(2) [OF e] by (fastforce intro: purge_event_keep)
  have "req_event_tx st \<noteq> Some p" using e p by (auto simp: events_ok_def queued_def)
  then have "twt_ok {q \<in> {}. q \<noteq> p} (keep (\<lambda>q. q \<noteq> p) st)" by (intro twt_ok_keep [OF ok]) auto
  then show "twt_ok {} (keep (\<lambda>q. q \<noteq> p) st)" by simp
qed

lemma get_sta_spec:
  assumes "lists_ok {} st" "morse_twt_get_sta a st = Some i"
  shows "\<exists>s. sta_at st i = Some s \<and> sta_addr s = a"
proof -
  obtain s where s: "find (\<lambda>s. sta_addr s = a) (stas st) = Some s" "i = sta_id s" using assms(2) by (auto simp: morse_twt_get_sta_def)
  then have "s \<in> set (stas st)" "sta_addr s = a" by (auto simp: find_Some_iff)
  moreover obtain s' where s': "sta_at st i = Some s'" using get_sta_at [OF assms(2)] by auto
  then have "s' \<in> set (stas st)" "sta_id s' = i" by (auto simp: sta_at_def find_Some_iff)
  moreover have "distinct (map sta_id (stas st))" using assms(1) by (simp add: lists_ok_def)
  ultimately have "s' = s" using s(2) by (auto simp: distinct_map dest: inj_onD)
  with s' \<open>sta_addr s = a\<close> show ?thesis by blast
qed

text \<open>A response that is a reject of a request under consideration, for a station without another agreement.\<close>

definition ends_station :: "twt \<Rightarrow> nat \<Rightarrow> bool" where
  "ends_station st p =
     (case ev_heap st p of
        None \<Rightarrow> False
      | Some e \<Rightarrow>
          (case morse_twt_get_sta (ev_addr e) st of
             None \<Rightarrow> False
           | Some i \<Rightarrow>
               (case ev_body e of Setup c _ \<Rightarrow> c = CMD_REJECT | Teardown _ \<Rightarrow> False) \<and>
               (case agreement_at st (i, ev_flow e) of
                  None \<Rightarrow> False
                | Some a \<Rightarrow> agr_state a \<noteq> NO_AGREEMENT \<and> agr_state a \<noteq> AGREEMENT) \<and>
               list_all (\<lambda>j. case agreement_at st (i, j) of None \<Rightarrow> True | Some a \<Rightarrow> j = ev_flow e \<or> agr_state a = NO_AGREEMENT) [0..<8]))"

lemma last_agreement_list:
  "list_all (\<lambda>j. case agreement_at st (i, j) of None \<Rightarrow> True | Some a \<Rightarrow> j = k \<or> agr_state a = NO_AGREEMENT) [0..<8] = last_agreement st i k"
  by (fastforce simp: last_agreement_def list_all_iff split: option.splits)

lemma dequeue_tx_ok:
  assumes ok: "twt_ok {} st" and p: "p \<in> set (tx st)" and n: "\<not> ends_station st p"
  shows "\<exists>st' r. morse_twt_dequeue_tx env p st = Some (st', r) \<and> twt_ok {} st'"
proof -
  have l: "lists_ok {} st" using ok by (simp add: twt_ok_def)
  have "has response_ok st p" using ok p by (auto simp: twt_ok_def events_ok_def)
  then obtain e c d where e: "ev_heap st p = Some e" "response_ok e" "ev_flow e < 8" "ev_body e = Setup c (Some d)" by (auto simp: has_def response_ok_def)
  have "\<exists>x r. morse_twt_dequeue_tx_response env p st = Some (x, r) \<and> twt_ok {} x \<and> p \<in> set (tx x)"
  proof (cases "morse_twt_get_sta (ev_addr e) st")
    case None
    then show ?thesis using ok p e(1) by (simp add: morse_twt_dequeue_tx_response_def)
  next
    case (Some i)
    have s: "sta_at st i \<noteq> None" by (rule get_sta_at [OF Some])
    obtain a where a: "agreement_at st (i, ev_flow e) = Some a"
      using agreement_at_total [OF l s] e(3) by (auto simp: MORSE_TWT_AGREEMENTS_MAX_PER_STA_def)
    obtain x r where x: "morse_twt_enter_state_agreement i e st = Some (x, r)" "twt_ok {} x" "only_lists st x"
      using enter_agreement_ok [OF ok s e(2)] by blast
    obtain y r' where y: "morse_twt_enter_state_no_agreement env i e st = Some (y, r')" "twt_ok {} y"
        "\<not> last_agreement st i (ev_flow e) \<Longrightarrow> only_lists st y"
      using enter_no_agreement_ok [OF ok s e(3)] by blast
    have "only_lists st y" if "c = CMD_REJECT" "agr_state a \<noteq> NO_AGREEMENT" "agr_state a \<noteq> AGREEMENT"
      using n that e a Some by (intro y(3)) (simp add: ends_station_def last_agreement_list)
    then show ?thesis using Some e(1,4) a ok p x y
      by (auto simp: morse_twt_dequeue_tx_response_def morse_twt_enter_state_def only_lists_def)
  qed
  then obtain x r where x: "morse_twt_dequeue_tx_response env p st = Some (x, r)" "twt_ok {} x" "p \<in> set (tx x)" by blast
  show ?thesis using e(1,4) ok x(1) purge_tx [OF x(2,3)] purge_tx [OF ok p] by (simp add: morse_twt_dequeue_tx_def)
qed

lemma dequeue_tx_freed:
  assumes ok: "twt_ok {} st" and p: "p \<in> set (tx st)" and n: "ends_station st p" and on: "morse_twt_is_enabled st"
  shows "morse_twt_dequeue_tx env p st = None"
proof -
  have l: "lists_ok {} st" using ok by (simp add: twt_ok_def)
  obtain e i c d a where e: "ev_heap st p = Some e" "morse_twt_get_sta (ev_addr e) st = Some i" "ev_body e = Setup CMD_REJECT d"
      "agreement_at st (i, ev_flow e) = Some a" "agr_state a \<noteq> NO_AGREEMENT" "agr_state a \<noteq> AGREEMENT" "last_agreement st i (ev_flow e)"
    using n unfolding ends_station_def last_agreement_list by (auto split: option.splits event_body.splits)
  have "has response_ok st p" using ok p by (auto simp: twt_ok_def events_ok_def)
  then have f: "ev_flow e < 8" using e(1) by (auto simp: has_def response_ok_def)
  obtain s where s: "sta_at st i = Some s" "sta_addr s = ev_addr e" using get_sta_spec [OF l e(2)] by blast
  obtain x r where x: "morse_twt_enter_state_no_agreement env i e st = Some (x, r)" "ev_heap x p = None"
    using enter_no_agreement_ok [OF ok _ f, of i env] s e(1,7) p by fastforce
  have "considered CMD_REJECT = None" by (simp add: considered_def)
  then show ?thesis using on e(1-6) x
    by (simp add: morse_twt_dequeue_tx_def morse_twt_dequeue_tx_response_def morse_twt_enter_state_def morse_twt_purge_event_def)
qed

end
