(* ===== verification/Twt_Runs.thy ===== *)
theory Twt_Runs
  imports Twt_Calls
begin

text \<open>
  Runs of target wake time on an interface: every sequence of calls is defined and keeps the invariant, as long as memory can be
  allocated, frames are complete, and no association response carries a reject that ends its station.
\<close>

section \<open>Elements of association frames\<close>

lemma ie_body_ok: "ev_heap st p \<noteq> None \<Longrightarrow> ie_body p st \<noteq> None"
  by (auto simp: ie_body_def)

text \<open>The response that is to be sent to a station, if it is one that ends the station.\<close>

definition resp_ends_station :: "mac_addr \<Rightarrow> twt \<Rightarrow> bool" where
  "resp_ends_station dest st =
     (case morse_twt_peek_tx (Some dest) None st of Some (Some p) \<Rightarrow> ends_station st p | _ \<Rightarrow> False)"

lemma assoc_resp_ok:
  assumes ok: "twt_ok {} st" and n: "\<not> resp_ends_station dest st"
  shows "\<exists>st' b. assoc_resp_ie env dest st = Some (st', b) \<and> twt_ok {} st'"
proof -
  obtain r where r: "morse_twt_peek_tx (Some dest) None st = Some r" "\<forall>p. r = Some p \<longrightarrow> p \<in> set (tx st)" using peek_tx_ok [OF ok] by blast
  show ?thesis
  proof (cases r)
    case None
    then show ?thesis using ok r(1) by (simp add: assoc_resp_ie_def)
  next
    case (Some p)
    then have p: "p \<in> set (tx st)" "\<not> ends_station st p" using r n by (auto simp: resp_ends_station_def)
    obtain x r' where x: "morse_twt_dequeue_tx env p st = Some (x, r')" "twt_ok {} x" using dequeue_tx_ok [OF ok p] by blast
    have "ev_heap st p \<noteq> None" using ok p(1) by (auto simp: twt_ok_def events_ok_def has_def)
    then obtain b where "ie_body p st = Some b" using ie_body_ok by blast
    then show ?thesis using ok r(1) Some x by (cases b) (simp_all add: assoc_resp_ie_def)
  qed
qed

lemma assoc_req_ok:
  assumes "twt_ok {} st"
  shows "assoc_req_ie st \<noteq> None"
proof -
  have "ev_heap st p \<noteq> None" if "req_event_tx st = Some p" for p
    using assms that by (auto simp: twt_ok_def queued_def dest!: events_okD(2) [of _ _ p])
  then show ?thesis using ie_body_ok by (auto simp: assoc_req_ie_def split: option.splits)
qed

section \<open>Stations and the end of the interface\<close>

lemma handle_event_ok:
  assumes ok: "twt_ok {} st" and k: "\<And>n. t_kmalloc env n"
  shows "\<exists>st'. morse_twt_handle_event env addr st = Some st' \<and> twt_ok {} st' \<and>
    (morse_twt_is_enabled st \<longrightarrow> morse_twt_peek_event addr None st' = Some None)"
proof (cases "morse_twt_is_enabled st")
  case True
  obtain x L where "handle_walk env addr st = Some x" "twt_ok ({} \<union> L) x" "if L = {} then morse_twt_peek_event addr None x = Some None else \<exists>n. \<not> t_kmalloc env n"
    using handle_walk_ok [OF ok, of env addr] by (metis (no_types, lifting))
  then show ?thesis using True k by (auto simp: morse_twt_handle_event_def split: if_splits)
next
  case False
  then show ?thesis using ok by (simp add: morse_twt_handle_event_def)
qed

lemma event_purge_ok:
  assumes "twt_ok {} st"
  shows "\<exists>st'. morse_twt_event_queue_purge a st = Some st' \<and> twt_ok {} st'"
  using queue_purge_ok [OF assms, of "events st" a None] by (auto simp: morse_twt_event_queue_purge_def)

lemma sta_remove_addr_ok:
  assumes ok: "twt_ok {} st"
  shows "\<exists>st' r. morse_twt_sta_remove_addr env a st = Some (st', r) \<and> twt_ok {} st'"
proof (cases "morse_twt_get_sta a st")
  case None
  then show ?thesis using ok by (simp add: morse_twt_sta_remove_addr_def morse_twt_sta_remove_def)
next
  case (Some i)
  obtain s where "sta_at st i = Some s" using get_sta_at [OF Some] by blast
  then show ?thesis using Some ok sta_remove_ok [OF ok, of i s env] by (auto simp: morse_twt_sta_remove_addr_def)
qed

lemma sta_state_ok:
  assumes ok: "twt_ok {} st" and k: "\<And>n. t_kmalloc env n"
  shows "\<exists>st'. twt_sta_state env a old new n st = Some st' \<and> twt_ok {} st'"
proof -
  obtain x where x: "(if old < new \<and> STA_ASSOC \<le> new then morse_twt_handle_event env (Some a) st else Some st) = Some x" "twt_ok {} x"
    using handle_event_ok [OF ok k] ok by (metis (full_types))
  obtain y where y: "(if old < new \<and> new = STA_AUTHORIZED then morse_twt_process_pending_cmds env x else Some x) = Some y" "twt_ok {} y"
    using process_pending_ok [OF x(2) k] x(2) by (metis (full_types))
  obtain z' r where z': "morse_twt_sta_remove_addr env a y = Some (z', r)" "twt_ok {} z'" using sta_remove_addr_ok [OF y(2)] by blast
  obtain z where z: "(if STA_ASSOC \<le> old \<and> new < STA_ASSOC then map_option fst (morse_twt_sta_remove_addr env a y) else Some y) = Some z" "twt_ok {} z"
    using z' y(2) by (cases "STA_ASSOC \<le> old \<and> new < STA_ASSOC") auto
  show ?thesis using x(1) y(1) z event_purge_ok [OF z(2), of "Some a"] by (simp add: twt_sta_state_def)
qed

lemma sta_remove_list_ok:
  assumes "twt_ok {} st" "\<And>s. s \<in> set ss \<Longrightarrow> sta_at st (sta_id s) \<noteq> None" "distinct (map sta_id ss)"
  shows "\<exists>st'. ofold (\<lambda>s st. map_option fst (morse_twt_sta_remove env (Some (sta_id s)) st)) ss st = Some st' \<and> twt_ok {} st' \<and>
    stas st' = filter (\<lambda>s. sta_id s \<notin> sta_id ` set ss) (stas st)"
  using assms
proof (induction ss arbitrary: st)
  case (Cons s ss)
  obtain s' where "sta_at st (sta_id s) = Some s'" using Cons.prems(2) [of s] by auto
  from sta_remove_ok [OF Cons.prems(1) this, of env] obtain x where x: "morse_twt_sta_remove env (Some (sta_id s)) st = Some (x, 0)" "twt_ok {} x"
      "stas x = filter (\<lambda>t. sta_id t \<noteq> sta_id s) (stas st)" by blast
  have "sta_at x (sta_id t) \<noteq> None" if "t \<in> set ss" for t
  proof -
    have "sta_id t \<in> sta_id ` set ss" using that by (rule imageI)
    then have "sta_id t \<noteq> sta_id s" using Cons.prems(3) by auto
    then show ?thesis using Cons.prems(2) [of t] that by (simp add: sta_at_def x(3) find_filter_other)
  qed
  then obtain y where "ofold (\<lambda>s st. map_option fst (morse_twt_sta_remove env (Some (sta_id s)) st)) ss x = Some y" "twt_ok {} y"
      "stas y = filter (\<lambda>s. sta_id s \<notin> sta_id ` set ss) (stas x)"
    using Cons.IH [of x] x(2) Cons.prems(3) by auto
  then show ?case using x(1,3) by (auto intro!: filter_cong)
qed (simp add: filter_True)

lemma finish_vif_ok:
  assumes ok: "twt_ok {} st"
  shows "\<exists>st'. morse_twt_finish_vif env st = Some st' \<and> twt_ok {} st' \<and>
    (morse_twt_is_enabled st \<longrightarrow> stas st' = [] \<and> wake_intervals st' = [])"
proof (cases "morse_twt_is_enabled st")
  case True
  let ?st = "st\<lparr>work_scheduled := False, cmd_work_scheduled := False\<rparr>"
  have ok': "twt_ok {} ?st" using ok by simp
  have d: "distinct (map sta_id (stas ?st))" using ok by (simp add: twt_ok_def lists_ok_def)
  have at: "sta_at ?st (sta_id s) \<noteq> None" if "s \<in> set (stas ?st)" for s
    using that by (auto simp: sta_at_def find_None_iff)
  obtain x where x: "morse_twt_sta_remove_all env ?st = Some x" "twt_ok {} x" "stas x = filter (\<lambda>s. sta_id s \<notin> sta_id ` set (stas ?st)) (stas ?st)"
    using sta_remove_list_ok [OF ok' at d, of env] unfolding morse_twt_sta_remove_all_def by blast
  have empty: "stas x = []" using x(3) by (auto simp: filter_empty_conv)
  have l: "lists_ok {} x" using x(2) by (simp add: twt_ok_def)
  have "linked x = {}" using l empty by (fastforce simp: lists_ok_def linked_ok_def agreement_at_def sta_at_def)
  moreover have "[] \<notin> set (wake_intervals x)" using l by (simp add: lists_ok_def)
  ultimately have "wake_intervals x = []" by (cases "wake_intervals x") (auto simp: linked_def)
  then show ?thesis using True x(1,2) empty
    by (simp add: morse_twt_finish_vif_def morse_twt_tx_queue_purge_def morse_twt_to_install_queue_purge_def
        morse_twt_event_queue_purge_def morse_twt_queue_purge_def)
next
  case False
  then show ?thesis using ok by (simp add: morse_twt_finish_vif_def)
qed

section \<open>Runs\<close>

datatype twt_call =
  Rx_mgmt "u8 list" "ie_element option"
| Tx_finish "u8 list"
| Event_work
| Cmd_work
| User_cmd nat twt_conf
| Assoc_resp mac_addr
| Assoc_req
| Sta_state mac_addr nat nat nat
| Finish_vif

text \<open>A call, with what the code reads at that time.\<close>

fun twt_step :: "twt_env \<times> twt_call \<Rightarrow> twt \<Rightarrow> twt option" where
  "twt_step (env, Rx_mgmt f ie) st = map_option fst (morse_mac_process_rx_twt_mgmt env f ie st)"
| "twt_step (env, Tx_finish f) st = morse_mac_process_twt_action_tx_finish env f st"
| "twt_step (env, Event_work) st = morse_twt_handle_event_work env st"
| "twt_step (env, Cmd_work) st = morse_twt_handle_cmd_work env st"
| "twt_step (env, User_cmd v c) st = map_option fst (morse_process_twt_cmd env v c st)"
| "twt_step (env, Assoc_resp dest) st = map_option fst (assoc_resp_ie env dest st)"
| "twt_step (env, Assoc_req) st = map_option (\<lambda>_. st) (assoc_req_ie st)"
| "twt_step (env, Sta_state a old new n) st = twt_sta_state env a old new n st"
| "twt_step (env, Finish_vif) st = morse_twt_finish_vif env st"

fun twt_call_ok :: "twt_env \<times> twt_call \<Rightarrow> twt \<Rightarrow> bool" where
  "twt_call_ok (env, Rx_mgmt f ie) st = (frame_ok f \<and> element_ok ie)"
| "twt_call_ok (env, Tx_finish f) st = (27 \<le> length f)"
| "twt_call_ok (env, User_cmd v c) st = conf_ok c"
| "twt_call_ok (env, Assoc_resp dest) st = (\<not> resp_ends_station dest st)"
| "twt_call_ok (env, c) st = True"

definition never_fails :: "twt_env \<Rightarrow> bool" where
  "never_fails env \<longleftrightarrow> (\<forall>n. t_kmalloc env n)"

lemma twt_step_ok:
  assumes ok: "twt_ok {} st" and n: "never_fails (fst c)" and c: "twt_call_ok c st"
  shows "\<exists>st'. twt_step c st = Some st' \<and> twt_ok {} st'"
proof -
  obtain env x where x: "c = (env, x)" by (cases c)
  have k: "t_kmalloc env m" for m using n x by (simp add: never_fails_def)
  note c = c [unfolded x]
  show ?thesis
  proof (cases x)
    case (Rx_mgmt f ie)
    then show ?thesis using c rx_ok [OF ok k, of ie f] by (auto simp: x)
  next
    case (Tx_finish f)
    then show ?thesis using c tx_finish_ok [OF ok k, of f] by (auto simp: x)
  next
    case Event_work
    then show ?thesis using handle_event_ok [of "st\<lparr>work_scheduled := False\<rparr>" env None] ok k
      by (auto simp: x morse_twt_handle_event_work_def)
  next
    case Cmd_work
    then show ?thesis using process_pending_ok [of "st\<lparr>cmd_work_scheduled := False\<rparr>" env] ok k
      by (auto simp: x morse_twt_handle_cmd_work_def)
  next
    case (User_cmd v d)
    then show ?thesis using c user_cmd_ok [OF ok k, of d v] by (auto simp: x)
  next
    case (Assoc_resp dest)
    then show ?thesis using c assoc_resp_ok [OF ok, of dest env] by (auto simp: x)
  next
    case Assoc_req
    then show ?thesis using assoc_req_ok [OF ok] ok by (auto simp: x)
  next
    case (Sta_state a old new m)
    then show ?thesis using sta_state_ok [OF ok k, of a old new m] by (auto simp: x)
  next
    case Finish_vif
    then show ?thesis using finish_vif_ok [OF ok, of env] by (auto simp: x)
  qed
qed

definition twt_call_allowed :: "twt_env \<times> twt_call \<Rightarrow> twt \<Rightarrow> bool" where
  "twt_call_allowed c st \<longleftrightarrow> never_fails (fst c) \<and> twt_call_ok c st"

interpretation twt_calls: step_system twt_step "twt_ok {}" twt_call_allowed
  by unfold_locales (simp add: twt_step_ok twt_call_allowed_def)

lemma all_allowed:
  "(\<forall>c \<in> set cs. never_fails (fst c)) \<Longrightarrow> all_ok twt_step twt_call_ok cs st \<Longrightarrow> all_ok twt_step twt_call_allowed cs st"
  by (induction cs arbitrary: st) (auto simp: twt_call_allowed_def split: option.splits)

section \<open>The start of an interface\<close>

definition zero_twt :: twt where
  "zero_twt =
     \<lparr>ev_heap = (\<lambda>_. None), stas = [], wake_intervals = [], events = [], tx = [], req_event_tx = None, requester = False, responder = False,
      next_dialog_token = 0, active_agreements = 0, to_install = [], install_ready = False, work_scheduled = False,
      cmd_work_scheduled = False, allocs = 0, sent = [], fw_log = []\<rparr>"

lemma init_ok:
  assumes "morse_twt_is_enabled (morse_twt_init_vif enable ty cap_resp cap_req ps offload monitor zero_twt)"
  shows "twt_ok {} (morse_twt_init_vif enable ty cap_resp cap_req ps offload monitor zero_twt)"
proof -
  have "twt_ok {} (zero_twt\<lparr>install_ready := True\<rparr>)"
    by (simp add: twt_ok_def lists_ok_def events_ok_def queued_def linked_def zero_twt_def)
  from twt_ok_same [OF this] show ?thesis using assms
    by (auto simp: morse_twt_init_vif_def Let_def same_parts_def morse_twt_is_enabled_def zero_twt_def split: iftype.splits if_splits)
qed

lemma runs_safe:
  assumes "st\<^sub>0 = morse_twt_init_vif enable ty cap_resp cap_req ps offload monitor zero_twt" "morse_twt_is_enabled st\<^sub>0"
    and "\<forall>c \<in> set cs. never_fails (fst c)" "all_ok twt_step twt_call_ok cs st\<^sub>0"
  shows "\<exists>st. ofold twt_step cs st\<^sub>0 = Some st \<and> twt_ok {} st"
  using twt_calls.run_ok [OF _ all_allowed [OF assms(3,4)]] init_ok assms(1,2) by simp

end
