(* ===== verification/Twt_Slots.thy ===== *)
theory Twt_Slots
  imports Twt_Lists
begin

text \<open>
  The wake times that the responder allots: in each list the agreements have the same interval and their service periods do not
  overlap, and the lists are in the order of their intervals.
\<close>

section \<open>Service periods\<close>

definition interval_at :: "twt \<Rightarrow> agr_ref \<Rightarrow> nat" where
  "interval_at st r = (case agreement_at st r of None \<Rightarrow> 0 | Some a \<Rightarrow> unat (wake_interval_us (agr_data a)))"

definition period_at :: "twt \<Rightarrow> agr_ref \<Rightarrow> nat \<times> nat" where
  "period_at st r =
     (case agreement_at st r of None \<Rightarrow> (0, 0) | Some a \<Rightarrow> (unat (wake_time_us (agr_data a)), unat (wake_duration_us (agr_data a))))"

text \<open>Periods one after the other, from \<open>s\<close> on, that start and end in an interval.\<close>

fun laid_out :: "nat \<Rightarrow> nat \<Rightarrow> (nat \<times> nat) list \<Rightarrow> bool" where
  "laid_out s i [] = (s \<le> i)"
| "laid_out s i ((t, d) # ps) = (s \<le> t \<and> t < i \<and> laid_out (t + d) i ps)"

definition list_ok :: "twt \<Rightarrow> agr_ref list \<Rightarrow> bool" where
  "list_ok st l \<longleftrightarrow> (\<forall>r \<in> set l. interval_at st r = interval_at st (hd l)) \<and> laid_out 0 (interval_at st (hd l)) (map (period_at st) l)"

definition slots_ok :: "twt \<Rightarrow> bool" where
  "slots_ok st \<longleftrightarrow>
     (\<forall>l \<in> set (wake_intervals st). list_ok st l) \<and> sorted_wrt (<) (map (\<lambda>l. interval_at st (hd l)) (wake_intervals st))"

lemma laid_out_start: "laid_out s i ps \<Longrightarrow> s \<le> i"
  by (induction s i ps rule: laid_out.induct) auto

lemma insert_at_Suc: "insert_at (Suc j) x (y # ys) = y # insert_at j x ys"
  by (simp add: insert_at_def)

lemma unat_u32_u64: "unat (ucast (d :: u32) :: u64) = unat d"
proof -
  have "unat d < 2 ^ 32" using unsigned_less [of d] by simp
  then show ?thesis by (simp add: unsigned_ucast_eq take_bit_nat_eq_self)
qed

lemma unat_period_end:
  assumes "unat (t :: u64) + unat (d :: u32) < 2 ^ 64"
  shows "unat (t + ucast d) = unat t + unat d"
  using assms by (simp add: unat_word_ariths unat_u32_u64)

lemma fit_slots:
  assumes "l \<noteq> []" "\<And>r. r \<in> set l \<Longrightarrow> agreement_at st r \<noteq> None \<and> interval_at st r = i" "laid_out s i (map (period_at st) l)" "0 < i"
  shows "\<exists>j t. fit_walk st d k l = Some (Inr (k + j, t)) \<and> 0 < j \<and> j \<le> length l \<and>
    (unat t < i \<and> unat t + unat d \<le> i \<longrightarrow> laid_out s i (insert_at j (unat t, unat d) (map (period_at st) l)))"
  using assms(1-3)
proof (induction l arbitrary: k s)
  case (Cons r l)
  obtain a where a: "agreement_at st r = Some a" using Cons.prems(2) [of r] by auto
  let ?t = "wake_time_us (agr_data a)" and ?d = "wake_duration_us (agr_data a)"
  have i: "unat (wake_interval_us (agr_data a)) = i" using Cons.prems(2) [of r] a by (simp add: interval_at_def)
  have "unat (wake_interval_us (agr_data a)) < 2 ^ 64" using unsigned_less [of "wake_interval_us (agr_data a)"] by simp
  then have i64: "i < 2 ^ 64" using i by simp
  have p: "period_at st r = (unat ?t, unat ?d)" by (simp add: period_at_def a)
  have lay: "s \<le> unat ?t" "unat ?t < i" "laid_out (unat ?t + unat ?d) i (map (period_at st) l)" using Cons.prems(3) p by auto
  have "unat ?t + unat ?d < 2 ^ 64" using laid_out_start [OF lay(3)] i64 by simp
  then have e: "unat (?t + ucast ?d) = unat ?t + unat ?d" by (rule unat_period_end)
  show ?case
  proof (cases l)
    case Nil
    then show ?thesis using a lay p e by (auto simp: insert_at_def intro!: exI [of _ "?t + ucast ?d"])
  next
    case (Cons r' rs)
    obtain b where b: "agreement_at st r' = Some b" using Cons.prems(2) [of r'] Cons by auto
    let ?t' = "wake_time_us (agr_data b)"
    have i': "unat (wake_interval_us (agr_data b)) = i" using Cons.prems(2) [of r'] b Cons by (simp add: interval_at_def)
    have lay': "unat ?t + unat ?d \<le> unat ?t'" "unat ?t' < i" using lay(3) by (auto simp: Cons period_at_def b)
    have i0: "wake_interval_us (agr_data a) \<noteq> 0" "wake_interval_us (agr_data b) \<noteq> 0" using i i' assms(4) by auto
    have m: "?t mod wake_interval_us (agr_data a) = ?t" "?t' mod wake_interval_us (agr_data b) = ?t'"
      using lay(2) lay'(2) i i' by (simp_all add: word_arith_nat_mod)
    have "\<not> ?t' < ?t" using lay'(1) by (simp add: word_less_nat_alt)
    then have walk: "fit_walk st d k (r # l) =
        (if ucast d \<le> ?t' - (?t + ucast ?d) then Some (Inr (k + 1, ?t + ucast ?d)) else fit_walk st d (k + 1) l)"
      using a b i0 m Cons by (simp add: rem64_def Let_def)
    have gap: "unat (?t' - (?t + ucast ?d)) = unat ?t' - (unat ?t + unat ?d)"
      using lay'(1) e by (simp add: unat_sub word_le_nat_alt)
    show ?thesis
    proof (cases "ucast d \<le> ?t' - (?t + ucast ?d)")
      case True
      then have "unat d \<le> unat ?t' - (unat ?t + unat ?d)" by (simp add: word_le_nat_alt gap unat_u32_u64)
      then have "laid_out (unat ?t + unat ?d + unat d) i (map (period_at st) l)" using lay(3) lay'(1) by (simp add: Cons period_at_def b)
      then show ?thesis using walk True lay p e
        by (auto simp: insert_at_def intro!: exI [of _ 1] exI [of _ "?t + ucast ?d"])
    next
      case False
      have "\<exists>j t. fit_walk st d (k + 1) l = Some (Inr (k + 1 + j, t)) \<and> 0 < j \<and> j \<le> length l \<and>
          (unat t < i \<and> unat t + unat d \<le> i \<longrightarrow> laid_out (unat ?t + unat ?d) i (insert_at j (unat t, unat d) (map (period_at st) l)))"
        using Cons Cons.prems lay(3) by (intro Cons.IH) auto
      then obtain j t where j: "fit_walk st d (k + 1) l = Some (Inr (k + Suc j, t))" "j \<le> length l"
          "unat t < i \<and> unat t + unat d \<le> i \<longrightarrow> laid_out (unat ?t + unat ?d) i (insert_at j (unat t, unat d) (map (period_at st) l))"
        by auto
      then show ?thesis using walk False lay(1,2) p
        by (intro exI [of _ "Suc j"] exI [of _ t]) (simp add: insert_at_Suc)
    qed
  qed
qed simp

section \<open>The list of an interval\<close>

abbreviation key :: "twt \<Rightarrow> agr_ref list \<Rightarrow> nat" where
  "key st l \<equiv> interval_at st (hd l)"

text \<open>The list that was found has the interval, or it is new, and at its place in the order.\<close>

definition right_list :: "twt \<Rightarrow> u64 \<Rightarrow> twt \<Rightarrow> nat \<Rightarrow> bool" where
  "right_list st i st1 w \<longleftrightarrow>
     wake_intervals st1 = wake_intervals st \<and> w < length (wake_intervals st) \<and> key st (wake_intervals st ! w) = unat i \<or>
     w \<le> length (wake_intervals st) \<and> wake_intervals st1 = insert_at w [] (wake_intervals st) \<and>
       (\<forall>l \<in> set (take w (wake_intervals st)). key st l < unat i) \<and> (\<forall>l \<in> set (drop w (wake_intervals st)). unat i < key st l)"

lemma right_list_new:
  assumes "new_list env w st = (st1, Some w')" "w \<le> length (wake_intervals st)"
    "\<forall>l \<in> set (take w (wake_intervals st)). key st l < unat i" "\<forall>l \<in> set (drop w (wake_intervals st)). unat i < key st l"
  shows "right_list st i st1 w'"
  using assms by (auto simp: new_list_def kmalloc_def insert_list_def insert_at_def right_list_def split: if_splits)

lemma interval_walk_right:
  assumes "interval_walk env i k ws st = Some (st1, Some w)" "ws = drop k (wake_intervals st)" "ws \<noteq> []"
    "sorted_wrt (<) (map (key st) ws)" "\<forall>l \<in> set (take k (wake_intervals st)). key st l < unat i"
  shows "right_list st i st1 w"
  using assms
proof (induction ws arbitrary: k)
  case (Cons l ls)
  have k: "k < length (wake_intervals st)" using Cons.prems(2) by (metis drop_eq_Nil2 linorder_not_le list.distinct(1))
  have nth: "wake_intervals st ! k = l" "drop (k + 1) (wake_intervals st) = ls" using Cons.prems(2) k by (metis Cons_nth_drop_Suc Suc_eq_plus1 list.inject)+
  obtain r rs where l: "l = r # rs" using Cons.prems(1) by (cases l) auto
  obtain a where a: "agreement_at st r = Some a" using Cons.prems(1) l by (auto split: Option.bind_splits)
  let ?j = "wake_interval_us (agr_data a)"
  have j: "key st l = unat ?j" by (simp add: l interval_at_def a)
  have walk: "(if ?j = i then Some (st, Some k) else if i < ?j then Some (new_list env k st)
      else if ls = [] then Some (new_list env (k + 1) st) else interval_walk env i (k + 1) ls st) = Some (st1, Some w)"
    using Cons.prems(1) a by (simp add: l Let_def)
  have take: "take (k + 1) (wake_intervals st) = take k (wake_intervals st) @ [l]" using k nth(1) by (simp add: take_Suc_conv_app_nth)
  consider "?j = i" | "i < ?j" | "?j < i" by force
  then show ?case
  proof cases
    case 1
    then show ?thesis using walk k j nth by (auto simp: right_list_def)
  next
    case 2
    then have "\<forall>m \<in> set (l # ls). unat i < key st m"
      using Cons.prems(4) j by (auto simp: word_less_nat_alt)
    moreover have "new_list env k st = (st1, Some w)" using walk 2 by (auto split: if_splits)
    ultimately show ?thesis using k Cons.prems(2,5) by (auto intro: right_list_new)
  next
    case 3
    then have before: "\<forall>m \<in> set (take (k + 1) (wake_intervals st)). key st m < unat i"
      using Cons.prems(5) j unfolding take by (auto simp: word_less_nat_alt)
    show ?thesis
    proof (cases "ls = []")
      case True
      then have "new_list env (k + 1) st = (st1, Some w)" using walk 3 by (auto split: if_splits)
      then show ?thesis using before k nth(2) True by (intro right_list_new [of env "k + 1"]) auto
    next
      case False
      then have "interval_walk env i (k + 1) ls st = Some (st1, Some w)" using walk 3 by (auto split: if_splits)
      then show ?thesis using Cons.prems(4) False before nth(2) by (intro Cons.IH [of "k + 1"]) auto
    qed
  qed
qed simp

lemma wake_interval_get_right:
  assumes "morse_twt_agreement_wake_interval_get env i st = Some (st1, Some w)" "sorted_wrt (<) (map (key st) (wake_intervals st))"
  shows "right_list st i st1 w"
proof (cases "wake_intervals st = []")
  case True
  then have "new_list env 0 st = (st1, Some w)" using assms(1) by (simp add: morse_twt_agreement_wake_interval_get_def)
  then show ?thesis using True by (intro right_list_new) auto
next
  case False
  then show ?thesis using assms by (intro interval_walk_right [of env i 0]) (auto simp: morse_twt_agreement_wake_interval_get_def)
qed

section \<open>Adding an agreement\<close>

lemma same_list:
  assumes "\<And>r. r \<in> set l \<Longrightarrow> agreement_at st' r = agreement_at st r" "l \<noteq> []"
  shows "list_ok st' l = list_ok st l" "key st' l = key st l"
proof -
  have i: "interval_at st' r = interval_at st r" "period_at st' r = period_at st r" if "r \<in> set l" for r
    using assms(1) [OF that] by (simp_all add: interval_at_def period_at_def)
  then show k: "key st' l = key st l" using assms(2) by simp
  have "map (period_at st') l = map (period_at st) l" using i(2) by (intro map_cong refl)
  moreover have "(\<forall>r \<in> set l. interval_at st' r = key st l) = (\<forall>r \<in> set l. interval_at st r = key st l)" using i(1) by simp
  ultimately show "list_ok st' l = list_ok st l" unfolding list_ok_def k by (simp only:)
qed

lemma sorted_insert_at:
  assumes "sorted_wrt (<) xs" "\<forall>y \<in> set (take w xs). y < (x :: nat)" "\<forall>y \<in> set (drop w xs). x < y"
  shows "sorted_wrt (<) (insert_at w x xs)"
proof -
  have "sorted_wrt (<) (take w xs)" "sorted_wrt (<) (drop w xs)" using assms(1) by (auto intro: sorted_wrt_take sorted_wrt_drop)
  moreover have "\<forall>a \<in> set (take w xs). \<forall>b \<in> set (drop w xs). a < b" using assms(2,3) by fastforce
  ultimately show ?thesis using assms(2,3) by (auto simp: insert_at_def sorted_wrt_append)
qed

lemma map_insert_at: "map f (insert_at w x xs) = insert_at w (f x) (map f xs)"
  by (simp add: insert_at_def take_map drop_map)

lemma insert_at_update: "w \<le> length xs \<Longrightarrow> (insert_at w x xs)[w := y] = insert_at w y xs"
  by (simp add: insert_at_def list_update_append)

lemma insert_at_nth: "w \<le> length xs \<Longrightarrow> insert_at w x xs ! w = x"
  by (simp add: insert_at_def nth_append)

lemma slots_link:
  assumes ok: "slots_ok st" "[] \<notin> set (wake_intervals st)" and right: "right_list st i st1 w" and r: "r \<notin> linked st"
    and ws: "wake_intervals st3 = (wake_intervals st1)[w := l]" and other: "\<And>r'. r' \<noteq> r \<Longrightarrow> agreement_at st3 r' = agreement_at st r'"
    and l: "list_ok st3 l" "key st3 l = unat i"
  shows "slots_ok st3"
proof -
  let ?ws = "wake_intervals st"
  have old: "list_ok st3 m = list_ok st m" "key st3 m = key st m" if "m \<in> set ?ws" for m
  proof -
    have "r \<notin> set m" using r that by (auto simp: linked_def)
    then have "\<And>r'. r' \<in> set m \<Longrightarrow> agreement_at st3 r' = agreement_at st r'" using other by metis
    moreover have "m \<noteq> []" using ok(2) that by auto
    ultimately show "list_ok st3 m = list_ok st m" "key st3 m = key st m" using same_list by blast+
  qed
  then have keys: "map (key st3) ?ws = map (key st) ?ws" by simp
  have sorted: "sorted_wrt (<) (map (key st) ?ws)" and lists: "\<forall>m \<in> set ?ws. list_ok st3 m" using ok(1) old(1) by (auto simp: slots_ok_def)
  from right show ?thesis unfolding right_list_def
  proof (elim disjE conjE)
    assume w: "wake_intervals st1 = ?ws" "w < length ?ws" "key st (?ws ! w) = unat i"
    have "\<forall>m \<in> set (wake_intervals st3). list_ok st3 m" using lists l(1) set_update_subset_insert [of ?ws w l] ws w(1) by auto
    moreover have "map (key st3) (?ws[w := l]) = map (key st) ?ws" unfolding map_update keys l(2) using w(2,3) by (simp add: list_update_same_conv)
    ultimately show ?thesis using sorted ws w(1) by (simp add: slots_ok_def)
  next
    assume w: "w \<le> length ?ws" "wake_intervals st1 = insert_at w [] ?ws" "\<forall>m \<in> set (take w ?ws). key st m < unat i"
      "\<forall>m \<in> set (drop w ?ws). unat i < key st m"
    have ws3: "wake_intervals st3 = insert_at w l ?ws" using ws w(1,2) by (simp add: insert_at_update)
    have "\<forall>m \<in> set (wake_intervals st3). list_ok st3 m" using lists l(1) by (auto simp: ws3 set_insert_at)
    moreover have "sorted_wrt (<) (map (key st3) (wake_intervals st3))"
      unfolding ws3 map_insert_at l(2) keys using sorted w(3,4) by (intro sorted_insert_at) (auto simp: take_map drop_map)
    ultimately show ?thesis by (simp add: slots_ok_def)
  qed
qed

lemma link_lists: "link_agreement w k r st = Some st' \<Longrightarrow> wake_intervals st' = (wake_intervals st)[w := insert_at k r (wake_intervals st ! w)]"
  by (auto simp: link_agreement_def upd_opt_def split: if_splits)

lemma set_time_lists: "set_wake_time r t st = Some st' \<Longrightarrow> wake_intervals st' = wake_intervals st"
  by (auto simp: set_wake_time_def upd_agreement_def upd_sta_def split: Option.bind_splits)

definition in_interval :: "agreement_data \<Rightarrow> bool" where
  "in_interval d \<longleftrightarrow> unat (wake_time_us d) < unat (wake_interval_us d) \<and> unat (wake_time_us d) + unat (wake_duration_us d) \<le> unat (wake_interval_us d)"

lemma insert_list_ok:
  assumes r: "r \<notin> set l" and other: "\<And>r'. r' \<noteq> r \<Longrightarrow> agreement_at st3 r' = agreement_at st r'"
    and l: "\<And>r. r \<in> set l \<Longrightarrow> interval_at st r = i" and i: "interval_at st3 r = i"
    and lay: "laid_out 0 i (insert_at j (period_at st3 r) (map (period_at st) l))"
  shows "list_ok st3 (insert_at j r l)" "key st3 (insert_at j r l) = i"
proof -
  have same: "interval_at st3 r' = interval_at st r'" "period_at st3 r' = period_at st r'" if "r' \<in> set l" for r'
  proof -
    have "agreement_at st3 r' = agreement_at st r'" using that r by (intro other) auto
    then show "interval_at st3 r' = interval_at st r'" "period_at st3 r' = period_at st r'" by (simp_all add: interval_at_def period_at_def)
  qed
  have all: "interval_at st3 r' = i" if "r' \<in> set (insert_at j r l)" for r'
    using that same(1) [of r'] l [of r'] i unfolding set_insert_at by (metis insert_iff)
  have "hd (insert_at j r l) \<in> set (insert_at j r l)" by (rule hd_in_set) (simp add: insert_at_def)
  then show k: "key st3 (insert_at j r l) = i" by (rule all)
  have eq: "map (period_at st3) l = map (period_at st) l" using same(2) by (intro map_cong refl)
  show "list_ok st3 (insert_at j r l)" unfolding list_ok_def map_insert_at k eq using lay all by blast
qed

text \<open>
  The end of \<open>morse_twt_agreement_wake_interval_add\<close> for an agreement that is not a demand: the wake time, and the place in the list.
\<close>

definition placed :: "twt \<Rightarrow> nat \<Rightarrow> u32 \<Rightarrow> nat \<Rightarrow> u64 \<Rightarrow> bool" where
  "placed st1 w dur j t \<longleftrightarrow>
     (if wake_intervals st1 ! w = [] then j = 0 \<and> t = 0 else fit_walk st1 dur 0 (wake_intervals st1 ! w) = Some (Inr (j, t)))"

lemma placed_laid_out:
  assumes ok: "lists_ok {} st" "slots_ok st" and found: "list_found st st1 (Some w)" and right: "right_list st i st1 w" and i: "0 < unat i"
    and p: "placed st1 w dur j t" "unat t < unat i" "unat t + unat dur \<le> unat i"
  shows "\<forall>r \<in> set (wake_intervals st1 ! w). interval_at st r = unat i"
    "laid_out 0 (unat i) (insert_at j (unat t, unat dur) (map (period_at st) (wake_intervals st1 ! w)))"
proof -
  let ?l = "wake_intervals st1 ! w"
  have "(\<forall>r \<in> set ?l. interval_at st r = unat i) \<and> laid_out 0 (unat i) (insert_at j (unat t, unat dur) (map (period_at st) ?l))"
  proof (cases "?l = []")
    case True
    then show ?thesis using p by (simp add: placed_def insert_at_def)
  next
    case False
    then have "?l \<in> set (wake_intervals st)" "key st ?l = unat i"
      using right by (auto simp: right_list_def insert_at_nth)
    then have l: "\<forall>r \<in> set ?l. interval_at st r = unat i" "laid_out 0 (unat i) (map (period_at st) ?l)" "\<forall>r \<in> set ?l. linked_ok st r"
      using ok by (auto simp: slots_ok_def list_ok_def lists_ok_def linked_def)
    have at1: "agreement_at st1 r = agreement_at st r" for r using found by (auto simp: list_found_def)
    then have same: "interval_at st1 = interval_at st" "period_at st1 = period_at st" by (simp_all add: interval_at_def period_at_def fun_eq_iff)
    have "agreement_at st1 r \<noteq> None \<and> interval_at st1 r = unat i" if "r \<in> set ?l" for r
      using that l(1,3) at1 same(1) by (auto simp: linked_ok_def)
    from fit_slots [OF False this, of 0 dur 0] show ?thesis using l p False i unfolding same placed_def by auto
  qed
  then show "\<forall>r \<in> set ?l. interval_at st r = unat i" "laid_out 0 (unat i) (insert_at j (unat t, unat dur) (map (period_at st) ?l))" by blast+
qed

lemma wake_interval_add_slots:
  assumes ok: "lists_ok {} st" "slots_ok st" and at: "agreement_at st r = Some a" and r: "r \<notin> linked st"
    and a: "agr_state a \<noteq> NO_AGREEMENT" "agr_state a \<noteq> AGREEMENT" "wake_interval_us (agr_data a) \<noteq> 0"
      "morse_twt_get_command (req_type (params (agr_data a))) \<noteq> CMD_DEMAND"
  shows "\<exists>st' ret b. morse_twt_agreement_wake_interval_add env r st = Some (st', ret) \<and> agreement_at st' r = Some b \<and>
    (if ret = 0 then linked st' = insert r (linked st) \<and> (in_interval (agr_data b) \<longrightarrow> slots_ok st')
     else wake_intervals st' = wake_intervals st)"
proof -
  let ?i = "wake_interval_us (agr_data a)" and ?dur = "wake_duration_us (agr_data a)"
  have nonempty: "[] \<notin> set (wake_intervals st)" using ok(1) by (simp add: lists_ok_def)
  have pos: "0 < unat ?i" using a(3) by (simp add: unat_gt_0)
  obtain st1 wi where get: "morse_twt_agreement_wake_interval_get env ?i st = Some (st1, wi)" and found: "list_found st st1 wi"
    using wake_interval_get_found [OF ok(1)] by blast
  show ?thesis
  proof (cases wi)
    case None
    have "agreement_at st1 r = Some a" "wake_intervals st1 = wake_intervals st" using found None at by (auto simp: list_found_def)
    then show ?thesis using at a get None by (simp add: morse_twt_agreement_wake_interval_add_def EINVAL_def)
  next
    case (Some w)
    note found = found [unfolded Some]
    have right: "right_list st ?i st1 w" using wake_interval_get_right get ok(2) unfolding Some slots_ok_def by blast
    let ?l = "wake_intervals st1 ! w"
    have conc: "concat (wake_intervals st1) = concat (wake_intervals st)" and w: "w < length (wake_intervals st1)" using list_found_concat [OF found] by auto
    have sub: "set ?l \<subseteq> linked st" using nth_mem [OF w] unfolding linked_def conc [symmetric] by auto
    then have rl: "r \<notin> set ?l" using r by blast
    have "linked_ok st1 = linked_ok st" using found by (auto simp: list_found_def linked_ok_def fun_eq_iff)
    then have "\<forall>r' \<in> set ?l. linked_ok st1 r'" using ok(1) sub by (auto simp: lists_ok_def)
    then have "\<exists>j t. placed st1 w ?dur j t"
      using fit_walk_place [of ?l st1 ?dur 0] by (cases "?l = []") (auto simp: placed_def)
    then obtain j t where p: "placed st1 w ?dur j t" by blast
    obtain st2 st3 where l: "set_wake_time r t st1 = Some st2" "link_agreement w j r st2 = Some st3"
        "agreement_at st3 r = Some (a\<lparr>agr_data := (agr_data a)\<lparr>wake_time_us := t\<rparr>\<rparr>)"
        "\<forall>r'. r' \<noteq> r \<longrightarrow> agreement_at st3 r' = agreement_at st r'" "linked st3 = insert r (linked st)"
      using set_time_link [OF ok(1) at a(1,3) r found, of t j] by blast
    have add: "morse_twt_agreement_wake_interval_add env r st = Some (st3, 0)"
      using l(1,2) p w a at get Some by (auto simp: morse_twt_agreement_wake_interval_add_def placed_def split: if_splits)
    have ws: "wake_intervals st3 = (wake_intervals st1)[w := insert_at j r ?l]" using link_lists [OF l(2)] set_time_lists [OF l(1)] by simp
    have "slots_ok st3" if fits: "in_interval ((agr_data a)\<lparr>wake_time_us := t\<rparr>)"
    proof -
      have "unat t < unat ?i" "unat t + unat ?dur \<le> unat ?i" using fits by (simp_all add: in_interval_def)
      note lay = placed_laid_out [OF ok found right pos p this]
      have "interval_at st3 r = unat ?i" "period_at st3 r = (unat t, unat ?dur)" by (simp_all add: interval_at_def period_at_def l(3))
      with insert_list_ok [OF rl _ _ , of st3 st "unat ?i" j] lay l(4)
      have "list_ok st3 (insert_at j r ?l)" "key st3 (insert_at j r ?l) = unat ?i" by auto
      then show ?thesis using slots_link [OF ok(2) nonempty right r ws] l(4) by auto
    qed
    then show ?thesis using add l(3,5) by auto
  qed
qed

section \<open>Removing an agreement\<close>

lemma laid_out_earlier: "laid_out s i ps \<Longrightarrow> s' \<le> s \<Longrightarrow> laid_out s' i ps"
  by (cases ps) (auto simp: split: prod.splits)

lemma laid_out_removeAll: "laid_out s i (map f l) \<Longrightarrow> laid_out s i (map f (removeAll r l))"
proof (induction l arbitrary: s)
  case (Cons x l)
  obtain t d where f: "f x = (t, d)" by fastforce
  with Cons have "laid_out (t + d) i (map f (removeAll r l))" "s \<le> t" "t < i" by auto
  then show ?case using f laid_out_earlier [of "t + d" i _ s] by auto
qed simp

lemma list_ok_removeAll:
  assumes "list_ok st l" "removeAll r l \<noteq> []"
  shows "list_ok st (removeAll r l)" "key st (removeAll r l) = key st l"
proof -
  have "hd (removeAll r l) \<in> set l" using hd_in_set [OF assms(2)] by auto
  then show k: "key st (removeAll r l) = key st l" using assms(1) by (simp add: list_ok_def)
  show "list_ok st (removeAll r l)" using assms(1) laid_out_removeAll k by (auto simp: list_ok_def)
qed

lemma unlink_slots:
  assumes "\<forall>l \<in> set ws. list_ok st l" "sorted_wrt (<) (map (key st) ws)"
  shows "(\<forall>l \<in> set (unlink_agreement r ws). list_ok st l) \<and> sorted_wrt (<) (map (key st) (unlink_agreement r ws)) \<and>
    key st ` set (unlink_agreement r ws) \<subseteq> key st ` set ws"
  using assms
proof (induction ws)
  case (Cons l ws)
  show ?case
  proof (cases "r \<in> set l \<and> removeAll r l \<noteq> []")
    case True
    with list_ok_removeAll [of st l r] Cons.prems show ?thesis by auto
  next
    case False
    with Cons show ?thesis by (auto 0 4)
  qed
qed simp

lemma agreement_remove_slots:
  assumes "slots_ok st" "morse_twt_agreement_remove r st = Some st'"
  shows "slots_ok st'"
proof -
  have st': "st' = st\<lparr>wake_intervals := unlink_agreement r (wake_intervals st)\<rparr>"
    using assms(2) by (auto simp: morse_twt_agreement_remove_def split: Option.bind_splits)
  have eq: "interval_at st' = interval_at st" "period_at st' = period_at st" by (simp_all add: st' interval_at_def period_at_def fun_eq_iff)
  have "list_ok st' l = list_ok st l" for l unfolding list_ok_def eq by (rule refl)
  moreover have "wake_intervals st' = unlink_agreement r (wake_intervals st)" by (simp add: st')
  ultimately show ?thesis using unlink_slots [of "wake_intervals st" st r] assms(1) unfolding slots_ok_def eq by simp
qed

end
