(* ===== verification/Twt_Accept.thy ===== *)
theory Twt_Accept
  imports Twt_Runs Twt_Slots
begin

text \<open>
  What accepting a request does: the agreement is considered, gets its place in the lists and its wake time, and the accept
  is queued for the association response or sent as an action frame.
\<close>

section \<open>The parts of an accept\<close>

text \<open>The agreement under consideration, with the data of the request, before a wake time is allotted.\<close>

definition considering :: "nat \<Rightarrow> nat \<Rightarrow> twt_state \<Rightarrow> agreement_data \<Rightarrow> twt \<Rightarrow> twt option" where
  "considering i flow s d st = Option.bind (set_agr_state i flow s st) (upd_agreement (i, flow) (\<lambda>a. a\<lparr>agr_data := d\<rparr>))"

lemma enter_agreement_effect:
  assumes "agreement_at st (i, ev_flow e) = Some a" "ev_flow e < 8" "ev_body e = Setup c (Some d)"
  shows "\<exists>xs. morse_twt_enter_state_agreement i e st = Some (st\<lparr>stas := xs\<rparr>, 0) \<and>
    agreement_at (st\<lparr>stas := xs\<rparr>) (i, ev_flow e) = Some \<lparr>agr_state = AGREEMENT, agr_data = d\<rparr>"
proof -
  let ?r = "(i, ev_flow e)"
  obtain xs where x: "set_agr_state i (ev_flow e) AGREEMENT st = Some (st\<lparr>stas := xs\<rparr>)"
      "agreement_at (st\<lparr>stas := xs\<rparr>) ?r = Some (a\<lparr>agr_state := AGREEMENT\<rparr>)"
    using upd_agreement_at [OF assms(1), of "\<lambda>a. a\<lparr>agr_state := AGREEMENT\<rparr>"] by (auto simp: set_agr_state_def)
  obtain ys where y: "upd_agreement ?r (\<lambda>a. a\<lparr>agr_data := d\<rparr>) (st\<lparr>stas := xs\<rparr>) = Some (st\<lparr>stas := ys\<rparr>)"
      "agreement_at (st\<lparr>stas := ys\<rparr>) ?r = Some (a\<lparr>agr_state := AGREEMENT, agr_data := d\<rparr>)"
    using upd_agreement_at [OF x(2), of "\<lambda>a. a\<lparr>agr_data := d\<rparr>"] by auto
  have "a\<lparr>agr_state := AGREEMENT, agr_data := d\<rparr> = \<lparr>agr_state = AGREEMENT, agr_data = d\<rparr>" by simp
  then show ?thesis using x(1) y assms(2,3)
    by (intro exI [of _ ys]) (simp add: morse_twt_enter_state_agreement_def morse_twt_sta_agreement_add_def MORSE_TWT_AGREEMENTS_MAX_PER_STA_def)
qed

text \<open>The frame goes out when there is memory, the station is there, its keys are in the chip, and the queue takes it.\<close>

definition can_send :: "twt_env \<Rightarrow> mac_addr \<Rightarrow> bool \<Rightarrow> bool" where
  "can_send env dest mfp \<longleftrightarrow>
     (\<forall>n. t_kmalloc env n) \<and> t_find_sta env dest = Some mfp \<and> \<not> (mfp \<and> t_sw_crypto env) \<and> (\<forall>n f. t_skb_tx env n f = 0)"

lemma send_frame_effect:
  assumes "ev_body e = Setup c (Some d)"
  shows "\<exists>n fs ret. morse_mac_send_twt_action_frame env e dest token True st = Some (st\<lparr>allocs := n, sent := fs\<rparr>, ret) \<and>
    (\<forall>mfp. can_send env dest mfp \<longrightarrow> fs = (if mfp then To_mac80211 else To_mgmt_queue) (action_frame env e dest token True mfp) # sent st)"
proof -
  let ?st = "st\<lparr>allocs := allocs st + 1\<rparr>"
  have ie: "\<not> morse_twt_get_ie_size e < 0" using assms by (simp add: morse_twt_get_ie_size_def)
  let ?sent = "\<lambda>mfp. (if mfp then To_mac80211 else To_mgmt_queue) (action_frame env e dest token True mfp) # sent st"
  have none: ?thesis if "morse_mac_send_twt_action_frame env e dest token True st = Some (?st, ret)" "\<And>mfp. \<not> can_send env dest mfp" for ret
    using that by (intro exI [of _ "allocs st + 1"] exI [of _ "sent st"] exI [of _ ret]) simp
  have some: ?thesis if "morse_mac_send_twt_action_frame env e dest token True st = Some (?st\<lparr>sent := ?sent mfp\<rparr>, ret)" "t_find_sta env dest = Some mfp" for mfp ret
    using that by (intro exI [of _ "allocs st + 1"] exI [of _ "?sent mfp"] exI [of _ ret]) (simp add: can_send_def)
  show ?thesis
  proof (cases "t_kmalloc env (allocs st)")
    case False
    then show ?thesis by (intro none [of "- ENOMEM"]) (auto simp: morse_mac_send_twt_action_frame_def kmalloc_def can_send_def)
  next
    case k: True
    show ?thesis
    proof (cases "t_find_sta env dest")
      case None
      then show ?thesis using k ie by (intro none [of "- EINVAL"]) (auto simp: morse_mac_send_twt_action_frame_def kmalloc_def can_send_def)
    next
      case (Some mfp)
      let ?ret = "t_skb_tx env (allocs ?st) (action_frame env e dest token True mfp)"
      consider "mfp \<and> t_sw_crypto env" | "mfp" "\<not> t_sw_crypto env" | "\<not> mfp" "?ret \<noteq> 0" | "\<not> mfp" "?ret = 0" by blast
      then show ?thesis
      proof cases
        case 1
        then show ?thesis using k ie Some by (intro none [of "- EINVAL"]) (auto simp: morse_mac_send_twt_action_frame_def kmalloc_def can_send_def)
      next
        case 2
        then show ?thesis using k ie Some by (intro some [of mfp 0]) (simp_all add: morse_mac_send_twt_action_frame_def kmalloc_def)
      next
        case 3
        then show ?thesis using k ie Some by (intro none [of ?ret]) (auto simp: morse_mac_send_twt_action_frame_def kmalloc_def can_send_def Let_def)
      next
        case 4
        then show ?thesis using k ie Some by (intro some [of mfp 0]) (simp_all add: morse_mac_send_twt_action_frame_def kmalloc_def Let_def)
      qed
    qed
  qed
qed

lemma answer_effect:
  assumes ok: "twt_ok {p} st" and e: "ev_heap st p = Some e" "ev_flow e < 8" "ev_body e = Setup c (Some d)"
    and x: "sta_at st i = Some x" and at: "agreement_at st (i, ev_flow e) = Some a"
  shows "\<exists>st'. answer env i p (morse_twt_enter_state_agreement i) st = Some (st', 0) \<and>
    events st' = events st \<and> wake_intervals st' = wake_intervals st \<and>
    (if action_is_pending x
     then tx st' = tx st \<and> ev_heap st' p = None \<and> agreement_at st' (i, ev_flow e) = Some \<lparr>agr_state = AGREEMENT, agr_data = d\<rparr> \<and>
       (\<forall>mfp. can_send env (sta_addr x) mfp \<longrightarrow>
          sent st' = (if mfp then To_mac80211 else To_mgmt_queue) (action_frame env e (sta_addr x) (dialog_token x) True mfp) # sent st)
     else tx st' = tx st @ [p] \<and> ev_heap st' p = Some e \<and> agreement_at st' (i, ev_flow e) = Some a)"
proof (cases "action_is_pending x")
  case False
  have "agreement_at (st\<lparr>tx := q\<rparr>) r = agreement_at st r" for q r by (simp add: agreement_at_def sta_at_def)
  then show ?thesis using e(1) x at False by (simp add: answer_def)
next
  case True
  obtain n fs ret where f: "morse_mac_send_twt_action_frame env e (sta_addr x) (dialog_token x) True st = Some (st\<lparr>allocs := n, sent := fs\<rparr>, ret)"
      "\<forall>mfp. can_send env (sta_addr x) mfp \<longrightarrow>
        fs = (if mfp then To_mac80211 else To_mgmt_queue) (action_frame env e (sta_addr x) (dialog_token x) True mfp) # sent st"
    using send_frame_effect [OF e(3), of env "sta_addr x" "dialog_token x" st] by (elim exE conjE)
  let ?st1 = "upd_sta i (\<lambda>s. s\<lparr>action_is_pending := False\<rparr>) (st\<lparr>allocs := n, sent := fs\<rparr>)"
  have "agreement_at ?st1 (i, ev_flow e) = Some a"
    using at x by (simp add: agreement_at_def sta_at_upd_sta)
  from enter_agreement_effect [OF this e(2,3)] obtain xs where
    n: "morse_twt_enter_state_agreement i e ?st1 = Some (?st1\<lparr>stas := xs\<rparr>, 0)"
      "agreement_at (?st1\<lparr>stas := xs\<rparr>) (i, ev_flow e) = Some \<lparr>agr_state = AGREEMENT, agr_data = d\<rparr>" by blast
  let ?st2 = "(unlink_event p (?st1\<lparr>stas := xs\<rparr>))\<lparr>ev_heap := (ev_heap st)(p := None)\<rparr>"
  have "answer env i p (morse_twt_enter_state_agreement i) st = Some (?st2, 0)"
    using True f(1) n(1) e(1) x by (simp add: answer_def morse_twt_purge_event_def upd_sta_def)
  moreover have "removeAll p (events st) = events st" "removeAll p (tx st) = tx st"
    using queues_apart(2) [OF ok] by (auto intro!: removeAll_id)
  moreover have "agreement_at ?st2 (i, ev_flow e) = agreement_at (?st1\<lparr>stas := xs\<rparr>) (i, ev_flow e)"
    by (simp add: agreement_at_def sta_at_def unlink_event_def)
  ultimately show ?thesis using True f(2) n(2) by (intro exI [of _ ?st2]) (simp add: unlink_event_def upd_sta_def)
qed

section \<open>A request\<close>

lemma accept_effect:
  assumes ok: "twt_ok {p} st" and e: "ev_heap st p = Some e" "asks e" "ev_body e = Setup c (Some d)"
    and s: "s = CONSIDER_REQUEST \<or> s = CONSIDER_SUGGEST" and at: "agreement_at st (i, ev_flow e) = Some a" "agr_state a = NO_AGREEMENT"
  shows "\<exists>st2 st3 st4 ret t. considering i (ev_flow e) s d st = Some st2 \<and>
    morse_twt_agreement_wake_interval_add env (i, ev_flow e) st2 = Some (st3, ret) \<and>
    agreement_at st3 (i, ev_flow e) = Some \<lparr>agr_state = s, agr_data = d\<lparr>wake_time_us := t\<rparr>\<rparr> \<and>
    ((\<forall>n. t_kmalloc env n) \<longrightarrow> (i, ev_flow e) \<in> linked st3) \<and>
    only_lists st st4 \<and> twt_ok {p} st4 \<and> wake_intervals st4 = wake_intervals st3 \<and>
    agreement_at st4 (i, ev_flow e) = Some \<lparr>agr_state = s, agr_data = accepted_data (d\<lparr>wake_time_us := t\<rparr>)\<rparr> \<and>
    morse_twt_enter_state env (Some i) p s st =
      answer env i p (morse_twt_enter_state_agreement i) (put_event p (e\<lparr>ev_body := Setup CMD_ACCEPT (Some (accepted_data (d\<lparr>wake_time_us := t\<rparr>)))\<rparr>) st4)"
proof -
  let ?r = "(i, ev_flow e)" and ?a = "a\<lparr>agr_state := s\<rparr>"
  have s': "s \<noteq> NO_AGREEMENT" "s \<noteq> AGREEMENT" using s by auto
  obtain st1 where 1: "set_agr_state i (ev_flow e) s st = Some st1" "twt_ok {p} st1" "undisturbed {p} st st1" "only_lists st st1"
      "linked st1 = linked st" "agreement_at st1 ?r = Some ?a"
    using set_state_ok [OF ok at(1) s'(1)] by blast
  have e1: "ev_heap st1 p = Some e" using e(1) 1(3) by (simp add: undisturbed_def)
  have "lists_ok {} st" using ok by (simp add: twt_ok_def)
  then have r: "?r \<notin> linked st1" using linked_not_free [OF _ at(1,2)] 1(5) by simp
  have a: "agr_state ?a \<noteq> NO_AGREEMENT" "agr_state ?a \<noteq> AGREEMENT" using s' by simp_all
  obtain st2 st3 st4 ret t where 2: "upd_agreement ?r (\<lambda>a. a\<lparr>agr_data := d\<rparr>) st1 = Some st2"
      "morse_twt_agreement_wake_interval_add env ?r st2 = Some (st3, ret)"
      "agreement_at st3 ?r = Some (?a\<lparr>agr_data := d\<lparr>wake_time_us := t\<rparr>\<rparr>)"
      "if ret = 0 then ?r \<in> linked st3 else \<exists>n. \<not> t_kmalloc env n" "only_lists st1 st4" "twt_ok {p} st4" "wake_intervals st4 = wake_intervals st3"
      "agreement_at st4 ?r = Some (?a\<lparr>agr_data := accepted_data (d\<lparr>wake_time_us := t\<rparr>)\<rparr>)"
      "morse_twt_send_accept env i p st1 = answer env i p (morse_twt_enter_state_agreement i)
         (put_event p (e\<lparr>ev_body := Setup CMD_ACCEPT (Some (accepted_data (d\<lparr>wake_time_us := t\<rparr>)))\<rparr>) st4)"
    using send_accept_data [OF 1(2) e1 e(2,3) 1(6) a r, of env] by (elim exE conjE)
  have "considering i (ev_flow e) s d st = Some st2" using 1(1) 2(1) by (simp add: considering_def)
  moreover have "(\<forall>n. t_kmalloc env n) \<longrightarrow> ?r \<in> linked st3" using 2(4) by (auto split: if_splits)
  moreover have "?a\<lparr>agr_data := x\<rparr> = \<lparr>agr_state = s, agr_data = x\<rparr>" for x by simp
  moreover have "morse_twt_enter_state env (Some i) p s st = morse_twt_send_accept env i p st1"
    using e(1) 1(1) s by (auto simp: morse_twt_enter_state_def)
  ultimately show ?thesis using 2(2,3,5-9) only_lists_trans [OF 1(4)]
    by - (rule exI [of _ st2], rule exI [of _ st3], rule exI [of _ st4], rule exI [of _ ret], rule exI [of _ t], simp)
qed

lemma only_lists_station:
  assumes "only_lists st st'" "sta_at st i = Some x"
  shows "\<exists>y. sta_at st' i = Some y \<and> action_is_pending y = action_is_pending x \<and> sta_addr y = sta_addr x \<and> dialog_token y = dialog_token x"
proof -
  let ?f = "\<lambda>s. (sta_id s, sta_addr s, (action_is_pending s, dialog_token s), length (agreements s))"
  have "\<exists>y. find (\<lambda>s. sta_id s = i) xs = Some y \<and> ?f y = ?f x" if "map ?f xs = map ?f ys" "find (\<lambda>s. sta_id s = i) ys = Some x" for xs ys
    using that
  proof (induction xs arbitrary: ys)
    case (Cons z xs)
    then show ?case by (cases ys) (auto split: if_splits)
  qed simp
  with only_lists_same [OF assms(1)] assms(2) show ?thesis unfolding same_stas_def sta_at_def by fastforce
qed

lemma handle_one_request:
  assumes e: "ev_heap st p = Some e" "ev_body e = Setup c (Some d)" and c: "considered c = Some s" and resp: "responder st"
    and sta: "(case morse_twt_get_sta (ev_addr e) st of
        None \<Rightarrow> morse_twt_add_sta env (ev_addr e) (st\<lparr>events := removeAll p (events st)\<rparr>)
      | Some i \<Rightarrow> (st\<lparr>events := removeAll p (events st)\<rparr>, Some i)) = (st1, Some i)"
    and at: "agreement_at st1 (i, ev_flow e) = Some a" "agr_state a = NO_AGREEMENT"
  shows "handle_one env p st = map_option (\<lambda>r. (fst r, True)) (morse_twt_enter_state env (Some i) p s st1)"
proof -
  have g: "morse_twt_get_sta (ev_addr e) (st\<lparr>events := q\<rparr>) = morse_twt_get_sta (ev_addr e) st" for q by (simp add: morse_twt_get_sta_def)
  have e1: "ev_heap st1 p = Some e" using sta e(1) by (auto simp: morse_twt_add_sta_def kmalloc_def split: option.splits if_splits)
  have "handle_setup env i p st1 = map_option fst (morse_twt_enter_state env (Some i) p s st1)"
    using e1 e(2) at c by (cases "morse_twt_enter_state env (Some i) p s st1") (auto simp: handle_setup_def morse_twt_handle_event_in_no_agreement_def)
  then show ?thesis using e c resp sta g
    by (simp add: handle_one_def morse_twt_preprocess_event_def Let_def option.map_comp comp_def)
qed

end
