(* ===== verification/Twt_Theorems.thy ===== *)
theory Twt_Theorems
  imports Twt_Accept
begin

text \<open>
  The theorems on target wake time, and the runs on which they are applied: an access point, and a station that puts a request into its
  association request.
\<close>

section \<open>An access point\<close>

definition sta_example :: mac_addr where "sta_example = [2, 0, 0, 0, 0, 1]"
definition ap_example :: mac_addr where "ap_example = [2, 0, 0, 0, 0, 2]"

definition ap_env :: twt_env where
  "ap_env =
     \<lparr>v_type = IF_AP, v_addr = ap_example, v_bssid = ap_example, v_assoc = False, t_kmalloc = (\<lambda>n. True),
      t_find_sta = (\<lambda>a. Some False), t_sw_crypto = False, t_skb_tx = (\<lambda>n f. 0), t_cmd_tx = (\<lambda>n c. 0)\<rparr>"

definition ap_start :: twt where
  "ap_start = morse_twt_init_vif True IF_AP True False True True False zero_twt"

text \<open>Flow 3, an interval of 300 * 1024 microseconds, awake for 1024 of them.\<close>

definition example_data :: "setup_cmd \<Rightarrow> u16 \<Rightarrow> agreement_data" where
  "example_data c flow =
     data_of_params 0
       \<lparr>req_type = morse_twt_set_command c 0 OR TWT_REQTYPE_IMPLICIT OR push_bit 7 flow OR push_bit 10 10, twt_time = 0, min_twt_dur = 4,
        mantissa = 300, twt_channel = 0\<rparr>"

definition assoc_request :: "setup_cmd \<Rightarrow> u16 \<Rightarrow> twt_env \<times> twt_call" where
  "assoc_request c flow =
     (ap_env, Rx_mgmt ([0, 0, 0, 0] @ ap_example @ sta_example @ ap_example @ [0, 0])
        (Some \<lparr>ie_len = 15, ie_mem = ie_octets (example_data c flow)\<rparr>))"

definition associated :: "twt_env \<times> twt_call" where
  "associated = (ap_env, Sta_state sta_example 2 3 1)"

definition response :: "twt_env \<times> twt_call" where
  "response = (ap_env, Assoc_resp sta_example)"

lemma ap_never_fails: "never_fails ap_env"
  by (simp add: never_fails_def ap_env_def)

lemmas example_calls = assoc_request_def associated_def response_def

section \<open>Runs\<close>

lemma rejecting_response_undefined:
  assumes "twt_ok {} st" "morse_twt_is_enabled st" "resp_ends_station dest st"
  shows "assoc_resp_ie env dest st = None"
proof -
  obtain p where p: "morse_twt_peek_tx (Some dest) None st = Some (Some p)" "ends_station st p"
    using assms(3) by (auto simp: resp_ends_station_def split: option.splits)
  then have "p \<in> set (tx st)" using peek_tx_ok [OF assms(1), of "Some dest" None] by auto
  from dequeue_tx_freed [OF assms(1) this p(2) assms(2)] have "morse_twt_dequeue_tx env p st = None" .
  moreover obtain e where e: "ev_heap st p = Some e" using p(2) by (auto simp: ends_station_def split: option.splits)
  have "has response_ok st p" using assms(1) \<open>p \<in> set (tx st)\<close> by (auto simp: twt_ok_def events_ok_def)
  then have "\<exists>b. ie_body p st = Some (Some b)" using e by (auto simp: has_def response_ok_def ie_body_def)
  ultimately show ?thesis using assms(2) p(1) by (auto simp: assoc_resp_ie_def)
qed

text \<open>C6: Runs of target wake time on an interface, from its start on: any calls in any order (received and sent frames, work items, user
  commands, association frames, stations that come and go, the end of the interface) that keep the conditions below. Then every access is
  defined, no agreement is in two lists, and every event that is allocated is in exactly one queue, so none leaks, is used after it is freed
  or is freed twice. The conditions (\<open>never_fails\<close>, \<open>twt_call_ok\<close>) exclude what the code does not handle: every allocation succeeds (some are
  not checked, and an event for whose station there is no memory is dropped); a received frame has the octets that are read of it (16, an
  action frame 27, or 35 if it is protected), a sent one 27; an element has 15 octets and a mantissa other than 0 (\<open>twt_zero_interval\<close> is
  what 0 leads to); the flow of a user command is below 64, and an explicit exponent too; and no association response is made for a station
  while the response that waits for it rejects its only request. The last condition is exact: in every state of such a run these are
  the responses whose making is undefined (C32), on an interface that is enabled, and all others are defined.
\<close>

theorem twt_runs_safe:
  assumes "st\<^sub>0 = morse_twt_init_vif enable ty cap_resp cap_req ps offload monitor zero_twt" "morse_twt_is_enabled st\<^sub>0"
    and "\<forall>c \<in> set cs. never_fails (fst c)" "all_ok twt_step twt_call_ok cs st\<^sub>0"
  shows "\<exists>st. ofold twt_step cs st\<^sub>0 = Some st \<and>
    distinct (events st @ tx st @ to_install st @ (case req_event_tx st of None \<Rightarrow> [] | Some p \<Rightarrow> [p])) \<and>
    dom (ev_heap st) = set (events st @ tx st @ to_install st @ (case req_event_tx st of None \<Rightarrow> [] | Some p \<Rightarrow> [p])) \<and>
    distinct (concat (wake_intervals st)) \<and> (\<forall>r \<in> set (concat (wake_intervals st)). agreement_at st r \<noteq> None) \<and>
    (\<forall>env dest. morse_twt_is_enabled st \<longrightarrow> (assoc_resp_ie env dest st = None \<longleftrightarrow> resp_ends_station dest st))"
proof -
  obtain st where st: "ofold twt_step cs st\<^sub>0 = Some st" "twt_ok {} st" using runs_safe [OF assms] by blast
  then have ok: "lists_ok {} st" "events_ok {} st" by (auto simp: twt_ok_def)
  have "linked_ok st r" if "r \<in> set (concat (wake_intervals st))" for r using ok(1) that by (auto simp: lists_ok_def linked_def)
  then have "\<forall>r \<in> set (concat (wake_intervals st)). agreement_at st r \<noteq> None" unfolding linked_ok_def by (metis option.distinct(1))
  moreover have "distinct (concat (wake_intervals st))" using ok(1) by (simp only: lists_ok_def)
  moreover have "distinct (queued st)" "dom (ev_heap st) = set (queued st)" using ok(2) by (simp_all only: events_ok_def Un_empty_right)
  moreover have "assoc_resp_ie env dest st = None \<longleftrightarrow> resp_ends_station dest st" if "morse_twt_is_enabled st" for env dest
    using rejecting_response_undefined [OF st(2) that] assoc_resp_ok [OF st(2), of dest env] by (metis option.distinct(1))
  ultimately show ?thesis using st(1) unfolding queued_def by (intro exI [of _ st] conjI) blast+
qed

definition example_run :: "(twt_env \<times> twt_call) list" where
  "example_run = [assoc_request CMD_REQUEST 3, associated, response, assoc_request CMD_SUGGEST 1, (ap_env, Event_work)]"

lemma example_run_ok: "all_ok twt_step twt_call_ok example_run ap_start"
  by code_simp

lemma twt_runs_safe_witness:
  "\<exists>st. ofold twt_step example_run ap_start = Some st \<and>
    distinct (events st @ tx st @ to_install st @ (case req_event_tx st of None \<Rightarrow> [] | Some p \<Rightarrow> [p])) \<and>
    dom (ev_heap st) = set (events st @ tx st @ to_install st @ (case req_event_tx st of None \<Rightarrow> [] | Some p \<Rightarrow> [p])) \<and>
    distinct (concat (wake_intervals st)) \<and> (\<forall>r \<in> set (concat (wake_intervals st)). agreement_at st r \<noteq> None) \<and>
    (\<forall>env dest. \<not> morse_twt_is_enabled st \<or> (assoc_resp_ie env dest st = None \<longleftrightarrow> resp_ends_station dest st))"
proof (rule twt_runs_safe [OF ap_start_def _ _ example_run_ok, unfolded imp_conv_disj])
  show "morse_twt_is_enabled ap_start" by code_simp
  show "\<forall>c \<in> set example_run. never_fails (fst c)" by (simp add: example_run_def example_calls ap_never_fails)
qed

text \<open>C23: The work item of the events handles them all: in every reachable state its loop ends, and the queue is empty then.
\<close>

theorem twt_event_work_drains:
  assumes "st\<^sub>0 = morse_twt_init_vif enable ty cap_resp cap_req ps offload monitor zero_twt" "morse_twt_is_enabled st\<^sub>0"
    and "\<forall>c \<in> set cs. never_fails (fst c)" "all_ok twt_step twt_call_ok cs st\<^sub>0" "never_fails env"
  shows "\<exists>st st'. ofold twt_step cs st\<^sub>0 = Some st \<and> morse_twt_handle_event_work env st = Some st' \<and>
    (if morse_twt_is_enabled st then events st' = [] else events st' = events st)"
proof -
  obtain st where st: "ofold twt_step cs st\<^sub>0 = Some st" "twt_ok {} st" using runs_safe [OF assms(1-4)] by blast
  let ?st = "st\<lparr>work_scheduled := False\<rparr>"
  have k: "t_kmalloc env n" for n using assms(5) by (simp add: never_fails_def)
  have "twt_ok {} ?st" using st(2) by simp
  then obtain st' where st': "morse_twt_handle_event env None ?st = Some st'" "twt_ok {} st'"
      "morse_twt_is_enabled ?st \<Longrightarrow> morse_twt_peek_event None None st' = Some None"
    using handle_event_ok [OF _ k, of ?st None] by blast
  have "events st' = (if morse_twt_is_enabled st then [] else events st)"
    using st'(1,3)
    by (auto simp: morse_twt_peek_event_def morse_twt_peek_queue_def morse_twt_is_enabled_def morse_twt_handle_event_def split: list.splits if_splits)
  then show ?thesis using st(1) st'(1) unfolding morse_twt_handle_event_work_def by (auto split: if_splits)
qed

lemma twt_event_work_drains_witness:
  "\<exists>st st'. ofold twt_step (take 4 example_run) ap_start = Some st \<and> morse_twt_handle_event_work ap_env st = Some st' \<and>
    (if morse_twt_is_enabled st then events st' = [] else events st' = events st)"
proof (rule twt_event_work_drains [OF ap_start_def])
  show "morse_twt_is_enabled ap_start" "all_ok twt_step twt_call_ok (take 4 example_run) ap_start" by code_simp+
  show "\<forall>c \<in> set (take 4 example_run). never_fails (fst c)" by (simp add: example_run_def example_calls ap_never_fails)
  show "never_fails ap_env" by (rule ap_never_fails)
qed

section \<open>The rejected station\<close>

text \<open>C32: A response that rejects the only request of a station is used after it was freed: entering \<open>NO_AGREEMENT\<close> removes the
  station, which frees its responses, and the code then unlinks and frees the response again. So a station that demands a
  wake time in its association request makes the access point corrupt its heap.
\<close>

theorem twt_reject_used_after_free:
  assumes "twt_ok {} st" "morse_twt_is_enabled st" "resp_ends_station dest st"
  shows "assoc_resp_ie env dest st = None"
  by (rule rejecting_response_undefined [OF assms])

definition rejected_station :: "twt option" where
  "rejected_station = ofold twt_step [assoc_request CMD_DEMAND 3, associated] ap_start"

lemma twt_reject_used_after_free_witness:
  "\<exists>st. rejected_station = Some st \<and> assoc_resp_ie ap_env sta_example st = None"
proof -
  have "\<exists>st. rejected_station = Some st \<and> twt_ok {} st" unfolding rejected_station_def
  proof (rule runs_safe [OF ap_start_def])
    show "morse_twt_is_enabled ap_start" "all_ok twt_step twt_call_ok [assoc_request CMD_DEMAND 3, associated] ap_start" by code_simp+
    show "\<forall>c \<in> set [assoc_request CMD_DEMAND 3, associated]. never_fails (fst c)" by (simp add: example_calls ap_never_fails)
  qed
  then obtain st where st: "rejected_station = Some st" "twt_ok {} st" by blast
  have "morse_twt_is_enabled (the rejected_station)" "resp_ends_station sta_example (the rejected_station)" by code_simp+
  then have "morse_twt_is_enabled st" "resp_ends_station sta_example st" unfolding st(1) option.sel .
  then show ?thesis using st twt_reject_used_after_free [of st sta_example ap_env] by blast
qed

section \<open>Service periods\<close>

text \<open>C8: Adding an agreement that is requested or suggested keeps the lists of agreements in the order of their intervals, one list for
  each interval, and the service periods in a list apart: the new one goes into the first gap that is long enough or behind the last, and
  unless that puts it past the end of the interval no two periods of the list overlap. Nothing else is checked: a period that does not fit any
  more is accepted, too.
\<close>

theorem twt_service_periods:
  assumes "lists_ok {} st" "slots_ok st" "agreement_at st r = Some a" "r \<notin> set (concat (wake_intervals st))"
    and "agr_state a \<noteq> NO_AGREEMENT" "agr_state a \<noteq> AGREEMENT" "wake_interval_us (agr_data a) \<noteq> 0"
    and "morse_twt_get_command (req_type (params (agr_data a))) \<noteq> CMD_DEMAND"
  shows "\<exists>st' ret b. morse_twt_agreement_wake_interval_add env r st = Some (st', ret) \<and> agreement_at st' r = Some b \<and>
    (if ret = 0 then in_interval (agr_data b) \<longrightarrow> slots_ok st' else wake_intervals st' = wake_intervals st)"
  using wake_interval_add_slots [OF assms(1-3) _ assms(5-8), of env] assms(4) unfolding linked_def by metis

lemma linked_ok_code [code]:
  "linked_ok st r =
     (case agreement_at st r of None \<Rightarrow> False | Some a \<Rightarrow> agr_state a \<noteq> NO_AGREEMENT \<and> wake_interval_us (agr_data a) \<noteq> 0)"
  by (auto simp: linked_ok_def split: option.splits)

definition example_agreement :: "twt_state \<Rightarrow> u64 \<Rightarrow> u32 \<Rightarrow> twt_agreement" where
  "example_agreement s i d =
     \<lparr>agr_state = s,
      agr_data = \<lparr>wake_time_us = 0, wake_interval_us = i, wake_duration_us = d, control = 0, params = zero_params\<rparr>\<rparr>"

text \<open>A station that has an agreement for flow 3, from 0 on, and requests one for flow 1.\<close>

definition requested :: "u64 \<Rightarrow> u32 \<Rightarrow> twt" where
  "requested i d =
     zero_twt\<lparr>stas := [(new_sta 0 sta_example)\<lparr>agreements := (agreements (new_sta 0 sta_example))
         [3 := example_agreement AGREEMENT i d, 1 := example_agreement CONSIDER_REQUEST i d]\<rparr>],
       wake_intervals := [[(0, 3)]], allocs := 1, responder := True\<rparr>"

lemma twt_service_periods_witness:
  "\<exists>st' ret b. morse_twt_agreement_wake_interval_add ap_env (0, 1) (requested 12 4) = Some (st', ret) \<and> agreement_at st' (0, 1) = Some b \<and>
    (if ret = 0 then \<not> in_interval (agr_data b) \<or> slots_ok st' else wake_intervals st' = wake_intervals (requested 12 4))"
proof -
  let ?a = "example_agreement CONSIDER_REQUEST 12 4"
  have 1: "lists_ok {} (requested 12 4)" by code_simp
  have 2: "slots_ok (requested 12 4)" by code_simp
  have 3: "agreement_at (requested 12 4) (0, 1) = Some ?a" by code_simp
  have 4: "(0, 1) \<notin> set (concat (wake_intervals (requested 12 4)))" by code_simp
  have 5: "agr_state ?a \<noteq> NO_AGREEMENT" "agr_state ?a \<noteq> AGREEMENT" "wake_interval_us (agr_data ?a) \<noteq> 0"
    "morse_twt_get_command (req_type (params (agr_data ?a))) \<noteq> CMD_DEMAND" by code_simp+
  show ?thesis using twt_service_periods [OF 1 2 3 4 5, of ap_env] by (simp only: imp_conv_disj)
qed

text \<open>A period that does not fit behind the first: awake for 200 * 1024 of the 300 * 1024 microseconds each.\<close>

lemma twt_periods_overflow:
  "case morse_twt_agreement_wake_interval_add ap_env (0, 1) (requested 307200 204800) of
     None \<Rightarrow> False
   | Some (st, ret) \<Rightarrow> ret = 0 \<and> wake_intervals st = [[(0, 3), (0, 1)]] \<and>
       map_option (\<lambda>a. wake_time_us (agr_data a)) (agreement_at st (0, 1)) = Some 204800"
  by code_simp

section \<open>The answer\<close>

lemma keep_duration:
  assumes "k = 1024 \<or> k = (256 :: u32)"
  shows "(ucast ((ucast (m :: u8) * k) div k) :: u8) = m"
proof -
  have "unat m < 256" using unsigned_less [of m] by simp
  moreover have "unat k = 1024 \<or> unat k = 256" using assms by auto
  ultimately have "unat (ucast m * k) = unat m * unat k" "0 < unat k" by (auto simp: unat_word_ariths unsigned_ucast_eq take_bit_nat_eq_self)
  then have "unat ((ucast m * k) div k) = unat m" by (simp add: unat_div)
  then have "(of_nat (unat ((ucast m * k) div k)) :: u8) = of_nat (unat m)" by (simp only:)
  then show ?thesis by (simp add: of_nat_unat)
qed

text \<open>What the responder sends back.\<close>

lemma accepted_params:
  assumes "wake_exp_of (req_type p) \<noteq> 31"
  shows "params (accepted_data ((data_of_params c p)\<lparr>wake_time_us := t\<rparr>)) =
    p\<lparr>req_type := morse_twt_set_command CMD_ACCEPT (req_type p), twt_time := t\<rparr>"
proof -
  let ?q = "p\<lparr>req_type := morse_twt_set_command CMD_ACCEPT (req_type p)\<rparr>"
  have "wake_exp_of (req_type p) < 31" using assms field_less(1) [of "req_type p"] by linarith
  then have "wake_exp_of (req_type ?q) < 31" by simp
  moreover have "morse_twt_calculate_wake_interval_us ?q = morse_twt_calculate_wake_interval_us p"
    by (simp add: morse_twt_calculate_wake_interval_us_def)
  ultimately have "mantissa (morse_twt_update_params c t (morse_twt_calculate_wake_interval_us p) d ?q) = mantissa p" for d
    using update_keeps_mantissa [of ?q c t d] by simp
  moreover have "min_twt_dur (morse_twt_update_params c t i (ucast (min_twt_dur p) * (if has_dur_unit c then 1024 else 256)) ?q) = min_twt_dur p" for i
    using keep_duration [of 1024 "min_twt_dur p"] keep_duration [of 256 "min_twt_dur p"] by (simp add: morse_twt_update_params_def)
  ultimately show ?thesis
    by (intro twt_params.equality) (simp_all add: accepted_data_def data_of_params_def morse_twt_update_params_def)
qed

text \<open>C25: An agreement that an access point accepts is read back by the station as it was accepted: from the element of the response the
  station gets an accept for the flow it asked for, with the wake time the responder allotted, and the interval and the duration of the
  request. (An exponent of 31 is the exception: there the interval wraps.)
\<close>

theorem twt_accept_read_back:
  assumes "morse_twt_validate_params IF_AP p = 0" "control_ok c" "wake_exp_of (req_type p) \<noteq> 31"
  shows "\<exists>d. parse_element IF_STATION
      \<lparr>ie_len = length (ie_octets (accepted_data ((data_of_params c p)\<lparr>wake_time_us := t\<rparr>))),
       ie_mem = ie_octets (accepted_data ((data_of_params c p)\<lparr>wake_time_us := t\<rparr>)) @ rest\<rparr> = Some (Inr d) \<and>
    morse_twt_get_command (req_type (params d)) = CMD_ACCEPT \<and> flow_id_of (req_type (params d)) = flow_id_of (req_type p) \<and>
    wake_time_us d = t \<and> wake_interval_us d = wake_interval_us (data_of_params c p) \<and>
    wake_duration_us d = wake_duration_us (data_of_params c p)"
proof -
  let ?a = "accepted_data ((data_of_params c p)\<lparr>wake_time_us := t\<rparr>)"
  let ?p = "p\<lparr>req_type := morse_twt_set_command CMD_ACCEPT (req_type p), twt_time := t\<rparr>"
  note p = accepted_params [OF assms(3), of t c]
  have c: "control ?a = c" by (simp add: accepted_data_def data_of_params_def)
  have "morse_twt_validate_params IF_STATION ?p = 0"
    using assms(1) by (simp add: morse_twt_validate_params_def Let_def EINVAL_def split: if_splits)
  with parse_written [of ?a IF_STATION rest] c p assms(2)
  have "parse_element IF_STATION \<lparr>ie_len = length (ie_octets ?a), ie_mem = ie_octets ?a @ rest\<rparr> = Some (Inr (data_of_params c ?p))" by simp
  then show ?thesis by (simp add: data_of_params_def morse_twt_calculate_wake_interval_us_def)
qed

definition example_params :: twt_params where
  "example_params = params (example_data CMD_REQUEST 3)"

lemma twt_accept_read_back_witness:
  "\<exists>d. parse_element IF_STATION
      \<lparr>ie_len = length (ie_octets (accepted_data ((data_of_params 0 example_params)\<lparr>wake_time_us := 1024\<rparr>))),
       ie_mem = ie_octets (accepted_data ((data_of_params 0 example_params)\<lparr>wake_time_us := 1024\<rparr>)) @ []\<rparr> = Some (Inr d) \<and>
    morse_twt_get_command (req_type (params d)) = CMD_ACCEPT \<and> flow_id_of (req_type (params d)) = flow_id_of (req_type example_params) \<and>
    wake_time_us d = 1024 \<and> wake_interval_us d = wake_interval_us (data_of_params 0 example_params) \<and>
    wake_duration_us d = wake_duration_us (data_of_params 0 example_params)"
proof (rule twt_accept_read_back)
  show "morse_twt_validate_params IF_AP example_params = 0" "control_ok 0" "wake_exp_of (req_type example_params) \<noteq> 31" by code_simp+
qed

section \<open>A request\<close>

text \<open>C24: A request or a suggestion for a flow without an agreement is accepted by a responder, whether the station is already stored or
  is only now added for its first request (that there is memory for it is assumed). The agreement is considered with the data of the request
  (\<open>considering\<close>) and put into the lists of agreements; its wake time \<open>t\<close> is the one that \<open>morse_twt_agreement_wake_interval_add\<close> allots
  in that state (C8), and if no allocation fails it ends in a list. If the request came in an association request, the event ends on the
  queue of responses, as an accept with the wake time, the interval and the duration agreed, and the agreement is under consideration with
  the same data; if it came in an action frame, the event is freed, the agreement is entered with these data, and the accept goes out as an
  action frame with the token of the request, provided it can be sent at all.
\<close>

theorem twt_request_accepted:
  assumes ok: "twt_ok {} st" and p: "p \<in> set (events st)" and e: "ev_heap st p = Some e" "ev_body e = Setup c (Some d)"
    and c: "considered c = Some s" "s = CONSIDER_REQUEST \<or> s = CONSIDER_SUGGEST" and resp: "responder st"
    and sta: "(case morse_twt_get_sta (ev_addr e) st of
        None \<Rightarrow> morse_twt_add_sta env (ev_addr e) (st\<lparr>events := removeAll p (events st)\<rparr>)
      | Some i \<Rightarrow> (st\<lparr>events := removeAll p (events st)\<rparr>, Some i)) = (st1, Some i)" "sta_at st1 i = Some x"
    and at: "agreement_at st1 (i, ev_flow e) = Some a" "agr_state a = NO_AGREEMENT"
  shows "\<exists>st2 st3 ret t st'. considering i (ev_flow e) s d st1 = Some st2 \<and>
    morse_twt_agreement_wake_interval_add env (i, ev_flow e) st2 = Some (st3, ret) \<and>
    agreement_at st3 (i, ev_flow e) = Some \<lparr>agr_state = s, agr_data = d\<lparr>wake_time_us := t\<rparr>\<rparr> \<and>
    handle_one env p st = Some (st', True) \<and> events st' = removeAll p (events st) \<and> wake_intervals st' = wake_intervals st3 \<and>
    (never_fails env \<longrightarrow> (i, ev_flow e) \<in> set (concat (wake_intervals st'))) \<and>
    (let agreed = accepted_data (d\<lparr>wake_time_us := t\<rparr>); accept = e\<lparr>ev_body := Setup CMD_ACCEPT (Some agreed)\<rparr>
     in if action_is_pending x
        then tx st' = tx st \<and> ev_heap st' p = None \<and>
          agreement_at st' (i, ev_flow e) = Some \<lparr>agr_state = AGREEMENT, agr_data = agreed\<rparr> \<and>
          (\<forall>mfp. can_send env (sta_addr x) mfp \<longrightarrow> sent st' =
             (if mfp then To_mac80211 else To_mgmt_queue) (action_frame env accept (sta_addr x) (dialog_token x) True mfp) # sent st)
        else tx st' = tx st @ [p] \<and> ev_heap st' p = Some accept \<and>
          agreement_at st' (i, ev_flow e) = Some \<lparr>agr_state = s, agr_data = agreed\<rparr>)"
proof -
  let ?off = "st\<lparr>events := removeAll p (events st)\<rparr>" and ?r = "(i, ev_flow e)"
  have 0: "twt_ok {p} ?off" "has request_ok st p" using take_event [OF ok p] by simp_all
  have asks: "asks e" using 0(2) e c(1) by (auto simp: has_def request_ok_def asks_def)
  have flow: "ev_flow e < 8" using asks by (simp add: asks_def)
  have st1: "twt_ok {p} st1" "ev_heap st1 p = Some e" "events st1 = removeAll p (events st)" "tx st1 = tx st" "sent st1 = sent st"
    using sta(1) 0(1) e(1) add_sta_ok [OF 0(1), of env "ev_addr e"]
    by (auto simp: morse_twt_add_sta_def kmalloc_def split: option.splits if_splits)
  obtain st2 st3 st4 ret t where 2: "considering i (ev_flow e) s d st1 = Some st2"
      "morse_twt_agreement_wake_interval_add env ?r st2 = Some (st3, ret)"
      "agreement_at st3 ?r = Some \<lparr>agr_state = s, agr_data = d\<lparr>wake_time_us := t\<rparr>\<rparr>" "(\<forall>n. t_kmalloc env n) \<longrightarrow> ?r \<in> linked st3"
      "only_lists st1 st4" "twt_ok {p} st4" "wake_intervals st4 = wake_intervals st3"
      "agreement_at st4 ?r = Some \<lparr>agr_state = s, agr_data = accepted_data (d\<lparr>wake_time_us := t\<rparr>)\<rparr>"
      "morse_twt_enter_state env (Some i) p s st1 = answer env i p (morse_twt_enter_state_agreement i)
         (put_event p (e\<lparr>ev_body := Setup CMD_ACCEPT (Some (accepted_data (d\<lparr>wake_time_us := t\<rparr>)))\<rparr>) st4)"
    using accept_effect [OF st1(1,2) asks e(2) c(2) at, of env] by (elim exE conjE)
  let ?d = "accepted_data (d\<lparr>wake_time_us := t\<rparr>)" and ?e = "e\<lparr>ev_body := Setup CMD_ACCEPT (Some (accepted_data (d\<lparr>wake_time_us := t\<rparr>)))\<rparr>"
  let ?st5 = "put_event p ?e st4"
  obtain y where y: "sta_at st4 i = Some y" "action_is_pending y = action_is_pending x" "sta_addr y = sta_addr x" "dialog_token y = dialog_token x"
    using only_lists_station [OF 2(5) sta(2)] by blast
  have f: "ev_flow ?e = ev_flow e" by simp
  have 4: "twt_ok {p} ?st5" "sta_at ?st5 i = Some y" using put_in_hand [OF 2(6), of p "?e"] y(1) by (simp_all add: put_event_def sta_at_def)
  have at5: "agreement_at ?st5 (i, ev_flow ?e) = Some \<lparr>agr_state = s, agr_data = ?d\<rparr>"
    using 2(8) by (simp add: put_event_def agreement_at_def sta_at_def)
  have same: "ev_heap ?st5 p = Some ?e" "ev_flow ?e < 8" "ev_body ?e = Setup CMD_ACCEPT (Some ?d)" "events ?st5 = events st4"
      "wake_intervals ?st5 = wake_intervals st4" "tx ?st5 = tx st4" "sent ?st5 = sent st4"
    by (simp_all add: put_event_def flow)
  obtain st' where
    5: "answer env i p (morse_twt_enter_state_agreement i) ?st5 = Some (st', 0)" "events st' = events st4" "wake_intervals st' = wake_intervals st4"
      "if action_is_pending x
     then tx st' = tx st4 \<and> ev_heap st' p = None \<and> agreement_at st' ?r = Some \<lparr>agr_state = AGREEMENT, agr_data = ?d\<rparr> \<and>
       (\<forall>mfp. can_send env (sta_addr x) mfp \<longrightarrow>
          sent st' = (if mfp then To_mac80211 else To_mgmt_queue) (action_frame env ?e (sta_addr x) (dialog_token x) True mfp) # sent st4)
     else tx st' = tx st4 @ [p] \<and> ev_heap st' p = Some ?e \<and> agreement_at st' ?r = Some \<lparr>agr_state = s, agr_data = ?d\<rparr>"
    using answer_effect [OF 4(1) same(1-3) 4(2) at5, of env] unfolding same(4-7) f y(2-4) by (elim exE conjE)
  have "never_fails env \<longrightarrow> ?r \<in> set (concat (wake_intervals st'))" using 2(4,7) 5(3) by (simp add: never_fails_def linked_def)
  moreover have "handle_one env p st = Some (st', True)"
    using handle_one_request [OF e c(1) resp sta(1) at] 2(9) 5(1) by simp
  moreover have "events st4 = events st1" "tx st4 = tx st1" "sent st4 = sent st1" using 2(5) by (auto simp: only_lists_def)
  ultimately show ?thesis using 2(1-3,7) 5(2-4) st1(3-5)
    by - (rule exI [of _ st2], rule exI [of _ st3], rule exI [of _ ret], rule exI [of _ t], rule exI [of _ st'], simp add: Let_def)
qed

text \<open>The station that has an agreement for flow 3 suggests one for flow 1.\<close>

definition suggesting :: twt where
  "suggesting = the (ofold twt_step (take 4 example_run) ap_start)"

definition suggestion :: twt_event where
  "suggestion = \<lparr>ev_addr = sta_example, ev_flow = 1, ev_body = Setup CMD_SUGGEST (Some (example_data CMD_SUGGEST 1))\<rparr>"

lemma twt_request_accepted_witness:
  "\<exists>st2 st3 ret t st'. considering 2 (ev_flow suggestion) CONSIDER_SUGGEST (example_data CMD_SUGGEST 1) (suggesting\<lparr>events := removeAll 4 (events suggesting)\<rparr>) = Some st2 \<and>
    morse_twt_agreement_wake_interval_add ap_env (2, ev_flow suggestion) st2 = Some (st3, ret) \<and>
    agreement_at st3 (2, ev_flow suggestion) = Some \<lparr>agr_state = CONSIDER_SUGGEST, agr_data = (example_data CMD_SUGGEST 1)\<lparr>wake_time_us := t\<rparr>\<rparr> \<and>
    handle_one ap_env 4 suggesting = Some (st', True) \<and> events st' = removeAll 4 (events suggesting) \<and> wake_intervals st' = wake_intervals st3 \<and>
    (2, ev_flow suggestion) \<in> set (concat (wake_intervals st')) \<and> tx st' = tx suggesting @ [4]"
proof -
  let ?d = "example_data CMD_SUGGEST 1" and ?st = "suggesting\<lparr>events := removeAll 4 (events suggesting)\<rparr>"
  have ok: "twt_ok {} suggesting"
  proof -
    have "\<exists>st. ofold twt_step (take 4 example_run) ap_start = Some st \<and> twt_ok {} st"
    proof (rule runs_safe [OF ap_start_def])
      show "morse_twt_is_enabled ap_start" "all_ok twt_step twt_call_ok (take 4 example_run) ap_start" by code_simp+
      show "\<forall>c \<in> set (take 4 example_run). never_fails (fst c)" by (simp add: example_run_def example_calls ap_never_fails)
    qed
    then show ?thesis by (auto simp: suggesting_def)
  qed
  have 1: "4 \<in> set (events suggesting)" "ev_heap suggesting 4 = Some suggestion" "responder suggesting"
      "morse_twt_get_sta (ev_addr suggestion) suggesting = Some 2" "considered CMD_SUGGEST = Some CONSIDER_SUGGEST"
      "sta_at ?st 2 = Some (the (sta_at suggesting 2))" "\<not> action_is_pending (the (sta_at suggesting 2))"
      "agreement_at ?st (2, ev_flow suggestion) = Some \<lparr>agr_state = NO_AGREEMENT, agr_data = zero_data\<rparr>" by code_simp+
  have "ev_body suggestion = Setup CMD_SUGGEST (Some ?d)" by (simp add: suggestion_def)
  from twt_request_accepted [OF ok 1(1,2) this 1(5) _ 1(3) _ 1(6,8), of ap_env] 1(4,7) ap_never_fails show ?thesis
    by (simp add: Let_def) blast
qed

section \<open>Where the code falls short\<close>

text \<open>A third agreement with the interval 0 divides by 0.\<close>

lemma twt_zero_interval:
  "morse_twt_agreement_wake_interval_add ap_env (0, 1) ((requested 0 4)
     \<lparr>stas := [(new_sta 0 sta_example)\<lparr>agreements := (agreements (new_sta 0 sta_example))
         [3 := example_agreement AGREEMENT 0 4, 2 := example_agreement AGREEMENT 0 4, 1 := example_agreement CONSIDER_REQUEST 0 4]\<rparr>],
      wake_intervals := [[(0, 3), (0, 2)]]\<rparr>) = None"
  by code_simp

text \<open>A request in an action frame for a flow that has an agreement is rejected, and the agreement is gone, here with its station.\<close>

definition action_request :: "setup_cmd \<Rightarrow> u16 \<Rightarrow> twt_env \<times> twt_call" where
  "action_request c flow =
     (ap_env, Rx_mgmt ([0xd0, 0, 0, 0] @ ap_example @ sta_example @ ap_example @ [0, 0, WLAN_CATEGORY_S1G_UNPROTECTED, WLAN_S1G_TWT_SETUP, 1])
        (Some \<lparr>ie_len = 15, ie_mem = ie_octets (example_data c flow)\<rparr>))"

lemma twt_request_ends_agreement:
  "map_option (\<lambda>st. map_option agr_state (agreement_at st (2, 3))) (ofold twt_step (take 3 example_run) ap_start) = Some (Some AGREEMENT)"
  "map_option stas (ofold twt_step (take 3 example_run @ [action_request CMD_REQUEST 3, (ap_env, Event_work)]) ap_start) = Some []"
  by code_simp+

text \<open>An event that waits when the interface ends is still allocated after the next start, in no queue.\<close>

lemma twt_finish_leaks:
  "map_option (\<lambda>st. let st = morse_twt_init_vif True IF_AP True False True True False st in (events st, tx st, to_install st, req_event_tx st, ev_heap st 0 \<noteq> None))
     (ofold twt_step [assoc_request CMD_REQUEST 3, (ap_env, Finish_vif)] ap_start) = Some ([], [], [], None, True)"
  by code_simp

end
