(* ===== verification/Command.thy ===== *)
theory Command
  imports Skbq
begin

text \<open>
  \<^verbatim>\<open>command.c\<close>, the commands to the firmware: a command is put on the command queue and waits for its response, with one retry. The
  caller's buffer for the response and the frames on the queue are lists of octets; one command is on its way at a time (the mutex
  \<open>cmd_wait\<close>), and what happens while it waits is a list of events.
\<close>

section \<open>Requests and responses\<close>

definition MORSE_CMD_TYPE_REQ :: u16 where "MORSE_CMD_TYPE_REQ = 1"
definition MORSE_CMD_TYPE_RESP :: u16 where "MORSE_CMD_TYPE_RESP = 2"
definition MORSE_CMD_HOST_ID_SEQ_MAX :: u16 where "MORSE_CMD_HOST_ID_SEQ_MAX = 0xfff"
definition MORSE_CMD_HOST_ID_SEQ_SHIFT :: nat where "MORSE_CMD_HOST_ID_SEQ_SHIFT = 4"
definition MORSE_CMD_HOST_ID_SEQ_MASK :: u16 where "MORSE_CMD_HOST_ID_SEQ_MASK = 0xfff0"
definition MM_MAX_COMMAND_RETRY :: nat where "MM_MAX_COMMAND_RETRY = 2"

text \<open>The sizes of \<open>struct morse_cmd_header\<close> and of a response without data, and the fields of the header.\<close>

definition CMD_HEADER_SIZE :: nat where "CMD_HEADER_SIZE = 12"
definition CMD_RESP_SIZE :: nat where "CMD_RESP_SIZE = 16"

definition hdr_flags :: "u8 list \<Rightarrow> u16 option" where "hdr_flags b = le16_at b 0"
definition hdr_message_id :: "u8 list \<Rightarrow> u16 option" where "hdr_message_id b = le16_at b 2"
definition hdr_len :: "u8 list \<Rightarrow> u16 option" where "hdr_len b = le16_at b 4"
definition hdr_host_id :: "u8 list \<Rightarrow> u16 option" where "hdr_host_id b = le16_at b 6"
definition resp_status :: "u8 list \<Rightarrow> u32 option" where "resp_status b = le32_at b CMD_HEADER_SIZE"

definition set_le16 :: "nat \<Rightarrow> u16 \<Rightarrow> u8 list \<Rightarrow> u8 list" where
  "set_le16 i w b = take i b @ le16 w @ drop (i + 2) b"

section \<open>State\<close>

text \<open>A command's frame, and what the driver keeps in its control block: the size of the response and whether there is a buffer for it.\<close>

record cmd_skb =
  ck_try :: nat
  ck_mem :: "u8 list"
  cb_length :: nat
  cb_dest :: bool
  cb_ret :: int

text \<open>
  The queue with its pending list; \<open>cmd_comp\<close> is the completion (\<open>None\<close>: \<open>NULL\<close>) and whether it is done; \<open>dest\<close> is the
  response buffer of the command that waits; \<open>passed_on\<close> are the events that went to the event handler, and \<open>ps_holds\<close> how often
  power save is held off.
\<close>

record cmd_host =
  cmd_seq :: u16
  cmd_comp :: "bool option"
  c_queue :: "cmd_skb list"
  c_pending :: "cmd_skb list"
  dest :: "u8 list"
  passed_on :: "u8 list list"
  ps_holds :: int

text \<open>What happens while a command waits: the chip takes the frames of the queue, and a frame of the command channel arrives.\<close>

datatype wait_event = To_chip | From_chip "u8 list"

text \<open>By try: whether memory can be allocated, what the queue answers, the padding behind the frame's header, and what happens.\<close>

record cmd_env =
  k_queue :: bool
  k_alloc :: "nat \<Rightarrow> bool"
  k_queue_tx :: "nat \<Rightarrow> int"
  k_pad :: "nat \<Rightarrow> u8"
  k_events :: "nat \<Rightarrow> wait_event list"

section \<open>A response arrives\<close>

text \<open>
  The Morse header in front of a command; the fields that are not read here are 0. \<open>skb_pull\<close> leaves a frame alone that is too
  short.
\<close>

definition cmd_frame :: "u8 \<Rightarrow> u8 list \<Rightarrow> u8 list" where
  "cmd_frame pad req =
     [0xaa, of_nat CHAN_COMMAND] @ le16 (of_nat (length req)) @ [pad, 0, 0, 0] @ replicate 32 0 @ replicate (unat pad) 0 @ req"

definition pull_header :: "u8 list \<Rightarrow> u8 list option" where
  "pull_header b =
     do { pad \<leftarrow> nth_opt b 4; (let n = SKB_HEADER_SIZE + unat pad in Some (if length b < n then b else drop n b)) }"

definition store_response :: "u8 list \<Rightarrow> cmd_skb \<Rightarrow> cmd_host \<Rightarrow> (cmd_skb \<times> cmd_host) option" where
  "store_response src s st =
     (if CMD_RESP_SIZE \<le> cb_length s \<and> cb_dest s
      then do {
        l \<leftarrow> hdr_len src;
        (let n = min (cb_length s) (unat l + CMD_HEADER_SIZE)
         in if length src < n \<or> length (dest st) < n then None
            else Some (s\<lparr>cb_ret := 0\<rparr>, st\<lparr>dest := take n src @ drop n (dest st)\<rparr>))
      }
      else do { status \<leftarrow> resp_status src; Some (s\<lparr>cb_ret := sint status\<rparr>, st) })"

definition morse_cmd_resp_process :: "u8 list \<Rightarrow> cmd_host \<Rightarrow> cmd_host option" where
  "morse_cmd_resp_process src st =
     do {
       flags \<leftarrow> hdr_flags src;
       resp_message_id \<leftarrow> hdr_message_id src;
       resp_host_id \<leftarrow> hdr_host_id src;
       if flags AND MORSE_CMD_TYPE_RESP = 0 then Some (st\<lparr>passed_on := passed_on st @ [src]\<rparr>)
       else case c_pending st of
           [] \<Rightarrow> Some st
         | s # ss \<Rightarrow> do {
             m \<leftarrow> pull_header (ck_mem s);
             message_id \<leftarrow> hdr_message_id m;
             host_id \<leftarrow> hdr_host_id m;
             let s = s\<lparr>ck_mem := m\<rparr>;
                 st = st\<lparr>c_pending := s # ss\<rparr>
             in if message_id \<noteq> resp_message_id \<or> host_id AND MORSE_CMD_HOST_ID_SEQ_MASK \<noteq> resp_host_id AND MORSE_CMD_HOST_ID_SEQ_MASK
                then Some st
                else do {
                  (s, st) \<leftarrow> store_response src s st;
                  Some (st\<lparr>c_pending := s # ss, cmd_comp := map_option (\<lambda>_. True) (cmd_comp st)\<rparr>)
                }
           }
     }"

section \<open>Sending a command\<close>

definition wait_step :: "wait_event \<Rightarrow> cmd_host \<Rightarrow> cmd_host option" where
  "wait_step e st =
     (case e of
        To_chip \<Rightarrow> Some (st\<lparr>c_pending := c_pending st @ c_queue st, c_queue := []\<rparr>)
      | From_chip src \<Rightarrow> morse_cmd_resp_process src st)"

text \<open>The wait ends when the command completes; when nothing more happens it times out.\<close>

fun wait_for_completion :: "wait_event list \<Rightarrow> cmd_host \<Rightarrow> (cmd_host \<times> bool) option" where
  "wait_for_completion [] st = Some (st, False)"
| "wait_for_completion (e # es) st =
     do { st \<leftarrow> wait_step e st; if cmd_comp st = Some True then Some (st, True) else wait_for_completion es st }"

text \<open>The command's frame is taken from the list it is in; from a list it is not in would corrupt the list.\<close>

definition cmd_finish :: "nat \<Rightarrow> cmd_host \<Rightarrow> cmd_host option" where
  "cmd_finish i st =
     (if c_pending st \<noteq> [] then
        (if i \<in> ck_try ` set (c_pending st) then Some (st\<lparr>c_pending := filter (\<lambda>s. ck_try s \<noteq> i) (c_pending st)\<rparr>) else None)
      else if c_queue st \<noteq> [] then
        (if i \<in> ck_try ` set (c_queue st) then Some (st\<lparr>c_queue := filter (\<lambda>s. ck_try s \<noteq> i) (c_queue st)\<rparr>) else None)
      else Some st)"

text \<open>One try; the last component says whether the loop may go on.\<close>

definition cmd_try :: "cmd_env \<Rightarrow> nat \<Rightarrow> bool \<Rightarrow> u8 list \<Rightarrow> u16 \<Rightarrow> nat \<Rightarrow> cmd_host \<Rightarrow> (cmd_host \<times> int \<times> bool) option" where
  "cmd_try env len resp req host_id retry st =
     do {
       l \<leftarrow> hdr_len req;
       let req = set_le16 6 (host_id OR of_nat retry) req;
           cmd_len = CMD_HEADER_SIZE + unat l
       in if \<not> k_alloc env retry then Some (st, - ENOMEM, False)
          else if length req < cmd_len then None
          else let st = st\<lparr>cmd_comp := Some False\<rparr>;
                   s = \<lparr>ck_try = retry, ck_mem = cmd_frame (k_pad env retry) (take cmd_len req), cb_length = len, cb_dest = resp, cb_ret = 0\<rparr>
          in if k_queue_tx env retry \<noteq> 0 then Some (st, k_queue_tx env retry, False)
             else do {
               (st, answered) \<leftarrow> wait_for_completion (k_events env retry) (st\<lparr>c_queue := c_queue st @ [s]\<rparr>);
               let st = st\<lparr>cmd_comp := None\<rparr>;
               ret \<leftarrow> (if \<not> answered then Some (- ETIMEDOUT)
                      else if len \<noteq> 0 \<and> resp then map_option sint (resp_status (dest st))
                      else map_option cb_ret (find (\<lambda>s. ck_try s = retry) (c_pending st @ c_queue st)));
               st \<leftarrow> cmd_finish retry st;
               Some (st, ret, True)
             }
     }"

fun cmd_loop :: "nat \<Rightarrow> cmd_env \<Rightarrow> nat \<Rightarrow> bool \<Rightarrow> u8 list \<Rightarrow> u16 \<Rightarrow> nat \<Rightarrow> cmd_host \<Rightarrow> (cmd_host \<times> int) option" where
  "cmd_loop 0 env len resp req host_id retry st = None"
| "cmd_loop (Suc n) env len resp req host_id retry st =
     do {
       (st, ret, go) \<leftarrow> cmd_try env len resp req host_id retry st;
       if go \<and> ret = - ETIMEDOUT \<and> retry + 1 < MM_MAX_COMMAND_RETRY then cmd_loop n env len resp req host_id (retry + 1) st
       else Some (st, ret)
     }"

definition next_seq :: "u16 \<Rightarrow> u16" where
  "next_seq s = (if MORSE_CMD_HOST_ID_SEQ_MAX < s + 1 then 1 else s + 1)"

definition morse_cmd_tx :: "cmd_env \<Rightarrow> nat \<Rightarrow> bool \<Rightarrow> u8 list \<Rightarrow> cmd_host \<Rightarrow> (cmd_host \<times> int) option" where
  "morse_cmd_tx env len resp req st =
     (if \<not> k_queue env then Some (st, - ENODEV)
      else let st = st\<lparr>cmd_seq := next_seq (cmd_seq st), ps_holds := ps_holds st + 1\<rparr>
           in map_option (\<lambda>(st, ret). (st\<lparr>ps_holds := ps_holds st - 1\<rparr>, ret))
                (cmd_loop MM_MAX_COMMAND_RETRY env len resp (set_le16 0 MORSE_CMD_TYPE_REQ req)
                   (push_bit MORSE_CMD_HOST_ID_SEQ_SHIFT (cmd_seq st)) 0 st))"

definition morse_cmd_init :: "u16 \<Rightarrow> u16 \<Rightarrow> nat \<Rightarrow> u8 list \<Rightarrow> u8 list" where
  "morse_cmd_init cmd vif_id len b =
     (if len < CMD_HEADER_SIZE then b
      else set_le16 8 vif_id (set_le16 4 (of_nat (len - CMD_HEADER_SIZE)) (set_le16 2 cmd b)))"

end
