(* ===== verification/Command_Theorems.thy ===== *)
theory Command_Theorems
  imports Command
begin

text \<open>
  Commands and their responses: a response reaches the command it answers, whatever late responses arrive before it, and nothing of a
  command is left when it returns.
\<close>

section \<open>Fields\<close>

lemma length_set_le16: "i + 2 \<le> length b \<Longrightarrow> length (set_le16 i w b) = length b"
  by (simp add: set_le16_def)

lemma nth_set_le16: "i + 2 \<le> length b \<Longrightarrow> j < i \<or> i + 2 \<le> j \<Longrightarrow> nth_opt (set_le16 i w b) j = nth_opt b j"
  by (auto simp: nth_opt_def set_le16_def le16_def nth_append intro!: arg_cong [of _ _ "nth b"])

lemma le16_at_set: "i + 2 \<le> length b \<Longrightarrow> le16_at (set_le16 i w b) i = Some w"
  using le16_at_le16 [of "take i b" w "drop (i + 2) b"] by (simp add: set_le16_def)

lemma le16_at_set_other: "i + 2 \<le> length b \<Longrightarrow> j + 2 \<le> i \<or> i + 2 \<le> j \<Longrightarrow> le16_at (set_le16 i w b) j = le16_at b j"
  by (auto simp: le16_at_def nth_set_le16)

text \<open>A request with all the octets its header says; a short one has at most 255 of them behind the header.\<close>

definition whole_request :: "u8 list \<Rightarrow> bool" where
  "whole_request req = (case hdr_len req of None \<Rightarrow> False | Some l \<Rightarrow> length req = CMD_HEADER_SIZE + unat l)"

definition short_request :: "u8 list \<Rightarrow> bool" where
  "short_request req = (case hdr_len req of None \<Rightarrow> False | Some l \<Rightarrow> unat l < 256 \<and> length req = CMD_HEADER_SIZE + unat l)"

lemma whole_requestD:
  assumes "whole_request req"
  shows "\<exists>l. hdr_len req = Some l \<and> length req = 12 + unat l"
  using assms by (auto simp: whole_request_def CMD_HEADER_SIZE_def split: option.splits)

lemma short_requestD:
  assumes "short_request req"
  shows "\<exists>l. hdr_len req = Some l \<and> unat l < 256 \<and> length req = 12 + unat l"
  using assms by (auto simp: short_request_def CMD_HEADER_SIZE_def split: option.splits)

lemma request_set:
  assumes "whole_request req" "i \<in> {0, 2, 6, 8}"
  shows "whole_request (set_le16 i w req)" "short_request (set_le16 i w req) \<longleftrightarrow> short_request req"
proof -
  obtain l where l: "hdr_len req = Some l" "length req = 12 + unat l" using whole_requestD [OF assms(1)] by blast
  then have "hdr_len (set_le16 i w req) = Some l" "length (set_le16 i w req) = 12 + unat l"
    using assms(2) by (auto simp: hdr_len_def le16_at_set_other length_set_le16)
  then show "whole_request (set_le16 i w req)" "short_request (set_le16 i w req) \<longleftrightarrow> short_request req"
    using l by (simp_all add: whole_request_def short_request_def CMD_HEADER_SIZE_def)
qed

section \<open>The header in front of the command\<close>

lemma pull_frame: "pull_header (cmd_frame pad req) = Some req"
proof -
  have pad: "nth_opt (cmd_frame pad req) 4 = Some pad" by (simp add: cmd_frame_def nth_opt_def le16_def)
  obtain h where h: "cmd_frame pad req = h @ req" "length h = SKB_HEADER_SIZE + unat pad"
  proof
    show "cmd_frame pad req = ([0xaa, of_nat CHAN_COMMAND] @ le16 (of_nat (length req)) @ [pad, 0, 0, 0] @ replicate 32 0 @ replicate (unat pad) 0) @ req"
      by (simp add: cmd_frame_def)
  qed (simp add: SKB_HEADER_SIZE_def)
  show ?thesis using pad h(2) unfolding h(1) pull_header_def by (simp add: Let_def)
qed

text \<open>The header is removed again when a late response came before: that does nothing to a short command.\<close>

lemma pull_again:
  assumes "short_request req"
  shows "pull_header req = Some req"
proof -
  obtain l where l: "hdr_len req = Some l" "unat l < 256" "length req = 12 + unat l" using short_requestD [OF assms] by blast
  then obtain x y where xy: "nth_opt req 4 = Some x" "nth_opt req 5 = Some y" "l = ucast x OR push_bit 8 (ucast y)"
    by (auto simp: hdr_len_def le16_at_def split: Option.bind_splits)
  have "unat x = unat l"
  proof -
    have "x = ucast l" unfolding xy(3) by (rule bit_word_eqI) (auto simp: bit_simps)
    then show ?thesis using l(2) by (simp add: unsigned_ucast_eq take_bit_nat_eq_self)
  qed
  then show ?thesis using xy(1) l(3) by (simp add: pull_header_def SKB_HEADER_SIZE_def Let_def)
qed

section \<open>Responses\<close>

definition readable :: "u8 list \<Rightarrow> bool" where
  "readable src \<longleftrightarrow> 12 \<le> length src"

definition is_response :: "u8 list \<Rightarrow> bool" where
  "is_response src \<longleftrightarrow> (case hdr_flags src of None \<Rightarrow> False | Some f \<Rightarrow> f AND MORSE_CMD_TYPE_RESP \<noteq> 0)"

text \<open>How many responses, to whatever command, arrive.\<close>

fun responses :: "wait_event list \<Rightarrow> nat" where
  "responses [] = 0"
| "responses (To_chip # es) = responses es"
| "responses (From_chip src # es) = of_bool (is_response src) + responses es"

text \<open>Whether a message answers the command with an id and a host id.\<close>

definition answers :: "u16 \<Rightarrow> u16 \<Rightarrow> u8 list \<Rightarrow> bool" where
  "answers message_id host_id src =
     (case (hdr_flags src, hdr_message_id src, hdr_host_id src) of
        (Some f, Some m, Some h) \<Rightarrow>
          f AND MORSE_CMD_TYPE_RESP \<noteq> 0 \<and> m = message_id \<and> h AND MORSE_CMD_HOST_ID_SEQ_MASK = host_id AND MORSE_CMD_HOST_ID_SEQ_MASK
      | _ \<Rightarrow> False)"

lemma readable_fields:
  assumes "readable src"
  shows "\<exists>f m h. hdr_flags src = Some f \<and> hdr_message_id src = Some m \<and> hdr_host_id src = Some h"
  using assms by (auto simp: readable_def hdr_flags_def hdr_message_id_def hdr_host_id_def le16_at_def nth_opt_def)

text \<open>
  The frame of a command, before and after a late response, while \<open>n\<close> more responses may arrive: a command that is not short
  survives only the first of them.
\<close>

definition is_pending :: "nat \<Rightarrow> u8 list \<Rightarrow> nat \<Rightarrow> nat \<Rightarrow> bool \<Rightarrow> cmd_skb \<Rightarrow> bool" where
  "is_pending n req i len resp s \<longleftrightarrow>
     ((\<exists>pad. ck_mem s = cmd_frame pad req) \<and> (short_request req \<or> n \<le> 1) \<or> ck_mem s = req \<and> (short_request req \<or> n = 0)) \<and>
     ck_try s = i \<and> cb_length s = len \<and> cb_dest s = resp"

lemma pull_pending:
  assumes "is_pending (Suc n) req i len resp s"
  shows "pull_header (ck_mem s) = Some req" "is_pending n req i len resp (s\<lparr>ck_mem := req\<rparr>)"
  using assms by (auto simp: is_pending_def pull_frame pull_again)

lemma is_pending_less: "is_pending n req i len resp s \<Longrightarrow> m \<le> n \<Longrightarrow> is_pending m req i len resp s"
  by (auto simp: is_pending_def)

lemma resp_late:
  assumes req: "hdr_message_id req = Some m" "hdr_host_id req = Some h"
    and st: "c_pending st = [s]" "is_pending (of_bool (is_response src) + n) req i len resp s" and src: "readable src" "\<not> answers m h src"
  shows "\<exists>s' ev. morse_cmd_resp_process src st = Some (st\<lparr>c_pending := [s'], passed_on := ev\<rparr>) \<and> is_pending n req i len resp s'"
proof -
  obtain f mm hh where fields: "hdr_flags src = Some f" "hdr_message_id src = Some mm" "hdr_host_id src = Some hh" using readable_fields [OF src(1)] by blast
  have same: "st\<lparr>c_pending := [s]\<rparr> = st" using st(1) by simp
  show ?thesis
  proof (cases "f AND MORSE_CMD_TYPE_RESP = 0")
    case True
    then have "morse_cmd_resp_process src st = Some (st\<lparr>c_pending := [s], passed_on := passed_on st @ [src]\<rparr>)"
      using fields same by (simp add: morse_cmd_resp_process_def)
    with is_pending_less [OF st(2)] show ?thesis by fastforce
  next
    case False
    then have "is_pending (Suc n) req i len resp s" using st(2) fields by (simp add: is_response_def)
    note p = pull_pending [OF this]
    have "m \<noteq> mm \<or> h AND MORSE_CMD_HOST_ID_SEQ_MASK \<noteq> hh AND MORSE_CMD_HOST_ID_SEQ_MASK"
      using False src(2) fields by (auto simp: answers_def)
    then have "morse_cmd_resp_process src st = Some (st\<lparr>c_pending := [s\<lparr>ck_mem := req\<rparr>], passed_on := passed_on st\<rparr>)"
      using fields False st(1) p(1) req by (simp add: morse_cmd_resp_process_def Let_def)
    with p(2) show ?thesis by blast
  qed
qed

lemma wait_late:
  assumes req: "hdr_message_id req = Some m" "hdr_host_id req = Some h"
    and late: "\<forall>src \<in> set late. readable src \<and> \<not> answers m h src"
    and st: "c_pending st = [s]" "is_pending (responses (map From_chip late) + n) req i len resp s" "cmd_comp st \<noteq> Some True"
  shows "\<exists>s' ev. wait_for_completion (map From_chip late @ es) st = wait_for_completion es (st\<lparr>c_pending := [s'], passed_on := ev\<rparr>) \<and>
    is_pending n req i len resp s'"
  using late st
proof (induction late arbitrary: st s)
  case Nil
  then have "st\<lparr>c_pending := [s], passed_on := passed_on st\<rparr> = st" by simp
  with Nil show ?case by (metis add.left_neutral append_Nil list.simps(8) responses.simps(1))
next
  case (Cons src late)
  obtain s' ev where 1: "morse_cmd_resp_process src st = Some (st\<lparr>c_pending := [s'], passed_on := ev\<rparr>)"
      "is_pending (responses (map From_chip late) + n) req i len resp s'"
    using resp_late [OF req Cons.prems(2), of src "responses (map From_chip late) + n" i len resp] Cons.prems(1,3) by (auto simp: add.assoc)
  let ?st = "st\<lparr>c_pending := [s'], passed_on := ev\<rparr>"
  obtain s'' ev' where "wait_for_completion (map From_chip late @ es) ?st = wait_for_completion es (?st\<lparr>c_pending := [s''], passed_on := ev'\<rparr>)"
      "is_pending n req i len resp s''"
    using Cons.IH [of ?st s'] Cons.prems(1,4) 1(2) by auto
  then show ?case using 1(1) Cons.prems(4) by (auto simp: wait_step_def)
qed

lemma resp_match:
  assumes req: "hdr_message_id req = Some m" "hdr_host_id req = Some h"
    and st: "c_pending st = [s]" "is_pending (Suc n) req i len True s" "length (dest st) = len" "cmd_comp st \<noteq> None"
    and src: "answers m h src" "hdr_len src = Some l" "CMD_RESP_SIZE \<le> len" "min len (unat l + CMD_HEADER_SIZE) \<le> length src"
  shows "\<exists>s'. morse_cmd_resp_process src st =
      Some (st\<lparr>c_pending := [s'], dest := take (min len (unat l + CMD_HEADER_SIZE)) src @ drop (min len (unat l + CMD_HEADER_SIZE)) (dest st), cmd_comp := Some True\<rparr>) \<and>
    is_pending n req i len True s'"
proof -
  obtain f hh where fields: "hdr_flags src = Some f" "hdr_message_id src = Some m" "hdr_host_id src = Some hh"
      "f AND MORSE_CMD_TYPE_RESP \<noteq> 0" "hh AND MORSE_CMD_HOST_ID_SEQ_MASK = h AND MORSE_CMD_HOST_ID_SEQ_MASK"
    using src(1) by (auto simp: answers_def split: option.splits)
  note p = pull_pending [OF st(2)]
  have s: "cb_length s = len" "cb_dest s" using st(2) by (auto simp: is_pending_def)
  have "is_pending n req i len True (s\<lparr>ck_mem := req, cb_ret := 0\<rparr>)" using p(2) by (simp add: is_pending_def)
  then show ?thesis using fields p(1) st(1,3,4) req s src(2-4)
    by (auto simp: morse_cmd_resp_process_def store_response_def Let_def intro!: exI [of _ "s\<lparr>ck_mem := req, cb_ret := 0\<rparr>"])
qed

section \<open>A command that waits\<close>

text \<open>The command's frame is the only one, on one of the lists.\<close>

definition waits :: "nat \<Rightarrow> u8 list \<Rightarrow> nat \<Rightarrow> nat \<Rightarrow> bool \<Rightarrow> cmd_host \<Rightarrow> bool" where
  "waits n req i len resp st \<longleftrightarrow>
     length (dest st) = len \<and> cmd_comp st \<noteq> None \<and>
     (\<exists>s. is_pending n req i len resp s \<and> (c_queue st = [s] \<and> c_pending st = [] \<or> c_queue st = [] \<and> c_pending st = [s]))"

lemma waits_less: "waits n req i len resp st \<Longrightarrow> m \<le> n \<Longrightarrow> waits m req i len resp st"
  unfolding waits_def using is_pending_less by blast

text \<open>A message with a header, in a response also the octets that are copied from it into a buffer of \<open>len\<close> octets, or else a status.\<close>

definition message_ok :: "nat \<Rightarrow> bool \<Rightarrow> u8 list \<Rightarrow> bool" where
  "message_ok len resp src =
     (12 \<le> length src \<and>
      (is_response src \<longrightarrow>
        (if CMD_RESP_SIZE \<le> len \<and> resp
         then case hdr_len src of None \<Rightarrow> False | Some l \<Rightarrow> min len (unat l + CMD_HEADER_SIZE) \<le> length src
         else 16 \<le> length src)))"

lemma store_response_ok:
  assumes "message_ok len resp src" "is_response src" "is_pending n req i len resp s" "length (dest st) = len"
  shows "\<exists>s' d. store_response src s st = Some (s', st\<lparr>dest := d\<rparr>) \<and> is_pending n req i len resp s' \<and> length d = len"
proof -
  have s: "cb_length s = len" "cb_dest s = resp" using assms(3) by (simp_all add: is_pending_def)
  have p: "is_pending n req i len resp (s\<lparr>cb_ret := r\<rparr>)" for r using assms(3) by (simp add: is_pending_def)
  show ?thesis
  proof (cases "CMD_RESP_SIZE \<le> len \<and> resp")
    case True
    then obtain l where l: "hdr_len src = Some l" "min len (unat l + CMD_HEADER_SIZE) \<le> length src"
      using assms(1,2) by (auto simp: message_ok_def split: option.splits)
    let ?n = "min len (unat l + CMD_HEADER_SIZE)"
    have "store_response src s st = Some (s\<lparr>cb_ret := 0\<rparr>, st\<lparr>dest := take ?n src @ drop ?n (dest st)\<rparr>)"
      using True l s assms(4) by (auto simp: store_response_def Let_def min_le_iff_disj)
    moreover have "length (take ?n src @ drop ?n (dest st)) = len" using l assms(4) by simp
    ultimately show ?thesis using p by blast
  next
    case False
    then have "16 \<le> length src" using assms(1,2) by (auto simp: message_ok_def)
    then obtain w where "resp_status src = Some w"
      by (auto simp: resp_status_def le32_at_def le16_at_def nth_opt_def CMD_HEADER_SIZE_def)
    then have "store_response src s st = Some (s\<lparr>cb_ret := sint w\<rparr>, st\<lparr>dest := dest st\<rparr>)" using False s by (auto simp: store_response_def)
    with p assms(4) show ?thesis by blast
  qed
qed

lemma resp_process_waits:
  assumes req: "whole_request req" and st: "waits (of_bool (is_response src) + n) req i len resp st" and src: "message_ok len resp src"
  shows "\<exists>st'. morse_cmd_resp_process src st = Some st' \<and> waits n req i len resp st' \<and> cmd_seq st' = cmd_seq st \<and> ps_holds st' = ps_holds st"
proof -
  have "readable src" using src by (simp add: message_ok_def readable_def)
  then obtain f m h where fields: "hdr_flags src = Some f" "hdr_message_id src = Some m" "hdr_host_id src = Some h" using readable_fields by blast
  have st': "waits n req i len resp st" by (rule waits_less [OF st]) simp
  show ?thesis
  proof (cases "is_response src \<and> c_pending st \<noteq> []")
    case False
    then show ?thesis using fields st' by (auto simp: morse_cmd_resp_process_def waits_def is_response_def)
  next
    case True
    then obtain s where s: "is_pending (Suc n) req i len resp s" "c_pending st = [s]" "c_queue st = []"
      "length (dest st) = len" "cmd_comp st \<noteq> None" using st unfolding waits_def by auto
    let ?s = "s\<lparr>ck_mem := req\<rparr>" and ?st = "st\<lparr>c_pending := [s\<lparr>ck_mem := req\<rparr>]\<rparr>"
    note p = pull_pending [OF s(1)]
    have "12 \<le> length req" using whole_requestD [OF req] by auto
    then obtain mm hh where rf: "hdr_message_id req = Some mm" "hdr_host_id req = Some hh" using readable_fields [of req] by (auto simp: readable_def)
    obtain s2 d where st2: "store_response src ?s ?st = Some (s2, ?st\<lparr>dest := d\<rparr>)" "is_pending n req i len resp s2" "length d = len"
      using store_response_ok [OF src _ p(2), of ?st] s(4) True by auto
    have "morse_cmd_resp_process src st =
        (if mm \<noteq> m \<or> hh AND MORSE_CMD_HOST_ID_SEQ_MASK \<noteq> h AND MORSE_CMD_HOST_ID_SEQ_MASK then Some ?st
         else Some (?st\<lparr>dest := d, c_pending := [s2], cmd_comp := map_option (\<lambda>_. True) (cmd_comp st)\<rparr>))"
      using fields True s(2) p(1) rf st2(1) by (simp add: morse_cmd_resp_process_def Let_def is_response_def)
    moreover have "waits n req i len resp ?st" using s(3-5) p(2) by (simp add: waits_def)
    moreover have "waits n req i len resp (?st\<lparr>dest := d, c_pending := [s2], cmd_comp := map_option (\<lambda>_. True) (cmd_comp st)\<rparr>)"
      using s(3,5) st2(2,3) by (simp add: waits_def)
    ultimately show ?thesis by simp
  qed
qed

lemma wait_ok:
  assumes req: "whole_request req" and src: "\<And>src. From_chip src \<in> set es \<Longrightarrow> message_ok len resp src"
    and st: "waits (responses es) req i len resp st"
  shows "\<exists>st' b. wait_for_completion es st = Some (st', b) \<and> waits 0 req i len resp st' \<and> cmd_seq st' = cmd_seq st \<and> ps_holds st' = ps_holds st"
  using src st
proof (induction es arbitrary: st)
  case (Cons e es)
  have "\<exists>st'. wait_step e st = Some st' \<and> waits (responses es) req i len resp st' \<and> cmd_seq st' = cmd_seq st \<and> ps_holds st' = ps_holds st"
  proof (cases e)
    case To_chip
    then show ?thesis using Cons.prems(2) by (auto simp: wait_step_def waits_def)
  next
    case (From_chip src)
    then show ?thesis using resp_process_waits [OF req, of src "responses es" i len resp st] Cons.prems by (simp add: wait_step_def)
  qed
  then obtain st' where st': "wait_step e st = Some st'" "waits (responses es) req i len resp st'" "cmd_seq st' = cmd_seq st" "ps_holds st' = ps_holds st" by blast
  have "\<exists>st'' b. wait_for_completion es st' = Some (st'', b) \<and> waits 0 req i len resp st'' \<and> cmd_seq st'' = cmd_seq st' \<and> ps_holds st'' = ps_holds st'"
    using Cons.prems(1) st'(2) by (intro Cons.IH) auto
  with st' show ?case using waits_less [of "responses es" req i len resp st' 0] by auto
qed auto

text \<open>Nothing is on the lists.\<close>

definition idle :: "nat \<Rightarrow> cmd_host \<Rightarrow> bool" where
  "idle len st \<longleftrightarrow> c_queue st = [] \<and> c_pending st = [] \<and> length (dest st) = len"

lemma finish_waits:
  assumes "waits n req i len resp st"
  shows "cmd_finish i (st\<lparr>cmd_comp := None\<rparr>) = Some (st\<lparr>cmd_comp := None, c_queue := [], c_pending := []\<rparr>)"
proof -
  obtain s where s: "is_pending n req i len resp s" "c_queue st = [s] \<and> c_pending st = [] \<or> c_queue st = [] \<and> c_pending st = [s]"
    using assms unfolding waits_def by blast
  have i: "ck_try s = i" using s(1) by (simp add: is_pending_def)
  from s(2) show ?thesis
  proof
    assume a: "c_queue st = [s] \<and> c_pending st = []"
    then have "st\<lparr>cmd_comp := None, c_queue := []\<rparr> = st\<lparr>cmd_comp := None, c_queue := [], c_pending := []\<rparr>" by simp
    with a i show ?thesis by (simp add: cmd_finish_def)
  next
    assume a: "c_queue st = [] \<and> c_pending st = [s]"
    then have "st\<lparr>cmd_comp := None, c_pending := []\<rparr> = st\<lparr>cmd_comp := None, c_queue := [], c_pending := []\<rparr>" by simp
    with a i show ?thesis by (simp add: cmd_finish_def)
  qed
qed

lemma idle_finished: "waits n req i len resp st \<Longrightarrow> idle len (st\<lparr>cmd_comp := None, c_queue := [], c_pending := []\<rparr>)"
  by (simp add: idle_def waits_def)

lemma waits_start:
  assumes "idle len st" "short_request req \<or> n \<le> 1"
  shows "waits n req i len resp (st\<lparr>cmd_comp := Some False,
    c_queue := c_queue st @ [\<lparr>ck_try = i, ck_mem = cmd_frame pad req, cb_length = len, cb_dest = resp, cb_ret = 0\<rparr>]\<rparr>)"
  using assms by (auto simp: idle_def waits_def is_pending_def)

lemma cmd_try_ok:
  assumes req: "whole_request req" and idle: "idle len st" and len: "resp \<longrightarrow> len = 0 \<or> CMD_RESP_SIZE \<le> len"
    and src: "\<And>src. From_chip src \<in> set (k_events env i) \<Longrightarrow> message_ok len resp src"
    and few: "short_request req \<or> responses (k_events env i) \<le> 1"
  shows "\<exists>st' ret go. cmd_try env len resp req host_id i st = Some (st', ret, go) \<and> idle len st' \<and> cmd_seq st' = cmd_seq st \<and> ps_holds st' = ps_holds st"
proof -
  let ?req = "set_le16 6 (host_id OR of_nat i) req"
  have r: "whole_request ?req" "short_request ?req \<or> responses (k_events env i) \<le> 1" using request_set [OF req] few by simp_all
  obtain l where l: "hdr_len req = Some l" "length ?req = CMD_HEADER_SIZE + unat l"
    using whole_requestD [OF req] by (auto simp: length_set_le16 CMD_HEADER_SIZE_def)
  show ?thesis
  proof (cases "k_alloc env i \<and> k_queue_tx env i = 0")
    case False
    then show ?thesis using l idle by (auto simp: cmd_try_def Let_def idle_def)
  next
    case True
    let ?s = "\<lparr>ck_try = i, ck_mem = cmd_frame (k_pad env i) ?req, cb_length = len, cb_dest = resp, cb_ret = 0\<rparr>"
    let ?st = "st\<lparr>cmd_comp := Some False, c_queue := c_queue st @ [?s]\<rparr>"
    obtain x b where x: "wait_for_completion (k_events env i) ?st = Some (x, b)" "waits 0 ?req i len resp x" "cmd_seq x = cmd_seq st" "ps_holds x = ps_holds st"
    proof -
      have "waits (responses (k_events env i)) ?req i len resp ?st" by (rule waits_start [OF idle r(2)])
      from wait_ok [OF r(1) src this] show ?thesis using that by auto
    qed
    note fin = finish_waits [OF x(2)]
    have d: "length (dest x) = len" using x(2) by (simp add: waits_def)
    have d': "resp_status (dest x) \<noteq> None" if "len \<noteq> 0" "resp"
      using that len d by (auto simp: resp_status_def le32_at_def le16_at_def nth_opt_def CMD_HEADER_SIZE_def CMD_RESP_SIZE_def)
    have f: "find (\<lambda>s. ck_try s = i) (c_pending x @ c_queue x) \<noteq> None" using x(2) by (auto simp: waits_def is_pending_def)
    obtain ret where ret: "(if \<not> b then Some (- ETIMEDOUT) else if len \<noteq> 0 \<and> resp then map_option sint (resp_status (dest x))
        else map_option cb_ret (find (\<lambda>s. ck_try s = i) (c_pending x @ c_queue x))) = Some ret"
      using d' f by (cases "b"; cases "len \<noteq> 0 \<and> resp") auto
    have "cmd_try env len resp req host_id i st =
        do { ret \<leftarrow> (if \<not> b then Some (- ETIMEDOUT) else if len \<noteq> 0 \<and> resp then map_option sint (resp_status (dest x))
               else map_option cb_ret (find (\<lambda>s. ck_try s = i) (c_pending x @ c_queue x)));
             Some (x\<lparr>cmd_comp := None, c_queue := [], c_pending := []\<rparr>, ret, True) }"
      using True l x(1) fin by (simp add: cmd_try_def Let_def cong: if_cong)
    then have "cmd_try env len resp req host_id i st = Some (x\<lparr>cmd_comp := None, c_queue := [], c_pending := []\<rparr>, ret, True)"
      unfolding ret by simp
    then show ?thesis using idle_finished [OF x(2)] x(3,4) by (auto intro: exI [of _ True])
  qed
qed

lemma cmd_loop_ok:
  assumes req: "whole_request req" and idle: "idle len st" and len: "resp \<longrightarrow> len = 0 \<or> CMD_RESP_SIZE \<le> len"
    and src: "\<And>i src. From_chip src \<in> set (k_events env i) \<Longrightarrow> message_ok len resp src"
    and few: "\<And>i. short_request req \<or> responses (k_events env i) \<le> 1" and n: "retry + n = MM_MAX_COMMAND_RETRY" "0 < n"
  shows "\<exists>st' ret. cmd_loop n env len resp req host_id retry st = Some (st', ret) \<and> idle len st' \<and> cmd_seq st' = cmd_seq st \<and> ps_holds st' = ps_holds st"
  using idle n
proof (induction n arbitrary: retry st)
  case (Suc n)
  obtain x ret go where x: "cmd_try env len resp req host_id retry st = Some (x, ret, go)" "idle len x" "cmd_seq x = cmd_seq st" "ps_holds x = ps_holds st"
    using cmd_try_ok [OF req Suc.prems(1) len src [of _ retry] few [of retry]] by blast
  show ?case
  proof (cases "go \<and> ret = - ETIMEDOUT \<and> retry + 1 < MM_MAX_COMMAND_RETRY")
    case True
    then have "\<exists>st' ret. cmd_loop n env len resp req host_id (retry + 1) x = Some (st', ret) \<and> idle len st' \<and> cmd_seq st' = cmd_seq x \<and> ps_holds st' = ps_holds x"
      using Suc.prems(2) x(2) by (intro Suc.IH) auto
    then show ?thesis using x True by auto
  qed (use x in auto)
qed simp

section \<open>The theorems\<close>

text \<open>C20: A command returns after at most two tries, whatever the chip sends or does not send meanwhile, and leaves nothing behind: no
  frame on the queue or the pending list, and power save as it was. So a response that comes after its command was given up is
  dropped, and is never written into a buffer that its owner has left. The messages are those the driver can read (\<open>message_ok\<close>):
  events have a header of 12 octets, and of a response as many octets are there as are copied from it (its length field
  is not compared with the frame, which is a recorded bug), or a status when there is no buffer. The request has the octets its header says,
  and a buffer room for a status. While a request of 256 octets and more behind the header waits, at most one
  response arrives in each try: a second one would strip the request again (the recorded bug of \<open>long_command_loses_answer\<close>).
\<close>

theorem cmd_returns_clean:
  assumes "c_queue st = []" "c_pending st = []" "length (dest st) = len" "resp \<longrightarrow> len = 0 \<or> 16 \<le> len"
    and "whole_request req" "\<forall>i src. From_chip src \<in> set (k_events env i) \<longrightarrow> message_ok len resp src"
    and "\<forall>i. short_request req \<or> responses (k_events env i) \<le> 1"
  shows "\<exists>st' ret. morse_cmd_tx env len resp req st = Some (st', ret) \<and> c_queue st' = [] \<and> c_pending st' = [] \<and> ps_holds st' = ps_holds st \<and>
    (\<forall>src. 12 \<le> length src \<longrightarrow> (\<exists>ev. morse_cmd_resp_process src st' = Some (st'\<lparr>passed_on := ev\<rparr>)))"
proof -
  have late: "\<exists>ev. morse_cmd_resp_process src x = Some (x\<lparr>passed_on := ev\<rparr>)" if "c_pending x = []" "12 \<le> length src" for x src
  proof -
    have "readable src" using that(2) by (simp add: readable_def)
    then obtain f m h where f: "hdr_flags src = Some f" "hdr_message_id src = Some m" "hdr_host_id src = Some h" using readable_fields by blast
    have "x = x\<lparr>passed_on := passed_on x\<rparr>" by simp
    then have "\<exists>ev. x = x\<lparr>passed_on := ev\<rparr>" by blast
    with f that(1) show ?thesis by (auto simp: morse_cmd_resp_process_def)
  qed
  show ?thesis
  proof (cases "k_queue env")
    case False
    then show ?thesis using assms(1,2) late by (simp add: morse_cmd_tx_def)
  next
    case True
    let ?st = "st\<lparr>cmd_seq := next_seq (cmd_seq st), ps_holds := ps_holds st + 1\<rparr>" and ?req = "set_le16 0 MORSE_CMD_TYPE_REQ req"
    have "idle len ?st" using assms(1-3) by (simp add: idle_def)
    moreover have "whole_request ?req" "\<And>i. short_request ?req \<or> responses (k_events env i) \<le> 1"
      using request_set [OF assms(5)] assms(7) by auto
    moreover have "resp \<longrightarrow> len = 0 \<or> CMD_RESP_SIZE \<le> len" using assms(4) by (simp add: CMD_RESP_SIZE_def)
    ultimately obtain x ret where x: "cmd_loop MM_MAX_COMMAND_RETRY env len resp ?req
        (push_bit MORSE_CMD_HOST_ID_SEQ_SHIFT (cmd_seq ?st)) 0 ?st = Some (x, ret)" "idle len x" "ps_holds x = ps_holds ?st"
      using cmd_loop_ok [of ?req len ?st resp env 0 MM_MAX_COMMAND_RETRY] assms(6)
      unfolding MM_MAX_COMMAND_RETRY_def by force
    then show ?thesis using True late [of "x\<lparr>ps_holds := ps_holds x - 1\<rparr>"] by (simp add: morse_cmd_tx_def Let_def idle_def)
  qed
qed

definition cmd_idle :: cmd_host where
  "cmd_idle = \<lparr>cmd_seq = 0, cmd_comp = None, c_queue = [], c_pending = [], dest = replicate 16 0, passed_on = [], ps_holds = 0\<rparr>"

definition cmd_req :: "u8 list" where "cmd_req = [0, 0, 0x10, 0, 0, 0, 0, 0, 0, 0, 0, 0]"
definition cmd_late :: "u8 list" where "cmd_late = [2, 0, 0x10, 0, 4, 0, 0xf0, 0, 0, 0, 0, 0, 1, 0, 0, 0]"
definition cmd_answer :: "u8 list" where "cmd_answer = [2, 0, 0x10, 0, 4, 0, 0x10, 0, 0, 0, 0, 0, 7, 0, 0, 0]"

definition cmd_env1 :: cmd_env where
  "cmd_env1 = \<lparr>k_queue = True, k_alloc = \<lambda>_. True, k_queue_tx = \<lambda>_. 0, k_pad = \<lambda>_. 0,
     k_events = \<lambda>_. To_chip # map From_chip [cmd_late] @ From_chip cmd_answer # []\<rparr>"

lemma cmd_returns_clean_witness:
  "\<exists>st' ret. morse_cmd_tx cmd_env1 16 True cmd_req cmd_idle = Some (st', ret) \<and> c_queue st' = [] \<and> c_pending st' = [] \<and> ps_holds st' = ps_holds cmd_idle"
proof -
  have "short_request cmd_req" "whole_request cmd_req" by code_simp+
  moreover have "message_ok 16 True cmd_late" "message_ok 16 True cmd_answer" by code_simp+
  ultimately show ?thesis using cmd_returns_clean [of cmd_idle 16 True cmd_req cmd_env1]
    by (auto simp: cmd_idle_def cmd_env1_def)
qed

text \<open>The first try of a command that is answered: what arrives before the answer changes nothing that counts.\<close>

lemma cmd_try_answered:
  assumes req: "whole_request req" "hdr_message_id req = Some m" and idle: "idle len st" and len: "16 \<le> len"
    and env: "k_alloc env 0" "k_queue_tx env 0 = 0" "k_events env 0 = To_chip # map From_chip late @ From_chip src # es"
    and late: "\<forall>src \<in> set late. readable src \<and> \<not> answers m h src" "short_request req \<or> (\<forall>src \<in> set late. \<not> is_response src)"
    and src: "answers m h src" "hdr_len src = Some l" "4 \<le> unat l" "min len (unat l + 12) \<le> length src" "resp_status src = Some w"
  shows "\<exists>ev. cmd_try env len True req h 0 st = Some (st\<lparr>cmd_comp := None, passed_on := ev,
    dest := take (min len (unat l + 12)) src @ drop (min len (unat l + 12)) (dest st)\<rparr>, sint w, True)"
proof -
  let ?req = "set_le16 6 h req" and ?n = "min len (unat l + 12)"
  let ?d = "take ?n src @ drop ?n (dest st)"
  let ?r = "responses (map From_chip late)"
  have "?r = 0" if "\<forall>src \<in> set late. \<not> is_response src" using that by (induction late) auto
  then have r: "short_request ?req \<or> ?r = 0" using request_set [OF req(1)] late(2) by auto
  obtain k where k: "hdr_len req = Some k" "length req = 12 + unat k" using whole_requestD [OF req(1)] by blast
  have rm: "hdr_message_id ?req = Some m" "hdr_host_id ?req = Some h"
    using req(2) k(2) by (auto simp: hdr_message_id_def hdr_host_id_def le16_at_set le16_at_set_other)
  let ?s = "\<lparr>ck_try = 0, ck_mem = cmd_frame (k_pad env 0) ?req, cb_length = len, cb_dest = True, cb_ret = 0\<rparr>"
  let ?st = "st\<lparr>cmd_comp := Some False, c_queue := c_queue st @ [?s]\<rparr>"
  let ?st1 = "st\<lparr>cmd_comp := Some False, c_queue := [], c_pending := [?s]\<rparr>"
  have i: "c_queue st = []" "c_pending st = []" "length (dest st) = len" using idle by (auto simp: idle_def)
  have to: "wait_step To_chip ?st = Some ?st1" using i by (simp add: wait_step_def)
  have p: "is_pending (?r + 1) ?req 0 len True ?s" using r by (auto simp: is_pending_def)
  obtain s' ev where 1: "wait_for_completion (map From_chip late @ From_chip src # es) ?st1 =
      wait_for_completion (From_chip src # es) (?st1\<lparr>c_pending := [s'], passed_on := ev\<rparr>)" "is_pending 1 ?req 0 len True s'"
    using wait_late [OF rm late(1), where st = ?st1 and s = ?s and n = 1 and i = 0 and len = len and resp = True and es = "From_chip src # es"] p
    by (auto simp del: wait_for_completion.simps)
  let ?st2 = "?st1\<lparr>c_pending := [s'], passed_on := ev\<rparr>"
  obtain s'' where 2: "morse_cmd_resp_process src ?st2 = Some (?st2\<lparr>c_pending := [s''], dest := ?d, cmd_comp := Some True\<rparr>)" "is_pending 0 ?req 0 len True s''"
    using resp_match [OF rm, of ?st2 s' 0 0 len src l] 1(2) i src len by (auto simp: CMD_RESP_SIZE_def CMD_HEADER_SIZE_def)
  let ?st3 = "?st2\<lparr>c_pending := [s''], dest := ?d, cmd_comp := Some True\<rparr>"
  have w: "wait_for_completion (k_events env 0) ?st = Some (?st3, True)" using to 1(1) 2(1) by (simp add: env(3) wait_step_def)
  have n: "16 \<le> ?n" using len src(3) by simp
  have "resp_status (take ?n src @ drop ?n (dest st)) = resp_status src"
    using n src(4) by (auto simp: resp_status_def le32_at_def le16_at_def nth_opt_def CMD_HEADER_SIZE_def nth_append)
  then have st: "resp_status ?d = Some w" using src(5) by simp
  have "waits 0 ?req 0 len True ?st3" using 2(2) i src(4) by (auto simp: waits_def)
  from finish_waits [OF this] have fin: "cmd_finish 0 (?st3\<lparr>cmd_comp := None\<rparr>) = Some (?st3\<lparr>cmd_comp := None, c_queue := [], c_pending := []\<rparr>)" .
  have "?st3\<lparr>cmd_comp := None, c_queue := [], c_pending := []\<rparr> = st\<lparr>cmd_comp := None, passed_on := ev, dest := ?d\<rparr>" using i by simp
  then show ?thesis using env(1,2) w st fin k len by (auto simp: cmd_try_def Let_def CMD_HEADER_SIZE_def length_set_le16)
qed

text \<open>C9: A command gets its own response: whatever late responses of earlier commands and events arrive before it, the first message
  with the command's id and sequence number is stored in the caller's buffer, as much of it as fits, and its status is what the
  command returns, in the first try. The buffer has room for a status, the queue takes the frame, the chip takes it from there before messages
  arrive, every message has a header and the response a status, other than a time-out (which would be tried again), and the octets that are copied. This holds for
  every request with at most 255 octets behind the header; a longer one is only sure of its response if no other response
  comes first: each response strips the request again, and the second time cuts it (\<open>long_command_loses_answer\<close> is
  the counterexample, recorded as a bug).
\<close>

theorem cmd_answered:
  assumes "c_queue st = []" "c_pending st = []" "length (dest st) = len" "16 \<le> len" "k_queue env"
    and "k_alloc env 0" "k_queue_tx env 0 = 0" "k_events env 0 = To_chip # map From_chip late @ From_chip src # es"
    and "whole_request req" "hdr_message_id req = Some m" "h = push_bit 4 (next_seq (cmd_seq st))"
    and "\<forall>src \<in> set late. readable src \<and> \<not> answers m h src" "short_request req \<or> (\<forall>src \<in> set late. \<not> is_response src)"
    and "answers m h src" "hdr_len src = Some l" "4 \<le> unat l" "min len (unat l + 12) \<le> length src" "resp_status src = Some w" "sint w \<noteq> - ETIMEDOUT"
  shows "\<exists>ev. morse_cmd_tx env len True req st = Some (st\<lparr>cmd_seq := next_seq (cmd_seq st), cmd_comp := None, passed_on := ev,
    dest := take (min len (unat l + 12)) src @ drop (min len (unat l + 12)) (dest st)\<rparr>, sint w)"
proof -
  let ?st = "st\<lparr>cmd_seq := next_seq (cmd_seq st), ps_holds := ps_holds st + 1\<rparr>" and ?req = "set_le16 0 MORSE_CMD_TYPE_REQ req"
  have r: "whole_request ?req" "short_request ?req \<or> (\<forall>src \<in> set late. \<not> is_response src)" using request_set [OF assms(9)] assms(13) by simp_all
  have "12 \<le> length req" using whole_requestD [OF assms(9)] by auto
  then have m: "hdr_message_id ?req = Some m" using assms(10) by (simp add: hdr_message_id_def le16_at_set_other)
  have i: "idle len ?st" using assms(1-3) by (simp add: idle_def)
  obtain ev where "cmd_try env len True ?req h 0 ?st = Some (?st\<lparr>cmd_comp := None, passed_on := ev,
      dest := take (min len (unat l + 12)) src @ drop (min len (unat l + 12)) (dest ?st)\<rparr>, sint w, True)"
    using cmd_try_answered [OF r(1) m i assms(4,6-8,12) r(2) assms(14-18)] by blast
  then show ?thesis using assms(5,11,19)
    by (auto simp: morse_cmd_tx_def Let_def MM_MAX_COMMAND_RETRY_def MORSE_CMD_HOST_ID_SEQ_SHIFT_def eval_nat_numeral)
qed

lemma cmd_answered_witness:
  "\<exists>ev. morse_cmd_tx cmd_env1 16 True cmd_req cmd_idle =
     Some (cmd_idle\<lparr>cmd_seq := next_seq (cmd_seq cmd_idle), cmd_comp := None, passed_on := ev,
       dest := take (min 16 (unat (4::u16) + 12)) cmd_answer @ drop (min 16 (unat (4::u16) + 12)) (dest cmd_idle)\<rparr>, sint (7::u32))"
proof (rule cmd_answered [where late = "[cmd_late]" and es = "[]" and m = "0x10" and h = "0x10"])
  show "whole_request cmd_req" "hdr_message_id cmd_req = Some 0x10" by code_simp+
  show "\<forall>src \<in> set [cmd_late]. readable src \<and> \<not> answers 0x10 0x10 src" by code_simp
  show "answers 0x10 0x10 cmd_answer" "hdr_len cmd_answer = Some 4" "resp_status cmd_answer = Some 7" by code_simp+
  show "short_request cmd_req \<or> (\<forall>src \<in> set [cmd_late]. \<not> is_response src)" by code_simp
  show "min 16 (unat (4::u16) + 12) \<le> length cmd_answer" by code_simp
  show "(0x10::u16) = push_bit 4 (next_seq (cmd_seq cmd_idle))" by code_simp
  show "sint (7::u32) \<noteq> - ETIMEDOUT" by code_simp
qed (simp_all add: cmd_idle_def cmd_env1_def)

section \<open>Long commands\<close>

text \<open>
  A late response takes the header away from a command of 268 octets a second time; the response to the command then matches
  nothing, and the command waits on.
\<close>

definition long_req :: "u8 list" where
  "long_req = [1, 0, 0x10, 0, 0, 1, 0x10, 0, 0, 0, 0, 0] @ replicate 256 0"

lemma pull_long: "pull_header long_req = Some (replicate 228 0)" "pull_header (replicate 228 0) = Some (replicate 188 0)"
  by (simp_all add: pull_header_def long_req_def nth_opt_def SKB_HEADER_SIZE_def Let_def drop_Cons')

lemma long_command_loses_answer:
  assumes "c_pending st = [s]" "ck_mem s = cmd_frame pad long_req" "cmd_comp st = Some False"
  shows "\<exists>st'. wait_for_completion [From_chip cmd_late, From_chip cmd_answer] st = Some (st', False)"
    and "answers 0x10 0x10 cmd_answer" "hdr_message_id long_req = Some 0x10" "hdr_host_id long_req = Some 0x10"
proof -
  have late: "hdr_flags cmd_late = Some 2" "hdr_message_id cmd_late = Some 0x10" "hdr_host_id cmd_late = Some 0xf0" by code_simp+
  have ans: "hdr_flags cmd_answer = Some 2" "hdr_message_id cmd_answer = Some 0x10" "hdr_host_id cmd_answer = Some 0x10" by code_simp+
  show req: "hdr_message_id long_req = Some 0x10" "hdr_host_id long_req = Some 0x10"
    by (simp_all add: hdr_message_id_def hdr_host_id_def le16_at_def nth_opt_def long_req_def)
  show "answers 0x10 0x10 cmd_answer" by code_simp
  have rest: "hdr_message_id (replicate 228 0) = Some 0" "hdr_host_id (replicate 228 0) = Some 0"
    by (simp_all add: hdr_message_id_def hdr_host_id_def le16_at_def nth_opt_def)
  let ?st1 = "st\<lparr>c_pending := [s\<lparr>ck_mem := long_req\<rparr>]\<rparr>" and ?st2 = "st\<lparr>c_pending := [s\<lparr>ck_mem := replicate 228 0\<rparr>]\<rparr>"
  have "wait_step (From_chip cmd_late) st = Some ?st1"
    using assms(1,2) by (simp add: wait_step_def morse_cmd_resp_process_def late pull_frame req Let_def MORSE_CMD_TYPE_RESP_def MORSE_CMD_HOST_ID_SEQ_MASK_def)
  moreover have "wait_step (From_chip cmd_answer) ?st1 = Some ?st2"
    by (simp add: wait_step_def morse_cmd_resp_process_def ans pull_long rest Let_def MORSE_CMD_TYPE_RESP_def)
  ultimately show "\<exists>st'. wait_for_completion [From_chip cmd_late, From_chip cmd_answer] st = Some (st', False)"
    using assms(3) by simp
qed

end
