(* ===== verification/Cac.thy ===== *)
theory Cac
  imports Prelude "HOL-Library.Signed_Division"
begin

text \<open>
  \<^verbatim>\<open>cac.c\<close>, centralised authentication control: an access point counts the authentication requests and adjusts the threshold it
  announces, a value up to 1023 by which stations decide whether they may associate. Under load the threshold is lowered at once,
  else it is raised at the end of a period. With the command of \<^verbatim>\<open>command.c\<close> that reads and writes the rules.
\<close>

type_synonym s16 = "16 word" \<comment> \<open>read by \<open>sint\<close>\<close>

definition CAC_THRESHOLD_MAX :: int where "CAC_THRESHOLD_MAX = 1023"
definition CAC_CFG_CHANGE_RULE_MAX :: nat where "CAC_CFG_CHANGE_RULE_MAX = 8"
definition MORSE_CAC_CHECK_INTERVAL_MS :: int where "MORSE_CAC_CHECK_INTERVAL_MS = 100"
definition MORSE_CAC_CHECK_PERIOD_MS :: int where "MORSE_CAC_CHECK_PERIOD_MS = 1000"
definition E2BIG :: int where "E2BIG = 7"

section \<open>State\<close>

record cac_rule =
  rule_arfs :: u16
  rule_change :: s16

record cac_rules =
  rule_tot :: u8
  rule :: "cac_rule list"

text \<open>\<open>cac_ap\<close>: the interface is an access point; \<open>cac_pending\<close>: the timer runs.\<close>

record morse_cac =
  cac_ap :: bool
  cac_enabled :: bool
  cac_pending :: bool
  cac_period_used :: int
  cac_rules_of :: cac_rules
  threshold_value :: u16
  cac_arfs :: u16

definition cac_threshold_change_rules_default :: cac_rules where
  "cac_threshold_change_rules_default =
     \<lparr>rule_tot = 6,
      rule = [\<lparr>rule_arfs = 16, rule_change = - 255\<rparr>, \<lparr>rule_arfs = 12, rule_change = - 122\<rparr>, \<lparr>rule_arfs = 10, rule_change = - 61\<rparr>,
              \<lparr>rule_arfs = 4, rule_change = 255\<rparr>, \<lparr>rule_arfs = 6, rule_change = 122\<rparr>, \<lparr>rule_arfs = 8, rule_change = 61\<rparr>] @
             replicate 2 \<lparr>rule_arfs = 0, rule_change = 0\<rparr>\<rparr>"

section \<open>Counting and adjusting\<close>

definition morse_cac_count_auth :: "u16 \<Rightarrow> morse_cac \<Rightarrow> morse_cac" where
  "morse_cac_count_auth auth_transaction cac = (if auth_transaction \<noteq> 1 then cac else cac\<lparr>cac_arfs := cac_arfs cac + 1\<rparr>)"

definition cac_threshold_change :: "int \<Rightarrow> morse_cac \<Rightarrow> morse_cac" where
  "cac_threshold_change diff cac =
     (let v = uint (threshold_value cac) + diff
      in cac\<lparr>threshold_value := if v < 0 then 0 else if CAC_THRESHOLD_MAX < v then word_of_int CAC_THRESHOLD_MAX else word_of_int v\<rparr>)"

fun rule_walk :: "nat list \<Rightarrow> morse_cac \<Rightarrow> bool \<Rightarrow> int option" where
  "rule_walk [] cac end_of_period = Some 0"
| "rule_walk (i # is) cac end_of_period =
     do {
       r \<leftarrow> nth_opt (rule (cac_rules_of cac)) i;
       if sint (rule_change r) < 0
       then (if rule_arfs r < cac_arfs cac then Some (sint (rule_change r)) else rule_walk is cac end_of_period)
       else if uint (threshold_value cac) = CAC_THRESHOLD_MAX then Some 0
       else if \<not> end_of_period then Some 0
       else if cac_arfs cac < rule_arfs r then Some (sint (rule_change r))
       else rule_walk is cac end_of_period
     }"

definition cac_set_threshold_change :: "bool \<Rightarrow> morse_cac \<Rightarrow> int option" where
  "cac_set_threshold_change end_of_period cac = rule_walk [0..<unat (rule_tot (cac_rules_of cac))] cac end_of_period"

definition cac_timer_work :: "morse_cac \<Rightarrow> morse_cac option" where
  "cac_timer_work cac =
     (if \<not> cac_enabled cac then Some cac
      else let cac = cac\<lparr>cac_period_used := cac_period_used cac + MORSE_CAC_CHECK_INTERVAL_MS\<rparr>;
               end_of_period = (MORSE_CAC_CHECK_PERIOD_MS \<le> cac_period_used cac)
      in do {
        change \<leftarrow> (if cac_arfs cac \<noteq> 0 \<or> uint (threshold_value cac) \<noteq> CAC_THRESHOLD_MAX
                  then cac_set_threshold_change end_of_period cac else Some 0);
        (let cac = (if change \<noteq> 0 then cac_threshold_change change cac else cac);
             cac = (if end_of_period \<or> change \<noteq> 0 then cac\<lparr>cac_period_used := 0, cac_arfs := 0\<rparr> else cac)
         in Some (cac\<lparr>cac_pending := True\<rparr>))
      })"

text \<open>The element of beacons and probe responses: the threshold in the bits from 6 on.\<close>

definition DOT11AH_S1G_CAC_THRESHOLD :: u16 where "DOT11AH_S1G_CAC_THRESHOLD = 0xffc0"

definition morse_cac_insert_ie :: "bool \<Rightarrow> morse_cac \<Rightarrow> u16 option" where
  "morse_cac_insert_ie beacon_or_probe_resp cac =
     (if \<not> cac_enabled cac \<or> \<not> beacon_or_probe_resp then None
      else Some (push_bit 6 (threshold_value cac) AND DOT11AH_S1G_CAC_THRESHOLD))"

section \<open>Turning it on and off\<close>

definition morse_cac_deinit :: "morse_cac \<Rightarrow> morse_cac \<times> int" where
  "morse_cac_deinit cac =
     (if \<not> cac_enabled cac then (cac, 0)
      else let cac = cac\<lparr>cac_enabled := False\<rparr> in if \<not> cac_ap cac then (cac, 0) else (cac\<lparr>cac_pending := False\<rparr>, 0))"

definition morse_cac_init :: "morse_cac \<Rightarrow> morse_cac \<times> int" where
  "morse_cac_init cac =
     (if cac_enabled cac then (cac, 0)
      else if \<not> cac_ap cac then (cac\<lparr>cac_enabled := True\<rparr>, 0)
      else (cac\<lparr>cac_pending := True, threshold_value := word_of_int CAC_THRESHOLD_MAX,
                cac_rules_of := cac_threshold_change_rules_default, cac_enabled := True\<rparr>, 0))"

section \<open>The command\<close>

text \<open>Percentages are kept as parts of 1023; the C division truncates.\<close>

definition cac_threshold_pc2val :: "s16 \<Rightarrow> s16" where
  "cac_threshold_pc2val v = word_of_int ((sint v * CAC_THRESHOLD_MAX) sdiv 100)"

definition cac_threshold_val2pc :: "s16 \<Rightarrow> s16" where
  "cac_threshold_val2pc v =
     (if sint v < 0 then word_of_int ((sint v * 100 - (CAC_THRESHOLD_MAX - 1)) sdiv CAC_THRESHOLD_MAX)
      else word_of_int ((sint v * 100 + CAC_THRESHOLD_MAX - 1) sdiv CAC_THRESHOLD_MAX))"

record cac_req =
  q_opcode :: u8
  q_rules :: cac_rules

text \<open>The length that is put into the response's header, and the rules in it.\<close>

record cac_resp =
  p_len :: nat
  p_rules :: cac_rules

definition CAC_OP_DISABLE :: u8 where "CAC_OP_DISABLE = 0"
definition CAC_OP_ENABLE :: u8 where "CAC_OP_ENABLE = 1"
definition CAC_OP_CFG_GET :: u8 where "CAC_OP_CFG_GET = 2"
definition CAC_OP_CFG_SET :: u8 where "CAC_OP_CFG_SET = 3"

definition no_rules :: "cac_rule list" where
  "no_rules = replicate CAC_CFG_CHANGE_RULE_MAX \<lparr>rule_arfs = 0, rule_change = 0\<rparr>"

text \<open>The loop over the rules of the command, in both directions: a rule with its change converted is put into the zeroed table.\<close>

definition convert_rule :: "(s16 \<Rightarrow> s16) \<Rightarrow> cac_rule list \<Rightarrow> nat \<Rightarrow> cac_rule list \<Rightarrow> cac_rule list option" where
  "convert_rule f src i dst =
     do { r \<leftarrow> nth_opt src i; if length dst \<le> i then None else Some (dst[i := r\<lparr>rule_change := f (rule_change r)\<rparr>]) }"

definition morse_cmd_cac_cfg_get :: "morse_cac \<Rightarrow> cac_rules option" where
  "morse_cmd_cac_cfg_get cac =
     (let rules = cac_rules_of cac
      in map_option (\<lambda>t. rules\<lparr>rule := t\<rparr>)
           (ofold (convert_rule cac_threshold_val2pc (rule rules)) [0..<min (unat (rule_tot rules)) CAC_CFG_CHANGE_RULE_MAX] no_rules))"

definition morse_cmd_cac_cfg_set :: "cac_rules \<Rightarrow> morse_cac \<Rightarrow> (morse_cac \<times> int) option" where
  "morse_cmd_cac_cfg_set req cac =
     (if CAC_CFG_CHANGE_RULE_MAX < unat (rule_tot req) then Some (cac, - E2BIG)
      else if rule_tot req = 0 then Some (cac, - EINVAL)
      else map_option (\<lambda>t. (cac\<lparr>cac_rules_of := \<lparr>rule_tot = rule_tot req, rule = t\<rparr>\<rparr>, 0))
             (ofold (convert_rule cac_threshold_pc2val (rule req)) [0..<unat (rule_tot req)] no_rules))"

definition morse_process_cac_cmd :: "cac_req \<Rightarrow> cac_resp \<Rightarrow> morse_cac \<Rightarrow> (morse_cac \<times> cac_resp \<times> int) option" where
  "morse_process_cac_cmd req resp cac =
     (let resp = resp\<lparr>p_len := 4\<rparr>
      in if q_opcode req = CAC_OP_DISABLE then Some (let (cac, ret) = morse_cac_deinit cac in (cac, resp, ret))
         else if q_opcode req = CAC_OP_ENABLE then Some (let (cac, ret) = morse_cac_init cac in (cac, resp, ret))
         else if q_opcode req = CAC_OP_CFG_GET
         then do { r \<leftarrow> morse_cmd_cac_cfg_get cac; Some (cac, resp\<lparr>p_len := 37, p_rules := r\<rparr>, 0) }
         else if q_opcode req = CAC_OP_CFG_SET
         then do { (cac, ret) \<leftarrow> morse_cmd_cac_cfg_set (q_rules req) cac; Some (cac, resp, ret) }
         else Some (cac, resp, - EINVAL))"

section \<open>Runs\<close>

text \<open>An authentication frame with its transaction number, the timer, a command; an interface starts zeroed.\<close>

datatype cac_event = Rx_auth u16 | Timer_fires | Cac_command cac_req cac_resp

definition cac_timer :: "morse_cac \<Rightarrow> morse_cac option" where
  "cac_timer cac = (if cac_pending cac then cac_timer_work (cac\<lparr>cac_pending := False\<rparr>) else Some cac)"

definition cac_step :: "cac_event \<Rightarrow> morse_cac \<Rightarrow> morse_cac option" where
  "cac_step e cac =
     (case e of
        Rx_auth t \<Rightarrow> Some (if cac_enabled cac \<and> cac_ap cac then morse_cac_count_auth t cac else cac)
      | Timer_fires \<Rightarrow> cac_timer cac
      | Cac_command req resp \<Rightarrow> map_option fst (morse_process_cac_cmd req resp cac))"

definition zero_cac :: "bool \<Rightarrow> morse_cac" where
  "zero_cac ap =
     \<lparr>cac_ap = ap, cac_enabled = False, cac_pending = False, cac_period_used = 0, cac_rules_of = \<lparr>rule_tot = 0, rule = no_rules\<rparr>,
      threshold_value = 0, cac_arfs = 0\<rparr>"

section \<open>The invariant\<close>

definition rules_ok :: "cac_rules \<Rightarrow> bool" where
  "rules_ok r \<longleftrightarrow> length (rule r) = CAC_CFG_CHANGE_RULE_MAX \<and> unat (rule_tot r) \<le> CAC_CFG_CHANGE_RULE_MAX"

definition cac_ok :: "morse_cac \<Rightarrow> bool" where
  "cac_ok cac \<longleftrightarrow>
     uint (threshold_value cac) \<le> CAC_THRESHOLD_MAX \<and> rules_ok (cac_rules_of cac) \<and>
     (cac_pending cac \<longleftrightarrow> cac_enabled cac \<and> cac_ap cac) \<and> (\<exists>n < 10. cac_period_used cac = 100 * int n)"

lemma rule_walk_defined: "\<forall>i \<in> set is. i < length (rule (cac_rules_of cac)) \<Longrightarrow> \<exists>d. rule_walk is cac e = Some d"
  by (induction "is") auto

lemma set_threshold_defined: "rules_ok (cac_rules_of cac) \<Longrightarrow> \<exists>d. cac_set_threshold_change e cac = Some d"
  unfolding cac_set_threshold_change_def by (rule rule_walk_defined) (auto simp: rules_ok_def)

lemma threshold_change_bound [preserves]: "uint (threshold_value (cac_threshold_change d cac)) \<le> CAC_THRESHOLD_MAX"
proof -
  have v: "uint (word_of_int x :: u16) = x" if "0 \<le> x" "x \<le> 1023" for x :: int using that by (simp add: uint_word_of_int)
  show ?thesis using v [of "uint (threshold_value cac) + d"] by (auto simp: cac_threshold_change_def Let_def CAC_THRESHOLD_MAX_def)
qed

lemma threshold_change_frame [frame]:
  "cac_rules_of (cac_threshold_change d cac) = cac_rules_of cac" "cac_enabled (cac_threshold_change d cac) = cac_enabled cac"
  "cac_ap (cac_threshold_change d cac) = cac_ap cac" "cac_period_used (cac_threshold_change d cac) = cac_period_used cac"
  "cac_arfs (cac_threshold_change d cac) = cac_arfs cac"
  by (simp_all add: cac_threshold_change_def Let_def)

lemma timer_ok [preserves]:
  assumes "cac_ok cac"
  shows "\<exists>cac'. cac_timer cac = Some cac' \<and> cac_ok cac'"
proof (cases "cac_pending cac")
  case False
  with assms show ?thesis by (simp add: cac_timer_def)
next
  case True
  with assms have on: "cac_enabled cac" "cac_ap cac" and r: "rules_ok (cac_rules_of cac)" and t: "uint (threshold_value cac) \<le> CAC_THRESHOLD_MAX"
    by (auto simp: cac_ok_def)
  obtain n where n: "n < 10" "cac_period_used cac = 100 * int n" using assms by (auto simp: cac_ok_def)
  let ?c = "cac\<lparr>cac_pending := False, cac_period_used := cac_period_used cac + 100\<rparr>" and ?e = "1000 \<le> cac_period_used cac + 100"
  obtain d where d: "cac_set_threshold_change ?e ?c = Some d" using set_threshold_defined [of ?c ?e] r by auto
  have n': "\<exists>k < 10. 100 * int n + 100 = 100 * int k" if "\<not> ?e" using that n by (intro exI [of _ "Suc n"]) auto
  show ?thesis using True on r t n n' d
    by (auto simp: cac_timer_def cac_timer_work_def cac_ok_def Let_def frame preserves MORSE_CAC_CHECK_INTERVAL_MS_def
        MORSE_CAC_CHECK_PERIOD_MS_def intro: exI [of _ 0])
qed

lemma convert_rules:
  assumes "n \<le> length src" "n \<le> length dst"
  shows "ofold (convert_rule f src) [0..<n] dst = Some (map (\<lambda>r. r\<lparr>rule_change := f (rule_change r)\<rparr>) (take n src) @ drop n dst)"
  using assms
proof (induction n)
  case (Suc n)
  have "ofold (convert_rule f src) [0..<Suc n] dst = Option.bind (ofold (convert_rule f src) [0..<n] dst) (ofold (convert_rule f src) [n])"
    by (simp add: ofold_append)
  also have "ofold (convert_rule f src) [0..<n] dst = Some (map (\<lambda>r. r\<lparr>rule_change := f (rule_change r)\<rparr>) (take n src) @ drop n dst)"
    using Suc by simp
  finally show ?case using Suc.prems
    by (simp add: convert_rule_def take_Suc_conv_app_nth list_update_append Cons_nth_drop_Suc [symmetric] del: upt_Suc)
qed simp

lemma cfg_get:
  assumes "rules_ok (cac_rules_of cac)"
  shows "morse_cmd_cac_cfg_get cac = Some ((cac_rules_of cac)\<lparr>rule :=
    map (\<lambda>r. r\<lparr>rule_change := cac_threshold_val2pc (rule_change r)\<rparr>) (take (unat (rule_tot (cac_rules_of cac))) (rule (cac_rules_of cac))) @
    drop (unat (rule_tot (cac_rules_of cac))) no_rules\<rparr>)"
  using assms by (simp add: morse_cmd_cac_cfg_get_def Let_def convert_rules rules_ok_def no_rules_def min_absorb1)

lemma cfg_set:
  assumes "length (rule req) = CAC_CFG_CHANGE_RULE_MAX" "unat (rule_tot req) \<le> CAC_CFG_CHANGE_RULE_MAX" "rule_tot req \<noteq> 0"
  shows "morse_cmd_cac_cfg_set req cac = Some (cac\<lparr>cac_rules_of := \<lparr>rule_tot = rule_tot req, rule =
    map (\<lambda>r. r\<lparr>rule_change := cac_threshold_pc2val (rule_change r)\<rparr>) (take (unat (rule_tot req)) (rule req)) @ drop (unat (rule_tot req)) no_rules\<rparr>\<rparr>, 0)"
  using assms by (simp add: morse_cmd_cac_cfg_set_def convert_rules no_rules_def)

text \<open>The request of a command has eight rules.\<close>

definition event_ok :: "cac_event \<Rightarrow> morse_cac \<Rightarrow> bool" where
  "event_ok e cac = (case e of Cac_command req _ \<Rightarrow> length (rule (q_rules req)) = CAC_CFG_CHANGE_RULE_MAX | _ \<Rightarrow> True)"

lemma cfg_set_ok:
  assumes "cac_ok cac" "length (rule req) = CAC_CFG_CHANGE_RULE_MAX"
  shows "\<exists>cac' ret. morse_cmd_cac_cfg_set req cac = Some (cac', ret) \<and> cac_ok cac'"
proof (cases "CAC_CFG_CHANGE_RULE_MAX < unat (rule_tot req) \<or> rule_tot req = 0")
  case True
  with assms show ?thesis by (auto simp: morse_cmd_cac_cfg_set_def)
next
  case False
  with assms show ?thesis by (auto simp: cfg_set cac_ok_def rules_ok_def no_rules_def min_absorb2)
qed

lemma cac_step_ok:
  assumes "cac_ok cac" "event_ok e cac"
  shows "\<exists>cac'. cac_step e cac = Some cac' \<and> cac_ok cac'"
proof (cases e)
  case (Rx_auth t)
  then show ?thesis using assms(1) by (auto simp: cac_step_def morse_cac_count_auth_def cac_ok_def)
next
  case Timer_fires
  then show ?thesis using timer_ok [OF assms(1)] by (simp add: cac_step_def)
next
  case (Cac_command req resp)
  have "cac_ok (fst (morse_cac_deinit cac))" using assms(1) by (auto simp: morse_cac_deinit_def Let_def cac_ok_def)
  moreover have "rules_ok cac_threshold_change_rules_default"
    by (simp add: rules_ok_def cac_threshold_change_rules_default_def CAC_CFG_CHANGE_RULE_MAX_def)
  then have "cac_ok (fst (morse_cac_init cac))" using assms(1)
    by (auto simp: morse_cac_init_def cac_ok_def CAC_THRESHOLD_MAX_def)
  moreover have "\<exists>r. morse_cmd_cac_cfg_get cac = Some r" using assms(1) by (auto simp: cac_ok_def cfg_get)
  moreover have "\<exists>cac' ret. morse_cmd_cac_cfg_set (q_rules req) cac = Some (cac', ret) \<and> cac_ok cac'"
    using Cac_command assms by (intro cfg_set_ok) (auto simp: event_ok_def)
  ultimately show ?thesis using assms(1) Cac_command
    by (auto simp: cac_step_def morse_process_cac_cmd_def Let_def split: prod.splits)
qed

interpretation cac_events: step_system cac_step cac_ok event_ok
  by unfold_locales (rule cac_step_ok)

lemma zero_cac_ok: "cac_ok (zero_cac ap)"
  by (auto simp: cac_ok_def zero_cac_def rules_ok_def no_rules_def CAC_CFG_CHANGE_RULE_MAX_def CAC_THRESHOLD_MAX_def intro: exI [of _ 0])

section \<open>The default rules\<close>

lemma walk_default:
  assumes "cac_rules_of cac = cac_threshold_change_rules_default"
  shows "cac_set_threshold_change e cac = Some
    (if 16 < cac_arfs cac then - 255 else if 12 < cac_arfs cac then - 122 else if 10 < cac_arfs cac then - 61
     else if uint (threshold_value cac) = CAC_THRESHOLD_MAX \<or> \<not> e then 0
     else if cac_arfs cac < 4 then 255 else if cac_arfs cac < 6 then 122 else if cac_arfs cac < 8 then 61 else 0)"
proof -
  have "[0..<unat (rule_tot (cac_rules_of cac))] = [0, 1, 2, 3, 4, 5]"
    using assms by (simp add: cac_threshold_change_rules_default_def upt_rec)
  then show ?thesis using assms by (simp add: cac_set_threshold_change_def cac_threshold_change_rules_default_def)
qed

text \<open>What the timer does, by the change that the rules ask for.\<close>

definition clamp :: "int \<Rightarrow> u16" where
  "clamp v = (if v < 0 then 0 else if CAC_THRESHOLD_MAX < v then word_of_int CAC_THRESHOLD_MAX else word_of_int v)"

definition asked_change :: "bool \<Rightarrow> morse_cac \<Rightarrow> int" where
  "asked_change e cac =
     (if cac_arfs cac = 0 \<and> uint (threshold_value cac) = CAC_THRESHOLD_MAX then 0
      else if 16 < cac_arfs cac then - 255 else if 12 < cac_arfs cac then - 122 else if 10 < cac_arfs cac then - 61
      else if uint (threshold_value cac) = CAC_THRESHOLD_MAX \<or> \<not> e then 0
      else if cac_arfs cac < 4 then 255 else if cac_arfs cac < 6 then 122 else if cac_arfs cac < 8 then 61 else 0)"

lemma timer_result:
  assumes "cac_ok cac" "cac_enabled cac" "cac_ap cac" "cac_rules_of cac = cac_threshold_change_rules_default"
    and d: "d = asked_change (cac_period_used cac = 900) cac"
  shows "cac_timer cac = Some (if cac_period_used cac = 900 \<or> d \<noteq> 0
    then cac\<lparr>cac_period_used := 0, cac_arfs := 0, threshold_value := if d = 0 then threshold_value cac else clamp (uint (threshold_value cac) + d)\<rparr>
    else cac\<lparr>cac_period_used := cac_period_used cac + 100\<rparr>)"
proof -
  have p: "cac_pending cac" using assms(1-3) by (simp add: cac_ok_def)
  obtain n where n: "n < 10" "cac_period_used cac = 100 * int n" using assms(1) by (auto simp: cac_ok_def)
  let ?c = "cac\<lparr>cac_pending := False, cac_period_used := cac_period_used cac + 100\<rparr>" and ?e = "1000 \<le> cac_period_used cac + 100"
  have e: "?e \<longleftrightarrow> cac_period_used cac = 900" using n by presburger
  have w: "(if cac_arfs cac \<noteq> 0 \<or> uint (threshold_value cac) \<noteq> CAC_THRESHOLD_MAX then cac_set_threshold_change ?e ?c else Some 0) = Some d"
    using walk_default [of ?c ?e] assms(4) unfolding d asked_change_def e by simp
  define step where "step change = (let c = (if change \<noteq> 0 then cac_threshold_change change ?c else ?c);
      c = (if ?e \<or> change \<noteq> 0 then c\<lparr>cac_period_used := 0, cac_arfs := 0\<rparr> else c) in c\<lparr>cac_pending := True\<rparr>)" for change
  have "cac_timer cac = Option.bind (if cac_arfs cac \<noteq> 0 \<or> uint (threshold_value cac) \<noteq> CAC_THRESHOLD_MAX
      then cac_set_threshold_change ?e ?c else Some 0) (\<lambda>change. Some (step change))"
    using p assms(2) unfolding step_def
    by (simp add: cac_timer_def cac_timer_work_def Let_def MORSE_CAC_CHECK_INTERVAL_MS_def MORSE_CAC_CHECK_PERIOD_MS_def)
  then have tick: "cac_timer cac = Some (step d)" unfolding w by simp
  show ?thesis
  proof (cases "d = 0")
    case True
    then show ?thesis using tick e p by (cases "?e") (simp_all add: step_def Let_def)
  next
    case False
    then have "step d = cac\<lparr>cac_period_used := 0, cac_arfs := 0, threshold_value := clamp (uint (threshold_value cac) + d)\<rparr>"
      using p by (simp add: step_def Let_def cac_threshold_change_def clamp_def)
    with tick False show ?thesis by simp
  qed
qed

lemma clamp_up: "clamp (uint t + 255) = (if 768 \<le> uint t then 1023 else t + 255)"
proof -
  have "\<not> uint t + 255 < 0" using uint_ge_0 [of t] by linarith
  moreover have "t = 768" if "uint t = 768" using that by (metis word_of_int_numeral word_of_int_uint)
  ultimately show ?thesis by (auto simp: clamp_def CAC_THRESHOLD_MAX_def)
qed

lemma clamp_down:
  assumes "uint t \<le> 1023"
  shows "uint (clamp (uint (t :: u16) + - 255)) = max 0 (uint t - 255)"
proof -
  have v: "uint (word_of_int x :: u16) = x" if "0 \<le> x" "x \<le> 1023" for x :: int using that by (simp add: uint_word_of_int)
  show ?thesis using v [of "uint t + - 255"] assms by (auto simp: clamp_def CAC_THRESHOLD_MAX_def)
qed

text \<open>A tick without requests only counts, or raises the threshold at the end of the period.\<close>

lemma quiet_tick:
  assumes "cac_ok cac" "cac_enabled cac" "cac_ap cac" "cac_rules_of cac = cac_threshold_change_rules_default" "cac_arfs cac = 0"
  shows "cac_timer cac = Some (if cac_period_used cac = 900
    then cac\<lparr>cac_period_used := 0, threshold_value := if 768 \<le> uint (threshold_value cac) then 1023 else threshold_value cac + 255\<rparr>
    else cac\<lparr>cac_period_used := cac_period_used cac + 100\<rparr>)"
proof -
  have m: "threshold_value cac = 1023" if "uint (threshold_value cac) = 1023" using that by (metis word_of_int_numeral word_of_int_uint)
  have a: "cac\<lparr>cac_arfs := 0\<rparr> = cac" using assms(5) by simp
  have d: "asked_change (cac_period_used cac = 900) cac =
      (if cac_period_used cac = 900 \<and> uint (threshold_value cac) \<noteq> CAC_THRESHOLD_MAX then 255 else 0)"
    using assms(5) by (simp add: asked_change_def)
  show ?thesis unfolding timer_result [OF assms(1-4) refl] d using m assms(5)
    by (cases "cac_period_used cac = 900"; cases "uint (threshold_value cac) = 1023") (simp_all add: clamp_up CAC_THRESHOLD_MAX_def)
qed

text \<open>A tick after requests only counts, or ends the period.\<close>

lemma busy_tick:
  assumes "cac_ok cac" "cac_enabled cac" "cac_ap cac" "cac_rules_of cac = cac_threshold_change_rules_default"
  shows "\<exists>t. cac_timer cac = Some (cac\<lparr>cac_period_used := 0, cac_arfs := 0, threshold_value := t\<rparr>) \<or>
    cac_timer cac = Some (cac\<lparr>cac_period_used := cac_period_used cac + 100\<rparr>) \<and> cac_period_used cac \<noteq> 900"
proof (cases "cac_period_used cac = 900 \<or> asked_change (cac_period_used cac = 900) cac \<noteq> 0")
  case True
  show ?thesis using timer_result [OF assms refl] unfolding if_P [OF True] by blast
next
  case False
  then show ?thesis using timer_result [OF assms refl] unfolding if_not_P [OF False] by blast
qed

text \<open>How many ticks without further requests it takes at most until there is no restriction.\<close>

definition ticks_left :: "morse_cac \<Rightarrow> int" where
  "ticks_left cac =
     (if cac_arfs cac \<noteq> 0 then 60 - cac_period_used cac div 100
      else if threshold_value cac = 1023 then 0
      else 10 * ((1023 - uint (threshold_value cac) + 254) div 255) - cac_period_used cac div 100)"

lemma ticks_left_bounds:
  assumes "cac_ok cac"
  shows "0 \<le> ticks_left cac" "ticks_left cac \<le> 60" "ticks_left cac = 0 \<Longrightarrow> threshold_value cac = 1023"
proof -
  obtain n where n: "n < 10" "cac_period_used cac div 100 = int n" using assms by (auto simp: cac_ok_def)
  have t: "0 \<le> uint (threshold_value cac)" "uint (threshold_value cac) \<le> 1023" using assms by (simp_all add: cac_ok_def CAC_THRESHOLD_MAX_def)
  have m: "threshold_value cac = 1023" if "uint (threshold_value cac) = 1023" using that by (metis word_of_int_numeral word_of_int_uint)
  have q: "1 \<le> (1023 - uint (threshold_value cac) + 254) div 255" if "threshold_value cac \<noteq> 1023"
  proof -
    have "uint (threshold_value cac) \<noteq> 1023" using m that by blast
    then show ?thesis using t by linarith
  qed
  have u: "(1023 - uint (threshold_value cac) + 254) div 255 \<le> 5" using t by linarith
  show "0 \<le> ticks_left cac" using n q by (auto simp: ticks_left_def)
  show "ticks_left cac \<le> 60" using n u by (auto simp: ticks_left_def)
  show "threshold_value cac = 1023" if "ticks_left cac = 0" using that n q by (auto simp: ticks_left_def split: if_splits)
qed

lemma tick_progress:
  assumes "cac_ok cac" "cac_enabled cac" "cac_ap cac" "cac_rules_of cac = cac_threshold_change_rules_default"
  shows "\<exists>cac'. cac_timer cac = Some cac' \<and> cac_enabled cac' \<and> cac_ap cac' \<and> cac_rules_of cac' = cac_threshold_change_rules_default \<and>
    (ticks_left cac = 0 \<and> ticks_left cac' = 0 \<or> ticks_left cac' \<le> ticks_left cac - 1)"
proof (cases "cac_arfs cac = 0")
  case True
  note tick = quiet_tick [OF assms True]
  have t: "0 \<le> uint (threshold_value cac)" "uint (threshold_value cac) \<le> 1023" using assms(1) by (simp_all add: cac_ok_def CAC_THRESHOLD_MAX_def)
  have m: "threshold_value cac = 1023" if "uint (threshold_value cac) = 1023" using that by (metis word_of_int_numeral word_of_int_uint)
  show ?thesis
  proof (cases "cac_period_used cac = 900 \<and> uint (threshold_value cac) < 768")
    case True
    then have u: "uint (threshold_value cac + 255) = uint (threshold_value cac) + 255"
      by (simp add: uint_plus_if')
    then have "threshold_value cac + 255 \<noteq> 1023" "threshold_value cac \<noteq> 1023" using True by auto
    moreover have "(1023 - (uint (threshold_value cac) + 255) + 254) div 255 = (1023 - uint (threshold_value cac) + 254) div 255 - 1" by linarith
    ultimately show ?thesis using True tick u assms(2-4) \<open>cac_arfs cac = 0\<close> by (simp add: ticks_left_def)
  next
    case False
    moreover have "1 \<le> (1023 - uint (threshold_value cac) + 254) div 255" if "threshold_value cac \<noteq> 1023"
    proof -
      have "uint (threshold_value cac) \<noteq> 1023" using m that by blast
      then show ?thesis using t by linarith
    qed
    ultimately show ?thesis using tick assms(2-4) True by (auto simp: ticks_left_def)
  qed
next
  case False
  obtain n where n: "n < 10" "cac_period_used cac = 100 * int n" using assms(1) by (auto simp: cac_ok_def)
  obtain cac' where c: "cac_timer cac = Some cac'" "cac_ok cac'" using timer_ok [OF assms(1)] by blast
  from busy_tick [OF assms] obtain t where
    "cac' = cac\<lparr>cac_period_used := 0, cac_arfs := 0, threshold_value := t\<rparr> \<or>
     cac' = cac\<lparr>cac_period_used := cac_period_used cac + 100\<rparr> \<and> cac_period_used cac \<noteq> 900" using c(1) by auto
  then show ?thesis
  proof
    assume c': "cac' = cac\<lparr>cac_period_used := 0, cac_arfs := 0, threshold_value := t\<rparr>"
    have "uint t \<ge> 0" by simp
    then have "(1023 - uint t + 254) div 255 \<le> 5" by linarith
    then have "ticks_left cac' \<le> 50" by (simp add: ticks_left_def c')
    moreover have "51 \<le> ticks_left cac" using False n by (simp add: ticks_left_def)
    ultimately show ?thesis using c(1) c' assms(2-4) by auto
  qed (use c(1) False n assms(2-4) in \<open>auto simp: ticks_left_def\<close>)
qed

lemma ticks_recover:
  assumes "cac_ok cac" "cac_enabled cac" "cac_ap cac" "cac_rules_of cac = cac_threshold_change_rules_default" "ticks_left cac \<le> int k"
  shows "\<exists>cac'. ofold cac_step (replicate k Timer_fires) cac = Some cac' \<and> threshold_value cac' = 1023"
  using assms
proof (induction k arbitrary: cac)
  case 0
  then show ?case using ticks_left_bounds [of cac] by simp
next
  case (Suc k)
  obtain x where x: "cac_timer cac = Some x" "cac_enabled x" "cac_ap x" "cac_rules_of x = cac_threshold_change_rules_default"
    "ticks_left cac = 0 \<and> ticks_left x = 0 \<or> ticks_left x \<le> ticks_left cac - 1" using tick_progress [OF Suc.prems(1-4)] by blast
  have "cac_ok x" using timer_ok [OF Suc.prems(1)] x(1) by auto
  moreover have "ticks_left x \<le> int k" using x(5) Suc.prems(5) by auto
  ultimately have "\<exists>y. ofold cac_step (replicate k Timer_fires) x = Some y \<and> threshold_value y = 1023" using x by (intro Suc.IH) auto
  moreover have "cac_step Timer_fires cac = Some x" using x(1) by (simp add: cac_step_def)
  ultimately show ?case by simp
qed

lemma step_keeps_ap: "cac_step e cac = Some cac' \<Longrightarrow> cac_ap cac' = cac_ap cac"
  by (cases e) (auto simp: cac_step_def morse_cac_count_auth_def cac_timer_def cac_timer_work_def Let_def frame morse_process_cac_cmd_def
      morse_cac_deinit_def morse_cac_init_def morse_cmd_cac_cfg_set_def split: if_splits Option.bind_splits)

lemma run_keeps_ap: "ofold cac_step es cac = Some cac' \<Longrightarrow> cac_ap cac' = cac_ap cac"
  by (induction es arbitrary: cac) (auto simp: step_keeps_ap split: Option.bind_splits)

lemma cac_events_ok: "(\<And>e c. e \<in> set es \<Longrightarrow> event_ok e c) \<Longrightarrow> all_ok cac_step event_ok es cac"
  by (induction es arbitrary: cac) (auto split: option.splits)

lemma count_requests:
  "cac_enabled cac \<Longrightarrow> cac_ap cac \<Longrightarrow> ofold cac_step (replicate n (Rx_auth 1)) cac = Some (cac\<lparr>cac_arfs := cac_arfs cac + of_nat n\<rparr>)"
  by (induction n arbitrary: cac) (simp_all add: cac_step_def morse_cac_count_auth_def)

lemma sdiv_nonneg: "0 \<le> (a :: int) \<Longrightarrow> 0 < b \<Longrightarrow> a sdiv b = a div b"
  by (cases "a = 0") (simp_all add: signed_divide_int_def)

lemma sdiv_neg: "(a :: int) < 0 \<Longrightarrow> 0 < b \<Longrightarrow> a sdiv b = - (- a div b)"
  by (simp add: signed_divide_int_def)

text \<open>A percentage comes back.\<close>

lemma pc_round_trip:
  assumes "\<bar>sint v\<bar> \<le> 100"
  shows "cac_threshold_val2pc (cac_threshold_pc2val v) = v"
proof -
  have s: "sint (word_of_int x :: s16) = x" if "\<bar>x\<bar> \<le> 1023" for x
    using that by (auto simp: sint_sbintrunc' signed_take_bit_int_eq_self_iff)
  show ?thesis
  proof (cases "sint v < 0")
    case False
    let ?x = "sint v * 1023 div 100"
    have x: "sint v * 1023 sdiv 100 = ?x" using False by (simp add: sdiv_nonneg)
    have "\<bar>?x\<bar> \<le> 1023" "0 \<le> ?x" using assms False by linarith+
    moreover have "(1022 + ?x * 100) div 1023 = sint v" using assms False by linarith
    moreover have "(1022 + ?x * 100) sdiv 1023 = (1022 + ?x * 100) div 1023" using \<open>0 \<le> ?x\<close> by (simp add: sdiv_nonneg)
    ultimately show ?thesis using x s [of ?x]
      by (simp add: cac_threshold_val2pc_def cac_threshold_pc2val_def CAC_THRESHOLD_MAX_def)
  next
    case True
    let ?x = "- (- sint v * 1023 div 100)"
    have x: "sint v * 1023 sdiv 100 = ?x" using True by (simp add: sdiv_neg)
    have "\<bar>?x\<bar> \<le> 1023" "?x < 0" using assms True by linarith+
    moreover have "(- ?x * 100 + 1022) div 1023 = - sint v" using assms True by linarith
    moreover have "(?x * 100 - 1022) sdiv 1023 = - ((- ?x * 100 + 1022) div 1023)" using \<open>?x < 0\<close> by (simp add: sdiv_neg)
    ultimately show ?thesis using x s [of ?x]
      by (simp add: cac_threshold_val2pc_def cac_threshold_pc2val_def CAC_THRESHOLD_MAX_def)
  qed
qed

section \<open>The theorems\<close>

text \<open>C22: With the default rules, more than 16 requests lower the threshold by 255 parts of 1023 at the very next check, wherever in the
  period it falls; and once the requests stop, at most 60 checks (six seconds) later nothing is restricted any more. Both hold in
  every state that frames, checks and commands can lead to.
\<close>

theorem cac_surge_and_recovery:
  assumes "all_ok cac_step event_ok es (zero_cac True)" "ofold cac_step es (zero_cac True) = Some cac"
    and "cac_enabled cac" "cac_rules_of cac = cac_threshold_change_rules_default"
  shows "(16 < cac_arfs cac \<longrightarrow> (\<exists>cac'. cac_step Timer_fires cac = Some cac' \<and>
      uint (threshold_value cac') = max 0 (uint (threshold_value cac) - 255) \<and> cac_arfs cac' = 0 \<and> cac_period_used cac' = 0)) \<and>
    (\<exists>cac'. ofold cac_step (replicate 60 Timer_fires) cac = Some cac' \<and> threshold_value cac' = 1023)"
proof -
  have ok: "cac_ok cac" using cac_events.run_ok [OF zero_cac_ok assms(1)] assms(2) by simp
  have ap: "cac_ap cac" using run_keeps_ap [OF assms(2)] by (simp add: zero_cac_def)
  note st = ok assms(3) ap assms(4)
  have t: "uint (threshold_value cac) \<le> 1023" using ok by (simp add: cac_ok_def CAC_THRESHOLD_MAX_def)
  have "\<exists>cac'. cac_step Timer_fires cac = Some cac' \<and>
      uint (threshold_value cac') = max 0 (uint (threshold_value cac) - 255) \<and> cac_arfs cac' = 0 \<and> cac_period_used cac' = 0" if "16 < cac_arfs cac"
  proof -
    have "asked_change (cac_period_used cac = 900) cac = - 255" using that by (auto simp: asked_change_def)
    then have "cac_step Timer_fires cac = Some (cac\<lparr>cac_period_used := 0, cac_arfs := 0, threshold_value := clamp (uint (threshold_value cac) + - 255)\<rparr>)"
      using timer_result [OF st refl] by (simp add: cac_step_def)
    moreover have "uint (clamp (uint (threshold_value cac) + - 255)) = max 0 (uint (threshold_value cac) - 255)" by (rule clamp_down [OF t])
    ultimately show ?thesis by simp
  qed
  moreover have "\<exists>cac'. ofold cac_step (replicate 60 Timer_fires) cac = Some cac' \<and> threshold_value cac' = 1023"
    using ticks_left_bounds(2) [OF ok] by (intro ticks_recover [OF st]) simp
  ultimately show ?thesis by blast
qed

lemma cac_surge_and_recovery_witness:
  "\<exists>cac. ofold cac_step (Cac_command \<lparr>q_opcode = 1, q_rules = \<lparr>rule_tot = 0, rule = no_rules\<rparr>\<rparr> \<lparr>p_len = 0, p_rules = \<lparr>rule_tot = 0, rule = []\<rparr>\<rparr> #
      replicate 17 (Rx_auth 1)) (zero_cac True) = Some cac \<and> cac_arfs cac = 17 \<and>
    (\<exists>cac'. cac_step Timer_fires cac = Some cac' \<and> uint (threshold_value cac') = 768) \<and>
    (\<exists>cac'. ofold cac_step (replicate 60 Timer_fires) cac = Some cac' \<and> threshold_value cac' = 1023)"
proof -
  let ?es = "Cac_command \<lparr>q_opcode = 1, q_rules = \<lparr>rule_tot = 0, rule = no_rules\<rparr>\<rparr> \<lparr>p_len = 0, p_rules = \<lparr>rule_tot = 0, rule = []\<rparr>\<rparr> # replicate 17 (Rx_auth 1)"
  let ?cac = "(zero_cac True)\<lparr>cac_pending := True, threshold_value := 1023, cac_rules_of := cac_threshold_change_rules_default,
      cac_enabled := True, cac_arfs := 17\<rparr>"
  let ?on = "?cac\<lparr>cac_arfs := 0\<rparr>"
  have "ofold cac_step ?es (zero_cac True) = ofold cac_step (replicate 17 (Rx_auth 1)) ?on"
    by (simp add: cac_step_def morse_process_cac_cmd_def Let_def CAC_OP_DISABLE_def CAC_OP_ENABLE_def morse_cac_init_def zero_cac_def CAC_THRESHOLD_MAX_def)
  also have "\<dots> = Some (?on\<lparr>cac_arfs := cac_arfs ?on + of_nat 17\<rparr>)" by (rule count_requests) (simp_all add: zero_cac_def)
  finally have run: "ofold cac_step ?es (zero_cac True) = Some ?cac" by simp
  have ok: "all_ok cac_step event_ok ?es (zero_cac True)"
    by (rule cac_events_ok) (auto simp: event_ok_def no_rules_def split: cac_event.splits)
  show ?thesis using cac_surge_and_recovery [OF ok run] run by auto
qed

text \<open>C38: The rules that are configured are the rules that are read back: the percentages are kept as parts of 1023, rounded down, and
  turned back rounded up, and come back as they were for every percentage from -100 to 100; of the rest of the table, zeros.
\<close>

theorem cac_rules_read_back:
  assumes "length (rule req) = 8" "0 < unat (rule_tot req)" "unat (rule_tot req) \<le> 8"
    and "\<forall>r \<in> set (rule req). \<bar>sint (rule_change r)\<bar> \<le> 100"
  shows "\<exists>cac'. morse_process_cac_cmd \<lparr>q_opcode = CAC_OP_CFG_SET, q_rules = req\<rparr> resp cac = Some (cac', resp\<lparr>p_len := 4\<rparr>, 0) \<and>
    morse_process_cac_cmd \<lparr>q_opcode = CAC_OP_CFG_GET, q_rules = q\<rparr> resp cac' =
      Some (cac', resp\<lparr>p_len := 37, p_rules := req\<lparr>rule := take (unat (rule_tot req)) (rule req) @ drop (unat (rule_tot req)) no_rules\<rparr>\<rparr>, 0)"
proof -
  let ?n = "unat (rule_tot req)"
  define t where "t = map (\<lambda>r. r\<lparr>rule_change := cac_threshold_pc2val (rule_change r)\<rparr>) (take ?n (rule req)) @ drop ?n no_rules"
  let ?cac = "cac\<lparr>cac_rules_of := \<lparr>rule_tot = rule_tot req, rule = t\<rparr>\<rparr>"
  have nz: "rule_tot req \<noteq> 0" using assms(2) by auto
  have n: "rules_ok (cac_rules_of ?cac)" "take ?n t = map (\<lambda>r. r\<lparr>rule_change := cac_threshold_pc2val (rule_change r)\<rparr>) (take ?n (rule req))"
    using assms(1,3) by (auto simp: t_def rules_ok_def no_rules_def CAC_CFG_CHANGE_RULE_MAX_def min_absorb2)
  have same: "map (\<lambda>r. r\<lparr>rule_change := cac_threshold_val2pc (rule_change r)\<rparr>) (take ?n t) = take ?n (rule req)"
    unfolding n(2) map_map using assms(4) by (intro map_idI) (auto simp: pc_round_trip dest: in_set_takeD)
  have "morse_cmd_cac_cfg_set req cac = Some (?cac, 0)"
    unfolding t_def using assms(1,3) nz by (intro cfg_set) (simp_all add: CAC_CFG_CHANGE_RULE_MAX_def)
  moreover have "morse_cmd_cac_cfg_get ?cac = Some (req\<lparr>rule := take ?n (rule req) @ drop ?n no_rules\<rparr>)"
    using cfg_get [OF n(1)] same by (cases req) simp
  ultimately show ?thesis
    by (simp add: morse_process_cac_cmd_def CAC_OP_DISABLE_def CAC_OP_ENABLE_def CAC_OP_CFG_GET_def CAC_OP_CFG_SET_def)
qed

lemma cac_rules_read_back_witness:
  "\<exists>cac'. morse_process_cac_cmd \<lparr>q_opcode = CAC_OP_CFG_SET, q_rules = \<lparr>rule_tot = 1, rule = replicate 8 \<lparr>rule_arfs = 5, rule_change = - 33\<rparr>\<rparr>\<rparr>
      \<lparr>p_len = 0, p_rules = \<lparr>rule_tot = 0, rule = []\<rparr>\<rparr> (zero_cac True) = Some (cac', \<lparr>p_len = 4, p_rules = \<lparr>rule_tot = 0, rule = []\<rparr>\<rparr>, 0)"
  using cac_rules_read_back [of "\<lparr>rule_tot = 1, rule = replicate 8 \<lparr>rule_arfs = 5, rule_change = - 33\<rparr>\<rparr>"
      "\<lparr>p_len = 0, p_rules = \<lparr>rule_tot = 0, rule = []\<rparr>\<rparr>" "zero_cac True"] by auto

section \<open>A rule that raises the threshold, placed first\<close>

text \<open>
  While nothing is restricted, the walk over the rules ends at the first rule that raises the threshold: the rules after it that lower
  it are not looked at, and no number of requests ever restricts anything.
\<close>

lemma raising_rule_first:
  assumes "threshold_value cac = 1023" "0 < unat (rule_tot (cac_rules_of cac))"
    and "nth_opt (rule (cac_rules_of cac)) 0 = Some r" "0 \<le> sint (rule_change r)" "set es \<subseteq> insert Timer_fires (range Rx_auth)"
  shows "\<exists>cac'. ofold cac_step es cac = Some cac' \<and> threshold_value cac' = 1023"
  using assms
proof (induction es arbitrary: cac)
  case (Cons e es)
  have "[0..<unat (rule_tot (cac_rules_of cac))] = 0 # [1..<unat (rule_tot (cac_rules_of cac))]" using Cons.prems(2) by (simp add: upt_conv_Cons)
  then have 0: "cac_set_threshold_change b (cac\<lparr>cac_pending := p, cac_period_used := u\<rparr>) = Some 0" for b p u
    using Cons.prems(1,3,4) by (simp add: cac_set_threshold_change_def CAC_THRESHOLD_MAX_def)
  have "\<exists>x. cac_step e cac = Some x \<and> threshold_value x = 1023 \<and> cac_rules_of x = cac_rules_of cac"
    using Cons.prems(1,5) 0 by (auto simp: cac_step_def cac_timer_def cac_timer_work_def Let_def morse_cac_count_auth_def)
  then obtain x where x: "cac_step e cac = Some x" "threshold_value x = 1023" "cac_rules_of x = cac_rules_of cac" by blast
  then have "\<exists>y. ofold cac_step es x = Some y \<and> threshold_value y = 1023" using Cons.prems by (intro Cons.IH) auto
  with x(1) show ?case by simp
qed simp

end
