(* ===== verification/Ps.thy ===== *)
theory Ps
  imports Skbq
begin

text \<open>
  \<^verbatim>\<open>ps.c\<close>, power save: users of the chip hold it awake by a counter; when nobody does, no event waits and no frame is buffered, the
  driver lowers the wake pin and switches the bus off, after recent traffic only when a timeout has passed. Each call is one step (they
  hold the lock); the pins, the clock and the queues are read from an environment.
\<close>

section \<open>State\<close>

text \<open>
  \<open>bus_on\<close> and \<open>wake_pin\<close> are what the driver last set; \<open>async_wake_work\<close>: the work item is queued; \<open>delayed_eval_work\<close>: the time at which
  the evaluation is due.
\<close>

record morse_ps =
  wakers :: u32
  ps_en :: bool
  suspended :: bool
  dynamic_ps_en :: bool
  bus_ps_timeout :: u64
  async_wake_work :: bool
  delayed_eval_work :: "u64 option"
  bus_on :: bool
  wake_pin :: bool

text \<open>
  The board (whether it has the pins, the level that means busy), and at a call: the clock and the flags of the driver, the
  frames buffered, the busy pin, and whether the wake pin can be set; \<open>msecs_to_jiffies\<close> is the kernel's.
\<close>

record ps_env =
  mm_ps_gpios_supported :: bool
  busy_active_low :: bool
  chip :: morse
  tx_buffered_count :: nat
  async_gpio :: bool
  gpio_ok :: bool
  msecs_to_jiffies :: "int \<Rightarrow> u64"

definition DEFAULT_BUS_TIMEOUT_MS :: int where "DEFAULT_BUS_TIMEOUT_MS = 5"

text \<open>Times are compared by the sign of their difference.\<close>

definition time_after :: "u64 \<Rightarrow> u64 \<Rightarrow> bool" where "time_after a b \<longleftrightarrow> sint (b - a) < 0"

section \<open>Operations\<close>

definition morse_ps_is_busy_pin_asserted :: "ps_env \<Rightarrow> bool" where
  "morse_ps_is_busy_pin_asserted e = (if \<not> mm_ps_gpios_supported e then False else async_gpio e = (\<not> busy_active_low e))"

definition morse_ps_set_wake_gpio :: "ps_env \<Rightarrow> bool \<Rightarrow> morse_ps \<Rightarrow> morse_ps" where
  "morse_ps_set_wake_gpio e level s = (if \<not> mm_ps_gpios_supported e \<or> \<not> gpio_ok e then s else s\<lparr>wake_pin := level\<rparr>)"

text \<open>The wait for the chip after the pin was raised ends in any case.\<close>

definition morse_ps_wakeup :: "ps_env \<Rightarrow> morse_ps \<Rightarrow> morse_ps" where
  "morse_ps_wakeup e s =
     (if \<not> ps_en s then s
      else if \<not> suspended s then s
      else (morse_ps_set_wake_gpio e True s)\<lparr>bus_on := True, suspended := False\<rparr>)"

definition morse_ps_sleep :: "ps_env \<Rightarrow> morse_ps \<Rightarrow> morse_ps" where
  "morse_ps_sleep e s =
     (if \<not> ps_en s then s
      else if suspended s then s
      else morse_ps_set_wake_gpio e False (s\<lparr>suspended := True, bus_on := False\<rparr>))"

text \<open>Nobody waits for the chip to wake up when this interrupt is a step of its own.\<close>

definition morse_ps_irq_handle :: "morse_ps \<Rightarrow> morse_ps" where
  "morse_ps_irq_handle s = s\<lparr>async_wake_work := True\<rparr>"

definition morse_ps_async_wake_work :: "ps_env \<Rightarrow> morse_ps \<Rightarrow> morse_ps" where
  "morse_ps_async_wake_work e s = (if \<not> morse_ps_is_busy_pin_asserted e then s else morse_ps_wakeup e s)"

definition morse_ps_bus_activity :: "ps_env \<Rightarrow> int \<Rightarrow> morse_ps \<Rightarrow> morse_ps" where
  "morse_ps_bus_activity e timeout_ms s = s\<lparr>bus_ps_timeout := jiffies (chip e) + msecs_to_jiffies e timeout_ms\<rparr>"

definition needs_wake :: "ps_env \<Rightarrow> morse_ps \<Rightarrow> bool" where
  "needs_wake e s \<longleftrightarrow> 0 < wakers s \<or> event_flags (chip e) - {DATA_TRAFFIC_PAUSE_PEND} \<noteq> {} \<or> 0 < tx_buffered_count e"

definition eval_expire :: "ps_env \<Rightarrow> morse_ps \<Rightarrow> u64" where
  "eval_expire e s =
     (let expire = jiffies (chip e) + msecs_to_jiffies e DEFAULT_BUS_TIMEOUT_MS
      in if dynamic_ps_en s \<and> time_after (bus_ps_timeout s) expire then bus_ps_timeout s else expire)"

definition morse_ps_evaluate :: "ps_env \<Rightarrow> morse_ps \<Rightarrow> morse_ps" where
  "morse_ps_evaluate e s =
     (if \<not> ps_en s then s
      else let recent = (\<not> needs_wake e s \<and> dynamic_ps_en s \<and> morse_is_data_tx_allowed (chip e) \<and> time_after (bus_ps_timeout s) (jiffies (chip e)));
               (s, eval_later) =
                 (if needs_wake e s \<or> recent then (morse_ps_wakeup e s, recent)
                  else if morse_ps_is_busy_pin_asserted e then (s, True)
                  else (morse_ps_sleep e s, False))
      in if eval_later then s\<lparr>delayed_eval_work := Some (eval_expire e s)\<rparr> else s)"

definition morse_ps_evaluate_work :: "ps_env \<Rightarrow> morse_ps \<Rightarrow> morse_ps" where
  "morse_ps_evaluate_work e s = (if \<not> ps_en s then s else morse_ps_evaluate e s)"

definition morse_ps_enable :: "ps_env \<Rightarrow> morse_ps \<Rightarrow> morse_ps \<times> int" where
  "morse_ps_enable e s =
     (if \<not> ps_en s then (s, 0)
      else if wakers s = 0 then (s, - EFAULT)
      else (morse_ps_evaluate e (s\<lparr>wakers := wakers s - 1\<rparr>), 0))"

definition morse_ps_disable :: "ps_env \<Rightarrow> morse_ps \<Rightarrow> morse_ps \<times> int" where
  "morse_ps_disable e s =
     (if \<not> ps_en s then (s, 0) else (morse_ps_evaluate e (s\<lparr>wakers := wakers s + 1\<rparr>), 0))"

text \<open>The answers of the kernel to the requests of the wake pin and of the interrupt; the pins and the interrupt themselves are not kept.\<close>

definition morse_ps_init :: "ps_env \<Rightarrow> bool \<Rightarrow> bool \<Rightarrow> int \<Rightarrow> morse_ps \<Rightarrow> morse_ps \<times> int" where
  "morse_ps_init e enable enable_dynamic_ps gpio_ret s =
     (let s = s\<lparr>ps_en := enable, bus_ps_timeout := jiffies (chip e), dynamic_ps_en := enable_dynamic_ps, suspended := False, wakers := 1\<rparr>
      in if \<not> enable then (s, 0)
         else let s = s\<lparr>async_wake_work := False, delayed_eval_work := None\<rparr>
         in if \<not> mm_ps_gpios_supported e then (s, 0)
            else if gpio_ret < 0 then (s, gpio_ret)
            else (if gpio_ok e then s\<lparr>wake_pin := True\<rparr> else s, 0))"

definition morse_ps_finish :: "morse_ps \<Rightarrow> morse_ps" where
  "morse_ps_finish s =
     (if ps_en s then s\<lparr>ps_en := False, dynamic_ps_en := False, async_wake_work := False, delayed_eval_work := None\<rparr> else s)"

section \<open>Runs\<close>

datatype ps_call = Ps_enable | Ps_disable | Bus_activity int | Wake_irq | Async_work | Eval_work

text \<open>A work item runs only when it is queued.\<close>

fun ps_step :: "ps_env \<times> ps_call \<Rightarrow> morse_ps \<Rightarrow> morse_ps" where
  "ps_step (e, Ps_enable) s = fst (morse_ps_enable e s)"
| "ps_step (e, Ps_disable) s = fst (morse_ps_disable e s)"
| "ps_step (e, Bus_activity t) s = morse_ps_bus_activity e t s"
| "ps_step (e, Wake_irq) s = morse_ps_irq_handle s"
| "ps_step (e, Async_work) s =
     (if async_wake_work s then morse_ps_async_wake_work e (s\<lparr>async_wake_work := False\<rparr>) else s)"
| "ps_step (e, Eval_work) s =
     (case delayed_eval_work s of None \<Rightarrow> s | Some _ \<Rightarrow> morse_ps_evaluate_work e (s\<lparr>delayed_eval_work := None\<rparr>))"

text \<open>The number of holds: one from the start, one more by each \<open>morse_ps_disable\<close>.\<close>

fun count_hold :: "ps_env \<times> ps_call \<Rightarrow> nat \<Rightarrow> nat" where
  "count_hold (e, Ps_enable) n = n - 1"
| "count_hold (e, Ps_disable) n = n + 1"
| "count_hold _ n = n"

section \<open>The invariant\<close>

text \<open>The bus and the pin say whether the chip is awake, and it is while somebody holds it.\<close>

definition ps_ok :: "bool \<Rightarrow> morse_ps \<Rightarrow> bool" where
  "ps_ok pins s \<longleftrightarrow> ps_en s \<and> bus_on s = (\<not> suspended s) \<and> (pins \<longrightarrow> wake_pin s = (\<not> suspended s)) \<and> (0 < wakers s \<longrightarrow> \<not> suspended s)"

definition ps_env_ok :: "bool \<Rightarrow> ps_env \<Rightarrow> bool" where
  "ps_env_ok pins e \<longleftrightarrow> gpio_ok e \<and> mm_ps_gpios_supported e = pins"

lemma wakeup_fields [frame]:
  "wakers (morse_ps_wakeup e s) = wakers s" "ps_en (morse_ps_wakeup e s) = ps_en s" "dynamic_ps_en (morse_ps_wakeup e s) = dynamic_ps_en s"
  "bus_ps_timeout (morse_ps_wakeup e s) = bus_ps_timeout s" "delayed_eval_work (morse_ps_wakeup e s) = delayed_eval_work s"
  "ps_en s \<Longrightarrow> \<not> suspended (morse_ps_wakeup e s)"
  by (simp_all add: morse_ps_wakeup_def morse_ps_set_wake_gpio_def)

lemma sleep_fields [frame]:
  "wakers (morse_ps_sleep e s) = wakers s" "ps_en (morse_ps_sleep e s) = ps_en s" "dynamic_ps_en (morse_ps_sleep e s) = dynamic_ps_en s"
  "bus_ps_timeout (morse_ps_sleep e s) = bus_ps_timeout s" "delayed_eval_work (morse_ps_sleep e s) = delayed_eval_work s"
  "ps_en s \<Longrightarrow> suspended (morse_ps_sleep e s)"
  by (simp_all add: morse_ps_sleep_def morse_ps_set_wake_gpio_def)

text \<open>Waking up and going to sleep set the bus and the pin, whatever the holds are.\<close>

definition lines_ok :: "bool \<Rightarrow> morse_ps \<Rightarrow> bool" where
  "lines_ok pins s \<longleftrightarrow> ps_en s \<and> bus_on s = (\<not> suspended s) \<and> (pins \<longrightarrow> wake_pin s = (\<not> suspended s))"

lemma wakeup_ok [preserves]: "ps_env_ok pins e \<Longrightarrow> lines_ok pins s \<Longrightarrow> ps_ok pins (morse_ps_wakeup e s)"
  by (auto simp: ps_env_ok_def lines_ok_def ps_ok_def morse_ps_wakeup_def morse_ps_set_wake_gpio_def)

lemma sleep_ok [preserves]: "ps_env_ok pins e \<Longrightarrow> lines_ok pins s \<Longrightarrow> wakers s = 0 \<Longrightarrow> ps_ok pins (morse_ps_sleep e s)"
  by (auto simp: ps_env_ok_def lines_ok_def ps_ok_def morse_ps_sleep_def morse_ps_set_wake_gpio_def)

lemma lines_iff: "ps_ok pins s \<longleftrightarrow> lines_ok pins s \<and> (0 < wakers s \<longrightarrow> \<not> suspended s)"
  by (auto simp: ps_ok_def lines_ok_def)

lemma ps_ok_delayed [simp]: "ps_ok pins (s\<lparr>delayed_eval_work := d\<rparr>) = ps_ok pins s"
  by (simp add: ps_ok_def)

lemma ps_ok_wakers: "lines_ok pins s \<Longrightarrow> wakers s = 0 \<Longrightarrow> ps_ok pins s"
  by (simp add: lines_iff)

lemma needs_wake_holds: "\<not> needs_wake e s \<Longrightarrow> wakers s = 0"
  by (simp add: needs_wake_def word_gt_0)

text \<open>The four ways of an evaluation.\<close>

definition recent_traffic :: "ps_env \<Rightarrow> morse_ps \<Rightarrow> bool" where
  "recent_traffic e s \<longleftrightarrow> dynamic_ps_en s \<and> morse_is_data_tx_allowed (chip e) \<and> time_after (bus_ps_timeout s) (jiffies (chip e))"

lemma eval_expire_frame [frame]:
  "eval_expire e (morse_ps_wakeup e s) = eval_expire e s"
  by (simp add: eval_expire_def frame Let_def)

lemma evaluate_cases:
  assumes "ps_en s"
  shows "morse_ps_evaluate e s =
    (if needs_wake e s then morse_ps_wakeup e s
     else if recent_traffic e s then (morse_ps_wakeup e s)\<lparr>delayed_eval_work := Some (eval_expire e s)\<rparr>
     else if morse_ps_is_busy_pin_asserted e then s\<lparr>delayed_eval_work := Some (eval_expire e s)\<rparr>
     else morse_ps_sleep e s)"
  using assms by (auto simp: morse_ps_evaluate_def recent_traffic_def Let_def frame)

lemma evaluate_ok [preserves]:
  assumes "ps_env_ok pins e" "lines_ok pins s"
  shows "ps_ok pins (morse_ps_evaluate e s)" "wakers (morse_ps_evaluate e s) = wakers s"
  using assms wakeup_ok [OF assms] sleep_ok [OF assms] needs_wake_holds [of e s] ps_ok_wakers [OF assms(2)]
  by (simp_all add: evaluate_cases lines_ok_def frame)

text \<open>One call.\<close>

lemma ps_step_ok:
  assumes "ps_env_ok pins e" "ps_ok pins s" "unat (wakers s) < 4294967295"
  shows "ps_ok pins (ps_step (e, c) s) \<and> unat (wakers (ps_step (e, c) s)) = count_hold (e, c) (unat (wakers s))"
proof -
  have l: "lines_ok pins (s\<lparr>wakers := w\<rparr>)" "lines_ok pins (s\<lparr>delayed_eval_work := None\<rparr>)" "lines_ok pins (s\<lparr>async_wake_work := False\<rparr>)" for w
    using assms(2) by (simp_all add: ps_ok_def lines_ok_def)
  have en: "ps_en s" using assms(2) by (simp add: ps_ok_def)
  note w = evaluate_ok [OF assms(1) l(1)] evaluate_ok [OF assms(1) l(2)] wakeup_ok [OF assms(1) l(3)]
  show ?thesis
  proof (cases c)
    case Ps_enable
    have "unat (wakers s - 1) = unat (wakers s) - 1" if "wakers s \<noteq> 0" using that by (simp add: unat_minus_one)
    then show ?thesis using Ps_enable assms(2) en w by (auto simp: morse_ps_enable_def)
  next
    case Ps_disable
    have "unat (wakers s + 1) = unat (wakers s) + 1" using assms(3) by (simp add: unat_word_ariths)
    then show ?thesis using Ps_disable en w by (simp add: morse_ps_disable_def)
  next
    case Eval_work
    then show ?thesis using assms(2) en w by (auto simp: morse_ps_evaluate_work_def split: option.splits)
  next
    case Async_work
    then show ?thesis using assms(2) en w by (auto simp: morse_ps_async_wake_work_def frame ps_ok_def)
  qed (use assms(2) in \<open>simp_all add: morse_ps_bus_activity_def morse_ps_irq_handle_def ps_ok_def\<close>)
qed

lemma ps_run_ok:
  assumes "\<forall>c \<in> set cs. ps_env_ok pins (fst c)" "ps_ok pins s" "unat (wakers s) + length cs \<le> 4294967295"
  shows "ps_ok pins (fold ps_step cs s) \<and> unat (wakers (fold ps_step cs s)) = fold count_hold cs (unat (wakers s))"
  using assms
proof (induction cs arbitrary: s)
  case (Cons ec cs)
  obtain e c where ec: "ec = (e, c)" by (cases ec)
  have step: "ps_ok pins (ps_step ec s)" "unat (wakers (ps_step ec s)) = count_hold ec (unat (wakers s))"
    using ps_step_ok [of pins e s c] Cons.prems ec by auto
  moreover have "count_hold ec (unat (wakers s)) \<le> unat (wakers s) + 1" unfolding ec by (cases c) simp_all
  then have "unat (wakers (ps_step ec s)) + length cs \<le> 4294967295" using Cons.prems(3) unfolding step(2) by simp
  ultimately show ?case using Cons.IH [of "ps_step ec s"] Cons.prems(1) by simp
qed simp

text \<open>The state after \<open>morse_ps_init\<close>, when the pins could be had.\<close>

lemma ps_init_ok:
  assumes "ps_env_ok pins e" "bus_on s"
  shows "ps_ok pins (fst (morse_ps_init e True dyn 0 s))" "wakers (fst (morse_ps_init e True dyn 0 s)) = 1"
  using assms by (auto simp: morse_ps_init_def Let_def ps_ok_def ps_env_ok_def)

text \<open>Nothing in the environment holds the chip awake.\<close>

definition no_reason :: "ps_env \<Rightarrow> bool" where
  "no_reason e \<longleftrightarrow> event_flags (chip e) \<subseteq> {DATA_TRAFFIC_PAUSE_PEND} \<and> tx_buffered_count e = 0"

lemma needs_wake_no_reason: "no_reason e \<Longrightarrow> needs_wake e s \<longleftrightarrow> wakers s \<noteq> 0"
  by (auto simp: no_reason_def needs_wake_def word_gt_0)

lemma expired: "\<not> time_after (bus_ps_timeout s) (eval_expire e s)" if "dynamic_ps_en s"
  using that by (simp add: eval_expire_def time_after_def Let_def)

text \<open>The evaluation at its time is the last one.\<close>

lemma last_evaluation:
  assumes "ps_ok pins s" "wakers s = 0" "no_reason e'" "\<not> morse_ps_is_busy_pin_asserted e'"
    and "dynamic_ps_en s \<longrightarrow> \<not> time_after (bus_ps_timeout s) (jiffies (chip e'))"
  shows "suspended (morse_ps_evaluate e' s)"
  using assms by (simp add: evaluate_cases needs_wake_no_reason recent_traffic_def frame ps_ok_def)

section \<open>The theorems\<close>

text \<open>C10: As long as somebody holds the chip awake, by more calls of \<open>morse_ps_disable\<close> than of \<open>morse_ps_enable\<close>, it is not suspended,
  the bus is on and the wake pin high; and bus and pin never say anything else than the state, whatever traffic, timers and
  interrupts come between.
\<close>

theorem ps_held_is_awake:
  assumes "ps_env_ok pins e" "bus_on s" "\<forall>c \<in> set cs. ps_env_ok pins (fst c)" "length cs < 4294967295"
    and "t = fold ps_step cs (fst (morse_ps_init e True dyn 0 s))"
  shows "unat (wakers t) = fold count_hold cs 1 \<and> (0 < fold count_hold cs 1 \<longrightarrow> \<not> suspended t) \<and>
    bus_on t = (\<not> suspended t) \<and> (pins \<longrightarrow> wake_pin t = (\<not> suspended t))"
proof -
  have "unat (1 :: u32) = 1" by simp
  then have "ps_ok pins t" "unat (wakers t) = fold count_hold cs 1"
    using ps_run_ok [OF assms(3) ps_init_ok(1) [OF assms(1,2), of dyn]] ps_init_ok(2) [OF assms(1,2), of dyn] assms(4,5) by auto
  then show ?thesis by (auto simp: ps_ok_def word_gt_0 unat_eq_zero [symmetric])
qed

definition ps_chip :: "u64 \<Rightarrow> morse" where
  "ps_chip now =
     \<lparr>fullmac = False, started = True, airtime_fairness = False, monitor_mode = False, morse.ps_enable = True, ps_suspended = False,
      fw_reports_bcn_tx_status = False, stale_status_enabled = False, vifs = [], extra_tx_offset = 0, bulk_alignment = 4, max_txq_len = 32,
      queued_lifetime = 0, status_lifetime = 0, jiffies = now, state_flags = {}, event_flags = {}, chip_work_queued = False,
      ps_eval_queued = False, stale_timer = None, stopped_acs = [],
      page_stats = \<lparr>queue_stop = 0, tx_aged_out = 0, tx_status_dropped = 0, tx_status_flushed = 0, tx_status_page_invalid = 0,
        tx_status_duty_cycle_cant_send = 0\<rparr>, fates = [], notices = []\<rparr>"

definition ps_env_at :: "u64 \<Rightarrow> ps_env" where
  "ps_env_at now =
     \<lparr>mm_ps_gpios_supported = True, busy_active_low = False, chip = ps_chip now, tx_buffered_count = 0, async_gpio = False, gpio_ok = True,
      msecs_to_jiffies = word_of_int\<rparr>"

definition ps_before :: morse_ps where
  "ps_before = \<lparr>wakers = 0, ps_en = False, suspended = False, dynamic_ps_en = False, bus_ps_timeout = 0, async_wake_work = False,
     delayed_eval_work = None, bus_on = True, wake_pin = False\<rparr>"

lemma ps_held_is_awake_witness:
  "bus_on (fold ps_step [(ps_env_at 1, Ps_disable), (ps_env_at 2, Ps_enable)] (fst (morse_ps_init (ps_env_at 0) True False 0 ps_before)))"
  using ps_held_is_awake [of True "ps_env_at 0" ps_before "[(ps_env_at 1, Ps_disable), (ps_env_at 2, Ps_enable)]" _ False, OF _ _ _ _ refl]
  by (simp add: ps_env_ok_def ps_env_at_def ps_before_def)

text \<open>C21: When the last hold is given up and nothing else needs the chip, it goes to sleep: at once, or, after recent traffic or while
  the chip signals that it is busy, an evaluation is queued; at the time it is queued for, one evaluation lets the chip sleep, with
  bus and pin down, unless something new needs it. So the chip is never left awake without reason.
\<close>

theorem ps_goes_to_sleep:
  assumes "ps_env_ok pins e0" "bus_on s0" "\<forall>c \<in> set cs. ps_env_ok pins (fst c)" "length cs < 4294967295"
    and "s = fold ps_step cs (fst (morse_ps_init e0 True dyn 0 s0))" "fold count_hold cs 1 = 1"
    and "ps_env_ok pins e" "no_reason e" "t = ps_step (e, Ps_enable) s"
  shows "suspended t \<and> \<not> bus_on t \<or>
    (\<exists>due. delayed_eval_work t = Some due \<and>
      (\<forall>e'. ps_env_ok pins e' \<and> no_reason e' \<and> \<not> morse_ps_is_busy_pin_asserted e' \<and> jiffies (chip e') = due \<longrightarrow>
        suspended (ps_step (e', Eval_work) t) \<and> \<not> bus_on (ps_step (e', Eval_work) t) \<and> (pins \<longrightarrow> \<not> wake_pin (ps_step (e', Eval_work) t))))"
proof -
  have "unat (1 :: u32) = 1" by simp
  then have s: "ps_ok pins s" "unat (wakers s) = 1"
    using ps_run_ok [OF assms(3) ps_init_ok(1) [OF assms(1,2), of dyn]] ps_init_ok(2) [OF assms(1,2), of dyn] assms(4-6) by auto
  have t: "ps_ok pins t" "unat (wakers t) = 0" using ps_step_ok [OF assms(7) s(1), of Ps_enable] s(2) assms(9) by auto
  have "unat (wakers s) = unat (1 :: u32)" using s(2) by simp
  then have w: "wakers s = 1" "wakers t = 0" using t(2) by (simp_all only: word_unat_eq_iff unat_0)
  let ?s = "s\<lparr>wakers := 0\<rparr>"
  have en: "ps_en s" "ps_en t" using s(1) t(1) by (simp_all add: ps_ok_def)
  have te: "t = morse_ps_evaluate e ?s" using w(1) en(1) by (simp add: assms(9) morse_ps_enable_def)
  show ?thesis
  proof (cases "suspended t")
    case True
    then show ?thesis using t(1) by (simp add: ps_ok_def)
  next
    case False
    then have later: "delayed_eval_work t = Some (eval_expire e ?s)" "dynamic_ps_en t = dynamic_ps_en ?s" "bus_ps_timeout t = bus_ps_timeout ?s"
      using en(1) unfolding te by (auto simp: evaluate_cases needs_wake_no_reason [OF assms(8)] frame split: if_splits)
    have "suspended (ps_step (e', Eval_work) t) \<and> \<not> bus_on (ps_step (e', Eval_work) t) \<and> (pins \<longrightarrow> \<not> wake_pin (ps_step (e', Eval_work) t))"
      if e': "ps_env_ok pins e'" "no_reason e'" "\<not> morse_ps_is_busy_pin_asserted e'" "jiffies (chip e') = eval_expire e ?s" for e'
    proof -
      let ?t = "t\<lparr>delayed_eval_work := None\<rparr>"
      have "suspended (morse_ps_evaluate e' ?t)"
        using t(1) w(2) e'(2-4) expired [of ?s e] later(2,3) by (intro last_evaluation [where pins = pins]) simp_all
      moreover have "ps_step (e', Eval_work) t = morse_ps_evaluate e' ?t" using later(1) en(2) by (simp add: morse_ps_evaluate_work_def)
      moreover have "ps_ok pins (morse_ps_evaluate e' ?t)" using t(1) by (intro evaluate_ok [OF e'(1)]) (simp add: lines_ok_def ps_ok_def)
      ultimately show ?thesis by (simp add: ps_ok_def)
    qed
    with later(1) show ?thesis by blast
  qed
qed

lemma ps_goes_to_sleep_witness:
  "let t = ps_step (ps_env_at 3, Ps_enable) (fold ps_step [(ps_env_at 1, Bus_activity 90)] (fst (morse_ps_init (ps_env_at 0) True True 0 ps_before)))
   in (suspended t \<and> \<not> bus_on t \<or> delayed_eval_work t \<noteq> None) \<and> delayed_eval_work t = Some 91"
proof -
  let ?s = "fold ps_step [(ps_env_at 1, Bus_activity 90)] (fst (morse_ps_init (ps_env_at 0) True True 0 ps_before))"
  let ?t = "ps_step (ps_env_at 3, Ps_enable) ?s"
  have ok: "ps_env_ok True (ps_env_at n)" "no_reason (ps_env_at n)" for n by (simp_all add: ps_env_ok_def no_reason_def ps_env_at_def ps_chip_def)
  have "suspended ?t \<and> \<not> bus_on ?t \<or> delayed_eval_work ?t \<noteq> None"
    using ps_goes_to_sleep [of True "ps_env_at 0" ps_before "[(ps_env_at 1, Bus_activity 90)]" ?s True "ps_env_at 3" ?t] ok
    by (auto simp: ps_before_def)
  moreover have "delayed_eval_work ?t = Some 91" by code_simp
  ultimately show ?thesis by (simp add: Let_def)
qed

section \<open>Waking up by the chip\<close>

text \<open>
  When the chip wakes the driver up by its pin, no evaluation is queued: the driver stays awake until the next call that evaluates.
\<close>

lemma woken_stays_awake:
  assumes "ps_ok pins s" "wakers s = 0" "suspended s" "delayed_eval_work s = None" "async_wake_work s" "morse_ps_is_busy_pin_asserted e"
  shows "\<not> suspended (ps_step (e, Async_work) s)" "delayed_eval_work (ps_step (e, Async_work) s) = None"
  using assms by (simp_all add: morse_ps_async_wake_work_def frame ps_ok_def)

end
