(* ===== verification/Spec2Isabelle.thy ===== *)
theory Spec2Isabelle
  imports Crc16_Xmodem Rc Tim_Theorems Skbq_Theorems Pager_Hw Pager_Sw Pageset_Theorems Yaps_Wake Twt_Theorems Command_Theorems Cac Ps
begin

text \<open>
  A model of the core of the Morse Micro Wi-Fi HaLow driver (\<^verbatim>\<open>src/driver/morse_driver-1.16.4\<close>) and the theorems that
  make it correct.

  \<^bold>\<open>The program.\<close> The driver sits between mac80211 and a chip with its own firmware. A frame to send gets a
  header and is put on a queue (\<^verbatim>\<open>skbq.c\<close>); the work item of the page sets (\<^verbatim>\<open>pageset.c\<close>) takes frames off their
  queue, writes each into a free page of chip memory and puts the page to the chip through a pager
  (\<^verbatim>\<open>pager_if_hw.c\<close>, a bitmap behind a register, or \<^verbatim>\<open>pager_if_sw.c\<close>, a ring buffer in chip memory); other chips take the
  frames as a stream of packets (\<^verbatim>\<open>yaps.c\<close>, \<^verbatim>\<open>yaps-hw.c\<close>). The chip
  reports what became of a frame in TX status records, which find their frame by its packet id on the
  pending list of its queue and carry the rates tried to the rate control (\<^verbatim>\<open>mmrc.c\<close>). Frames from the chip
  come in pages, too, are checked (\<^verbatim>\<open>morse_validate_skb_checksum\<close>) and dispatched. The traffic indication map of S1G
  beacons is encoded and decoded by \<^verbatim>\<open>dot11ah/tim.c\<close>. Stations agree with their access point on times to wake
  (\<^verbatim>\<open>twt.c\<close>): the driver answers the requests, allots the times and installs agreements in the firmware. The driver and the
  firmware talk by commands and responses (\<^verbatim>\<open>command.c\<close>), one command at a time; whoever uses the chip holds it awake (\<^verbatim>\<open>ps.c\<close>).
  An access point under load restricts who may associate (\<^verbatim>\<open>cac.c\<close>). Finally,
  \<^verbatim>\<open>crc16_xmodem.c\<close> is the checksum of the SPI bus.

  \<^bold>\<open>Theories.\<close>
    \<^item> \<open>Prelude\<close>: widths of C integers, checked division and indexing, folds that may fail, the locale
      \<open>step_system\<close> of invariants over runs.
    \<^item> \<open>Crc16_Xmodem\<close> (\<^verbatim>\<open>crc16_xmodem.c\<close>): the three ways to compute the CRC, as functions of the start value and
      the octets, and the combination of two CRCs. Shown: they agree, and the combination is that of the
      concatenation; tables are checked against the polynomial.
    \<^item> \<open>Mmrc_Rates\<close>, \<open>Mmrc\<close> (\<^verbatim>\<open>mmrc-submodule/src/core/mmrc.c\<close>): the rate arithmetic and the rate control, with its table
      as a record and the random numbers as a stream. Shown: table indices and rates convert back and
      forth (but for the rows without a rate and the guards a bandwidth does not allow, which are named), what a chain of
      rates looks like, how feedback and the periodic update count.
    \<^item> \<open>Rc\<close> (\<^verbatim>\<open>rc.c\<close>): the capabilities of the stations mac80211 adds (\<open>morse_rc_sta_add\<close>). Shown: for which stations the table is
      undefined (none of the streams is common to both sides; one rate only at 1 MHz), and that for all others every run of the rate
      control keeps its invariant.
    \<^item> \<open>Tim\<close>, \<open>Tim_Codec\<close>, \<open>Tim_Theorems\<close> (\<^verbatim>\<open>dot11ah/tim.c\<close>): the element as octets, the decoder and encoder of the four
      block encodings. Shown: decoding gives back what was encoded, but for the multicast bit of an empty map with
      slice 31; the loops end; where the decoder
      reads past its input and where inverse and ADE blocks lose stations. The early returns of both functions for NULL arguments are
      not modelled.
    \<^item> \<open>Skbq\<close>, \<open>Skbq_Frames\<close>, \<open>Skbq_User\<close>, \<open>Skbq_Theorems\<close> (\<^verbatim>\<open>skbq.c\<close>): a queue is its two lists and its size; frames are
      records named by their address (\<open>sk_ptr\<close>), and every frame that leaves the queues is recorded with
      its fate. Shown: over any sequence of calls sizes are exact and every frame is on one list, ended once, or
      leaked (\<open>frames_accounted\<close>): only the reinsertion of a frame into a queue without room leaks one; reinsertion keeps the
      order, a status finishes the frame it names.
    \<^item> \<open>Pager\<close>, \<open>Pager_Hw\<close> (\<^verbatim>\<open>pager_if.c\<close>, \<^verbatim>\<open>pager_if_hw.c\<close>): registers and chip memory are operations on a state of
      any type (\<open>bus_ops\<close>). Shown: the bitmap implements a set of pages, and what is notified is what the
      other side caches.
    \<^item> \<open>Pager_Sw\<close> (\<^verbatim>\<open>pager_if_sw.c\<close>): the ring buffer. Shown, on a memory that keeps what is written: it implements a
      bounded queue of octets across its wrap-around. The allocation of a notification is taken to succeed.
    \<^item> \<open>Skb_Header\<close>, \<open>Pageset\<close>, \<open>Pageset_Frames\<close>, \<open>Pageset_Theorems\<close> (\<^verbatim>\<open>pageset.c\<close>): both page sets, the driver's queues and the
      state of pagers and chip are one record (\<open>pagesets\<close>); the four pagers are a record of operations
      (\<open>env\<close>), so that the lemmas hold for either kind. The caches' properties are proved once for every
      property of a kind (locales \<open>cache_property\<close>, \<open>cache_invariant\<close>). Shown: sending a queue accounts for each
      frame, free pages stay distinct, the last reserved page is kept for commands, the flag of pages left to read is lost
      at the end of a work item.
    \<^item> \<open>Yaps_Hw\<close>, \<open>Yaps_Stream\<close>, \<open>Yaps_Bounds\<close> (\<^verbatim>\<open>yaps-hw.c\<close>): the other way to the chip, a stream of packets behind delimiters with a
      CRC (the kernel's \<open>crc7_be_byte\<close> is a parameter). Shown: what is written is read back, no more is written than the chip
      has room for, and reading stays within its buffers if the chip reports whole words, except exactly for a packet that is smaller
      than its reserved part.
    \<^item> \<open>Yaps\<close>, \<open>Yaps_Frames\<close>, \<open>Yaps_Wake\<close> (\<^verbatim>\<open>yaps.c\<close>): the queues over that stream, with the timer of a full chip. Shown: where
      every frame is after a queue was sent; with interrupts, timer, clock and work as steps (\<open>yaps_step\<close>), that no wake-up of pending
      data is lost.
    \<^item> \<open>Twt\<close>, \<open>Twt_Fields\<close> (\<^verbatim>\<open>twt.c\<close>, target wake time): the element and the fields of an agreement. Shown: what fields keep when
      an agreement is accepted, how an interval is encoded, and that an element that was written is parsed as it was meant.
    \<^item> \<open>Twt_Agreements\<close>, \<open>Twt_Events\<close>, \<open>Twt_Requester\<close> (\<^verbatim>\<open>twt.c\<close>, and its callers in \<^verbatim>\<open>mac.c\<close>): the state \<open>struct morse_twt\<close> as the record
      \<open>twt\<close>, with events as objects of a heap and queues of their addresses; the responder's state machine; frames, commands, start and
      end.
    \<^item> \<open>Twt_Lists\<close>, \<open>Twt_Queues\<close>, \<open>Twt_Safety\<close>, \<open>Twt_Frames\<close>, \<open>Twt_Calls\<close>, \<open>Twt_Runs\<close>: the invariant (\<open>twt_ok\<close>: lists of agreements
      refer to agreements that exist, each event has one owner) and that every operation keeps it, from freeing an event up to whole runs
      (\<open>twt_step\<close>). \<open>Twt_Slots\<close>: the periods of the agreements in a list do not overlap. \<open>Twt_Accept\<close>: a request is accepted with the wake time
      that was allotted. \<open>Twt_Theorems\<close>: the theorems, on
      example runs, and where the code falls short: a reject in an association response is freed twice, an interval of 0 divides by 0, a
      full interval is overfilled, a request ends an agreement, events leak at the end of an interface.
    \<^item> \<open>Command\<close>, \<open>Command_Theorems\<close> (\<^verbatim>\<open>morse_cmd_tx\<close> and \<^verbatim>\<open>morse_cmd_resp_process\<close> of \<^verbatim>\<open>command.c\<close>): a command, its retry, and the
      messages that arrive while it waits, as a list. Shown: a short command gets its own response whatever late ones come first, it returns and
      leaves nothing behind; a long command (256 octets behind the header) loses its response after a late one, so its
      theorems exclude that.
    \<^item> \<open>Cac\<close> (\<^verbatim>\<open>cac.c\<close>, and its command): the counter, the rules, the threshold. Shown: the threshold falls at the next check under load and
      recovers within 60 checks without, in every reachable state; rules are read back as configured; a rule that raises, placed first,
      disables the others.
    \<^item> \<open>Ps\<close> (\<^verbatim>\<open>ps.c\<close>): holds, timeouts and the two work items, with pins and clock from outside. Shown: a chip that is held is awake, and
      one that nobody needs goes to sleep.

  \<^bold>\<open>Conventions.\<close> Undefined behaviour (a read outside an array, a division by 0, a NULL pointer, a loop that does not
  end) is \<open>None\<close>; a theorem that a result is \<open>Some\<close> says that it does not happen. Error codes are negative integers as
  in the code. Unsigned fields that cannot wrap are natural numbers; where the code can wrap they are words
  or reduced explicitly (\<open>trunc8\<close>, \<open>trunc16\<close>, \<open>trunc32\<close>, \<open>sub32\<close>).

  \<^bold>\<open>Bounds.\<close> The loops of \<^verbatim>\<open>pageset.c\<close> that are bounded in the code have that bound as fuel (32 pages received, 64
  popped); the loop that is not bounded is a partial function, and \<open>fill_reserved_diverges\<close> is a pager with which it does not end. The TIM coder's loops recurse over their input. The status of the YAPS chip is read as often as fits into
  the time the code waits, a parameter; the clock of the runs stays below 2 to the 62 jiffies. The
  loop over the events of target wake time (\<open>handle_walk\<close>) is a partial function; it is shown to end, as each pass takes an event off. The
  loop over the tries of a command has their number (\<open>MM_MAX_COMMAND_RETRY\<close>) as fuel, which is never used up.

  \<^bold>\<open>Not modelled.\<close> Locks, interrupt contexts and the tasklets' interleaving (each operation is one step), statistics that
  nothing reads, tracing, and everything that is only I/O: the buses, firmware loading, debugfs. mac80211 appears
  as the fates and notices recorded. Not reached: RAW, page slicing, PV1 frames,
  vendor elements, channels; then \<^verbatim>\<open>mac.c\<close> and the structures of the single commands. The command-line tool and
  the S1G fork of hostap under \<^verbatim>\<open>src/tools\<close> are not modelled.
\<close>

end
